(* ===== verification/Prelude.thy ===== *)
theory Prelude
  imports Main "HOL-Library.Word"
begin

unbundle bit_operations_syntax

text \<open>
  Shared vocabulary of the development: the machine integer types of the Rust
  sources, results and the \<open>?\<close> operator over an explicit state, register files, the
  \<open>field_get\<close> / \<open>field_prep\<close> bit field helpers that several crates declare, little-endian
  byte access, and the generic lemmas the component theories use.
\<close>

section \<open>Types\<close>

type_synonym u8 = "8 word"
type_synonym u16 = "16 word"
type_synonym u32 = "32 word"
type_synonym u64 = "64 word"

text \<open>
  A register block: the value that a 32-bit volatile access reads at each byte offset.
  It is used for configuration registers, which hold what was last written to them;
  registers that the hardware changes by itself are read through explicit inputs.
\<close>

type_synonym regs = "nat \<Rightarrow> u32"

text \<open>
  A fallible method with a mutable receiver: it takes the state and returns a result,
  \<open>Inl\<close> an error or \<open>Inr\<close> a value, together with the state it leaves. The state is
  returned on the error branches too, because the Rust code keeps what it had already
  changed when it returns early.
\<close>

type_synonym ('s, 'e, 'a) stepper = "'s \<Rightarrow> ('e + 'a) \<times> 's"

named_theorems result_simps \<open>equations that evaluate the result combinators\<close>
named_theorems field_masks \<open>bit field masks as shifted blocks of ones\<close>

section \<open>Results and the question mark operator\<close>

definition ok :: "'a \<Rightarrow> ('s, 'e, 'a) stepper" where
  "ok x = (\<lambda>s. (Inr x, s))"

definition err :: "'e \<Rightarrow> ('s, 'e, 'a) stepper" where
  "err e = (\<lambda>s. (Inl e, s))"

text \<open>\<open>try_bind m f\<close> is \<open>f(m?)\<close>: an error of \<open>m\<close> is returned as it is, in the state \<open>m\<close> left.\<close>

definition try_bind ::
  "('s, 'e, 'a) stepper \<Rightarrow> ('a \<Rightarrow> ('s, 'e, 'b) stepper) \<Rightarrow> ('s, 'e, 'b) stepper" where
  "try_bind m f = (\<lambda>s. case m s of (Inl e, s') \<Rightarrow> (Inl e, s') | (Inr x, s') \<Rightarrow> f x s')"

text \<open>\<open>map_error h m\<close> is \<open>m.map_err(h)\<close>.\<close>

definition map_error :: "('e \<Rightarrow> 'f) \<Rightarrow> ('s, 'e, 'a) stepper \<Rightarrow> ('s, 'f, 'a) stepper" where
  "map_error h m = (\<lambda>s. case m s of (Inl e, s') \<Rightarrow> (Inl (h e), s') | (Inr x, s') \<Rightarrow> (Inr x, s'))"

definition get_state :: "('s \<Rightarrow> 'a) \<Rightarrow> ('s, 'e, 'a) stepper" where
  "get_state g = (\<lambda>s. (Inr (g s), s))"

definition put_state :: "('s \<Rightarrow> 's) \<Rightarrow> ('s, 'e, unit) stepper" where
  "put_state u = (\<lambda>s. (Inr (), u s))"

lemma ok_apply [simp, result_simps]: "ok x s = (Inr x, s)"
  by (simp add: ok_def)

lemma err_apply [simp, result_simps]: "err e s = (Inl e, s)"
  by (simp add: err_def)

lemma get_state_apply [simp, result_simps]: "get_state g s = (Inr (g s), s)"
  by (simp add: get_state_def)

lemma put_state_apply [simp, result_simps]: "put_state u s = (Inr (), u s)"
  by (simp add: put_state_def)

lemma try_bind_apply [result_simps]:
  "try_bind m f s = (case m s of (Inl e, s') \<Rightarrow> (Inl e, s') | (Inr x, s') \<Rightarrow> f x s')"
  by (simp add: try_bind_def)

lemma try_bind_Inr [simp]: "m s = (Inr x, s') \<Longrightarrow> try_bind m f s = f x s'"
  by (simp add: try_bind_def)

lemma try_bind_Inl [simp]: "m s = (Inl e, s') \<Longrightarrow> try_bind m f s = (Inl e, s')"
  by (simp add: try_bind_def)

lemma try_bind_InrE:
  assumes "try_bind m f s = (Inr y, t)"
  obtains x s' where "m s = (Inr x, s')" and "f x s' = (Inr y, t)"
  using assms by (auto simp: try_bind_def split: prod.splits sum.splits)

lemma map_error_Inr_iff [simp]: "map_error h m s = (Inr x, t) \<longleftrightarrow> m s = (Inr x, t)"
  by (auto simp: map_error_def split: prod.splits sum.splits)

lemma map_error_apply:
  "map_error h m s = (case m s of (Inl e, s') \<Rightarrow> (Inl (h e), s') | (Inr x, s') \<Rightarrow> (Inr x, s'))"
  by (simp add: map_error_def)

lemma map_error_bind: "map_error h (try_bind m f) = try_bind (map_error h m) (\<lambda>x. map_error h (f x))"
  by (rule ext) (auto simp: map_error_def try_bind_def split: prod.splits sum.splits)

text \<open>A property of states that every step of a sequence keeps, errors included.\<close>

definition preserves :: "('s \<Rightarrow> bool) \<Rightarrow> ('s, 'e, 'a) stepper \<Rightarrow> bool" where
  "preserves P m \<longleftrightarrow> (\<forall>s. P s \<longrightarrow> P (snd (m s)))"

named_theorems preserves_intros \<open>compositional rules for invariants of steps\<close>

lemma preservesI [intro?]: "(\<And>s. P s \<Longrightarrow> P (snd (m s))) \<Longrightarrow> preserves P m"
  by (simp add: preserves_def)

lemma preservesD: "preserves P m \<Longrightarrow> P s \<Longrightarrow> m s = (r, t) \<Longrightarrow> P t"
  by (metis preserves_def snd_conv)

lemma preserves_eqD: "(\<And>q. preserves (\<lambda>s. f s = q) m) \<Longrightarrow> m s = (r, t) \<Longrightarrow> f t = f s"
  using preservesD [of "\<lambda>u. f u = f s" m s r t] by simp

lemma preserves_ok [preserves_intros]: "preserves P (ok x)"
  by (simp add: preserves_def)

lemma preserves_err [preserves_intros]: "preserves P (err e)"
  by (simp add: preserves_def)

lemma preserves_get [preserves_intros]: "preserves P (get_state g)"
  by (simp add: preserves_def)

lemma preserves_put [preserves_intros]: "(\<And>s. P s \<Longrightarrow> P (u s)) \<Longrightarrow> preserves P (put_state u)"
  by (simp add: preserves_def)

lemma preserves_bind [preserves_intros]:
  "preserves P m \<Longrightarrow> (\<And>x. preserves P (f x)) \<Longrightarrow> preserves P (try_bind m f)"
  by (fastforce simp: preserves_def try_bind_def split: prod.splits sum.splits)

lemma bind_keepsI:
  "P (snd (m s)) \<Longrightarrow> (\<And>x. preserves P (f x)) \<Longrightarrow> P (snd (try_bind m f s))"
  by (cases "m s", cases "fst (m s)") (auto simp: try_bind_def preserves_def)

lemma preserves_map_error [preserves_intros]: "preserves P m \<Longrightarrow> preserves P (map_error h m)"
  by (fastforce simp: preserves_def map_error_def split: prod.splits sum.splits)

lemma preserves_if [preserves_intros]:
  "preserves P m \<Longrightarrow> preserves P n \<Longrightarrow> preserves P (if b then m else n)"
  by simp

text \<open>A \<open>for\<close> loop whose body may return early with an error.\<close>

fun for_each :: "('a \<Rightarrow> ('s, 'e, unit) stepper) \<Rightarrow> 'a list \<Rightarrow> ('s, 'e, unit) stepper" where
  "for_each f [] = ok ()"
| "for_each f (x # xs) = try_bind (f x) (\<lambda>_. for_each f xs)"

lemma preserves_for_each [preserves_intros]:
  "(\<And>x. x \<in> set xs \<Longrightarrow> preserves P (f x)) \<Longrightarrow> preserves P (for_each f xs)"
  by (induction xs) (auto intro!: preserves_intros)

text \<open>
  Methods that may not return: \<open>None\<close> is a loop that never ends. \<open>total_step m\<close> is a method
  that always returns, \<open>may_bind m f\<close> is \<open>f(m?)\<close> again.
\<close>

type_synonym ('s, 'e, 'a) may_step = "'s \<Rightarrow> (('e + 'a) \<times> 's) option"

definition total_step :: "('s, 'e, 'a) stepper \<Rightarrow> ('s, 'e, 'a) may_step" where
  "total_step m = (\<lambda>s. Some (m s))"

definition may_bind ::
  "('s, 'e, 'a) may_step \<Rightarrow> ('a \<Rightarrow> ('s, 'e, 'b) may_step) \<Rightarrow> ('s, 'e, 'b) may_step" where
  "may_bind m f = (\<lambda>s. case m s of
     None \<Rightarrow> None | Some (Inl e, s') \<Rightarrow> Some (Inl e, s') | Some (Inr x, s') \<Rightarrow> f x s')"

definition may_map_error :: "('e \<Rightarrow> 'f) \<Rightarrow> ('s, 'e, 'a) may_step \<Rightarrow> ('s, 'f, 'a) may_step" where
  "may_map_error h m = (\<lambda>s. map_option (map_prod (map_sum h (\<lambda>x. x)) (\<lambda>s. s)) (m s))"

lemma may_bind_OkE:
  assumes "may_bind m f s = Some (Inr y, t)"
  obtains x s' where "m s = Some (Inr x, s')" and "f x s' = Some (Inr y, t)"
  using assms by (auto simp: may_bind_def split: option.splits prod.splits sum.splits)

lemma total_step_Ok_iff [simp]: "total_step m s = Some (r, t) \<longleftrightarrow> m s = (r, t)"
  by (simp add: total_step_def)

lemma may_map_error_Ok_iff [simp]:
  "may_map_error h m s = Some (Inr x, t) \<longleftrightarrow> m s = Some (Inr x, t)"
proof (cases "m s")
  case (Some p)
  obtain q u where "p = (q, u)" by (cases p)
  with Some show ?thesis
    by (cases q) (auto simp: may_map_error_def)
qed (simp add: may_map_error_def)

text \<open>A property of states that a call keeps whenever it returns.\<close>

definition may_keep :: "('s \<Rightarrow> bool) \<Rightarrow> ('s, 'e, 'a) may_step \<Rightarrow> bool" where
  "may_keep P m \<longleftrightarrow> (\<forall>s r t. P s \<longrightarrow> m s = Some (r, t) \<longrightarrow> P t)"

lemma may_keepI: "(\<And>s r t. P s \<Longrightarrow> m s = Some (r, t) \<Longrightarrow> P t) \<Longrightarrow> may_keep P m"
  by (simp add: may_keep_def)

lemma may_keepD: "may_keep P m \<Longrightarrow> P s \<Longrightarrow> m s = Some (r, t) \<Longrightarrow> P t"
  unfolding may_keep_def by blast

lemma may_keep_total [preserves_intros]: "preserves P m \<Longrightarrow> may_keep P (total_step m)"
  by (rule may_keepI) (auto dest: preservesD)

lemma may_keep_bind [preserves_intros]:
  assumes m: "may_keep P m" and f: "\<And>x. may_keep P (f x)"
  shows "may_keep P (may_bind m f)"
proof (rule may_keepI)
  fix s r t
  assume s: "P s" and run: "may_bind m f s = Some (r, t)"
  obtain q u where mid: "m s = Some (q, u)"
    using run by (cases "m s") (auto simp: may_bind_def)
  then have "P u"
    by (rule may_keepD [OF m s])
  with run mid show "P t"
    by (cases q) (auto simp: may_bind_def intro: may_keepD [OF f])
qed

lemma may_keep_map_error [preserves_intros]: "may_keep P m \<Longrightarrow> may_keep P (may_map_error h m)"
  by (rule may_keepI) (auto simp: may_map_error_def dest: may_keepD)

section \<open>Loops\<close>

text \<open>
  A \<open>loop { ... }\<close> of the sources: the body either goes around again with a new state or leaves
  the loop with a result; it may itself not return, and so may the loop.
\<close>

datatype ('s, 'r) loop_step = Again 's | Done 'r

partial_function (option) loop :: "('s \<Rightarrow> ('s, 'r) loop_step option) \<Rightarrow> 's \<Rightarrow> 'r option" where
  "loop body s =
     (case body s of
        None \<Rightarrow> None
      | Some (Again s') \<Rightarrow> loop body s'
      | Some (Done r) \<Rightarrow> Some r)"

lemma loop_Done: "body s = Some (Done r) \<Longrightarrow> loop body s = Some r"
  by (simp add: loop.simps)

lemma loop_Again: "body s = Some (Again s') \<Longrightarrow> loop body s = loop body s'"
  by (simp add: loop.simps [of body s])

text \<open>An invariant of the body gives a property of the result.\<close>

lemma loop_rule:
  fixes body :: "'s \<Rightarrow> ('s, 'r) loop_step option"
  assumes "loop body s = Some r" and "I s"
    and step: "\<And>s s'. I s \<Longrightarrow> body s = Some (Again s') \<Longrightarrow> I s'"
    and exit: "\<And>s r. I s \<Longrightarrow> body s = Some (Done r) \<Longrightarrow> Q r"
  shows "Q r"
proof -
  have "\<forall>I. I s \<longrightarrow> (\<forall>s s'. I s \<longrightarrow> body s = Some (Again s') \<longrightarrow> I s') \<longrightarrow>
      (\<forall>s r. I s \<longrightarrow> body s = Some (Done r) \<longrightarrow> Q r) \<longrightarrow> Q r"
    using assms(1)
  proof (rule loop.raw_induct [where P = "\<lambda>body s r. \<forall>I. I s \<longrightarrow>
      (\<forall>s s'. I s \<longrightarrow> body s = Some (Again s') \<longrightarrow> I s') \<longrightarrow>
      (\<forall>s r. I s \<longrightarrow> body s = Some (Done r) \<longrightarrow> Q r) \<longrightarrow> Q r", rotated])
    fix loop and body :: "'s \<Rightarrow> ('s, 'r) loop_step option" and s r
    assume IH: "\<And>s b y. loop s b = Some y \<Longrightarrow> \<forall>I. I b \<longrightarrow>
        (\<forall>u u'. I u \<longrightarrow> s u = Some (Again u') \<longrightarrow> I u') \<longrightarrow>
        (\<forall>u r. I u \<longrightarrow> s u = Some (Done r) \<longrightarrow> Q r) \<longrightarrow> Q y"
      and run: "(case body s of None \<Rightarrow> None | Some (Again s') \<Rightarrow> loop body s' | Some (Done r) \<Rightarrow> Some r) = Some r"
    show "\<forall>I. I s \<longrightarrow> (\<forall>s s'. I s \<longrightarrow> body s = Some (Again s') \<longrightarrow> I s') \<longrightarrow>
        (\<forall>s r. I s \<longrightarrow> body s = Some (Done r) \<longrightarrow> Q r) \<longrightarrow> Q r"
    proof (intro allI impI)
      fix I
      assume I: "I s" "\<forall>s s'. I s \<longrightarrow> body s = Some (Again s') \<longrightarrow> I s'"
        "\<forall>s r. I s \<longrightarrow> body s = Some (Done r) \<longrightarrow> Q r"
      from run consider s' where "body s = Some (Again s')" "loop body s' = Some r"
        | "body s = Some (Done r)"
        by (auto split: option.splits loop_step.splits)
      then show "Q r"
      proof cases
        case 1
        with I(1,2) have "I s'" by blast
        with IH [OF 1(2)] I(2,3) show ?thesis by blast
      next
        case 2
        with I(1,3) show ?thesis by blast
      qed
    qed
  qed
  with assms(2) step exit show ?thesis
    by blast
qed

lemma may_keep_loop:
  assumes "\<And>s s'. P s \<Longrightarrow> body s = Some (Again s') \<Longrightarrow> P s'"
    and "\<And>s r t. P s \<Longrightarrow> body s = Some (Done (r, t)) \<Longrightarrow> P t"
  shows "may_keep P (loop body)"
proof (rule may_keepI)
  fix s r t
  assume s: "P s" and run: "loop body s = Some (r, t)"
  have "P (snd (r, t))"
    using run s
  proof (rule loop_rule [where Q = "\<lambda>q. P (snd q)" and I = P])
    fix u q
    assume "P u" and "body u = Some (Done q)"
    then show "P (snd q)"
      using assms(2) [of u "fst q" "snd q"] by simp
  qed (rule assms(1))
  then show "P t"
    by simp
qed

text \<open>A loop none of whose rounds leaves it never returns.\<close>

lemma loop_never:
  assumes "I s" and "\<And>s. I s \<Longrightarrow> \<exists>s'. body s = Some (Again s') \<and> I s'"
  shows "loop body s = None"
proof (cases "loop body s")
  case (Some r)
  have False
    using Some assms(1)
  proof (rule loop_rule [where Q = "\<lambda>_. False" and I = I])
    show "I s'" if "I s" and "body s = Some (Again s')" for s s'
      using assms(2) [OF that(1)] that(2) by auto
    show False if "I s" and "body s = Some (Done r)" for s r
      using assms(2) [OF that(1)] that(2) by simp
  qed
  then show ?thesis ..
qed

text \<open>A loop returns when every round leaves it or decreases a measure.\<close>

lemma loop_returns:
  assumes "I s"
    and "\<And>s. I s \<Longrightarrow> (\<exists>r. body s = Some (Done r)) \<or>
      (\<exists>s'. body s = Some (Again s') \<and> I s' \<and> m s' < (m s :: nat))"
  shows "\<exists>r. loop body s = Some r"
  using assms(1)
proof (induction "m s" arbitrary: s rule: less_induct)
  case less
  then show ?case
    using assms(2) [OF less.prems] loop_Done loop_Again by metis
qed

section \<open>Checked arithmetic\<close>

definition checked_add :: "'a::len word \<Rightarrow> 'a word \<Rightarrow> 'a word option" where
  "checked_add a b = (if unat a + unat b < 2 ^ LENGTH('a) then Some (a + b) else None)"

definition checked_mul :: "'a::len word \<Rightarrow> 'a word \<Rightarrow> 'a word option" where
  "checked_mul a b = (if unat a * unat b < 2 ^ LENGTH('a) then Some (a * b) else None)"

lemma checked_add_Some:
  "checked_add a b = Some c \<Longrightarrow> unat c = unat a + unat b"
  by (auto simp: checked_add_def unat_word_ariths split: if_splits)

lemma checked_mul_Some:
  "checked_mul a b = Some c \<Longrightarrow> unat c = unat a * unat b"
  by (auto simp: checked_mul_def unat_word_ariths split: if_splits)

lemma unat_of_nat_small: "n < 2 ^ LENGTH('a) \<Longrightarrow> unat (of_nat n :: 'a::len word) = n"
  by (simp add: unat_of_nat take_bit_nat_eq_self_iff)

lemma unat_bound: "unat (w :: 'a::len word) < 2 ^ LENGTH('a)"
  by (rule unsigned_less)

lemma take_bit_word_self_iff:
  "n < LENGTH('a) \<Longrightarrow> take_bit n w = w \<longleftrightarrow> (w :: 'a::len word) < 2 ^ n"
  by (simp add: take_bit_eq_mask mask_eq_iff_w2p word_size)

lemma word_less_two_power_iff:
  "n < LENGTH('a) \<Longrightarrow> w < 2 ^ n \<longleftrightarrow> unat (w :: 'a::len word) < 2 ^ n"
  by (simp add: word_2p_lem word_size nat_less_iff flip: nat_uint_eq)

lemma and_one_neq_zero: "(s AND 1 \<noteq> 0) = bit (s :: 'a::len word) 0"
  by (simp add: and_one_eq bit_0 odd_iff_mod_2_eq_one)

lemma small_word_bits: "w < 2 ^ n \<Longrightarrow> bit (w :: 'a::len word) i \<Longrightarrow> i < n"
proof (cases "n < LENGTH('a)")
  case True
  assume "w < 2 ^ n" and "bit w i"
  with True show ?thesis
    by (metis bit_take_bit_iff take_bit_word_self_iff)
next
  case False
  assume "bit w i"
  then have "i < LENGTH('a)"
    by (rule bit_imp_le_length)
  with False show ?thesis
    by simp
qed

text \<open>Flags: testing, setting and clearing one bit.\<close>

lemma and_flag_iff: "n < LENGTH('a) \<Longrightarrow> (x AND push_bit n 1 \<noteq> 0) = bit (x :: 'a::len word) n"
proof -
  assume n: "n < LENGTH('a)"
  have "bit (x AND push_bit n 1) i \<longleftrightarrow> i = n \<and> bit x n" for i
    using n by (auto simp: bit_simps dest: bit_imp_le_length)
  then show ?thesis
    by (metis bit_0_eq bit_eq_iff bot_apply bot_bool_def)
qed

lemma set_flag_idem: "bit (x :: 'a::len word) n \<Longrightarrow> (x AND NOT (push_bit n 1)) OR push_bit n 1 = x"
  by (rule bit_word_eqI) (auto simp: bit_simps)

lemma clear_flag_idem: "\<not> bit (x :: 'a::len word) n \<Longrightarrow> x AND NOT (push_bit n 1) = x"
  by (rule bit_word_eqI) (auto simp: bit_simps)

section \<open>Bit fields\<close>

text \<open>\<open>trailing_zeros\<close> of the Rust core library.\<close>

definition trailing_zeros :: "'a::len word \<Rightarrow> nat" where
  "trailing_zeros w = length (takeWhile (\<lambda>i. \<not> bit w i) [0..<LENGTH('a)])"

definition field_get :: "u64 \<Rightarrow> u64 \<Rightarrow> u64" where
  "field_get v m = drop_bit (trailing_zeros m) (v AND m)"

definition field_prep :: "u64 \<Rightarrow> u64 \<Rightarrow> u64" where
  "field_prep m v = push_bit (trailing_zeros m) v"

lemma trailing_zeros_eqI:
  fixes w :: "'a::len word"
  assumes "bit w n" and "\<And>i. i < n \<Longrightarrow> \<not> bit w i"
  shows "trailing_zeros w = n"
proof -
  have n: "n < LENGTH('a)"
    using assms(1) by (rule bit_imp_le_length)
  then have split: "[0..<LENGTH('a)] = [0..<n] @ n # [Suc n..<LENGTH('a)]"
    using upt_add_eq_append [of 0 n "LENGTH('a) - n"] by (simp add: upt_conv_Cons)
  have "takeWhile (\<lambda>i. \<not> bit w i) [0..<LENGTH('a)] = [0..<n]"
    unfolding split using assms by (subst takeWhile_append2) auto
  then show ?thesis
    by (simp add: trailing_zeros_def)
qed

lemma trailing_zeros_block [simp]:
  "0 < k \<Longrightarrow> n < LENGTH('a) \<Longrightarrow> trailing_zeros (push_bit n (mask k) :: 'a::len word) = n"
  by (rule trailing_zeros_eqI) (auto simp: bit_simps)

lemma field_get_block:
  "0 < k \<Longrightarrow> n < 64 \<Longrightarrow> field_get v (push_bit n (mask k)) = take_bit k (drop_bit n v)"
  by (rule bit_word_eqI) (auto simp: field_get_def bit_simps dest: bit_imp_le_length)

lemma field_prep_block:
  "0 < k \<Longrightarrow> n < 64 \<Longrightarrow> field_prep (push_bit n (mask k)) v = push_bit n v"
  by (simp add: field_prep_def)

lemma field_get_mask [simp]: "0 < k \<Longrightarrow> field_get v (mask k) = take_bit k v"
  using field_get_block [of k 0 v] by simp

lemma field_prep_mask [simp]: "0 < k \<Longrightarrow> field_prep (mask k) v = v"
  using field_prep_block [of k 0 v] by simp

lemma field_get_prep:
  assumes "0 < k" and "n + k \<le> 64" and "v = take_bit k v"
    and "rest AND push_bit n (mask k) = 0"
  shows "field_get (push_bit n v OR rest) (push_bit n (mask k)) = v"
proof -
  have rest: "\<not> bit rest (n + i)" if "i < k" for i
  proof -
    have "\<not> bit (rest AND push_bit n (mask k)) (n + i)"
      by (simp add: assms(4))
    then show ?thesis
      using that assms(2) by (auto simp: bit_simps)
  qed
  have v: "bit v i \<longleftrightarrow> i < k \<and> bit v i" for i
    by (subst assms(3)) (simp add: bit_simps)
  show ?thesis
    using assms(1,2) rest
    by (intro bit_word_eqI) (auto simp: field_get_block bit_simps add.commute dest: v [THEN iffD1])
qed

section \<open>Lists\<close>

lemma find_Some_mem: "find P xs = Some x \<Longrightarrow> x \<in> set xs \<and> P x"
  by (auto simp: find_Some_iff)

end
