(* ===== verification/Nco.thy ===== *)
theory Nco
  imports Prelude
begin

text \<open>
  The numerically controlled oscillator of \<^verbatim>\<open>drivers/clk/apple-nco\<close>: the shift register
  encoding of the coarse divisor, the divisor translation in both directions, and the
  clock operations on the registers of one channel. The state of a channel is its
  register block; \<open>lock\<close> is left out because every operation runs under it.
\<close>

section \<open>Constants and errors\<close>

abbreviation (input) REG_CTRL :: nat where "REG_CTRL \<equiv> 0x00"
abbreviation (input) REG_DIV :: nat where "REG_DIV \<equiv> 0x04"
abbreviation (input) REG_INC1 :: nat where "REG_INC1 \<equiv> 0x08"
abbreviation (input) REG_INC2 :: nat where "REG_INC2 \<equiv> 0x0c"
abbreviation (input) REG_ACCINIT :: nat where "REG_ACCINIT \<equiv> 0x10"

definition CTRL_ENABLE :: u32 where "CTRL_ENABLE = push_bit 31 1"
abbreviation (input) DIV_FINE_MASK :: u32 where "DIV_FINE_MASK \<equiv> 0x3"
abbreviation (input) DIV_COARSE_MASK :: u32 where "DIV_COARSE_MASK \<equiv> push_bit 2 0x7ff"
abbreviation (input) DIV_COARSE_SHIFT :: nat where "DIV_COARSE_SHIFT \<equiv> 2"
abbreviation (input) LFSR_POLY :: u32 where "LFSR_POLY \<equiv> 0xa01"
abbreviation (input) LFSR_INIT :: u32 where "LFSR_INIT \<equiv> 0x7ff"
abbreviation (input) LFSR_PERIOD :: nat where "LFSR_PERIOD \<equiv> 2047"
abbreviation (input) LFSR_TABLE_SIZE :: nat where "LFSR_TABLE_SIZE \<equiv> 2048"
abbreviation (input) COARSE_DIV_OFFSET :: nat where "COARSE_DIV_OFFSET \<equiv> 2"
abbreviation (input) ACC_INIT_NEUTRAL :: u32 where "ACC_INIT_NEUTRAL \<equiv> push_bit 31 1"

datatype clk_error = InvalidRate | InvalidSpecifier | ClockNotFound

section \<open>The shift register tables\<close>

text \<open>One turn of the loop body shared by both searches.\<close>

definition lfsr_step :: "u32 \<Rightarrow> u32" where
  "lfsr_step state =
     (if state AND 1 \<noteq> 0 then drop_bit 1 state XOR drop_bit 1 LFSR_POLY
      else drop_bit 1 state)"

text \<open>The loop \<open>for index in (1..=LFSR_PERIOD).rev()\<close>, with the index counting down.\<close>

fun lfsr_state_loop :: "nat \<Rightarrow> nat \<Rightarrow> u32 \<Rightarrow> u32 option" where
  "lfsr_state_loop coarse 0 state = None"
| "lfsr_state_loop coarse (Suc i) state =
     (let state' = lfsr_step state
      in if Suc i = coarse then Some state' else lfsr_state_loop coarse i state')"

definition lfsr_state_for_coarse :: "nat \<Rightarrow> u32 option" where
  "lfsr_state_for_coarse coarse =
     (if coarse = 0 then Some 0 else lfsr_state_loop coarse LFSR_PERIOD LFSR_INIT)"

fun coarse_loop :: "u32 \<Rightarrow> nat \<Rightarrow> u32 \<Rightarrow> nat option" where
  "coarse_loop target 0 state = None"
| "coarse_loop target (Suc i) state =
     (let state' = lfsr_step state
      in if state' = target then Some (Suc i) else coarse_loop target i state')"

definition coarse_for_lfsr_state :: "u32 \<Rightarrow> nat option" where
  "coarse_for_lfsr_state target =
     (if target = 0 then Some 0 else coarse_loop target LFSR_PERIOD LFSR_INIT)"

section \<open>Divisor translation\<close>

definition div_out_of_range :: "nat \<Rightarrow> bool" where
  "div_out_of_range d =
     (let coarse = d div 4
      in coarse < COARSE_DIV_OFFSET \<or> coarse \<ge> COARSE_DIV_OFFSET + LFSR_TABLE_SIZE)"

definition translate_div :: "nat \<Rightarrow> u32 option" where
  "translate_div d =
     (if div_out_of_range d then None
      else case lfsr_state_for_coarse (d div 4 - COARSE_DIV_OFFSET) of
             None \<Rightarrow> None
           | Some coarse \<Rightarrow>
               Some ((push_bit DIV_COARSE_SHIFT coarse AND DIV_COARSE_MASK)
                     OR (of_nat d AND DIV_FINE_MASK)))"

definition translate_div_inv :: "u32 \<Rightarrow> nat option" where
  "translate_div_inv value =
     (let coarse_state = drop_bit DIV_COARSE_SHIFT (value AND DIV_COARSE_MASK);
          fine = unat (value AND DIV_FINE_MASK)
      in case coarse_for_lfsr_state coarse_state of
           None \<Rightarrow> None
         | Some c \<Rightarrow> Some ((c + COARSE_DIV_OFFSET) * 4 + fine))"

section \<open>Clock operations\<close>

definition enable_nolock :: "regs \<Rightarrow> regs" where
  "enable_nolock r = r(REG_CTRL := r REG_CTRL OR CTRL_ENABLE)"

definition disable_nolock :: "regs \<Rightarrow> regs" where
  "disable_nolock r = r(REG_CTRL := r REG_CTRL AND NOT CTRL_ENABLE)"

definition is_enabled_nolock :: "regs \<Rightarrow> bool" where
  "is_enabled_nolock r = (r REG_CTRL AND CTRL_ENABLE \<noteq> 0)"

text \<open>
  The 128-bit products of the source stay below \<open>2 ^ 128\<close> for 64-bit rates and 32-bit
  increments, so they are natural numbers here; the final cast to 64 bits is \<open>of_nat\<close>.
\<close>

definition recalc_rate :: "regs \<Rightarrow> u64 \<Rightarrow> u64" where
  "recalc_rate r parent_rate =
     (if parent_rate = 0 then 0
      else case translate_div_inv (r REG_DIV) of
        None \<Rightarrow> 0
      | Some d \<Rightarrow>
          (let inc1 = r REG_INC1; inc2 = r REG_INC2
           in if inc1 \<ge> ACC_INIT_NEUTRAL \<or> inc2 < ACC_INIT_NEUTRAL \<or> (inc1 = 0 \<and> inc2 = 0)
              then 0
              else let incbase = unat (inc1 - inc2);
                       numerator = unat parent_rate * 2 * incbase;
                       denominator = d * incbase + unat inc1
                   in if denominator = 0 then 0
                      else of_nat (numerator div denominator)))"

text \<open>
  \<open>Ord::clamp\<close> panics when its bounds are out of order; the panic is the value
  \<open>None\<close>.
\<close>

definition clamp :: "u64 \<Rightarrow> u64 \<Rightarrow> u64 \<Rightarrow> u64 option" where
  "clamp x lo hi =
     (if lo > hi then None else Some (if x < lo then lo else if x > hi then hi else x))"

definition round_rate :: "u64 \<Rightarrow> u64 \<Rightarrow> (clk_error + u64) option" where
  "round_rate rate parent_rate =
     (if parent_rate = 0 \<or> rate = 0 then Some (Inl InvalidRate)
      else let lo = parent_rate div (of_nat COARSE_DIV_OFFSET + of_nat LFSR_TABLE_SIZE) + 1;
               hi = parent_rate div of_nat COARSE_DIV_OFFSET
           in map_option Inr (clamp rate lo hi))"

definition set_rate :: "u64 \<Rightarrow> u64 \<Rightarrow> (regs, clk_error, u64) stepper" where
  "set_rate rate parent_rate r =
     (if parent_rate = 0 \<or> rate = 0 then (Inl InvalidRate, r)
      else if rate > 0xffffffff then (Inl InvalidRate, r)
      else case checked_mul parent_rate 2 of
        None \<Rightarrow> (Inl InvalidRate, r)
      | Some parent_rate_doubled \<Rightarrow>
          (let d = unat (parent_rate_doubled div rate)
           in case translate_div d of
                None \<Rightarrow> (Inl InvalidRate, r)
              | Some translated_div \<Rightarrow>
                  (let inc1 = ucast (parent_rate_doubled - of_nat d * rate) :: u32;
                       inc2 = inc1 - ucast rate;
                       was_enabled = is_enabled_nolock r;
                       r1 = disable_nolock r;
                       r2 = r1(REG_DIV := translated_div, REG_INC1 := inc1,
                               REG_INC2 := inc2, REG_ACCINIT := ACC_INIT_NEUTRAL);
                       r3 = (if was_enabled then enable_nolock r2 else r2)
                   in (Inr (recalc_rate r3 parent_rate), r3))))"

text \<open>
  The provider: channel \<open>index\<close> sits at \<open>base + NCO_CHANNEL_STRIDE * index\<close>.
\<close>

definition nco_channel_bases :: "nat \<Rightarrow> nat \<Rightarrow> nat list" where
  "nco_channel_bases base clock_count = map (\<lambda>i. base + 0x4000 * i) [0..<clock_count]"

definition get_clk :: "nat list \<Rightarrow> u32 list \<Rightarrow> clk_error + nat" where
  "get_clk clocks spec =
     (if length spec \<noteq> 1 then Inl InvalidSpecifier
      else let index = unat (spec ! 0)
           in if index < length clocks then Inr (clocks ! index) else Inl ClockNotFound)"

section \<open>The register cycles through all 2047 non-zero states\<close>

text \<open>
  The eleven low bits of a state as a list, least significant first, and the step on
  them: a shift with two feedback taps. Closed runs are evaluated on this form.
\<close>

definition low11 :: "u32 \<Rightarrow> bool list" where
  "low11 s = map (bit s) [0,1,2,3,4,5,6,7,8,9,10]"

fun shift11 :: "bool list \<Rightarrow> bool list" where
  "shift11 [b0, b1, b2, b3, b4, b5, b6, b7, b8, b9, b10] =
     [b1, b2, b3, b4, b5, b6, b7, b8, (b9 \<noteq> b0), b10, b0]"
| "shift11 bs = bs"

lemma bit_lfsr_feedback: "bit (drop_bit 1 LFSR_POLY) i \<longleftrightarrow> i = 8 \<or> i = 10"
proof -
  have "(drop_bit 1 LFSR_POLY) = push_bit 8 1 OR push_bit 10 1"
    by simp
  then have "bit (drop_bit 1 LFSR_POLY) i = bit (push_bit 8 1 OR push_bit 10 1 :: u32) i"
    by (rule arg_cong)
  also have "\<dots> \<longleftrightarrow> i = 8 \<or> i = 10"
    by (auto simp only: bit_or_iff bit_push_bit_iff bit_1_iff) auto
  finally show ?thesis .
qed

lemma bit_lfsr_step:
  "bit (lfsr_step s) i \<longleftrightarrow> bit s (Suc i) \<noteq> (bit s 0 \<and> (i = 8 \<or> i = 10))"
proof (cases "bit s 0")
  case True
  then show ?thesis
    unfolding lfsr_step_def and_one_neq_zero
    by (simp only: if_True bit_xor_iff bit_lfsr_feedback) (auto simp: bit_drop_bit_eq)
next
  case False
  then show ?thesis
    unfolding lfsr_step_def and_one_neq_zero by (simp add: bit_drop_bit_eq)
qed

lemma low11_step: "s < 2 ^ 11 \<Longrightarrow> low11 (lfsr_step s) = shift11 (low11 s)"
  using small_word_bits [of s 11 11] by (auto simp: low11_def bit_lfsr_step eval_nat_numeral)

lemma lfsr_step_small: "s < 2 ^ 11 \<Longrightarrow> lfsr_step s < 2 ^ 11"
proof -
  assume s: "s < 2 ^ 11"
  have "take_bit 11 (lfsr_step s) = lfsr_step s"
    using small_word_bits [OF s]
    by (intro bit_word_eqI) (fastforce simp: bit_simps bit_lfsr_step)
  then show ?thesis
    by (simp add: take_bit_word_self_iff)
qed

lemma low11_inject:
  assumes "s < 2 ^ 11" and "t < 2 ^ 11" and eq: "low11 s = low11 t"
  shows "s = t"
proof (rule bit_word_eqI)
  fix i
  have "bit s i = bit t i" if "i < 11"
  proof -
    have "i \<in> {0, 1, 2, 3, 4, 5, 6, 7, 8, 9, 10}"
      using that by simp arith
    with eq show ?thesis
      by (auto simp: low11_def)
  qed
  then show "bit s i = bit t i"
    using small_word_bits [OF assms(1), of i] small_word_bits [OF assms(2), of i] by blast
qed

text \<open>Closed runs: \<open>shift11_pow k\<close> makes \<open>2 ^ k\<close> steps.\<close>

fun shift11_pow :: "nat \<Rightarrow> bool list \<Rightarrow> bool list" where
  "shift11_pow 0 bs = shift11 bs"
| "shift11_pow (Suc k) bs = shift11_pow k (shift11_pow k bs)"

lemma shift11_pow_eq: "shift11_pow k bs = (shift11 ^^ (2 ^ k)) bs"
  by (induction k arbitrary: bs) (simp_all add: funpow_add mult_2)

definition lfsr_at :: "nat \<Rightarrow> u32" where
  "lfsr_at k = (lfsr_step ^^ k) LFSR_INIT"

lemma lfsr_at_small: "lfsr_at k < 2 ^ 11"
  by (induction k) (use lfsr_step_small in \<open>auto simp: lfsr_at_def\<close>)

lemma low11_lfsr_at: "low11 (lfsr_at k) = (shift11 ^^ k) (replicate 11 True)"
proof (induction k)
  case 0
  show ?case
    by (simp add: lfsr_at_def low11_def eval_nat_numeral)
next
  case (Suc k)
  then show ?case
    using low11_step [OF lfsr_at_small, of k] by (simp add: lfsr_at_def)
qed

lemma shift11_pow_pred:
  "0 < k \<Longrightarrow> shift11_pow k bs = shift11_pow (k - 1) (shift11_pow (k - 1) bs)"
  by (cases k) simp_all

lemmas shift_eval =
  shift11_pow.simps(1) shift11.simps(1) simp_thms not_True_eq_False not_False_eq_True
  shift11_pow_pred [of "numeral n", simplified] shift11_pow_pred [of 1, simplified] for n

lemma shift11_run:
  "(shift11 ^^ 2047) (replicate 11 True) = replicate 11 True"
  "(shift11 ^^ 23) (replicate 11 True) \<noteq> replicate 11 True"
  "(shift11 ^^ 89) (replicate 11 True) \<noteq> replicate 11 True"
proof -
  have init: "replicate 11 True =
      [True, True, True, True, True, True, True, True, True, True, True]"
    by (simp add: eval_nat_numeral)
  have "(2047 :: nat) = 2 ^ 10 + 2 ^ 9 + 2 ^ 8 + 2 ^ 7 + 2 ^ 6 + 2 ^ 5 + 2 ^ 4 + 2 ^ 3 + 2 ^ 2 + 2 ^ 1 + 2 ^ 0"
    by simp
  then have "(shift11 ^^ 2047) bs = shift11_pow 10 (shift11_pow 9 (shift11_pow 8 (shift11_pow 7
      (shift11_pow 6 (shift11_pow 5 (shift11_pow 4 (shift11_pow 3 (shift11_pow 2 (shift11_pow 1
      (shift11_pow 0 bs))))))))))" for bs
    by (simp only: funpow_add shift11_pow_eq o_apply)
  then show "(shift11 ^^ 2047) (replicate 11 True) = replicate 11 True"
    unfolding init by (simp add: shift_eval)
  have "(23 :: nat) = 2 ^ 4 + 2 ^ 2 + 2 ^ 1 + 2 ^ 0"
    by simp
  then have "(shift11 ^^ 23) bs = shift11_pow 4 (shift11_pow 2 (shift11_pow 1 (shift11_pow 0 bs)))" for bs
    by (simp only: funpow_add shift11_pow_eq o_apply)
  then show "(shift11 ^^ 23) (replicate 11 True) \<noteq> replicate 11 True"
    unfolding init by (simp add: shift_eval)
  have "(89 :: nat) = 2 ^ 6 + 2 ^ 4 + 2 ^ 3 + 2 ^ 0"
    by simp
  then have "(shift11 ^^ 89) bs = shift11_pow 6 (shift11_pow 4 (shift11_pow 3 (shift11_pow 0 bs)))" for bs
    by (simp only: funpow_add shift11_pow_eq o_apply)
  then show "(shift11 ^^ 89) (replicate 11 True) \<noteq> replicate 11 True"
    unfolding init by (simp add: shift_eval)
qed

lemma divisor_of_2047:
  assumes "g dvd (2047 :: nat)" and "g < 2047"
  shows "g = 1 \<or> g = 23 \<or> g = 89"
proof -
  obtain h where gh: "g * h = 2047"
    using assms(1) by (metis dvdE)
  have small: "n = 1 \<or> n = 23" if "n * m = 2047" "n \<le> 45" for n m :: nat
  proof -
    have "2047 mod n = 0"
      using that(1) by (metis mod_mult_self1_is_0)
    moreover have "\<forall>n \<in> set [0..<46]. 2047 mod n = 0 \<longrightarrow> n = 1 \<or> n = (23 :: nat)"
      by (simp add: upt_rec flip: numeral_2_eq_2)
    ultimately show ?thesis
      using that(2) by auto
  qed
  have "g \<le> 45 \<or> h \<le> 45"
  proof (rule ccontr)
    assume "\<not> (g \<le> 45 \<or> h \<le> 45)"
    then have "46 * 46 \<le> g * h"
      by (intro mult_le_mono) auto
    with gh show False by simp
  qed
  then show ?thesis
    using small [of g h] small [of h g] gh assms(2) by (auto simp: mult.commute)
qed

lemma funpow_gcd:
  fixes d n :: nat
  assumes "(f ^^ n) x = x" and "(f ^^ d) x = x" and "0 < d" and "d < n"
  shows "(f ^^ gcd d n) x = x"
proof -
  obtain u v where uv: "d * u = n * v + gcd d n"
    using bezout_nat [of d n] assms(3) by auto
  have "gcd d n \<le> d"
    using assms(3) by (simp add: gcd_le1_nat)
  then have "(d * u) mod n = gcd d n"
    using uv assms(4) by simp
  moreover have "(f ^^ (d * u mod n)) x = (f ^^ (d * u)) x"
    by (rule funpow_mod_eq [OF assms(1)])
  moreover have "(f ^^ (d * u)) x = x"
    using funpow_mod_eq [OF assms(2), of "d * u"] by simp
  ultimately show ?thesis by simp
qed

lemma lfsr_at_add: "lfsr_at (m + n) = (lfsr_step ^^ m) (lfsr_at n)"
  by (simp add: lfsr_at_def funpow_add)

lemma low11_eq_iff: "low11 (lfsr_at j) = low11 (lfsr_at k) \<longleftrightarrow> lfsr_at j = lfsr_at k"
  by (auto dest: low11_inject [OF lfsr_at_small lfsr_at_small])

lemma lfsr_at_period: "lfsr_at 2047 = LFSR_INIT"
proof -
  have "low11 (lfsr_at 2047) = low11 (lfsr_at 0)"
    by (simp only: low11_lfsr_at shift11_run(1) funpow_0)
  then have "lfsr_at 2047 = lfsr_at 0"
    by (simp only: low11_eq_iff)
  then show ?thesis
    by (simp add: lfsr_at_def)
qed

lemma lfsr_at_not_init:
  assumes "0 < d" and "d < 2047"
  shows "lfsr_at d \<noteq> LFSR_INIT"
proof
  assume hit: "lfsr_at d = LFSR_INIT"
  define g where "g = gcd d 2047"
  have "(lfsr_step ^^ g) LFSR_INIT = LFSR_INIT"
    using assms hit lfsr_at_period unfolding g_def by (intro funpow_gcd) (simp_all add: lfsr_at_def)
  then have g: "low11 (lfsr_at g) = low11 (lfsr_at 0)"
    by (simp add: lfsr_at_def)
  have "g < 2047"
    using assms unfolding g_def by (intro le_less_trans [OF gcd_le1_nat]) auto
  then have "g = 1 \<or> g = 23 \<or> g = 89"
    by (intro divisor_of_2047) (auto simp: g_def)
  moreover have "(shift11 ^^ 1) (replicate 11 True) \<noteq> replicate 11 True"
    by (simp add: eval_nat_numeral)
  ultimately show False
    using g shift11_run(2,3) by (auto simp only: low11_lfsr_at funpow_0)
qed

lemma lfsr_at_inject:
  assumes "j < k" and "k \<le> 2047" and "0 < j"
  shows "lfsr_at j \<noteq> lfsr_at k"
proof
  assume "lfsr_at j = lfsr_at k"
  then have "lfsr_at ((2047 - j) + j) = lfsr_at ((2047 - j) + k)"
    by (simp add: lfsr_at_add del: le_add_diff_inverse2)
  then have "LFSR_INIT = lfsr_at ((k - j) + 2047)"
    using assms lfsr_at_period by (simp add: algebra_simps)
  also have "\<dots> = lfsr_at (k - j)"
    by (simp add: lfsr_at_add lfsr_at_period) (simp add: lfsr_at_def)
  finally show False
    using lfsr_at_not_init [of "k - j"] assms by simp
qed

lemma lfsr_at_nonzero: "lfsr_at k \<noteq> 0"
proof
  assume zero: "lfsr_at k = 0"
  have "(lfsr_step ^^ m) 0 = 0" for m
    by (induction m) (simp_all add: lfsr_step_def)
  then have "lfsr_at (m + k) = 0" for m
    by (simp add: lfsr_at_add zero)
  from this [of "2047 * k - k"] have "lfsr_at (2047 * k) = 0"
    by simp
  moreover have "lfsr_at (2047 * k) = LFSR_INIT"
    using funpow_mod_eq [of 2047 lfsr_step LFSR_INIT "2047 * k"] lfsr_at_period
    by (simp add: lfsr_at_def)
  ultimately show False by simp
qed

lemma lfsr_at_down: "Suc n \<le> 2047 \<Longrightarrow> lfsr_step (lfsr_at (2047 - Suc n)) = lfsr_at (2047 - n)"
  using lfsr_at_add [of 1 "2047 - Suc n"] by (simp add: Suc_diff_le [symmetric])

lemma lfsr_state_loop_at:
  "1 \<le> c \<Longrightarrow> c \<le> n \<Longrightarrow> n \<le> 2047 \<Longrightarrow>
   lfsr_state_loop c n (lfsr_at (2047 - n)) = Some (lfsr_at (2048 - c))"
proof (induction n)
  case (Suc n)
  have step: "lfsr_step (lfsr_at (2047 - Suc n)) = lfsr_at (2047 - n)"
    by (rule lfsr_at_down) (use Suc.prems in simp)
  show ?case
  proof (cases "Suc n = c")
    case True
    then show ?thesis using step by (auto simp: Let_def)
  next
    case False
    then show ?thesis using step Suc by (simp add: Let_def)
  qed
qed simp

lemma coarse_loop_at:
  "1 \<le> c \<Longrightarrow> c \<le> n \<Longrightarrow> n \<le> 2047 \<Longrightarrow>
   coarse_loop (lfsr_at (2048 - c)) n (lfsr_at (2047 - n)) = Some c"
proof (induction n)
  case (Suc n)
  have step: "lfsr_step (lfsr_at (2047 - Suc n)) = lfsr_at (2047 - n)"
    by (rule lfsr_at_down) (use Suc.prems in simp)
  show ?case
  proof (cases "Suc n = c")
    case True
    then show ?thesis using step by (auto simp: Let_def)
  next
    case False
    then have "lfsr_at (2047 - n) \<noteq> lfsr_at (2048 - c)"
      using lfsr_at_inject [of "2047 - n" "2048 - c"] Suc.prems by auto
    then show ?thesis using step Suc False by (simp add: Let_def)
  qed
qed simp

lemma lfsr_state_for_coarse_at:
  "1 \<le> c \<Longrightarrow> c \<le> LFSR_PERIOD \<Longrightarrow> lfsr_state_for_coarse c = Some (lfsr_at (2048 - c))"
  using lfsr_state_loop_at [of c 2047]
  by (simp add: lfsr_state_for_coarse_def) (simp add: lfsr_at_def)

lemma coarse_for_lfsr_state_at:
  "1 \<le> c \<Longrightarrow> c \<le> LFSR_PERIOD \<Longrightarrow> coarse_for_lfsr_state (lfsr_at (2048 - c)) = Some c"
  using coarse_loop_at [of c 2047]
  by (simp add: coarse_for_lfsr_state_def lfsr_at_nonzero) (simp add: lfsr_at_def)

section \<open>The divisor encoding\<close>

locale divider_codec =
  fixes in_range :: "nat \<Rightarrow> bool"
    and encode :: "nat \<Rightarrow> u32 option"
    and decode :: "u32 \<Rightarrow> nat option"
  assumes encode_in: "in_range d \<Longrightarrow> \<exists>v. encode d = Some v \<and> decode v = Some d"
    and encode_out: "\<not> in_range d \<Longrightarrow> encode d = None"
begin

lemma encode_Some_decode: "encode d = Some v \<Longrightarrow> decode v = Some d"
  using encode_in encode_out by (metis option.inject option.distinct(1))

lemma encode_Some_iff: "(\<exists>v. encode d = Some v) \<longleftrightarrow> in_range d"
  using encode_in encode_out by (metis option.distinct(1))

lemma encode_inject: "encode d = Some v \<Longrightarrow> encode d' = Some v \<Longrightarrow> d = d'"
  by (metis encode_Some_decode option.inject)

end

lemma div_out_of_range_iff: "div_out_of_range d \<longleftrightarrow> d < 8 \<or> 8200 \<le> d"
  by (simp add: div_out_of_range_def Let_def) linarith

lemma lfsr_state_for_coarse_inv:
  assumes "c \<le> LFSR_PERIOD"
  obtains s where "lfsr_state_for_coarse c = Some s" and "s < 2 ^ 11"
    and "coarse_for_lfsr_state s = Some c"
proof (cases "c = 0")
  case True
  then show ?thesis
    using that [of 0] by (simp add: lfsr_state_for_coarse_def coarse_for_lfsr_state_def)
next
  case False
  then show ?thesis
    using that lfsr_state_for_coarse_at coarse_for_lfsr_state_at assms lfsr_at_small
    by (metis One_nat_def Suc_leI gr0I)
qed

lemma div_fields:
  fixes s :: u32 and d :: nat
  assumes "s < 2 ^ 11"
  defines "v \<equiv> (push_bit 2 s AND push_bit 2 0x7ff) OR (of_nat d AND 0x3)"
  shows "drop_bit 2 (v AND push_bit 2 0x7ff) = s" and "unat (v AND 0x3) = d mod 4"
proof -
  have masks: "(0x7ff :: u32) = mask 11" "(0x3 :: u32) = mask 2"
    by (simp_all add: mask_eq_exp_minus_1)
  show "drop_bit 2 (v AND push_bit 2 0x7ff) = s"
    unfolding v_def masks
    by (intro bit_word_eqI) (auto simp: bit_simps dest: bit_imp_le_length small_word_bits [OF assms(1)])
  have "v AND 0x3 = take_bit 2 (of_nat d)"
    unfolding v_def masks by (rule bit_word_eqI) (auto simp: bit_simps)
  then show "unat (v AND 0x3) = d mod 4"
    by (simp only: unsigned_take_bit_eq unsigned_of_nat) (simp add: take_bit_eq_mod mod_mod_cancel)
qed

interpretation nco_div: divider_codec "\<lambda>d. \<not> div_out_of_range d" translate_div translate_div_inv
proof unfold_locales
  fix d
  assume d: "\<not> div_out_of_range d"
  then have "d div 4 - 2 \<le> LFSR_PERIOD"
    by (simp add: div_out_of_range_iff) linarith
  then obtain s where s: "lfsr_state_for_coarse (d div 4 - 2) = Some s" "s < 2 ^ 11"
      "coarse_for_lfsr_state s = Some (d div 4 - 2)"
    by (rule lfsr_state_for_coarse_inv)
  have "2 \<le> d div 4"
    using d by (simp add: div_out_of_range_def Let_def)
  then have "(d div 4 - 2 + 2) * 4 + d mod 4 = d"
    by (simp only: le_add_diff_inverse2 div_mult_mod_eq)
  note d' = this
  define v where "v = (push_bit 2 s AND push_bit 2 0x7ff) OR (of_nat d AND 0x3)"
  note fields = div_fields [OF s(2), of d, folded v_def]
  have "translate_div d = Some v"
    using d s(1) by (simp add: translate_div_def v_def)
  moreover have "translate_div_inv v = Some d"
    using fields s(3) d' by (simp add: translate_div_inv_def Let_def)
  ultimately show "\<exists>v. translate_div d = Some v \<and> translate_div_inv v = Some d"
    by blast
next
  fix d
  show "\<not> \<not> div_out_of_range d \<Longrightarrow> translate_div d = None"
    by (simp add: translate_div_def)
qed

section \<open>Rates\<close>

lemma unat_ucast_small: "unat x < 2 ^ 32 \<Longrightarrow> unat (ucast (x :: u64) :: u32) = unat x"
  by (simp add: unsigned_ucast_eq unsigned_take_bit_eq take_bit_nat_eq_self_iff)

lemma ctrl_flag:
  "x AND CTRL_ENABLE = 0 \<longleftrightarrow> \<not> bit x 31"
  "bit x 31 \<Longrightarrow> (x AND NOT CTRL_ENABLE) OR CTRL_ENABLE = x"
  "\<not> bit x 31 \<Longrightarrow> x AND NOT CTRL_ENABLE = x"
  unfolding CTRL_ENABLE_def
  using and_flag_iff [of 31 x] set_flag_idem [of x 31] clear_flag_idem [of x 31] by auto

lemma ctrl_reenable:
  "(if is_enabled_nolock r then enable_nolock (disable_nolock r) else disable_nolock r) = r"
  by (auto simp: is_enabled_nolock_def enable_nolock_def disable_nolock_def ctrl_flag fun_upd_idem)

text \<open>The registers \<open>set_rate\<close> leaves and the value it returns, with the divisor made explicit.\<close>

definition programmed :: "u32 \<Rightarrow> u64 \<Rightarrow> u64 \<Rightarrow> regs \<Rightarrow> regs" where
  "programmed v rate parent r =
     (let inc1 = ucast (parent * 2 - of_nat (unat (parent * 2 div rate)) * rate)
      in r(REG_DIV := v, REG_INC1 := inc1, REG_INC2 := inc1 - ucast rate,
           REG_ACCINIT := ACC_INIT_NEUTRAL))"

lemma set_rate_cases:
  "set_rate rate parent r =
     (if parent = 0 \<or> rate = 0 \<or> 2 ^ 32 \<le> unat rate \<or> 2 ^ 64 \<le> unat parent * 2
      then (Inl InvalidRate, r)
      else case translate_div (unat parent * 2 div unat rate) of
             None \<Rightarrow> (Inl InvalidRate, r)
           | Some v \<Rightarrow> (Inr (recalc_rate (programmed v rate parent r) parent),
                        programmed v rate parent r))"
proof -
  have rate: "rate > 0xffffffff \<longleftrightarrow> 2 ^ 32 \<le> unat rate"
    by (simp add: word_less_nat_alt) linarith
  have d: "unat (parent * 2 div rate) = unat parent * 2 div unat rate"
    if "unat parent * 2 < 2 ^ 64"
    using that by (simp add: unat_div unat_word_ariths)
  have ctrl: "(let r1 = disable_nolock r;
             r2 = r1(REG_DIV := v, REG_INC1 := a, REG_INC2 := b, REG_ACCINIT := c)
         in if is_enabled_nolock r then enable_nolock r2 else r2) =
        r(REG_DIV := v, REG_INC1 := a, REG_INC2 := b, REG_ACCINIT := c)" for v a b c
    using fun_cong [OF ctrl_reenable [of r], of 0]
    by (auto simp: enable_nolock_def disable_nolock_def Let_def fun_eq_iff)
  show ?thesis
    using d ctrl
    by (simp add: set_rate_def rate checked_mul_def programmed_def Let_def split: option.splits)
qed

lemma increments:
  fixes rate parent :: u64
  assumes "0 < rate" and "unat rate < 2 ^ 32" and "unat parent * 2 < 2 ^ 64"
  defines "inc1 \<equiv> ucast (parent * 2 - of_nat (unat (parent * 2 div rate)) * rate) :: u32"
  shows "unat inc1 = unat parent * 2 mod unat rate"
    and "unat (inc1 - (inc1 - ucast rate)) = unat rate"
    and "unat rate \<le> 2 ^ 31 \<Longrightarrow> inc1 < ACC_INIT_NEUTRAL \<and> ACC_INIT_NEUTRAL \<le> inc1 - ucast rate"
proof -
  have p2: "unat (parent * 2) = unat parent * 2"
    using assms(3) by (simp add: unat_word_ariths)
  have pos: "0 < unat rate"
    using assms(1) by (simp add: word_less_nat_alt)
  have "parent * 2 - of_nat (unat (parent * 2 div rate)) * rate = parent * 2 mod rate"
    by (simp add: minus_div_mult_eq_mod)
  then have inc: "inc1 = ucast (parent * 2 mod rate)"
    by (simp add: inc1_def)
  have "unat (parent * 2 mod rate) = unat parent * 2 mod unat rate"
    by (simp add: unat_mod p2)
  moreover have "unat parent * 2 mod unat rate < unat rate"
    using pos by simp
  ultimately show u: "unat inc1 = unat parent * 2 mod unat rate"
    using assms(2) unfolding inc by (subst unat_ucast_small) auto
  show "unat (inc1 - (inc1 - ucast rate)) = unat rate"
    using assms(2) by (simp add: unat_ucast_small)
  assume small: "unat rate \<le> 2 ^ 31"
  have lt: "unat inc1 < unat rate"
    using u pos by simp
  have ur: "unat (ucast rate :: u32) = unat rate"
    using assms(2) by (rule unat_ucast_small)
  have "inc1 < ucast rate"
    using lt by (simp add: word_less_nat_alt ur)
  then have "unat (inc1 - ucast rate) = 2 ^ 32 + unat inc1 - unat rate"
    by (simp add: unat_sub_if' ur word_less_nat_alt word_le_nat_alt)
  then show "inc1 < ACC_INIT_NEUTRAL \<and> ACC_INIT_NEUTRAL \<le> inc1 - ucast rate"
    using lt small pos by (simp add: word_less_nat_alt word_le_nat_alt)
qed

lemma recalc_programmed:
  assumes "0 < rate" and "unat rate \<le> 2 ^ 31" and "unat parent * 2 < 2 ^ 64" and "parent \<noteq> 0"
    and v: "translate_div (unat parent * 2 div unat rate) = Some v"
  shows "recalc_rate (programmed v rate parent r) parent = rate"
proof -
  have r32: "unat rate < 2 ^ 32"
    using assms(2) by simp
  define i1 :: u32 where
    "i1 = ucast (parent * 2 - of_nat (unat (parent * 2 div rate)) * rate)"
  define i2 :: u32 where "i2 = i1 - ucast rate"
  note inc = increments [OF assms(1) r32 assms(3), folded i1_def i2_def]
  have regs: "programmed v rate parent r =
      r(REG_DIV := v, REG_INC1 := i1, REG_INC2 := i2, REG_ACCINIT := ACC_INIT_NEUTRAL)"
    by (simp add: programmed_def i1_def i2_def Let_def)
  have dec: "translate_div_inv v = Some (unat parent * 2 div unat rate)"
    by (rule nco_div.encode_Some_decode [OF v])
  have den: "unat parent * 2 div unat rate * unat rate + unat parent * 2 mod unat rate = unat parent * 2"
    by simp
  have pos: "0 < unat parent"
    using assms(4) by (simp add: unat_gt_0)
  have nz: "\<not> ((q = 0 \<or> unat rate = 0) \<and> m = 0)"
    if "q * unat rate + m = unat parent * 2" for q m :: nat
  proof
    assume "(q = 0 \<or> unat rate = 0) \<and> m = 0"
    then have "q * unat rate + m = 0"
      by auto
    with that pos show False
      by simp
  qed
  note nz = nz [OF den]
  have bounds: "\<not> i1 \<ge> ACC_INIT_NEUTRAL" "\<not> i2 < ACC_INIT_NEUTRAL" "\<not> (i1 = 0 \<and> i2 = 0)"
    using inc(3) [OF assms(2)] by auto
  then have "recalc_rate (programmed v rate parent r) parent =
      of_nat (unat parent * 2 * unat rate div (unat parent * 2))"
    using assms(4) pos
    by (simp add: recalc_rate_def regs dec inc(1,2) Let_def den del: not_less not_le)
      (use nz in auto)
  then show ?thesis
    using pos by simp
qed

section \<open>Properties\<close>

text \<open>
  C37. Encoding a divisor for the divider register and decoding the register gives the
  divisor back, for every divisor the hardware can express.
\<close>

theorem translate_div_roundtrip:
  assumes "8 \<le> d" and "d < 8200"
  shows "\<exists>v. translate_div d = Some v \<and> translate_div_inv v = Some d"
  using nco_div.encode_in [of d] assms by (simp add: div_out_of_range_iff)

theorem translate_div_roundtrip_witness:
  "\<exists>v. translate_div 4123 = Some v \<and> translate_div_inv v = Some 4123"
  by (rule translate_div_roundtrip) simp_all

text \<open>
  When \<open>set_rate\<close> accepts a rate of at most \<open>2 ^ 31\<close> Hz, the rate it reports is exactly
  the requested one, the same rate is read back from the registers it leaves, and the
  enable bit is as it was.
\<close>

theorem set_rate_exact:
  assumes "set_rate rate parent r = (Inr actual, r')" and "unat rate \<le> 2 ^ 31"
  shows "actual = rate \<and> recalc_rate r' parent = rate \<and> r' REG_CTRL = r REG_CTRL"
proof -
  obtain v where v: "translate_div (unat parent * 2 div unat rate) = Some v"
    and r': "r' = programmed v rate parent r" and actual: "actual = recalc_rate r' parent"
    and ok: "parent \<noteq> 0" "rate \<noteq> 0" "unat parent * 2 < 2 ^ 64"
    using assms(1) by (auto simp: set_rate_cases split: if_splits option.splits)
  have "recalc_rate r' parent = rate"
    unfolding r' using ok assms(2) by (intro recalc_programmed v) (auto simp: word_gt_0)
  then show ?thesis
    using actual by (simp add: r' programmed_def Let_def)
qed

theorem set_rate_exact_witness:
  "\<exists>actual r'. set_rate 12288000 900000000 (\<lambda>_. 0) = (Inr actual, r') \<and>
     actual = 12288000 \<and> recalc_rate r' 900000000 = 12288000"
proof -
  have "\<exists>v. translate_div 146 = Some v"
    using nco_div.encode_Some_iff [of 146] by (simp add: div_out_of_range_iff)
  then obtain actual r' where "set_rate 12288000 900000000 (\<lambda>_. 0) = (Inr actual, r')"
    by (auto simp: set_rate_cases)
  from set_rate_exact [OF this] this show ?thesis
    by auto
qed

text \<open>
  The upper end of the range \<open>round_rate\<close> clamps to cannot be programmed: a request at or
  above half the parent rate is rounded to half the parent rate, and \<open>set_rate\<close>
  refuses exactly that rate and leaves the registers alone.
\<close>

theorem rounded_rate_rejected:
  assumes "2 \<le> parent" and "parent div 2 \<le> rate"
  shows "round_rate rate parent = Some (Inr (parent div 2)) \<and>
    set_rate (parent div 2) parent r = (Inl InvalidRate, r)"
proof -
  let ?h = "unat parent div 2"
  have p: "2 \<le> unat parent" and half: "unat (parent div 2) = ?h"
    using assms(1) by (simp_all add: word_le_nat_alt unat_div)
  have h: "0 < ?h" and "unat parent \<le> 2 * ?h + 1"
    using p by (simp, presburger)
  then have ub: "unat parent * 2 < ?h * 8"
    by linarith
  have "div_out_of_range (unat parent * 2 div ?h)"
    using less_mult_imp_div_less [OF ub [unfolded mult.commute [of ?h]]]
    by (simp add: div_out_of_range_iff)
  then have "set_rate (parent div 2) parent r = (Inl InvalidRate, r)"
    by (auto simp: set_rate_cases half translate_div_def)
  moreover have "round_rate rate parent = Some (Inr (parent div 2))"
  proof -
    have lo: "parent div (2 + 2048) + 1 \<le> parent div 2"
    proof -
      have "unat parent div 2050 + 1 \<le> ?h"
        using p by linarith
      moreover from this have "unat parent div 2050 + 1 < 2 ^ 64"
        using unat_bound [of parent] by simp
      ultimately show ?thesis
        by (simp add: word_le_nat_alt unat_div unat_word_ariths)
    qed
    have "parent \<noteq> 0" and "rate \<noteq> 0"
      using p h assms(2) by (auto simp: word_le_nat_alt half)
    with lo assms(2) show ?thesis
      by (auto simp: round_rate_def clamp_def Let_def not_less)
  qed
  ultimately show ?thesis by simp
qed

theorem rounded_rate_rejected_witness:
  "round_rate 900000000 900000000 = Some (Inr 450000000) \<and>
    set_rate 450000000 900000000 (\<lambda>_. 0) = (Inl InvalidRate, \<lambda>_. 0)"
  using rounded_rate_rejected [of 900000000 900000000 "\<lambda>_. 0"] by simp

end
