(* ===== verification/Msi.thy ===== *)
theory Msi
  imports Prelude
begin

text \<open>
  The MSI vector allocator of \<^verbatim>\<open>drivers/pic/apple-msi\<close>: the per-port bitmap of vectors, the
  controller adapter that hands out several vectors at once, and the port registry. The
  port interface the controller relies on is the locale \<open>vector_pool\<close>.
\<close>

section \<open>The port\<close>

abbreviation (input) MSI_DOORBELL_ADDR :: u32 where "MSI_DOORBELL_ADDR \<equiv> 0xfffff000"
abbreviation (input) PORT_MSICFG_OFFSET :: nat where "PORT_MSICFG_OFFSET \<equiv> 0x0124"
abbreviation (input) PORT_MSIBASE_OFFSET :: nat where "PORT_MSIBASE_OFFSET \<equiv> 0x0128"
abbreviation (input) PORT_MSIADDR_OFFSET :: nat where "PORT_MSIADDR_OFFSET \<equiv> 0x0168"
abbreviation (input) PORT_MSICFG_ENABLE :: u32 where "PORT_MSICFG_ENABLE \<equiv> 1"

record msi_port =
  port_base :: nat
  base_vector :: u32
  num_vectors :: u32
  allocated :: "bool list"

definition msi_port_new :: "nat \<Rightarrow> u32 \<Rightarrow> u32 \<Rightarrow> msi_port" where
  "msi_port_new base bv n =
     \<lparr>port_base = base, base_vector = bv, num_vectors = n, allocated = replicate (unat n) False\<rparr>"

text \<open>The scan for the first free slot: its index and the bitmap with the slot taken.\<close>

fun take_first_free :: "bool list \<Rightarrow> (nat \<times> bool list) option" where
  "take_first_free [] = None"
| "take_first_free (slot # slots) =
     (if \<not> slot then Some (0, True # slots)
      else map_option (\<lambda>(i, rest). (Suc i, slot # rest)) (take_first_free slots))"

definition allocate_vector :: "msi_port \<Rightarrow> (u32 \<times> msi_port) option" where
  "allocate_vector p =
     map_option (\<lambda>(i, slots). (base_vector p + of_nat i, p\<lparr>allocated := slots\<rparr>))
       (take_first_free (allocated p))"

definition free_vector :: "u32 \<Rightarrow> msi_port \<Rightarrow> msi_port" where
  "free_vector vector p =
     (if vector < base_vector p \<or> vector \<ge> base_vector p + num_vectors p then p
      else let idx = unat (vector - base_vector p)
           in if idx < length (allocated p) then p\<lparr>allocated := (allocated p)[idx := False]\<rparr>
              else p)"

text \<open>Register writes of the PCIe port, in program order.\<close>

definition enable_msi :: "msi_port \<Rightarrow> regs \<Rightarrow> regs" where
  "enable_msi p r =
     r(port_base p + PORT_MSICFG_OFFSET := PORT_MSICFG_ENABLE,
       port_base p + PORT_MSIADDR_OFFSET := MSI_DOORBELL_ADDR,
       port_base p + PORT_MSIBASE_OFFSET := base_vector p)"

section \<open>The controller\<close>

datatype msi_error = InvalidRequest | NoVectors

record msi_vector =
  virq :: u32
  hwirq :: u32
  msg_address :: u64
  msg_data :: u32

definition vector_message :: "u32 \<Rightarrow> msi_vector" where
  "vector_message n = \<lparr>virq = n, hwirq = n, msg_address = ucast MSI_DOORBELL_ADDR, msg_data = n\<rparr>"

text \<open>
  The allocation loop, over the two port operations it calls: a failed allocation gives
  back the vectors taken so far, oldest first. The accumulator is the \<open>vectors\<close> vector.
\<close>

fun allocate_loop ::
  "('p \<Rightarrow> (u32 \<times> 'p) option) \<Rightarrow> (u32 \<Rightarrow> 'p \<Rightarrow> 'p) \<Rightarrow> nat \<Rightarrow> msi_vector list \<Rightarrow>
   ('p, msi_error, msi_vector list) stepper" where
  "allocate_loop alloc free 0 vectors p = (Inr vectors, p)"
| "allocate_loop alloc free (Suc n) vectors p =
     (case alloc p of
        None \<Rightarrow> (Inl NoVectors, fold (\<lambda>v. free (hwirq v)) vectors p)
      | Some (vector_number, p') \<Rightarrow>
          allocate_loop alloc free n (vectors @ [vector_message vector_number]) p')"

definition allocate_vectors :: "nat \<Rightarrow> (msi_port, msi_error, msi_vector list) stepper" where
  "allocate_vectors count p =
     (if count = 0 then (Inl InvalidRequest, p)
      else allocate_loop allocate_vector free_vector count [] p)"

definition free_vectors :: "msi_vector list \<Rightarrow> msi_port \<Rightarrow> msi_port" where
  "free_vectors vs p = fold (\<lambda>v. free_vector (hwirq v)) vs p"

text \<open>The global port registry: identifiers are positions.\<close>

definition register_msi_port :: "msi_port \<Rightarrow> msi_port list \<Rightarrow> u32 \<times> msi_port list" where
  "register_msi_port c ports = (of_nat (length ports), ports @ [c])"

definition get_msi_port :: "u32 \<Rightarrow> msi_port list \<Rightarrow> msi_port option" where
  "get_msi_port n ports = (if unat n < length ports then Some (ports ! unat n) else None)"

section \<open>The interface of a vector pool\<close>

locale vector_pool =
  fixes alloc :: "'p \<Rightarrow> (u32 \<times> 'p) option"
    and free :: "u32 \<Rightarrow> 'p \<Rightarrow> 'p"
    and inv :: "'p \<Rightarrow> bool"
    and owned :: "'p \<Rightarrow> u32 set"
    and used :: "'p \<Rightarrow> u32 set"
  assumes alloc_Some: "inv p \<Longrightarrow> alloc p = Some (v, q) \<Longrightarrow>
      inv q \<and> v \<in> owned p - used p \<and> used q = insert v (used p) \<and> owned q = owned p"
    and alloc_None: "inv p \<Longrightarrow> alloc p = None \<longleftrightarrow> used p = owned p"
    and free_used: "inv p \<Longrightarrow> inv (free v p) \<and> used (free v p) = used p - {v} \<and> owned (free v p) = owned p"
    and used_owned: "inv p \<Longrightarrow> used p \<subseteq> owned p"
begin

lemma fold_free:
  "inv p \<Longrightarrow> inv (fold (\<lambda>v. free (hwirq v)) vs p) \<and>
     used (fold (\<lambda>v. free (hwirq v)) vs p) = used p - hwirq ` set vs \<and>
     owned (fold (\<lambda>v. free (hwirq v)) vs p) = owned p"
  by (induction vs arbitrary: p) (auto simp: free_used)

text \<open>The loop invariant relates the pool to the pool \<open>p0\<close> the request started from.\<close>

definition taken :: "'p \<Rightarrow> msi_vector list \<Rightarrow> 'p \<Rightarrow> bool" where
  "taken p0 vs p \<longleftrightarrow> inv p \<and> owned p = owned p0 \<and> used p = used p0 \<union> hwirq ` set vs \<and>
     hwirq ` set vs \<subseteq> owned p0 - used p0 \<and> distinct (map hwirq vs) \<and>
     (\<forall>v \<in> set vs. v = vector_message (hwirq v))"

lemma taken_alloc:
  "taken p0 vs p \<Longrightarrow> alloc p = Some (v, q) \<Longrightarrow> taken p0 (vs @ [vector_message v]) q"
  using alloc_Some [of p v q] by (auto simp: taken_def vector_message_def)

lemma allocate_loop_Inr:
  "taken p0 vs p \<Longrightarrow> allocate_loop alloc free n vs p = (Inr ws, q) \<Longrightarrow>
     taken p0 ws q \<and> length ws = length vs + n"
  by (induction n arbitrary: vs p)
    (fastforce split: option.splits dest: taken_alloc)+

lemma allocate_loop_Inl:
  "taken p0 vs p \<Longrightarrow> allocate_loop alloc free n vs p = (Inl e, q) \<Longrightarrow>
     e = NoVectors \<and> inv q \<and> used q = used p0 \<and> owned q = owned p0"
proof (induction n arbitrary: vs p)
  case (Suc n)
  show ?case
  proof (cases "alloc p")
    case None
    with Suc.prems fold_free [of p vs] show ?thesis
      by (auto simp: taken_def)
  next
    case (Some vq)
    with Suc show ?thesis
      by (auto split: prod.splits dest: taken_alloc)
  qed
qed simp

lemma allocate_loop_enough:
  "inv p \<Longrightarrow> finite (owned p) \<Longrightarrow>
     (\<exists>ws q. allocate_loop alloc free n vs p = (Inr ws, q)) \<longleftrightarrow> n \<le> card (owned p - used p)"
proof (induction n arbitrary: vs p)
  case (Suc n)
  show ?case
  proof (cases "alloc p")
    case None
    with Suc.prems alloc_None [of p] show ?thesis by simp
  next
    case (Some vq)
    then obtain v q where vq: "alloc p = Some (v, q)" by (cases vq) auto
    note step = alloc_Some [OF Suc.prems(1) vq]
    have "owned q - used q = (owned p - used p) - {v}"
      using step by auto
    then have "card (owned p - used p) = Suc (card (owned q - used q))"
      using step Suc.prems(2) card.remove [of "owned p - used p" v] by (simp only:) simp
    then show ?thesis
      using Suc.IH [of q] step Suc.prems(2) vq by (auto simp del: card_Diff_insert)
  qed
qed simp

end

section \<open>The port is a vector pool\<close>

definition port_ok :: "msi_port \<Rightarrow> bool" where
  "port_ok p \<longleftrightarrow> length (allocated p) = unat (num_vectors p) \<and>
     unat (base_vector p) + unat (num_vectors p) < 2 ^ 32"

definition vector_at :: "msi_port \<Rightarrow> nat \<Rightarrow> u32" where
  "vector_at p i = base_vector p + of_nat i"

definition owned_vectors :: "msi_port \<Rightarrow> u32 set" where
  "owned_vectors p = vector_at p ` {..<unat (num_vectors p)}"

definition used_vectors :: "msi_port \<Rightarrow> u32 set" where
  "used_vectors p = vector_at p ` {i. i < length (allocated p) \<and> allocated p ! i}"

lemma take_first_free_Some:
  "take_first_free bs = Some (i, cs) \<Longrightarrow> i < length bs \<and> \<not> bs ! i \<and> cs = bs[i := True]"
  by (induction bs arbitrary: i cs) (auto split: if_splits)

lemma take_first_free_None: "take_first_free bs = None \<longleftrightarrow> (\<forall>i < length bs. bs ! i)"
  by (induction bs) (auto simp: nth_Cons split: nat.splits)

lemma unat_vector_at:
  assumes "port_ok p" and "i < unat (num_vectors p)"
  shows "unat (vector_at p i) = unat (base_vector p) + i"
proof -
  have "unat (of_nat i :: u32) = i"
    using assms unat_bound [of "num_vectors p"] by (intro unat_of_nat_small) simp
  then show ?thesis
    using assms by (simp add: vector_at_def port_ok_def unat_word_ariths)
qed

lemma vector_at_inject:
  "port_ok p \<Longrightarrow> i < unat (num_vectors p) \<Longrightarrow> j < unat (num_vectors p) \<Longrightarrow>
     vector_at p i = vector_at p j \<longleftrightarrow> i = j"
  using unat_vector_at by (metis add_left_cancel)

lemma vector_at_update [simp]: "vector_at (p\<lparr>allocated := slots\<rparr>) = vector_at p"
  by (simp add: vector_at_def fun_eq_iff)

lemma owned_vectors_iff:
  assumes "port_ok p"
  shows "v \<in> owned_vectors p \<longleftrightarrow> base_vector p \<le> v \<and> v < base_vector p + num_vectors p"
    and "v \<in> owned_vectors p \<Longrightarrow> v = vector_at p (unat (v - base_vector p))"
    and "v \<in> owned_vectors p \<Longrightarrow> unat (v - base_vector p) < unat (num_vectors p)"
proof -
  have sum: "unat (base_vector p + num_vectors p) = unat (base_vector p) + unat (num_vectors p)"
    using assms by (simp add: port_ok_def unat_word_ariths)
  have at: "unat (vector_at p i - base_vector p) = i" if "i < unat (num_vectors p)" for i
    using that unat_bound [of "num_vectors p"] by (simp add: vector_at_def unat_of_nat_small)
  show iff: "v \<in> owned_vectors p \<longleftrightarrow> base_vector p \<le> v \<and> v < base_vector p + num_vectors p"
  proof
    assume "v \<in> owned_vectors p"
    then show "base_vector p \<le> v \<and> v < base_vector p + num_vectors p"
      using unat_vector_at [OF assms]
      by (auto simp: owned_vectors_def word_le_nat_alt word_less_nat_alt sum)
  next
    assume range: "base_vector p \<le> v \<and> v < base_vector p + num_vectors p"
    then have "unat (v - base_vector p) < unat (num_vectors p)"
      by (simp add: unat_sub word_le_nat_alt word_less_nat_alt sum) linarith
    moreover have "v = vector_at p (unat (v - base_vector p))"
      by (simp add: vector_at_def)
    ultimately show "v \<in> owned_vectors p"
      unfolding owned_vectors_def by blast
  qed
  show "v \<in> owned_vectors p \<Longrightarrow> v = vector_at p (unat (v - base_vector p))"
    by (simp add: vector_at_def)
  show "v \<in> owned_vectors p \<Longrightarrow> unat (v - base_vector p) < unat (num_vectors p)"
    using at by (auto simp: owned_vectors_def)
qed

lemma allocate_vector_Some:
  assumes ok: "port_ok p" and "allocate_vector p = Some (v, q)"
  shows "port_ok q \<and> v \<in> owned_vectors p - used_vectors p \<and>
    used_vectors q = insert v (used_vectors p) \<and> owned_vectors q = owned_vectors p"
proof -
  obtain i where i: "i < length (allocated p)" "\<not> allocated p ! i"
    and q: "v = vector_at p i" "q = p\<lparr>allocated := (allocated p)[i := True]\<rparr>"
    using assms(2) by (auto simp: allocate_vector_def vector_at_def dest: take_first_free_Some)
  have len: "length (allocated p) = unat (num_vectors p)"
    using ok by (simp add: port_ok_def)
  have "v \<in> owned_vectors p - used_vectors p"
    using i q vector_at_inject [OF ok, of i] len
    by (auto simp: owned_vectors_def used_vectors_def)
  moreover have "used_vectors q = insert v (used_vectors p)"
    using i q by (auto simp: used_vectors_def nth_list_update)
  moreover have "port_ok q" "owned_vectors q = owned_vectors p"
    using ok q by (simp_all add: port_ok_def owned_vectors_def)
  ultimately show ?thesis by blast
qed

lemma free_vector_used:
  assumes ok: "port_ok p"
  shows "port_ok (free_vector v p) \<and> used_vectors (free_vector v p) = used_vectors p - {v} \<and>
    owned_vectors (free_vector v p) = owned_vectors p"
proof (cases "v \<in> owned_vectors p")
  case True
  define i where "i = unat (v - base_vector p)"
  have i: "v = vector_at p i" "i < unat (num_vectors p)" "length (allocated p) = unat (num_vectors p)"
    using owned_vectors_iff(2,3) [OF ok True] ok by (auto simp: i_def port_ok_def)
  have "free_vector v p = p\<lparr>allocated := (allocated p)[i := False]\<rparr>"
    using owned_vectors_iff(1) [OF ok, of v] True i(2,3)
    by (auto simp: free_vector_def i_def [symmetric] Let_def)
  then show ?thesis
    using ok i vector_at_inject [OF ok _ i(2)]
    by (auto simp: port_ok_def owned_vectors_def used_vectors_def nth_list_update)
next
  case False
  moreover have "used_vectors p \<subseteq> owned_vectors p"
    using ok by (auto simp: used_vectors_def owned_vectors_def port_ok_def)
  ultimately show ?thesis
    using ok owned_vectors_iff(1) [OF ok, of v] by (auto simp: free_vector_def)
qed

interpretation port_pool: vector_pool allocate_vector free_vector port_ok owned_vectors used_vectors
proof unfold_locales
  fix p :: msi_port
  assume ok: "port_ok p"
  then have len: "length (allocated p) = unat (num_vectors p)"
    by (simp add: port_ok_def)
  show sub: "used_vectors p \<subseteq> owned_vectors p"
    by (auto simp: used_vectors_def owned_vectors_def len)
  have "used_vectors p = owned_vectors p \<longleftrightarrow> (\<forall>i < length (allocated p). allocated p ! i)"
    using vector_at_inject [OF ok] by (fastforce simp: used_vectors_def owned_vectors_def len)
  then show "allocate_vector p = None \<longleftrightarrow> used_vectors p = owned_vectors p"
    by (simp add: allocate_vector_def take_first_free_None)
qed (fact allocate_vector_Some free_vector_used)+

lemma finite_owned: "finite (owned_vectors p)"
  by (simp add: owned_vectors_def)

lemma port_ok_new: "unat bv + unat n < 2 ^ 32 \<Longrightarrow> port_ok (msi_port_new b bv n)"
  by (simp add: port_ok_def msi_port_new_def)

lemma used_new: "used_vectors (msi_port_new b bv n) = {}"
  by (auto simp: used_vectors_def msi_port_new_def)

section \<open>Properties\<close>

text \<open>
  A successful request hands out as many vectors as were asked for, all different, all
  owned by the port and free before, each with the doorbell message of its own number,
  and the port records exactly these as newly used.
\<close>

theorem allocate_vectors_fresh:
  assumes "port_ok p" and "allocate_vectors count p = (Inr vs, q)"
  shows "length vs = count \<and> distinct (map hwirq vs) \<and>
    hwirq ` set vs \<subseteq> owned_vectors p - used_vectors p \<and>
    (\<forall>v \<in> set vs. v = vector_message (hwirq v)) \<and>
    used_vectors q = used_vectors p \<union> hwirq ` set vs \<and> port_ok q"
proof -
  have "port_pool.taken p [] p"
    using assms(1) by (simp add: port_pool.taken_def)
  from port_pool.allocate_loop_Inr [OF this, of count vs q] assms(2)
  show ?thesis
    by (auto simp: allocate_vectors_def port_pool.taken_def split: if_splits)
qed

theorem allocate_vectors_fresh_witness:
  "\<exists>vs q. allocate_vectors 2 (msi_port_new 0 32 2) = (Inr vs, q) \<and> map hwirq vs = [32, 33] \<and>
     length vs = 2 \<and> used_vectors q = {32, 33}"
proof -
  let ?p = "msi_port_new 0 32 2"
  have run: "allocate_vectors 2 ?p = (Inr [vector_message 32, vector_message 33],
      ?p\<lparr>allocated := [True, True]\<rparr>)"
  proof -
    have "replicate 2 False = [False, False]"
      by (simp add: numeral_2_eq_2)
    then have p: "?p = \<lparr>port_base = 0, base_vector = 32, num_vectors = 2, allocated = [False, False]\<rparr>"
      by (simp add: msi_port_new_def)
    have two: "allocate_loop a f 2 = allocate_loop a f (Suc (Suc 0))" for a f
      by (simp only: numeral_2_eq_2)
    show ?thesis
      unfolding p allocate_vectors_def two by (simp add: allocate_vector_def)
  qed
  have "port_ok ?p"
    by (rule port_ok_new) simp
  from allocate_vectors_fresh [OF this run] run show ?thesis
    by (auto simp: vector_message_def used_new)
qed

text \<open>
  C38. A request for at least one vector succeeds exactly when the port has that many free
  vectors; when it fails, the error is \<open>NoVectors\<close> and the vectors taken on the way have
  all been given back.
\<close>

theorem allocate_vectors_all_or_nothing:
  assumes "port_ok p" and "0 < count"
  shows "if count \<le> card (owned_vectors p - used_vectors p)
    then \<exists>vs q. allocate_vectors count p = (Inr vs, q)
    else \<exists>q. allocate_vectors count p = (Inl NoVectors, q) \<and> used_vectors q = used_vectors p \<and>
           owned_vectors q = owned_vectors p \<and> port_ok q"
proof -
  have taken: "port_pool.taken p [] p"
    using assms(1) by (simp add: port_pool.taken_def)
  show ?thesis
    using port_pool.allocate_loop_enough [OF assms(1) finite_owned, of count "[]"]
      port_pool.allocate_loop_Inl [OF taken, of count] assms(2)
    by (cases "allocate_loop allocate_vector free_vector count [] p"; cases "fst (allocate_loop allocate_vector free_vector count [] p)")
       (auto simp: allocate_vectors_def)
qed

theorem allocate_vectors_all_or_nothing_witness:
  "\<exists>q. allocate_vectors 3 (msi_port_new 0 32 2) = (Inl NoVectors, q) \<and> used_vectors q = {}"
proof -
  let ?p = "msi_port_new 0 32 2"
  have ok: "port_ok ?p"
    by (rule port_ok_new) simp
  have "card (owned_vectors ?p) \<le> 2"
    unfolding owned_vectors_def by (rule order_trans [OF card_image_le]) (simp_all add: msi_port_new_def)
  then show ?thesis
    using allocate_vectors_all_or_nothing [OF ok, of 3] by (auto simp: used_new)
qed

end
