(* ===== verification/Mem.thy ===== *)
theory Mem
  imports Prelude
begin

text \<open>
  Byte-addressed memory shared with a coprocessor, and the volatile 32-bit accesses of the
  drivers on it. AArch64 runs little-endian, so a 32-bit access reads or writes four
  consecutive bytes, the lowest first. Addresses are natural numbers; nothing stops an
  access from falling outside the buffer a pointer came from, so that staying inside is
  something to prove.
\<close>

type_synonym mem = "nat \<Rightarrow> u8"

definition get32 :: "mem \<Rightarrow> nat \<Rightarrow> u32" where
  "get32 m a = ucast (m a) OR push_bit 8 (ucast (m (a + 1))) OR
     push_bit 16 (ucast (m (a + 2))) OR push_bit 24 (ucast (m (a + 3)))"

definition put32 :: "mem \<Rightarrow> nat \<Rightarrow> u32 \<Rightarrow> mem" where
  "put32 m a v = m(a := ucast v, a + 1 := ucast (drop_bit 8 v),
     a + 2 := ucast (drop_bit 16 v), a + 3 := ucast (drop_bit 24 v))"

definition put_bytes :: "mem \<Rightarrow> nat \<Rightarrow> u8 list \<Rightarrow> mem" where
  "put_bytes m a bs = (\<lambda>x. if a \<le> x \<and> x < a + length bs then bs ! (x - a) else m x)"

definition get_bytes :: "mem \<Rightarrow> nat \<Rightarrow> nat \<Rightarrow> u8 list" where
  "get_bytes m a n = map m [a..<a + n]"

named_theorems mem_simps \<open>reads after writes\<close>

lemma get32_put32_same [simp, mem_simps]: "get32 (put32 m a v) a = v"
proof (rule bit_word_eqI)
  fix n
  assume "n < LENGTH(32)"
  then consider "n < 8" | "8 \<le> n \<and> n < 16" | "16 \<le> n \<and> n < 24" | "24 \<le> n \<and> n < 32"
    by fastforce
  then show "bit (get32 (put32 m a v) a) n = bit v n"
    by cases (auto simp: get32_def put32_def bit_simps dest: bit_imp_le_length)
qed

lemma put32_other [mem_simps]: "x < a \<or> a + 4 \<le> x \<Longrightarrow> put32 m a v x = m x"
  by (auto simp: put32_def)

lemma get32_cong: "(\<And>x. a \<le> x \<Longrightarrow> x < a + 4 \<Longrightarrow> m x = m' x) \<Longrightarrow> get32 m a = get32 m' a"
  by (simp add: get32_def)

lemma get32_put32_other [mem_simps]:
  "b + 4 \<le> a \<or> a + 4 \<le> b \<Longrightarrow> get32 (put32 m a v) b = get32 m b"
  by (rule get32_cong) (auto simp: put32_other)

lemma put_bytes_other [mem_simps]: "x < a \<or> a + length bs \<le> x \<Longrightarrow> put_bytes m a bs x = m x"
  by (auto simp: put_bytes_def)

lemma get32_put_bytes_other [mem_simps]:
  "b + 4 \<le> a \<or> a + length bs \<le> b \<Longrightarrow> get32 (put_bytes m a bs) b = get32 m b"
  by (rule get32_cong) (auto simp: put_bytes_other)

lemma get_bytes_cong: "(\<And>x. a \<le> x \<Longrightarrow> x < a + n \<Longrightarrow> m x = m' x) \<Longrightarrow> get_bytes m a n = get_bytes m' a n"
  by (simp add: get_bytes_def)

lemma get_bytes_put_bytes_same [simp, mem_simps]:
  "n = length bs \<Longrightarrow> get_bytes (put_bytes m a bs) a n = bs"
  by (rule nth_equalityI) (auto simp: get_bytes_def put_bytes_def)

lemma get_bytes_put32_other [mem_simps]:
  "b + n \<le> a \<or> a + 4 \<le> b \<Longrightarrow> get_bytes (put32 m a v) b n = get_bytes m b n"
  by (rule get_bytes_cong) (auto simp: put32_other)

lemma get_bytes_put_bytes_other [mem_simps]:
  "b + n \<le> a \<or> a + length bs \<le> b \<Longrightarrow> get_bytes (put_bytes m a bs) b n = get_bytes m b n"
  by (rule get_bytes_cong) (auto simp: put_bytes_other)

lemma length_get_bytes [simp]: "length (get_bytes m a n) = n"
  by (simp add: get_bytes_def)

end
