(* ===== verification/Remoteproc.thy ===== *)
theory Remoteproc
  imports Mem
begin

text \<open>
  The kernel interface between coprocessor transports and their clients: the
  \<open>RemoteProcessor\<close> and \<open>RemoteprocService\<close> traits, of which \<^verbatim>\<open>drivers/soc/apple-rtkit\<close> is the
  provider and \<^verbatim>\<open>drivers/soc/apple-afk\<close> a client, together with the page allocator, the
  memory and the clock that the client uses. The operations are the fields of a record over
  a state of any type; what the client may rely on is a locale.
\<close>

datatype remoteproc_error =
    InvalidState | FirmwareMissing | LoadFailed | BootFailed | ShutdownFailed | ProcessorCrashed
  | ServiceNotFound | TransportError | NotSupported | Busy

record remoteproc_message =
  rm_words :: "u64 list"
  rm_len :: nat

definition message_one :: "u64 \<Rightarrow> remoteproc_message" where
  "message_one w = \<lparr>rm_words = [w, 0, 0, 0], rm_len = 1\<rparr>"

record 's remoteproc =
  service_available :: bool
  srv_send :: "remoteproc_message \<Rightarrow> ('s, remoteproc_error, unit) stepper"
  srv_try_recv :: "('s, remoteproc_error, u64 option) stepper"
  rp_map_dma :: "nat \<Rightarrow> nat \<Rightarrow> ('s, remoteproc_error, u64) stepper"
  rp_unmap_dma :: "u64 \<Rightarrow> nat \<Rightarrow> 's \<Rightarrow> 's"
  rp_dma_alignment :: nat
  os_alloc_pages :: "nat \<Rightarrow> nat \<Rightarrow> 's \<Rightarrow> nat option \<times> 's"
  os_free_pages :: "nat \<Rightarrow> nat \<Rightarrow> 's \<Rightarrow> 's"
  os_virt :: "nat \<Rightarrow> nat"
  os_memory :: "'s \<Rightarrow> mem"
  os_set_memory :: "mem \<Rightarrow> 's \<Rightarrow> 's"
  os_now :: "'s \<Rightarrow> nat"
  os_delay :: "'s \<Rightarrow> 's"

text \<open>
  What a client that polls relies on: \<open>queued\<close> is the number of messages that will still
  come. Receiving one leaves fewer, nothing else adds any, time does not run backwards and
  a delay makes it advance.
\<close>

locale polled_service =
  fixes R :: "'s remoteproc" and queued :: "'s \<Rightarrow> nat"
  assumes recv_Some: "srv_try_recv R s = (Inr (Some w), s') \<Longrightarrow> queued s' < queued s"
    and recv_queued: "srv_try_recv R s = (r, s') \<Longrightarrow> queued s' \<le> queued s"
    and recv_now: "srv_try_recv R s = (r, s') \<Longrightarrow> os_now R s \<le> os_now R s'"
    and delay_queued: "queued (os_delay R s) \<le> queued s"
    and delay_now: "os_now R s < os_now R (os_delay R s)"

text \<open>What a client that shares memory with the processor relies on.\<close>

locale shared_memory =
  fixes R :: "'s remoteproc"
  assumes memory_set: "os_memory R (os_set_memory R m s) = m"
    and send_memory: "srv_send R w s = (r, s') \<Longrightarrow> os_memory R s' = os_memory R s"

end
