(* ===== verification/AfkRing.thy ===== *)
theory AfkRing
  imports Remoteproc
begin

text \<open>
  The ring buffers of \<^verbatim>\<open>drivers/soc/apple-afk\<close>: queue entries in shared memory, the free space
  test, and the write, peek, payload and acknowledge operations. A ring is a header of
  three 64-byte blocks (size, read pointer, write pointer) followed by the data area.
  Cache maintenance and barriers have no effect on a coherent memory and are left out.
\<close>

section \<open>Layout\<close>

abbreviation (input) BLOCK_SIZE :: nat where "BLOCK_SIZE \<equiv> 64"
definition QE_MAGIC :: u32 where "QE_MAGIC = 0x20504F49"
abbreviation (input) QE_HEADER_SIZE :: nat where "QE_HEADER_SIZE \<equiv> 16"
abbreviation (input) RB_HEADER_SIZE :: nat where "RB_HEADER_SIZE \<equiv> 192"
abbreviation (input) RB_RPTR :: nat where "RB_RPTR \<equiv> 64"
abbreviation (input) RB_WPTR :: nat where "RB_WPTR \<equiv> 128"

record afk_queue_entry =
  qe_magic :: u32
  qe_size :: u32
  qe_channel :: u32
  qe_type :: u32

record afk_ring =
  rb_hdr :: nat
  rb_buf :: nat
  rb_bufsz :: u32
  rb_ready :: bool

text \<open>
  \<open>AfkPanic\<close> is an arithmetic underflow: a panic where overflow checks are on.
\<close>

datatype afk_error =
    TxNotReady | TxFull | AfkPanic
  | NoSharedBuffer | AllocFailed | TagMismatch | RingOutOfBounds | RingSizeMismatch
  | RingsNotInitialized | RbepTimeout | InitTimeout | NoRtkitService
  | RemoteprocFailed remoteproc_error

definition block_align_up :: "nat \<Rightarrow> nat" where
  "block_align_up val = (val + BLOCK_SIZE - 1) div BLOCK_SIZE * BLOCK_SIZE"

definition read_rptr :: "mem \<Rightarrow> nat \<Rightarrow> nat" where
  "read_rptr m hdr = unat (get32 m (hdr + RB_RPTR))"

definition read_wptr :: "mem \<Rightarrow> nat \<Rightarrow> nat" where
  "read_wptr m hdr = unat (get32 m (hdr + RB_WPTR))"

definition write_entry :: "mem \<Rightarrow> nat \<Rightarrow> u32 \<Rightarrow> u32 \<Rightarrow> u32 \<Rightarrow> mem" where
  "write_entry m a sz channel ty =
     put32 (put32 (put32 (put32 m a QE_MAGIC) (a + 4) sz) (a + 8) channel) (a + 12) ty"

definition read_entry :: "mem \<Rightarrow> nat \<Rightarrow> afk_queue_entry" where
  "read_entry m a = \<lparr>qe_magic = get32 m a, qe_size = get32 m (a + 4),
     qe_channel = get32 m (a + 8), qe_type = get32 m (a + 12)\<rparr>"

section \<open>Operations\<close>

text \<open>The free space test; \<open>None\<close> is the underflow of \<open>bufsz - w\<close>.\<close>

definition has_space :: "nat \<Rightarrow> nat \<Rightarrow> nat \<Rightarrow> nat \<Rightarrow> bool option" where
  "has_space w r needed bufsz =
     (if w < r then Some (needed < r - w)
      else if bufsz < w then None
      else let space_above = bufsz - w;
               fits_above = needed < space_above \<or> (needed = space_above \<and> r \<noteq> 0)
           in Some (if fits_above then True else needed < r))"

text \<open>
  The part of \<open>send\<close> that works on the ring: the new memory and the write pointer that the
  doorbell message then carries.
\<close>

definition afk_enqueue ::
  "afk_ring \<Rightarrow> u32 \<Rightarrow> u32 \<Rightarrow> u8 list \<Rightarrow> mem \<Rightarrow> afk_error + (mem \<times> nat)" where
  "afk_enqueue rb channel msg_type data m =
     (if \<not> rb_ready rb then Inl TxNotReady
      else let bufsz = unat (rb_bufsz rb);
               rptr = read_rptr m (rb_hdr rb);
               wptr = read_wptr m (rb_hdr rb);
               entry_total = QE_HEADER_SIZE + length data;
               advance = block_align_up entry_total
      in case has_space wptr rptr advance bufsz of
           None \<Rightarrow> Inl AfkPanic
         | Some False \<Rightarrow> Inl TxFull
         | Some True \<Rightarrow>
             (let m1 = write_entry m (rb_buf rb + wptr) (of_nat (length data)) channel msg_type;
                  new1 = wptr + QE_HEADER_SIZE
              in if bufsz < new1 then Inl AfkPanic
                 else let (m2, new2) =
                            (if length data > bufsz - new1
                             then (write_entry m1 (rb_buf rb) (of_nat (length data)) channel msg_type,
                                   QE_HEADER_SIZE)
                             else (m1, new1));
                          m3 = put_bytes m2 (rb_buf rb + new2) data;
                          new3 = block_align_up (new2 + length data);
                          new4 = (if new3 \<ge> bufsz then 0 else new3);
                          m4 = put32 m3 (rb_hdr rb + RB_WPTR) (of_nat new4)
                      in Inr (m4, new4)))"

text \<open>
  \<open>recv\<close> peeks at the next entry. It writes the memory in one case: an entry that does not
  fit before the end of the data area moves the read pointer to the start.
\<close>

definition afk_recv :: "afk_ring \<Rightarrow> mem \<Rightarrow> (afk_error + afk_queue_entry option) \<times> mem" where
  "afk_recv rb m =
     (if \<not> rb_ready rb then (Inr None, m)
      else let bufsz = unat (rb_bufsz rb);
               rptr = read_rptr m (rb_hdr rb);
               wptr = read_wptr m (rb_hdr rb)
      in if rptr = wptr then (Inr None, m)
         else if bufsz < QE_HEADER_SIZE then (Inl AfkPanic, m)
         else if rptr > bufsz - QE_HEADER_SIZE then (Inr None, m)
         else if get32 m (rb_buf rb + rptr) \<noteq> QE_MAGIC then (Inr None, m)
         else let sz = unat (get32 m (rb_buf rb + rptr + 4));
                  wraps = rptr + QE_HEADER_SIZE + sz > bufsz;
                  m' = (if wraps then put32 m (rb_hdr rb + RB_RPTR) 0 else m)
              in if wraps \<and> get32 m' (rb_buf rb) \<noteq> QE_MAGIC then (Inr None, m')
                 else let final_rptr = read_rptr m' (rb_hdr rb);
                          final_hdr = rb_buf rb + final_rptr;
                          final_size = unat (get32 m' (final_hdr + 4))
                      in if final_rptr + QE_HEADER_SIZE + final_size > bufsz then (Inr None, m')
                         else (Inr (Some (read_entry m' final_hdr)), m'))"

definition afk_recv_payload :: "afk_ring \<Rightarrow> mem \<Rightarrow> afk_queue_entry \<Rightarrow> u8 list" where
  "afk_recv_payload rb m entry =
     (let rptr = read_rptr m (rb_hdr rb);
          sz = unat (qe_size entry);
          data_offset = (if rptr + QE_HEADER_SIZE + sz > unat (rb_bufsz rb)
                         then QE_HEADER_SIZE else rptr + QE_HEADER_SIZE)
      in get_bytes m (rb_buf rb + data_offset) sz)"

definition afk_recv_ack :: "afk_ring \<Rightarrow> mem \<Rightarrow> mem" where
  "afk_recv_ack rb m =
     (let rptr = read_rptr m (rb_hdr rb)
      in if get32 m (rb_buf rb + rptr) \<noteq> QE_MAGIC then m
         else let sz = unat (get32 m (rb_buf rb + rptr + 4));
                  new1 = block_align_up (rptr + QE_HEADER_SIZE + sz);
                  new2 = (if new1 \<ge> unat (rb_bufsz rb) then 0 else new1)
              in put32 m (rb_hdr rb + RB_RPTR) (of_nat new2))"

section \<open>The queue a ring holds\<close>

lemma block_align_up_bounds: "n \<le> block_align_up n" "block_align_up n < n + 64" "64 dvd block_align_up n"
  by (simp_all add: block_align_up_def)

lemma block_align_up_le: "64 dvd k \<Longrightarrow> n \<le> k \<Longrightarrow> block_align_up n \<le> k"
  by (auto simp: block_align_up_def elim!: dvdE)

lemma block_align_up_add: "64 dvd k \<Longrightarrow> block_align_up (k + n) = k + block_align_up n"
proof -
  assume "64 dvd k"
  then obtain q where k: "k = q * 64"
    by (auto simp: mult.commute elim: dvdE)
  have "(k + n + 64 - 1) div 64 = q + (n + 64 - 1) div 64"
    using div_mult_self1 [of 64 "n + 63" q] by (simp add: k add.commute add.left_commute)
  then show ?thesis
    by (simp add: block_align_up_def k algebra_simps)
qed

definition entry_at :: "mem \<Rightarrow> nat \<Rightarrow> u32 \<Rightarrow> u32 \<Rightarrow> nat \<Rightarrow> bool" where
  "entry_at m a channel ty len \<longleftrightarrow>
     get32 m a = QE_MAGIC \<and> get32 m (a + 4) = of_nat len \<and> get32 m (a + 8) = channel \<and>
     get32 m (a + 12) = ty \<and> len < 2 ^ 32"

type_synonym afk_message = "u32 \<times> u32 \<times> u8 list"

text \<open>
  \<open>chain m buf n r w es\<close>: starting at offset \<open>r\<close> of a data area of \<open>n\<close> bytes at \<open>buf\<close>, the
  entries \<open>es\<close> follow one another up to offset \<open>w\<close>. An entry whose payload does not fit
  before the end has a second header at the start and its payload behind that.
\<close>

fun chain :: "mem \<Rightarrow> nat \<Rightarrow> nat \<Rightarrow> nat \<Rightarrow> nat \<Rightarrow> afk_message list \<Rightarrow> bool" where
  "chain m buf n r w [] \<longleftrightarrow> r = w"
| "chain m buf n r w ((channel, ty, data) # es) \<longleftrightarrow>
     r \<noteq> w \<and> r < n \<and> 64 dvd r \<and> entry_at m (buf + r) channel ty (length data) \<and>
     (if n < r + 16 + length data
      then w < r \<and> entry_at m buf channel ty (length data) \<and>
        get_bytes m (buf + 16) (length data) = data \<and>
        block_align_up (16 + length data) \<le> w \<and>
        chain m buf n (block_align_up (16 + length data)) w es
      else get_bytes m (buf + r + 16) (length data) = data \<and>
        (let next = block_align_up (r + 16 + length data)
         in if n \<le> next then w < r \<and> chain m buf n 0 w es
            else (r < w \<longrightarrow> next \<le> w) \<and> chain m buf n next w es))"

text \<open>The offsets between the read and the write pointer.\<close>

definition occupied :: "nat \<Rightarrow> nat \<Rightarrow> nat \<Rightarrow> nat \<Rightarrow> bool" where
  "occupied n r w x \<longleftrightarrow> (if r \<le> w then r \<le> x \<and> x < w else r \<le> x \<and> x < n \<or> x < w)"

lemma entry_at_cong:
  "entry_at m a c t len \<Longrightarrow> (\<And>x. a \<le> x \<Longrightarrow> x < a + 16 \<Longrightarrow> m x = m' x) \<Longrightarrow> entry_at m' a c t len"
  unfolding entry_at_def by (auto simp: get32_cong [of _ m' m])

lemma chain_frame:
  assumes "chain m buf n r w es" and "64 dvd n" and "w < n"
    and "\<And>x. occupied n r w x \<Longrightarrow> m' (buf + x) = m (buf + x)"
  shows "chain m' buf n r w es"
  using assms
proof (induction m buf n r w es rule: chain.induct)
  case (2 m buf n r w channel ty data es)
  have keep: "m' y = m y" if "buf + lo \<le> y" "y < buf + hi" "\<And>x. lo \<le> x \<Longrightarrow> x < hi \<Longrightarrow> occupied n r w x"
    for lo hi y
    using "2.prems"(4) [OF that(3), of "y - buf"] that(1,2) by simp
  have r: "r < n" "64 dvd r" "r \<noteq> w" and e: "entry_at m (buf + r) channel ty (length data)"
    using "2.prems"(1) by auto
  have r64: "r + 64 \<le> n"
    using r(1,2) "2.prems"(2) by (auto elim!: dvdE)
  show ?case
  proof (cases "n < r + 16 + length data")
    case True
    let ?k = "block_align_up (16 + length data)"
    have w: "w < r" and k: "?k \<le> w" and e0: "entry_at m buf channel ty (length data)"
      and d: "get_bytes m (buf + 16) (length data) = data" and rest: "chain m buf n ?k w es"
      using "2.prems"(1) True by auto
    have k16: "16 + length data \<le> ?k"
      by (rule block_align_up_bounds)
    have "entry_at m' (buf + r) channel ty (length data)"
      by (rule entry_at_cong [OF e]) (use w r64 in \<open>auto intro!: keep [symmetric, of r _ "r + 16"] simp: occupied_def\<close>)
    moreover have "entry_at m' buf channel ty (length data)"
      by (rule entry_at_cong [OF e0]) (use w k k16 in \<open>auto intro!: keep [symmetric, of 0 _ 16] simp: occupied_def\<close>)
    moreover have "get_bytes m' (buf + 16) (length data) = get_bytes m (buf + 16) (length data)"
      by (rule get_bytes_cong) (use w k k16 in \<open>auto intro!: keep [of 16 _ "16 + length data"] simp: occupied_def\<close>)
    moreover have "chain m' buf n ?k w es"
      using True rest "2.prems" w k by (intro "2.IH"(1)) (auto simp: occupied_def)
    ultimately show ?thesis
      using "2.prems"(1) True d by simp
  next
    case False
    let ?k = "block_align_up (r + 16 + length data)"
    have d: "get_bytes m (buf + r + 16) (length data) = data"
      using "2.prems"(1) False by auto
    have kn: "?k \<le> n"
      using False "2.prems"(2) by (intro block_align_up_le) auto
    have rk: "r + 16 + length data \<le> ?k"
      by (rule block_align_up_bounds)
    have occ: "occupied n r w x" if "r \<le> x" "x < r + 16 + length data" for x
      using that rk kn "2.prems"(1) False by (auto simp: occupied_def Let_def split: if_splits)
    have "entry_at m' (buf + r) channel ty (length data)"
      by (rule entry_at_cong [OF e]) (use occ in \<open>auto intro!: keep [symmetric, of r _ "r + 16"]\<close>)
    moreover have "get_bytes m' (buf + r + 16) (length data) = get_bytes m (buf + r + 16) (length data)"
      by (rule get_bytes_cong) (use occ in \<open>auto intro!: keep [of "r + 16" _ "r + 16 + length data"]\<close>)
    moreover have "chain m' buf n 0 w es" if "n \<le> ?k"
      using False that "2.prems" by (intro "2.IH"(2)) (auto simp: occupied_def Let_def)
    moreover have "chain m' buf n ?k w es" if "\<not> n \<le> ?k"
      using False that "2.prems" rk by (intro "2.IH"(3)) (auto simp: occupied_def Let_def split: if_splits)
    ultimately show ?thesis
      using "2.prems"(1) False d by (auto simp: Let_def)
  qed
qed simp

text \<open>
  \<open>advances r w w'\<close>: moving the write pointer from \<open>w\<close> to \<open>w'\<close> does not run into the
  read pointer \<open>r\<close>.
\<close>

definition advances :: "nat \<Rightarrow> nat \<Rightarrow> nat \<Rightarrow> bool" where
  "advances r w w' \<longleftrightarrow> (if r \<le> w then w < w' \<or> w' < r else w < w' \<and> w' < r)"

lemma chain_append:
  assumes "chain m buf n r w es" and "chain m buf n w w' [e]" and "advances r w w'"
  shows "chain m buf n r w' (es @ [e])"
  using assms
proof (induction m buf n r w es rule: chain.induct)
  case (2 m buf n r w channel ty data es)
  show ?case
  proof (cases "n < r + 16 + length data")
    case True
    let ?k = "block_align_up (16 + length data)"
    have "chain m buf n ?k w' (es @ [e])"
      using True "2.prems" by (intro "2.IH"(1)) (auto simp: advances_def)
    then show ?thesis
      using True "2.prems"(1,3) by (auto simp: advances_def)
  next
    case False
    let ?k = "block_align_up (r + 16 + length data)"
    have rk: "r + 16 + length data \<le> ?k"
      by (rule block_align_up_bounds)
    have "chain m buf n 0 w' (es @ [e])" if "n \<le> ?k"
      using False that "2.prems" by (intro "2.IH"(2)) (auto simp: advances_def Let_def)
    moreover have "chain m buf n ?k w' (es @ [e])" if "\<not> n \<le> ?k"
      using False that "2.prems" rk
      by (intro "2.IH"(3)) (auto simp: advances_def Let_def split: if_splits)
    ultimately show ?thesis
      using False "2.prems"(1,3) rk by (auto simp: advances_def Let_def split: if_splits)
  qed
qed simp

definition ring_ok :: "afk_ring \<Rightarrow> bool" where
  "ring_ok rb \<longleftrightarrow> rb_ready rb \<and> rb_buf rb = rb_hdr rb + RB_HEADER_SIZE \<and>
     64 dvd unat (rb_bufsz rb) \<and> 0 < unat (rb_bufsz rb)"

text \<open>The ring in memory \<open>m\<close> is well formed and holds the messages \<open>es\<close>, oldest first.\<close>

definition ring_holds :: "afk_ring \<Rightarrow> mem \<Rightarrow> afk_message list \<Rightarrow> bool" where
  "ring_holds rb m es \<longleftrightarrow> ring_ok rb \<and>
     read_rptr m (rb_hdr rb) < unat (rb_bufsz rb) \<and> read_wptr m (rb_hdr rb) < unat (rb_bufsz rb) \<and>
     64 dvd read_rptr m (rb_hdr rb) \<and> 64 dvd read_wptr m (rb_hdr rb) \<and>
     chain m (rb_buf rb) (unat (rb_bufsz rb)) (read_rptr m (rb_hdr rb)) (read_wptr m (rb_hdr rb)) es"

lemma ring_ok_size: "ring_ok rb \<Longrightarrow> 64 \<le> unat (rb_bufsz rb)"
  by (auto simp: ring_ok_def dvd_imp_le)

lemma entry_at_write_entry:
  "len < 2 ^ 32 \<Longrightarrow> entry_at (write_entry m a (of_nat len) c t) a c t len"
  by (simp add: entry_at_def write_entry_def get32_put32_other)

lemma write_entry_other [mem_simps]:
  "x < a \<or> a + 16 \<le> x \<Longrightarrow> write_entry m a len c t x = m x"
  by (auto simp: write_entry_def put32_other)

lemma get32_write_entry_other [mem_simps]:
  "b + 4 \<le> a \<or> a + 16 \<le> b \<Longrightarrow> get32 (write_entry m a len c t) b = get32 m b"
  by (rule get32_cong) (auto simp: write_entry_other)

lemma entry_at_other [mem_simps]:
  "a + 16 \<le> x \<or> x + 4 \<le> a \<Longrightarrow> entry_at (put32 m x v) a c t len = entry_at m a c t len"
  "a + 16 \<le> x \<or> x + length bs \<le> a \<Longrightarrow> entry_at (put_bytes m x bs) a c t len = entry_at m a c t len"
  "a + 16 \<le> x \<or> x + 16 \<le> a \<Longrightarrow> entry_at (write_entry m x sz c' t') a c t len = entry_at m a c t len"
  by (auto simp: entry_at_def mem_simps)

lemma read_pointers_other [mem_simps]:
  "h + 68 \<le> a \<Longrightarrow> read_rptr (put32 m a v) h = read_rptr m h"
  "h + 68 \<le> a \<Longrightarrow> read_rptr (put_bytes m a bs) h = read_rptr m h"
  "h + 68 \<le> a \<Longrightarrow> read_rptr (write_entry m a sz c t) h = read_rptr m h"
  "a + 4 \<le> h + 128 \<Longrightarrow> read_wptr (put32 m a v) h = read_wptr m h"
  by (simp_all add: read_rptr_def read_wptr_def mem_simps)

lemma read_pointers_same [simp, mem_simps]:
  "v < 2 ^ 32 \<Longrightarrow> read_rptr (put32 m (h + 64) (of_nat v)) h = v"
  "v < 2 ^ 32 \<Longrightarrow> read_wptr (put32 m (h + 128) (of_nat v)) h = v"
  by (simp_all add: read_rptr_def read_wptr_def unat_of_nat_small)

text \<open>When the free space test passes, the entry fits and the read pointer is not reached.\<close>

lemma has_space_cases:
  assumes "has_space w r (block_align_up (16 + len)) n = Some True"
    and "w < n" and "r < n" and "64 dvd n" and "64 dvd w" and "64 dvd r"
  shows "(w + 16 + len \<le> n \<and>
          (let w' = block_align_up (w + 16 + len)
           in w' \<le> n \<and> advances r w (if n \<le> w' then 0 else w') \<and> (w < r \<longrightarrow> w' < r)))
      \<or> (n < w + 16 + len \<and> r \<le> w \<and> block_align_up (16 + len) < r)"
proof -
  have al: "block_align_up (w + 16 + len) = w + block_align_up (16 + len)"
    using block_align_up_add [OF assms(5), of "16 + len"] by (simp add: add.assoc)
  define k where "k = block_align_up (16 + len)"
  have k: "16 + len \<le> k" "64 dvd k"
    unfolding k_def by (rule block_align_up_bounds)+
  have le: "w + k \<le> n" if "w + 16 + len \<le> n"
    using block_align_up_le [OF assms(4) that] by (simp add: al k_def)
  show ?thesis
  proof (cases "w + 16 + len \<le> n")
    case True
    then show ?thesis
      using assms(1-3) k(1) le [OF True] unfolding al k_def [symmetric]
      by (auto simp: has_space_def Let_def advances_def split: if_splits)
  next
    case False
    then show ?thesis
      using assms(1-3) k(1) unfolding al k_def [symmetric]
      by (auto simp: has_space_def Let_def split: if_splits)
  qed
qed

lemma has_space_no_panic: "w < n \<Longrightarrow> has_space w r k n \<noteq> None"
  by (simp add: has_space_def Let_def)

lemma enqueue_cases:
  assumes holds: "ring_holds rb m es" and enq: "afk_enqueue rb c t d m = Inr (m', new)"
  defines "n \<equiv> unat (rb_bufsz rb)" and "w \<equiv> read_wptr m (rb_hdr rb)" and "r \<equiv> read_rptr m (rb_hdr rb)"
  shows "has_space w r (block_align_up (16 + length d)) n = Some True"
    and "w + 16 + length d \<le> n \<Longrightarrow>
      new = (if n \<le> block_align_up (w + 16 + length d) then 0 else block_align_up (w + 16 + length d)) \<and>
      m' = put32 (put_bytes (write_entry m (rb_buf rb + w) (of_nat (length d)) c t)
             (rb_buf rb + (w + 16)) d) (rb_hdr rb + 128) (of_nat new)"
    and "n < w + 16 + length d \<Longrightarrow>
      new = (if n \<le> block_align_up (16 + length d) then 0 else block_align_up (16 + length d)) \<and>
      m' = put32 (put_bytes (write_entry (write_entry m (rb_buf rb + w) (of_nat (length d)) c t)
             (rb_buf rb) (of_nat (length d)) c t)
             (rb_buf rb + 16) d) (rb_hdr rb + 128) (of_nat new)"
proof -
  have "rb_ready rb" "w + 16 \<le> n"
    using holds ring_ok_size [of rb] by (auto simp: ring_holds_def ring_ok_def n_def w_def elim!: dvdE)
  then show "has_space w r (block_align_up (16 + length d)) n = Some True"
    using enq by (auto simp: afk_enqueue_def Let_def n_def w_def r_def split: option.splits bool.splits)
  then show "w + 16 + length d \<le> n \<Longrightarrow>
      new = (if n \<le> block_align_up (w + 16 + length d) then 0 else block_align_up (w + 16 + length d)) \<and>
      m' = put32 (put_bytes (write_entry m (rb_buf rb + w) (of_nat (length d)) c t)
             (rb_buf rb + (w + 16)) d) (rb_hdr rb + 128) (of_nat new)"
    and "n < w + 16 + length d \<Longrightarrow>
      new = (if n \<le> block_align_up (16 + length d) then 0 else block_align_up (16 + length d)) \<and>
      m' = put32 (put_bytes (write_entry (write_entry m (rb_buf rb + w) (of_nat (length d)) c t)
             (rb_buf rb) (of_nat (length d)) c t)
             (rb_buf rb + 16) d) (rb_hdr rb + 128) (of_nat new)"
    using enq \<open>rb_ready rb\<close> \<open>w + 16 \<le> n\<close>
    by (auto simp: afk_enqueue_def Let_def n_def [symmetric] w_def [symmetric] r_def [symmetric] add.assoc
        split: if_splits)
qed

text \<open>
  The entry just written is a chain of one from the old to the new write pointer, the
  older entries are untouched, and only the data area and the write pointer changed.
\<close>

lemma enqueue_effect:
  assumes holds: "ring_holds rb m es" and enq: "afk_enqueue rb c t d m = Inr (m', new)"
  defines "n \<equiv> unat (rb_bufsz rb)" and "w \<equiv> read_wptr m (rb_hdr rb)" and "r \<equiv> read_rptr m (rb_hdr rb)"
  shows "chain m' (rb_buf rb) n w new [(c, t, d)]" and "advances r w new" and "new < n" and "64 dvd new"
    and "\<And>x. occupied n r w x \<Longrightarrow> m' (rb_buf rb + x) = m (rb_buf rb + x)"
    and "read_wptr m' (rb_hdr rb) = new" and "read_rptr m' (rb_hdr rb) = r"
    and "\<And>a. a < rb_hdr rb + 128 \<or> rb_hdr rb + 132 \<le> a \<and> a < rb_buf rb \<or> rb_buf rb + n \<le> a \<Longrightarrow> m' a = m a"
proof -
  note enq_cases = enqueue_cases [OF holds enq, folded n_def w_def r_def]
  have ok: "rb_buf rb = rb_hdr rb + 192" "64 dvd n" "0 < n" and n32: "n < 2 ^ 32"
    using holds unat_bound [of "rb_bufsz rb"] by (auto simp: ring_holds_def ring_ok_def n_def)
  have ptrs: "w < n" "r < n" "64 dvd w" "64 dvd r"
    using holds by (simp_all add: ring_holds_def n_def w_def r_def)
  have w64: "w + 64 \<le> n"
    using ptrs ok(2) by (auto elim!: dvdE)
  note space = has_space_cases [OF enq_cases(1) ptrs(1,2) ok(2) ptrs(3,4)]
  let ?b = "rb_buf rb" and ?h = "rb_hdr rb" and ?l = "length d"
  have "chain m' ?b n w new [(c, t, d)] \<and> advances r w new \<and> new < n \<and> 64 dvd new \<and>
    (\<forall>x. occupied n r w x \<longrightarrow> m' (?b + x) = m (?b + x)) \<and>
    read_wptr m' ?h = new \<and> read_rptr m' ?h = r \<and>
    (\<forall>a. a < ?h + 128 \<or> ?h + 132 \<le> a \<and> a < ?b \<or> ?b + n \<le> a \<longrightarrow> m' a = m a)"
  proof (cases "w + 16 + ?l \<le> n")
    case True
    note new = enq_cases(2) [OF True]
    let ?k = "block_align_up (w + 16 + ?l)"
    have k: "?k \<le> n" "advances r w new" "w < r \<longrightarrow> ?k < r" "w + 16 + ?l \<le> ?k" "64 dvd ?k"
      using space True new block_align_up_bounds [of "w + 16 + ?l"] by (auto simp: Let_def)
    have new_n: "new < n" "64 dvd new" "new \<noteq> w" "new < 2 ^ 32" "?l < 2 ^ 32"
      using new k ok(3) n32 by (auto simp: advances_def split: if_splits)
    have m': "m' = put32 (put_bytes (write_entry m (?b + w) (of_nat ?l) c t) (?b + (w + 16)) d)
        (?h + 128) (of_nat new)"
      using new by simp
    have "entry_at m' (?b + w) c t ?l"
      unfolding m' using ok(1) new_n(5) by (simp add: entry_at_other entry_at_write_entry)
    moreover have "get_bytes m' (?b + w + 16) ?l = d"
      unfolding m' using ok(1) by (simp add: get_bytes_put32_other add.assoc)
    ultimately have "chain m' ?b n w new [(c, t, d)]"
      using True new new_n ptrs by (auto simp: Let_def)
    moreover have "m' (?b + x) = m (?b + x)" if "occupied n r w x" for x
    proof -
      have "x < w \<or> ?k \<le> x"
        using that k(3) ptrs by (auto simp: occupied_def split: if_splits)
      then show ?thesis
        unfolding m' using ok(1) k(4) by (auto simp: mem_simps)
    qed
    moreover have "read_wptr m' ?h = new" "read_rptr m' ?h = r"
      unfolding m' using ok(1) new_n(4) by (simp_all add: mem_simps r_def)
    moreover have "m' a = m a" if "a < ?h + 128 \<or> ?h + 132 \<le> a \<and> a < ?b \<or> ?b + n \<le> a" for a
      unfolding m' using that ok(1) True by (auto simp: mem_simps)
    ultimately show ?thesis
      using new_n k(2) by blast
  next
    case False
    then have over: "n < w + 16 + ?l" by simp
    note new = enq_cases(3) [OF over]
    let ?k = "block_align_up (16 + ?l)"
    have k: "?k < r" "r \<le> w" "16 + ?l \<le> ?k" "64 dvd ?k"
      using space False block_align_up_bounds [of "16 + ?l"] by auto
    have new_n: "new < n" "64 dvd new" "new \<noteq> w" "new < 2 ^ 32" "?l < 2 ^ 32" "new = ?k"
      using new k ptrs ok(3) n32 by auto
    have m': "m' = put32 (put_bytes (write_entry (write_entry m (?b + w) (of_nat ?l) c t)
        ?b (of_nat ?l) c t) (?b + 16) d) (?h + 128) (of_nat new)"
      using new by simp
    have "entry_at m' (?b + w) c t ?l" "entry_at m' ?b c t ?l"
      unfolding m' using ok(1) new_n(5) k by (simp_all add: entry_at_other entry_at_write_entry)
    moreover have "get_bytes m' (?b + 16) ?l = d"
      unfolding m' using ok(1) by (simp add: get_bytes_put32_other)
    ultimately have "chain m' ?b n w new [(c, t, d)]"
      using over new_n ptrs k by auto
    moreover have "m' (?b + x) = m (?b + x)" if "occupied n r w x" for x
    proof -
      have "?k < x" "x < w"
        using that k by (auto simp: occupied_def)
      then show ?thesis
        unfolding m' using ok(1) k(3) by (auto simp: mem_simps)
    qed
    moreover have "read_wptr m' ?h = new" "read_rptr m' ?h = r"
      unfolding m' using ok(1) new_n(4) by (simp_all add: mem_simps r_def)
    moreover have "m' a = m a" if "a < ?h + 128 \<or> ?h + 132 \<le> a \<and> a < ?b \<or> ?b + n \<le> a" for a
      unfolding m' using that ok(1) k ptrs w64 by (auto simp: mem_simps)
    moreover have "advances r w new"
      using k new_n(6) by (auto simp: advances_def)
    ultimately show ?thesis
      using new_n by blast
  qed
  then show "chain m' (rb_buf rb) n w new [(c, t, d)]" "advances r w new" "new < n" "64 dvd new"
    "\<And>x. occupied n r w x \<Longrightarrow> m' (rb_buf rb + x) = m (rb_buf rb + x)"
    "read_wptr m' (rb_hdr rb) = new" "read_rptr m' (rb_hdr rb) = r"
    "\<And>a. a < rb_hdr rb + 128 \<or> rb_hdr rb + 132 \<le> a \<and> a < rb_buf rb \<or> rb_buf rb + n \<le> a \<Longrightarrow> m' a = m a"
    by blast+
qed

lemma enqueue_holds:
  assumes holds: "ring_holds rb m es" and enq: "afk_enqueue rb c t d m = Inr (m', new)"
  shows "ring_holds rb m' (es @ [(c, t, d)])"
proof -
  note eff = enqueue_effect [OF holds enq]
  have "chain m (rb_buf rb) (unat (rb_bufsz rb)) (read_rptr m (rb_hdr rb)) (read_wptr m (rb_hdr rb)) es"
    using holds by (simp add: ring_holds_def)
  then have "chain m' (rb_buf rb) (unat (rb_bufsz rb)) (read_rptr m (rb_hdr rb)) (read_wptr m (rb_hdr rb)) es"
    by (rule chain_frame) (use holds eff(5) in \<open>auto simp: ring_holds_def ring_ok_def\<close>)
  from chain_append [OF this eff(1,2)] show ?thesis
    using holds eff(3,4,6,7) by (simp add: ring_holds_def)
qed

lemma enqueue_error:
  assumes "ring_holds rb m es" and "afk_enqueue rb c t d m = Inl e"
  shows "e = TxFull \<and> has_space (read_wptr m (rb_hdr rb)) (read_rptr m (rb_hdr rb))
           (block_align_up (16 + length d)) (unat (rb_bufsz rb)) = Some False"
proof -
  have "read_wptr m (rb_hdr rb) + 16 \<le> unat (rb_bufsz rb)"
    using assms(1) ring_ok_size [of rb] by (auto simp: ring_holds_def ring_ok_def elim!: dvdE)
  then show ?thesis
    using assms has_space_no_panic [of "read_wptr m (rb_hdr rb)" "unat (rb_bufsz rb)"
        "read_rptr m (rb_hdr rb)" "block_align_up (16 + length d)"]
    by (auto simp: afk_enqueue_def ring_holds_def ring_ok_def Let_def
        split: option.splits bool.splits if_splits prod.splits)
qed

text \<open>The memory of a ring, its header and its data area; what lies outside does not matter to it.\<close>

definition in_ring :: "afk_ring \<Rightarrow> nat \<Rightarrow> bool" where
  "in_ring rb a \<longleftrightarrow> rb_hdr rb \<le> a \<and> a < rb_buf rb + unat (rb_bufsz rb)"

lemma ring_holds_frame:
  assumes holds: "ring_holds rb m es" and same: "\<And>a. in_ring rb a \<Longrightarrow> m' a = m a"
  shows "ring_holds rb m' es"
proof -
  have ok: "ring_ok rb" and buf: "rb_buf rb = rb_hdr rb + 192"
    using holds by (simp_all add: ring_holds_def ring_ok_def)
  have ptr: "read_rptr m' (rb_hdr rb) = read_rptr m (rb_hdr rb)" "read_wptr m' (rb_hdr rb) = read_wptr m (rb_hdr rb)"
    unfolding read_rptr_def read_wptr_def
    by (intro arg_cong [where f = unat] get32_cong same; simp add: in_ring_def buf)+
  have "chain m' (rb_buf rb) (unat (rb_bufsz rb)) (read_rptr m (rb_hdr rb)) (read_wptr m (rb_hdr rb)) es"
    by (rule chain_frame [where m = m])
      (use holds in \<open>auto simp: ring_holds_def ring_ok_def occupied_def in_ring_def split: if_splits intro!: same\<close>)
  then show ?thesis
    using holds by (simp add: ring_holds_def ptr)
qed

lemma enqueue_outside:
  assumes "ring_holds rb m es" and "afk_enqueue rb c t d m = Inr (m', new)" and "\<not> in_ring rb a"
  shows "m' a = m a"
  by (rule enqueue_effect(8) [OF assms(1,2)]) (use assms in \<open>auto simp: in_ring_def ring_holds_def ring_ok_def\<close>)

lemma recv_outside:
  assumes "ring_ok rb" and "afk_recv rb m = (r, m')" and "\<not> in_ring rb a"
  shows "m' a = m a"
  using assms by (auto simp: afk_recv_def ring_ok_def in_ring_def Let_def put32_other split: if_splits)

lemma ack_outside:
  assumes "ring_ok rb" and "\<not> in_ring rb a"
  shows "afk_recv_ack rb m a = m a"
  using assms by (auto simp: afk_recv_ack_def ring_ok_def in_ring_def Let_def put32_other)

lemma recv_empty: "ring_holds rb m [] \<Longrightarrow> afk_recv rb m = (Inr None, m)"
  by (simp add: ring_holds_def ring_ok_def afk_recv_def)

text \<open>The memory after a successful peek: the read pointer is at the entry that has the payload.\<close>

lemma recv_head:
  assumes holds: "ring_holds rb m ((c, t, d) # es)"
  defines "n \<equiv> unat (rb_bufsz rb)" and "r \<equiv> read_rptr m (rb_hdr rb)"
  shows "afk_recv rb m =
    (Inr (Some \<lparr>qe_magic = QE_MAGIC, qe_size = of_nat (length d), qe_channel = c, qe_type = t\<rparr>),
     if n < r + 16 + length d then put32 m (rb_hdr rb + 64) 0 else m)"
proof -
  have ready: "rb_ready rb" and buf: "rb_buf rb = rb_hdr rb + 192"
    and r: "r < n" "64 dvd r" "64 dvd n" and neq: "r \<noteq> read_wptr m (rb_hdr rb)"
    and e: "entry_at m (rb_buf rb + r) c t (length d)" and len: "length d < 2 ^ 32"
    using holds by (auto simp: ring_holds_def ring_ok_def n_def r_def entry_at_def)
  have r64: "r + 64 \<le> n"
    using r by (auto elim!: dvdE)
  have size: "unat (of_nat (length d) :: u32) = length d"
    using len by (simp add: unat_of_nat_small)
  show ?thesis
  proof (cases "n < r + 16 + length d")
    case False
    then show ?thesis
      using ready neq r64 e size unfolding entry_at_def
      by (simp add: afk_recv_def n_def [symmetric] r_def [symmetric] read_entry_def Let_def)
  next
    case True
    let ?m = "put32 m (rb_hdr rb + 64) 0"
    have e0: "entry_at m (rb_buf rb) c t (length d)"
      and le: "block_align_up (16 + length d) \<le> read_wptr m (rb_hdr rb)" "read_wptr m (rb_hdr rb) < r"
      using holds True by (auto simp: ring_holds_def n_def r_def)
    have fit: "16 + length d \<le> n"
      using block_align_up_bounds(1) [of "16 + length d"] le r(1) by linarith
    have "entry_at ?m (rb_buf rb) c t (length d)"
      using e0 buf by (simp add: entry_at_other)
    moreover have "read_rptr ?m (rb_hdr rb) = 0"
      using read_pointers_same(1) [of 0 m "rb_hdr rb"] by simp
    ultimately show ?thesis
      using ready neq r64 e size True fit unfolding entry_at_def
      by (simp add: afk_recv_def n_def [symmetric] r_def [symmetric] read_entry_def Let_def)
  qed
qed

text \<open>
  Acknowledging an entry at the read pointer moves the pointer behind it; the data area
  and the write pointer stay, so the rest of the chain does.
\<close>

lemma ack_moves:
  assumes ok: "ring_ok rb" and e: "entry_at m (rb_buf rb + read_rptr m (rb_hdr rb)) c t len"
  defines "n \<equiv> unat (rb_bufsz rb)"
    and "next \<equiv> block_align_up (read_rptr m (rb_hdr rb) + 16 + len)"
  assumes w: "read_wptr m (rb_hdr rb) < n" "64 dvd read_wptr m (rb_hdr rb)"
    and rest: "chain m (rb_buf rb) n (if n \<le> next then 0 else next) (read_wptr m (rb_hdr rb)) es"
  shows "ring_holds rb (afk_recv_ack rb m) es"
proof -
  define r2 where "r2 = (if n \<le> next then 0 else next)"
  have n: "0 < n" "n < 2 ^ 32" "64 dvd n" "rb_buf rb = rb_hdr rb + 192"
    using ok unat_bound [of "rb_bufsz rb"] by (auto simp: ring_ok_def n_def)
  have r2: "r2 < n" "64 dvd r2" "r2 < 2 ^ 32"
    using n block_align_up_bounds(3) by (auto simp: r2_def next_def)
  have "unat (of_nat len :: u32) = len"
    using e by (simp add: entry_at_def unat_of_nat_small)
  then have ack: "afk_recv_ack rb m = put32 m (rb_hdr rb + 64) (of_nat r2)"
    using e by (simp add: afk_recv_ack_def entry_at_def r2_def next_def n_def Let_def)
  have "chain (put32 m (rb_hdr rb + 64) (of_nat r2)) (rb_buf rb) n r2 (read_wptr m (rb_hdr rb)) es"
    by (rule chain_frame [OF rest [folded r2_def] n(3) w(1)]) (auto simp: n(4) mem_simps)
  then show ?thesis
    using ok w r2 unfolding ack
    by (simp add: ring_holds_def n_def [symmetric] read_pointers_other read_pointers_same)
qed

lemma recv_payload_and_ack:
  assumes holds: "ring_holds rb m ((c, t, d) # es)" and recv: "afk_recv rb m = (Inr (Some entry), m1)"
  shows "afk_recv_payload rb m1 entry = d" and "ring_holds rb (afk_recv_ack rb m1) es"
proof -
  define n where "n = unat (rb_bufsz rb)"
  define r where "r = read_rptr m (rb_hdr rb)"
  have ok: "ring_ok rb" and buf: "rb_buf rb = rb_hdr rb + 192"
    and r: "r < n" "64 dvd r" and w: "read_wptr m (rb_hdr rb) < n" "64 dvd read_wptr m (rb_hdr rb)"
    using holds by (simp_all add: ring_holds_def ring_ok_def n_def r_def del: chain.simps)
  have ch: "chain m (rb_buf rb) n r (read_wptr m (rb_hdr rb)) ((c, t, d) # es)"
    using holds by (simp add: ring_holds_def n_def r_def del: chain.simps)
  have e: "entry_at m (rb_buf rb + r) c t (length d)" and len: "length d < 2 ^ 32"
    using ch by (auto simp: entry_at_def)
  have size: "unat (of_nat (length d) :: u32) = length d"
    using len by (simp add: unat_of_nat_small)
  have sz: "unat (qe_size entry) = length d"
    and m1: "m1 = (if n < r + 16 + length d then put32 m (rb_hdr rb + 64) 0 else m)"
    using recv recv_head [OF holds] size by (auto simp: n_def r_def)
  have "afk_recv_payload rb m1 entry = d \<and> ring_holds rb (afk_recv_ack rb m1) es"
  proof (cases "n < r + 16 + length d")
    case False
    have d: "get_bytes m (rb_buf rb + r + 16) (length d) = d"
      and "chain m (rb_buf rb) n
            (if n \<le> block_align_up (r + 16 + length d) then 0 else block_align_up (r + 16 + length d))
            (read_wptr m (rb_hdr rb)) es"
      using ch False by (auto simp: Let_def)
    from this(2) have "ring_holds rb (afk_recv_ack rb m) es"
      using e w unfolding n_def r_def by (intro ack_moves [OF ok])
    then show ?thesis
      using False m1 d by (simp add: afk_recv_payload_def sz Let_def n_def [symmetric] r_def [symmetric] add.assoc)
  next
    case True
    let ?k = "block_align_up (16 + length d)"
    have k: "?k \<le> read_wptr m (rb_hdr rb)" and e0: "entry_at m (rb_buf rb) c t (length d)"
      and d: "get_bytes m (rb_buf rb + 16) (length d) = d"
      and rest: "chain m (rb_buf rb) n ?k (read_wptr m (rb_hdr rb)) es"
      using ch True by auto
    have kn: "\<not> n \<le> ?k" and fit: "16 + length d \<le> n"
      using k w(1) block_align_up_bounds(1) [of "16 + length d"] by auto
    have m1': "m1 = put32 m (rb_hdr rb + 64) (of_nat 0)"
      using m1 True by simp
    have r0: "read_rptr m1 (rb_hdr rb) = 0"
      unfolding m1' by (rule read_pointers_same) simp
    have w1: "read_wptr m1 (rb_hdr rb) = read_wptr m (rb_hdr rb)"
      unfolding m1' by (simp add: read_pointers_other)
    have "entry_at m1 (rb_buf rb + read_rptr m1 (rb_hdr rb)) c t (length d)"
      using e0 buf unfolding r0 unfolding m1' by (simp add: entry_at_other)
    moreover have "chain m1 (rb_buf rb) n ?k (read_wptr m (rb_hdr rb)) es"
      unfolding m1' by (rule chain_frame [OF rest _ w(1)])
        (use ok buf in \<open>auto simp: ring_ok_def n_def mem_simps\<close>)
    ultimately have "ring_holds rb (afk_recv_ack rb m1) es"
      by (intro ack_moves [OF ok]) (use w kn in \<open>auto simp: r0 w1 n_def\<close>)
    moreover have "get_bytes m1 (rb_buf rb + 16) (length d) = d"
      using d buf unfolding m1' by (simp add: mem_simps)
    ultimately show ?thesis
      using fit by (simp add: afk_recv_payload_def sz r0 Let_def n_def [symmetric])
  qed
  then show "afk_recv_payload rb m1 entry = d" and "ring_holds rb (afk_recv_ack rb m1) es"
    by simp_all
qed

section \<open>The interface of a message queue\<close>

text \<open>
  What the layers above rely on: a state holds a list of messages, an accepted message is
  appended at the end, a refused one changes nothing, and taking a message removes the
  oldest one.
\<close>

fun put_all :: "('msg \<Rightarrow> 'q \<Rightarrow> 'q option) \<Rightarrow> 'msg list \<Rightarrow> 'q \<Rightarrow> 'q option" where
  "put_all put [] q = Some q"
| "put_all put (x # xs) q = (case put x q of None \<Rightarrow> None | Some q' \<Rightarrow> put_all put xs q')"

fun take_all :: "('q \<Rightarrow> ('msg \<times> 'q) option) \<Rightarrow> nat \<Rightarrow> 'q \<Rightarrow> 'msg list \<times> 'q" where
  "take_all take_next 0 q = ([], q)"
| "take_all take_next (Suc n) q =
     (case take_next q of None \<Rightarrow> ([], q)
      | Some (x, q') \<Rightarrow> (case take_all take_next n q' of (xs, q'') \<Rightarrow> (x # xs, q'')))"

locale message_queue =
  fixes holds :: "'q \<Rightarrow> 'msg list \<Rightarrow> bool"
    and put :: "'msg \<Rightarrow> 'q \<Rightarrow> 'q option"
    and take_next :: "'q \<Rightarrow> ('msg \<times> 'q) option"
  assumes put_Some: "holds q xs \<Longrightarrow> put x q = Some q' \<Longrightarrow> holds q' (xs @ [x])"
    and take_Nil: "holds q [] \<Longrightarrow> take_next q = None"
    and take_Cons: "holds q (x # xs) \<Longrightarrow> \<exists>q'. take_next q = Some (x, q') \<and> holds q' xs"
begin

lemma put_all_holds: "holds q xs \<Longrightarrow> put_all put ys q = Some q' \<Longrightarrow> holds q' (xs @ ys)"
  by (induction ys arbitrary: q xs) (fastforce split: option.splits dest: put_Some)+

lemma take_all_holds:
  "holds q xs \<Longrightarrow> length xs \<le> n \<Longrightarrow> fst (take_all take_next n q) = xs \<and> holds (snd (take_all take_next n q)) []"
proof (induction n arbitrary: q xs)
  case (Suc n)
  show ?case
  proof (cases xs)
    case Nil
    with Suc.prems take_Nil show ?thesis by simp
  next
    case (Cons x ys)
    with Suc.prems(1) obtain q' where q': "take_next q = Some (x, q')" "holds q' ys"
      using take_Cons by blast
    then show ?thesis
      using Suc.IH [of q' ys] Suc.prems(2) Cons by (auto split: prod.split)
  qed
qed simp

lemma put_take_all:
  "holds q xs \<Longrightarrow> put_all put ys q = Some q' \<Longrightarrow> length xs + length ys \<le> n \<Longrightarrow>
     fst (take_all take_next n q') = xs @ ys"
  using take_all_holds [OF put_all_holds] by simp

end

text \<open>Reading a message completely: peek, fetch the payload, acknowledge.\<close>

definition afk_take :: "afk_ring \<Rightarrow> mem \<Rightarrow> (afk_message \<times> mem) option" where
  "afk_take rb m =
     (case afk_recv rb m of
        (Inr (Some entry), m') \<Rightarrow>
          Some ((qe_channel entry, qe_type entry, afk_recv_payload rb m' entry), afk_recv_ack rb m')
      | _ \<Rightarrow> None)"

definition afk_put :: "afk_ring \<Rightarrow> afk_message \<Rightarrow> mem \<Rightarrow> mem option" where
  "afk_put rb x m =
     (case x of (channel, ty, data) \<Rightarrow>
        (case afk_enqueue rb channel ty data m of Inl e \<Rightarrow> None | Inr (m', new) \<Rightarrow> Some m'))"

interpretation ring_queue: message_queue "ring_holds rb" "afk_put rb" "afk_take rb" for rb
proof unfold_locales
  fix m es x m'
  show "ring_holds rb m es \<Longrightarrow> afk_put rb x m = Some m' \<Longrightarrow> ring_holds rb m' (es @ [x])"
    by (cases x) (auto simp: afk_put_def dest: enqueue_holds split: sum.splits)
next
  fix m
  show "ring_holds rb m [] \<Longrightarrow> afk_take rb m = None"
    by (simp add: afk_take_def recv_empty)
next
  fix m x es
  assume holds: "ring_holds rb m (x # es)"
  obtain c t d where x: "x = (c, t, d)" by (cases x)
  obtain entry m1 where recv: "afk_recv rb m = (Inr (Some entry), m1)"
    and fields: "qe_channel entry = c" "qe_type entry = t"
    using recv_head [OF holds [unfolded x]] by auto
  from recv_payload_and_ack [OF holds [unfolded x] recv] show "\<exists>q'. afk_take rb m = Some (x, q') \<and> ring_holds rb q' es"
    by (simp add: afk_take_def recv fields x)
qed

section \<open>Properties\<close>

text \<open>
  C1. The ring is a first-in first-out queue: if a sequence of messages has been accepted,
  reading returns what the ring held before, then these messages in the order they were
  sent, each with its channel, type and payload unchanged, wrap-around included.
\<close>

theorem afk_ring_fifo:
  assumes "ring_holds rb m es" and "put_all (afk_put rb) ys m = Some m'"
    and "length es + length ys \<le> n"
  shows "fst (take_all (afk_take rb) n m') = es @ ys"
  using ring_queue.put_take_all [OF assms] .

definition example_ring :: afk_ring where
  "example_ring = \<lparr>rb_hdr = 0x1000, rb_buf = 0x10C0, rb_bufsz = 128, rb_ready = True\<rparr>"

lemma example_ring_empty: "ring_holds example_ring (\<lambda>_. 0) []"
  by (simp add: ring_holds_def ring_ok_def example_ring_def read_rptr_def read_wptr_def get32_def)

lemma example_ring_put:
  assumes "block_align_up (16 + length d) < 128"
  obtains m' where "afk_put example_ring (c, t, d) (\<lambda>_. 0) = Some m'"
proof -
  have "has_space 0 0 (block_align_up (16 + length d)) 128 = Some True"
    using assms by (simp add: has_space_def)
  moreover have "read_rptr (\<lambda>_. 0) a = 0" "read_wptr (\<lambda>_. 0) a = 0" for a
    by (simp_all add: read_rptr_def read_wptr_def get32_def)
  ultimately show thesis
    using that enqueue_error [OF example_ring_empty, of c t d]
    by (cases "afk_enqueue example_ring c t d (\<lambda>_. 0)")
      (auto simp: afk_put_def example_ring_def)
qed

theorem afk_ring_fifo_witness:
  "\<exists>m'. put_all (afk_put example_ring) [(1, 2, [7, 8, 9])] (\<lambda>_. 0) = Some m' \<and>
     fst (take_all (afk_take example_ring) 1 m') = [(1, 2, [7, 8, 9])]"
proof -
  obtain m' where "afk_put example_ring (1, 2, [7, 8, 9]) (\<lambda>_. 0) = Some m'"
    using example_ring_put [of "[7, 8, 9]"] by (auto simp: block_align_up_def)
  then have put: "put_all (afk_put example_ring) [(1, 2, [7, 8, 9])] (\<lambda>_. 0) = Some m'"
    by simp
  from afk_ring_fifo [OF example_ring_empty put, of 1] put show ?thesis
    by simp
qed



text \<open>
  On a well-formed ring the only way a send is refused is a full ring: it never
  underflows, and it is accepted whenever the free space test holds.
\<close>

theorem afk_enqueue_only_full:
  assumes "ring_holds rb m es"
  shows "if has_space (read_wptr m (rb_hdr rb)) (read_rptr m (rb_hdr rb))
           (block_align_up (QE_HEADER_SIZE + length d)) (unat (rb_bufsz rb)) = Some True
         then \<exists>m' new. afk_enqueue rb c t d m = Inr (m', new) \<and> ring_holds rb m' (es @ [(c, t, d)])
         else afk_enqueue rb c t d m = Inl TxFull"
  using enqueue_error [OF assms, of c t d] enqueue_holds [OF assms, of c t d]
    enqueue_cases(1) [OF assms, of c t d]
  by (cases "afk_enqueue rb c t d m") auto

theorem afk_enqueue_only_full_witness:
  "afk_enqueue example_ring 1 2 (replicate 112 0) (\<lambda>_. 0) = Inl TxFull"
proof -
  have "read_rptr (\<lambda>_. 0) a = 0" "read_wptr (\<lambda>_. 0) a = 0" for a
    by (simp_all add: read_rptr_def read_wptr_def get32_def)
  then show ?thesis
    using afk_enqueue_only_full [OF example_ring_empty, of "replicate 112 0" 1 2]
    by (simp add: example_ring_def has_space_def block_align_up_def)
qed

end
