(* ===== verification/Asc.thy ===== *)
theory Asc
  imports Prelude "HOL-Library.Multiset"
begin

text \<open>
  The coprocessor mailbox of \<^verbatim>\<open>drivers/soc/apple-asc\<close>: CPU control, the polled send and receive
  operations, the mailbox channel on top of them, and the receive interrupt, whose two
  critical sections are also modelled as separate steps that other CPUs can run between.

  The hardware side is part of the state: the incoming FIFO with the time each message
  arrives, and for every time whether the outgoing FIFO reports full. Time is counted in
  microseconds and advances by \<open>udelay\<close>. The scheduler of the kernel is a parameter:
  \<open>task\<close> is \<open>None\<close> while no task context exists (early boot), and otherwise the
  \<open>wait_with_timeout\<close> call of the receive waker, which takes the time limit in nanoseconds
  and tells whether the task was woken before it.
\<close>

section \<open>State\<close>

abbreviation (input) ASC_CPU_CONTROL_START :: u32 where "ASC_CPU_CONTROL_START \<equiv> 0x10"
abbreviation (input) ASC_SEND_TIMEOUT_US :: nat where "ASC_SEND_TIMEOUT_US \<equiv> 1000000"
abbreviation (input) ASC_POLL_DELAY_US :: nat where "ASC_POLL_DELAY_US \<equiv> 1"

record asc_message =
  msg0 :: u64
  msg1 :: u32

datatype asc_error = SendMailboxFull | NoMessageAvailable | RecvTimeout

record asc =
  cpu_control :: u32
  i2a_fifo :: "(nat \<times> u64 \<times> u64) list"
  a2i_full :: "nat \<Rightarrow> bool"
  a2i_sent :: "(u64 \<times> u64) list"
  now :: nat
  interrupt_id :: "nat option"
  asc_pending :: "asc_message list"
  recv_wakes :: nat
  rx_ready_handler :: "nat option"

text \<open>
  \<open>recv_wakes\<close> counts the calls of \<open>recv_waker.wake_all\<close>; \<open>rx_ready_handler\<close> is the number of
  \<open>rx_ready\<close> callbacks the installed handler has got, when there is one.
\<close>

definition udelay :: "nat \<Rightarrow> asc \<Rightarrow> asc" where
  "udelay us s = s\<lparr>now := now s + us\<rparr>"

section \<open>CPU control\<close>

definition cpu_start :: "asc \<Rightarrow> asc" where
  "cpu_start s = s\<lparr>cpu_control := cpu_control s OR ASC_CPU_CONTROL_START\<rparr>"

definition cpu_stop :: "asc \<Rightarrow> asc" where
  "cpu_stop s = s\<lparr>cpu_control := cpu_control s AND NOT ASC_CPU_CONTROL_START\<rparr>"

section \<open>Receiving\<close>

text \<open>The EMPTY flag is clear when the oldest FIFO entry has arrived.\<close>

definition hardware_can_recv :: "asc \<Rightarrow> bool" where
  "hardware_can_recv s = (case i2a_fifo s of [] \<Rightarrow> False | (at, _, _) # _ \<Rightarrow> at \<le> now s)"

definition can_recv :: "asc \<Rightarrow> bool" where
  "can_recv s = (asc_pending s \<noteq> [] \<or> hardware_can_recv s)"

definition recv_hardware_unlocked :: "(asc, asc_error, asc_message) stepper" where
  "recv_hardware_unlocked s =
     (if \<not> hardware_can_recv s then (Inl NoMessageAvailable, s)
      else case i2a_fifo s of
             [] \<Rightarrow> (Inl NoMessageAvailable, s)
           | (at, r0, r1) # rest \<Rightarrow>
               (Inr \<lparr>msg0 = r0, msg1 = ucast r1\<rparr>, s\<lparr>i2a_fifo := rest\<rparr>))"

definition asc_recv :: "(asc, asc_error, asc_message) stepper" where
  "asc_recv s =
     (case asc_pending s of
        m # rest \<Rightarrow> (Inr m, s\<lparr>asc_pending := rest\<rparr>)
      | [] \<Rightarrow> recv_hardware_unlocked s)"

text \<open>
  The loop of \<open>recv_timeout\<close>; \<open>start\<close> is the time of the call. A wait may return early
  without a message any number of times, so the loop is partial.
\<close>

type_synonym waiter = "nat \<Rightarrow> asc \<Rightarrow> bool \<times> asc"

definition recv_timeout_step ::
  "waiter option \<Rightarrow> nat \<Rightarrow> nat \<Rightarrow> asc \<Rightarrow> (asc, (asc_error + asc_message) \<times> asc) loop_step option" where
  "recv_timeout_step task start timeout_us s =
     Some (case asc_recv s of
        (Inr m, s') \<Rightarrow> Done (Inr m, s')
      | (Inl _, _) \<Rightarrow>
          let elapsed = now s - start in
          if elapsed \<ge> timeout_us then Done (Inl RecvTimeout, s)
          else if interrupt_id s \<noteq> None \<and> task \<noteq> None
          then (case the task (min ((timeout_us - elapsed) * 1000) (2 ^ 64 - 1)) s of
                  (woken, s') \<Rightarrow> if \<not> woken then Done (Inl RecvTimeout, s') else Again s')
          else Again (udelay ASC_POLL_DELAY_US s))"

definition recv_timeout :: "waiter option \<Rightarrow> nat \<Rightarrow> (asc, asc_error, asc_message) may_step" where
  "recv_timeout task timeout_us s = loop (recv_timeout_step task (now s) timeout_us) s"

section \<open>Sending\<close>

function asc_send_loop :: "nat \<Rightarrow> asc_message \<Rightarrow> (asc, asc_error, unit) stepper" where
  "asc_send_loop start m s =
     (if \<not> a2i_full s (now s)
      then (Inr (), s\<lparr>a2i_sent := a2i_sent s @ [(msg0 m, ucast (msg1 m))]\<rparr>)
      else if now s - start \<ge> ASC_SEND_TIMEOUT_US then (Inl SendMailboxFull, s)
      else asc_send_loop start m (udelay ASC_POLL_DELAY_US s))"
  by pat_completeness auto
termination
  by (relation "measure (\<lambda>(start, m, s). start + ASC_SEND_TIMEOUT_US - now s)")
    (auto simp: udelay_def)

declare asc_send_loop.simps [simp del]

definition asc_send :: "asc_message \<Rightarrow> (asc, asc_error, unit) stepper" where
  "asc_send m s = asc_send_loop (now s) m s"

section \<open>The receive interrupt\<close>

datatype claim = NotMine | Handled

text \<open>Draining the FIFO: what the loop takes, oldest first, and what it leaves.\<close>

fun drain_fifo :: "nat \<Rightarrow> (nat \<times> u64 \<times> u64) list \<Rightarrow> asc_message list \<times> (nat \<times> u64 \<times> u64) list" where
  "drain_fifo t [] = ([], [])"
| "drain_fifo t ((at, r0, r1) # rest) =
     (if at \<le> t
      then (case drain_fifo t rest of (ms, left) \<Rightarrow> (\<lparr>msg0 = r0, msg1 = ucast r1\<rparr> # ms, left))
      else ([], (at, r0, r1) # rest))"

text \<open>The two critical sections of the handler: taking the messages and publishing them.\<close>

definition take_received :: "asc \<Rightarrow> asc_message list \<times> asc" where
  "take_received s =
     (case drain_fifo (now s) (i2a_fifo s) of (received, rest) \<Rightarrow> (received, s\<lparr>i2a_fifo := rest\<rparr>))"

definition publish_received :: "asc_message list \<Rightarrow> asc \<Rightarrow> asc" where
  "publish_received received s =
     s\<lparr>asc_pending := asc_pending s @ received,
       recv_wakes := Suc (recv_wakes s),
       rx_ready_handler := map_option Suc (rx_ready_handler s)\<rparr>"

definition claim_interrupt :: "asc \<Rightarrow> claim \<times> asc" where
  "claim_interrupt s =
     (if \<not> hardware_can_recv s then (NotMine, s)
      else case take_received s of (received, s') \<Rightarrow>
        if received = [] then (NotMine, s')
        else (Handled, publish_received received s'))"

section \<open>The mailbox channel\<close>

text \<open>
  A channel is its controller-local id, its optional client, here by the callbacks the client
  has received, and the queue it shares with the other channels of the controller.
\<close>

datatype mailbox_error = InvalidChannel | HardwareError

datatype client_event = TxDone nat | RxReady nat

record mailbox_message =
  mb_words :: "u64 list"
  mb_len :: nat

record asc_channel =
  ch_asc :: asc
  ch_id :: nat
  ch_client :: "client_event list option"

definition notify :: "client_event \<Rightarrow> asc_channel \<Rightarrow> asc_channel" where
  "notify ev c = c\<lparr>ch_client := map_option (\<lambda>evs. evs @ [ev]) (ch_client c)\<rparr>"

definition on_asc :: "(asc, 'e, 'a) stepper \<Rightarrow> (asc_channel, 'e, 'a) stepper" where
  "on_asc f c = (case f (ch_asc c) of (r, a) \<Rightarrow> (r, c\<lparr>ch_asc := a\<rparr>))"

definition mailbox_to_asc :: "mailbox_message \<Rightarrow> mailbox_error + asc_message" where
  "mailbox_to_asc m =
     (if mb_len m < 2 \<or> mb_words m ! 1 > 0xffffffff then Inl InvalidChannel
      else Inr \<lparr>msg0 = mb_words m ! 0, msg1 = ucast (mb_words m ! 1)\<rparr>)"

definition asc_to_mailbox :: "asc_message \<Rightarrow> mailbox_message" where
  "asc_to_mailbox m = \<lparr>mb_words = [msg0 m, ucast (msg1 m), 0, 0], mb_len = 2\<rparr>"

definition channel_try_send :: "mailbox_message \<Rightarrow> (asc_channel, mailbox_error, unit) stepper" where
  "channel_try_send m c =
     (case mailbox_to_asc m of
        Inl e \<Rightarrow> (Inl e, c)
      | Inr am \<Rightarrow>
          try_bind (map_error (\<lambda>_. HardwareError) (on_asc (asc_send am)))
            (\<lambda>_. put_state (notify (TxDone (ch_id c)))) c)"

definition channel_try_recv :: "(asc_channel, mailbox_error, mailbox_message option) stepper" where
  "channel_try_recv c =
     (if \<not> can_recv (ch_asc c) then (Inr None, c)
      else try_bind (map_error (\<lambda>_. HardwareError) (on_asc asc_recv))
             (\<lambda>am. ok (Some (asc_to_mailbox am))) c)"

definition channel_send_timeout ::
  "mailbox_message \<Rightarrow> nat \<Rightarrow> (asc_channel, mailbox_error, unit) stepper" where
  "channel_send_timeout m timeout_us = channel_try_send m"

definition channel_set_client ::
  "client_event list option \<Rightarrow> (asc_channel, mailbox_error, unit) stepper" where
  "channel_set_client client = put_state (\<lambda>c. c\<lparr>ch_client := client\<rparr>)"

definition channel_poll :: "(asc_channel, mailbox_error, unit) stepper" where
  "channel_poll c =
     (Inr (), if can_recv (ch_asc c) then notify (RxReady (ch_id c)) c else c)"

text \<open>Every channel a controller hands out has the next id and the same queue.\<close>

record asc_controller =
  ctl_asc :: asc
  ctl_phandle :: u32
  next_channel_id :: u32

definition request_channel ::
  "client_event list option \<Rightarrow> (asc_controller, mailbox_error, asc_channel) stepper" where
  "request_channel client k =
     (Inr \<lparr>ch_asc = ctl_asc k, ch_id = unat (next_channel_id k), ch_client = client\<rparr>,
      k\<lparr>next_channel_id := next_channel_id k + 1\<rparr>)"

definition get_apple_asc :: "'a list \<Rightarrow> nat \<Rightarrow> 'a option" where
  "get_apple_asc registry i = (if i < length registry then Some (registry ! i) else None)"

definition get_apple_asc_by_phandle :: "(u32 \<times> 'a) list \<Rightarrow> u32 \<Rightarrow> 'a option" where
  "get_apple_asc_by_phandle registry phandle =
     map_option snd (find (\<lambda>(registered, _). registered = phandle) registry)"

section \<open>Interleavings of the interrupt with receivers\<close>

text \<open>
  \<open>claim_interrupt\<close> takes the messages under \<open>rx_lock\<close> and publishes them after dropping it,
  so other CPUs can receive in between. A world is the mailbox, what the interrupted CPU
  holds between its two critical sections, and the history: the messages the coprocessor
  has sent and those the receivers have been given, both oldest first.
\<close>

record asc_world =
  mailbox :: asc
  irq_holds :: "asc_message list option"
  arrived :: "asc_message list"
  delivered :: "asc_message list"

definition message_of :: "nat \<times> u64 \<times> u64 \<Rightarrow> asc_message" where
  "message_of e = (case e of (_, r0, r1) \<Rightarrow> \<lparr>msg0 = r0, msg1 = ucast r1\<rparr>)"

definition hardware_push :: "u64 \<Rightarrow> u64 \<Rightarrow> asc \<Rightarrow> asc" where
  "hardware_push r0 r1 s = s\<lparr>i2a_fifo := i2a_fifo s @ [(now s, r0, r1)]\<rparr>"

inductive asc_step :: "asc_world \<Rightarrow> asc_world \<Rightarrow> bool" where
  Arrive: "asc_step w (w\<lparr>mailbox := hardware_push r0 r1 (mailbox w),
                         arrived := arrived w @ [message_of (now (mailbox w), r0, r1)]\<rparr>)"
| Delay: "asc_step w (w\<lparr>mailbox := udelay us (mailbox w)\<rparr>)"
| Receive: "asc_recv (mailbox w) = (Inr m, s') \<Longrightarrow>
    asc_step w (w\<lparr>mailbox := s', delivered := delivered w @ [m]\<rparr>)"
| IrqTake: "irq_holds w = None \<Longrightarrow> hardware_can_recv (mailbox w) \<Longrightarrow>
    take_received (mailbox w) = (ms, s') \<Longrightarrow>
    asc_step w (w\<lparr>mailbox := s', irq_holds := Some ms\<rparr>)"
| IrqPublish: "irq_holds w = Some ms \<Longrightarrow>
    asc_step w (w\<lparr>mailbox := publish_received ms (mailbox w), irq_holds := None\<rparr>)"

text \<open>The same system when nothing runs between the two critical sections.\<close>

inductive asc_atomic_step :: "asc_world \<Rightarrow> asc_world \<Rightarrow> bool" where
  AtomicArrive: "asc_atomic_step w (w\<lparr>mailbox := hardware_push r0 r1 (mailbox w),
                         arrived := arrived w @ [message_of (now (mailbox w), r0, r1)]\<rparr>)"
| AtomicDelay: "asc_atomic_step w (w\<lparr>mailbox := udelay us (mailbox w)\<rparr>)"
| AtomicReceive: "asc_recv (mailbox w) = (Inr m, s') \<Longrightarrow>
    asc_atomic_step w (w\<lparr>mailbox := s', delivered := delivered w @ [m]\<rparr>)"
| AtomicIrq: "claim_interrupt (mailbox w) = (c, s') \<Longrightarrow>
    asc_atomic_step w (w\<lparr>mailbox := s'\<rparr>)"

definition asc_new :: asc where
  "asc_new = \<lparr>cpu_control = 0, i2a_fifo = [], a2i_full = (\<lambda>_. False), a2i_sent = [], now = 0,
     interrupt_id = None, asc_pending = [], recv_wakes = 0, rx_ready_handler = None\<rparr>"

definition asc_world_new :: asc_world where
  "asc_world_new = \<lparr>mailbox = asc_new, irq_holds = None, arrived = [], delivered = []\<rparr>"

inductive asc_reachable :: "(asc_world \<Rightarrow> asc_world \<Rightarrow> bool) \<Rightarrow> asc_world \<Rightarrow> bool"
  for step :: "asc_world \<Rightarrow> asc_world \<Rightarrow> bool" where
  Start: "asc_reachable step asc_world_new"
| Next: "asc_reachable step w \<Longrightarrow> step w w' \<Longrightarrow> asc_reachable step w'"

subsection \<open>Messages in flight\<close>

lemma drain_fifo_messages:
  "drain_fifo t f = (ms, rest) \<Longrightarrow> map message_of f = ms @ map message_of rest"
  by (induction f arbitrary: ms rest rule: drain_fifo.induct)
    (auto simp: message_of_def split: if_splits prod.splits)

lemma take_received_messages:
  "take_received s = (ms, s') \<Longrightarrow>
     map message_of (i2a_fifo s) = ms @ map message_of (i2a_fifo s') \<and>
     asc_pending s' = asc_pending s"
  by (auto simp: take_received_def drain_fifo_messages split: prod.splits)

lemma asc_recv_messages:
  assumes "asc_recv s = (Inr m, s')"
  shows "asc_pending s @ map message_of (i2a_fifo s) =
           m # asc_pending s' @ map message_of (i2a_fifo s')"
  using assms
  by (auto simp: asc_recv_def recv_hardware_unlocked_def hardware_can_recv_def message_of_def
      split: list.splits if_splits)

lemma asc_recv_error: "asc_recv s = (Inl e, s') \<Longrightarrow> s' = s"
  by (auto simp: asc_recv_def recv_hardware_unlocked_def split: list.splits if_splits)

lemma asc_recv_Inr_iff: "(\<exists>m s'. asc_recv s = (Inr m, s')) \<longleftrightarrow> can_recv s"
  by (auto simp: asc_recv_def recv_hardware_unlocked_def can_recv_def hardware_can_recv_def
      split: list.splits)

definition in_flight :: "asc_world \<Rightarrow> asc_message multiset" where
  "in_flight w = mset (asc_pending (mailbox w)) + mset (case_option [] (\<lambda>ms. ms) (irq_holds w))
     + mset (map message_of (i2a_fifo (mailbox w)))"

lemma asc_recv_in_flight:
  "asc_recv (mailbox w) = (Inr m, s') \<Longrightarrow>
     in_flight w = add_mset m (in_flight (w\<lparr>mailbox := s', delivered := d\<rparr>))"
  using arg_cong [OF asc_recv_messages, of "mailbox w" m s' mset]
  by (simp add: in_flight_def)

lemma take_received_in_flight:
  assumes "take_received (mailbox w) = (ms, s')" and "irq_holds w = None"
  shows "in_flight (w\<lparr>mailbox := s', irq_holds := Some ms\<rparr>) = in_flight w"
  using take_received_messages [OF assms(1)] assms(2)
    arg_cong [of "map message_of (i2a_fifo (mailbox w))" _ mset]
  by (simp add: in_flight_def)

lemma asc_step_conserves:
  assumes "asc_step w w'" and "mset (delivered w) + in_flight w = mset (arrived w)"
  shows "mset (delivered w') + in_flight w' = mset (arrived w')"
  using assms(1)
proof cases
  case (Receive m s')
  then show ?thesis
    using asc_recv_in_flight [of w m s' "delivered w @ [m]"] assms(2) by simp
next
  case (IrqTake ms s')
  then show ?thesis
    using take_received_in_flight [of w ms s'] assms(2) by simp
next
  case (Arrive r0 r1)
  then show ?thesis
    using assms(2) by (simp add: in_flight_def hardware_push_def message_of_def)
next
  case (Delay us)
  then show ?thesis
    using assms(2) by (simp add: in_flight_def udelay_def)
next
  case (IrqPublish ms)
  then show ?thesis
    using assms(2) by (simp add: in_flight_def publish_received_def ac_simps)
qed

text \<open>
  C16. The receive path neither loses nor duplicates a message, however the interrupt
  handler and receivers on other CPUs interleave: what has been delivered, together with
  what is pending, held by the handler or still in the FIFO, is what the coprocessor sent.
\<close>

theorem asc_no_message_lost:
  assumes "asc_reachable asc_step w"
  shows "mset (delivered w) + in_flight w = mset (arrived w)"
  using assms
proof induction
  case Start
  show ?case
    by (simp add: asc_world_new_def asc_new_def in_flight_def)
next
  case (Next w w')
  then show ?case
    using asc_step_conserves by blast
qed

text \<open>Two messages arrive, the handler takes the first one, and a receiver runs before it publishes.\<close>

definition message_a :: asc_message where "message_a = \<lparr>msg0 = 1, msg1 = 0x20\<rparr>"
definition message_b :: asc_message where "message_b = \<lparr>msg0 = 2, msg1 = 0x20\<rparr>"

definition overtaken :: asc_world where
  "overtaken = \<lparr>mailbox = asc_new, irq_holds = Some [message_a],
     arrived = [message_a, message_b], delivered = [message_b]\<rparr>"

lemma overtaken_reachable: "asc_reachable asc_step overtaken"
proof -
  let ?w1 = "asc_world_new\<lparr>mailbox := asc_new\<lparr>i2a_fifo := [(0, 1, 0x20)]\<rparr>, arrived := [message_a]\<rparr>"
  let ?w2 = "asc_world_new\<lparr>irq_holds := Some [message_a], arrived := [message_a]\<rparr>"
  let ?w3 = "asc_world_new\<lparr>mailbox := asc_new\<lparr>i2a_fifo := [(0, 2, 0x20)]\<rparr>,
    irq_holds := Some [message_a], arrived := [message_a, message_b]\<rparr>"
  have s1: "asc_step asc_world_new ?w1"
    using Arrive [of asc_world_new 1 "0x20"]
    by (simp add: asc_world_new_def asc_new_def hardware_push_def message_of_def message_a_def)
  have s2: "asc_step ?w1 ?w2"
    using IrqTake [of ?w1 "[message_a]" asc_new]
    by (simp add: asc_world_new_def asc_new_def hardware_can_recv_def take_received_def message_a_def)
  have s3: "asc_step ?w2 ?w3"
    using Arrive [of ?w2 2 "0x20"]
    by (simp add: asc_world_new_def asc_new_def hardware_push_def message_of_def message_b_def)
  have s4: "asc_step ?w3 overtaken"
    using Receive [of ?w3 message_b asc_new]
    by (simp add: asc_world_new_def asc_new_def asc_recv_def recv_hardware_unlocked_def
        hardware_can_recv_def message_b_def overtaken_def)
  show ?thesis
    by (intro Next [of asc_step, OF _ s4] Next [of asc_step, OF _ s3] Next [of asc_step, OF _ s2]
        Next [of asc_step, OF _ s1] Start)
qed

lemma asc_no_message_lost_witness:
  "mset (delivered overtaken) + in_flight overtaken = mset (arrived overtaken) \<and>
   length (arrived overtaken) = 2"
  using asc_no_message_lost [OF overtaken_reachable] by (simp add: overtaken_def)

subsection \<open>Order\<close>

lemma claim_interrupt_messages:
  "claim_interrupt s = (c, s') \<Longrightarrow>
     asc_pending s' @ map message_of (i2a_fifo s') = asc_pending s @ map message_of (i2a_fifo s)"
  by (cases "take_received s")
    (auto simp: claim_interrupt_def publish_received_def dest: take_received_messages split: if_splits)

lemma asc_atomic_step_order:
  assumes "asc_atomic_step w w'"
    and "delivered w @ asc_pending (mailbox w) @ map message_of (i2a_fifo (mailbox w)) = arrived w"
  shows "delivered w' @ asc_pending (mailbox w') @ map message_of (i2a_fifo (mailbox w')) = arrived w'"
  using assms(1)
proof cases
  case (AtomicArrive r0 r1)
  then show ?thesis
    using assms(2) by (auto simp: hardware_push_def message_of_def)
next
  case (AtomicDelay us)
  then show ?thesis
    using assms(2) by (simp add: udelay_def)
next
  case (AtomicReceive m s')
  then show ?thesis
    using asc_recv_messages [of "mailbox w" m s'] assms(2) by simp
next
  case (AtomicIrq c s')
  then show ?thesis
    using claim_interrupt_messages [of "mailbox w" c s'] assms(2) by simp
qed

text \<open>
  When the interrupt handler is not overlapped by a receiver, messages are delivered in
  the order in which the coprocessor sent them, and those that are not delivered yet are
  exactly the pending ones followed by those in the FIFO.
\<close>

theorem asc_atomic_fifo:
  assumes "asc_reachable asc_atomic_step w"
  shows "delivered w @ asc_pending (mailbox w) @ map message_of (i2a_fifo (mailbox w)) = arrived w"
  using assms
proof induction
  case Start
  show ?case
    by (simp add: asc_world_new_def asc_new_def)
next
  case (Next w w')
  then show ?case
    using asc_atomic_step_order by blast
qed

text \<open>
  With the lock dropped between taking and publishing, order is not kept: there is a
  reachable world in which the second message has been delivered to a receiver and the
  first one is still in the hands of the handler.
\<close>

theorem asc_overtaking_reachable:
  "\<exists>w a b. asc_reachable asc_step w \<and> a \<noteq> b \<and> arrived w = [a, b] \<and> delivered w = [b] \<and>
     irq_holds w = Some [a]"
  using overtaken_reachable
  by (intro exI [of _ overtaken] exI [of _ message_a] exI [of _ message_b])
    (simp add: overtaken_def message_a_def message_b_def)

lemma atomic_order_example:
  "asc_reachable asc_atomic_step
     (asc_world_new\<lparr>mailbox := asc_new\<lparr>i2a_fifo := [(0, 2, 0x20)], recv_wakes := 1\<rparr>,
        arrived := [message_a, message_b], delivered := [message_a]\<rparr>)"
proof -
  let ?w1 = "asc_world_new\<lparr>mailbox := asc_new\<lparr>i2a_fifo := [(0, 1, 0x20)]\<rparr>, arrived := [message_a]\<rparr>"
  let ?w2 = "asc_world_new\<lparr>mailbox := asc_new\<lparr>asc_pending := [message_a], recv_wakes := 1\<rparr>,
    arrived := [message_a]\<rparr>"
  let ?w3 = "asc_world_new\<lparr>mailbox := asc_new\<lparr>i2a_fifo := [(0, 2, 0x20)], asc_pending := [message_a],
    recv_wakes := 1\<rparr>, arrived := [message_a, message_b]\<rparr>"
  let ?w4 = "asc_world_new\<lparr>mailbox := asc_new\<lparr>i2a_fifo := [(0, 2, 0x20)], recv_wakes := 1\<rparr>,
    arrived := [message_a, message_b], delivered := [message_a]\<rparr>"
  have s1: "asc_atomic_step asc_world_new ?w1"
    using AtomicArrive [of asc_world_new 1 "0x20"]
    by (simp add: asc_world_new_def asc_new_def hardware_push_def message_of_def message_a_def)
  have s2: "asc_atomic_step ?w1 ?w2"
    using AtomicIrq [of ?w1 Handled "asc_new\<lparr>asc_pending := [message_a], recv_wakes := 1\<rparr>"]
    by (simp add: asc_world_new_def asc_new_def hardware_can_recv_def claim_interrupt_def
        take_received_def publish_received_def message_a_def)
  have s3: "asc_atomic_step ?w2 ?w3"
    using AtomicArrive [of ?w2 2 "0x20"]
    by (simp add: asc_world_new_def asc_new_def hardware_push_def message_of_def message_b_def)
  have s4: "asc_atomic_step ?w3 ?w4"
    using AtomicReceive [of ?w3 message_a "asc_new\<lparr>i2a_fifo := [(0, 2, 0x20)], recv_wakes := 1\<rparr>"]
    by (simp add: asc_world_new_def asc_new_def asc_recv_def)
  show ?thesis
    by (intro Next [of asc_atomic_step, OF _ s4] Next [of asc_atomic_step, OF _ s3]
        Next [of asc_atomic_step, OF _ s2] Next [of asc_atomic_step, OF _ s1] Start)
qed

lemma asc_atomic_fifo_witness:
  "[message_a] @ [] @ map message_of [(0, 2, 0x20)] = [message_a, message_b]"
  using asc_atomic_fifo [OF atomic_order_example] by (simp add: asc_world_new_def asc_new_def)

section \<open>Polling\<close>

lemma asc_send_loop_unfold:
  assumes "start \<le> now s"
  shows "asc_send_loop start m s =
    (case find (\<lambda>t. \<not> a2i_full s t) [now s ..< max (Suc (now s)) (Suc (start + ASC_SEND_TIMEOUT_US))] of
       None \<Rightarrow> (Inl SendMailboxFull, s\<lparr>now := max (now s) (start + ASC_SEND_TIMEOUT_US)\<rparr>)
     | Some t \<Rightarrow> (Inr (), s\<lparr>now := t, a2i_sent := a2i_sent s @ [(msg0 m, ucast (msg1 m))]\<rparr>))"
  using assms
proof (induction start m s rule: asc_send_loop.induct)
  case (1 start m s)
  show ?case
  proof (cases "\<not> a2i_full s (now s)")
    case True
    then show ?thesis
      by (subst asc_send_loop.simps) (simp add: upt_conv_Cons)
  next
    case full: False
    show ?thesis
    proof (cases "now s - start \<ge> ASC_SEND_TIMEOUT_US")
      case True
      then have "max (Suc (now s)) (Suc (start + ASC_SEND_TIMEOUT_US)) = Suc (now s)"
        by simp
      with full True show ?thesis
        by (subst asc_send_loop.simps) (simp add: max_def)
    next
      case False
      then have "[now s ..< max (Suc (now s)) (Suc (start + ASC_SEND_TIMEOUT_US))] =
          now s # [Suc (now s) ..< max (Suc (Suc (now s))) (Suc (start + ASC_SEND_TIMEOUT_US))]"
        using 1(2) by (auto simp: upt_conv_Cons max_def)
      with 1 full False show ?thesis
        by (subst asc_send_loop.simps) (simp add: udelay_def max_def split: option.splits)
    qed
  qed
qed

text \<open>
  A send returns within one second: it puts the message into the outgoing FIFO exactly
  once, at the first microsecond at which the FIFO is not full, when there is one within the
  time limit, and otherwise reports the full mailbox at the time limit with nothing written.
\<close>

theorem asc_send_polls:
  "asc_send m s =
    (case find (\<lambda>t. \<not> a2i_full s t) [now s ..< Suc (now s + ASC_SEND_TIMEOUT_US)] of
       None \<Rightarrow> (Inl SendMailboxFull, s\<lparr>now := now s + ASC_SEND_TIMEOUT_US\<rparr>)
     | Some t \<Rightarrow> (Inr (), s\<lparr>now := t, a2i_sent := a2i_sent s @ [(msg0 m, ucast (msg1 m))]\<rparr>))"
  unfolding asc_send_def
  by (subst asc_send_loop_unfold) (simp_all add: max.absorb2 split: option.splits)

text \<open>While no task exists, \<open>recv_timeout\<close> polls.\<close>

definition polls :: "waiter option \<Rightarrow> asc \<Rightarrow> bool" where
  "polls task s = (interrupt_id s = None \<or> task = None)"

lemma recv_timeout_poll:
  assumes "polls task s" and "start \<le> now s" and "now s \<le> start + timeout"
    and "asc_pending s = []"
  shows "loop (recv_timeout_step task start timeout) s = Some
    (case i2a_fifo s of
       [] \<Rightarrow> (Inl RecvTimeout, s\<lparr>now := start + timeout\<rparr>)
     | (at, r0, r1) # rest \<Rightarrow>
         if at \<le> start + timeout
         then (Inr \<lparr>msg0 = r0, msg1 = ucast r1\<rparr>, s\<lparr>now := max (now s) at, i2a_fifo := rest\<rparr>)
         else (Inl RecvTimeout, s\<lparr>now := start + timeout\<rparr>))"
  using assms
proof (induction "start + timeout - now s" arbitrary: s)
  case 0
  then show ?case
    by (subst loop.simps)
      (auto simp: recv_timeout_step_def asc_recv_def recv_hardware_unlocked_def hardware_can_recv_def
        max_def Let_def split: list.splits)
next
  case (Suc n)
  have next_step: "loop (recv_timeout_step task start timeout) (udelay ASC_POLL_DELAY_US s) = Some
    (case i2a_fifo s of
       [] \<Rightarrow> (Inl RecvTimeout, s\<lparr>now := start + timeout\<rparr>)
     | (at, r0, r1) # rest \<Rightarrow>
         if at \<le> start + timeout
         then (Inr \<lparr>msg0 = r0, msg1 = ucast r1\<rparr>, s\<lparr>now := max (Suc (now s)) at, i2a_fifo := rest\<rparr>)
         else (Inl RecvTimeout, s\<lparr>now := start + timeout\<rparr>))"
    using Suc.prems Suc.hyps(2)
    by (subst Suc.hyps(1)) (auto simp: udelay_def polls_def split: list.splits)
  show ?case
    using Suc.prems Suc.hyps(2)
    by (subst loop.simps)
      (auto simp: recv_timeout_step_def asc_recv_def recv_hardware_unlocked_def hardware_can_recv_def
        max_def polls_def Let_def next_step simp del: One_nat_def split: list.splits)
qed

lemma recv_timeout_pending: "asc_pending s = m # rest \<Longrightarrow>
    recv_timeout task timeout s = Some (Inr m, s\<lparr>asc_pending := rest\<rparr>)"
  unfolding recv_timeout_def by (rule loop_Done) (simp add: recv_timeout_step_def asc_recv_def)

text \<open>
  In early boot a receive with a time limit always returns, never later than the limit:
  at once with the oldest pending message, else with the message at the head of the FIFO as
  soon as it has arrived, and with a timeout exactly when none arrives within the limit.
\<close>

theorem recv_timeout_polls:
  assumes "polls task s"
  shows "recv_timeout task timeout s = Some
    (case asc_pending s @ map message_of (takeWhile (\<lambda>(at, _). at \<le> now s + timeout) (i2a_fifo s)) of
       [] \<Rightarrow> (Inl RecvTimeout, s\<lparr>now := now s + timeout\<rparr>)
     | m # _ \<Rightarrow> (Inr m,
         case asc_pending s of
           _ # rest \<Rightarrow> s\<lparr>asc_pending := rest\<rparr>
         | [] \<Rightarrow> s\<lparr>now := max (now s) (fst (hd (i2a_fifo s))), i2a_fifo := tl (i2a_fifo s)\<rparr>))"
proof (cases "asc_pending s")
  case Nil
  then show ?thesis
    using assms by (auto simp: recv_timeout_def recv_timeout_poll message_of_def split: list.splits)
next
  case (Cons m rest)
  then show ?thesis
    by (simp add: recv_timeout_pending)
qed

lemma recv_timeout_polls_witness:
  "recv_timeout None 10 (asc_new\<lparr>i2a_fifo := [(4, 7, 0x20), (5, 8, 0x21)]\<rparr>) =
     Some (Inr \<lparr>msg0 = 7, msg1 = 0x20\<rparr>, asc_new\<lparr>now := 4, i2a_fifo := [(5, 8, 0x21)]\<rparr>) \<and>
   recv_timeout None 3 (asc_new\<lparr>i2a_fifo := [(4, 7, 0x20)]\<rparr>) =
     Some (Inl RecvTimeout, asc_new\<lparr>now := 3, i2a_fifo := [(4, 7, 0x20)]\<rparr>)"
  by (simp add: recv_timeout_polls polls_def asc_new_def message_of_def)

lemma asc_send_ready: "\<not> a2i_full s (now s) \<Longrightarrow>
    asc_send m s = (Inr (), s\<lparr>a2i_sent := a2i_sent s @ [(msg0 m, ucast (msg1 m))]\<rparr>)"
  by (simp add: asc_send_def asc_send_loop.simps [of "now s" m s])

lemma recv_timeout_arrived:
  assumes "polls task s" and "asc_pending s = []" and "i2a_fifo s = (at, r0, r1) # rest" and "at \<le> now s"
  shows "recv_timeout task timeout s = Some (Inr \<lparr>msg0 = r0, msg1 = ucast r1\<rparr>, s\<lparr>i2a_fifo := rest\<rparr>)"
  using assms by (simp add: recv_timeout_def recv_timeout_poll)

text \<open>What a polled receive changes.\<close>

lemma recv_timeout_frame:
  assumes "polls task s"
  obtains q s' where "recv_timeout task timeout s = Some (q, s')"
    and "a2i_sent s' = a2i_sent s" and "interrupt_id s' = interrupt_id s" and "now s \<le> now s'"
    and "length (asc_pending s) + length (i2a_fifo s) =
      (case q of Inr _ \<Rightarrow> 1 | Inl _ \<Rightarrow> 0) + length (asc_pending s') + length (i2a_fifo s')"
proof (cases "asc_pending s")
  case Nil
  show ?thesis
  proof (cases "\<exists>at r0 r1 rest. i2a_fifo s = (at, r0, r1) # rest \<and> at \<le> now s + timeout")
    case True
    then obtain at r0 r1 rest where "i2a_fifo s = (at, r0, r1) # rest" "at \<le> now s + timeout"
      by blast
    with Nil assms show ?thesis
      by (intro that [of "Inr \<lparr>msg0 = r0, msg1 = ucast r1\<rparr>"
            "s\<lparr>now := max (now s) at, i2a_fifo := rest\<rparr>"])
        (simp_all add: recv_timeout_def recv_timeout_poll)
  next
    case False
    with Nil assms show ?thesis
      by (intro that [of "Inl RecvTimeout" "s\<lparr>now := now s + timeout\<rparr>"])
        (auto simp: recv_timeout_def recv_timeout_poll split: list.splits)
  qed
next
  case (Cons m rest)
  then show ?thesis
    by (intro that [of "Inr m" "s\<lparr>asc_pending := rest\<rparr>"]) (simp_all add: recv_timeout_pending)
qed

text \<open>What a send changes, for the clients of the mailbox.\<close>

lemma asc_send_loop_frame:
  "asc_send_loop start m s = (res, s') \<Longrightarrow>
     \<exists>t \<ge> now s. s' = (case res of
       Inl _ \<Rightarrow> s\<lparr>now := t\<rparr>
     | Inr _ \<Rightarrow> s\<lparr>now := t, a2i_sent := a2i_sent s @ [(msg0 m, ucast (msg1 m))]\<rparr>)"
proof (induction start m s arbitrary: res s' rule: asc_send_loop.induct)
  case (1 start m s)
  show ?case
  proof (cases "a2i_full s (now s) \<and> \<not> now s - start \<ge> ASC_SEND_TIMEOUT_US")
    case True
    then have loop: "asc_send_loop start m (udelay ASC_POLL_DELAY_US s) = (res, s')"
      using 1(2) by (subst (asm) asc_send_loop.simps) simp
    obtain t where "now (udelay ASC_POLL_DELAY_US s) \<le> t" and
      "s' = (case res of
         Inl _ \<Rightarrow> udelay ASC_POLL_DELAY_US s\<lparr>now := t\<rparr>
       | Inr _ \<Rightarrow> udelay ASC_POLL_DELAY_US s\<lparr>now := t,
           a2i_sent := a2i_sent (udelay ASC_POLL_DELAY_US s) @ [(msg0 m, ucast (msg1 m))]\<rparr>)"
      using 1(1) [OF _ _ loop] True by blast
    then show ?thesis
      by (intro exI [of _ t]) (auto simp: udelay_def split: sum.splits)
  next
    case False
    then show ?thesis
      using 1(2) by (subst (asm) asc_send_loop.simps) (auto split: if_splits)
  qed
qed

lemma asc_send_frame:
  "asc_send m s = (res, s') \<Longrightarrow>
     \<exists>t \<ge> now s. s' = (case res of
       Inl _ \<Rightarrow> s\<lparr>now := t\<rparr>
     | Inr _ \<Rightarrow> s\<lparr>now := t, a2i_sent := a2i_sent s @ [(msg0 m, ucast (msg1 m))]\<rparr>)"
  unfolding asc_send_def by (rule asc_send_loop_frame)

section \<open>Properties of the mailbox channel\<close>

text \<open>
  The mailbox layout of a message is read back as the same message, and a layout is
  accepted exactly when it has two words of which the second fits 32 bits; such a layout is
  the one of the message it is read as, up to the words the controller ignores.
\<close>

theorem mailbox_roundtrip:
  "mailbox_to_asc (asc_to_mailbox m) = Inr m \<and>
   (mailbox_to_asc mb = Inr m \<longleftrightarrow>
      2 \<le> mb_len mb \<and> mb_words mb ! 0 = msg0 m \<and> mb_words mb ! 1 = ucast (msg1 m))"
proof -
  have fits: "\<not> 0xffffffff < (ucast w :: u64)" for w :: u32
    using unat_bound [of w] by (simp add: word_less_nat_alt unsigned_ucast_eq take_bit_nat_eq_self)
  have widen: "ucast (ucast w :: u64) = w" for w :: u32
    by (rule bit_word_eqI) (auto simp: bit_simps dest: bit_imp_le_length)
  have narrow: "ucast (ucast v :: u32) = v" if "\<not> 0xffffffff < v" for v :: u64
    using that by (simp add: word_unat_eq_iff word_less_nat_alt unsigned_ucast_eq
        unsigned_take_bit_eq take_bit_nat_eq_self)
  show ?thesis
    using fits [of "msg1 m"] widen [of "msg1 m"] narrow [of "mb_words mb ! 1"]
    by (cases m) (auto simp: mailbox_to_asc_def asc_to_mailbox_def)
qed

end
