(* ===== verification/Rtkit.thy ===== *)
theory Rtkit
  imports Asc Remoteproc
begin

text \<open>
  The RTKit protocol of \<^verbatim>\<open>drivers/soc/apple-rtkit\<close> on top of the ASC mailbox: the boot
  handshake, endpoint negotiation, the system endpoints (management, crash log, system log,
  reports, OS log), the demultiplexing of application messages, and the remote processor
  and service interfaces.

  The kernel below the driver (page allocator, DMA mapper, memory access) is a parameter of
  type \<open>platform\<close> whose operations act on a state of their own, \<open>kern\<close> in the record.
  Informational prints are left out; the crash log and the system log lines, which carry
  data from the coprocessor, are collected in \<open>printed\<close>.
\<close>

section \<open>Constants and state\<close>

abbreviation (input) RTKIT_EP_MGMT :: u8 where "RTKIT_EP_MGMT \<equiv> 0"
abbreviation (input) RTKIT_EP_CRASHLOG :: u8 where "RTKIT_EP_CRASHLOG \<equiv> 1"
abbreviation (input) RTKIT_EP_SYSLOG :: u8 where "RTKIT_EP_SYSLOG \<equiv> 2"
abbreviation (input) RTKIT_EP_DEBUG :: u8 where "RTKIT_EP_DEBUG \<equiv> 3"
abbreviation (input) RTKIT_EP_IOREPORT :: u8 where "RTKIT_EP_IOREPORT \<equiv> 4"
abbreviation (input) RTKIT_EP_OSLOG :: u8 where "RTKIT_EP_OSLOG \<equiv> 8"
abbreviation (input) RTKIT_APP_ENDPOINT_START :: u8 where "RTKIT_APP_ENDPOINT_START \<equiv> 0x20"

definition RTKIT_DEFAULT_ENDPOINTS :: "u8 list" where
  "RTKIT_DEFAULT_ENDPOINTS =
     [RTKIT_EP_CRASHLOG, RTKIT_EP_SYSLOG, RTKIT_EP_DEBUG, RTKIT_EP_IOREPORT, RTKIT_EP_OSLOG]"

definition MGMT_TYPE :: u64 where "MGMT_TYPE = 0x0FF0000000000000"
definition MGMT_PWR_STATE :: u64 where "MGMT_PWR_STATE = 0x000000000000FFFF"
definition MGMT_MSG_HELLO_MINVER :: u64 where "MGMT_MSG_HELLO_MINVER = 0x000000000000FFFF"
definition MGMT_MSG_HELLO_MAXVER :: u64 where "MGMT_MSG_HELLO_MAXVER = 0x00000000FFFF0000"
definition MGMT_MSG_EPMAP_BASE :: u64 where "MGMT_MSG_EPMAP_BASE = 0x0000000700000000"
definition MGMT_MSG_EPMAP_BITMAP :: u64 where "MGMT_MSG_EPMAP_BITMAP = 0x00000000FFFFFFFF"
definition MGMT_MSG_START_EP_IDX :: u64 where "MGMT_MSG_START_EP_IDX = 0x000000FF00000000"
definition RTKIT_SYSLOG_TYPE :: u64 where "RTKIT_SYSLOG_TYPE = 0x0FF0000000000000"
definition RTKIT_SYSLOG_INIT_ENTRY_SIZE :: u64 where "RTKIT_SYSLOG_INIT_ENTRY_SIZE = 0x000000FFFF000000"
definition RTKIT_SYSLOG_INIT_COUNT :: u64 where "RTKIT_SYSLOG_INIT_COUNT = 0x000000000000FFFF"
definition RTKIT_SYSLOG_LOG_INDEX :: u64 where "RTKIT_SYSLOG_LOG_INDEX = 0x00000000000000FF"
definition RTKIT_OSLOG_TYPE :: u64 where "RTKIT_OSLOG_TYPE = 0xFF00000000000000"
definition MSG_BUFFER_REQUEST_SIZE :: u64 where "MSG_BUFFER_REQUEST_SIZE = 0x000FF00000000000"
definition MSG_BUFFER_REQUEST_IOVA :: u64 where "MSG_BUFFER_REQUEST_IOVA = 0x000003FFFFFFFFFF"

abbreviation (input) MGMT_MSG_HELLO :: u64 where "MGMT_MSG_HELLO \<equiv> 1"
abbreviation (input) MGMT_MSG_HELLO_ACK :: u64 where "MGMT_MSG_HELLO_ACK \<equiv> 2"
abbreviation (input) MGMT_MSG_START_EP :: u64 where "MGMT_MSG_START_EP \<equiv> 5"
abbreviation (input) MGMT_MSG_IOP_PWR_STATE :: u64 where "MGMT_MSG_IOP_PWR_STATE \<equiv> 6"
abbreviation (input) MGMT_MSG_IOP_PWR_STATE_ACK :: u64 where "MGMT_MSG_IOP_PWR_STATE_ACK \<equiv> 7"
abbreviation (input) MGMT_MSG_EPMAP :: u64 where "MGMT_MSG_EPMAP \<equiv> 8"
abbreviation (input) MGMT_MSG_AP_PWR_STATE :: u64 where "MGMT_MSG_AP_PWR_STATE \<equiv> 0xb"
definition MGMT_MSG_EPMAP_DONE :: u64 where "MGMT_MSG_EPMAP_DONE = push_bit 51 1"
definition MGMT_MSG_EPMAP_REPLY_DONE :: u64 where "MGMT_MSG_EPMAP_REPLY_DONE = push_bit 51 1"
abbreviation (input) MGMT_MSG_EPMAP_REPLY_MORE :: u64 where "MGMT_MSG_EPMAP_REPLY_MORE \<equiv> 1"
abbreviation (input) MGMT_MSG_START_EP_FLAG :: u64 where "MGMT_MSG_START_EP_FLAG \<equiv> 2"
abbreviation (input) RTKIT_SYSLOG_LOG :: u64 where "RTKIT_SYSLOG_LOG \<equiv> 5"
abbreviation (input) RTKIT_SYSLOG_INIT :: u64 where "RTKIT_SYSLOG_INIT \<equiv> 8"
abbreviation (input) RTKIT_SYSLOG_ENTRY_HEADER_SIZE :: nat where "RTKIT_SYSLOG_ENTRY_HEADER_SIZE \<equiv> 32"
abbreviation (input) RTKIT_SYSLOG_CONTEXT_SIZE :: nat where "RTKIT_SYSLOG_CONTEXT_SIZE \<equiv> 24"
abbreviation (input) RTKIT_OSLOG_INIT :: u64 where "RTKIT_OSLOG_INIT \<equiv> 1"
abbreviation (input) RTKIT_OSLOG_ACK :: u64 where "RTKIT_OSLOG_ACK \<equiv> 3"
abbreviation (input) MSG_BUFFER_REQUEST :: u64 where "MSG_BUFFER_REQUEST \<equiv> 1"
abbreviation (input) RTKIT_POWER_OFF :: u32 where "RTKIT_POWER_OFF \<equiv> 0x00"
abbreviation (input) RTKIT_POWER_SLEEP :: u32 where "RTKIT_POWER_SLEEP \<equiv> 0x01"
abbreviation (input) RTKIT_POWER_ON :: u32 where "RTKIT_POWER_ON \<equiv> 0x20"
abbreviation (input) RTKIT_POWER_INIT :: u32 where "RTKIT_POWER_INIT \<equiv> 0x220"
abbreviation (input) RTKIT_MIN_VERSION :: u32 where "RTKIT_MIN_VERSION \<equiv> 11"
abbreviation (input) RTKIT_MAX_VERSION :: u32 where "RTKIT_MAX_VERSION \<equiv> 12"
abbreviation (input) RTKIT_BOOT_TIMEOUT_US :: nat where "RTKIT_BOOT_TIMEOUT_US \<equiv> 1000000"

record rtkit_message =
  ep :: u8
  msg :: u64

record syslog_buffer =
  sb_ep :: u8
  sb_paddr :: nat
  sb_dva :: u64
  sb_pages :: nat

record syslog_state =
  sl_count :: nat
  sl_entry_size :: nat
  sl_print_entries :: bool

datatype printed =
    CrashHeader u32 u32 nat
  | CrashMessage "u8 list"
  | CrashFirmware "u8 list"
  | SyslogLine "u8 list" "u8 list"

datatype rtkit_error =
    AscError asc_error
  | EndpointUnavailable
  | RequestedEndpointUnavailable
  | MgmtTimeout
  | EndpointRecvTimeout
  | HelloTimeout
  | EpmapFailed
  | IopOnTimeout
  | UnsupportedVersion
  | CoprocessorCrashed
  | SyslogAllocFailed
  | SyslogMapFailed

text \<open>
  The kernel services the driver calls. \<open>mapper_map\<close> and \<open>mapper_unmap\<close> are those of the DMA
  mapper the instance was created with, when it was created with one. \<open>read_phys\<close> is the
  byte the direct map shows at a physical address, \<open>memremap\<close> what the driver sees, by offset,
  through a new mapping of a physical range, when the mapping succeeds.
\<close>

record 'd mapper =
  mapper_map :: "nat \<Rightarrow> nat \<Rightarrow> ('d, remoteproc_error, u64) stepper"
  mapper_unmap :: "u64 \<Rightarrow> nat \<Rightarrow> 'd \<Rightarrow> 'd"
  mapper_translate :: "u64 \<Rightarrow> 'd \<Rightarrow> nat option"
  mapper_alignment :: nat

record 'd platform =
  page_size :: nat
  alloc_pages :: "nat \<Rightarrow> nat \<Rightarrow> 'd \<Rightarrow> nat option \<times> 'd"
  zero_bytes :: "nat \<Rightarrow> nat \<Rightarrow> 'd \<Rightarrow> 'd"
  read_phys :: "nat \<Rightarrow> 'd \<Rightarrow> u8"
  memremap :: "nat \<Rightarrow> nat \<Rightarrow> 'd \<Rightarrow> (nat \<Rightarrow> u8) option"
  dma_mapper :: "'d mapper option"

record 'd rtkit =
  rt_asc :: asc
  iop_power :: u32
  ap_power :: u32
  crashed :: bool
  ep_bitmap :: u64
  firmware_regions :: "(nat \<times> nat) list"
  crash_handler :: "(nat \<times> nat) list option"
  syslog_buffers :: "syslog_buffer list"
  syslog_st :: syslog_state
  pending_messages :: "rtkit_message list"
  printed :: "printed list"
  kern :: 'd

type_synonym ('d, 'a) rtkit_op = "('d rtkit, rtkit_error, 'a) stepper"

definition rtkit_new :: "asc \<Rightarrow> 'd \<Rightarrow> 'd rtkit" where
  "rtkit_new a d = \<lparr>rt_asc = a, iop_power = RTKIT_POWER_OFF, ap_power = RTKIT_POWER_OFF,
     crashed = False, ep_bitmap = 0, firmware_regions = [], crash_handler = None,
     syslog_buffers = [], syslog_st = \<lparr>sl_count = 0, sl_entry_size = 0, sl_print_entries = False\<rparr>,
     pending_messages = [], printed = [], kern = d\<rparr>"

definition set_syslog_printing :: "bool \<Rightarrow> 'd rtkit \<Rightarrow> 'd rtkit" where
  "set_syslog_printing enabled r = r\<lparr>syslog_st := (syslog_st r)\<lparr>sl_print_entries := enabled\<rparr>\<rparr>"

definition mgmt_msg :: "u64 \<Rightarrow> u64 \<Rightarrow> u64" where
  "mgmt_msg msg_type payload = field_prep MGMT_TYPE msg_type OR payload"

definition div_ceil :: "nat \<Rightarrow> nat \<Rightarrow> nat" where
  "div_ceil a b = (a + b - 1) div b"

section \<open>Sending and endpoints\<close>

definition rtkit_send :: "rtkit_message \<Rightarrow> ('d, unit) rtkit_op" where
  "rtkit_send m r =
     (case asc_send \<lparr>msg0 = msg m, msg1 = ucast (ep m)\<rparr> (rt_asc r) of
        (Inl e, a) \<Rightarrow> (Inl (AscError e), r\<lparr>rt_asc := a\<rparr>)
      | (Inr _, a) \<Rightarrow> (Inr (), r\<lparr>rt_asc := a\<rparr>))"

definition endpoint_supported :: "u8 \<Rightarrow> 'd rtkit \<Rightarrow> bool" where
  "endpoint_supported e r =
     (if unat e < 64 then ep_bitmap r AND push_bit (unat e) 1 \<noteq> 0 else False)"

definition start_ep_raw :: "u8 \<Rightarrow> ('d, unit) rtkit_op" where
  "start_ep_raw e =
     rtkit_send \<lparr>ep = RTKIT_EP_MGMT,
       msg = mgmt_msg MGMT_MSG_START_EP
               (field_prep MGMT_MSG_START_EP_IDX (ucast e) OR MGMT_MSG_START_EP_FLAG)\<rparr>"

definition start_ep :: "u8 \<Rightarrow> ('d, unit) rtkit_op" where
  "start_ep e r = (if \<not> endpoint_supported e r then (Inl EndpointUnavailable, r) else start_ep_raw e r)"

definition is_running :: "'d rtkit \<Rightarrow> bool" where
  "is_running r = (iop_power r = RTKIT_POWER_ON \<and> ap_power r = RTKIT_POWER_ON \<and> \<not> crashed r)"

definition check_and_notify_crash :: "'d rtkit \<Rightarrow> 'd rtkit" where
  "check_and_notify_crash r =
     (if \<not> crashed r then r
      else r\<lparr>crash_handler := map_option (\<lambda>evs. evs @ [(unat RTKIT_EP_CRASHLOG, 0)]) (crash_handler r)\<rparr>)"

section \<open>Text from the coprocessor\<close>

text \<open>\<open>core::str::from_utf8\<close> succeeds exactly on well-formed UTF-8.\<close>

definition utf8_continuation :: "u8 \<Rightarrow> bool" where
  "utf8_continuation b \<longleftrightarrow> 0x80 \<le> b \<and> b \<le> 0xBF"

fun utf8_valid :: "u8 list \<Rightarrow> bool" where
  "utf8_valid [] = True"
| "utf8_valid (b # rest) =
     (if b < 0x80 then utf8_valid rest
      else case rest of
        [] \<Rightarrow> False
      | c1 # rest1 \<Rightarrow>
          if 0xC2 \<le> b \<and> b \<le> 0xDF then utf8_continuation c1 \<and> utf8_valid rest1
          else case rest1 of
            [] \<Rightarrow> False
          | c2 # rest2 \<Rightarrow>
              if 0xE0 \<le> b \<and> b \<le> 0xEF
              then utf8_continuation c1 \<and> (b \<noteq> 0xE0 \<or> 0xA0 \<le> c1) \<and> (b \<noteq> 0xED \<or> c1 \<le> 0x9F) \<and>
                utf8_continuation c2 \<and> utf8_valid rest2
              else case rest2 of
                [] \<Rightarrow> False
              | c3 # rest3 \<Rightarrow>
                  0xF0 \<le> b \<and> b \<le> 0xF4 \<and> utf8_continuation c1 \<and> (b \<noteq> 0xF0 \<or> 0x90 \<le> c1) \<and>
                  (b \<noteq> 0xF4 \<or> c1 \<le> 0x8F) \<and> utf8_continuation c2 \<and> utf8_continuation c3 \<and>
                  utf8_valid rest3)"

text \<open>The bytes before the first NUL, or all of them.\<close>

definition until_nul :: "u8 list \<Rightarrow> u8 list" where
  "until_nul bytes = takeWhile (\<lambda>b. b \<noteq> 0) bytes"

text \<open>The replacement text for malformed strings is \<^verbatim>\<open><non-UTF-8>\<close>.\<close>

definition non_utf8_text :: "u8 list" where
  "non_utf8_text = [0x3C, 0x6E, 0x6F, 0x6E, 0x2D, 0x55, 0x54, 0x46, 0x2D, 0x38, 0x3E]"

definition syslog_string :: "u8 list \<Rightarrow> u8 list" where
  "syslog_string bytes =
     (let s = rev (dropWhile (\<lambda>b. b = 0x0D \<or> b = 0x0A) (rev (until_nul bytes)))
      in if utf8_valid s then s else non_utf8_text)"

definition read_u32_at :: "u8 list \<Rightarrow> nat \<Rightarrow> u32 option" where
  "read_u32_at bytes offset =
     (if offset + 4 \<le> length bytes
      then Some (ucast (bytes ! offset) OR push_bit 8 (ucast (bytes ! (offset + 1)))
             OR push_bit 16 (ucast (bytes ! (offset + 2))) OR push_bit 24 (ucast (bytes ! (offset + 3))))
      else None)"

text \<open>A slice \<open>bytes[from..to]\<close>; \<open>None\<close> is the panic of an index out of range.\<close>

definition slice :: "u8 list \<Rightarrow> nat \<Rightarrow> nat \<Rightarrow> u8 list option" where
  "slice bytes from stop =
     (if from \<le> stop \<and> stop \<le> length bytes then Some (take (stop - from) (drop from bytes)) else None)"

definition crash_section :: "u8 list \<Rightarrow> nat \<Rightarrow> u32 \<Rightarrow> nat \<Rightarrow> printed list option" where
  "crash_section bytes offset section sz =
     (if section = 0x43737472 \<and> 20 \<le> sz
      then map_option (\<lambda>payload.
             if utf8_valid (until_nul payload) then [CrashMessage (until_nul payload)] else [])
             (slice bytes (offset + 20) (offset + sz))
      else if section = 0x43766572 \<and> 32 \<le> sz
      then map_option (\<lambda>payload.
             if utf8_valid (until_nul payload) then [CrashFirmware (until_nul payload)] else [])
             (slice bytes (offset + 32) (offset + sz))
      else Some [])"

function crash_sections :: "u8 list \<Rightarrow> nat \<Rightarrow> nat \<Rightarrow> printed list option" where
  "crash_sections bytes limit offset =
     (if offset + 16 \<le> limit
      then case read_u32_at bytes offset of
             None \<Rightarrow> Some []
           | Some section \<Rightarrow>
               let section_size = (case read_u32_at bytes (offset + 12) of None \<Rightarrow> 0 | Some v \<Rightarrow> unat v) in
               if section_size < 16 \<or> offset + section_size > limit then Some []
               else case crash_section bytes offset section section_size of
                      None \<Rightarrow> None
                    | Some out \<Rightarrow> map_option ((@) out) (crash_sections bytes limit (offset + section_size))
      else Some [])"
  by pat_completeness auto
termination
  by (relation "measure (\<lambda>(bytes, limit, offset). limit - offset)") auto

declare crash_sections.simps [simp del]

definition parse_crashlog :: "u8 list \<Rightarrow> nat \<Rightarrow> printed list option" where
  "parse_crashlog bytes sz =
     (case read_u32_at bytes 0 of
        None \<Rightarrow> Some []
      | Some header \<Rightarrow>
          let total_size = (case read_u32_at bytes 8 of None \<Rightarrow> 0 | Some v \<Rightarrow> unat v);
              version = (case read_u32_at bytes 4 of None \<Rightarrow> 0 | Some v \<Rightarrow> v)
          in map_option ((#) (CrashHeader header version total_size))
               (crash_sections bytes (min total_size sz) 0x20))"

lemma crash_section_Some:
  "offset + sz \<le> length bytes \<Longrightarrow> \<exists>out. crash_section bytes offset section sz = Some out"
  by (auto simp: crash_section_def slice_def)

lemma crash_sections_Some:
  "limit \<le> length bytes \<Longrightarrow> \<exists>out. crash_sections bytes limit offset = Some out"
proof (induction bytes limit offset rule: crash_sections.induct)
  case (1 bytes limit offset)
  show ?case
  proof (cases "read_u32_at bytes offset")
    case None
    then show ?thesis
      by (subst crash_sections.simps) simp
  next
    case (Some sect)
    define sz where "sz = (case read_u32_at bytes (offset + 12) of None \<Rightarrow> 0 | Some v \<Rightarrow> unat v)"
    have step: "crash_sections bytes limit offset =
      (if offset + 16 \<le> limit \<and> 16 \<le> sz \<and> offset + sz \<le> limit
       then case crash_section bytes offset sect sz of
              None \<Rightarrow> None
            | Some out \<Rightarrow> map_option ((@) out) (crash_sections bytes limit (offset + sz))
       else Some [])"
      unfolding sz_def using Some by (subst crash_sections.simps) (auto simp: Let_def not_less)
    show ?thesis
    proof (cases "offset + 16 \<le> limit \<and> 16 \<le> sz \<and> offset + sz \<le> limit")
      case True
      moreover obtain out where "crash_section bytes offset sect sz = Some out"
        using crash_section_Some [of offset sz bytes sect] True 1(2) by auto
      moreover obtain rest where "crash_sections bytes limit (offset + sz) = Some rest"
        using 1(1) [OF _ Some refl, folded sz_def, OF _ _ calculation(2) 1(2)] True by auto
      ultimately show ?thesis
        by (simp add: step)
    next
      case False
      then show ?thesis
        unfolding step by (simp only: if_False) simp
    qed
  qed
qed

section \<open>System endpoints\<close>

definition map_dma :: "'d platform \<Rightarrow> nat \<Rightarrow> nat \<Rightarrow> ('d rtkit, remoteproc_error, u64) stepper" where
  "map_dma P paddr sz r =
     (case dma_mapper P of
        None \<Rightarrow> (Inr (of_nat paddr), r)
      | Some mp \<Rightarrow> (case mapper_map mp paddr sz (kern r) of (res, d) \<Rightarrow> (res, r\<lparr>kern := d\<rparr>)))"

definition unmap_dma :: "'d platform \<Rightarrow> u64 \<Rightarrow> nat \<Rightarrow> 'd rtkit \<Rightarrow> 'd rtkit" where
  "unmap_dma P dva sz r =
     (case dma_mapper P of None \<Rightarrow> r | Some mp \<Rightarrow> r\<lparr>kern := mapper_unmap mp dva sz (kern r)\<rparr>)"

definition dma_alignment :: "'d platform \<Rightarrow> nat" where
  "dma_alignment P = (case dma_mapper P of None \<Rightarrow> page_size P | Some mp \<Rightarrow> mapper_alignment mp)"

definition handle_mgmt_message :: "u64 \<Rightarrow> ('d, unit) rtkit_op" where
  "handle_mgmt_message raw r =
     (let msg_type = field_get raw MGMT_TYPE; pwr = ucast (field_get raw MGMT_PWR_STATE) in
      if msg_type = MGMT_MSG_IOP_PWR_STATE_ACK then (Inr (), r\<lparr>iop_power := pwr\<rparr>)
      else if msg_type = MGMT_MSG_AP_PWR_STATE then (Inr (), r\<lparr>ap_power := pwr\<rparr>)
      else (Inr (), r))"

definition find_buffer :: "u8 \<Rightarrow> 'd rtkit \<Rightarrow> syslog_buffer option" where
  "find_buffer e r = find (\<lambda>b. sb_ep b = e) (syslog_buffers r)"

definition add_buffer :: "syslog_buffer \<Rightarrow> 'd rtkit \<Rightarrow> 'd rtkit" where
  "add_buffer b r = r\<lparr>syslog_buffers := syslog_buffers r @ [b]\<rparr>"

text \<open>The pages are not given back when the mapping fails.\<close>

definition allocate_buffer :: "'d platform \<Rightarrow> u8 \<Rightarrow> nat \<Rightarrow> ('d, u64) rtkit_op" where
  "allocate_buffer P e size_bytes r =
     (let align_pages = div_ceil (dma_alignment P) (page_size P);
          npages = div_ceil size_bytes (page_size P)
      in case alloc_pages P npages align_pages (kern r) of
           (None, d) \<Rightarrow> (Inl SyslogAllocFailed, r\<lparr>kern := d\<rparr>)
         | (Some paddr, d) \<Rightarrow>
             try_bind (map_error (\<lambda>_. SyslogMapFailed) (map_dma P paddr size_bytes))
               (\<lambda>mapped. try_bind
                  (put_state (add_buffer \<lparr>sb_ep = e, sb_paddr = paddr, sb_dva = mapped, sb_pages = npages\<rparr>))
                  (\<lambda>_. ok mapped))
               (r\<lparr>kern := zero_bytes P paddr size_bytes d\<rparr>))"

definition buffer_reply :: "u64 \<Rightarrow> u64 \<Rightarrow> u64" where
  "buffer_reply requested_size dva =
     field_prep RTKIT_SYSLOG_TYPE MSG_BUFFER_REQUEST OR
     field_prep MSG_BUFFER_REQUEST_SIZE requested_size OR
     field_prep MSG_BUFFER_REQUEST_IOVA dva"

definition handle_buffer_request :: "'d platform \<Rightarrow> rtkit_message \<Rightarrow> ('d, bool) rtkit_op" where
  "handle_buffer_request P m r =
     (if field_get (msg m) RTKIT_SYSLOG_TYPE \<noteq> MSG_BUFFER_REQUEST then (Inr False, r)
      else let requested_size = field_get (msg m) MSG_BUFFER_REQUEST_SIZE;
               request_iova = field_get (msg m) MSG_BUFFER_REQUEST_IOVA;
               size_bytes = unat (push_bit 12 requested_size)
      in if request_iova \<noteq> 0
      then (Inr True,
        if find_buffer (ep m) r \<noteq> None then r
        else let paddr = (case dma_mapper P of None \<Rightarrow> 0 | Some mp \<Rightarrow>
                            case mapper_translate mp request_iova (kern r) of None \<Rightarrow> 0 | Some p \<Rightarrow> p)
             in add_buffer \<lparr>sb_ep = ep m, sb_paddr = paddr, sb_dva = request_iova,
                  sb_pages = div_ceil size_bytes (page_size P)\<rparr> r)
      else try_bind
        (case find_buffer (ep m) r of
           Some existing \<Rightarrow> ok (sb_dva existing)
         | None \<Rightarrow> allocate_buffer P (ep m) size_bytes)
        (\<lambda>dva. try_bind (rtkit_send \<lparr>ep = ep m, msg = buffer_reply requested_size dva\<rparr>) (\<lambda>_. ok True)) r)"

definition dump_crashlog :: "'d platform \<Rightarrow> 'd rtkit \<Rightarrow> 'd rtkit" where
  "dump_crashlog P r =
     (case find_buffer RTKIT_EP_CRASHLOG r of
        None \<Rightarrow> r
      | Some b \<Rightarrow>
          let sz = min (sb_pages b * page_size P) (2 ^ 64 - 1) in
          if sb_paddr b = 0 \<or> sz < 0x20 then r
          else case memremap P (sb_paddr b) sz (kern r) of
                 None \<Rightarrow> r
               | Some view \<Rightarrow>
                   (case parse_crashlog (map view [0..<sz]) sz of
                      None \<Rightarrow> r
                    | Some out \<Rightarrow> r\<lparr>printed := printed r @ out\<rparr>))"

definition handle_crashlog_message :: "'d platform \<Rightarrow> rtkit_message \<Rightarrow> ('d, bool) rtkit_op" where
  "handle_crashlog_message P m r =
     (if field_get (msg m) RTKIT_SYSLOG_TYPE = MSG_BUFFER_REQUEST \<and> find_buffer RTKIT_EP_CRASHLOG r \<noteq> None
      then (Inl CoprocessorCrashed, dump_crashlog P (r\<lparr>crashed := True\<rparr>))
      else handle_buffer_request P m r)"

definition syslog_line :: "'d platform \<Rightarrow> nat \<Rightarrow> nat \<Rightarrow> 'd \<Rightarrow> printed" where
  "syslog_line P addr stride d =
     (let bytes = map (\<lambda>i. read_phys P (addr + i) d) [0..<stride] in
      SyslogLine (syslog_string (take RTKIT_SYSLOG_CONTEXT_SIZE (drop 8 bytes)))
                 (syslog_string (drop RTKIT_SYSLOG_ENTRY_HEADER_SIZE bytes)))"

definition dump_syslog_entry :: "'d platform \<Rightarrow> nat \<Rightarrow> 'd rtkit \<Rightarrow> 'd rtkit" where
  "dump_syslog_entry P index r =
     (let st = syslog_st r in
      if \<not> sl_print_entries st \<or> sl_entry_size st = 0 \<or> index \<ge> sl_count st then r
      else case find_buffer RTKIT_EP_SYSLOG r of
             None \<Rightarrow> r
           | Some b \<Rightarrow>
               if sb_paddr b = 0 then r
               else let stride = RTKIT_SYSLOG_ENTRY_HEADER_SIZE + sl_entry_size st;
                        offset = index * stride
               in if stride \<ge> 2 ^ 64 \<or> offset \<ge> 2 ^ 64 \<or> offset + stride \<ge> 2 ^ 64
                     \<or> sb_pages b * page_size P \<ge> 2 ^ 64 \<or> offset + stride > sb_pages b * page_size P then r
               else r\<lparr>printed := printed r @ [syslog_line P (sb_paddr b + offset) stride (kern r)]\<rparr>)"

definition handle_syslog_message :: "'d platform \<Rightarrow> rtkit_message \<Rightarrow> ('d, bool) rtkit_op" where
  "handle_syslog_message P m r =
     (let ty = field_get (msg m) RTKIT_SYSLOG_TYPE in
      if ty = MSG_BUFFER_REQUEST then handle_buffer_request P m r
      else if ty = RTKIT_SYSLOG_INIT then
        (Inr True, r\<lparr>syslog_st := (syslog_st r)\<lparr>
           sl_count := unat (field_get (msg m) RTKIT_SYSLOG_INIT_COUNT),
           sl_entry_size := unat (field_get (msg m) RTKIT_SYSLOG_INIT_ENTRY_SIZE)\<rparr>\<rparr>)
      else if ty = RTKIT_SYSLOG_LOG then
        try_bind (rtkit_send m) (\<lambda>_. ok True)
          (dump_syslog_entry P (unat (field_get (msg m) RTKIT_SYSLOG_LOG_INDEX)) r)
      else (Inr False, r))"

definition handle_ioreport_message :: "'d platform \<Rightarrow> rtkit_message \<Rightarrow> ('d, bool) rtkit_op" where
  "handle_ioreport_message P m r =
     (let ty = field_get (msg m) RTKIT_SYSLOG_TYPE in
      if ty = MSG_BUFFER_REQUEST then handle_buffer_request P m r
      else if ty = 0x8 \<or> ty = 0xc then try_bind (rtkit_send m) (\<lambda>_. ok True) r
      else (Inr False, r))"

definition handle_oslog_message :: "rtkit_message \<Rightarrow> ('d, bool) rtkit_op" where
  "handle_oslog_message m r =
     (if field_get (msg m) RTKIT_OSLOG_TYPE \<noteq> RTKIT_OSLOG_INIT then (Inr False, r)
      else try_bind (rtkit_send \<lparr>ep = ep m, msg = field_prep RTKIT_OSLOG_TYPE RTKIT_OSLOG_ACK\<rparr>)
             (\<lambda>_. ok True) r)"

definition handle_internal_message :: "'d platform \<Rightarrow> rtkit_message \<Rightarrow> ('d, bool) rtkit_op" where
  "handle_internal_message P m =
     (if ep m = RTKIT_EP_MGMT then try_bind (handle_mgmt_message (msg m)) (\<lambda>_. ok True)
      else if ep m = RTKIT_EP_CRASHLOG then handle_crashlog_message P m
      else if ep m = RTKIT_EP_SYSLOG then handle_syslog_message P m
      else if ep m = RTKIT_EP_IOREPORT then handle_ioreport_message P m
      else if ep m = RTKIT_EP_OSLOG then handle_oslog_message m
      else ok False)"

section \<open>Receiving\<close>

definition rtkit_message_of :: "asc_message \<Rightarrow> rtkit_message" where
  "rtkit_message_of am = \<lparr>ep = ucast (msg1 am), msg = msg0 am\<rparr>"

text \<open>\<open>Ok(true)\<close> with its message is \<open>Inr (Some m)\<close>, \<open>Ok(false)\<close> is \<open>Inr None\<close>.\<close>

definition rtkit_recv :: "'d platform \<Rightarrow> ('d, rtkit_message option) rtkit_op" where
  "rtkit_recv P r =
     (if \<not> can_recv (rt_asc r) then (Inr None, r)
      else case asc_recv (rt_asc r) of
             (Inl e, a) \<Rightarrow> (Inl (AscError e), r\<lparr>rt_asc := a\<rparr>)
           | (Inr am, a) \<Rightarrow>
               let m = rtkit_message_of am in
               try_bind (handle_internal_message P m)
                 (\<lambda>internal. ok (if internal then None else Some m)) (r\<lparr>rt_asc := a\<rparr>))"

text \<open>The first pending message for an endpoint, and the others in their order.\<close>

fun take_pending :: "u8 \<Rightarrow> rtkit_message list \<Rightarrow> (rtkit_message \<times> rtkit_message list) option" where
  "take_pending e [] = None"
| "take_pending e (m # ms) =
     (if ep m = e then Some (m, ms)
      else map_option (\<lambda>(found, rest). (found, m # rest)) (take_pending e ms))"

subsection \<open>What the handlers leave alone\<close>

text \<open>The queues of messages that have not been consumed yet.\<close>

definition incoming :: "'d rtkit \<Rightarrow> asc_message list \<times> (nat \<times> u64 \<times> u64) list \<times> rtkit_message list" where
  "incoming r = (asc_pending (rt_asc r), i2a_fifo (rt_asc r), pending_messages r)"

lemma asc_send_incoming:
  "asc_send m s = (res, s') \<Longrightarrow> asc_pending s' = asc_pending s \<and> i2a_fifo s' = i2a_fifo s \<and>
     interrupt_id s' = interrupt_id s \<and> now s \<le> now s'"
  by (drule asc_send_frame, cases res) auto

lemma send_frame: "preserves (\<lambda>r. incoming r = q) (rtkit_send m)"
proof
  fix r :: "'a rtkit"
  assume r: "incoming r = q"
  obtain res a where send: "asc_send \<lparr>msg0 = msg m, msg1 = ucast (ep m)\<rparr> (rt_asc r) = (res, a)"
    by fastforce
  with r asc_send_incoming [OF send] show "incoming (snd (rtkit_send m r)) = q"
    by (cases res) (simp_all add: rtkit_send_def incoming_def)
qed

lemma incoming_update [simp]:
  "incoming (r\<lparr>iop_power := x\<rparr>) = incoming r"
  "incoming (r\<lparr>ap_power := x\<rparr>) = incoming r"
  "incoming (r\<lparr>crashed := c\<rparr>) = incoming r"
  "incoming (r\<lparr>ep_bitmap := e\<rparr>) = incoming r"
  "incoming (r\<lparr>syslog_st := st\<rparr>) = incoming r"
  "incoming (r\<lparr>printed := p\<rparr>) = incoming r"
  "incoming (r\<lparr>kern := d\<rparr>) = incoming r"
  "incoming (add_buffer b r) = incoming r"
  by (simp_all add: incoming_def add_buffer_def)

text \<open>
  The contract between the message handlers and what is proved about them: a property of
  the RTKit state that the elementary updates keep is kept by every handler that succeeds.
\<close>

locale handler_frame =
  fixes I :: "'d rtkit \<Rightarrow> bool"
  assumes inv_send: "preserves I (rtkit_send m)"
    and inv_power: "I r \<Longrightarrow> I (r\<lparr>iop_power := x\<rparr>)" "I r \<Longrightarrow> I (r\<lparr>ap_power := x\<rparr>)"
    and inv_syslog: "I r \<Longrightarrow> I (r\<lparr>syslog_st := st\<rparr>)"
    and inv_printed: "I r \<Longrightarrow> I (r\<lparr>printed := p\<rparr>)"
    and inv_kern: "I r \<Longrightarrow> I (r\<lparr>kern := d\<rparr>)"
    and inv_buffer: "I r \<Longrightarrow> find_buffer (sb_ep b) r = None \<Longrightarrow> I (add_buffer b r)"
begin

lemma inv_mgmt: "preserves I (handle_mgmt_message raw)"
  by rule (simp add: handle_mgmt_message_def Let_def inv_power)

lemma inv_map_dma:
  "map_dma P paddr n r = (res, r') \<Longrightarrow> I r \<Longrightarrow> find_buffer e r = None \<Longrightarrow>
     I r' \<and> find_buffer e r' = None"
  by (auto simp: map_dma_def find_buffer_def inv_kern split: option.splits prod.splits)

lemma inv_allocate: "I r \<Longrightarrow> find_buffer e r = None \<Longrightarrow> I (snd (allocate_buffer P e n r))"
proof (cases "alloc_pages P (div_ceil n (page_size P)) (div_ceil (dma_alignment P) (page_size P)) (kern r)")
  case (Pair a d)
  assume r: "I r" "find_buffer e r = None"
  show ?thesis
  proof (cases a)
    case None
    with Pair r show ?thesis
      by (simp add: allocate_buffer_def inv_kern)
  next
    case (Some paddr)
    let ?r = "r\<lparr>kern := zero_bytes P paddr n d\<rparr>"
    obtain res r' where dma: "map_dma P paddr n ?r = (res, r')"
      by fastforce
    have "I r'" "find_buffer e r' = None"
      using inv_map_dma [OF dma inv_kern, of e] r by (simp_all add: find_buffer_def)
    then show ?thesis
      using Pair Some dma by (cases res) (simp_all add: allocate_buffer_def try_bind_def map_error_def inv_buffer)
  qed
qed

lemma inv_buffer_request: "preserves I (handle_buffer_request P m)"
proof
  fix r
  assume r: "I r"
  let ?reply = "\<lambda>dva. try_bind (rtkit_send \<lparr>ep = ep m,
    msg = buffer_reply (field_get (msg m) MSG_BUFFER_REQUEST_SIZE) dva\<rparr>) (\<lambda>_. ok True)"
  have reply: "preserves I (?reply dva)" for dva
    by (intro preserves_intros inv_send)
  then have now: "I (snd (?reply dva r))" for dva
    using r by (simp add: preserves_def)
  show "I (snd (handle_buffer_request P m r))"
    unfolding handle_buffer_request_def Let_def
    using r by (auto simp: inv_buffer inv_allocate now intro!: bind_keepsI [OF _ reply] split: option.splits)
qed

lemma inv_dump_crashlog: "I r \<Longrightarrow> I (dump_crashlog P r)"
  by (simp add: dump_crashlog_def Let_def inv_printed split: option.splits)

lemma inv_dump_syslog: "I r \<Longrightarrow> I (dump_syslog_entry P i r)"
  by (simp add: dump_syslog_entry_def Let_def inv_printed split: option.splits)

lemma inv_reply: "preserves I (try_bind (rtkit_send m) (\<lambda>_. ok True))"
  by (intro preserves_intros inv_send)

lemma inv_syslog_message: "preserves I (handle_syslog_message P m)"
  using inv_buffer_request [of P m] inv_reply [of m]
  by (simp add: preserves_def handle_syslog_message_def Let_def inv_dump_syslog inv_syslog)

lemma inv_ioreport: "preserves I (handle_ioreport_message P m)"
  using inv_buffer_request [of P m] inv_reply [of m]
  by (simp add: preserves_def handle_ioreport_message_def Let_def)

lemma inv_oslog: "preserves I (handle_oslog_message m)"
  using inv_reply by (simp add: preserves_def handle_oslog_message_def)

text \<open>The crash log handler succeeds only when it answers a buffer request.\<close>

lemma inv_internal_Ok:
  assumes "handle_internal_message P m r = (Inr b, r')" and "I r"
  shows "I r'"
proof (cases "ep m = RTKIT_EP_CRASHLOG")
  case True
  then have "handle_buffer_request P m r = (Inr b, r')"
    using assms(1) by (simp add: handle_internal_message_def handle_crashlog_message_def split: if_splits)
  then show ?thesis
    using inv_buffer_request assms(2) by (rule preservesD [rotated 2])
next
  case False
  have "preserves I (if ep m = RTKIT_EP_CRASHLOG then ok b else handle_internal_message P m)"
    unfolding handle_internal_message_def using False
    by (simp only: if_False) (intro preserves_intros inv_mgmt inv_syslog_message inv_ioreport inv_oslog)
  with False assms show ?thesis
    by (auto dest: preservesD)
qed

end

text \<open>When it is also kept by recording a crash, every handler keeps it.\<close>

locale handler_invariant = handler_frame I for I :: "'d rtkit \<Rightarrow> bool" +
  assumes inv_crash: "I r \<Longrightarrow> I (r\<lparr>crashed := True\<rparr>)"
begin

lemma inv_crashlog: "preserves I (handle_crashlog_message P m)"
  using inv_buffer_request [of P m]
  by (simp add: preserves_def handle_crashlog_message_def inv_dump_crashlog inv_crash)

lemma inv_internal: "preserves I (handle_internal_message P m)"
  unfolding handle_internal_message_def
  by (intro preserves_intros inv_mgmt inv_crashlog inv_syslog_message inv_ioreport inv_oslog)

end

interpretation keeps_incoming: handler_invariant "\<lambda>r. incoming r = q" for q
  by unfold_locales (simp_all add: send_frame)

subsection \<open>One endpoint\<close>

definition waiting :: "'d rtkit \<Rightarrow> nat" where
  "waiting r = length (asc_pending (rt_asc r)) + length (i2a_fifo (rt_asc r))"

lemma waiting_incoming: "incoming r' = incoming r \<Longrightarrow> waiting r' = waiting r"
  by (simp add: incoming_def waiting_def)

text \<open>A call that returns a message has taken exactly that message from the mailbox.\<close>

lemma rtkit_recv_incoming:
  assumes "rtkit_recv P r = (res, r')"
  shows "incoming r' = incoming r \<and> res = Inr None \<or>
    (\<exists>am a r1. asc_recv (rt_asc r) = (Inr am, a) \<and> incoming r' = incoming (r\<lparr>rt_asc := a\<rparr>) \<and>
       handle_internal_message P (rtkit_message_of am) (r\<lparr>rt_asc := a\<rparr>) = (r1, r') \<and>
       res = map_sum id (\<lambda>internal. if internal then None else Some (rtkit_message_of am)) r1)"
proof (cases "can_recv (rt_asc r)")
  case False
  with assms show ?thesis
    by (simp add: rtkit_recv_def)
next
  case True
  then obtain am a where am: "asc_recv (rt_asc r) = (Inr am, a)"
    using asc_recv_Inr_iff by blast
  obtain r1 r2 where h: "handle_internal_message P (rtkit_message_of am) (r\<lparr>rt_asc := a\<rparr>) = (r1, r2)"
    by fastforce
  moreover have "incoming r2 = incoming (r\<lparr>rt_asc := a\<rparr>)"
    by (rule preserves_eqD [OF keeps_incoming.inv_internal h])
  ultimately show ?thesis
    using assms am True by (cases r1) (auto simp: rtkit_recv_def try_bind_def Let_def)
qed

lemma asc_recv_waiting:
  "asc_recv (rt_asc r) = (Inr am, a) \<Longrightarrow> waiting r = Suc (waiting (r\<lparr>rt_asc := a\<rparr>))"
  using arg_cong [OF asc_recv_messages, of "rt_asc r" am a length] by (simp add: waiting_def)

lemma rtkit_recv_waiting: "rtkit_recv P r = (Inr (Some m), r') \<Longrightarrow> waiting r = Suc (waiting r')"
  using rtkit_recv_incoming [of P r "Inr (Some m)" r'] asc_recv_waiting waiting_incoming by fastforce

lemma waiting_pending [simp]: "waiting (r\<lparr>pending_messages := ms\<rparr>) = waiting r"
  by (simp add: waiting_def)

function recv_endpoint_loop :: "'d platform \<Rightarrow> u8 \<Rightarrow> ('d, rtkit_message option) rtkit_op" where
  "recv_endpoint_loop P e r =
     (case rtkit_recv P r of
        (Inl x, r') \<Rightarrow> (Inl x, r')
      | (Inr None, r') \<Rightarrow> (Inr None, r')
      | (Inr (Some m), r') \<Rightarrow>
          if ep m = e then (Inr (Some m), r')
          else recv_endpoint_loop P e (r'\<lparr>pending_messages := pending_messages r' @ [m]\<rparr>))"
  by pat_completeness auto
termination
  by (relation "measure (\<lambda>(P, e, r). waiting r)") (auto dest!: rtkit_recv_waiting [OF sym])

declare recv_endpoint_loop.simps [simp del]

definition recv_endpoint :: "'d platform \<Rightarrow> u8 \<Rightarrow> ('d, rtkit_message option) rtkit_op" where
  "recv_endpoint P e r =
     (case take_pending e (pending_messages r) of
        Some (m, rest) \<Rightarrow> (Inr (Some m), r\<lparr>pending_messages := rest\<rparr>)
      | None \<Rightarrow> recv_endpoint_loop P e r)"

type_synonym ('d, 'a) rtkit_round =
  "('d rtkit, (rtkit_error + 'a) \<times> 'd rtkit) loop_step option"

definition endpoint_timeout_step ::
  "'d platform \<Rightarrow> waiter option \<Rightarrow> u8 \<Rightarrow> nat \<Rightarrow> nat \<Rightarrow> 'd rtkit \<Rightarrow> ('d, rtkit_message) rtkit_round" where
  "endpoint_timeout_step P task e start timeout_us r =
     (let elapsed = now (rt_asc r) - start in
      if elapsed \<ge> timeout_us then Some (Done (Inl EndpointRecvTimeout, r))
      else case recv_timeout task (timeout_us - elapsed) (rt_asc r) of
             None \<Rightarrow> None
           | Some (Inl x, a) \<Rightarrow> Some (Done (Inl (AscError x), r\<lparr>rt_asc := a\<rparr>))
           | Some (Inr am, a) \<Rightarrow>
               Some (case handle_internal_message P (rtkit_message_of am) (r\<lparr>rt_asc := a\<rparr>) of
                  (Inl x, r') \<Rightarrow> Done (Inl x, r')
                | (Inr internal, r') \<Rightarrow>
                    if internal then Again r'
                    else if ep (rtkit_message_of am) = e then Done (Inr (rtkit_message_of am), r')
                    else Again (r'\<lparr>pending_messages := pending_messages r' @ [rtkit_message_of am]\<rparr>)))"

definition recv_endpoint_timeout ::
  "'d platform \<Rightarrow> waiter option \<Rightarrow> u8 \<Rightarrow> nat \<Rightarrow> ('d rtkit, rtkit_error, rtkit_message) may_step" where
  "recv_endpoint_timeout P task e timeout_us r =
     (case take_pending e (pending_messages r) of
        Some (m, rest) \<Rightarrow> Some (Inr m, r\<lparr>pending_messages := rest\<rparr>)
      | None \<Rightarrow> loop (endpoint_timeout_step P task e (now (rt_asc r)) timeout_us) r)"

section \<open>The boot handshake\<close>

definition wait_any_step ::
  "'d platform \<Rightarrow> waiter option \<Rightarrow> nat \<Rightarrow> nat \<Rightarrow> 'd rtkit \<Rightarrow> ('d, u64) rtkit_round" where
  "wait_any_step P task start timeout_us r =
     (let elapsed = now (rt_asc r) - start in
      if elapsed \<ge> timeout_us then Some (Done (Inl MgmtTimeout, r))
      else case recv_timeout task (timeout_us - elapsed) (rt_asc r) of
             None \<Rightarrow> None
           | Some (Inl x, a) \<Rightarrow> Some (Done (Inl (AscError x), r\<lparr>rt_asc := a\<rparr>))
           | Some (Inr am, a) \<Rightarrow>
               if ep (rtkit_message_of am) = RTKIT_EP_MGMT
               then Some (Done (try_bind (handle_mgmt_message (msg0 am)) (\<lambda>_. ok (msg0 am)) (r\<lparr>rt_asc := a\<rparr>)))
               else Some (case handle_internal_message P (rtkit_message_of am) (r\<lparr>rt_asc := a\<rparr>) of
                       (Inl x, r') \<Rightarrow> Done (Inl x, r')
                     | (Inr _, r') \<Rightarrow> Again r'))"

definition wait_any_mgmt_msg ::
  "'d platform \<Rightarrow> waiter option \<Rightarrow> nat \<Rightarrow> ('d rtkit, rtkit_error, u64) may_step" where
  "wait_any_mgmt_msg P task timeout_us r = loop (wait_any_step P task (now (rt_asc r)) timeout_us) r"

definition wait_mgmt_step ::
  "'d platform \<Rightarrow> waiter option \<Rightarrow> u64 \<Rightarrow> nat \<Rightarrow> nat \<Rightarrow> 'd rtkit \<Rightarrow> ('d, u64) rtkit_round" where
  "wait_mgmt_step P task expected_type start timeout_us r =
     (let elapsed = now (rt_asc r) - start in
      if elapsed \<ge> timeout_us then Some (Done (Inl MgmtTimeout, r))
      else case wait_any_mgmt_msg P task (timeout_us - elapsed) r of
             None \<Rightarrow> None
           | Some (Inl x, r') \<Rightarrow> Some (Done (Inl x, r'))
           | Some (Inr raw, r') \<Rightarrow>
               Some (if field_get raw MGMT_TYPE = expected_type then Done (Inr raw, r') else Again r'))"

definition wait_mgmt_msg ::
  "'d platform \<Rightarrow> waiter option \<Rightarrow> u64 \<Rightarrow> nat \<Rightarrow> ('d rtkit, rtkit_error, u64) may_step" where
  "wait_mgmt_msg P task expected_type timeout_us r =
     loop (wait_mgmt_step P task expected_type (now (rt_asc r)) timeout_us) r"

definition handle_hello :: "u64 \<Rightarrow> ('d, unit) rtkit_op" where
  "handle_hello hello_msg r =
     (let minver = ucast (field_get hello_msg MGMT_MSG_HELLO_MINVER) :: u32;
          maxver = ucast (field_get hello_msg MGMT_MSG_HELLO_MAXVER) :: u32;
          negotiated = min maxver RTKIT_MAX_VERSION
      in if negotiated < RTKIT_MIN_VERSION \<or> negotiated < minver then (Inl UnsupportedVersion, r)
         else rtkit_send \<lparr>ep = RTKIT_EP_MGMT,
                msg = mgmt_msg MGMT_MSG_HELLO_ACK
                        (field_prep MGMT_MSG_HELLO_MINVER (ucast negotiated) OR
                         field_prep MGMT_MSG_HELLO_MAXVER (ucast negotiated))\<rparr> r)"

text \<open>One endpoint map message: its page of the bitmap is merged and it is answered.\<close>

definition epmap_done :: "u64 \<Rightarrow> bool" where
  "epmap_done raw = (raw AND MGMT_MSG_EPMAP_DONE \<noteq> 0)"

definition merge_epmap :: "u64 \<Rightarrow> 'd rtkit \<Rightarrow> 'd rtkit" where
  "merge_epmap raw r =
     (let base = ucast (field_get raw MGMT_MSG_EPMAP_BASE) :: u32;
          shift = min (unat base * 32) (2 ^ 32 - 1)
      in if shift < 64
         then r\<lparr>ep_bitmap := ep_bitmap r OR push_bit shift (field_get raw MGMT_MSG_EPMAP_BITMAP)\<rparr>
         else r)"

definition reply_epmap :: "u64 \<Rightarrow> ('d, unit) rtkit_op" where
  "reply_epmap raw =
     rtkit_send \<lparr>ep = RTKIT_EP_MGMT,
       msg = mgmt_msg MGMT_MSG_EPMAP
               (field_prep MGMT_MSG_EPMAP_BASE
                  (ucast (ucast (field_get raw MGMT_MSG_EPMAP_BASE) :: u32)) OR
                (if epmap_done raw then MGMT_MSG_EPMAP_REPLY_DONE else MGMT_MSG_EPMAP_REPLY_MORE))\<rparr>"

definition epmap_step :: "'d platform \<Rightarrow> waiter option \<Rightarrow> 'd rtkit \<Rightarrow> ('d, unit) rtkit_round" where
  "epmap_step P task r =
     (case wait_mgmt_msg P task MGMT_MSG_EPMAP RTKIT_BOOT_TIMEOUT_US r of
        None \<Rightarrow> None
      | Some (Inl x, r') \<Rightarrow> Some (Done (Inl x, r'))
      | Some (Inr raw, r') \<Rightarrow>
          Some (case reply_epmap raw (merge_epmap raw r') of
             (Inl x, r'') \<Rightarrow> Done (Inl x, r'')
           | (Inr _, r'') \<Rightarrow> if epmap_done raw then Done (Inr (), r'') else Again r''))"

definition handle_epmap_sequence ::
  "'d platform \<Rightarrow> waiter option \<Rightarrow> ('d rtkit, rtkit_error, unit) may_step" where
  "handle_epmap_sequence P task r = loop (epmap_step P task) r"

fun start_defaults :: "u8 list \<Rightarrow> ('d, unit) rtkit_op" where
  "start_defaults [] r = (Inr (), r)"
| "start_defaults (e # es) r =
     (if endpoint_supported e r then try_bind (start_ep e) (\<lambda>_. start_defaults es) r
      else start_defaults es r)"

fun start_requested ::
  "(u8 \<Rightarrow> ('d, unit) rtkit_op) \<Rightarrow> bool \<Rightarrow> u8 list \<Rightarrow> ('d, unit) rtkit_op" where
  "start_requested start require [] r = (Inr (), r)"
| "start_requested start require (e # es) r =
     (if endpoint_supported e r then try_bind (start e) (\<lambda>_. start_requested start require es) r
      else if require then (Inl RequestedEndpointUnavailable, r)
      else start_requested start require es r)"

definition iop_on_step :: "'d platform \<Rightarrow> waiter option \<Rightarrow> 'd rtkit \<Rightarrow> ('d, unit) rtkit_round" where
  "iop_on_step P task r =
     (case wait_any_mgmt_msg P task RTKIT_BOOT_TIMEOUT_US r of
        None \<Rightarrow> None
      | Some (Inl _, r') \<Rightarrow> Some (Done (Inl IopOnTimeout, r'))
      | Some (Inr raw, r') \<Rightarrow>
          Some (if field_get raw MGMT_TYPE = MGMT_MSG_IOP_PWR_STATE_ACK
          then let pwr = ucast (field_get raw MGMT_PWR_STATE) :: u32;
                   r'' = r'\<lparr>iop_power := pwr\<rparr>
               in if pwr = RTKIT_POWER_ON then Done (Inr (), r'') else Again r''
          else Again r'))"

definition wait_iop_on :: "'d platform \<Rightarrow> waiter option \<Rightarrow> ('d rtkit, rtkit_error, unit) may_step" where
  "wait_iop_on P task r = loop (iop_on_step P task) r"

definition power_message :: "u64 \<Rightarrow> u32 \<Rightarrow> rtkit_message" where
  "power_message ty state =
     \<lparr>ep = RTKIT_EP_MGMT, msg = mgmt_msg ty (field_prep MGMT_PWR_STATE (ucast state))\<rparr>"

definition boot_inner ::
  "'d platform \<Rightarrow> waiter option \<Rightarrow> u8 list \<Rightarrow> bool \<Rightarrow> bool \<Rightarrow> ('d rtkit, rtkit_error, unit) may_step" where
  "boot_inner P task endpoints require_endpoints start_cpu =
     may_bind (total_step (put_state (\<lambda>r. if start_cpu then r\<lparr>rt_asc := cpu_start (rt_asc r)\<rparr> else r)))
    (\<lambda>_. may_bind (total_step (rtkit_send (power_message MGMT_MSG_IOP_PWR_STATE RTKIT_POWER_INIT)))
    (\<lambda>_. may_bind (may_map_error (\<lambda>_. HelloTimeout)
                     (wait_mgmt_msg P task MGMT_MSG_HELLO RTKIT_BOOT_TIMEOUT_US))
    (\<lambda>hello. may_bind (total_step (handle_hello hello))
    (\<lambda>_. may_bind (may_map_error (\<lambda>_. EpmapFailed) (handle_epmap_sequence P task))
    (\<lambda>_. may_bind (total_step (start_defaults RTKIT_DEFAULT_ENDPOINTS))
    (\<lambda>_. may_bind (total_step (start_requested start_ep require_endpoints
                     [e \<leftarrow> endpoints. e < RTKIT_APP_ENDPOINT_START \<and> e \<notin> set RTKIT_DEFAULT_ENDPOINTS]))
    (\<lambda>_. may_bind (wait_iop_on P task)
    (\<lambda>_. may_bind (total_step (rtkit_send (power_message MGMT_MSG_AP_PWR_STATE RTKIT_POWER_ON)))
    (\<lambda>_. may_bind (total_step (put_state (\<lambda>r. r\<lparr>ap_power := RTKIT_POWER_ON\<rparr>)))
    (\<lambda>_. total_step (start_requested start_ep_raw require_endpoints
           [e \<leftarrow> endpoints. RTKIT_APP_ENDPOINT_START \<le> e])))))))))))"

definition rtkit_boot :: "'d platform \<Rightarrow> waiter option \<Rightarrow> ('d rtkit, rtkit_error, unit) may_step" where
  "rtkit_boot P task = boot_inner P task [] False True"

definition rtkit_wake :: "'d platform \<Rightarrow> waiter option \<Rightarrow> ('d rtkit, rtkit_error, unit) may_step" where
  "rtkit_wake P task = boot_inner P task [] False False"

definition boot_with_endpoints ::
  "'d platform \<Rightarrow> waiter option \<Rightarrow> u8 list \<Rightarrow> ('d rtkit, rtkit_error, unit) may_step" where
  "boot_with_endpoints P task endpoints = boot_inner P task endpoints True True"

definition wake_with_endpoints ::
  "'d platform \<Rightarrow> waiter option \<Rightarrow> u8 list \<Rightarrow> ('d rtkit, rtkit_error, unit) may_step" where
  "wake_with_endpoints P task endpoints = boot_inner P task endpoints True False"

section \<open>The remote processor and service interfaces\<close>

datatype remoteproc_state = Offline | Loading | Running | Suspended | Crashed

definition rtkit_state :: "'d rtkit \<Rightarrow> remoteproc_state" where
  "rtkit_state r =
     (if crashed r then Crashed
      else if iop_power r = RTKIT_POWER_ON \<and> ap_power r = RTKIT_POWER_ON then Running
      else if iop_power r = RTKIT_POWER_SLEEP \<or> ap_power r = RTKIT_POWER_SLEEP then Suspended
      else if iop_power r = RTKIT_POWER_INIT then Loading
      else Offline)"

definition rtkit_load :: "(nat \<times> nat) list \<Rightarrow> ('d rtkit, remoteproc_error, unit) stepper" where
  "rtkit_load regions = put_state (\<lambda>r. r\<lparr>firmware_regions := regions\<rparr>)"

definition remoteproc_boot ::
  "'d platform \<Rightarrow> waiter option \<Rightarrow> ('d rtkit, remoteproc_error, unit) may_step" where
  "remoteproc_boot P task = may_map_error (\<lambda>_. BootFailed) (rtkit_boot P task)"

definition rtkit_shutdown :: "('d rtkit, remoteproc_error, unit) stepper" where
  "rtkit_shutdown = put_state (\<lambda>r. r\<lparr>rt_asc := cpu_stop (rt_asc r),
     iop_power := RTKIT_POWER_OFF, ap_power := RTKIT_POWER_OFF\<rparr>)"

definition rtkit_suspend :: "('d rtkit, remoteproc_error, unit) stepper" where
  "rtkit_suspend = err NotSupported"

definition rtkit_resume :: "('d rtkit, remoteproc_error, unit) stepper" where
  "rtkit_resume = err NotSupported"

definition register_crash_handler :: "('d rtkit, remoteproc_error, unit) stepper" where
  "register_crash_handler = put_state (\<lambda>r. r\<lparr>crash_handler := Some []\<rparr>)"

text \<open>
  A service is one endpoint of the shared instance; it exists for every id that is an 8-bit
  endpoint number.
\<close>

definition get_service :: "u32 \<Rightarrow> u8 option" where
  "get_service i = (if unat i < 256 then Some (ucast i) else None)"

definition endpoint_name :: "u8 \<Rightarrow> string" where
  "endpoint_name e =
     (if e = RTKIT_EP_MGMT then ''rtkit-mgmt''
      else if e = RTKIT_EP_CRASHLOG then ''rtkit-crashlog''
      else if e = RTKIT_EP_SYSLOG then ''rtkit-syslog''
      else if e = RTKIT_EP_DEBUG then ''rtkit-debug''
      else if e = RTKIT_EP_IOREPORT then ''rtkit-ioreport''
      else if e = RTKIT_EP_OSLOG then ''rtkit-oslog''
      else ''rtkit-ep-unknown'')"

definition service_send :: "u8 \<Rightarrow> remoteproc_message \<Rightarrow> ('d rtkit, remoteproc_error, unit) stepper" where
  "service_send e m =
     (if rm_len m = 0 then err TransportError
      else map_error (\<lambda>_. TransportError) (rtkit_send \<lparr>ep = e, msg = rm_words m ! 0\<rparr>))"

definition service_try_recv ::
  "'d platform \<Rightarrow> u8 \<Rightarrow> ('d rtkit, remoteproc_error, u64 option) stepper" where
  "service_try_recv P e =
     try_bind (map_error (\<lambda>_. TransportError) (recv_endpoint P e)) (\<lambda>m. ok (map_option msg m))"

end
