(* ===== verification/RtkitBoot.thy ===== *)
theory RtkitBoot
  imports Rtkit
begin

text \<open>
  What the RTKit protocol guarantees: version negotiation, the boot handshake, crash
  reporting, shared buffers, and the delivery of messages to the endpoint they are for.
\<close>

section \<open>Message fields\<close>

lemma mgmt_masks [field_masks]:
  "MGMT_TYPE = push_bit 52 (mask 8)"
  "MGMT_PWR_STATE = push_bit 0 (mask 16)"
  "MGMT_MSG_HELLO_MINVER = push_bit 0 (mask 16)"
  "MGMT_MSG_HELLO_MAXVER = push_bit 16 (mask 16)"
  "MGMT_MSG_EPMAP_BASE = push_bit 32 (mask 3)"
  "MGMT_MSG_EPMAP_BITMAP = push_bit 0 (mask 32)"
  "MGMT_MSG_START_EP_IDX = push_bit 32 (mask 8)"
  "RTKIT_SYSLOG_TYPE = push_bit 52 (mask 8)"
  "MSG_BUFFER_REQUEST_SIZE = push_bit 44 (mask 8)"
  "MSG_BUFFER_REQUEST_IOVA = push_bit 0 (mask 42)"
  by (simp_all add: MGMT_TYPE_def MGMT_PWR_STATE_def MGMT_MSG_HELLO_MINVER_def
      MGMT_MSG_HELLO_MAXVER_def MGMT_MSG_EPMAP_BASE_def MGMT_MSG_EPMAP_BITMAP_def
      MGMT_MSG_START_EP_IDX_def RTKIT_SYSLOG_TYPE_def MSG_BUFFER_REQUEST_SIZE_def
      MSG_BUFFER_REQUEST_IOVA_def mask_eq_exp_minus_1)

section \<open>Version negotiation\<close>

text \<open>The versions that the driver and a HELLO message both support.\<close>

definition common_versions :: "u64 \<Rightarrow> u32 set" where
  "common_versions hello = {v. RTKIT_MIN_VERSION \<le> v \<and> v \<le> RTKIT_MAX_VERSION \<and>
     ucast (field_get hello MGMT_MSG_HELLO_MINVER) \<le> v \<and>
     v \<le> ucast (field_get hello MGMT_MSG_HELLO_MAXVER)}"

definition hello_ack :: "u32 \<Rightarrow> u64" where
  "hello_ack v = mgmt_msg MGMT_MSG_HELLO_ACK
     (field_prep MGMT_MSG_HELLO_MINVER (ucast v) OR field_prep MGMT_MSG_HELLO_MAXVER (ucast v))"

lemma hello_ack_fields:
  assumes "v \<le> RTKIT_MAX_VERSION"
  shows "field_get (hello_ack v) MGMT_TYPE = MGMT_MSG_HELLO_ACK"
    and "field_get (hello_ack v) MGMT_MSG_HELLO_MINVER = ucast v"
    and "field_get (hello_ack v) MGMT_MSG_HELLO_MAXVER = ucast v"
proof -
  have v: "v < 2 ^ 4"
    using assms by (simp add: word_le_nat_alt word_less_nat_alt)
  have small: "bit v i \<Longrightarrow> i < 4" for i
    using v by (rule small_word_bits)
  have two: "bit (2 :: u64) i \<longleftrightarrow> i = 1" for i
    using bit_push_bit_iff [of 1 "1 :: u64" i] by (auto simp: bit_1_iff)
  show "field_get (hello_ack v) MGMT_TYPE = MGMT_MSG_HELLO_ACK"
    unfolding field_masks hello_ack_def mgmt_msg_def
    by (rule bit_word_eqI) (auto simp: field_get_block field_prep_block bit_simps two dest: small)
  show "field_get (hello_ack v) MGMT_MSG_HELLO_MINVER = ucast v"
    unfolding field_masks hello_ack_def mgmt_msg_def
    by (rule bit_word_eqI) (auto simp: field_get_block field_prep_block bit_simps two dest: small)
  show "field_get (hello_ack v) MGMT_MSG_HELLO_MAXVER = ucast v"
    unfolding field_masks hello_ack_def mgmt_msg_def
    by (rule bit_word_eqI) (auto simp: field_get_block field_prep_block bit_simps two dest: small)
qed

lemma common_versions_greatest:
  fixes hello :: u64
  defines "v \<equiv> min (ucast (field_get hello MGMT_MSG_HELLO_MAXVER)) RTKIT_MAX_VERSION"
  shows "common_versions hello \<noteq> {} \<longleftrightarrow>
      RTKIT_MIN_VERSION \<le> v \<and> ucast (field_get hello MGMT_MSG_HELLO_MINVER) \<le> v"
    and "common_versions hello \<noteq> {} \<Longrightarrow> Max (common_versions hello) = v"
proof -
  have below: "w \<in> common_versions hello \<Longrightarrow> w \<le> v" for w
    by (simp add: common_versions_def v_def)
  show nonempty: "common_versions hello \<noteq> {} \<longleftrightarrow>
      RTKIT_MIN_VERSION \<le> v \<and> ucast (field_get hello MGMT_MSG_HELLO_MINVER) \<le> v"
  proof
    assume "common_versions hello \<noteq> {}"
    then obtain w where "w \<in> common_versions hello"
      by blast
    then show "RTKIT_MIN_VERSION \<le> v \<and> ucast (field_get hello MGMT_MSG_HELLO_MINVER) \<le> v"
      using below [of w] by (auto simp: common_versions_def)
  next
    assume "RTKIT_MIN_VERSION \<le> v \<and> ucast (field_get hello MGMT_MSG_HELLO_MINVER) \<le> v"
    then have "v \<in> common_versions hello"
      by (simp add: common_versions_def v_def)
    then show "common_versions hello \<noteq> {}"
      by blast
  qed
  assume "common_versions hello \<noteq> {}"
  then have "v \<in> common_versions hello"
    using nonempty by (simp add: common_versions_def v_def)
  then show "Max (common_versions hello) = v"
    using below by (intro Max_eqI) (auto simp: common_versions_def)
qed

text \<open>
  C36. The driver answers a HELLO with the greatest version that both sides support, as the
  minimum and the maximum of its acknowledgement, and rejects it, without sending anything,
  exactly when there is no common version.
\<close>

theorem hello_negotiates_greatest:
  "if common_versions hello = {} then handle_hello hello r = (Inl UnsupportedVersion, r)
   else \<exists>ack. handle_hello hello r = rtkit_send \<lparr>ep = RTKIT_EP_MGMT, msg = ack\<rparr> r \<and>
     field_get ack MGMT_TYPE = MGMT_MSG_HELLO_ACK \<and>
     field_get ack MGMT_MSG_HELLO_MINVER = ucast (Max (common_versions hello)) \<and>
     field_get ack MGMT_MSG_HELLO_MAXVER = ucast (Max (common_versions hello))"
proof (cases "common_versions hello = {}")
  case True
  let ?v = "min (ucast (field_get hello MGMT_MSG_HELLO_MAXVER)) RTKIT_MAX_VERSION :: u32"
  have "?v < RTKIT_MIN_VERSION \<or> ?v < ucast (field_get hello MGMT_MSG_HELLO_MINVER)"
    using True common_versions_greatest(1) [of hello] unfolding not_le [symmetric] by blast
  then show ?thesis
    using True unfolding handle_hello_def Let_def by (simp only: if_True if_P)
next
  case False
  let ?v = "min (ucast (field_get hello MGMT_MSG_HELLO_MAXVER)) RTKIT_MAX_VERSION :: u32"
  have "\<not> (?v < RTKIT_MIN_VERSION \<or> ?v < ucast (field_get hello MGMT_MSG_HELLO_MINVER))"
    using False common_versions_greatest(1) [of hello] unfolding not_le [symmetric] by blast
  then have "handle_hello hello r = rtkit_send \<lparr>ep = RTKIT_EP_MGMT, msg = hello_ack ?v\<rparr> r"
    unfolding handle_hello_def Let_def hello_ack_def by (simp only: if_False)
  then show ?thesis
    using False common_versions_greatest(2) [of hello] hello_ack_fields [of ?v] by auto
qed

section \<open>Crash reports\<close>

lemma find_buffer_add: "find_buffer e (add_buffer b r) =
    (case find_buffer e r of Some x \<Rightarrow> Some x | None \<Rightarrow> if sb_ep b = e then Some b else None)"
proof -
  have "find Q (xs @ [b]) = (case find Q xs of Some x \<Rightarrow> Some x | None \<Rightarrow> if Q b then Some b else None)"
    for Q xs
    by (induction xs) auto
  then show ?thesis
    by (simp add: find_buffer_def add_buffer_def)
qed

lemma find_buffer_update [simp]:
  "find_buffer e (r\<lparr>iop_power := x\<rparr>) = find_buffer e r"
  "find_buffer e (r\<lparr>ap_power := x\<rparr>) = find_buffer e r"
  "find_buffer e (r\<lparr>crashed := c\<rparr>) = find_buffer e r"
  "find_buffer e (r\<lparr>syslog_st := st\<rparr>) = find_buffer e r"
  "find_buffer e (r\<lparr>printed := p\<rparr>) = find_buffer e r"
  "find_buffer e (r\<lparr>kern := d\<rparr>) = find_buffer e r"
  "find_buffer e (r\<lparr>rt_asc := a\<rparr>) = find_buffer e r"
  by (simp_all add: find_buffer_def)

lemma send_fields:
  "rtkit_send m r = (res, r') \<Longrightarrow> \<exists>a. r' = r\<lparr>rt_asc := a\<rparr>"
  by (auto simp: rtkit_send_def split: prod.splits sum.splits)

lemma send_keeps: "(\<And>a r. I (r\<lparr>rt_asc := a\<rparr>) = I r) \<Longrightarrow> preserves I (rtkit_send m)"
  by rule (metis send_fields surjective_pairing)

interpretation keeps_crashed: handler_frame "\<lambda>r. crashed r = c" for c
  by unfold_locales (auto intro: send_keeps simp: add_buffer_def)

definition crash_report :: "rtkit_message \<Rightarrow> 'd rtkit \<Rightarrow> bool" where
  "crash_report m r \<longleftrightarrow> ep m = RTKIT_EP_CRASHLOG \<and>
     field_get (msg m) RTKIT_SYSLOG_TYPE = MSG_BUFFER_REQUEST \<and> find_buffer RTKIT_EP_CRASHLOG r \<noteq> None"

lemma dump_crashlog_crashed [simp]: "crashed (dump_crashlog P r) = crashed r"
  by (simp add: dump_crashlog_def Let_def split: option.splits)

text \<open>
  A second buffer request on the crash log endpoint is a crash: the call fails with the
  crash error, the processor is in the crashed state and not running. No other message
  changes the crash flag, whatever it leads to.
\<close>

theorem crash_detected:
  "case handle_internal_message P m r of (res, r') \<Rightarrow>
     (if crash_report m r
      then res = Inl CoprocessorCrashed \<and> rtkit_state r' = Crashed \<and> \<not> is_running r'
      else crashed r' = crashed r)"
proof (cases "ep m = RTKIT_EP_CRASHLOG")
  case True
  then have handle: "handle_internal_message P m r = handle_crashlog_message P m r"
    by (simp add: handle_internal_message_def)
  show ?thesis
  proof (cases "crash_report m r")
    case report: True
    then have "handle_crashlog_message P m r = (Inl CoprocessorCrashed, dump_crashlog P (r\<lparr>crashed := True\<rparr>))"
      by (simp add: handle_crashlog_message_def crash_report_def)
    with report show ?thesis
      by (simp add: handle rtkit_state_def is_running_def)
  next
    case no_report: False
    with True have "handle_crashlog_message P m r = handle_buffer_request P m r"
      by (auto simp: handle_crashlog_message_def crash_report_def)
    with no_report show ?thesis
      using keeps_crashed.inv_buffer_request [of "crashed r" P m]
      by (simp add: handle preserves_def split_def)
  qed
next
  case False
  have "preserves (\<lambda>r'. crashed r' = c) (if ep m = RTKIT_EP_CRASHLOG then ok b else handle_internal_message P m)"
    for c b
    unfolding handle_internal_message_def using False
    by (simp only: if_False) (intro preserves_intros keeps_crashed.inv_mgmt
        keeps_crashed.inv_syslog_message keeps_crashed.inv_ioreport keeps_crashed.inv_oslog)
  with False have "preserves (\<lambda>r'. crashed r' = crashed r) (handle_internal_message P m)"
    by simp
  with False show ?thesis
    by (simp add: crash_report_def preserves_def split_def)
qed

section \<open>Shared buffers\<close>

text \<open>There is at most one shared buffer for an endpoint.\<close>

definition buffers_distinct :: "'d rtkit \<Rightarrow> bool" where
  "buffers_distinct r \<longleftrightarrow> distinct (map sb_ep (syslog_buffers r))"

interpretation keeps_buffers: handler_invariant buffers_distinct
proof unfold_locales
  fix r :: "'d rtkit" and b :: syslog_buffer
  assume "buffers_distinct r" and "find_buffer (sb_ep b) r = None"
  then show "buffers_distinct (add_buffer b r)"
    by (auto simp: buffers_distinct_def add_buffer_def find_buffer_def find_None_iff)
qed (auto intro: send_keeps simp: buffers_distinct_def)

text \<open>A buffer, once there, is never replaced.\<close>

interpretation keeps_buffer: handler_invariant "\<lambda>r. find_buffer e r = Some b" for e b
  by unfold_locales (auto intro!: send_keeps simp: find_buffer_add)

lemma buffer_reply_fields:
  assumes "dva < 2 ^ 42" and "sz < 2 ^ 8"
  shows "field_get (buffer_reply sz dva) RTKIT_SYSLOG_TYPE = MSG_BUFFER_REQUEST"
    and "field_get (buffer_reply sz dva) MSG_BUFFER_REQUEST_SIZE = sz"
    and "field_get (buffer_reply sz dva) MSG_BUFFER_REQUEST_IOVA = dva"
proof -
  have dva: "bit dva i \<Longrightarrow> i < 42" and sz: "bit sz i \<Longrightarrow> i < 8" for i
    using assms by (auto intro: small_word_bits)
  show "field_get (buffer_reply sz dva) RTKIT_SYSLOG_TYPE = MSG_BUFFER_REQUEST"
    unfolding field_masks buffer_reply_def
    by (rule bit_word_eqI) (auto simp: field_get_block field_prep_block bit_simps dest: dva sz)
  show "field_get (buffer_reply sz dva) MSG_BUFFER_REQUEST_SIZE = sz"
    unfolding field_masks buffer_reply_def
    by (rule bit_word_eqI) (auto simp: field_get_block field_prep_block bit_simps dest: dva sz)
  show "field_get (buffer_reply sz dva) MSG_BUFFER_REQUEST_IOVA = dva"
    unfolding field_masks buffer_reply_def
    by (rule bit_word_eqI) (auto simp: field_get_block field_prep_block bit_simps dest: dva sz)
qed

definition sent :: "'d rtkit \<Rightarrow> (u64 \<times> u64) list" where
  "sent r = a2i_sent (rt_asc r)"

definition wire :: "rtkit_message \<Rightarrow> u64 \<times> u64" where
  "wire m = (msg m, ucast (ucast (ep m) :: u32))"

lemma send_Ok: "rtkit_send m r = (Inr x, r') \<Longrightarrow> sent r' = sent r @ [wire m]"
  by (auto simp: rtkit_send_def sent_def wire_def dest: asc_send_frame split: prod.splits sum.splits)

lemma allocate_buffer_Ok:
  assumes "allocate_buffer P e n r = (Inr dva, r')" and "find_buffer e r = None"
  shows "\<exists>b. find_buffer e r' = Some b \<and> sb_dva b = dva \<and> sent r' = sent r"
proof -
  obtain paddr d where alloc: "alloc_pages P (div_ceil n (page_size P))
      (div_ceil (dma_alignment P) (page_size P)) (kern r) = (Some paddr, d)"
    using assms(1) by (auto simp: allocate_buffer_def Let_def split: prod.splits option.splits)
  let ?r = "r\<lparr>kern := zero_bytes P paddr n d\<rparr>"
  obtain r1 where dma: "map_dma P paddr n ?r = (Inr dva, r1)"
    and r': "r' = add_buffer \<lparr>sb_ep = e, sb_paddr = paddr, sb_dva = dva,
      sb_pages = div_ceil n (page_size P)\<rparr> r1"
    using assms(1) alloc
    by (auto simp: allocate_buffer_def elim!: try_bind_InrE)
  have "find_buffer e r1 = None \<and> sent r1 = sent r"
    using dma assms(2) by (auto simp: map_dma_def sent_def split: option.splits prod.splits)
  then show ?thesis
    by (simp add: r' find_buffer_add sent_def) (simp add: add_buffer_def)
qed

text \<open>
  A buffer request of the firmware that is answered is answered with one message on its
  own endpoint that echoes the requested size and carries the device address of the buffer
  registered for that endpoint; there is one buffer for each endpoint, and a buffer that was
  registered before is never replaced. The device address has to fit the 42 bits of its field.
\<close>

theorem buffer_request_answered:
  assumes "handle_buffer_request P m r = (Inr True, r')"
    and "field_get (msg m) MSG_BUFFER_REQUEST_IOVA = 0"
    and "buffers_distinct r"
    and "\<And>b. find_buffer (ep m) r' = Some b \<Longrightarrow> sb_dva b < 2 ^ 42"
  shows "\<exists>b reply. find_buffer (ep m) r' = Some b \<and>
    sent r' = sent r @ [wire \<lparr>ep = ep m, msg = reply\<rparr>] \<and>
    field_get reply RTKIT_SYSLOG_TYPE = MSG_BUFFER_REQUEST \<and>
    field_get reply MSG_BUFFER_REQUEST_SIZE = field_get (msg m) MSG_BUFFER_REQUEST_SIZE \<and>
    field_get reply MSG_BUFFER_REQUEST_IOVA = sb_dva b \<and>
    buffers_distinct r' \<and>
    (\<forall>e b0. find_buffer e r = Some b0 \<longrightarrow> find_buffer e r' = Some b0)"
proof -
  let ?sz = "field_get (msg m) MSG_BUFFER_REQUEST_SIZE"
  obtain dva r1 where
    buffer: "\<exists>b. find_buffer (ep m) r1 = Some b \<and> sb_dva b = dva \<and> sent r1 = sent r" and
    send: "rtkit_send \<lparr>ep = ep m, msg = buffer_reply ?sz dva\<rparr> r1 = (Inr (), r')"
  proof (cases "find_buffer (ep m) r")
    case None
    then obtain dva r1 where "allocate_buffer P (ep m) (unat (push_bit 12 ?sz)) r = (Inr dva, r1)"
      "rtkit_send \<lparr>ep = ep m, msg = buffer_reply ?sz dva\<rparr> r1 = (Inr (), r')"
      using assms(1,2)
      by (auto simp: handle_buffer_request_def Let_def split: if_splits elim!: try_bind_InrE)
    with None show ?thesis
      using allocate_buffer_Ok that by blast
  next
    case (Some b)
    then have "rtkit_send \<lparr>ep = ep m, msg = buffer_reply ?sz (sb_dva b)\<rparr> r = (Inr (), r')"
      using assms(1,2)
      by (auto simp: handle_buffer_request_def Let_def split: if_splits elim!: try_bind_InrE)
    with Some show ?thesis
      using that by blast
  qed
  from buffer obtain b where b: "find_buffer (ep m) r1 = Some b" "sb_dva b = dva" "sent r1 = sent r"
    by blast
  with send have b': "find_buffer (ep m) r' = Some b"
    using send_fields by fastforce
  have "?sz < 2 ^ 8"
    unfolding field_masks
    using take_bit_word_self_iff [of 8 "take_bit 8 (drop_bit 44 (msg m))"] by (simp add: field_get_block)
  then have ok: "field_get (buffer_reply ?sz dva) RTKIT_SYSLOG_TYPE = MSG_BUFFER_REQUEST"
    "field_get (buffer_reply ?sz dva) MSG_BUFFER_REQUEST_SIZE = ?sz"
    "field_get (buffer_reply ?sz dva) MSG_BUFFER_REQUEST_IOVA = dva"
    using buffer_reply_fields [of dva ?sz] assms(4) [OF b'] b(2) by auto
  moreover have "buffers_distinct r'"
    using keeps_buffers.inv_buffer_request assms(3,1) by (rule preservesD)
  moreover have "find_buffer e r = Some b0 \<longrightarrow> find_buffer e r' = Some b0" for e b0
    using preservesD [OF keeps_buffer.inv_buffer_request _ assms(1)] by blast
  ultimately show ?thesis
    using b b' send_Ok [OF send] by auto
qed

section \<open>Delivery of application messages\<close>

text \<open>The messages that a client of an endpoint has still to receive, oldest first.\<close>

definition undelivered :: "u8 \<Rightarrow> 'd rtkit \<Rightarrow> rtkit_message list" where
  "undelivered e r = [m \<leftarrow> pending_messages r @
     map rtkit_message_of (asc_pending (rt_asc r) @ map message_of (i2a_fifo (rt_asc r))). ep m = e]"

definition app_endpoint :: "u8 \<Rightarrow> bool" where
  "app_endpoint e \<longleftrightarrow> e \<notin> {RTKIT_EP_MGMT, RTKIT_EP_CRASHLOG, RTKIT_EP_SYSLOG, RTKIT_EP_IOREPORT, RTKIT_EP_OSLOG}"

lemma undelivered_incoming: "incoming r' = incoming r \<Longrightarrow> undelivered e r' = undelivered e r"
  by (simp add: incoming_def undelivered_def)

lemma take_pending_Some:
  "take_pending e ms = Some (m, rest) \<Longrightarrow>
     ep m = e \<and> [x \<leftarrow> ms. ep x = e] = m # [x \<leftarrow> rest. ep x = e] \<and>
     (\<forall>e'. e' \<noteq> e \<longrightarrow> [x \<leftarrow> rest. ep x = e'] = [x \<leftarrow> ms. ep x = e'])"
  by (induction ms arbitrary: rest) (auto split: if_splits)

lemma take_pending_None: "take_pending e ms = None \<longleftrightarrow> [x \<leftarrow> ms. ep x = e] = []"
  by (induction ms) auto

lemma app_not_internal:
  "app_endpoint (ep m) \<Longrightarrow> handle_internal_message P m r = (Inr False, r)"
  by (simp add: app_endpoint_def handle_internal_message_def)

lemma asc_recv_undelivered:
  assumes "asc_recv (rt_asc r) = (Inr am, a)" and "incoming r' = incoming (r\<lparr>rt_asc := a\<rparr>)"
  shows "pending_messages r' = pending_messages r"
    and "undelivered e r =
      undelivered e (r'\<lparr>pending_messages := pending_messages r' @ [rtkit_message_of am]\<rparr>)"
    and "ep (rtkit_message_of am) \<noteq> e \<Longrightarrow> undelivered e r' = undelivered e r"
  using asc_recv_messages [OF assms(1)] assms(2)
  by (auto simp: undelivered_def incoming_def)

lemma rtkit_recv_undelivered:
  assumes "rtkit_recv P r = (res, r')"
  shows "pending_messages r' = pending_messages r"
    and "res = Inr (Some m) \<Longrightarrow>
      undelivered e r = undelivered e (r'\<lparr>pending_messages := pending_messages r' @ [m]\<rparr>)"
    and "\<forall>m. res \<noteq> Inr (Some m) \<Longrightarrow> app_endpoint e \<Longrightarrow> undelivered e r' = undelivered e r"
proof -
  consider "incoming r' = incoming r" "res = Inr None"
    | am a r1 where "asc_recv (rt_asc r) = (Inr am, a)" "incoming r' = incoming (r\<lparr>rt_asc := a\<rparr>)"
      "handle_internal_message P (rtkit_message_of am) (r\<lparr>rt_asc := a\<rparr>) = (r1, r')"
      "res = map_sum id (\<lambda>internal. if internal then None else Some (rtkit_message_of am)) r1"
    using rtkit_recv_incoming [OF assms] by blast
  then have "pending_messages r' = pending_messages r \<and>
    (res = Inr (Some m) \<longrightarrow>
      undelivered e r = undelivered e (r'\<lparr>pending_messages := pending_messages r' @ [m]\<rparr>)) \<and>
    ((\<forall>m. res \<noteq> Inr (Some m)) \<longrightarrow> app_endpoint e \<longrightarrow> undelivered e r' = undelivered e r)"
  proof cases
    case 1
    then show ?thesis
      using undelivered_incoming [of r' r e] by (simp add: incoming_def)
  next
    case 2
    have m: "m = rtkit_message_of am" if "res = Inr (Some m)"
      using that 2(4) by (cases r1) (auto split: if_splits)
    have "ep (rtkit_message_of am) \<noteq> e" if "\<forall>m. res \<noteq> Inr (Some m)" "app_endpoint e"
    proof
      assume "ep (rtkit_message_of am) = e"
      then have "r1 = Inr False"
        using app_not_internal [of "rtkit_message_of am" P "r\<lparr>rt_asc := a\<rparr>"] that(2) 2(3) by simp
      with that(1) 2(4) show False
        by simp
    qed
    with m show ?thesis
      using asc_recv_undelivered [OF 2(1,2)] by blast
  qed
  then show "pending_messages r' = pending_messages r"
    and "res = Inr (Some m) \<Longrightarrow>
      undelivered e r = undelivered e (r'\<lparr>pending_messages := pending_messages r' @ [m]\<rparr>)"
    and "\<forall>m. res \<noteq> Inr (Some m) \<Longrightarrow> app_endpoint e \<Longrightarrow> undelivered e r' = undelivered e r"
    by blast+
qed

definition delivers :: "u8 \<Rightarrow> 'd rtkit \<Rightarrow> rtkit_message option \<Rightarrow> 'd rtkit \<Rightarrow> bool" where
  "delivers e r got r' \<longleftrightarrow>
     undelivered e r = (case got of None \<Rightarrow> [] | Some m \<Rightarrow> [m]) @ undelivered e r' \<and>
     (\<forall>e'. app_endpoint e' \<and> e' \<noteq> e \<longrightarrow> undelivered e' r' = undelivered e' r)"

lemma recv_endpoint_loop_delivers:
  assumes "recv_endpoint_loop P e r = (res, r')" and "app_endpoint e"
    and "[m \<leftarrow> pending_messages r. ep m = e] = []"
  shows "delivers e r (case res of Inr got \<Rightarrow> got | Inl _ \<Rightarrow> None) r'"
  using assms
proof (induction P e r arbitrary: res r' rule: recv_endpoint_loop.induct)
  case (1 P e r)
  obtain q r1 where recv: "rtkit_recv P r = (q, r1)"
    by fastforce
  note step = rtkit_recv_undelivered [OF recv]
  show ?case
  proof (cases "\<exists>m. q = Inr (Some m)")
    case False
    then have "(res, r') = (q, r1)"
      using 1(2) recv by (cases q) (auto simp: recv_endpoint_loop.simps [of P e r] split: option.splits)
    with False step(3) 1(3) show ?thesis
      by (cases q) (auto simp: delivers_def split: option.splits)
  next
    case True
    then obtain m where m: "q = Inr (Some m)" by blast
    let ?r2 = "r1\<lparr>pending_messages := pending_messages r1 @ [m]\<rparr>"
    have same: "undelivered x ?r2 = undelivered x r" for x
      using step(2) [OF m] by simp
    show ?thesis
    proof (cases "ep m = e")
      case True
      then have "res = Inr (Some m)" "r' = r1"
        using 1(2) recv m by (subst (asm) recv_endpoint_loop.simps; simp)+
      moreover have "undelivered e ?r2 = m # undelivered e r1"
        using True 1(4) step(1) by (simp add: undelivered_def)
      moreover have "undelivered x ?r2 = undelivered x r1" if "x \<noteq> e" for x
        using True that by (auto simp: undelivered_def)
      ultimately show ?thesis
        using same by (simp add: delivers_def)
    next
      case False
      then have "recv_endpoint_loop P e ?r2 = (res, r')"
        using 1(2) recv m by (subst (asm) recv_endpoint_loop.simps) simp
      then have "delivers e ?r2 (case res of Inr got \<Rightarrow> got | Inl _ \<Rightarrow> None) r'"
        using 1(1) [OF recv [symmetric] m refl] False 1(3,4) step(1) by auto
      then show ?thesis
        using same by (simp add: delivers_def)
    qed
  qed
qed

text \<open>
  C4. Application messages reach the client of their endpoint exactly once and in order:
  whatever a call to \<open>recv_endpoint\<close> returns, a message, no message or an error, the messages
  still to be delivered to its endpoint are those from before without the one returned, and
  those of every other application endpoint are unchanged.
\<close>

theorem recv_endpoint_in_order:
  assumes "app_endpoint e"
  shows "case recv_endpoint P e r of
      (Inr (Some m), r') \<Rightarrow> undelivered e r = m # undelivered e r' \<and>
        (\<forall>e'. app_endpoint e' \<and> e' \<noteq> e \<longrightarrow> undelivered e' r' = undelivered e' r)
    | (_, r') \<Rightarrow> \<forall>e'. app_endpoint e' \<longrightarrow> undelivered e' r' = undelivered e' r"
proof (cases "take_pending e (pending_messages r)")
  case None
  obtain res r' where loop: "recv_endpoint_loop P e r = (res, r')"
    by fastforce
  then have "delivers e r (case res of Inr got \<Rightarrow> got | Inl _ \<Rightarrow> None) r'"
    using assms None by (intro recv_endpoint_loop_delivers) (simp_all add: take_pending_None)
  with None loop show ?thesis
    by (auto simp: recv_endpoint_def delivers_def split: sum.splits option.splits)
next
  case (Some p)
  then obtain m rest where p: "take_pending e (pending_messages r) = Some (m, rest)"
    by (cases p) auto
  with take_pending_Some [OF p] show ?thesis
    by (simp add: recv_endpoint_def undelivered_def)
qed

subsection \<open>Time\<close>

lemma asc_recv_now: "asc_recv s = (r, s') \<Longrightarrow> now s' = now s"
  by (auto simp: asc_recv_def recv_hardware_unlocked_def split: list.splits if_splits)

lemma send_now: "rtkit_send m r = (x, r') \<Longrightarrow> now (rt_asc r) \<le> now (rt_asc r')"
  by (auto simp: rtkit_send_def dest: asc_send_incoming split: prod.splits sum.splits)

interpretation keeps_time: handler_invariant "\<lambda>r. t \<le> now (rt_asc r)" for t
proof unfold_locales
  fix m :: rtkit_message
  show "preserves (\<lambda>r :: 'd rtkit. t \<le> now (rt_asc r)) (rtkit_send m)"
  proof
    fix r :: "'d rtkit"
    assume "t \<le> now (rt_asc r)"
    then show "t \<le> now (rt_asc (snd (rtkit_send m r)))"
      using send_now [of m r] by (cases "rtkit_send m r") fastforce
  qed
qed (simp_all add: add_buffer_def)

lemma rtkit_recv_time: "rtkit_recv P r = (x, r') \<Longrightarrow> now (rt_asc r) \<le> now (rt_asc r')"
proof (cases "can_recv (rt_asc r)")
  case True
  assume recv: "rtkit_recv P r = (x, r')"
  from True obtain am a where am: "asc_recv (rt_asc r) = (Inr am, a)"
    using asc_recv_Inr_iff by blast
  obtain h r1 where h: "handle_internal_message P (rtkit_message_of am) (r\<lparr>rt_asc := a\<rparr>) = (h, r1)"
    by fastforce
  have "now (rt_asc r) \<le> now (rt_asc r1)"
    using preservesD [OF keeps_time.inv_internal _ h] asc_recv_now [OF am] by simp
  with recv True am h show ?thesis
    by (cases h) (auto simp: rtkit_recv_def try_bind_def Let_def)
qed (simp add: rtkit_recv_def)

section \<open>The boot handshake\<close>

text \<open>
  What holds across the wait loops: a property that the handlers keep and that receiving from
  the mailbox keeps holds after every wait that ends well.
\<close>

locale wait_invariant = handler_frame I for I :: "'d rtkit \<Rightarrow> bool" +
  fixes task :: "waiter option"
  assumes inv_recv: "recv_timeout task n (rt_asc r) = Some (q, a) \<Longrightarrow> I r \<Longrightarrow> I (r\<lparr>rt_asc := a\<rparr>)"
begin

lemma inv_wait_any:
  assumes "wait_any_mgmt_msg P task n r = Some (Inr raw, r')" and "I r"
  shows "I r'"
proof -
  let ?Q = "\<lambda>(q, u). \<forall>raw. q = Inr raw \<longrightarrow> I u"
  have "?Q (Inr raw :: rtkit_error + u64, r')"
    using assms(1) [unfolded wait_any_mgmt_msg_def] assms(2)
  proof (rule loop_rule [where I = I and Q = ?Q])
    fix s s'
    assume "I s" "wait_any_step P task (now (rt_asc r)) n s = Some (Again s')"
    then show "I s'"
      by (auto simp: wait_any_step_def Let_def dest: inv_recv inv_internal_Ok
          split: if_splits option.splits prod.splits sum.splits)
  next
    fix s q
    assume s: "I s" and step: "wait_any_step P task (now (rt_asc r)) n s = Some (Done q)"
    show "?Q q"
    proof (cases q)
      case (Pair x u)
      have "preserves I (try_bind (handle_mgmt_message v) (\<lambda>_. ok v))" for v
        by (intro preserves_intros inv_mgmt)
      with s step Pair show ?thesis
        by (auto simp: wait_any_step_def Let_def dest!: inv_recv dest: preservesD
            split: if_splits option.splits prod.splits sum.splits)
    qed
  qed
  then show ?thesis by simp
qed

lemma inv_wait_mgmt:
  assumes "wait_mgmt_msg P task ty n r = Some (Inr raw, r')" and "I r"
  shows "I r' \<and> field_get raw MGMT_TYPE = ty"
proof -
  let ?Q = "\<lambda>(q, u). \<forall>raw. q = Inr raw \<longrightarrow> I u \<and> field_get raw MGMT_TYPE = ty"
  have "?Q (Inr raw :: rtkit_error + u64, r')"
    using assms(1) [unfolded wait_mgmt_msg_def] assms(2)
    by (rule loop_rule [where I = I and Q = ?Q])
      (auto simp: wait_mgmt_step_def Let_def dest: inv_wait_any
        split: if_splits option.splits prod.splits sum.splits)
  then show ?thesis by simp
qed

lemma inv_epmap:
  assumes "handle_epmap_sequence P task r = Some (Inr x, r')" and "I r"
    and merge: "\<And>raw r. I r \<Longrightarrow> I (merge_epmap raw r)"
  shows "I r'"
proof -
  have reply: "I r2" if "reply_epmap raw r1 = (q, r2)" "I r1" for raw r1 q r2
    using that unfolding reply_epmap_def by (blast intro: preservesD [OF inv_send])
  let ?Q = "\<lambda>(q, u). \<forall>x. q = Inr x \<longrightarrow> I u"
  have "?Q (Inr x :: rtkit_error + unit, r')"
    using assms(1) [unfolded handle_epmap_sequence_def] assms(2)
    by (rule loop_rule [where I = I and Q = ?Q])
      (auto simp: epmap_step_def dest!: inv_wait_mgmt dest: reply [OF _ merge]
        split: if_splits option.splits prod.splits sum.splits)
  then show ?thesis by simp
qed

lemma inv_wait_iop_on:
  assumes "wait_iop_on P task r = Some (Inr x, r')" and "I r"
  shows "I r' \<and> iop_power r' = RTKIT_POWER_ON"
proof -
  let ?Q = "\<lambda>(q, u). \<forall>x. q = Inr x \<longrightarrow> I u \<and> iop_power u = RTKIT_POWER_ON"
  have "?Q (Inr x :: rtkit_error + unit, r')"
    using assms(1) [unfolded wait_iop_on_def] assms(2)
    by (rule loop_rule [where I = I and Q = ?Q])
      (auto simp: iop_on_step_def Let_def dest!: inv_wait_any intro: inv_power
        split: if_splits option.splits prod.splits sum.splits)
  then show ?thesis by simp
qed

end

interpretation keeps_status: wait_invariant "\<lambda>r. crashed r = c \<and> ep_bitmap r = b" task for c b task
  by unfold_locales (auto intro!: send_keeps simp: add_buffer_def)

interpretation keeps_crash_flag: wait_invariant "\<lambda>r. crashed r = c" task for c task
  by unfold_locales simp

text \<open>Starting endpoints only sends.\<close>

definition start_message :: "u8 \<Rightarrow> rtkit_message" where
  "start_message e = \<lparr>ep = RTKIT_EP_MGMT, msg = mgmt_msg MGMT_MSG_START_EP
     (field_prep MGMT_MSG_START_EP_IDX (ucast e) OR MGMT_MSG_START_EP_FLAG)\<rparr>"

lemma send_step:
  assumes "rtkit_send m r = (Inr x, r')"
  obtains a where "r' = r\<lparr>rt_asc := a\<rparr>" and "a2i_sent a = sent r @ [wire m]"
  using send_fields [OF assms] send_Ok [OF assms] that by (auto simp: sent_def)

lemma endpoint_supported_asc [simp]:
  "endpoint_supported e (r\<lparr>rt_asc := a\<rparr>) = endpoint_supported e r"
  by (simp add: endpoint_supported_def)

lemma endpoint_supported_power [simp]:
  "endpoint_supported e (r\<lparr>ap_power := x\<rparr>) = endpoint_supported e r"
  by (simp add: endpoint_supported_def)

lemma endpoint_supported_cong:
  "ep_bitmap r = ep_bitmap s \<Longrightarrow> endpoint_supported e r = endpoint_supported e s"
  by (simp add: endpoint_supported_def)

lemma start_ep_raw_send: "start_ep_raw e = rtkit_send (start_message e)"
  by (simp add: start_ep_raw_def start_message_def)

lemma start_defaults_Ok:
  assumes "start_defaults es r = (Inr x, r')"
  shows "\<exists>a. r' = r\<lparr>rt_asc := a\<rparr> \<and>
    a2i_sent a = sent r @ map (wire \<circ> start_message) (filter (\<lambda>e. endpoint_supported e r) es)"
  using assms
proof (induction es arbitrary: r)
  case Nil
  then show ?case
    by (auto intro!: exI [of _ "rt_asc r"] simp: sent_def)
next
  case (Cons e es)
  show ?case
  proof (cases "endpoint_supported e r")
    case True
    then obtain r1 where "rtkit_send (start_message e) r = (Inr (), r1)"
      and rest: "start_defaults es r1 = (Inr x, r')"
      using Cons.prems by (auto simp: start_ep_def start_ep_raw_send elim!: try_bind_InrE)
    then obtain a where a: "r1 = r\<lparr>rt_asc := a\<rparr>" "a2i_sent a = sent r @ [wire (start_message e)]"
      by (auto elim: send_step)
    with Cons.IH [OF rest] True show ?thesis
      by (auto simp: sent_def)
  next
    case False
    with Cons show ?thesis
      by simp
  qed
qed

lemma start_requested_Ok:
  assumes "start_requested start require es r = (Inr x, r')" and "start \<in> {start_ep, start_ep_raw}"
  shows "(\<exists>a. r' = r\<lparr>rt_asc := a\<rparr> \<and>
      a2i_sent a = sent r @ map (wire \<circ> start_message) (filter (\<lambda>e. endpoint_supported e r) es)) \<and>
    (require \<longrightarrow> (\<forall>e \<in> set es. endpoint_supported e r))"
  using assms(1)
proof (induction es arbitrary: r)
  case Nil
  then show ?case
    by (auto intro!: exI [of _ "rt_asc r"] simp: sent_def)
next
  case (Cons e es)
  show ?case
  proof (cases "endpoint_supported e r")
    case True
    then obtain r1 where "rtkit_send (start_message e) r = (Inr (), r1)"
      and rest: "start_requested start require es r1 = (Inr x, r')"
      using Cons.prems assms(2) by (auto simp: start_ep_def start_ep_raw_send elim!: try_bind_InrE)
    then obtain a where a: "r1 = r\<lparr>rt_asc := a\<rparr>" "a2i_sent a = sent r @ [wire (start_message e)]"
      by (auto elim: send_step)
    with Cons.IH [OF rest] True show ?thesis
      by (auto simp: sent_def)
  next
    case False
    with Cons show ?thesis
      by (auto split: if_splits)
  qed
qed

text \<open>The successive states of a boot that succeeds.\<close>

lemma boot_Ok_stages:
  assumes "boot_inner P task eps require cpu r = Some (Inr x, r')"
  obtains r1 hello r2 r3 r4 r5 r6 r7 r8 where
    "rtkit_send (power_message MGMT_MSG_IOP_PWR_STATE RTKIT_POWER_INIT)
       (if cpu then r\<lparr>rt_asc := cpu_start (rt_asc r)\<rparr> else r) = (Inr (), r1)"
    "wait_mgmt_msg P task MGMT_MSG_HELLO RTKIT_BOOT_TIMEOUT_US r1 = Some (Inr hello, r2)"
    "handle_hello hello r2 = (Inr (), r3)"
    "handle_epmap_sequence P task r3 = Some (Inr (), r4)"
    "start_defaults RTKIT_DEFAULT_ENDPOINTS r4 = (Inr (), r5)"
    "start_requested start_ep require
       [e \<leftarrow> eps. e < RTKIT_APP_ENDPOINT_START \<and> e \<notin> set RTKIT_DEFAULT_ENDPOINTS] r5 = (Inr (), r6)"
    "wait_iop_on P task r6 = Some (Inr (), r7)"
    "rtkit_send (power_message MGMT_MSG_AP_PWR_STATE RTKIT_POWER_ON) r7 = (Inr (), r8)"
    "start_requested start_ep_raw require [e \<leftarrow> eps. RTKIT_APP_ENDPOINT_START \<le> e]
       (r8\<lparr>ap_power := RTKIT_POWER_ON\<rparr>) = (Inr (), r')"
  using assms unfolding boot_inner_def
  by (elim may_bind_OkE) (simp add: that)

lemma hello_Ok:
  assumes "handle_hello hello r = (Inr x, r')"
  shows "\<exists>a v. r' = r\<lparr>rt_asc := a\<rparr> \<and> RTKIT_MIN_VERSION \<le> v \<and> v \<le> RTKIT_MAX_VERSION \<and>
    a2i_sent a = sent r @ [wire \<lparr>ep = RTKIT_EP_MGMT, msg = hello_ack v\<rparr>]"
proof -
  let ?v = "min (ucast (field_get hello MGMT_MSG_HELLO_MAXVER)) RTKIT_MAX_VERSION :: u32"
  have v: "\<not> ?v < RTKIT_MIN_VERSION" and send: "rtkit_send \<lparr>ep = RTKIT_EP_MGMT, msg = hello_ack ?v\<rparr> r = (Inr x, r')"
    using assms unfolding handle_hello_def Let_def hello_ack_def by (simp_all only: split: if_splits) auto
  obtain a where a: "r' = r\<lparr>rt_asc := a\<rparr>"
    "a2i_sent a = sent r @ [wire \<lparr>ep = RTKIT_EP_MGMT, msg = hello_ack ?v\<rparr>]"
    using send by (rule send_step)
  have "RTKIT_MIN_VERSION \<le> ?v" "?v \<le> RTKIT_MAX_VERSION"
    using v by (simp_all only: not_less min.cobounded2)
  with a show ?thesis by blast
qed

lemma merge_epmap_fields [simp]:
  "crashed (merge_epmap raw r) = crashed r"
  "sent (merge_epmap raw r) = sent r"
  by (simp_all add: merge_epmap_def sent_def Let_def)


text \<open>Messages only accumulate while the driver polls.\<close>

lemma send_extends:
  assumes "rtkit_send m r = (q, r')"
  shows "(\<exists>w. sent r' = sent r @ w) \<and> ep_bitmap r' = ep_bitmap r"
proof -
  have "sent r' = sent r \<or> sent r' = sent r @ [wire m]"
  proof (cases q)
    case (Inl e)
    then show ?thesis
      using assms by (auto simp: rtkit_send_def sent_def dest: asc_send_frame split: prod.splits sum.splits)
  next
    case (Inr x)
    then show ?thesis
      using send_Ok assms by blast
  qed
  with send_fields [OF assms] show ?thesis
    by auto
qed

lemma recv_extends:
  "recv_timeout None n (rt_asc r) = Some (q, a) \<Longrightarrow> sent (r\<lparr>rt_asc := a\<rparr>) = sent r"
  using recv_timeout_frame [of None "rt_asc r" n] by (auto simp: polls_def sent_def)

lemma sent_update [simp]:
  "sent (r\<lparr>iop_power := x\<rparr>) = sent r"
  "sent (r\<lparr>ap_power := x\<rparr>) = sent r"
  "sent (r\<lparr>syslog_st := st\<rparr>) = sent r"
  "sent (r\<lparr>printed := p\<rparr>) = sent r"
  "sent (r\<lparr>kern := d\<rparr>) = sent r"
  "sent (add_buffer b r) = sent r"
  by (simp_all add: sent_def add_buffer_def)

interpretation keeps_prefix: wait_invariant "\<lambda>r. \<exists>w. sent r = xs @ w" None for xs
proof unfold_locales
  fix m :: rtkit_message
  show "preserves (\<lambda>r :: 'd rtkit. \<exists>w. sent r = xs @ w) (rtkit_send m)"
  proof
    fix r :: "'d rtkit"
    assume "\<exists>w. sent r = xs @ w"
    then show "\<exists>w. sent (snd (rtkit_send m r)) = xs @ w"
      using send_extends [of m r] by (metis append.assoc surjective_pairing)
  qed
qed (auto simp: recv_extends)

interpretation keeps_bitmap: wait_invariant "\<lambda>r. ep_bitmap r = b" task for b task
  by unfold_locales (auto intro: send_keeps simp: add_buffer_def)

text \<open>
  The order of a boot that succeeds in early boot, as the coprocessor sees it: the
  request for the INIT power state; the acknowledgement of a supported version; then the
  start of every announced default endpoint followed by the requested system endpoints; then
  the AP power state; and only after it the requested application endpoints. Between these
  blocks there are only replies sent while waiting.
\<close>

theorem boot_transcript:
  assumes "boot_inner P None eps require cpu r = Some (Inr x, r')"
  shows "\<exists>v w1 w2 w3. RTKIT_MIN_VERSION \<le> v \<and> v \<le> RTKIT_MAX_VERSION \<and>
    sent r' = sent r @ [wire (power_message MGMT_MSG_IOP_PWR_STATE RTKIT_POWER_INIT)] @ w1 @
      [wire \<lparr>ep = RTKIT_EP_MGMT, msg = hello_ack v\<rparr>] @ w2 @
      map (wire \<circ> start_message) [e \<leftarrow> RTKIT_DEFAULT_ENDPOINTS. endpoint_supported e r'] @
      map (wire \<circ> start_message) [e \<leftarrow> eps. e < RTKIT_APP_ENDPOINT_START \<and>
         e \<notin> set RTKIT_DEFAULT_ENDPOINTS \<and> endpoint_supported e r'] @ w3 @
      [wire (power_message MGMT_MSG_AP_PWR_STATE RTKIT_POWER_ON)] @
      map (wire \<circ> start_message) [e \<leftarrow> eps. RTKIT_APP_ENDPOINT_START \<le> e \<and> endpoint_supported e r']"
proof -
  obtain r1 hello r2 r3 r4 r5 r6 r7 r8 where
    s1: "rtkit_send (power_message MGMT_MSG_IOP_PWR_STATE RTKIT_POWER_INIT)
       (if cpu then r\<lparr>rt_asc := cpu_start (rt_asc r)\<rparr> else r) = (Inr (), r1)" and
    s2: "wait_mgmt_msg P None MGMT_MSG_HELLO RTKIT_BOOT_TIMEOUT_US r1 = Some (Inr hello, r2)" and
    s3: "handle_hello hello r2 = (Inr (), r3)" and
    s4: "handle_epmap_sequence P None r3 = Some (Inr (), r4)" and
    s5: "start_defaults RTKIT_DEFAULT_ENDPOINTS r4 = (Inr (), r5)" and
    s6: "start_requested start_ep require
       [e \<leftarrow> eps. e < RTKIT_APP_ENDPOINT_START \<and> e \<notin> set RTKIT_DEFAULT_ENDPOINTS] r5 = (Inr (), r6)" and
    s7: "wait_iop_on P None r6 = Some (Inr (), r7)" and
    s8: "rtkit_send (power_message MGMT_MSG_AP_PWR_STATE RTKIT_POWER_ON) r7 = (Inr (), r8)" and
    s9: "start_requested start_ep_raw require [e \<leftarrow> eps. RTKIT_APP_ENDPOINT_START \<le> e]
       (r8\<lparr>ap_power := RTKIT_POWER_ON\<rparr>) = (Inr (), r')"
    using assms by (rule boot_Ok_stages)
  have t1: "sent r1 = sent r @ [wire (power_message MGMT_MSG_IOP_PWR_STATE RTKIT_POWER_INIT)]"
    using send_Ok [OF s1] by (auto simp: sent_def cpu_start_def)
  obtain w1 where t2: "sent r2 = sent r1 @ w1"
    using keeps_prefix.inv_wait_mgmt [OF s2, of "sent r1"] by auto
  obtain v a3 where v: "RTKIT_MIN_VERSION \<le> v" "v \<le> RTKIT_MAX_VERSION" and
    t3: "r3 = r2\<lparr>rt_asc := a3\<rparr>" "a2i_sent a3 = sent r2 @ [wire \<lparr>ep = RTKIT_EP_MGMT, msg = hello_ack v\<rparr>]"
    using hello_Ok [OF s3] by blast
  obtain w2 where t4: "sent r4 = sent r3 @ w2"
    using keeps_prefix.inv_epmap [OF s4, of "sent r3"] by auto
  obtain a5 where t5: "r5 = r4\<lparr>rt_asc := a5\<rparr>" "a2i_sent a5 = sent r4 @
      map (wire \<circ> start_message) [e \<leftarrow> RTKIT_DEFAULT_ENDPOINTS. endpoint_supported e r4]"
    using start_defaults_Ok [OF s5] by blast
  obtain a6 where t6: "r6 = r5\<lparr>rt_asc := a6\<rparr>" "a2i_sent a6 = sent r5 @
      map (wire \<circ> start_message) [e \<leftarrow> [e \<leftarrow> eps. e < RTKIT_APP_ENDPOINT_START \<and>
        e \<notin> set RTKIT_DEFAULT_ENDPOINTS]. endpoint_supported e r5]"
    using start_requested_Ok [OF s6] by blast
  have "(\<exists>w. sent r7 = sent r6 @ w) \<and> ep_bitmap r7 = ep_bitmap r4"
    using keeps_prefix.inv_wait_iop_on [OF s7, of "sent r6"]
      keeps_bitmap.inv_wait_iop_on [OF s7, of "ep_bitmap r4"] t5 t6 by auto
  then obtain w3 where t7: "sent r7 = sent r6 @ w3" "ep_bitmap r7 = ep_bitmap r4"
    by blast
  obtain a8 where t8: "r8 = r7\<lparr>rt_asc := a8\<rparr>"
      "a2i_sent a8 = sent r7 @ [wire (power_message MGMT_MSG_AP_PWR_STATE RTKIT_POWER_ON)]"
    using s8 by (rule send_step)
  obtain a9 where t9: "r' = r8\<lparr>ap_power := RTKIT_POWER_ON, rt_asc := a9\<rparr>" "a2i_sent a9 =
      sent (r8\<lparr>ap_power := RTKIT_POWER_ON\<rparr>) @ map (wire \<circ> start_message)
        [e \<leftarrow> [e \<leftarrow> eps. RTKIT_APP_ENDPOINT_START \<le> e]. endpoint_supported e (r8\<lparr>ap_power := RTKIT_POWER_ON\<rparr>)]"
    using start_requested_Ok [OF s9] by auto
  have bitmap: "ep_bitmap r' = ep_bitmap r4" "ep_bitmap r5 = ep_bitmap r4" "ep_bitmap r8 = ep_bitmap r4"
    using t5 t7 t8 t9 by simp_all
  have support: "endpoint_supported e r4 = endpoint_supported e r'"
    "endpoint_supported e r5 = endpoint_supported e r'"
    "endpoint_supported e r8 = endpoint_supported e r'" for e
    by (rule endpoint_supported_cong, simp add: bitmap)+
  have "sent r' = a2i_sent a9" "sent (r8\<lparr>ap_power := RTKIT_POWER_ON\<rparr>) = a2i_sent a8"
    "sent r6 = a2i_sent a6" "sent r5 = a2i_sent a5" "sent r3 = a2i_sent a3"
    using t3 t5 t6 t8 t9 by (simp_all add: sent_def)
  with v t1 t2 t3(2) t4 t5(2) t6(2) t7(1) t8(2) t9(2) show ?thesis
    by (intro exI [of _ v] exI [of _ w1] exI [of _ w2] exI [of _ w3])
      (simp add: support conj_assoc)
qed

subsection \<open>The handshake always returns\<close>

text \<open>Every round of a wait consumes a message, and the handlers never add one.\<close>

lemma recv_timeout_waiting:
  obtains q a where "recv_timeout None n (rt_asc r) = Some (q, a)"
    and "waiting r = (case q of Inr _ \<Rightarrow> Suc (waiting (r\<lparr>rt_asc := a\<rparr>)) | Inl _ \<Rightarrow> waiting (r\<lparr>rt_asc := a\<rparr>))"
  by (rule recv_timeout_frame [of None "rt_asc r" n])
    (auto simp: polls_def waiting_def split: sum.splits intro: that)

lemma internal_waiting:
  "handle_internal_message P m r = (q, r') \<Longrightarrow> waiting r' = waiting r"
  by (rule waiting_incoming) (rule preserves_eqD [OF keeps_incoming.inv_internal])

lemma mgmt_waiting: "waiting (snd (try_bind (handle_mgmt_message v) (\<lambda>_. ok v) r)) = waiting r"
proof (rule waiting_incoming)
  have "preserves (\<lambda>r. incoming r = q) (try_bind (handle_mgmt_message v) (\<lambda>_. ok v))" for q
    by (intro preserves_intros keeps_incoming.inv_mgmt)
  from this [of "incoming r"] show "incoming (snd (try_bind (handle_mgmt_message v) (\<lambda>_. ok v) r)) = incoming r"
    unfolding preserves_def by blast
qed

lemma send_waiting: "rtkit_send m r = (q, r') \<Longrightarrow> waiting r' = waiting r"
  by (rule waiting_incoming) (rule preserves_eqD [OF send_frame])

definition consumes :: "'d rtkit \<Rightarrow> rtkit_error + 'a \<Rightarrow> 'd rtkit \<Rightarrow> bool" where
  "consumes r x r' \<longleftrightarrow> isl x \<and> waiting r' \<le> waiting r \<or> waiting r' < waiting r"

definition round_consumes :: "('d rtkit \<Rightarrow> ('d, 'a) rtkit_round) \<Rightarrow> bool" where
  "round_consumes step \<longleftrightarrow> (\<forall>r. (\<exists>x r'. step r = Some (Done (x, r')) \<and> consumes r x r') \<or>
     (\<exists>r'. step r = Some (Again r') \<and> waiting r' < waiting r))"

lemma round_consumesI:
  assumes "\<And>r. (\<exists>x r'. step r = Some (Done (x, r')) \<and> consumes r x r') \<or>
     (\<exists>r'. step r = Some (Again r') \<and> waiting r' < waiting r)"
  shows "round_consumes step"
  unfolding round_consumes_def using assms by blast

lemma round_consumes_cases:
  assumes "round_consumes step"
  obtains x r' where "step r = Some (Done (x, r'))" and "consumes r x r'"
  | r' where "step r = Some (Again r')" and "waiting r' < waiting r"
  using assms unfolding round_consumes_def by blast

lemma loop_consumes:
  assumes "round_consumes step"
  shows "\<exists>x r'. loop step r = Some (x, r') \<and> consumes r x r'"
proof -
  have "\<exists>q. loop step r = Some q"
  proof (rule loop_returns [where I = "\<lambda>_. True" and m = waiting])
    fix s
    show "(\<exists>q. step s = Some (Done q)) \<or> (\<exists>s'. step s = Some (Again s') \<and> True \<and> waiting s' < waiting s)"
      using assms unfolding round_consumes_def by blast
  qed simp
  then obtain x r' where run: "loop step r = Some (x, r')"
    by auto
  have "consumes r (fst (x, r')) (snd (x, r'))"
    using run
  proof (rule loop_rule [where I = "\<lambda>s. waiting s \<le> waiting r"])
    fix s s'
    assume "waiting s \<le> waiting r" and "step s = Some (Again s')"
    moreover have "waiting s' < waiting s"
      using calculation(2) by (cases rule: round_consumes_cases [OF assms, of s]) auto
    ultimately show "waiting s' \<le> waiting r"
      by simp
  next
    fix s q
    assume "waiting s \<le> waiting r" and "step s = Some (Done q)"
    moreover have "consumes s (fst q) (snd q)"
      using calculation(2) by (cases rule: round_consumes_cases [OF assms, of s]) auto
    ultimately show "consumes r (fst q) (snd q)"
      by (auto simp: consumes_def)
  qed simp
  with run show ?thesis
    by simp
qed

lemma wait_any_consumes: "round_consumes (wait_any_step P None start n)"
proof (rule round_consumesI)
  fix r
  show "(\<exists>x r'. wait_any_step P None start n r = Some (Done (x, r')) \<and> consumes r x r') \<or>
     (\<exists>r'. wait_any_step P None start n r = Some (Again r') \<and> waiting r' < waiting r)"
  proof (cases "n \<le> now (rt_asc r) - start")
    case True
    then show ?thesis
      by (simp add: wait_any_step_def consumes_def)
  next
    case time: False
    obtain q a where recv: "recv_timeout None (n - (now (rt_asc r) - start)) (rt_asc r) = Some (q, a)"
      and w: "waiting r = (case q of Inr _ \<Rightarrow> Suc (waiting (r\<lparr>rt_asc := a\<rparr>)) | Inl _ \<Rightarrow> waiting (r\<lparr>rt_asc := a\<rparr>))"
      by (rule recv_timeout_waiting)
    show ?thesis
    proof (cases q)
      case (Inl x)
      with recv w time show ?thesis
        by (simp add: wait_any_step_def consumes_def)
    next
      case (Inr am)
      obtain h r1 where h: "handle_internal_message P (rtkit_message_of am) (r\<lparr>rt_asc := a\<rparr>) = (h, r1)"
        by fastforce
      then have "waiting r1 < waiting r"
        using internal_waiting [OF h] w Inr by simp
      with recv w time Inr h mgmt_waiting [of "msg0 am" "r\<lparr>rt_asc := a\<rparr>"] show ?thesis
        by (cases "try_bind (handle_mgmt_message (msg0 am)) (\<lambda>_. ok (msg0 am)) (r\<lparr>rt_asc := a\<rparr>)")
          (auto simp: wait_any_step_def consumes_def split: sum.splits)
    qed
  qed
qed

lemma wait_any_returns:
  obtains x r' where "wait_any_mgmt_msg P None n r = Some (x, r')" and "consumes r x r'"
  using loop_consumes [OF wait_any_consumes] unfolding wait_any_mgmt_msg_def by blast

lemma wait_mgmt_consumes: "round_consumes (wait_mgmt_step P None ty start n)"
proof (rule round_consumesI)
  fix r
  obtain x r' where "wait_any_mgmt_msg P None (n - (now (rt_asc r) - start)) r = Some (x, r')" "consumes r x r'"
    by (rule wait_any_returns)
  then show "(\<exists>x r'. wait_mgmt_step P None ty start n r = Some (Done (x, r')) \<and> consumes r x r') \<or>
     (\<exists>r'. wait_mgmt_step P None ty start n r = Some (Again r') \<and> waiting r' < waiting r)"
    by (cases x) (auto simp: wait_mgmt_step_def Let_def consumes_def)
qed

lemma wait_mgmt_returns:
  obtains x r' where "wait_mgmt_msg P None ty n r = Some (x, r')" and "consumes r x r'"
  using loop_consumes [OF wait_mgmt_consumes] unfolding wait_mgmt_msg_def by blast

lemma epmap_consumes: "round_consumes (epmap_step P None)"
proof (rule round_consumesI)
  fix r
  obtain x r' where wait: "wait_mgmt_msg P None MGMT_MSG_EPMAP RTKIT_BOOT_TIMEOUT_US r = Some (x, r')"
    and r': "consumes r x r'"
    by (rule wait_mgmt_returns)
  have merge: "waiting (merge_epmap raw s) = waiting s" for raw s
    by (simp add: merge_epmap_def waiting_def Let_def)
  have reply: "waiting s2 = waiting s1" if "reply_epmap raw s1 = (q, s2)" for raw s1 q s2
    using that unfolding reply_epmap_def by (rule send_waiting)
  show "(\<exists>x r'. epmap_step P None r = Some (Done (x, r')) \<and> consumes r x r') \<or>
     (\<exists>r'. epmap_step P None r = Some (Again r') \<and> waiting r' < waiting r)"
  proof (cases x)
    case (Inl e)
    with wait r' show ?thesis
      by (simp add: epmap_step_def consumes_def)
  next
    case (Inr raw)
    obtain q r2 where q: "reply_epmap raw (merge_epmap raw r') = (q, r2)"
      by fastforce
    with wait r' Inr reply [OF q] show ?thesis
      by (cases q) (auto simp: epmap_step_def consumes_def merge)
  qed
qed

lemma iop_on_consumes: "round_consumes (iop_on_step P None)"
proof (rule round_consumesI)
  fix r
  have power: "waiting (s\<lparr>iop_power := x\<rparr>) = waiting s" for s :: "'a rtkit" and x
    by (simp add: waiting_def)
  obtain x r' where "wait_any_mgmt_msg P None RTKIT_BOOT_TIMEOUT_US r = Some (x, r')" "consumes r x r'"
    by (rule wait_any_returns)
  then show "(\<exists>x r'. iop_on_step P None r = Some (Done (x, r')) \<and> consumes r x r') \<or>
     (\<exists>r'. iop_on_step P None r = Some (Again r') \<and> waiting r' < waiting r)"
    by (cases x) (auto simp: iop_on_step_def Let_def consumes_def power)
qed

lemma may_bind_returns:
  "\<exists>q. m s = Some q \<Longrightarrow> (\<And>x s'. \<exists>q. f x s' = Some q) \<Longrightarrow> \<exists>q. may_bind m f s = Some q"
  by (cases "m s"; cases "fst (the (m s))") (auto simp: may_bind_def split: prod.splits)

lemma boot_inner_returns: "\<exists>q. boot_inner P None eps require cpu r = Some q"
proof -
  have total: "\<exists>q. total_step m s = Some q" for m :: "('d, 'x) rtkit_op" and s
    by (simp add: total_step_def)
  have mapped: "\<exists>q. may_map_error h m s = Some q" if "\<exists>q. m s = Some q"
    for h and m :: "('d rtkit, rtkit_error, 'x) may_step" and s
    using that by (auto simp: may_map_error_def)
  have waits: "\<exists>q. wait_mgmt_msg P None ty n s = Some q" "\<exists>q. handle_epmap_sequence P None s = Some q"
    "\<exists>q. wait_iop_on P None s = Some q" for ty n s
    using loop_consumes [OF wait_mgmt_consumes] loop_consumes [OF epmap_consumes]
      loop_consumes [OF iop_on_consumes]
    unfolding wait_mgmt_msg_def handle_epmap_sequence_def wait_iop_on_def by blast+
  show ?thesis
    unfolding boot_inner_def by (intro may_bind_returns total mapped waits)
qed


subsection \<open>A boot\<close>

text \<open>
  A platform without a DMA mapper, and firmware that says HELLO for the versions 11 to 12,
  announces the application endpoint 0x20 as its only endpoint, and reports ON.
\<close>

definition plain_platform :: "unit platform" where
  "plain_platform = \<lparr>page_size = 4096, alloc_pages = (\<lambda>_ _ d. (Some 0x10000, d)),
     zero_bytes = (\<lambda>_ _ d. d), read_phys = (\<lambda>_ _. 0), memremap = (\<lambda>_ _ _. None), dma_mapper = None\<rparr>"

definition firmware_says :: "u64 list \<Rightarrow> unit rtkit" where
  "firmware_says ms = rtkit_new (asc_new\<lparr>i2a_fifo := map (\<lambda>m. (0, m, 0)) ms\<rparr>) ()"

lemma wait_any_arrived:
  assumes "asc_pending (rt_asc r) = []" and "i2a_fifo (rt_asc r) = (at, v, 0) # rest"
    and "at \<le> now (rt_asc r)" and "0 < n"
  shows "wait_any_mgmt_msg P None n r = Some (try_bind (handle_mgmt_message v) (\<lambda>_. ok v)
    (r\<lparr>rt_asc := (rt_asc r)\<lparr>i2a_fifo := rest\<rparr>\<rparr>))"
  unfolding wait_any_mgmt_msg_def
  using assms recv_timeout_arrived [of None "rt_asc r" at v 0 rest n]
  by (intro loop_Done) (simp add: wait_any_step_def polls_def rtkit_message_of_def)

lemma wait_mgmt_arrived:
  assumes "asc_pending (rt_asc r) = []" and "i2a_fifo (rt_asc r) = (at, v, 0) # rest"
    and "at \<le> now (rt_asc r)" and "0 < n" and "field_get v MGMT_TYPE = ty"
    and "ty \<noteq> MGMT_MSG_IOP_PWR_STATE_ACK" and "ty \<noteq> MGMT_MSG_AP_PWR_STATE"
  shows "wait_mgmt_msg P None ty n r = Some (Inr v, r\<lparr>rt_asc := (rt_asc r)\<lparr>i2a_fifo := rest\<rparr>\<rparr>)"
  unfolding wait_mgmt_msg_def
  using assms wait_any_arrived [OF assms(1-4)]
  by (intro loop_Done) (simp add: wait_mgmt_step_def handle_mgmt_message_def)

lemma boot_example_fields:
  "field_get 0x00100000000C000B MGMT_TYPE = 1"
  "field_get 0x00100000000C000B MGMT_MSG_HELLO_MINVER = 11"
  "field_get 0x00100000000C000B MGMT_MSG_HELLO_MAXVER = 12"
  "field_get 0x0088000100000001 MGMT_TYPE = 8"
  "field_get 0x0088000100000001 MGMT_MSG_EPMAP_BASE = 1"
  "field_get 0x0088000100000001 MGMT_MSG_EPMAP_BITMAP = 1"
  "field_get 0x0070000000000020 MGMT_TYPE = 7"
  "field_get 0x0070000000000020 MGMT_PWR_STATE = 0x20"
  unfolding field_masks
  by (simp_all add: field_get_block take_bit_eq_mod drop_bit_eq_div)

lemma rtkit_send_ready: "a2i_full (rt_asc r) = (\<lambda>_. False) \<Longrightarrow> rtkit_send m r =
    (Inr (), r\<lparr>rt_asc := (rt_asc r)\<lparr>a2i_sent := a2i_sent (rt_asc r) @ [wire m]\<rparr>\<rparr>)"
  by (simp add: rtkit_send_def asc_send_ready wire_def)

lemma epmap_arrived:
  assumes "asc_pending (rt_asc r) = []" and "i2a_fifo (rt_asc r) = (at, v, 0) # rest"
    and "at \<le> now (rt_asc r)" and "field_get v MGMT_TYPE = MGMT_MSG_EPMAP" and "epmap_done v"
    and "reply_epmap v (merge_epmap v (r\<lparr>rt_asc := (rt_asc r)\<lparr>i2a_fifo := rest\<rparr>\<rparr>)) = (Inr (), r')"
  shows "handle_epmap_sequence P None r = Some (Inr (), r')"
  unfolding handle_epmap_sequence_def
  using assms wait_mgmt_arrived [OF assms(1-3), of RTKIT_BOOT_TIMEOUT_US MGMT_MSG_EPMAP]
  by (intro loop_Done) (simp add: epmap_step_def)

lemma iop_on_arrived:
  assumes "asc_pending (rt_asc r) = []" and "i2a_fifo (rt_asc r) = (at, v, 0) # rest"
    and "at \<le> now (rt_asc r)" and "field_get v MGMT_TYPE = MGMT_MSG_IOP_PWR_STATE_ACK"
    and "ucast (field_get v MGMT_PWR_STATE) = (RTKIT_POWER_ON :: u32)"
  shows "wait_iop_on P None r =
    Some (Inr (), r\<lparr>rt_asc := (rt_asc r)\<lparr>i2a_fifo := rest\<rparr>, iop_power := RTKIT_POWER_ON\<rparr>)"
  unfolding wait_iop_on_def
  using assms wait_any_arrived [OF assms(1-3), of RTKIT_BOOT_TIMEOUT_US P]
  by (intro loop_Done) (simp add: iop_on_step_def handle_mgmt_message_def)

lemma may_bind_Some: "m s = Some (Inr x, s') \<Longrightarrow> may_bind m f s = f x s'"
  by (simp add: may_bind_def)

lemma boot_example_bitmap:
  assumes "ep_bitmap r = 0x100000000"
  shows "endpoint_supported e r \<longleftrightarrow> e = 0x20"
proof -
  have eq: "0x100000000 = (push_bit 32 1 :: u64)" by simp
  have bit: "bit (push_bit 32 1 :: u64) n \<longleftrightarrow> n = 32" for n
    by (simp only: bit_push_bit_iff bit_1_iff) auto
  have "(push_bit 32 1 AND push_bit (unat e) 1 \<noteq> (0 :: u64)) \<longleftrightarrow> unat e = 32" if "unat e < 64"
    unfolding bit [symmetric] by (rule and_flag_iff) (simp add: that)
  moreover have "unat e = 32 \<longleftrightarrow> e = 0x20"
    by (simp add: word_unat_eq_iff)
  ultimately show ?thesis
    unfolding endpoint_supported_def assms eq by auto
qed

text \<open>The driver idle, with these messages in the FIFO: their registers, all of them arrived.\<close>

definition stage :: "(u64 \<times> u64) list \<Rightarrow> u64 \<Rightarrow> unit rtkit \<Rightarrow> bool" where
  "stage ms b r \<longleftrightarrow> asc_pending (rt_asc r) = [] \<and> a2i_full (rt_asc r) = (\<lambda>_. False) \<and>
     now (rt_asc r) = 0 \<and> i2a_fifo (rt_asc r) = map (Pair 0) ms \<and> ep_bitmap r = b"

lemma stage_start: "stage (map (\<lambda>m. (m, 0)) ms) 0 (firmware_says ms)"
  by (simp add: stage_def firmware_says_def rtkit_new_def asc_new_def)

lemma stage_send: "stage ms b r \<Longrightarrow> \<exists>r'. rtkit_send m r = (Inr (), r') \<and> stage ms b r'"
  using rtkit_send_ready [of r m] by (simp add: stage_def)

lemma stage_mgmt:
  assumes "stage ((v, 0) # ms) b r" and "field_get v MGMT_TYPE = ty"
    and "ty \<noteq> MGMT_MSG_IOP_PWR_STATE_ACK" and "ty \<noteq> MGMT_MSG_AP_PWR_STATE"
  shows "\<exists>r'. wait_mgmt_msg P None ty RTKIT_BOOT_TIMEOUT_US r = Some (Inr v, r') \<and> stage ms b r'"
  using assms wait_mgmt_arrived [of r 0 v _ RTKIT_BOOT_TIMEOUT_US ty P] by (simp add: stage_def)

lemma stage_epmap:
  assumes "stage ((v, 0) # ms) b r" and "field_get v MGMT_TYPE = MGMT_MSG_EPMAP" and "epmap_done v"
    and "field_get v MGMT_MSG_EPMAP_BASE = 1"
  shows "\<exists>r'. handle_epmap_sequence P None r = Some (Inr (), r') \<and>
    stage ms (b OR push_bit 32 (field_get v MGMT_MSG_EPMAP_BITMAP)) r'"
proof -
  let ?r = "merge_epmap v (r\<lparr>rt_asc := (rt_asc r)\<lparr>i2a_fifo := map (Pair 0) ms\<rparr>\<rparr>)"
  have "stage ms (b OR push_bit 32 (field_get v MGMT_MSG_EPMAP_BITMAP)) ?r"
    using assms by (simp add: stage_def merge_epmap_def)
  then obtain r' where "reply_epmap v ?r = (Inr (), r')"
    "stage ms (b OR push_bit 32 (field_get v MGMT_MSG_EPMAP_BITMAP)) r'"
    unfolding reply_epmap_def using stage_send by blast
  then show ?thesis
    using assms epmap_arrived [of r 0 v] by (auto simp: stage_def)
qed

lemma stage_iop_on:
  assumes "stage ((v, 0) # ms) b r" and "field_get v MGMT_TYPE = MGMT_MSG_IOP_PWR_STATE_ACK"
    and "ucast (field_get v MGMT_PWR_STATE) = (RTKIT_POWER_ON :: u32)"
  shows "\<exists>r'. wait_iop_on P None r = Some (Inr (), r') \<and> stage ms b r'"
  using assms iop_on_arrived [of r 0 v _ P] by (simp add: stage_def)

text \<open>The handshake of this firmware, with other messages behind it.\<close>

definition handshake_messages :: "(u64 \<times> u64) list" where
  "handshake_messages = [(0x00100000000C000B, 0), (0x0088000100000001, 0), (0x0070000000000020, 0)]"

lemma stage_boot:
  assumes "stage (handshake_messages @ ms) 0 r" and "set eps \<subseteq> {0x20}"
  shows "\<exists>r'. boot_inner P None eps require cpu r = Some (Inr (), r') \<and> stage ms 0x100000000 r'"
proof -
  let ?ms = "handshake_messages @ ms"
  let ?r0 = "if cpu then r\<lparr>rt_asc := cpu_start (rt_asc r)\<rparr> else r"
  have "stage ?ms 0 ?r0"
    using assms(1) by (simp add: stage_def cpu_start_def)
  then obtain r1 where r1: "rtkit_send (power_message MGMT_MSG_IOP_PWR_STATE RTKIT_POWER_INIT) ?r0 = (Inr (), r1)"
    and g1: "stage ?ms 0 r1"
    using stage_send by blast
  obtain r2 where r2: "wait_mgmt_msg P None MGMT_MSG_HELLO RTKIT_BOOT_TIMEOUT_US r1 =
      Some (Inr 0x00100000000C000B, r2)" and g2: "stage (tl ?ms) 0 r2"
    using stage_mgmt [OF g1 [unfolded handshake_messages_def append.simps] boot_example_fields(1), of P]
    unfolding handshake_messages_def by auto
  obtain r3 where r3: "handle_hello 0x00100000000C000B r2 = (Inr (), r3)" and g3: "stage (tl ?ms) 0 r3"
    using stage_send [OF g2] by (simp add: handle_hello_def boot_example_fields) blast
  have last: "epmap_done 0x0088000100000001"
    by (simp add: epmap_done_def MGMT_MSG_EPMAP_DONE_def)
  obtain r4 where r4: "handle_epmap_sequence P None r3 = Some (Inr (), r4)"
    and g4: "stage ((0x0070000000000020, 0) # ms) 0x100000000 r4"
    using stage_epmap [OF g3 [unfolded handshake_messages_def append.simps list.sel] boot_example_fields(4) last
      boot_example_fields(5), of P] by (auto simp: boot_example_fields)
  then have map: "endpoint_supported e r4 \<longleftrightarrow> e = 0x20" for e
    by (simp add: stage_def boot_example_bitmap)
  have r5: "start_defaults RTKIT_DEFAULT_ENDPOINTS r4 = (Inr (), r4)"
    by (simp add: RTKIT_DEFAULT_ENDPOINTS_def map)
  have none: "[e \<leftarrow> eps. e < RTKIT_APP_ENDPOINT_START \<and> e \<notin> set RTKIT_DEFAULT_ENDPOINTS] = []"
    "[e \<leftarrow> eps. RTKIT_APP_ENDPOINT_START \<le> e] = eps"
    using assms(2) by (auto simp: filter_empty_conv filter_id_conv)
  obtain r7 where r7: "wait_iop_on P None r4 = Some (Inr (), r7)" and g7: "stage ms 0x100000000 r7"
    using stage_iop_on [OF g4 boot_example_fields(7)] by (auto simp: boot_example_fields)
  obtain r8 where r8: "rtkit_send (power_message MGMT_MSG_AP_PWR_STATE RTKIT_POWER_ON) r7 = (Inr (), r8)"
    and g8: "stage ms 0x100000000 r8"
    using stage_send [OF g7] by blast
  have started: "\<exists>u'. start_requested start_ep_raw require eps u = (Inr (), u') \<and> stage ms 0x100000000 u'"
    if "stage ms 0x100000000 u" for u
    using assms(2) that
  proof (induction eps arbitrary: u)
    case (Cons e es)
    then obtain u1 where "start_ep_raw e u = (Inr (), u1)" "stage ms 0x100000000 u1"
      unfolding start_ep_raw_def using stage_send by blast
    with Cons show ?case
      by (simp add: stage_def boot_example_bitmap)
  qed simp
  have "stage ms 0x100000000 (r8\<lparr>ap_power := RTKIT_POWER_ON\<rparr>)"
    using g8 by (simp add: stage_def)
  then obtain r9 where "start_requested start_ep_raw require eps (r8\<lparr>ap_power := RTKIT_POWER_ON\<rparr>) = (Inr (), r9)"
    and "stage ms 0x100000000 r9"
    using started by blast
  then show ?thesis
    by (simp add: boot_inner_def may_bind_Some r1 r2 r3 r4 r5 none r7 r8)
qed

lemma boot_example:
  "\<exists>r'. boot_inner plain_platform None [0x20] True True
     (firmware_says [0x00100000000C000B, 0x0088000100000001, 0x0070000000000020]) = Some (Inr (), r')"
  using stage_boot [of "[]" "firmware_says _" "[0x20]"] stage_start [of "[0x00100000000C000B, 0x0088000100000001, 0x0070000000000020]"]
  by (fastforce simp: handshake_messages_def)


lemma boot_transcript_witness:
  "\<exists>r' v w1 w2 w3. boot_inner plain_platform None [0x20] True True
     (firmware_says [0x00100000000C000B, 0x0088000100000001, 0x0070000000000020]) = Some (Inr (), r') \<and>
     sent r' = [wire (power_message MGMT_MSG_IOP_PWR_STATE RTKIT_POWER_INIT)] @ w1 @
       [wire \<lparr>ep = RTKIT_EP_MGMT, msg = hello_ack v\<rparr>] @ w2 @
       map (wire \<circ> start_message) [e \<leftarrow> RTKIT_DEFAULT_ENDPOINTS. endpoint_supported e r'] @ w3 @
       [wire (power_message MGMT_MSG_AP_PWR_STATE RTKIT_POWER_ON)] @
       map (wire \<circ> start_message) (if endpoint_supported 0x20 r' then [0x20] else [])"
proof -
  obtain r' where boot: "boot_inner plain_platform None [0x20] True True
     (firmware_says [0x00100000000C000B, 0x0088000100000001, 0x0070000000000020]) = Some (Inr (), r')"
    using boot_example by blast
  have start: "sent (firmware_says ms) = []" for ms
    by (simp add: firmware_says_def rtkit_new_def sent_def asc_new_def)
  have "\<exists>v w1 w2 w3. sent r' = [wire (power_message MGMT_MSG_IOP_PWR_STATE RTKIT_POWER_INIT)] @ w1 @
       [wire \<lparr>ep = RTKIT_EP_MGMT, msg = hello_ack v\<rparr>] @ w2 @
       map (wire \<circ> start_message) [e \<leftarrow> RTKIT_DEFAULT_ENDPOINTS. endpoint_supported e r'] @ w3 @
       [wire (power_message MGMT_MSG_AP_PWR_STATE RTKIT_POWER_ON)] @
       map (wire \<circ> start_message) (if endpoint_supported 0x20 r' then [0x20] else [])"
    using boot_transcript [OF boot] by (elim exE conjE) (simp add: start, blast)
  with boot show ?thesis
    by blast
qed

text \<open>The system log asks for a buffer of four pages of 4096 bytes.\<close>

definition buffer_example :: rtkit_message where
  "buffer_example = \<lparr>ep = RTKIT_EP_SYSLOG, msg = 0x0010400000000000\<rparr>"

lemma buffer_example_fields:
  "field_get 0x0010400000000000 RTKIT_SYSLOG_TYPE = 1"
  "field_get 0x0010400000000000 MSG_BUFFER_REQUEST_SIZE = 4"
  "field_get 0x0010400000000000 MSG_BUFFER_REQUEST_IOVA = 0"
  unfolding field_masks
  by (simp_all add: field_get_block take_bit_eq_mod drop_bit_eq_div)

lemma buffer_request_answered_witness:
  "\<exists>r' b reply. handle_buffer_request plain_platform buffer_example (firmware_says []) = (Inr True, r') \<and>
     find_buffer RTKIT_EP_SYSLOG r' = Some b \<and> sent r' = [wire \<lparr>ep = RTKIT_EP_SYSLOG, msg = reply\<rparr>] \<and>
     field_get reply MSG_BUFFER_REQUEST_SIZE = 4 \<and> field_get reply MSG_BUFFER_REQUEST_IOVA = sb_dva b"
proof -
  let ?r = "firmware_says []"
  let ?b = "\<lparr>sb_ep = RTKIT_EP_SYSLOG, sb_paddr = 0x10000, sb_dva = 0x10000, sb_pages = 4\<rparr>"
  have start: "find_buffer RTKIT_EP_SYSLOG ?r = None" "buffers_distinct ?r" "sent ?r = []"
    "stage [] 0 (add_buffer ?b ?r)"
    using stage_start [of "[]"]
    by (simp_all add: firmware_says_def rtkit_new_def find_buffer_def buffers_distinct_def sent_def
        asc_new_def stage_def add_buffer_def)
  have same: "r\<lparr>kern := ()\<rparr> = r" for r :: "unit rtkit"
    by (cases r) simp
  have alloc: "allocate_buffer plain_platform RTKIT_EP_SYSLOG 16384 ?r = (Inr 0x10000, add_buffer ?b ?r)"
    by (simp add: allocate_buffer_def plain_platform_def div_ceil_def dma_alignment_def map_dma_def
        try_bind_def map_error_def same)
  obtain r' where send: "rtkit_send \<lparr>ep = RTKIT_EP_SYSLOG, msg = buffer_reply 4 0x10000\<rparr> (add_buffer ?b ?r) = (Inr (), r')"
    using stage_send [OF start(4)] by blast
  have request: "handle_buffer_request plain_platform buffer_example ?r = (Inr True, r')"
    using start alloc send
    by (simp add: handle_buffer_request_def buffer_example_def buffer_example_fields try_bind_def)
  have "find_buffer RTKIT_EP_SYSLOG r' = Some ?b"
    using send_fields [OF send] start(1) by (auto simp: find_buffer_add)
  then show ?thesis
    using buffer_request_answered [OF request] start request
    by (auto simp: buffer_example_def buffer_example_fields)
qed

section \<open>What \<open>recv_endpoint\<close> does not promise\<close>

text \<open>An application message behind a management message.\<close>

definition behind_system_message :: "unit rtkit" where
  "behind_system_message = rtkit_new (asc_new\<lparr>asc_pending :=
     [\<lparr>msg0 = 0x00B0000000000020, msg1 = 0\<rparr>, \<lparr>msg0 = 7, msg1 = 0x20\<rparr>]\<rparr>) ()"

lemma behind_system_fields: "field_get 0x00B0000000000020 MGMT_TYPE = 0xb"
  unfolding field_masks by (simp add: field_get_block take_bit_eq_mod drop_bit_eq_div)

lemma recv_endpoint_in_order_witness:
  "case recv_endpoint plain_platform 0x20 behind_system_message of
      (Inr (Some m), r') \<Rightarrow> undelivered 0x20 behind_system_message = m # undelivered 0x20 r' \<and>
        (\<forall>e'. app_endpoint e' \<and> e' \<noteq> 0x20 \<longrightarrow> undelivered e' r' = undelivered e' behind_system_message)
    | (_, r') \<Rightarrow> \<forall>e'. app_endpoint e' \<longrightarrow> undelivered e' r' = undelivered e' behind_system_message"
  by (rule recv_endpoint_in_order) (simp add: app_endpoint_def)

text \<open>
  The result \<open>false\<close> does not mean that no message is available: when a system message
  comes first, \<open>recv_endpoint\<close> handles it and returns \<open>false\<close> although the next message is
  for its endpoint and has already arrived; the following call returns it.
\<close>

theorem recv_endpoint_stops_early:
  "\<exists>r1 r2. undelivered 0x20 behind_system_message = [\<lparr>ep = 0x20, msg = 7\<rparr>] \<and>
     recv_endpoint plain_platform 0x20 behind_system_message = (Inr None, r1) \<and>
     recv_endpoint plain_platform 0x20 r1 = (Inr (Some \<lparr>ep = 0x20, msg = 7\<rparr>), r2)"
proof -
  have "undelivered 0x20 behind_system_message = [\<lparr>ep = 0x20, msg = 7\<rparr>]"
    by (simp add: undelivered_def behind_system_message_def rtkit_new_def asc_new_def rtkit_message_of_def)
  moreover have "\<exists>r1. recv_endpoint plain_platform 0x20 behind_system_message = (Inr None, r1) \<and>
      (\<exists>r2. recv_endpoint plain_platform 0x20 r1 = (Inr (Some \<lparr>ep = 0x20, msg = 7\<rparr>), r2))"
    by (simp add: recv_endpoint_def recv_endpoint_loop.simps [of plain_platform] rtkit_recv_def can_recv_def
        asc_recv_def behind_system_message_def rtkit_new_def asc_new_def rtkit_message_of_def
        handle_internal_message_def handle_mgmt_message_def behind_system_fields try_bind_def)
  ultimately show ?thesis
    by blast
qed

section \<open>The crash log parser\<close>

text \<open>
  Reading a crash log of any content never indexes outside the mapped buffer and always
  ends: the parser returns the lines to print for every buffer, whatever sizes its header and
  its sections claim.
\<close>

theorem crashlog_never_panics: "\<exists>out. parse_crashlog (map view [0..<sz]) sz = Some out"
proof -
  let ?bytes = "map view [0..<sz]"
  have "\<exists>out. crash_sections ?bytes (min n sz) 0x20 = Some out" for n
    by (rule crash_sections_Some) simp
  then show ?thesis
    by (cases "read_u32_at ?bytes 0") (fastforce simp: parse_crashlog_def Let_def)+
qed

end
