(* ===== verification/AfkEndpoint.thy ===== *)
theory AfkEndpoint
  imports AfkRing RtkitBoot
begin

text \<open>
  The AFK endpoint of \<^verbatim>\<open>drivers/soc/apple-afk\<close>: the RBEP handshake that sets up the shared
  buffer and its two rings, sending with the doorbell message, shutdown, draining and the
  release of the shared buffer, over any remote processor \<open>R\<close>.
\<close>

section \<open>Messages and state\<close>

definition RBEP_TYPE_MASK :: u64 where "RBEP_TYPE_MASK = 0xFFFF000000000000"
definition GETBUF_SIZE_MASK :: u64 where "GETBUF_SIZE_MASK = 0x00000000FFFF0000"
definition GETBUF_TAG_MASK :: u64 where "GETBUF_TAG_MASK = 0x000000000000FFFF"
definition GETBUF_ACK_DVA_MASK :: u64 where "GETBUF_ACK_DVA_MASK = 0x0000FFFFFFFFFFFF"
definition INITRB_OFFSET_MASK :: u64 where "INITRB_OFFSET_MASK = 0x0000FFFF00000000"
abbreviation (input) INITRB_SIZE_MASK :: u64 where "INITRB_SIZE_MASK \<equiv> GETBUF_SIZE_MASK"
abbreviation (input) INITRB_TAG_MASK :: u64 where "INITRB_TAG_MASK \<equiv> GETBUF_TAG_MASK"

abbreviation (input) RBEP_INIT :: u64 where "RBEP_INIT \<equiv> 0x80"
abbreviation (input) RBEP_INIT_ACK :: u64 where "RBEP_INIT_ACK \<equiv> 0xa0"
abbreviation (input) RBEP_GETBUF :: u64 where "RBEP_GETBUF \<equiv> 0x89"
abbreviation (input) RBEP_GETBUF_ACK :: u64 where "RBEP_GETBUF_ACK \<equiv> 0xa1"
abbreviation (input) RBEP_INIT_TX :: u64 where "RBEP_INIT_TX \<equiv> 0x8a"
abbreviation (input) RBEP_INIT_RX :: u64 where "RBEP_INIT_RX \<equiv> 0x8b"
abbreviation (input) RBEP_START :: u64 where "RBEP_START \<equiv> 0xa3"
abbreviation (input) RBEP_START_ACK :: u64 where "RBEP_START_ACK \<equiv> 0x86"
abbreviation (input) RBEP_SEND :: u64 where "RBEP_SEND \<equiv> 0xa2"
abbreviation (input) RBEP_SHUTDOWN :: u64 where "RBEP_SHUTDOWN \<equiv> 0xc0"
abbreviation (input) RBEP_SHUTDOWN_ACK :: u64 where "RBEP_SHUTDOWN_ACK \<equiv> 0xc1"
abbreviation (input) AFK_TIMEOUT_US :: nat where "AFK_TIMEOUT_US \<equiv> 5000000"

record afk_shared =
  sh_virt :: nat
  sh_paddr :: nat
  sh_dva :: u64
  sh_size :: nat
  sh_tag :: u32

record 's afk_endpoint =
  env :: 's
  shared :: "afk_shared option"
  tx :: afk_ring
  rx :: afk_ring
  started :: bool

type_synonym ('s, 'a) afk_op = "('s afk_endpoint, afk_error, 'a) stepper"

definition afk_ring_new :: afk_ring where
  "afk_ring_new = \<lparr>rb_hdr = 0, rb_buf = 0, rb_bufsz = 0, rb_ready = False\<rparr>"

definition afk_new :: "'s remoteproc \<Rightarrow> 's \<Rightarrow> afk_error + 's afk_endpoint" where
  "afk_new R s =
     (if \<not> service_available R then Inl NoRtkitService
      else Inr \<lparr>env = s, shared = None, tx = afk_ring_new, rx = afk_ring_new, started = False\<rparr>)"

definition rbep_msg :: "u64 \<Rightarrow> u64 \<Rightarrow> u64" where
  "rbep_msg msg_type payload = field_prep RBEP_TYPE_MASK msg_type OR payload"

definition rbep_type :: "u64 \<Rightarrow> u64" where
  "rbep_type m = field_get m RBEP_TYPE_MASK"

definition on_env :: "('s, remoteproc_error, 'a) stepper \<Rightarrow> ('s, 'a) afk_op" where
  "on_env f a = (case f (env a) of
     (Inl e, s) \<Rightarrow> (Inl (RemoteprocFailed e), a\<lparr>env := s\<rparr>)
   | (Inr x, s) \<Rightarrow> (Inr x, a\<lparr>env := s\<rparr>))"

definition send_rbep :: "'s remoteproc \<Rightarrow> u64 \<Rightarrow> u64 \<Rightarrow> ('s, unit) afk_op" where
  "send_rbep R msg_type payload = on_env (srv_send R (message_one (rbep_msg msg_type payload)))"

definition recv_rbep :: "'s remoteproc \<Rightarrow> ('s, u64 option) afk_op" where
  "recv_rbep R = on_env (srv_try_recv R)"

definition delay :: "'s remoteproc \<Rightarrow> 's afk_endpoint \<Rightarrow> 's afk_endpoint" where
  "delay R a = a\<lparr>env := os_delay R (env a)\<rparr>"

definition memory :: "'s remoteproc \<Rightarrow> 's afk_endpoint \<Rightarrow> mem" where
  "memory R a = os_memory R (env a)"

definition set_memory :: "'s remoteproc \<Rightarrow> mem \<Rightarrow> 's afk_endpoint \<Rightarrow> 's afk_endpoint" where
  "set_memory R m a = a\<lparr>env := os_set_memory R m (env a)\<rparr>"

section \<open>The handshake\<close>

definition wait_rbep_step :: "'s remoteproc \<Rightarrow> u64 \<Rightarrow> nat \<Rightarrow> 's afk_endpoint \<Rightarrow>
    ('s afk_endpoint, (afk_error + u64) \<times> 's afk_endpoint) loop_step option" where
  "wait_rbep_step R expected start a =
     Some (if os_now R (env a) - start \<ge> AFK_TIMEOUT_US then Done (Inl RbepTimeout, a)
           else case recv_rbep R a of
                  (Inr (Some m), a') \<Rightarrow> if rbep_type m = expected then Done (Inr m, a') else Again a'
                | (Inr None, a') \<Rightarrow> Again (delay R a')
                | (Inl _, a') \<Rightarrow> Again (delay R a'))"

definition wait_rbep_type :: "'s remoteproc \<Rightarrow> u64 \<Rightarrow> ('s afk_endpoint, afk_error, u64) may_step" where
  "wait_rbep_type R expected a = loop (wait_rbep_step R expected (os_now R (env a))) a"

text \<open>Answering GETBUF, once the message is there.\<close>

definition allocate_shared :: "'s remoteproc \<Rightarrow> u64 \<Rightarrow> ('s, unit) afk_op" where
  "allocate_shared R m a =
     (let size_blocks = unat (field_get m GETBUF_SIZE_MASK);
          tag = ucast (field_get m GETBUF_TAG_MASK) :: u32;
          sz = size_blocks * BLOCK_SIZE;
          pages = (sz + 4095) div 4096;
          align_pages = (rp_dma_alignment R + 4095) div 4096
      in case os_alloc_pages R pages align_pages (env a) of
           (None, s) \<Rightarrow> (Inl AllocFailed, a\<lparr>env := s\<rparr>)
         | (Some paddr, s) \<Rightarrow>
             let virt = os_virt R paddr;
                 s1 = os_set_memory R (put_bytes (os_memory R s) virt (replicate sz 0)) s
             in case rp_map_dma R paddr sz s1 of
                  (Inl e, s2) \<Rightarrow> (Inl (RemoteprocFailed e), a\<lparr>env := os_free_pages R paddr pages s2\<rparr>)
                | (Inr dva, s2) \<Rightarrow>
                    send_rbep R RBEP_GETBUF_ACK (dva AND GETBUF_ACK_DVA_MASK)
                      (a\<lparr>env := s2, shared := Some \<lparr>sh_virt = virt, sh_paddr = paddr, sh_dva = dva,
                          sh_size = sz, sh_tag = tag\<rparr>\<rparr>))"

definition handle_getbuf :: "'s remoteproc \<Rightarrow> ('s afk_endpoint, afk_error, unit) may_step" where
  "handle_getbuf R = may_bind (wait_rbep_type R RBEP_GETBUF) (\<lambda>m. total_step (allocate_shared R m))"

definition init_ring_buffer :: "afk_shared \<Rightarrow> u64 \<Rightarrow> mem \<Rightarrow> afk_error + afk_ring" where
  "init_ring_buffer sh m mm =
     (let offset = unat (field_get m INITRB_OFFSET_MASK);
          sz = unat (field_get m INITRB_SIZE_MASK);
          tag = ucast (field_get m INITRB_TAG_MASK) :: u32
      in if tag \<noteq> sh_tag sh then Inl TagMismatch
         else let base = offset * BLOCK_SIZE; total_size = sz * BLOCK_SIZE
      in if base + total_size > sh_size sh then Inl RingOutOfBounds
         else let hdr_ptr = sh_virt sh + base; hdr_bufsz = unat (get32 mm hdr_ptr)
      in if hdr_bufsz + RB_HEADER_SIZE \<noteq> total_size then Inl RingSizeMismatch
         else Inr \<lparr>rb_hdr = hdr_ptr, rb_buf = hdr_ptr + RB_HEADER_SIZE,
                rb_bufsz = of_nat hdr_bufsz, rb_ready = True\<rparr>)"

text \<open>
  The flags say which ring has been announced. The inner loop ends with the first message,
  the outer one when both rings are there.
\<close>

definition init_message ::
  "'s remoteproc \<Rightarrow> u64 \<Rightarrow> bool \<Rightarrow> bool \<Rightarrow> ('s, bool \<times> bool) afk_op" where
  "init_message R m tx_done rx_done a =
     (if rbep_type m = RBEP_INIT_TX then
        (case shared a of
           None \<Rightarrow> (Inl NoSharedBuffer, a)
         | Some sh \<Rightarrow> (case init_ring_buffer sh m (memory R a) of
               Inl e \<Rightarrow> (Inl e, a)
             | Inr rb \<Rightarrow> (Inr (True, rx_done), a\<lparr>tx := rb\<rparr>)))
      else if rbep_type m = RBEP_INIT_RX then
        (case shared a of
           None \<Rightarrow> (Inl NoSharedBuffer, a)
         | Some sh \<Rightarrow> (case init_ring_buffer sh m (memory R a) of
               Inl e \<Rightarrow> (Inl e, a)
             | Inr rb \<Rightarrow> (Inr (tx_done, True), a\<lparr>rx := rb\<rparr>)))
      else (Inr (tx_done, rx_done), a))"

definition init_message_step :: "'s remoteproc \<Rightarrow> bool \<Rightarrow> bool \<Rightarrow> nat \<Rightarrow> 's afk_endpoint \<Rightarrow>
    ('s afk_endpoint, (afk_error + bool \<times> bool) \<times> 's afk_endpoint) loop_step option" where
  "init_message_step R tx_done rx_done start a =
     Some (if os_now R (env a) - start \<ge> AFK_TIMEOUT_US then Done (Inl InitTimeout, a)
           else case recv_rbep R a of
                  (Inr (Some m), a') \<Rightarrow> Done (init_message R m tx_done rx_done a')
                | (Inr None, a') \<Rightarrow> Again (delay R a')
                | (Inl _, a') \<Rightarrow> Again (delay R a'))"

definition init_rings_step :: "'s remoteproc \<Rightarrow> 's afk_endpoint \<times> bool \<times> bool \<Rightarrow>
    ('s afk_endpoint \<times> bool \<times> bool, (afk_error + unit) \<times> 's afk_endpoint) loop_step option" where
  "init_rings_step R = (\<lambda>(a, tx_done, rx_done).
     if tx_done \<and> rx_done
     then Some (Done (if \<not> rb_ready (tx a) \<or> \<not> rb_ready (rx a) then Inl RingsNotInitialized else Inr (), a))
     else case loop (init_message_step R tx_done rx_done (os_now R (env a))) a of
            None \<Rightarrow> None
          | Some (Inl e, a') \<Rightarrow> Some (Done (Inl e, a'))
          | Some (Inr (t, r), a') \<Rightarrow> Some (Again (a', t, r)))"

definition wait_init_ringbuffers :: "'s remoteproc \<Rightarrow> ('s afk_endpoint, afk_error, unit) may_step" where
  "wait_init_ringbuffers R a = loop (init_rings_step R) (a, False, False)"

definition afk_start :: "'s remoteproc \<Rightarrow> ('s afk_endpoint, afk_error, unit) may_step" where
  "afk_start R =
     may_bind (total_step (send_rbep R RBEP_INIT 0))
    (\<lambda>_. may_bind (wait_rbep_type R RBEP_INIT_ACK)
    (\<lambda>_. may_bind (handle_getbuf R)
    (\<lambda>_. may_bind (wait_init_ringbuffers R)
    (\<lambda>_. may_bind (total_step (send_rbep R RBEP_START 0))
    (\<lambda>_. may_bind (wait_rbep_type R RBEP_START_ACK)
    (\<lambda>_. total_step (put_state (\<lambda>a. a\<lparr>started := True\<rparr>))))))))"

section \<open>Running and stopping\<close>

text \<open>Sending puts the message into the ring and then rings the doorbell.\<close>

definition afk_send :: "'s remoteproc \<Rightarrow> u32 \<Rightarrow> u32 \<Rightarrow> u8 list \<Rightarrow> ('s, unit) afk_op" where
  "afk_send R channel msg_type data a =
     (case afk_enqueue (tx a) channel msg_type data (memory R a) of
        Inl e \<Rightarrow> (Inl e, a)
      | Inr (m, new_wptr) \<Rightarrow> send_rbep R RBEP_SEND (of_nat new_wptr) (set_memory R m a))"

definition afk_shutdown :: "'s remoteproc \<Rightarrow> ('s afk_endpoint, afk_error, unit) may_step" where
  "afk_shutdown R a =
     (if \<not> started a then Some (Inr (), a)
      else may_bind (total_step (send_rbep R RBEP_SHUTDOWN 0))
             (\<lambda>_ a1. case wait_rbep_type R RBEP_SHUTDOWN_ACK a1 of
                None \<Rightarrow> None
              | Some (_, a2) \<Rightarrow> Some (Inr (), a2\<lparr>started := False\<rparr>)) a)"

definition drain_step :: "'s remoteproc \<Rightarrow> 's afk_endpoint \<Rightarrow>
    ('s afk_endpoint, 's afk_endpoint) loop_step option" where
  "drain_step R a =
     Some (case recv_rbep R a of
             (Inr (Some _), a') \<Rightarrow> Again a'
           | (_, a') \<Rightarrow> Done a')"

definition drain_rbep :: "'s remoteproc \<Rightarrow> 's afk_endpoint \<Rightarrow> 's afk_endpoint option" where
  "drain_rbep R a = loop (drain_step R) a"

definition afk_drop :: "'s remoteproc \<Rightarrow> 's afk_endpoint \<Rightarrow> 's afk_endpoint" where
  "afk_drop R a =
     (case shared a of
        None \<Rightarrow> a
      | Some sh \<Rightarrow>
          a\<lparr>shared := None, env := os_free_pages R (sh_paddr sh) ((sh_size sh + 4095) div 4096)
             (rp_unmap_dma R (sh_dva sh) (sh_size sh) (env a))\<rparr>)"

section \<open>The rings lie inside the shared buffer\<close>

lemma afk_masks [field_masks]:
  "RBEP_TYPE_MASK = push_bit 48 (mask 16)"
  "GETBUF_SIZE_MASK = push_bit 16 (mask 16)"
  "GETBUF_TAG_MASK = push_bit 0 (mask 16)"
  "INITRB_OFFSET_MASK = push_bit 32 (mask 16)"
  by (simp_all add: RBEP_TYPE_MASK_def GETBUF_SIZE_MASK_def GETBUF_TAG_MASK_def
      INITRB_OFFSET_MASK_def mask_eq_exp_minus_1)

lemma field_get_16: "n < 64 \<Longrightarrow> unat (field_get m (push_bit n (mask 16))) < 2 ^ 16"
  using word_less_two_power_iff [of 16 "field_get m (push_bit n (mask 16))"]
    take_bit_word_self_iff [of 16 "field_get m (push_bit n (mask 16))"]
  by (simp add: field_get_block)

definition ring_inside :: "afk_shared \<Rightarrow> afk_ring \<Rightarrow> bool" where
  "ring_inside sh rb \<longleftrightarrow> rb_ready rb \<and> sh_virt sh \<le> rb_hdr rb \<and> 64 dvd rb_hdr rb - sh_virt sh \<and>
     rb_buf rb = rb_hdr rb + RB_HEADER_SIZE \<and>
     rb_buf rb + unat (rb_bufsz rb) \<le> sh_virt sh + sh_size sh \<and> 64 dvd unat (rb_bufsz rb)"

lemma init_ring_inside:
  assumes "init_ring_buffer sh m mm = Inr rb"
  shows "ring_inside sh rb" and "unat (rb_bufsz rb) = unat (get32 mm (rb_hdr rb))"
    and "ucast (field_get m INITRB_TAG_MASK) = sh_tag sh"
proof -
  let ?base = "unat (field_get m INITRB_OFFSET_MASK) * BLOCK_SIZE"
  let ?total = "unat (field_get m INITRB_SIZE_MASK) * BLOCK_SIZE"
  let ?bufsz = "unat (get32 mm (sh_virt sh + ?base))"
  have checks: "ucast (field_get m INITRB_TAG_MASK) = sh_tag sh" "?base + ?total \<le> sh_size sh"
    "?bufsz + RB_HEADER_SIZE = ?total"
    and rb: "rb = \<lparr>rb_hdr = sh_virt sh + ?base, rb_buf = sh_virt sh + ?base + RB_HEADER_SIZE,
      rb_bufsz = of_nat ?bufsz, rb_ready = True\<rparr>"
    using assms by (auto simp: init_ring_buffer_def Let_def split: if_splits)
  have "64 dvd ?bufsz + RB_HEADER_SIZE"
    unfolding checks(3) by simp
  moreover have "(64 :: nat) dvd RB_HEADER_SIZE"
    by simp
  ultimately have "64 dvd ?bufsz"
    using dvd_add_left_iff by blast
  with checks(2,3) show "ring_inside sh rb"
    by (simp add: rb ring_inside_def)
  show "unat (rb_bufsz rb) = unat (get32 mm (rb_hdr rb))"
    by (simp add: rb)
  show "ucast (field_get m INITRB_TAG_MASK) = sh_tag sh"
    by (rule checks(1))
qed

lemma on_env_fields:
  "on_env f a = (r, a') \<Longrightarrow> \<exists>s. a' = a\<lparr>env := s\<rparr>"
  by (auto simp: on_env_def split: prod.splits sum.splits)

text \<open>Waiting for a message changes nothing but the environment.\<close>

definition same_endpoint :: "'s afk_endpoint \<Rightarrow> 's afk_endpoint \<Rightarrow> bool" where
  "same_endpoint a b \<longleftrightarrow> shared a = shared b \<and> tx a = tx b \<and> rx a = rx b \<and> started a = started b"

lemma same_endpoint_simps [simp]:
  "same_endpoint a a"
  "same_endpoint a (b\<lparr>env := s\<rparr>) = same_endpoint a b"
  "same_endpoint a (delay R b) = same_endpoint a b"
  by (simp_all add: same_endpoint_def delay_def)

lemma recv_rbep_same: "recv_rbep R b = (r, b') \<Longrightarrow> same_endpoint a b' = same_endpoint a b"
  unfolding recv_rbep_def by (drule on_env_fields) auto

lemma send_rbep_same: "send_rbep R ty p b = (r, b') \<Longrightarrow> same_endpoint a b' = same_endpoint a b"
  unfolding send_rbep_def by (drule on_env_fields) auto

lemma wait_rbep_same:
  assumes "wait_rbep_type R expected a = Some (r, a')"
  shows "same_endpoint a a'"
proof -
  have "same_endpoint a (snd (r, a'))"
    using assms unfolding wait_rbep_type_def
    by (rule loop_rule [where I = "same_endpoint a"])
      (auto simp: wait_rbep_step_def recv_rbep_same split: if_splits prod.splits sum.splits option.splits)
  then show ?thesis by simp
qed

definition rings_announced :: "afk_shared \<Rightarrow> 's afk_endpoint \<times> bool \<times> bool \<Rightarrow> bool" where
  "rings_announced sh = (\<lambda>(a, t, r). shared a = Some sh \<and> (t \<longrightarrow> ring_inside sh (tx a)) \<and>
     (r \<longrightarrow> ring_inside sh (rx a)))"

lemma rings_announced_same:
  "same_endpoint a b \<Longrightarrow> rings_announced sh (a, t, r) = rings_announced sh (b, t, r)"
  by (simp add: rings_announced_def same_endpoint_def)

lemma init_message_announced:
  "init_message R m t r a = (Inr (t', r'), a') \<Longrightarrow> rings_announced sh (a, t, r) \<Longrightarrow>
     rings_announced sh (a', t', r')"
  by (auto simp: init_message_def rings_announced_def init_ring_inside
      split: if_splits option.splits sum.splits)

lemma init_message_loop_announced:
  assumes "loop (init_message_step R t r start) a = Some (Inr (t', r'), a')"
    and "rings_announced sh (a, t, r)"
  shows "rings_announced sh (a', t', r')"
proof -
  let ?Q = "\<lambda>(x, u). \<forall>t' r'. x = Inr (t', r') \<longrightarrow> rings_announced sh (u, t', r')"
  have "?Q (Inr (t', r') :: afk_error + bool \<times> bool, a')"
    using assms(1)
  proof (rule loop_rule [where I = "same_endpoint a"])
    fix s x
    assume s: "same_endpoint a s" and step: "init_message_step R t r start s = Some (Done x)"
    consider "x = (Inl InitTimeout, s)"
      | m s' where "recv_rbep R s = (Inr (Some m), s')" "x = init_message R m t r s'"
      using step by (auto simp: init_message_step_def split: if_splits prod.splits sum.splits option.splits)
    then show "?Q x"
    proof cases
      case 2
      have "rings_announced sh (s', t, r)"
        using assms(2) s recv_rbep_same [OF 2(1), of a] rings_announced_same [of a s'] by simp
      then show ?thesis
        unfolding 2(2) using init_message_announced by fastforce
    qed simp
  qed (auto simp: init_message_step_def recv_rbep_same split: if_splits prod.splits sum.splits option.splits)
  then show ?thesis by simp
qed

lemma wait_init_announced:
  assumes "wait_init_ringbuffers R a = Some (Inr x, a')" and "shared a = Some sh"
  shows "rings_announced sh (a', True, True)"
proof -
  let ?Q = "\<lambda>(x, u). \<forall>y. x = Inr y \<longrightarrow> rings_announced sh (u, True, True)"
  have "?Q (Inr x :: afk_error + unit, a')"
    using assms(1) unfolding wait_init_ringbuffers_def
  proof (rule loop_rule [where I = "rings_announced sh"])
    show "rings_announced sh (a, False, False)"
      using assms(2) by (simp add: rings_announced_def)
  next
    fix s s'
    assume "rings_announced sh s" and "init_rings_step R s = Some (Again s')"
    then show "rings_announced sh s'"
      by (cases s) (auto simp: init_rings_step_def dest: init_message_loop_announced
          split: if_splits option.splits sum.splits)
  next
    fix s q
    assume "rings_announced sh s" and "init_rings_step R s = Some (Done q)"
    then show "?Q q"
      by (cases s) (auto simp: init_rings_step_def split: if_splits option.splits sum.splits)
  qed
  then show ?thesis by simp
qed

lemma allocate_shared_Ok:
  "allocate_shared R m a = (Inr x, a') \<Longrightarrow>
     \<exists>sh. shared a' = Some sh \<and> sh_size sh = unat (field_get m GETBUF_SIZE_MASK) * BLOCK_SIZE \<and>
       sh_tag sh = ucast (field_get m GETBUF_TAG_MASK)"
  by (auto simp: allocate_shared_def Let_def same_endpoint_def dest!: send_rbep_same [where a = a']
      split: prod.splits option.splits sum.splits)

text \<open>
  C14. A handshake that succeeds leaves the endpoint started with a shared buffer of the size
  and tag that GETBUF asked for, and both rings, header and data area, lie inside that
  buffer at 64-byte steps, whatever offsets and sizes the coprocessor has sent.
\<close>

theorem afk_start_rings_inside:
  assumes "afk_start R a = Some (Inr x, a')"
  shows "started a' \<and> (\<exists>sh. shared a' = Some sh \<and> ring_inside sh (tx a') \<and> ring_inside sh (rx a'))"
proof -
  obtain a1 m2 a2 m3 a3 a4 a5 a6 m7 a7 where
    s3: "wait_rbep_type R RBEP_GETBUF a2 = Some (Inr m3, a3)" and
    s4: "allocate_shared R m3 a3 = (Inr (), a4)" and
    s5: "wait_init_ringbuffers R a4 = Some (Inr (), a5)" and
    s6: "send_rbep R RBEP_START 0 a5 = (Inr (), a6)" and
    s7: "wait_rbep_type R RBEP_START_ACK a6 = Some (Inr m7, a7)" and
    a': "a' = a7\<lparr>started := True\<rparr>"
    using assms unfolding afk_start_def handle_getbuf_def
    by (elim may_bind_OkE) (auto intro: that)
  obtain sh where "shared a4 = Some sh"
    using allocate_shared_Ok [OF s4] by blast
  then have "rings_announced sh (a5, True, True)"
    by (rule wait_init_announced [OF s5])
  moreover have "same_endpoint a5 a7"
    using send_rbep_same [OF s6, of a5] wait_rbep_same [OF s7] by (auto simp: same_endpoint_def)
  ultimately show ?thesis
    unfolding a' by (intro conjI exI [of _ sh]) (auto simp: rings_announced_def same_endpoint_def)
qed

section \<open>The handshake returns\<close>

context polled_service
begin

definition progress :: "nat \<Rightarrow> 's afk_endpoint \<Rightarrow> nat" where
  "progress start a = queued (env a) + (start + AFK_TIMEOUT_US - os_now R (env a))"

lemma recv_delay_progress:
  assumes "recv_rbep R a = (r, a')" and "\<forall>m. r \<noteq> Inr (Some m)"
    and "\<not> os_now R (env a) - start \<ge> AFK_TIMEOUT_US"
  shows "progress start (delay R a') < progress start a"
proof -
  obtain x s where recv: "srv_try_recv R (env a) = (x, s)"
    by fastforce
  then have "env a' = s"
    using assms(1) by (auto simp: recv_rbep_def on_env_def split: sum.splits)
  with recv_queued [OF recv] recv_now [OF recv] delay_queued [of s] delay_now [of s] assms(3)
  show ?thesis
    by (simp add: progress_def delay_def)
qed

lemma recv_message_progress:
  assumes "recv_rbep R a = (Inr (Some m), a')"
  shows "queued (env a') < queued (env a)" and "progress start a' < progress start a"
proof -
  have recv: "srv_try_recv R (env a) = (Inr (Some m), env a')"
    using assms by (auto simp: recv_rbep_def on_env_def split: prod.splits sum.splits)
  show "queued (env a') < queued (env a)"
    by (rule recv_Some [OF recv])
  with recv_now [OF recv] show "progress start a' < progress start a"
    by (simp add: progress_def)
qed

lemma wait_rbep_returns: "\<exists>q. wait_rbep_type R expected a = Some q"
  unfolding wait_rbep_type_def
proof (rule loop_returns [where I = "\<lambda>_. True" and m = "progress (os_now R (env a))"])
  fix s
  obtain r s' where recv: "recv_rbep R s = (r, s')"
    by fastforce
  show "(\<exists>q. wait_rbep_step R expected (os_now R (env a)) s = Some (Done q)) \<or>
    (\<exists>s'. wait_rbep_step R expected (os_now R (env a)) s = Some (Again s') \<and> True \<and>
       progress (os_now R (env a)) s' < progress (os_now R (env a)) s)"
    using recv recv_delay_progress [OF recv] recv_message_progress [of s _ s']
    by (auto simp: wait_rbep_step_def split: sum.splits option.splits)
qed simp

lemma init_message_queued:
  "init_message R m t r a = (x, a') \<Longrightarrow> queued (env a') = queued (env a)"
  by (auto simp: init_message_def split: if_splits option.splits sum.splits)

lemma init_message_loop_returns:
  "\<exists>x a'. loop (init_message_step R t r start) a = Some (x, a') \<and> (isl x \<or> queued (env a') < queued (env a))"
proof -
  have round: "(\<exists>q. init_message_step R t r start s = Some (Done q) \<and>
        (isl (fst q) \<or> queued (env (snd q)) < queued (env s))) \<or>
    (\<exists>s'. init_message_step R t r start s = Some (Again s') \<and> queued (env s') \<le> queued (env s) \<and>
       progress start s' < progress start s)" for s
  proof -
    obtain x s' where recv: "recv_rbep R s = (x, s')"
      by fastforce
    have "queued (env (delay R s')) \<le> queued (env s)"
      using recv recv_queued [of "env s"] delay_queued [of "env s'"]
      by (fastforce simp: recv_rbep_def on_env_def delay_def split: prod.splits sum.splits)
    then show ?thesis
      using recv recv_delay_progress [OF recv] recv_message_progress(1) [of s _ s']
        init_message_queued [of _ t r s']
      by (cases "init_message R (the (projr x)) t r s'")
        (auto simp: init_message_step_def split: sum.splits option.splits)
  qed
  have "\<exists>q. loop (init_message_step R t r start) a = Some q"
    by (rule loop_returns [where I = "\<lambda>_. True" and m = "progress start"]) (use round in blast)+
  then obtain x a' where run: "loop (init_message_step R t r start) a = Some (x, a')"
    by auto
  then have "isl (fst (x, a')) \<or> queued (env (snd (x, a'))) < queued (env a)"
  proof (rule loop_rule [where I = "\<lambda>s. queued (env s) \<le> queued (env a)"])
    fix s s'
    assume "queued (env s) \<le> queued (env a)" "init_message_step R t r start s = Some (Again s')"
    then show "queued (env s') \<le> queued (env a)"
      using round [of s] by auto
  next
    fix s q
    assume "queued (env s) \<le> queued (env a)" "init_message_step R t r start s = Some (Done q)"
    then show "isl (fst q) \<or> queued (env (snd q)) < queued (env a)"
      using round [of s] by auto
  qed simp
  with run show ?thesis
    by simp
qed

lemma wait_init_returns: "\<exists>q. wait_init_ringbuffers R a = Some q"
  unfolding wait_init_ringbuffers_def
proof (rule loop_returns [where I = "\<lambda>_. True" and m = "\<lambda>(a, t, r). queued (env a)"])
  fix s :: "'s afk_endpoint \<times> bool \<times> bool"
  obtain a t r where s: "s = (a, t, r)" by (cases s)
  obtain x a' where "loop (init_message_step R t r (os_now R (env a))) a = Some (x, a')"
    "isl x \<or> queued (env a') < queued (env a)"
    using init_message_loop_returns by blast
  then show "(\<exists>q. init_rings_step R s = Some (Done q)) \<or> (\<exists>s'. init_rings_step R s = Some (Again s') \<and>
      True \<and> (case s' of (a, t, r) \<Rightarrow> queued (env a)) < (case s of (a, t, r) \<Rightarrow> queued (env a)))"
    by (cases x) (auto simp: s init_rings_step_def)
qed simp

lemma start_returns: "\<exists>q. afk_start R a = Some q"
proof -
  have total: "\<exists>q. total_step m s = Some q" for m :: "('s, 'x) afk_op" and s
    by (simp add: total_step_def)
  show ?thesis
    unfolding afk_start_def handle_getbuf_def
    by (intro may_bind_returns total wait_rbep_returns wait_init_returns)
qed

lemma drain_returns: "\<exists>a'. drain_rbep R a = Some a'"
  unfolding drain_rbep_def
proof (rule loop_returns [where I = "\<lambda>_. True" and m = "\<lambda>a. queued (env a)"])
  fix s
  obtain r s' where recv: "recv_rbep R s = (r, s')"
    by fastforce
  then show "(\<exists>q. drain_step R s = Some (Done q)) \<or>
    (\<exists>s'. drain_step R s = Some (Again s') \<and> True \<and> queued (env s') < queued (env s))"
    using recv_message_progress(1) [of s _ s'] by (auto simp: drain_step_def split: sum.splits option.splits)
qed simp

end

section \<open>The contract of sending\<close>

context shared_memory
begin

lemma send_rbep_memory: "send_rbep R ty p a = (r, a') \<Longrightarrow> memory R a' = memory R a"
  by (auto simp: send_rbep_def on_env_def memory_def dest: send_memory split: prod.splits sum.splits)

lemma memory_set_memory: "memory R (set_memory R m a) = m"
  by (simp add: memory_def set_memory_def memory_set)

lemma afk_send_cases:
  assumes "afk_send R c t d a = (r, a')"
  obtains e where "afk_enqueue (tx a) c t d (memory R a) = Inl e" and "r = Inl e" and "a' = a"
  | m w where "afk_enqueue (tx a) c t d (memory R a) = Inr (m, w)" and "memory R a' = m"
      and "send_rbep R RBEP_SEND (of_nat w) (set_memory R m a) = (r, a')"
proof (cases "afk_enqueue (tx a) c t d (memory R a)")
  case (Inl e)
  with assms show ?thesis
    by (intro that(1) [of e]) (auto simp: afk_send_def)
next
  case (Inr p)
  obtain m w where p: "p = (m, w)" by (cases p)
  with assms Inr have send: "send_rbep R RBEP_SEND (of_nat w) (set_memory R m a) = (r, a')"
    by (simp add: afk_send_def)
  then have "memory R a' = m"
    using send_rbep_memory memory_set_memory by metis
  with Inr p send show ?thesis
    by (intro that(2)) simp_all
qed

end

section \<open>The endpoint on RTKit\<close>

text \<open>
  The remote processor an AFK endpoint is created with: endpoint \<open>e\<close> of an RTKit instance,
  over a kernel state whose first component is the memory. \<open>free\<close> gives pages back and
  \<open>virt\<close> is the direct map.
\<close>

definition rtkit_remoteproc :: "(mem \<times> 'k) platform \<Rightarrow> u8 \<Rightarrow>
    (nat \<Rightarrow> nat \<Rightarrow> mem \<times> 'k \<Rightarrow> mem \<times> 'k) \<Rightarrow> (nat \<Rightarrow> nat) \<Rightarrow> (mem \<times> 'k) rtkit remoteproc" where
  "rtkit_remoteproc P e free virt = \<lparr>
     service_available = get_service (ucast e) \<noteq> None,
     srv_send = service_send e,
     srv_try_recv = service_try_recv P e,
     rp_map_dma = map_dma P,
     rp_unmap_dma = unmap_dma P,
     rp_dma_alignment = dma_alignment P,
     os_alloc_pages = (\<lambda>n al r. case alloc_pages P n al (kern r) of (p, d) \<Rightarrow> (p, r\<lparr>kern := d\<rparr>)),
     os_free_pages = (\<lambda>p n r. r\<lparr>kern := free p n (kern r)\<rparr>),
     os_virt = virt,
     os_memory = (\<lambda>r. fst (kern r)),
     os_set_memory = (\<lambda>m r. r\<lparr>kern := (m, snd (kern r))\<rparr>),
     os_now = (\<lambda>r. now (rt_asc r)),
     os_delay = (\<lambda>r. r\<lparr>rt_asc := udelay 1 (rt_asc r)\<rparr>)\<rparr>"

text \<open>All messages that have not been handed to a client.\<close>

definition unread :: "'d rtkit \<Rightarrow> nat" where
  "unread r = waiting r + length (pending_messages r)"

definition took :: "'d rtkit \<Rightarrow> rtkit_error + 'm option \<Rightarrow> 'd rtkit \<Rightarrow> bool" where
  "took r x r' \<longleftrightarrow> (if \<exists>m. x = Inr (Some m) then unread r = Suc (unread r') else unread r' \<le> unread r)"

lemma take_pending_length: "take_pending e ms = Some (m, rest) \<Longrightarrow> length ms = Suc (length rest)"
  by (induction ms arbitrary: rest) (auto split: if_splits)

lemma rtkit_recv_unread:
  assumes "rtkit_recv P r = (x, r')"
  shows "took r x r'"
    and "pending_messages r' = pending_messages r"
proof -
  show pending: "pending_messages r' = pending_messages r"
    by (rule rtkit_recv_undelivered(1) [OF assms])
  have "waiting r' \<le> waiting r"
    using rtkit_recv_incoming [OF assms] asc_recv_waiting [of r] waiting_incoming
    by (metis le_SucI order_refl)
  then show "took r x r'"
    using rtkit_recv_waiting [of P r _ r'] assms pending
    by (auto simp: unread_def took_def)
qed

lemma recv_endpoint_loop_unread:
  "recv_endpoint_loop P e r = (x, r') \<Longrightarrow>
     took r x r' \<and>
     now (rt_asc r) \<le> now (rt_asc r')"
proof (induction P e r arbitrary: x r' rule: recv_endpoint_loop.induct)
  case (1 P e r)
  obtain q r1 where recv: "rtkit_recv P r = (q, r1)"
    by fastforce
  note facts = rtkit_recv_unread [OF recv] rtkit_recv_time [OF recv]
  show ?case
  proof (cases "\<exists>m. q = Inr (Some m) \<and> ep m \<noteq> e")
    case False
    then have "(x, r') = (q, r1)"
      using 1(2) recv by (cases q) (auto simp: recv_endpoint_loop.simps [of P e r] split: option.splits)
    with facts show ?thesis
      by simp
  next
    case True
    then obtain m where m: "q = Inr (Some m)" "ep m \<noteq> e" by blast
    let ?r2 = "r1\<lparr>pending_messages := pending_messages r1 @ [m]\<rparr>"
    have "recv_endpoint_loop P e ?r2 = (x, r')"
      using 1(2) recv m by (subst (asm) recv_endpoint_loop.simps) simp
    from 1(1) [OF recv [symmetric] m(1) refl m(2) this]
    have rest: "took ?r2 x r'"
      "now (rt_asc ?r2) \<le> now (rt_asc r')"
      by blast+
    have "unread ?r2 = unread r"
      using facts(1) m(1) by (simp add: unread_def took_def)
    with rest facts(3) show ?thesis
      by (auto simp: took_def split: if_splits)
  qed
qed

lemma recv_endpoint_unread:
  assumes "recv_endpoint P e r = (x, r')"
  shows "took r x r'"
    and "now (rt_asc r) \<le> now (rt_asc r')"
  using assms recv_endpoint_loop_unread [of P e r x r']
  by (auto simp: recv_endpoint_def unread_def waiting_def took_def dest: take_pending_length
      split: option.splits if_splits)

lemma service_try_recv_cases:
  assumes "service_try_recv P e r = (x, r')"
  obtains y where "recv_endpoint P e r = (y, r')"
    and "x = (case y of Inl _ \<Rightarrow> Inl TransportError | Inr m \<Rightarrow> Inr (map_option msg m))"
  using assms by (cases "recv_endpoint P e r")
    (auto simp: service_try_recv_def try_bind_def map_error_def split: sum.splits)

lemma rtkit_try_recv:
  assumes "srv_try_recv (rtkit_remoteproc P e free virt) r = (x, r')"
  shows "unread r' \<le> unread r" and "now (rt_asc r) \<le> now (rt_asc r')"
    and "x = Inr (Some w) \<Longrightarrow> unread r' < unread r"
proof -
  have "service_try_recv P e r = (x, r')"
    using assms by (simp add: rtkit_remoteproc_def)
  then obtain y where y: "recv_endpoint P e r = (y, r')"
    and x: "x = (case y of Inl _ \<Rightarrow> Inl TransportError | Inr m \<Rightarrow> Inr (map_option msg m))"
    by (rule service_try_recv_cases)
  show "unread r' \<le> unread r"
    using recv_endpoint_unread(1) [OF y] by (auto simp: took_def split: if_splits)
  show "now (rt_asc r) \<le> now (rt_asc r')"
    by (rule recv_endpoint_unread(2) [OF y])
  show "unread r' < unread r" if "x = Inr (Some w)"
    using recv_endpoint_unread(1) [OF y] x that by (cases y) (auto simp: took_def split: if_splits)
qed

interpretation rtkit_service: polled_service "rtkit_remoteproc P e free virt" unread for P e free virt
proof unfold_locales
  fix r :: "(mem \<times> 'a) rtkit"
  let ?R = "rtkit_remoteproc P e free virt"
  fix x r'
  assume recv: "srv_try_recv ?R r = (x, r')"
  show "unread r' \<le> unread r"
    by (rule rtkit_try_recv(1) [OF recv])
  show "os_now ?R r \<le> os_now ?R r'"
    using rtkit_try_recv(2) [OF recv] by (simp add: rtkit_remoteproc_def)
next
  fix r r' :: "(mem \<times> 'a) rtkit" and w
  assume "srv_try_recv (rtkit_remoteproc P e free virt) r = (Inr (Some w), r')"
  then show "unread r' < unread r"
    using rtkit_try_recv(3) by blast
qed (simp_all add: rtkit_remoteproc_def unread_def waiting_def udelay_def)

interpretation rtkit_memory: shared_memory "rtkit_remoteproc P e free virt" for P e free virt
proof unfold_locales
  fix m w x and r r' :: "(mem \<times> 'a) rtkit"
  show "os_memory (rtkit_remoteproc P e free virt) (os_set_memory (rtkit_remoteproc P e free virt) m r) = m"
    by (simp add: rtkit_remoteproc_def)
  assume "srv_send (rtkit_remoteproc P e free virt) w r = (x, r')"
  then show "os_memory (rtkit_remoteproc P e free virt) r' = os_memory (rtkit_remoteproc P e free virt) r"
    by (auto simp: rtkit_remoteproc_def service_send_def map_error_def
        dest!: send_fields split: if_splits prod.splits sum.splits)
qed

text \<open>
  On RTKit the handshake always returns, although the wait for the ring announcements
  starts its time limit anew with every message: the time limit bounds the waiting, and the
  number of messages that arrive bounds the rest.
\<close>

theorem afk_start_returns: "\<exists>q. afk_start (rtkit_remoteproc P e free virt) a = Some q"
  by (rule rtkit_service.start_returns)

text \<open>
  Sending over RTKit appends the message to the transmit queue exactly when it reports
  success or a transport error, and leaves the shared memory alone on the errors of the
  ring: when only the doorbell message could not be sent, the coprocessor still finds the
  message in the queue, so that a caller that tries again sends it twice.
\<close>

theorem afk_send_queues:
  fixes P :: "(mem \<times> 'k) platform" and e free virt
  defines "R \<equiv> rtkit_remoteproc P e free virt"
  assumes "ring_holds (tx a) (memory R a) msgs" and "afk_send R c t d a = (res, a')"
  shows "case res of
      Inl (RemoteprocFailed _) \<Rightarrow> ring_holds (tx a) (memory R a') (msgs @ [(c, t, d)])
    | Inr _ \<Rightarrow> ring_holds (tx a) (memory R a') (msgs @ [(c, t, d)])
    | Inl _ \<Rightarrow> memory R a' = memory R a"
proof -
  have send: "afk_send (rtkit_remoteproc P e free virt) c t d a = (res, a')"
    using assms(3) by (simp add: R_def)
  show ?thesis
  proof (rule rtkit_memory.afk_send_cases [OF send, folded R_def], goal_cases)
    case (1 x)
    then have "x \<in> {TxNotReady, TxFull, AfkPanic}"
      by (auto simp: afk_enqueue_def Let_def split: if_splits option.splits bool.splits)
    with 1 show ?thesis
      by auto
  next
    case (2 m w)
    then have "ring_holds (tx a) m (msgs @ [(c, t, d)])"
      using enqueue_holds [of "tx a" "memory R a" msgs c t d m w] assms(2) by simp
    moreover have "res = Inr () \<or> (\<exists>x. res = Inl (RemoteprocFailed x))"
      using 2(3) by (auto simp: send_rbep_def on_env_def split: prod.splits sum.splits)
    ultimately show ?thesis
      using 2(2) by auto
  qed
qed

text \<open>An endpoint on an idle RTKit instance, with an empty transmit ring.\<close>

definition memory_platform :: "(mem \<times> unit) platform" where
  "memory_platform = \<lparr>page_size = 4096, alloc_pages = (\<lambda>_ _ d. (Some 0x10000, d)),
     zero_bytes = (\<lambda>_ _ d. d), read_phys = (\<lambda>a d. fst d a), memremap = (\<lambda>_ _ _. None), dma_mapper = None\<rparr>"

definition sending_endpoint :: "(mem \<times> unit) rtkit afk_endpoint" where
  "sending_endpoint = \<lparr>env = rtkit_new asc_new ((\<lambda>_. 0), ()), shared = None, tx = example_ring,
     rx = afk_ring_new, started = True\<rparr>"

abbreviation (input) example_processor :: "(mem \<times> unit) rtkit remoteproc" where
  "example_processor \<equiv> rtkit_remoteproc memory_platform 0x20 (\<lambda>_ _ d. d) (\<lambda>p. p)"

lemma afk_send_queues_witness:
  "\<exists>a'. afk_send example_processor 1 2 [7] sending_endpoint = (Inr (), a') \<and>
     ring_holds example_ring (memory example_processor a') [(1, 2, [7])]"
proof -
  have empty: "memory example_processor sending_endpoint = (\<lambda>_. 0)"
    "tx sending_endpoint = example_ring"
    by (simp_all add: memory_def sending_endpoint_def rtkit_remoteproc_def rtkit_new_def)
  obtain m1 where "afk_put example_ring (1, 2, [7]) (\<lambda>_. 0) = Some m1"
    using example_ring_put [of "[7]"] by (auto simp: block_align_up_def)
  then obtain m' new where enq: "afk_enqueue example_ring 1 2 [7] (\<lambda>_. 0) = Inr (m', new)"
    by (auto simp: afk_put_def split: sum.splits)
  obtain r a' where send: "afk_send example_processor 1 2 [7] sending_endpoint = (r, a')"
    by fastforce
  have "r = Inr ()"
    using send enq empty
    by (auto simp: afk_send_def send_rbep_def on_env_def set_memory_def rtkit_remoteproc_def
        service_send_def map_error_def message_one_def rtkit_send_ready sending_endpoint_def
        rtkit_new_def asc_new_def)
  then show ?thesis
    using afk_send_queues [OF _ send, of "[]"] example_ring_empty empty send by simp
qed

text \<open>A processor that plays a script: messages, each after writing one word to memory.\<close>

type_synonym script = "(nat \<times> u32 \<times> u64) list \<times> mem \<times> nat"

definition scripted :: "script remoteproc" where
  "scripted = \<lparr>service_available = True,
     srv_send = (\<lambda>_ s. (Inr (), s)),
     srv_try_recv = (\<lambda>(ms, m, t). case ms of
        [] \<Rightarrow> (Inr None, ([], m, t))
      | (a, v, w) # rest \<Rightarrow> (Inr (Some w), (rest, put32 m a v, t))),
     rp_map_dma = (\<lambda>p _ s. (Inr (of_nat p), s)), rp_unmap_dma = (\<lambda>_ _ s. s), rp_dma_alignment = 4096,
     os_alloc_pages = (\<lambda>_ _ s. (Some 0x10000, s)), os_free_pages = (\<lambda>_ _ s. s), os_virt = (\<lambda>p. p),
     os_memory = (\<lambda>(_, m, _). m), os_set_memory = (\<lambda>m (ms, _, t). (ms, m, t)),
     os_now = (\<lambda>(_, _, t). t), os_delay = (\<lambda>(ms, m, t). (ms, m, Suc t))\<rparr>"

lemma scripted_ops:
  "os_alloc_pages scripted n al s = (Some 0x10000, s)"
  "rp_map_dma scripted p n s = (Inr (of_nat p), s)"
  "os_virt scripted p = p"
  "rp_dma_alignment scripted = 4096"
  "os_set_memory scripted mm (ms, m, tt) = (ms, mm, tt)"
  "os_memory scripted (ms, m, tt) = m"
  by (simp_all add: scripted_def)

definition handshake :: script where
  "handshake = ([(0, 0, 0x00a0000000000000), (0, 0, 0x0089000000100001),
      (0x10000, 64, 0x008a000000040001), (0x10100, 64, 0x008b000400040001),
      (0, 0, 0x0086000000000000)], (\<lambda>_. 0), 0)"

lemma handshake_fields:
  "field_get 0x00a0000000000000 RBEP_TYPE_MASK = 0xa0" "field_get 0x0089000000100001 RBEP_TYPE_MASK = 0x89"
  "field_get 0x008a000000040001 RBEP_TYPE_MASK = 0x8a" "field_get 0x008b000400040001 RBEP_TYPE_MASK = 0x8b"
  "field_get 0x0086000000000000 RBEP_TYPE_MASK = 0x86"
  "field_get 0x0089000000100001 GETBUF_SIZE_MASK = 16" "field_get 0x0089000000100001 GETBUF_TAG_MASK = 1"
  "field_get 0x008a000000040001 INITRB_OFFSET_MASK = 0" "field_get 0x008a000000040001 GETBUF_SIZE_MASK = 4"
  "field_get 0x008a000000040001 GETBUF_TAG_MASK = 1"
  "field_get 0x008b000400040001 INITRB_OFFSET_MASK = 4" "field_get 0x008b000400040001 GETBUF_SIZE_MASK = 4"
  "field_get 0x008b000400040001 GETBUF_TAG_MASK = 1"
  unfolding field_masks
  by (simp_all add: field_get_block take_bit_eq_mod drop_bit_eq_div)

lemma scripted_wait:
  assumes "env a = ((x, v, w) # rest, m, 0)" and "rbep_type w = expected"
  shows "wait_rbep_type scripted expected a = Some (Inr w, a\<lparr>env := (rest, put32 m x v, 0)\<rparr>)"
  unfolding wait_rbep_type_def
  using assms by (intro loop_Done) (simp add: wait_rbep_step_def scripted_def recv_rbep_def on_env_def)

lemma scripted_send: "send_rbep scripted ty p a = (Inr (), a)"
  by (simp add: send_rbep_def on_env_def scripted_def)

lemma scripted_init:
  assumes "env a = ((x, v, w) # rest, m, 0)"
  shows "loop (init_message_step scripted t r 0) a =
    Some (init_message scripted w t r (a\<lparr>env := (rest, put32 m x v, 0)\<rparr>))"
  using assms by (intro loop_Done) (simp add: init_message_step_def scripted_def recv_rbep_def on_env_def)

lemma handshake_succeeds: "\<exists>a'. afk_start scripted
    \<lparr>env = handshake, shared = None, tx = afk_ring_new, rx = afk_ring_new, started = False\<rparr> = Some (Inr (), a')"
proof -
  let ?a = "\<lambda>e sh t r. \<lparr>env = e, shared = sh, tx = t, rx = r, started = False\<rparr>"
  let ?ms = "[(0x10000, 64, 0x008a000000040001), (0x10100, 64, 0x008b000400040001), (0, 0, 0x0086000000000000)]"
  let ?sh = "\<lparr>sh_virt = 0x10000, sh_paddr = 0x10000, sh_dva = 0x10000, sh_size = 1024, sh_tag = 1\<rparr>"
  have ack: "wait_rbep_type scripted RBEP_INIT_ACK (?a handshake None afk_ring_new afk_ring_new) =
      Some (Inr 0x00a0000000000000, ?a ((0, 0, 0x0089000000100001) # ?ms, put32 (\<lambda>_. 0) 0 0, 0) None afk_ring_new afk_ring_new)"
    by (subst scripted_wait) (simp_all add: handshake_def rbep_type_def handshake_fields)
  obtain m where getbuf: "handle_getbuf scripted
      (?a ((0, 0, 0x0089000000100001) # ?ms, put32 (\<lambda>_. 0) 0 0, 0) None afk_ring_new afk_ring_new) =
      Some (Inr (), ?a (?ms, m, 0) (Some ?sh) afk_ring_new afk_ring_new)"
    by (simp add: handle_getbuf_def may_bind_def scripted_wait rbep_type_def handshake_fields total_step_def
        allocate_shared_def scripted_send scripted_ops GETBUF_ACK_DVA_MASK_def)
  let ?t = "\<lparr>rb_hdr = 0x10000, rb_buf = 0x100C0, rb_bufsz = 64, rb_ready = True\<rparr>"
  let ?r = "\<lparr>rb_hdr = 0x10100, rb_buf = 0x101C0, rb_bufsz = 64, rb_ready = True\<rparr>"
  let ?m1 = "put32 m 0x10000 64"
  let ?m2 = "put32 ?m1 0x10100 64"
  have rings: "wait_init_ringbuffers scripted (?a (?ms, m, 0) (Some ?sh) afk_ring_new afk_ring_new) =
      Some (Inr (), ?a (tl (tl ?ms), ?m2, 0) (Some ?sh) ?t ?r)"
  proof -
    have mem: "memory scripted (?a (ms, mm, 0) sh t r) = mm" for ms mm sh t r
      by (simp add: memory_def scripted_def)
    have now: "os_now scripted (ms, mm, 0) = 0" for ms mm
      by (simp add: scripted_def)
    have "init_rings_step scripted (?a (?ms, m, 0) (Some ?sh) afk_ring_new afk_ring_new, False, False) =
        Some (Again (?a (tl ?ms, ?m1, 0) (Some ?sh) ?t afk_ring_new, True, False))"
      by (simp add: init_rings_step_def now scripted_init init_message_def rbep_type_def handshake_fields
          init_ring_buffer_def mem)
    moreover have "init_rings_step scripted (?a (tl ?ms, ?m1, 0) (Some ?sh) ?t afk_ring_new, True, False) =
        Some (Again (?a (tl (tl ?ms), ?m2, 0) (Some ?sh) ?t ?r, True, True))"
      by (simp add: init_rings_step_def now scripted_init init_message_def rbep_type_def handshake_fields
          init_ring_buffer_def mem)
    moreover have "init_rings_step scripted (?a (tl (tl ?ms), ?m2, 0) (Some ?sh) ?t ?r, True, True) =
        Some (Done (Inr (), ?a (tl (tl ?ms), ?m2, 0) (Some ?sh) ?t ?r))"
      by (simp add: init_rings_step_def)
    ultimately show ?thesis
      by (simp only: wait_init_ringbuffers_def loop_Again loop_Done)
  qed
  have "wait_rbep_type scripted RBEP_START_ACK (?a (tl (tl ?ms), ?m2, 0) (Some ?sh) ?t ?r) =
      Some (Inr 0x0086000000000000, ?a ([], put32 ?m2 0 0, 0) (Some ?sh) ?t ?r)"
    by (subst scripted_wait) (simp_all add: rbep_type_def handshake_fields)
  then show ?thesis
    by (simp add: afk_start_def may_bind_Some ack getbuf rings scripted_send)
qed

lemma afk_start_rings_inside_witness:
  "\<exists>a' sh. afk_start scripted
     \<lparr>env = handshake, shared = None, tx = afk_ring_new, rx = afk_ring_new, started = False\<rparr> = Some (Inr (), a') \<and>
     shared a' = Some sh \<and> ring_inside sh (tx a') \<and> ring_inside sh (rx a')"
  using handshake_succeeds afk_start_rings_inside by blast

end
