(* ===== verification/LeBytes.thy ===== *)
theory LeBytes
  imports Prelude
begin

text \<open>
  Byte strings, the little-endian integers in them, and Rust's string operations on bytes that the
  protocol and format parsers share.
\<close>

type_synonym bytes = "u8 list"

text \<open>\<open>u32::from_le_bytes\<close> and \<open>i64::from_le_bytes\<close>.\<close>

definition from_le_bytes :: "bytes \<Rightarrow> 'a::len word" where
  "from_le_bytes bs = foldr (\<lambda>b acc. ucast b OR push_bit 8 acc) bs 0"

definition le_bytes :: "nat \<Rightarrow> 'a::len word \<Rightarrow> bytes" where
  "le_bytes n w = map (\<lambda>i. ucast (drop_bit (8 * i) w)) [0..<n]"

text \<open>Byte string literals.\<close>

definition ascii :: "string \<Rightarrow> bytes" where
  "ascii = map (\<lambda>c. of_nat (of_char c))"

text \<open>
  \<open>String::from_utf8_lossy\<close>: the continuation bytes that may follow a lead byte, and the text
  with each maximal malformed part replaced by U+FFFD.
\<close>

definition utf8_ranges :: "u8 \<Rightarrow> (u8 \<times> u8) list option" where
  "utf8_ranges b =
     (if b < 0x80 then Some []
      else if 0xC2 \<le> b \<and> b \<le> 0xDF then Some [(0x80, 0xBF)]
      else if b = 0xE0 then Some [(0xA0, 0xBF), (0x80, 0xBF)]
      else if b = 0xED then Some [(0x80, 0x9F), (0x80, 0xBF)]
      else if 0xE1 \<le> b \<and> b \<le> 0xEF then Some [(0x80, 0xBF), (0x80, 0xBF)]
      else if b = 0xF0 then Some [(0x90, 0xBF), (0x80, 0xBF), (0x80, 0xBF)]
      else if 0xF1 \<le> b \<and> b \<le> 0xF3 then Some [(0x80, 0xBF), (0x80, 0xBF), (0x80, 0xBF)]
      else if b = 0xF4 then Some [(0x80, 0x8F), (0x80, 0xBF), (0x80, 0xBF)]
      else None)"

definition utf8_follow :: "(u8 \<times> u8) list \<Rightarrow> bytes \<Rightarrow> nat" where
  "utf8_follow rs bs = length (takeWhile (\<lambda>((lo, hi), b). lo \<le> b \<and> b \<le> hi) (zip rs bs))"

function from_utf8_lossy :: "bytes \<Rightarrow> bytes" where
  "from_utf8_lossy [] = []"
| "from_utf8_lossy (b # bs) =
     (case utf8_ranges b of
        None \<Rightarrow> [0xEF, 0xBF, 0xBD] @ from_utf8_lossy bs
      | Some rs \<Rightarrow>
          (let n = utf8_follow rs bs
           in (if n = length rs then b # take n bs else [0xEF, 0xBF, 0xBD]) @ from_utf8_lossy (drop n bs)))"
  by pat_completeness auto
termination
  by (relation "measure length") auto

text \<open>Integers at an offset of a packed structure.\<close>

definition le_at :: "bytes \<Rightarrow> nat \<Rightarrow> nat \<Rightarrow> 'a::len word" where
  "le_at bs off n = from_le_bytes (take n (drop off bs))"

lemma bit_from_le_bytes:
  "i < LENGTH('a) \<Longrightarrow>
   bit (from_le_bytes bs :: 'a::len word) i \<longleftrightarrow> i div 8 < length bs \<and> bit (bs ! (i div 8)) (i mod 8)"
proof (induction bs arbitrary: i)
  case (Cons b bs)
  show ?case
  proof (cases "i < 8")
    case True
    then show ?thesis
      using Cons.prems by (simp add: from_le_bytes_def bit_or_iff bit_push_bit_iff bit_ucast_iff)
  next
    case False
    then obtain j where j: "i = 8 + j"
      by (metis le_Suc_ex not_less)
    have small: "\<not> bit b (8 + j)"
      using bit_imp_le_length [of b "8 + j"] by auto
    have "(8 + j) div 8 = Suc (j div 8)"
      by simp
    then show ?thesis
      using Cons.IH [of j] Cons.prems small
      by (simp add: j from_le_bytes_def bit_or_iff bit_push_bit_iff bit_ucast_iff)
  qed
qed (simp add: from_le_bytes_def)

lemma from_le_bytes_le_bytes: "8 * n = LENGTH('a) \<Longrightarrow> from_le_bytes (le_bytes n w) = (w :: 'a::len word)"
  by (rule bit_word_eqI)
    (auto simp: bit_from_le_bytes le_bytes_def bit_ucast_iff bit_drop_bit_eq)

lemma length_le_bytes [simp]: "length (le_bytes n w) = n"
  by (simp add: le_bytes_def)

lemma le_at_append_drop: "length xs \<le> off \<Longrightarrow> le_at (xs @ ys) off n = le_at ys (off - length xs) n"
  by (simp add: le_at_def)

lemma le_at_here: "8 * n = LENGTH('a) \<Longrightarrow> le_at (le_bytes n w @ ys) 0 n = (w :: 'a::len word)"
  by (simp add: le_at_def from_le_bytes_le_bytes)

end
