(* ===== verification/Epic.thy ===== *)
theory Epic
  imports AfkEndpoint LeBytes
begin

text \<open>
  The EPIC service protocol of \<^verbatim>\<open>drivers/soc/apple-epic\<close> on an AFK endpoint: the packed wire
  structures as byte strings, service discovery, commands with their shared DMA buffers, the wait
  for a reply, and the calls that the coprocessor makes itself.
\<close>

section \<open>Constants and state\<close>

abbreviation (input) EPIC_HDR_VERSION :: u8 where "EPIC_HDR_VERSION \<equiv> 2"
abbreviation (input) EPIC_SUBHDR_VERSION :: u8 where "EPIC_SUBHDR_VERSION \<equiv> 4"
abbreviation (input) EPIC_BUFFER_SIZE :: nat where "EPIC_BUFFER_SIZE \<equiv> 0x4000"
definition EPIC_SERVICE_CALL_MAGIC :: u32 where "EPIC_SERVICE_CALL_MAGIC = 0x69706378"
abbreviation (input) EPIC_REPLY_TIMEOUT_US :: nat where "EPIC_REPLY_TIMEOUT_US \<equiv> 5000000"
abbreviation (input) TYPE_NOTIFY :: u32 where "TYPE_NOTIFY \<equiv> 0"
abbreviation (input) TYPE_COMMAND :: u32 where "TYPE_COMMAND \<equiv> 3"
abbreviation (input) TYPE_REPLY :: u32 where "TYPE_REPLY \<equiv> 4"
abbreviation (input) TYPE_NOTIFY_ACK :: u32 where "TYPE_NOTIFY_ACK \<equiv> 8"
abbreviation (input) CAT_REPORT :: u8 where "CAT_REPORT \<equiv> 0x00"
abbreviation (input) CAT_NOTIFY :: u8 where "CAT_NOTIFY \<equiv> 0x10"
abbreviation (input) CAT_REPLY :: u8 where "CAT_REPLY \<equiv> 0x20"
abbreviation (input) CAT_COMMAND :: u8 where "CAT_COMMAND \<equiv> 0x30"
abbreviation (input) SUBTYPE_ANNOUNCE :: u16 where "SUBTYPE_ANNOUNCE \<equiv> 0x30"
abbreviation (input) SUBTYPE_STD_SERVICE :: u16 where "SUBTYPE_STD_SERVICE \<equiv> 0xc0"

text \<open>Sizes of the packed structures.\<close>

abbreviation (input) SIZE_HDR :: nat where "SIZE_HDR \<equiv> 16"
abbreviation (input) SIZE_HEADERS :: nat where "SIZE_HEADERS \<equiv> 40"
abbreviation (input) SIZE_CMD :: nat where "SIZE_CMD \<equiv> 30"
abbreviation (input) SIZE_CALL :: nat where "SIZE_CALL \<equiv> 64"
abbreviation (input) SIZE_AP_CALL :: nat where "SIZE_AP_CALL \<equiv> 68"
abbreviation (input) SIZE_ANNOUNCE :: nat where "SIZE_ANNOUNCE \<equiv> 32"

datatype epic_error = Transport afk_error | Epic string

record epic_dma =
  tx_virt :: nat
  tx_paddr :: nat
  tx_dva :: u64
  rx_virt :: nat
  rx_paddr :: nat
  rx_dva :: u64

record epic_service =
  svc_name :: bytes
  svc_channel :: u32
  svc_seq :: u16

text \<open>
  The handlers are functions of the kernel; they act on the environment. A service call handler is
  given the request and a zeroed reply buffer, and returns the contents of the buffer.
\<close>

type_synonym 's notify_handler = "u32 \<Rightarrow> u16 \<Rightarrow> bytes \<Rightarrow> 's \<Rightarrow> 's"
type_synonym 's service_call_handler = "u32 \<Rightarrow> u32 \<Rightarrow> bytes \<Rightarrow> bytes \<Rightarrow> 's \<Rightarrow> (string + bytes) \<times> 's"

record 's epic =
  ep_afk :: "'s afk_endpoint"
  ep_dma :: epic_dma
  ep_seq :: u16
  ep_services :: "epic_service list"
  ep_notify :: "'s notify_handler option"
  ep_handler :: "'s service_call_handler option"

type_synonym ('s, 'a) epic_op = "('s epic, epic_error, 'a) stepper"
type_synonym ('s, 'a) epic_may = "('s epic, epic_error, 'a) may_step"

definition on_afk :: "('s, 'a) afk_op \<Rightarrow> ('s, 'a) epic_op" where
  "on_afk f e = (case f (ep_afk e) of
     (Inl x, a) \<Rightarrow> (Inl (Transport x), e\<lparr>ep_afk := a\<rparr>)
   | (Inr x, a) \<Rightarrow> (Inr x, e\<lparr>ep_afk := a\<rparr>))"

definition epic_memory :: "'s remoteproc \<Rightarrow> 's epic \<Rightarrow> mem" where
  "epic_memory R e = memory R (ep_afk e)"

definition set_epic_memory :: "'s remoteproc \<Rightarrow> mem \<Rightarrow> 's epic \<Rightarrow> 's epic" where
  "set_epic_memory R m e = e\<lparr>ep_afk := set_memory R m (ep_afk e)\<rparr>"

definition spin :: "'s remoteproc \<Rightarrow> 's epic \<Rightarrow> 's epic" where
  "spin R e = e\<lparr>ep_afk := delay R (ep_afk e)\<rparr>"

definition epic_now :: "'s remoteproc \<Rightarrow> 's epic \<Rightarrow> nat" where
  "epic_now R e = os_now R (env (ep_afk e))"

section \<open>Wire structures\<close>

definition epic_headers :: "u8 \<Rightarrow> u16 \<Rightarrow> u16 \<Rightarrow> u16 \<Rightarrow> u32 \<Rightarrow> u32 \<Rightarrow> bytes" where
  "epic_headers category msg_type header_seq sub_seq payload_len inline_len =
     [EPIC_HDR_VERSION] @ le_bytes 2 header_seq @ [0] @ le_bytes 4 (0 :: u32) @ le_bytes 8 (0 :: u64) @
     le_bytes 4 payload_len @ [EPIC_SUBHDR_VERSION, category] @ le_bytes 2 msg_type @
     le_bytes 8 (0 :: u64) @ le_bytes 2 sub_seq @ le_bytes 2 (0 :: u16) @ le_bytes 4 inline_len"

definition write_epic_headers :: "bytes \<Rightarrow> u8 \<Rightarrow> u16 \<Rightarrow> u16 \<Rightarrow> u16 \<Rightarrow> u32 \<Rightarrow> bytes" where
  "write_epic_headers buf category msg_type header_seq sub_seq payload_len =
     epic_headers category msg_type header_seq sub_seq payload_len 0 @ drop SIZE_HEADERS buf"

record epic_sub_hdr =
  sub_length :: u32
  sub_category :: u8
  sub_type :: u16
  sub_seq :: u16
  sub_inline_len :: u32

definition read_sub_hdr :: "bytes \<Rightarrow> epic_sub_hdr" where
  "read_sub_hdr payload =
     \<lparr>sub_length = le_at payload 16 4, sub_category = le_at payload 21 1,
      sub_type = le_at payload 22 2, sub_seq = le_at payload 32 2, sub_inline_len = le_at payload 36 4\<rparr>"

definition epic_cmd :: "u64 \<Rightarrow> u64 \<Rightarrow> u32 \<Rightarrow> u32 \<Rightarrow> bytes" where
  "epic_cmd rxbuf txbuf rxlen txlen =
     le_bytes 4 (0 :: u32) @ le_bytes 8 rxbuf @ le_bytes 8 txbuf @ le_bytes 4 rxlen @ le_bytes 4 txlen @ [0, 0]"

definition service_call_header :: "u16 \<Rightarrow> u32 \<Rightarrow> u32 \<Rightarrow> bytes" where
  "service_call_header grp command data_len =
     [0, 0] @ le_bytes 2 grp @ le_bytes 4 command @ le_bytes 4 data_len @
     le_bytes 4 EPIC_SERVICE_CALL_MAGIC @ replicate 48 0"

section \<open>Construction\<close>

text \<open>The DMA buffers: every step that fails gives back what the earlier ones took.\<close>

definition epic_dma_alloc :: "'s remoteproc \<Rightarrow> ('s, epic_error, epic_dma) stepper" where
  "epic_dma_alloc R s =
     (let pages = (EPIC_BUFFER_SIZE + 4095) div 4096;
          align_pages = (rp_dma_alignment R + 4095) div 4096
      in case os_alloc_pages R pages align_pages s of
           (None, s1) \<Rightarrow> (Inl (Epic ''apple-epic: failed to allocate TX DMA buffer''), s1)
         | (Some txp, s1) \<Rightarrow>
        (case os_alloc_pages R pages align_pages s1 of
           (None, s2) \<Rightarrow> (Inl (Epic ''apple-epic: failed to allocate RX DMA buffer''), os_free_pages R txp pages s2)
         | (Some rxp, s2) \<Rightarrow>
        (let txv = os_virt R txp; rxv = os_virt R rxp;
             m = put_bytes (put_bytes (os_memory R s2) txv (replicate EPIC_BUFFER_SIZE 0))
                   rxv (replicate EPIC_BUFFER_SIZE 0);
             s3 = os_set_memory R m s2
         in case rp_map_dma R txp EPIC_BUFFER_SIZE s3 of
              (Inl _, s4) \<Rightarrow> (Inl (Epic ''apple-epic: failed to map TX DMA buffer''),
                os_free_pages R rxp pages (os_free_pages R txp pages s4))
            | (Inr txd, s4) \<Rightarrow>
           (case rp_map_dma R rxp EPIC_BUFFER_SIZE s4 of
              (Inl _, s5) \<Rightarrow> (Inl (Epic ''apple-epic: failed to map RX DMA buffer''),
                os_free_pages R rxp pages (os_free_pages R txp pages (rp_unmap_dma R txd EPIC_BUFFER_SIZE s5)))
            | (Inr rxd, s5) \<Rightarrow>
                (Inr \<lparr>tx_virt = txv, tx_paddr = txp, tx_dva = txd, rx_virt = rxv, rx_paddr = rxp, rx_dva = rxd\<rparr>,
                 s5)))))"

definition epic_dma_drop :: "'s remoteproc \<Rightarrow> epic_dma \<Rightarrow> 's \<Rightarrow> 's" where
  "epic_dma_drop R d s =
     (let pages = (EPIC_BUFFER_SIZE + 4095) div 4096
      in os_free_pages R (rx_paddr d) pages (os_free_pages R (tx_paddr d) pages
           (rp_unmap_dma R (rx_dva d) EPIC_BUFFER_SIZE (rp_unmap_dma R (tx_dva d) EPIC_BUFFER_SIZE s))))"

definition epic_from_afk :: "'s remoteproc \<Rightarrow> 's afk_endpoint \<Rightarrow> epic_error + 's epic" where
  "epic_from_afk R a =
     (case epic_dma_alloc R (env a) of
        (Inl e, _) \<Rightarrow> Inl e
      | (Inr d, s) \<Rightarrow> Inr \<lparr>ep_afk = a\<lparr>env := s\<rparr>, ep_dma = d, ep_seq = 0, ep_services = [],
          ep_notify = None, ep_handler = None\<rparr>)"

definition epic_new :: "'s remoteproc \<Rightarrow> 's \<Rightarrow> (epic_error + 's epic) option" where
  "epic_new R s =
     (case afk_new R s of
        Inl e \<Rightarrow> Some (Inl (Transport e))
      | Inr a \<Rightarrow>
          (case afk_start R a of
             None \<Rightarrow> None
           | Some (Inl e, _) \<Rightarrow> Some (Inl (Transport e))
           | Some (Inr _, a') \<Rightarrow> Some (epic_from_afk R a')))"

definition set_notify_handler :: "'s notify_handler \<Rightarrow> 's epic \<Rightarrow> 's epic" where
  "set_notify_handler h e = e\<lparr>ep_notify := Some h\<rparr>"

definition set_service_call_handler :: "'s service_call_handler \<Rightarrow> 's epic \<Rightarrow> 's epic" where
  "set_service_call_handler h e = e\<lparr>ep_handler := Some h\<rparr>"

section \<open>Received messages\<close>

definition next_seq :: "'s epic \<Rightarrow> u16 \<times> 's epic" where
  "next_seq e = (ep_seq e, e\<lparr>ep_seq := ep_seq e + 1\<rparr>)"

text \<open>One entry of the receive ring, copied out and acknowledged.\<close>

definition take_entry :: "'s remoteproc \<Rightarrow> ('s, (u32 \<times> u32 \<times> bytes) option) epic_op" where
  "take_entry R e =
     (let a = ep_afk e
      in case afk_recv (rx a) (memory R a) of
           (Inl x, m) \<Rightarrow> (Inl (Transport x), set_epic_memory R m e)
         | (Inr None, m) \<Rightarrow> (Inr None, set_epic_memory R m e)
         | (Inr (Some entry), m) \<Rightarrow>
             (Inr (Some (qe_type entry, qe_channel entry, afk_recv_payload (rx a) m entry)),
              set_epic_memory R (afk_recv_ack (rx a) m) e))"

definition is_service_announce :: "bytes \<Rightarrow> bool" where
  "is_service_announce payload \<longleftrightarrow>
     \<not> length payload < SIZE_HEADERS \<and>
     sub_category (read_sub_hdr payload) = CAT_REPORT \<and> sub_type (read_sub_hdr payload) = SUBTYPE_ANNOUNCE"

definition is_command_reply :: "bytes \<Rightarrow> u16 \<Rightarrow> bool" where
  "is_command_reply payload expected_subtype \<longleftrightarrow>
     \<not> length payload < SIZE_HEADERS \<and>
     sub_category (read_sub_hdr payload) = CAT_REPLY \<and> sub_type (read_sub_hdr payload) = expected_subtype"

definition announced_name :: "bytes \<Rightarrow> bytes" where
  "announced_name payload = from_utf8_lossy (until_nul (take SIZE_ANNOUNCE (drop SIZE_HEADERS payload)))"

definition handle_announce :: "u32 \<Rightarrow> bytes \<Rightarrow> 's epic \<Rightarrow> 's epic" where
  "handle_announce channel payload e =
     (if length payload < SIZE_HEADERS + SIZE_ANNOUNCE then e
      else if \<exists>s\<in>set (ep_services e). svc_channel s = channel then e
      else e\<lparr>ep_services := ep_services e @
        [\<lparr>svc_name = announced_name payload, svc_channel = channel, svc_seq = 0\<rparr>]\<rparr>)"

text \<open>The size of an inline call: the declared one, but not more than what arrived.\<close>

definition inline_size :: "epic_sub_hdr \<Rightarrow> bytes \<Rightarrow> nat" where
  "inline_size sub payload = min (unat (sub_length sub)) (length payload - SIZE_HEADERS)"

definition service_call_reply :: "epic_sub_hdr \<Rightarrow> bytes \<Rightarrow> nat \<Rightarrow> nat \<Rightarrow> bytes \<Rightarrow> u16 \<Rightarrow> bytes" where
  "service_call_reply sub payload payload_size call_size answer header_seq =
     epic_headers CAT_REPLY SUBTYPE_STD_SERVICE header_seq (sub_seq sub) (of_nat payload_size)
       (of_nat (payload_size - 4)) @
     take SIZE_AP_CALL (drop SIZE_HEADERS payload) @ answer @
     replicate (payload_size - (SIZE_AP_CALL + call_size)) 0"

definition handle_service_call :: "'s remoteproc \<Rightarrow> u32 \<Rightarrow> epic_sub_hdr \<Rightarrow> bytes \<Rightarrow> ('s, unit) epic_op" where
  "handle_service_call R channel sub payload e =
     (case ep_handler e of
        None \<Rightarrow> (Inl (Epic ''apple-epic: no standard service callback handler''), e)
      | Some handler \<Rightarrow>
          if length payload < SIZE_HEADERS then (Inl (Epic ''apple-epic: truncated inline service call''), e)
          else let payload_size = inline_size sub payload
          in if payload_size < SIZE_AP_CALL
             then (Inl (Epic ''apple-epic: inline service call header is truncated''), e)
             else let command = le_at payload (SIZE_HEADERS + 8) 4 :: u32;
                      call_size = unat (le_at payload (SIZE_HEADERS + 12) 4 :: u32)
             in if SIZE_AP_CALL + call_size > payload_size
                then (Inl (Epic ''apple-epic: inline service call data is truncated''), e)
                else let request = take call_size (drop (SIZE_HEADERS + SIZE_AP_CALL) payload);
                         (r, s) = handler channel command request (replicate call_size 0) (env (ep_afk e));
                         e1 = e\<lparr>ep_afk := (ep_afk e)\<lparr>env := s\<rparr>\<rparr>
                in case r of
                     Inl x \<Rightarrow> (Inl (Epic x), e1)
                   | Inr answer \<Rightarrow>
                       (let (header_seq, e2) = next_seq e1
                        in on_afk (afk_send R channel TYPE_NOTIFY_ACK
                             (service_call_reply sub payload payload_size call_size answer header_seq)) e2))"

text \<open>Errors of a callback are only printed; an arithmetic panic of the transport is not an error.\<close>

definition printed :: "('s, unit) epic_op \<Rightarrow> ('s, unit) epic_op" where
  "printed f e = (case f e of
     (Inl (Transport AfkPanic), e') \<Rightarrow> (Inl (Transport AfkPanic), e')
   | (_, e') \<Rightarrow> (Inr (), e'))"

definition handle_notify :: "'s remoteproc \<Rightarrow> u32 \<Rightarrow> bytes \<Rightarrow> ('s, unit) epic_op" where
  "handle_notify R channel payload e =
     (if length payload < SIZE_HEADERS then (Inr (), e)
      else let sub = read_sub_hdr payload
      in if sub_category sub = CAT_REPORT \<and> sub_type sub = SUBTYPE_ANNOUNCE
         then (Inr (), handle_announce channel payload e)
         else if sub_category sub = CAT_NOTIFY \<and> sub_type sub = SUBTYPE_STD_SERVICE
         then printed (handle_service_call R channel sub payload) e
         else case ep_notify e of
                Some handler \<Rightarrow>
                  if length payload > SIZE_HEADERS
                  then (Inr (), e\<lparr>ep_afk := (ep_afk e)\<lparr>env :=
                         handler channel (sub_type sub) (drop SIZE_HEADERS payload) (env (ep_afk e))\<rparr>\<rparr>)
                  else (Inr (), e)
              | None \<Rightarrow> (Inr (), e))"

definition handle_notify_ack :: "'s remoteproc \<Rightarrow> u32 \<Rightarrow> bytes \<Rightarrow> ('s, unit) epic_op" where
  "handle_notify_ack R channel payload e =
     (if length payload < SIZE_HEADERS then (Inr (), e)
      else let sub = read_sub_hdr payload;
               ack = write_epic_headers (replicate SIZE_HEADERS 0) CAT_REPLY (sub_type sub) (sub_seq sub) (sub_seq sub) 0
      in printed (on_afk (afk_send R channel TYPE_NOTIFY_ACK ack)) e)"

definition poll_message :: "'s remoteproc \<Rightarrow> u32 \<Rightarrow> u32 \<Rightarrow> bytes \<Rightarrow> ('s, unit) epic_op" where
  "poll_message R msg_type channel payload =
     (if msg_type = TYPE_NOTIFY then handle_notify R channel payload
      else if msg_type = TYPE_REPLY then
        if is_service_announce payload then handle_notify R channel payload
        else handle_notify_ack R channel payload
      else ok ())"

definition poll_step :: "'s remoteproc \<Rightarrow> 's epic \<Rightarrow> ('s epic, (epic_error + unit) \<times> 's epic) loop_step option" where
  "poll_step R e =
     Some (case take_entry R e of
             (Inl x, e1) \<Rightarrow> Done (Inl x, e1)
           | (Inr None, e1) \<Rightarrow> Done (Inr (), e1)
           | (Inr (Some (msg_type, channel, payload)), e1) \<Rightarrow>
               (case poll_message R msg_type channel payload e1 of
                  (Inl x, e2) \<Rightarrow> Done (Inl x, e2)
                | (Inr _, e2) \<Rightarrow> Again e2))"

definition drain :: "'s remoteproc \<Rightarrow> ('s, unit) epic_may" where
  "drain R e = map_option (\<lambda>a. (Inr (), e\<lparr>ep_afk := a\<rparr>)) (drain_rbep R (ep_afk e))"

definition epic_poll :: "'s remoteproc \<Rightarrow> ('s, unit) epic_may" where
  "epic_poll R = may_bind (drain R) (\<lambda>_. loop (poll_step R))"

definition wait_services_step :: "'s remoteproc \<Rightarrow> nat \<Rightarrow> nat \<Rightarrow> nat \<Rightarrow> 's epic \<Rightarrow>
    ('s epic, (epic_error + unit) \<times> 's epic) loop_step option" where
  "wait_services_step R min_services timeout_us start e =
     (if min_services \<le> length (ep_services e) then Some (Done (Inr (), e))
      else if timeout_us \<le> epic_now R e - start
      then Some (Done (if ep_services e \<noteq> [] then Inr () else Inl (Epic ''apple-epic: no services discovered''), e))
      else case epic_poll R e of
             None \<Rightarrow> None
           | Some (Inl x, e1) \<Rightarrow> Some (Done (Inl x, e1))
           | Some (Inr _, e1) \<Rightarrow> Some (Again (spin R e1)))"

definition wait_for_services :: "'s remoteproc \<Rightarrow> nat \<Rightarrow> nat \<Rightarrow> ('s, unit) epic_may" where
  "wait_for_services R min_services timeout_us e =
     loop (wait_services_step R min_services timeout_us (epic_now R e)) e"

definition starts_with :: "bytes \<Rightarrow> bytes \<Rightarrow> bool" where
  "starts_with s p \<longleftrightarrow> take (length p) s = p"

definition ends_with :: "bytes \<Rightarrow> bytes \<Rightarrow> bool" where
  "ends_with s p \<longleftrightarrow> length p \<le> length s \<and> drop (length s - length p) s = p"

definition find_service :: "bytes \<Rightarrow> 's epic \<Rightarrow> epic_service option" where
  "find_service name_prefix e = find (\<lambda>s. starts_with (svc_name s) name_prefix) (ep_services e)"

definition find_service_by_suffix :: "bytes \<Rightarrow> 's epic \<Rightarrow> epic_service option" where
  "find_service_by_suffix name_suffix e = find (\<lambda>s. ends_with (svc_name s) name_suffix) (ep_services e)"

definition find_service_by_channel :: "u32 \<Rightarrow> 's epic \<Rightarrow> epic_service option" where
  "find_service_by_channel channel e = find (\<lambda>s. svc_channel s = channel) (ep_services e)"

definition first_service_channel :: "'s epic \<Rightarrow> u32 option" where
  "first_service_channel e = (case ep_services e of [] \<Rightarrow> None | s # _ \<Rightarrow> Some (svc_channel s))"

section \<open>Commands\<close>

definition dma_command_message :: "epic_dma \<Rightarrow> u16 \<Rightarrow> u16 \<Rightarrow> u16 \<Rightarrow> nat \<Rightarrow> bytes" where
  "dma_command_message d subtype seq subseq tx_len =
     write_epic_headers (replicate SIZE_HEADERS 0) CAT_COMMAND subtype seq subseq (of_nat SIZE_CMD) @
     epic_cmd (rx_dva d) (tx_dva d) (of_nat EPIC_BUFFER_SIZE) (of_nat tx_len)"

definition send_dma_command :: "'s remoteproc \<Rightarrow> u32 \<Rightarrow> u16 \<Rightarrow> nat \<Rightarrow> u16 option \<Rightarrow> ('s, unit) epic_op" where
  "send_dma_command R channel subtype tx_len fixed_sub_seq e =
     (let (seq, e1) = next_seq e;
          subseq = (case fixed_sub_seq of Some q \<Rightarrow> q | None \<Rightarrow> seq)
      in on_afk (afk_send R channel TYPE_COMMAND (dma_command_message (ep_dma e1) subtype seq subseq tx_len)) e1)"

definition send_standard_command ::
  "'s remoteproc \<Rightarrow> u32 \<Rightarrow> u16 \<Rightarrow> u32 \<Rightarrow> bytes \<Rightarrow> nat \<Rightarrow> nat \<Rightarrow> ('s, unit) epic_op" where
  "send_standard_command R channel grp command data request_size response_size e =
     (if length data > request_size then (Inl (Epic ''apple-epic: request exceeds declared request size''), e)
      else let transfer_size = max request_size response_size; total = SIZE_CALL + transfer_size
      in if 2 ^ 64 \<le> total then (Inl (Epic ''apple-epic: command size overflow''), e)
         else if total > EPIC_BUFFER_SIZE then (Inl (Epic ''apple-epic: command data too large''), e)
         else let m0 = put_bytes (epic_memory R e) (tx_virt (ep_dma e)) (replicate total 0);
                  m1 = put_bytes m0 (tx_virt (ep_dma e)) (service_call_header grp command (of_nat request_size));
                  m2 = put_bytes m1 (tx_virt (ep_dma e) + SIZE_CALL) data
              in send_dma_command R channel SUBTYPE_STD_SERVICE total None (set_epic_memory R m2 e))"

definition send_command :: "'s remoteproc \<Rightarrow> u32 \<Rightarrow> u16 \<Rightarrow> u32 \<Rightarrow> bytes \<Rightarrow> ('s, unit) epic_op" where
  "send_command R channel grp command data =
     send_standard_command R channel grp command data (length data) (length data)"

definition send_raw_command :: "'s remoteproc \<Rightarrow> u32 \<Rightarrow> u16 \<Rightarrow> bytes \<Rightarrow> ('s, unit) epic_op" where
  "send_raw_command R channel subtype data e =
     (if length data > EPIC_BUFFER_SIZE then (Inl (Epic ''apple-epic: raw command data too large''), e)
      else send_dma_command R channel subtype (length data) (Some 0)
             (set_epic_memory R (put_bytes (epic_memory R e) (tx_virt (ep_dma e)) data) e))"

definition parse_reply :: "'s remoteproc \<Rightarrow> bytes \<Rightarrow> 's epic \<Rightarrow> epic_error + bytes" where
  "parse_reply R payload e =
     (if length payload < SIZE_HEADERS + SIZE_CMD
      then Inl (Epic ''apple-epic: reply too short for command struct'')
      else if (le_at payload SIZE_HEADERS 4 :: u32) \<noteq> 0
      then Inl (Epic ''apple-epic: command returned non-zero retcode'')
      else let reported_rx_len = unat (le_at payload (SIZE_HEADERS + 20) 4 :: u32)
      in if reported_rx_len > EPIC_BUFFER_SIZE
         then Inl (Epic ''apple-epic: reply rxlen exceeds buffer size'')
         else let rx_len = (if reported_rx_len = 0 then EPIC_BUFFER_SIZE else reported_rx_len)
              in Inr (get_bytes (epic_memory R e) (rx_virt (ep_dma e)) rx_len))"

text \<open>The inner loop of the wait: \<open>Inr None\<close> is its \<open>break\<close>, when the ring is empty.\<close>

definition reply_step :: "'s remoteproc \<Rightarrow> u32 \<Rightarrow> u16 \<Rightarrow> 's epic \<Rightarrow>
    ('s epic, (epic_error + bytes option) \<times> 's epic) loop_step option" where
  "reply_step R channel expected_subtype e =
     Some (case take_entry R e of
             (Inl x, e1) \<Rightarrow> Done (Inl x, e1)
           | (Inr None, e1) \<Rightarrow> Done (Inr None, e1)
           | (Inr (Some (msg_type, ch, payload)), e1) \<Rightarrow>
               if ch = channel \<and> msg_type = TYPE_REPLY \<and> is_command_reply payload expected_subtype
               then Done (map_sum id Some (parse_reply R payload e1), e1)
               else if msg_type = TYPE_NOTIFY \<or> msg_type = TYPE_REPLY \<and> is_service_announce payload
               then (case handle_notify R ch payload e1 of
                       (Inl x, e2) \<Rightarrow> Done (Inl x, e2)
                     | (Inr _, e2) \<Rightarrow> Again e2)
               else Again e1)"

definition run_progress :: "('s \<Rightarrow> (string + unit) \<times> 's) \<Rightarrow> ('s, unit) epic_op" where
  "run_progress progress e =
     (case progress (env (ep_afk e)) of
        (Inl x, s) \<Rightarrow> (Inl (Epic x), e\<lparr>ep_afk := (ep_afk e)\<lparr>env := s\<rparr>\<rparr>)
      | (Inr _, s) \<Rightarrow> (Inr (), e\<lparr>ep_afk := (ep_afk e)\<lparr>env := s\<rparr>\<rparr>))"

definition wait_reply_step :: "'s remoteproc \<Rightarrow> u32 \<Rightarrow> u16 \<Rightarrow> ('s \<Rightarrow> (string + unit) \<times> 's) \<Rightarrow> nat \<Rightarrow> 's epic \<Rightarrow>
    ('s epic, (epic_error + bytes) \<times> 's epic) loop_step option" where
  "wait_reply_step R channel expected_subtype progress start e =
     (if EPIC_REPLY_TIMEOUT_US \<le> epic_now R e - start
      then Some (Done (Inl (Epic ''apple-epic: timeout waiting for command reply''), e))
      else case may_bind (total_step (run_progress progress)) (\<lambda>_.
                may_bind (drain R) (\<lambda>_. loop (reply_step R channel expected_subtype))) e of
             None \<Rightarrow> None
           | Some (Inl x, e1) \<Rightarrow> Some (Done (Inl x, e1))
           | Some (Inr (Some reply), e1) \<Rightarrow> Some (Done (Inr reply, e1))
           | Some (Inr None, e1) \<Rightarrow> Some (Again (spin R e1)))"

definition wait_reply_with_progress ::
  "'s remoteproc \<Rightarrow> u32 \<Rightarrow> u16 \<Rightarrow> ('s \<Rightarrow> (string + unit) \<times> 's) \<Rightarrow> ('s, bytes) epic_may" where
  "wait_reply_with_progress R channel expected_subtype progress e =
     loop (wait_reply_step R channel expected_subtype progress (epic_now R e)) e"

definition wait_reply :: "'s remoteproc \<Rightarrow> u32 \<Rightarrow> u16 \<Rightarrow> ('s, bytes) epic_may" where
  "wait_reply R channel expected_subtype =
     wait_reply_with_progress R channel expected_subtype (\<lambda>s. (Inr (), s))"

definition parse_service_reply :: "bytes \<Rightarrow> u16 \<Rightarrow> u32 \<Rightarrow> nat option \<Rightarrow> epic_error + bytes" where
  "parse_service_reply reply grp command response_size =
     (if length reply < SIZE_CALL then Inl (Epic ''apple-epic: standard service reply is truncated'')
      else if (le_at reply 12 4 :: u32) \<noteq> EPIC_SERVICE_CALL_MAGIC \<or> (le_at reply 2 2 :: u16) \<noteq> grp \<or>
              (le_at reply 4 4 :: u32) \<noteq> command
      then Inl (Epic ''apple-epic: standard service reply header mismatch'')
      else let declared = unat (le_at reply 8 4 :: u32);
               available = length reply - SIZE_CALL;
               n = min (min (case response_size of Some k \<Rightarrow> k | None \<Rightarrow> declared) declared) available
           in Inr (take n (drop SIZE_CALL reply)))"

definition finish_call :: "u16 \<Rightarrow> u32 \<Rightarrow> nat option \<Rightarrow> bytes \<Rightarrow> ('s, bytes) epic_op" where
  "finish_call grp command response_size reply e = (parse_service_reply reply grp command response_size, e)"

definition call_by_channel :: "'s remoteproc \<Rightarrow> u32 \<Rightarrow> u16 \<Rightarrow> u32 \<Rightarrow> bytes \<Rightarrow> ('s, bytes) epic_may" where
  "call_by_channel R channel grp command data =
     may_bind (total_step (send_command R channel grp command data)) (\<lambda>_.
     may_bind (wait_reply R channel SUBTYPE_STD_SERVICE) (\<lambda>reply.
     total_step (finish_call grp command None reply)))"

definition epic_call :: "'s remoteproc \<Rightarrow> epic_service \<Rightarrow> u16 \<Rightarrow> u32 \<Rightarrow> bytes \<Rightarrow> ('s, bytes) epic_may" where
  "epic_call R service = call_by_channel R (svc_channel service)"

definition call_by_channel_sized ::
  "'s remoteproc \<Rightarrow> u32 \<Rightarrow> u16 \<Rightarrow> u32 \<Rightarrow> bytes \<Rightarrow> nat \<Rightarrow> nat \<Rightarrow> ('s, bytes) epic_may" where
  "call_by_channel_sized R channel grp command data request_size response_size =
     may_bind (total_step (send_standard_command R channel grp command data request_size response_size)) (\<lambda>_.
     may_bind (wait_reply R channel SUBTYPE_STD_SERVICE) (\<lambda>reply.
     total_step (finish_call grp command (Some response_size) reply)))"

definition call_raw_by_channel :: "'s remoteproc \<Rightarrow> u32 \<Rightarrow> u16 \<Rightarrow> bytes \<Rightarrow> ('s, bytes) epic_may" where
  "call_raw_by_channel R channel subtype data =
     may_bind (total_step (send_raw_command R channel subtype data)) (\<lambda>_. wait_reply R channel subtype)"

definition call_raw_by_channel_with_progress ::
  "'s remoteproc \<Rightarrow> u32 \<Rightarrow> u16 \<Rightarrow> bytes \<Rightarrow> ('s \<Rightarrow> (string + unit) \<times> 's) \<Rightarrow> ('s, bytes) epic_may" where
  "call_raw_by_channel_with_progress R channel subtype data progress =
     may_bind (total_step (send_raw_command R channel subtype data)) (\<lambda>_.
     wait_reply_with_progress R channel subtype progress)"

end
