(* ===== verification/EpicCalls.thy ===== *)
theory EpicCalls
  imports Epic
begin

text \<open>
  What the EPIC protocol guarantees over a remote processor that shares memory with the driver:
  commands reach the transmit ring with their data in place, the calls of the coprocessor are
  acknowledged, polling handles every message of a well-formed ring, and the table of services
  only grows.
\<close>

section \<open>Packed structures\<close>

lemma length_epic_headers [simp]: "length (epic_headers category ty hseq sseq len inl) = 40"
  by (simp add: epic_headers_def)

lemma length_write_epic_headers [simp]:
  "length (write_epic_headers buf category ty hseq sseq len) = 40 + (length buf - 40)"
  by (simp add: write_epic_headers_def)

lemma length_epic_cmd [simp]: "length (epic_cmd rxb txb rxl txl) = 30"
  by (simp add: epic_cmd_def)

lemma length_service_call_header [simp]: "length (service_call_header grp command n) = 64"
  by (simp add: service_call_header_def)

lemma read_epic_headers [simp]:
  "read_sub_hdr (epic_headers category ty hseq sseq len inl @ rest) =
     \<lparr>sub_length = len, sub_category = category, sub_type = ty, sub_seq = sseq, sub_inline_len = inl\<rparr>"
proof -
  have byte: "(from_le_bytes [b] :: u8) = b" for b
    by (simp add: from_le_bytes_def)
  show ?thesis
    by (simp add: read_sub_hdr_def epic_headers_def le_at_def from_le_bytes_le_bytes byte)
qed

lemma read_epic_cmd:
  "length hs = 40 \<Longrightarrow> (le_at (hs @ epic_cmd rxb txb rxl txl) 44 8 :: u64) = rxb"
  "length hs = 40 \<Longrightarrow> (le_at (hs @ epic_cmd rxb txb rxl txl) 52 8 :: u64) = txb"
  "length hs = 40 \<Longrightarrow> (le_at (hs @ epic_cmd rxb txb rxl txl) 60 4 :: u32) = rxl"
  "length hs = 40 \<Longrightarrow> (le_at (hs @ epic_cmd rxb txb rxl txl) 64 4 :: u32) = txl"
  by (simp_all add: epic_cmd_def le_at_def from_le_bytes_le_bytes)

lemma parse_own_header:
  "n < 2 ^ 32 \<Longrightarrow> parse_service_reply (service_call_header grp command (of_nat n) @ data) grp command limit =
     Inr (take (min (case limit of None \<Rightarrow> n | Some k \<Rightarrow> min k n) (length data)) data)"
  by (cases limit)
    (simp_all add: parse_service_reply_def service_call_header_def le_at_def from_le_bytes_le_bytes
      unat_of_nat_small Let_def)

section \<open>The environment of an endpoint\<close>

lemma epic_memory_simps [simp]:
  "epic_memory R (e\<lparr>ep_seq := q\<rparr>) = epic_memory R e"
  "epic_memory R (e\<lparr>ep_services := ss\<rparr>) = epic_memory R e"
  "epic_memory R (e\<lparr>ep_afk := a\<rparr>) = memory R a"
  by (simp_all add: epic_memory_def)

lemma set_epic_memory_simps [simp]:
  "ep_dma (set_epic_memory R m e) = ep_dma e" "ep_seq (set_epic_memory R m e) = ep_seq e"
  "ep_services (set_epic_memory R m e) = ep_services e" "ep_handler (set_epic_memory R m e) = ep_handler e"
  "ep_notify (set_epic_memory R m e) = ep_notify e"
  "tx (ep_afk (set_epic_memory R m e)) = tx (ep_afk e)" "rx (ep_afk (set_epic_memory R m e)) = rx (ep_afk e)"
  by (simp_all add: set_epic_memory_def set_memory_def)

text \<open>A region of memory that no byte of a ring lies in.\<close>

definition apart :: "afk_ring \<Rightarrow> nat \<Rightarrow> nat \<Rightarrow> bool" where
  "apart rb lo n \<longleftrightarrow> (\<forall>a. lo \<le> a \<and> a < lo + n \<longrightarrow> \<not> in_ring rb a)"

lemma ring_holds_put_bytes:
  "ring_holds rb m es \<Longrightarrow> apart rb lo n \<Longrightarrow> length bs \<le> n \<Longrightarrow> ring_holds rb (put_bytes m lo bs) es"
  by (erule ring_holds_frame) (auto simp: apart_def put_bytes_def)

text \<open>The three writes of a command leave the header, the data and zeros behind it.\<close>

lemma command_bytes:
  assumes "length hdr = 64" and "length data \<le> k"
  shows "get_bytes (put_bytes (put_bytes (put_bytes m a (replicate (64 + k) 0)) a hdr) (a + 64) data) a (64 + k) =
    hdr @ data @ replicate (k - length data) 0"
  by (rule nth_equalityI) (use assms in \<open>auto simp: get_bytes_def put_bytes_def nth_append\<close>)

lemma command_put_bytes:
  assumes "length hdr = 64" and "length data \<le> k"
  shows "put_bytes (put_bytes (put_bytes m a (replicate (64 + k) 0)) a hdr) (a + 64) data =
    put_bytes m a (hdr @ data @ replicate (k - length data) 0)"
  by (rule ext) (use assms in \<open>auto simp: put_bytes_def nth_append\<close>)

text \<open>Both rings are well formed, hold the given messages, and do not overlap.\<close>

definition rings :: "'a epic \<Rightarrow> mem \<Rightarrow> afk_message list \<Rightarrow> afk_message list \<Rightarrow> bool" where
  "rings e m received queued \<longleftrightarrow>
     ring_holds (rx (ep_afk e)) m received \<and> ring_holds (tx (ep_afk e)) m queued \<and>
     (\<forall>a. \<not> (in_ring (rx (ep_afk e)) a \<and> in_ring (tx (ep_afk e)) a))"

definition same_rings :: "'a epic \<Rightarrow> 'a epic \<Rightarrow> bool" where
  "same_rings e e' \<longleftrightarrow> rx (ep_afk e') = rx (ep_afk e) \<and> tx (ep_afk e') = tx (ep_afk e) \<and>
     ep_dma e' = ep_dma e \<and> ep_handler e' = ep_handler e \<and> ep_notify e' = ep_notify e"

lemma same_rings_simps [simp]:
  "same_rings e e"
  "same_rings e (e'\<lparr>ep_seq := q\<rparr>) = same_rings e e'"
  "same_rings e (e'\<lparr>ep_services := ss\<rparr>) = same_rings e e'"
  "same_rings e (set_epic_memory R m e') = same_rings e e'"
  "same_rings e (e'\<lparr>ep_afk := (ep_afk e')\<lparr>env := s\<rparr>\<rparr>) = same_rings e e'"
  by (simp_all add: same_rings_def)

lemma same_rings_rings: "same_rings e e' \<Longrightarrow> rings e' m rs ts = rings e m rs ts"
  by (simp add: same_rings_def rings_def)

lemma same_rings_trans: "same_rings e e' \<Longrightarrow> same_rings e' e'' \<Longrightarrow> same_rings e e''"
  by (simp add: same_rings_def)

lemma rings_frame:
  assumes "rings e m rs ts" and "\<And>a. in_ring (rx (ep_afk e)) a \<or> in_ring (tx (ep_afk e)) a \<Longrightarrow> m' a = m a"
  shows "rings e m' rs ts"
  using assms unfolding rings_def by (auto intro: ring_holds_frame [where m = m])

text \<open>
  Handlers registered with the endpoint: they leave the rings alone, and a service call handler
  fills its reply buffer, whose length it cannot change.
\<close>

definition quiet :: "'s remoteproc \<Rightarrow> 's epic \<Rightarrow> bool" where
  "quiet R e \<longleftrightarrow>
     (\<forall>h c k request buf s r s'. ep_handler e = Some h \<longrightarrow> h c k request buf s = (r, s') \<longrightarrow>
        (\<forall>answer. r = Inr answer \<longrightarrow> length answer = length buf) \<and>
        (\<forall>a. in_ring (rx (ep_afk e)) a \<or> in_ring (tx (ep_afk e)) a \<longrightarrow> os_memory R s' a = os_memory R s a)) \<and>
     (\<forall>h c ty data s. ep_notify e = Some h \<longrightarrow>
        (\<forall>a. in_ring (rx (ep_afk e)) a \<or> in_ring (tx (ep_afk e)) a \<longrightarrow>
          os_memory R (h c ty data s) a = os_memory R s a))"

lemma quiet_handlerD:
  assumes "quiet R e" and "ep_handler e = Some h" and "h c k request buf s = (r, s')"
  shows "\<And>answer. r = Inr answer \<Longrightarrow> length answer = length buf"
    and "\<And>a. in_ring (rx (ep_afk e)) a \<or> in_ring (tx (ep_afk e)) a \<Longrightarrow> os_memory R s' a = os_memory R s a"
  using assms unfolding quiet_def by blast+

lemma quiet_notifyD:
  "quiet R e \<Longrightarrow> ep_notify e = Some h \<Longrightarrow> in_ring (rx (ep_afk e)) a \<or> in_ring (tx (ep_afk e)) a \<Longrightarrow>
     os_memory R (h c ty data s) a = os_memory R s a"
  unfolding quiet_def by blast

lemma quiet_same_rings: "same_rings e e' \<Longrightarrow> quiet R e' = quiet R e"
  by (simp add: quiet_def same_rings_def)

text \<open>The size and the command data of a call that is not refused.\<close>

definition call_accepted :: "epic_sub_hdr \<Rightarrow> bytes \<Rightarrow> nat \<Rightarrow> nat \<Rightarrow> bool" where
  "call_accepted sub payload n call_size \<longleftrightarrow>
     SIZE_HEADERS \<le> length payload \<and> n = inline_size sub payload \<and>
     call_size = unat (le_at payload (SIZE_HEADERS + 12) 4 :: u32) \<and> SIZE_AP_CALL + call_size \<le> n"

lemma service_call_reply_fields:
  fixes seq :: u16
  assumes ok: "call_accepted sub payload n call_size" and answer: "length answer = call_size"
  defines "reply \<equiv> service_call_reply sub payload n call_size answer seq"
  shows "length reply = SIZE_HEADERS + n" and "n < 2 ^ 32"
    and "read_sub_hdr reply = \<lparr>sub_length = of_nat n, sub_category = CAT_REPLY, sub_type = SUBTYPE_STD_SERVICE,
      sub_seq = sub_seq sub, sub_inline_len = of_nat (n - 4)\<rparr>"
    and "take SIZE_AP_CALL (drop SIZE_HEADERS reply) = take SIZE_AP_CALL (drop SIZE_HEADERS payload)"
    and "drop (SIZE_HEADERS + SIZE_AP_CALL) reply = answer @ replicate (n - (SIZE_AP_CALL + call_size)) 0"
proof -
  have n: "SIZE_AP_CALL + call_size \<le> n" "n \<le> length payload - SIZE_HEADERS" "n \<le> unat (sub_length sub)"
    using ok by (auto simp: call_accepted_def inline_size_def)
  then show "n < 2 ^ 32"
    using unat_bound [of "sub_length sub"] by simp
  show "length reply = SIZE_HEADERS + n"
    and "take SIZE_AP_CALL (drop SIZE_HEADERS reply) = take SIZE_AP_CALL (drop SIZE_HEADERS payload)"
    and "drop (SIZE_HEADERS + SIZE_AP_CALL) reply = answer @ replicate (n - (SIZE_AP_CALL + call_size)) 0"
    using n answer by (simp_all add: reply_def service_call_reply_def)
  show "read_sub_hdr reply = \<lparr>sub_length = of_nat n, sub_category = CAT_REPLY, sub_type = SUBTYPE_STD_SERVICE,
      sub_seq = sub_seq sub, sub_inline_len = of_nat (n - 4)\<rparr>"
    by (simp add: reply_def service_call_reply_def)
qed

text \<open>What a received message adds to the table of services.\<close>

definition announces :: "afk_message \<Rightarrow> epic_service list \<Rightarrow> epic_service list" where
  "announces x ss = (case x of (channel, ty, payload) \<Rightarrow>
     if (ty = TYPE_NOTIFY \<or> ty = TYPE_REPLY) \<and> is_service_announce payload \<and>
        SIZE_HEADERS + SIZE_ANNOUNCE \<le> length payload \<and> channel \<notin> svc_channel ` set ss
     then ss @ [\<lparr>svc_name = announced_name payload, svc_channel = channel, svc_seq = 0\<rparr>] else ss)"

lemma handle_announce_services: "ep_services (handle_announce c d e) =
    (if SIZE_HEADERS + SIZE_ANNOUNCE \<le> length d \<and> c \<notin> svc_channel ` set (ep_services e)
     then ep_services e @ [\<lparr>svc_name = announced_name d, svc_channel = c, svc_seq = 0\<rparr>] else ep_services e)"
  by (auto simp: handle_announce_def)

lemma handle_announce_other [simp]:
  "same_rings e (handle_announce c d e') = same_rings e e'" "epic_memory R (handle_announce c d e) = epic_memory R e"
  by (simp_all add: handle_announce_def)

text \<open>The messages a handler may queue: acknowledgements only.\<close>

definition all_acks :: "afk_message list \<Rightarrow> bool" where
  "all_acks acks \<longleftrightarrow> (\<forall>x \<in> set acks. fst (snd x) = TYPE_NOTIFY_ACK)"

lemma all_acks_simps [simp]: "all_acks []" "all_acks [(c, TYPE_NOTIFY_ACK, d)]" "all_acks (xs @ ys) = (all_acks xs \<and> all_acks ys)"
  by (auto simp: all_acks_def)

text \<open>
  A handler that received a message has kept the rings of \<open>e\<close>, and has added at most \<open>n\<close>
  acknowledgements to the transmit ring.
\<close>

definition handled :: "'s remoteproc \<Rightarrow> 's epic \<Rightarrow> afk_message list \<Rightarrow> afk_message list \<Rightarrow> nat \<Rightarrow> 's epic \<Rightarrow> bool" where
  "handled R e rs ts n e' \<longleftrightarrow> same_rings e e' \<and>
     (\<exists>acks. all_acks acks \<and> length acks \<le> n \<and> rings e (epic_memory R e') rs (ts @ acks))"

text \<open>A write pointer that no read pointer can meet keeps the loop going for ever.\<close>

definition endless :: "afk_ring \<Rightarrow> mem \<Rightarrow> bool" where
  "endless rb m \<longleftrightarrow> ring_ok rb \<and> rb_bufsz rb = 64 \<and>
     read_rptr m (rb_hdr rb) = 0 \<and> read_wptr m (rb_hdr rb) \<noteq> 0 \<and>
     get32 m (rb_buf rb) = QE_MAGIC \<and> get32 m (rb_buf rb + 4) = 0 \<and>
     get32 m (rb_buf rb + 12) \<notin> {TYPE_NOTIFY, TYPE_REPLY}"

context shared_memory
begin

lemma epic_memory_set [simp]: "epic_memory R (set_epic_memory R m e) = m"
  by (simp add: epic_memory_def set_epic_memory_def memory_set_memory)

text \<open>Sending: on success the message is at the end of the transmit ring.\<close>

lemma on_send_cases:
  assumes holds: "ring_holds (tx (ep_afk e)) (epic_memory R e) msgs"
    and send: "on_afk (afk_send R c t d) e = (r, e')"
  obtains x where "r = Inl (Transport x)" and "x \<noteq> AfkPanic" and "e' = e"
  | a m where "e' = e\<lparr>ep_afk := a\<rparr>" and "same_endpoint (ep_afk e) a" and "memory R a = m"
      and "ring_holds (tx (ep_afk e)) m (msgs @ [(c, t, d)])"
      and "\<And>b. \<not> in_ring (tx (ep_afk e)) b \<Longrightarrow> m b = epic_memory R e b"
      and "r \<noteq> Inl (Transport AfkPanic)"
proof -
  obtain q a where run: "afk_send R c t d (ep_afk e) = (q, a)"
    by fastforce
  from run show ?thesis
  proof (cases rule: afk_send_cases)
    case (1 x)
    then have "x \<noteq> AfkPanic"
      using enqueue_error [of "tx (ep_afk e)" "epic_memory R e" msgs c t d x] holds
      by (auto simp: epic_memory_def)
    with 1 run send show ?thesis
      by (intro that(1) [of x]) (auto simp: on_afk_def)
  next
    case (2 m w)
    have "same_endpoint (ep_afk e) a"
      using send_rbep_same [OF 2(3), of "ep_afk e"] by (simp add: set_memory_def)
    moreover have "q \<noteq> Inl AfkPanic"
      using 2(3) by (auto simp: send_rbep_def on_env_def split: prod.splits sum.splits)
    moreover have "ring_holds (tx (ep_afk e)) m (msgs @ [(c, t, d)])"
      using enqueue_holds [OF _ 2(1), of msgs] holds by (simp add: epic_memory_def)
    moreover have "m b = epic_memory R e b" if "\<not> in_ring (tx (ep_afk e)) b" for b
      using enqueue_outside [OF _ 2(1) that, of msgs] holds by (simp add: epic_memory_def)
    ultimately show ?thesis
      using 2(2) run send by (intro that(2) [of a m]) (auto simp: on_afk_def split: sum.splits)
  qed
qed

lemma dma_command_sent:
  assumes holds: "ring_holds (tx (ep_afk e)) (epic_memory R e) msgs"
    and send: "send_dma_command R channel subtype n fixed e = (Inr (), e')"
  shows "ring_holds (tx (ep_afk e')) (epic_memory R e')
      (msgs @ [(channel, TYPE_COMMAND, dma_command_message (ep_dma e) subtype (ep_seq e)
        (case fixed of Some q \<Rightarrow> q | None \<Rightarrow> ep_seq e) n)])"
    and "ep_seq e' = ep_seq e + 1" and "ep_dma e' = ep_dma e"
    and "\<not> in_ring (tx (ep_afk e)) b \<Longrightarrow> epic_memory R e' b = epic_memory R e b"
proof -
  define e1 where "e1 = e\<lparr>ep_seq := ep_seq e + 1\<rparr>"
  define msg where "msg = dma_command_message (ep_dma e) subtype (ep_seq e)
    (case fixed of Some q \<Rightarrow> q | None \<Rightarrow> ep_seq e) n"
  have e1: "ring_holds (tx (ep_afk e1)) (epic_memory R e1) msgs"
    using holds by (simp add: e1_def)
  have run: "on_afk (afk_send R channel TYPE_COMMAND msg) e1 = (Inr (), e')"
    using send by (simp add: send_dma_command_def next_seq_def e1_def msg_def)
  obtain a m where sent: "e' = e1\<lparr>ep_afk := a\<rparr>" "same_endpoint (ep_afk e1) a" "memory R a = m"
      "ring_holds (tx (ep_afk e1)) m (msgs @ [(channel, TYPE_COMMAND, msg)])"
      "\<And>b. \<not> in_ring (tx (ep_afk e1)) b \<Longrightarrow> m b = epic_memory R e1 b"
    by (rule on_send_cases [OF e1 run]) simp_all
  then show "ring_holds (tx (ep_afk e')) (epic_memory R e')
      (msgs @ [(channel, TYPE_COMMAND, dma_command_message (ep_dma e) subtype (ep_seq e)
        (case fixed of Some q \<Rightarrow> q | None \<Rightarrow> ep_seq e) n)])"
    and "ep_seq e' = ep_seq e + 1" and "ep_dma e' = ep_dma e"
    and "\<not> in_ring (tx (ep_afk e)) b \<Longrightarrow> epic_memory R e' b = epic_memory R e b"
    by (simp_all add: same_endpoint_def e1_def msg_def [symmetric])
qed

lemma standard_command_sent_in:
  assumes holds: "ring_holds (tx (ep_afk e)) (epic_memory R e) msgs"
    and apart: "apart (tx (ep_afk e)) (tx_virt (ep_dma e)) EPIC_BUFFER_SIZE"
    and send: "send_standard_command R channel grp command data request_size response_size e = (Inr (), e')"
  defines "n \<equiv> max request_size response_size"
  shows "length data \<le> request_size" and "SIZE_CALL + n \<le> EPIC_BUFFER_SIZE"
    and "ring_holds (tx (ep_afk e')) (epic_memory R e') (msgs @ [(channel, TYPE_COMMAND,
      dma_command_message (ep_dma e) SUBTYPE_STD_SERVICE (ep_seq e) (ep_seq e) (SIZE_CALL + n))])"
    and "get_bytes (epic_memory R e') (tx_virt (ep_dma e)) (SIZE_CALL + n) =
      service_call_header grp command (of_nat request_size) @ data @ replicate (n - length data) 0"
    and "ep_seq e' = ep_seq e + 1"
proof -
  let ?bytes = "service_call_header grp command (of_nat request_size) @ data @ replicate (n - length data) 0"
  define e1 where "e1 = set_epic_memory R (put_bytes (epic_memory R e) (tx_virt (ep_dma e)) ?bytes) e"
  show fits: "length data \<le> request_size" "SIZE_CALL + n \<le> EPIC_BUFFER_SIZE"
    using send by (auto simp: send_standard_command_def n_def Let_def split: if_splits)
  then have len: "length data \<le> n" and bytes: "length ?bytes = SIZE_CALL + n"
    by (simp_all add: n_def)
  have run: "send_dma_command R channel SUBTYPE_STD_SERVICE (SIZE_CALL + n) None e1 = (Inr (), e')"
    using send fits
    by (simp add: send_standard_command_def n_def [symmetric] Let_def e1_def
        command_put_bytes [OF length_service_call_header len])
  have "ring_holds (tx (ep_afk e1)) (epic_memory R e1) msgs"
    using ring_holds_put_bytes [OF holds apart, of ?bytes] bytes fits(2) by (simp add: e1_def)
  note sent = dma_command_sent [OF this run]
  show "ring_holds (tx (ep_afk e')) (epic_memory R e') (msgs @ [(channel, TYPE_COMMAND,
      dma_command_message (ep_dma e) SUBTYPE_STD_SERVICE (ep_seq e) (ep_seq e) (SIZE_CALL + n))])"
    and "ep_seq e' = ep_seq e + 1"
    using sent(1,2) by (simp_all add: e1_def)
  have "get_bytes (epic_memory R e') (tx_virt (ep_dma e)) (SIZE_CALL + n) =
      get_bytes (epic_memory R e1) (tx_virt (ep_dma e)) (SIZE_CALL + n)"
    using apart fits(2) by (intro get_bytes_cong sent(4)) (simp add: apart_def e1_def)
  also have "\<dots> = ?bytes"
    using bytes by (simp add: e1_def)
  finally show "get_bytes (epic_memory R e') (tx_virt (ep_dma e)) (SIZE_CALL + n) = ?bytes" .
qed

section \<open>Receiving\<close>

lemma take_entry_empty:
  "rings e (epic_memory R e) [] ts \<Longrightarrow> take_entry R e = (Inr None, set_epic_memory R (epic_memory R e) e)"
  by (simp add: take_entry_def rings_def recv_empty epic_memory_def Let_def)

text \<open>Taking an entry removes the oldest message of the receive ring; the other ring stays.\<close>

lemma take_entry_head:
  assumes rings: "rings e (epic_memory R e) ((c, t, d) # rs) ts"
  obtains m where "take_entry R e = (Inr (Some (t, c, d)), set_epic_memory R m e)" and "rings e m rs ts"
proof -
  let ?rb = "rx (ep_afk e)"
  have holds: "ring_holds ?rb (epic_memory R e) ((c, t, d) # rs)" and ok: "ring_ok ?rb"
    using rings by (auto simp: rings_def ring_holds_def)
  obtain entry m1 where recv: "afk_recv ?rb (epic_memory R e) = (Inr (Some entry), m1)"
    and fields: "qe_channel entry = c" "qe_type entry = t"
    using recv_head [OF holds] by auto
  note ack = recv_payload_and_ack [OF holds recv]
  define m where "m = afk_recv_ack ?rb m1"
  have "m a = epic_memory R e a" if "in_ring (tx (ep_afk e)) a" for a
  proof -
    have "\<not> in_ring ?rb a"
      using rings that by (auto simp: rings_def)
    then show ?thesis
      using recv_outside [OF ok recv] ack_outside [OF ok] by (simp add: m_def)
  qed
  then have "rings e m rs ts"
    using rings ack(2) unfolding rings_def by (auto simp: m_def intro: ring_holds_frame)
  then show ?thesis
    using recv fields ack(1)
    by (intro that [of m]) (simp_all add: take_entry_def m_def epic_memory_def Let_def)
qed

text \<open>A send from a handler of received messages.\<close>

lemma send_in_rings:
  assumes rings: "rings e (epic_memory R e) rs ts" and send: "on_afk (afk_send R c t d) e = (r, e')"
  shows "same_rings e e'" and "r \<noteq> Inl (Transport AfkPanic)" and "ep_services e' = ep_services e"
    and "rings e (epic_memory R e') rs ts \<and> (\<exists>x. r = Inl x) \<or> rings e (epic_memory R e') rs (ts @ [(c, t, d)])"
proof -
  have holds: "ring_holds (tx (ep_afk e)) (epic_memory R e) ts"
    using rings by (simp add: rings_def)
  have "same_rings e e' \<and> r \<noteq> Inl (Transport AfkPanic) \<and> ep_services e' = ep_services e \<and>
    (rings e (epic_memory R e') rs ts \<and> (\<exists>x. r = Inl x) \<or> rings e (epic_memory R e') rs (ts @ [(c, t, d)]))"
  proof (rule on_send_cases [OF holds send])
    fix x
    assume "r = Inl (Transport x)" "x \<noteq> AfkPanic" "e' = e"
    then show ?thesis
      using rings by simp
  next
    fix a m
    assume a: "e' = e\<lparr>ep_afk := a\<rparr>" "same_endpoint (ep_afk e) a" "memory R a = m"
      and tx: "ring_holds (tx (ep_afk e)) m (ts @ [(c, t, d)])"
      and out: "\<And>b. \<not> in_ring (tx (ep_afk e)) b \<Longrightarrow> m b = epic_memory R e b"
      and r: "r \<noteq> Inl (Transport AfkPanic)"
    have "ring_holds (rx (ep_afk e)) m rs"
      using rings out unfolding rings_def by (auto intro: ring_holds_frame)
    then show ?thesis
      using a tx r rings by (simp add: rings_def same_rings_def same_endpoint_def)
  qed
  then show "same_rings e e'" and "r \<noteq> Inl (Transport AfkPanic)" and "ep_services e' = ep_services e"
    and "rings e (epic_memory R e') rs ts \<and> (\<exists>x. r = Inl x) \<or> rings e (epic_memory R e') rs (ts @ [(c, t, d)])"
    by blast+
qed

lemma service_call_cases:
  assumes rings: "rings e (epic_memory R e) rs ts" and quiet: "quiet R e"
    and run: "handle_service_call R channel sub payload e = (r, e')"
  shows "same_rings e e'" and "r \<noteq> Inl (Transport AfkPanic)" and "ep_services e' = ep_services e"
    and "rings e (epic_memory R e') rs ts \<and> (\<exists>x. r = Inl x) \<or>
      (\<exists>n call_size answer seq. call_accepted sub payload n call_size \<and> length answer = call_size \<and>
        rings e (epic_memory R e') rs
          (ts @ [(channel, TYPE_NOTIFY_ACK, service_call_reply sub payload n call_size answer seq)]))"
proof -
  have "same_rings e e' \<and> r \<noteq> Inl (Transport AfkPanic) \<and> ep_services e' = ep_services e \<and>
    (rings e (epic_memory R e') rs ts \<and> (\<exists>x. r = Inl x) \<or>
      (\<exists>n call_size answer seq. call_accepted sub payload n call_size \<and> length answer = call_size \<and>
        rings e (epic_memory R e') rs
          (ts @ [(channel, TYPE_NOTIFY_ACK, service_call_reply sub payload n call_size answer seq)])))"
  proof (cases "(\<exists>h. ep_handler e = Some h) \<and> (\<exists>n call_size. call_accepted sub payload n call_size)")
    case False
    then have "e' = e \<and> (\<exists>x. r = Inl (Epic x))"
      using run by (auto simp: handle_service_call_def call_accepted_def Let_def split: option.splits if_splits)
    then show ?thesis
      using rings by auto
  next
    case True
    then obtain h n call_size where h: "ep_handler e = Some h" and ok: "call_accepted sub payload n call_size"
      by blast
    let ?request = "take call_size (drop (SIZE_HEADERS + SIZE_AP_CALL) payload)"
    obtain q s where call: "h channel (le_at payload (SIZE_HEADERS + 8) 4) ?request (replicate call_size 0)
        (env (ep_afk e)) = (q, s)"
      by fastforce
    define e1 where "e1 = e\<lparr>ep_afk := (ep_afk e)\<lparr>env := s\<rparr>\<rparr>"
    have same1: "same_rings e e1"
      by (simp add: e1_def)
    have rings1: "rings e (epic_memory R e1) rs ts"
      using quiet_handlerD(2) [OF quiet h call]
      by (intro rings_frame [OF rings]) (simp add: e1_def epic_memory_def memory_def)
    have len: "length answer = call_size" if "q = Inr answer" for answer
      using quiet_handlerD(1) [OF quiet h call that] by simp
    show ?thesis
    proof (cases q)
      case (Inl x)
      then have "r = Inl (Epic x)" "e' = e1"
        using run h ok call by (auto simp: handle_service_call_def call_accepted_def Let_def e1_def)
      then show ?thesis
        using same1 rings1 by (auto simp: e1_def)
    next
      case (Inr answer)
      define e2 where "e2 = e1\<lparr>ep_seq := ep_seq e1 + 1\<rparr>"
      define reply where "reply = service_call_reply sub payload n call_size answer (ep_seq e1)"
      have send: "on_afk (afk_send R channel TYPE_NOTIFY_ACK reply) e2 = (r, e')"
        using run h ok call Inr
        by (simp add: handle_service_call_def call_accepted_def Let_def e1_def e2_def reply_def next_seq_def)
      have same2: "same_rings e e2"
        using same1 by (simp add: e2_def)
      have "rings e2 (epic_memory R e2) rs ts"
        using rings1 same_rings_rings [OF same2] by (simp add: e2_def)
      note sent = send_in_rings [OF this send]
      have "ep_services e2 = ep_services e"
        by (simp add: e2_def e1_def)
      then show ?thesis
        using sent(2,3) sent(4) [unfolded same_rings_rings [OF same2] reply_def]
          same_rings_trans [OF same2 sent(1)] len [OF Inr] ok by auto
    qed
  qed
  then show "same_rings e e'" and "r \<noteq> Inl (Transport AfkPanic)" and "ep_services e' = ep_services e"
    and "rings e (epic_memory R e') rs ts \<and> (\<exists>x. r = Inl x) \<or>
      (\<exists>n call_size answer seq. call_accepted sub payload n call_size \<and> length answer = call_size \<and>
        rings e (epic_memory R e') rs
          (ts @ [(channel, TYPE_NOTIFY_ACK, service_call_reply sub payload n call_size answer seq)]))"
    by blast+
qed

lemma handled_refl: "rings e (epic_memory R e) rs ts \<Longrightarrow> handled R e rs ts n e"
  by (auto simp: handled_def intro!: exI [of _ "[]"])

lemma printed_send:
  assumes rings: "rings e (epic_memory R e) rs ts"
  shows "fst (printed (on_afk (afk_send R c TYPE_NOTIFY_ACK d)) e) = Inr () \<and>
    handled R e rs ts 1 (snd (printed (on_afk (afk_send R c TYPE_NOTIFY_ACK d)) e)) \<and>
    ep_services (snd (printed (on_afk (afk_send R c TYPE_NOTIFY_ACK d)) e)) = ep_services e"
proof -
  obtain r e' where run: "on_afk (afk_send R c TYPE_NOTIFY_ACK d) e = (r, e')"
    by fastforce
  note sent = send_in_rings [OF rings run]
  have "handled R e rs ts 1 e'"
    using sent(1,4) by (auto simp: handled_def intro: exI [of _ "[]"] exI [of _ "[(c, TYPE_NOTIFY_ACK, d)]"])
  then show ?thesis
    using run sent(2,3) by (auto simp: printed_def split: sum.split epic_error.split afk_error.split)
qed

lemma printed_service_call:
  assumes rings: "rings e (epic_memory R e) rs ts" and quiet: "quiet R e"
  shows "fst (printed (handle_service_call R c sub d) e) = Inr () \<and>
    handled R e rs ts 1 (snd (printed (handle_service_call R c sub d) e)) \<and>
    ep_services (snd (printed (handle_service_call R c sub d) e)) = ep_services e"
proof -
  obtain r e' where run: "handle_service_call R c sub d e = (r, e')"
    by fastforce
  note called = service_call_cases [OF rings quiet run]
  have "handled R e rs ts 1 e'"
    using called(1,4) unfolding handled_def
    by (auto intro: exI [of _ "[]"] exI [of _ "[(c, TYPE_NOTIFY_ACK, x)]" for x])
  then show ?thesis
    using run called(2,3) by (auto simp: printed_def split: sum.split epic_error.split afk_error.split)
qed

lemma handle_notify_handled:
  assumes rings: "rings e (epic_memory R e) rs ts" and quiet: "quiet R e"
  obtains e' where "handle_notify R c d e = (Inr (), e')" and "handled R e rs ts 1 e'"
    and "ep_services e' = announces (c, TYPE_NOTIFY, d) (ep_services e)"
proof -
  let ?run = "handle_notify R c d e"
  have "fst ?run = Inr () \<and> handled R e rs ts 1 (snd ?run) \<and>
    ep_services (snd ?run) = announces (c, TYPE_NOTIFY, d) (ep_services e)"
  proof (cases "is_service_announce d")
    case True
    then show ?thesis
      using rings
      by (auto simp: handle_notify_def is_service_announce_def announces_def handle_announce_services handled_def
          intro: exI [of _ "[]"])
  next
    case False
    then have none: "announces (c, TYPE_NOTIFY, d) (ep_services e) = ep_services e"
      by (simp add: announces_def)
    consider "length d < SIZE_HEADERS"
      | "\<not> length d < SIZE_HEADERS" "sub_category (read_sub_hdr d) = CAT_NOTIFY" "sub_type (read_sub_hdr d) = SUBTYPE_STD_SERVICE"
      | "\<not> length d < SIZE_HEADERS" "\<not> (sub_category (read_sub_hdr d) = CAT_NOTIFY \<and> sub_type (read_sub_hdr d) = SUBTYPE_STD_SERVICE)"
      by blast
    then show ?thesis
    proof cases
      case 1
      then show ?thesis
        using none handled_refl [OF rings] by (simp add: handle_notify_def)
    next
      case 2
      then show ?thesis
        using none printed_service_call [OF rings quiet] by (simp add: handle_notify_def Let_def)
    next
      case 3
      have "handled R e rs ts 1 (e\<lparr>ep_afk := (ep_afk e)\<lparr>env := h c ty b (env (ep_afk e))\<rparr>\<rparr>)"
        if "ep_notify e = Some h" for h ty b
        using rings_frame [OF rings] quiet_notifyD [OF quiet that]
        by (auto simp: handled_def epic_memory_def memory_def intro!: exI [of _ "[]"])
      then show ?thesis
        using 3 False none handled_refl [OF rings]
        by (auto simp: handle_notify_def Let_def is_service_announce_def split: option.split)
    qed
  qed
  then show ?thesis
    by (intro that [of "snd ?run"]) (simp_all add: prod_eq_iff)
qed

lemma poll_message_handled:
  assumes rings: "rings e (epic_memory R e) rs ts" and quiet: "quiet R e"
  obtains e' where "poll_message R t c d e = (Inr (), e')" and "handled R e rs ts 1 e'"
    and "ep_services e' = announces (c, t, d) (ep_services e)"
proof -
  obtain e1 where notify: "handle_notify R c d e = (Inr (), e1)" "handled R e rs ts 1 e1"
      "ep_services e1 = announces (c, TYPE_NOTIFY, d) (ep_services e)"
    by (rule handle_notify_handled [OF rings quiet])
  consider "t = TYPE_NOTIFY \<or> t = TYPE_REPLY \<and> is_service_announce d"
    | "t = TYPE_REPLY" "\<not> is_service_announce d" | "t \<noteq> TYPE_NOTIFY" "t \<noteq> TYPE_REPLY"
    by blast
  then show ?thesis
  proof cases
    case 1
    then show ?thesis
      using notify by (intro that [of e1]) (auto simp: poll_message_def announces_def)
  next
    case 2
    then have "fst (handle_notify_ack R c d e) = Inr () \<and> handled R e rs ts 1 (snd (handle_notify_ack R c d e)) \<and>
      ep_services (snd (handle_notify_ack R c d e)) = ep_services e"
      using printed_send [OF rings] handled_refl [OF rings] by (simp add: handle_notify_ack_def Let_def)
    then show ?thesis
      using 2 by (intro that [of "snd (handle_notify_ack R c d e)"])
        (simp_all add: prod_eq_iff poll_message_def announces_def)
  next
    case 3
    then show ?thesis
      using handled_refl [OF rings] by (intro that [of e]) (auto simp: poll_message_def announces_def)
  qed
qed

text \<open>The loop of \<open>poll\<close> handles every message that is in the ring, in order, and then returns.\<close>

lemma poll_loop_handles:
  assumes "rings e (epic_memory R e) rs ts" and "quiet R e"
  shows "\<exists>e'. loop (poll_step R) e = Some (Inr (), e') \<and> handled R e [] ts (length rs) e' \<and>
    ep_services e' = fold announces rs (ep_services e)"
  using assms
proof (induction rs arbitrary: e ts)
  case Nil
  have "poll_step R e = Some (Done (Inr (), set_epic_memory R (epic_memory R e) e))"
    using take_entry_empty [OF Nil.prems(1)] by (simp add: poll_step_def)
  then show ?case
    using Nil.prems(1) by (auto simp: loop_Done handled_def)
next
  case (Cons x rs)
  obtain c t d where x: "x = (c, t, d)"
    by (cases x)
  obtain m where taken: "take_entry R e = (Inr (Some (t, c, d)), set_epic_memory R m e)" and m: "rings e m rs ts"
    by (rule take_entry_head [OF Cons.prems(1) [unfolded x]])
  define e1 where "e1 = set_epic_memory R m e"
  have same: "same_rings e e1"
    by (simp add: e1_def)
  have e1: "rings e1 (epic_memory R e1) rs ts" "quiet R e1"
    using m Cons.prems(2) same_rings_rings [OF same] quiet_same_rings [OF same] by (simp_all add: e1_def)
  obtain e2 where msg: "poll_message R t c d e1 = (Inr (), e2)" and e2: "handled R e1 rs ts 1 e2"
    and services: "ep_services e2 = announces x (ep_services e)"
    by (rule poll_message_handled [OF e1]) (simp add: x e1_def)
  obtain acks where acks: "all_acks acks" "length acks \<le> 1" "rings e1 (epic_memory R e2) rs (ts @ acks)"
    and same2: "same_rings e1 e2"
    using e2 by (auto simp: handled_def)
  have "rings e2 (epic_memory R e2) rs (ts @ acks)" "quiet R e2"
    using acks(3) e1(2) same_rings_rings [OF same2] quiet_same_rings [OF same2] by simp_all
  from Cons.IH [OF this] obtain e' where run: "loop (poll_step R) e2 = Some (Inr (), e')"
    and e': "handled R e2 [] (ts @ acks) (length rs) e'" "ep_services e' = fold announces rs (ep_services e2)"
    by blast
  obtain more where more: "all_acks more" "length more \<le> length rs" "rings e2 (epic_memory R e') [] ((ts @ acks) @ more)"
    and same3: "same_rings e2 e'"
    using e'(1) by (auto simp: handled_def)
  have "loop (poll_step R) e = loop (poll_step R) e2"
    using taken msg by (intro loop_Again) (simp add: poll_step_def e1_def)
  moreover have "same_rings e e2"
    by (rule same_rings_trans [OF same same2])
  then have "handled R e [] ts (length (x # rs)) e'"
    using acks(1,2) more same_rings_rings [of e e2] same_rings_trans [OF _ same3]
    by (auto simp: handled_def intro!: exI [of _ "acks @ more"])
  ultimately show ?case
    using run e'(2) services by auto
qed

lemma poll_loop_endless:
  assumes "endless (rx (ep_afk e)) (epic_memory R e)"
  shows "loop (poll_step R) e = None"
proof (rule loop_never [where I = "\<lambda>e. endless (rx (ep_afk e)) (epic_memory R e)"])
  fix e
  assume e: "endless (rx (ep_afk e)) (epic_memory R e)"
  let ?rb = "rx (ep_afk e)" and ?m = "epic_memory R e"
  have buf: "rb_buf ?rb = rb_hdr ?rb + 192" "rb_ready ?rb"
    using e by (simp_all add: endless_def ring_ok_def)
  have recv: "afk_recv ?rb ?m = (Inr (Some (read_entry ?m (rb_buf ?rb))), ?m)"
    using e buf(2) by (simp add: endless_def afk_recv_def Let_def)
  have ack: "afk_recv_ack ?rb ?m = put32 ?m (rb_hdr ?rb + 64) 0"
    using e by (simp add: endless_def afk_recv_ack_def Let_def block_align_up_def)
  have rptr: "read_rptr (put32 ?m (rb_hdr ?rb + 64) 0) (rb_hdr ?rb) = 0"
    using read_pointers_same(1) [of 0] by simp
  let ?e' = "set_epic_memory R (put32 ?m (rb_hdr ?rb + 64) 0) e"
  have "poll_step R e = Some (Again ?e')"
    using e recv ack
    by (simp add: poll_step_def take_entry_def Let_def epic_memory_def [symmetric] endless_def read_entry_def
        poll_message_def)
  moreover have "endless (rx (ep_afk ?e')) (epic_memory R ?e')"
    using e buf rptr by (simp add: endless_def mem_simps)
  ultimately show "\<exists>e'. poll_step R e = Some (Again e') \<and> endless (rx (ep_afk e')) (epic_memory R e')"
    by blast
qed (rule assms)

end

section \<open>The table of services\<close>

text \<open>The table has one service per channel, and still begins with the services \<open>ss\<close>.\<close>

definition service_table :: "epic_service list \<Rightarrow> 's epic \<Rightarrow> bool" where
  "service_table ss e \<longleftrightarrow> distinct (map svc_channel (ep_services e)) \<and> (\<exists>more. ep_services e = ss @ more)"

lemma service_table_cong: "ep_services e' = ep_services e \<Longrightarrow> service_table ss e' = service_table ss e"
  by (simp add: service_table_def)

lemma service_table_simps [simp]:
  "service_table ss (e\<lparr>ep_afk := a\<rparr>) = service_table ss e"
  "service_table ss (e\<lparr>ep_seq := q\<rparr>) = service_table ss e"
  "service_table ss (set_epic_memory R m e) = service_table ss e"
  "service_table ss (spin R e) = service_table ss e"
  by (simp_all add: service_table_def spin_def)

lemma table_on_afk [preserves_intros]: "preserves (service_table ss) (on_afk f)"
  by (rule preservesI) (simp add: on_afk_def split: prod.split sum.split)

lemma table_take_entry [preserves_intros]: "preserves (service_table ss) (take_entry R)"
  by (rule preservesI) (simp add: take_entry_def Let_def split: prod.split sum.split option.split)

lemma table_printed [preserves_intros]: "preserves (service_table ss) f \<Longrightarrow> preserves (service_table ss) (printed f)"
  by (rule preservesI) (auto simp: printed_def preserves_def split: prod.split sum.split epic_error.split afk_error.split)

lemma table_service_call [preserves_intros]: "preserves (service_table ss) (handle_service_call R c sub d)"
  by (rule preservesI)
    (auto simp: handle_service_call_def Let_def next_seq_def split: option.split prod.split sum.split
      intro: table_on_afk [unfolded preserves_def, rule_format])

lemma table_announce: "service_table ss e \<Longrightarrow> service_table ss (handle_announce c d e)"
  by (auto simp: service_table_def handle_announce_def)

lemma table_notify [preserves_intros]: "preserves (service_table ss) (handle_notify R c d)"
  by (rule preservesI)
    (auto simp: handle_notify_def Let_def table_announce split: option.split
      intro: table_printed [OF table_service_call, unfolded preserves_def, rule_format])

lemma table_notify_ack [preserves_intros]: "preserves (service_table ss) (handle_notify_ack R c d)"
  by (rule preservesI)
    (auto simp: handle_notify_ack_def Let_def intro: table_printed [OF table_on_afk, unfolded preserves_def, rule_format])

lemma table_poll_message [preserves_intros]: "preserves (service_table ss) (poll_message R t c d)"
proof -
  have "poll_message R t c d = (if t = TYPE_NOTIFY then handle_notify R c d
      else if t = TYPE_REPLY then if is_service_announce d then handle_notify R c d else handle_notify_ack R c d
      else ok ())"
    by (rule ext) (simp add: poll_message_def)
  then show ?thesis
    by (simp add: table_notify table_notify_ack preserves_ok)
qed

lemmas table_stepD = table_take_entry [THEN preservesD] table_poll_message [THEN preservesD] table_notify [THEN preservesD]

lemma table_poll_loop [preserves_intros]: "may_keep (service_table ss) (loop (poll_step R))"
  by (rule may_keep_loop)
    (auto simp: poll_step_def dest: table_stepD split: prod.splits sum.splits option.splits)

lemma table_drain [preserves_intros]: "may_keep (service_table ss) (drain R)"
  by (rule may_keepI) (auto simp: drain_def)

lemma table_poll [preserves_intros]: "may_keep (service_table ss) (epic_poll R)"
  unfolding epic_poll_def by (intro preserves_intros)

lemma table_wait_services [preserves_intros]: "may_keep (service_table ss) (wait_for_services R n timeout)"
proof -
  have "may_keep (service_table ss) (loop (wait_services_step R n timeout start))" for start
    by (rule may_keep_loop)
      (auto simp: wait_services_step_def dest: may_keepD [OF table_poll] split: if_splits option.splits prod.splits sum.splits)
  then show ?thesis
    unfolding may_keep_def wait_for_services_def by blast
qed

lemma table_reply_loop [preserves_intros]: "may_keep (service_table ss) (loop (reply_step R c ty))"
  by (rule may_keep_loop)
    (auto simp: reply_step_def dest: table_stepD split: if_splits prod.splits sum.splits option.splits)

lemma table_progress [preserves_intros]: "preserves (service_table ss) (run_progress progress)"
  by (rule preservesI) (simp add: run_progress_def split: prod.split sum.split)

lemma table_wait_reply [preserves_intros]: "may_keep (service_table ss) (wait_reply_with_progress R c ty progress)"
proof -
  have round: "may_keep (service_table ss) (may_bind (total_step (run_progress progress))
      (\<lambda>_. may_bind (drain R) (\<lambda>_. loop (reply_step R c ty))))"
    by (intro preserves_intros)
  have "may_keep (service_table ss) (loop (wait_reply_step R c ty progress start))" for start
    by (rule may_keep_loop)
      (auto simp: wait_reply_step_def dest: may_keepD [OF round] split: if_splits option.splits prod.splits sum.splits)
  then show ?thesis
    unfolding may_keep_def wait_reply_with_progress_def by blast
qed

lemma table_send [preserves_intros]:
  "preserves (service_table ss) (send_dma_command R c ty n fixed)"
  "preserves (service_table ss) (send_standard_command R c grp command data n k)"
  "preserves (service_table ss) (send_raw_command R c ty data)"
proof -
  show dma: "preserves (service_table ss) (send_dma_command R c ty n fixed)" for c ty n fixed
    by (rule preservesI)
      (auto simp: send_dma_command_def next_seq_def intro: table_on_afk [unfolded preserves_def, rule_format])
  show "preserves (service_table ss) (send_standard_command R c grp command data n k)"
    "preserves (service_table ss) (send_raw_command R c ty data)"
    by (rule preservesI, simp add: send_standard_command_def send_raw_command_def Let_def
        dma [unfolded preserves_def, rule_format])+
qed

lemma table_finish [preserves_intros]: "preserves (service_table ss) (finish_call grp command limit reply)"
  by (simp add: preserves_def finish_call_def)

section \<open>An endpoint on an idle coprocessor\<close>

definition wide_ring :: "nat \<Rightarrow> afk_ring" where
  "wide_ring hdr = \<lparr>rb_hdr = hdr, rb_buf = hdr + 192, rb_bufsz = 256, rb_ready = True\<rparr>"

text \<open>An endpoint whose rings are at \<^verbatim>\<open>0x1000\<close> and \<^verbatim>\<open>0x2000\<close>, with the buffers behind them.\<close>

definition idle_epic :: "mem \<Rightarrow> (mem \<times> unit) rtkit epic" where
  "idle_epic m = \<lparr>ep_afk = \<lparr>env = rtkit_new asc_new (m, ()), shared = None, tx = wide_ring 0x1000,
       rx = wide_ring 0x2000, started = True\<rparr>,
     ep_dma = \<lparr>tx_virt = 0x8000, tx_paddr = 0x8000, tx_dva = 0x18000, rx_virt = 0xC000, rx_paddr = 0xC000, rx_dva = 0x1C000\<rparr>,
     ep_seq = 7, ep_services = [], ep_notify = None, ep_handler = Some (\<lambda>c k request buf s. (Inr buf, s))\<rparr>"

lemma idle_epic_fields [simp]:
  "tx (ep_afk (idle_epic m)) = wide_ring 0x1000" "rx (ep_afk (idle_epic m)) = wide_ring 0x2000"
  "ep_seq (idle_epic m) = 7" "ep_services (idle_epic m) = []" "tx_virt (ep_dma (idle_epic m)) = 0x8000"
  "epic_memory example_processor (idle_epic m) = m"
  "ep_handler (idle_epic m) = Some (\<lambda>c k request buf s. (Inr buf, s))"
  by (simp_all add: idle_epic_def epic_memory_def memory_def rtkit_remoteproc_def rtkit_new_def)

lemma wide_ring_region: "in_ring (wide_ring h) a \<longleftrightarrow> h \<le> a \<and> a < h + 448"
  by (auto simp: in_ring_def wide_ring_def)

lemma wide_ring_empty:
  assumes "\<And>a. in_ring (wide_ring h) a \<Longrightarrow> m a = 0"
  shows "ring_holds (wide_ring h) m []"
  by (rule ring_holds_frame [where m = "\<lambda>_. 0"])
    (use assms in \<open>simp_all add: ring_holds_def ring_ok_def wide_ring_def read_rptr_def read_wptr_def get32_def\<close>)

lemma wide_ring_put:
  assumes zero: "\<And>a. in_ring (wide_ring h) a \<Longrightarrow> m a = 0" and len: "length d \<le> 176"
  obtains m' new where "afk_enqueue (wide_ring h) c t d m = Inr (m', new)"
    and "ring_holds (wide_ring h) m' [(c, t, d)]" and "\<And>a. \<not> in_ring (wide_ring h) a \<Longrightarrow> m' a = m a"
proof -
  have empty: "ring_holds (wide_ring h) m []"
    using zero by (rule wide_ring_empty)
  have "read_rptr m h = 0" "read_wptr m h = 0"
    unfolding read_rptr_def read_wptr_def get32_def
    by (simp_all add: zero [unfolded wide_ring_region])
  moreover have "block_align_up (16 + length d) \<le> 192"
    using len by (intro block_align_up_le) auto
  then have "has_space 0 0 (block_align_up (16 + length d)) 256 = Some True"
    by (simp add: has_space_def)
  ultimately obtain m' new where enq: "afk_enqueue (wide_ring h) c t d m = Inr (m', new)"
    using enqueue_error [OF empty, of c t d]
    by (cases "afk_enqueue (wide_ring h) c t d m") (auto simp: wide_ring_def)
  show thesis
    using that [OF enq] enqueue_holds [OF empty enq] enqueue_outside [OF empty enq] by simp
qed

text \<open>On an idle coprocessor a message that fits into the ring is sent.\<close>

definition idle :: "(mem \<times> unit) rtkit \<Rightarrow> bool" where
  "idle r \<longleftrightarrow> (\<exists>m. r = rtkit_new asc_new (m, ()))"

lemma idle_simps [simp]:
  "idle (env (ep_afk (idle_epic m)))"
  "idle r \<Longrightarrow> idle (os_set_memory example_processor m r)"
  by (auto simp: idle_def idle_epic_def rtkit_remoteproc_def rtkit_new_def)

lemma idle_send:
  assumes "idle r"
  shows "fst (srv_send example_processor (message_one w) r) = Inr ()"
  using assms by (auto simp: idle_def rtkit_remoteproc_def service_send_def map_error_def message_one_def
      rtkit_send_ready rtkit_new_def asc_new_def)

lemma idle_afk_send:
  assumes "idle (env a)" and "tx a = wide_ring h" and "length d \<le> 176"
    and "\<And>x. in_ring (wide_ring h) x \<Longrightarrow> memory example_processor a x = 0"
  shows "fst (afk_send example_processor c t d a) = Inr ()"
proof -
  obtain m new where enq: "afk_enqueue (wide_ring h) c t d (memory example_processor a) = Inr (m, new)"
    by (rule wide_ring_put [OF assms(4,3)])
  have "fst (srv_send example_processor (message_one w) (os_set_memory example_processor m (env a))) = Inr ()" for w
    using assms(1) by (intro idle_send) simp
  then show ?thesis
    using assms(2) enq
    by (auto simp: afk_send_def send_rbep_def on_env_def set_memory_def split: prod.split sum.split)
      (metis fst_conv sum.distinct(1))
qed

lemma on_afk_fst: "fst (afk (ep_afk e)) = Inr x \<Longrightarrow> fst (on_afk afk e) = Inr x"
  by (auto simp: on_afk_def split: prod.split sum.split)


section \<open>Properties\<close>



text \<open>
  C18. A service call of the coprocessor is answered once or not at all: unless it is refused, exactly
  one acknowledgement is queued behind the older entries; it repeats the sequence number and the
  68-byte header of the call, has the size of the call, and carries the handler's answer followed
  by zeros. The receive ring is not touched.
\<close>

theorem service_call_answered:
  fixes P :: "(mem \<times> 'k) platform" and endpoint free virt
  defines "R \<equiv> rtkit_remoteproc P endpoint free virt"
  assumes "rings e (epic_memory R e) received queued" and "quiet R e"
    and "handle_service_call R channel sub payload e = (r, e')"
  shows "rings e' (epic_memory R e') received queued \<and> r \<noteq> Inr () \<or>
    (\<exists>reply answer n.
       rings e' (epic_memory R e') received (queued @ [(channel, TYPE_NOTIFY_ACK, reply)]) \<and>
       n = min (unat (sub_length sub)) (length payload - SIZE_HEADERS) \<and> length reply = SIZE_HEADERS + n \<and>
       read_sub_hdr reply = \<lparr>sub_length = of_nat n, sub_category = CAT_REPLY, sub_type = SUBTYPE_STD_SERVICE,
         sub_seq = sub_seq sub, sub_inline_len = of_nat (n - 4)\<rparr> \<and>
       drop SIZE_HEADERS reply = take SIZE_AP_CALL (drop SIZE_HEADERS payload) @ answer @
         replicate (n - SIZE_AP_CALL - length answer) 0 \<and>
       length answer = unat (le_at payload (SIZE_HEADERS + 12) 4 :: u32))"
proof -
  note called = rtkit_memory.service_call_cases [OF assms(2,3,4) [unfolded R_def], folded R_def]
  note same = same_rings_rings [OF called(1)]
  from called(4) show ?thesis
  proof
    assume "rings e (epic_memory R e') received queued \<and> (\<exists>x. r = Inl x)"
    then show ?thesis
      by (auto simp: same)
  next
    assume "\<exists>n call_size answer seq. call_accepted sub payload n call_size \<and> length answer = call_size \<and>
      rings e (epic_memory R e') received
        (queued @ [(channel, TYPE_NOTIFY_ACK, service_call_reply sub payload n call_size answer seq)])"
    then obtain n call_size answer seq where ok: "call_accepted sub payload n call_size"
      and len: "length answer = call_size"
      and tx: "rings e (epic_memory R e') received
        (queued @ [(channel, TYPE_NOTIFY_ACK, service_call_reply sub payload n call_size answer seq)])"
      by blast
    let ?reply = "service_call_reply sub payload n call_size answer seq"
    note fields = service_call_reply_fields(1,3,4,5) [OF ok len, where seq = seq]
    have "drop SIZE_HEADERS ?reply = take SIZE_AP_CALL (drop SIZE_HEADERS ?reply) @
        drop (SIZE_HEADERS + SIZE_AP_CALL) ?reply"
      using append_take_drop_id [of SIZE_AP_CALL "drop SIZE_HEADERS ?reply"] by (simp only: drop_drop add.commute)
    then show ?thesis
      using tx ok len fields
      by (intro disjI2 exI [of _ ?reply] exI [of _ answer] exI [of _ n])
        (simp add: same call_accepted_def inline_size_def)
  qed
qed

theorem service_call_answered_witness:
  "\<exists>e' reply. handle_service_call example_processor 1
       \<lparr>sub_length = 68, sub_category = CAT_NOTIFY, sub_type = SUBTYPE_STD_SERVICE, sub_seq = 5, sub_inline_len = 0\<rparr>
       (replicate 108 0) (idle_epic (\<lambda>_. 0)) = (Inr (), e') \<and>
     rings e' (epic_memory example_processor e') [] [(1, TYPE_NOTIFY_ACK, reply)] \<and>
     length reply = 108 \<and> sub_seq (read_sub_hdr reply) = 5"
proof -
  let ?e = "idle_epic (\<lambda>_. 0)" and ?p = "replicate 108 0"
  let ?sub = "\<lparr>sub_length = 68, sub_category = CAT_NOTIFY, sub_type = SUBTYPE_STD_SERVICE, sub_seq = 5, sub_inline_len = 0\<rparr>"
  obtain r e' where run: "handle_service_call example_processor 1 ?sub ?p ?e = (r, e')"
    by fastforce
  have rings: "rings ?e (epic_memory example_processor ?e) [] []"
    by (auto simp: rings_def wide_ring_region intro: wide_ring_empty)
  have quiet: "quiet example_processor ?e"
    by (simp add: quiet_def idle_epic_def)
  have zero: "(from_le_bytes (replicate k 0) :: u32) = 0" for k
    by (induction k) (simp_all add: from_le_bytes_def)
  have zeros: "(le_at ?p k 4 :: u32) = 0" for k
    by (simp add: le_at_def zero)
  have "idle (env ((ep_afk ?e)\<lparr>env := env (ep_afk ?e)\<rparr>))"
    by simp
  then have "fst (handle_service_call example_processor 1 ?sub ?p ?e) = Inr ()"
    by (auto simp: handle_service_call_def inline_size_def zeros Let_def next_seq_def service_call_reply_def
        epic_memory_def [symmetric] intro!: on_afk_fst idle_afk_send [where h = "0x1000"])
  then have r: "r = Inr ()"
    using run by simp
  from service_call_answered [OF rings quiet run] show ?thesis
    using run r by auto
qed

text \<open>
  C19. Polling handles every message: when the notifications have been drained and the receive ring
  holds any messages, well formed or not, \<open>poll\<close> returns with an empty ring, it has registered
  exactly the services the messages announce, one per channel and the first announcement of each,
  and it has queued nothing but acknowledgements, at most one for each message.
\<close>

theorem poll_handles_all:
  fixes P :: "(mem \<times> 'k) platform" and endpoint free virt
  defines "R \<equiv> rtkit_remoteproc P endpoint free virt"
  assumes "drain R e = Some (Inr (), e1)"
    and "rings e1 (epic_memory R e1) received queued" and "quiet R e1"
  shows "\<exists>e' acks. epic_poll R e = Some (Inr (), e') \<and>
    rings e' (epic_memory R e') [] (queued @ acks) \<and>
    ep_services e' = fold announces received (ep_services e) \<and>
    all_acks acks \<and> length acks \<le> length received"
proof -
  obtain e' where run: "loop (poll_step R) e1 = Some (Inr (), e')"
    and e': "handled R e1 [] queued (length received) e'"
    and services: "ep_services e' = fold announces received (ep_services e1)"
    using rtkit_memory.poll_loop_handles [OF assms(3,4) [unfolded R_def], folded R_def] by blast
  obtain acks where same: "same_rings e1 e'" and acks: "all_acks acks" "length acks \<le> length received"
      "rings e1 (epic_memory R e') [] (queued @ acks)"
    using e' by (auto simp: handled_def)
  have "ep_services e1 = ep_services e"
    using assms(2) by (auto simp: drain_def)
  moreover have "epic_poll R e = Some (Inr (), e')"
    using assms(2) run by (simp add: epic_poll_def may_bind_def)
  ultimately show ?thesis
    using services acks same_rings_rings [OF same] by auto
qed

lemma idle_drain: "drain example_processor (idle_epic m) = Some (Inr (), idle_epic m)"
proof -
  have "service_try_recv memory_platform 0x20 (rtkit_new asc_new (m, ())) = (Inr None, rtkit_new asc_new (m, ()))"
    by (simp add: service_try_recv_def recv_endpoint_def recv_endpoint_loop.simps rtkit_recv_def rtkit_new_def
        asc_new_def can_recv_def hardware_can_recv_def map_error_def try_bind_def)
  then have "drain_step example_processor (ep_afk (idle_epic m)) = Some (Done (ep_afk (idle_epic m)))"
    by (simp add: drain_step_def recv_rbep_def on_env_def idle_epic_def rtkit_remoteproc_def)
  then show ?thesis
    by (simp add: drain_def drain_rbep_def loop_Done)
qed

theorem poll_handles_all_witness:
  "\<exists>m e'. epic_poll example_processor (idle_epic m) = Some (Inr (), e') \<and>
     map svc_channel (ep_services e') = [3]"
proof -
  let ?p = "epic_headers CAT_REPORT SUBTYPE_ANNOUNCE 0 0 32 0 @ replicate 32 0"
  obtain m new where "afk_enqueue (wide_ring 0x2000) 3 TYPE_NOTIFY ?p (\<lambda>_. 0) = Inr (m, new)"
    and rx: "ring_holds (wide_ring 0x2000) m [(3, TYPE_NOTIFY, ?p)]"
    and out: "\<And>a. \<not> in_ring (wide_ring 0x2000) a \<Longrightarrow> m a = 0"
    by (rule wide_ring_put [of "0x2000" "\<lambda>_. 0" ?p 3 TYPE_NOTIFY]) simp_all
  have tx: "ring_holds (wide_ring 0x1000) m []"
    using out by (intro wide_ring_empty) (simp add: wide_ring_region)
  have rings: "rings (idle_epic m) (epic_memory example_processor (idle_epic m)) [(3, TYPE_NOTIFY, ?p)] []"
    using rx tx by (simp add: rings_def wide_ring_region)
  have quiet: "quiet example_processor (idle_epic m)"
    by (simp add: quiet_def idle_epic_def)
  have "map svc_channel (fold announces [(3, TYPE_NOTIFY, ?p)] []) = [3]"
    by (simp add: announces_def is_service_announce_def)
  with poll_handles_all [OF idle_drain rings quiet] obtain e'
    where "epic_poll example_processor (idle_epic m) = Some (Inr (), e')" "map svc_channel (ep_services e') = [3]"
    by auto
  then show ?thesis
    by (intro exI [of _ m] exI [of _ e'] conjI)
qed

text \<open>
  Services are never lost and channels stay unique: whatever the coprocessor sends, no call of
  the endpoint removes, reorders or renames a service in the table or registers a channel twice.
\<close>

theorem services_stable:
  "may_keep (service_table ss) (epic_poll R) \<and>
   may_keep (service_table ss) (wait_for_services R min_services timeout_us) \<and>
   may_keep (service_table ss) (call_by_channel R channel grp command data) \<and>
   may_keep (service_table ss) (call_by_channel_sized R channel grp command data request_size response_size) \<and>
   may_keep (service_table ss) (call_raw_by_channel_with_progress R channel subtype data progress)"
  unfolding call_by_channel_def call_by_channel_sized_def call_raw_by_channel_with_progress_def
    send_command_def wait_reply_def
  by (intro conjI table_poll table_wait_services may_keep_bind may_keep_total table_send table_wait_reply table_finish)

text \<open>
  The ring may be malformed: with a write pointer that is not a multiple of the block size the loop of
  \<open>poll\<close> takes the same entry again and again, and no time limit is checked inside it.
\<close>

lemma poll_may_not_return:
  fixes P :: "(mem \<times> 'k) platform" and endpoint free virt
  defines "R \<equiv> rtkit_remoteproc P endpoint free virt"
  assumes "drain R e = Some (Inr (), e1)" and "endless (rx (ep_afk e1)) (epic_memory R e1)"
  shows "epic_poll R e = None"
  using rtkit_memory.poll_loop_endless [OF assms(3) [unfolded R_def]] assms(2)
  by (simp add: epic_poll_def may_bind_def R_def)

end
