(* ===== verification/Dart.thy ===== *)
theory Dart
  imports Prelude
begin

text \<open>
  The DART I/O memory management unit (\<open>drivers/iommu/apple-dart/src/lib.rs\<close>): its registers,
  its page tables in physical memory, and the domains the kernel attaches streams to.

  The page tables are kept in physical memory, one 64-bit cell per entry, because that is
  where the hardware walks them; the driver reaches them through kernel virtual addresses,
  which the environment translates. The kernel's page allocator and \<open>memremap_normal\<close> are
  parameters (\<open>dart_env\<close>), with what the driver relies on of them in \<open>kernel_ok\<close>.
\<close>

section \<open>Registers of an instance\<close>

datatype iommu_error = Busy | NotSupported | InvalidSpec | AttachFailed
  | DomainAllocationFailed | MapFailed | UnmapFailed

record contiguous_pages =
  cp_vaddr :: nat
  cp_paddr :: u64

text \<open>
  What the driver calls of the kernel and reads of the hardware. \<open>cpu_page_size\<close> is the kernel's
  \<open>PAGE_SIZE\<close>. \<open>new_aligned\<close> answers the n-th request for a number of contiguous pages at an
  alignment, \<open>memremap_normal\<close> a request to map physical memory, \<open>vtop\<close> translates kernel
  virtual addresses, and \<open>stream_command\<close> is what the n-th read of the command register returns.
\<close>

record dart_env =
  cpu_page_size :: nat
  new_aligned :: "nat \<Rightarrow> nat \<Rightarrow> nat \<Rightarrow> contiguous_pages option"
  memremap_normal :: "u64 \<Rightarrow> nat \<Rightarrow> string + nat"
  vtop :: "nat \<Rightarrow> nat"
  stream_command :: "nat \<Rightarrow> u32"

record dart_params =
  page_shift :: nat
  supports_bypass :: bool
  num_streams :: u32

record dart_hw =
  dregs :: regs
  polls :: nat

definition DART_PARAMS1 :: nat where "DART_PARAMS1 = 0x00"
definition DART_PARAMS2 :: nat where "DART_PARAMS2 = 0x04"
definition DART_TCR :: nat where "DART_TCR = 0x100"
definition DART_TTBR :: nat where "DART_TTBR = 0x200"
definition DART_TTBR_COUNT :: nat where "DART_TTBR_COUNT = 4"
definition DART_ENABLE_STREAMS :: nat where "DART_ENABLE_STREAMS = 0xfc"
definition DART_STREAM_COMMAND :: nat where "DART_STREAM_COMMAND = 0x20"
definition DART_STREAM_SELECT :: nat where "DART_STREAM_SELECT = 0x34"
definition DART_ERROR_STATUS :: nat where "DART_ERROR_STATUS = 0x40"
definition DART_TCR_TRANSLATE_ENABLE :: u32 where "DART_TCR_TRANSLATE_ENABLE = push_bit 7 1"
definition DART_TCR_BYPASS_DART :: u32 where "DART_TCR_BYPASS_DART = push_bit 8 1"
definition DART_TCR_BYPASS_DAPF :: u32 where "DART_TCR_BYPASS_DAPF = push_bit 12 1"
definition DART_TTBR_VALID :: u32 where "DART_TTBR_VALID = push_bit 31 1"
definition DART_PARAMS1_MASK :: u32 where "DART_PARAMS1_MASK = push_bit 24 0xf"
definition DART_STREAM_COMMAND_BUSY :: u32 where "DART_STREAM_COMMAND_BUSY = push_bit 2 1"
definition DART_STREAM_COMMAND_BUSY_TIMEOUT_US :: nat where
  "DART_STREAM_COMMAND_BUSY_TIMEOUT_US = 100"
definition DART_STREAM_COMMAND_INV_ALL :: u32 where "DART_STREAM_COMMAND_INV_ALL = push_bit 20 1"

definition dart_ttbr_offset :: "nat \<Rightarrow> nat \<Rightarrow> nat" where
  "dart_ttbr_offset sid index = DART_TTBR + (sid * DART_TTBR_COUNT + index) * 4"

definition dart_instance_new :: "regs \<Rightarrow> dart_params" where
  "dart_instance_new r =
     (let raw_params1 = r DART_PARAMS1;
          raw_params2 = r DART_PARAMS2;
          sid_width = unat (drop_bit 20 raw_params1 AND 0xf)
      in \<lparr>page_shift = unat (drop_bit 24 (raw_params1 AND DART_PARAMS1_MASK)),
          supports_bypass = (raw_params2 AND 1 \<noteq> 0),
          num_streams = (if 0 < sid_width \<and> sid_width \<le> 8 then push_bit sid_width 1 else 16)\<rparr>)"

definition write32 :: "nat \<Rightarrow> u32 \<Rightarrow> 'z dart_hw_scheme \<Rightarrow> 'z dart_hw_scheme" where
  "write32 offset v s = s\<lparr>dregs := (dregs s)(offset := v)\<rparr>"

fun poll_idle :: "dart_env \<Rightarrow> nat \<Rightarrow> ('z dart_hw_scheme, iommu_error, unit) stepper" where
  "poll_idle E 0 s = (Inl Busy, s)"
| "poll_idle E (Suc n) s =
     (let v = stream_command E (polls s); s' = s\<lparr>polls := polls s + 1\<rparr>
      in if v AND DART_STREAM_COMMAND_BUSY = 0 then (Inr (), s') else poll_idle E n s')"

definition invalidate_all_tlbs :: "dart_env \<Rightarrow> ('z dart_hw_scheme, iommu_error, unit) stepper" where
  "invalidate_all_tlbs E s =
     poll_idle E DART_STREAM_COMMAND_BUSY_TIMEOUT_US
       (write32 DART_STREAM_COMMAND DART_STREAM_COMMAND_INV_ALL
         (write32 DART_STREAM_SELECT (- 1) s))"

definition enable_streams :: "'z dart_hw_scheme \<Rightarrow> 'z dart_hw_scheme" where
  "enable_streams = write32 DART_ENABLE_STREAMS (- 1)"

definition set_tcr :: "nat \<Rightarrow> u32 \<Rightarrow> 'z dart_hw_scheme \<Rightarrow> 'z dart_hw_scheme" where
  "set_tcr sid v = write32 (DART_TCR + sid * 4) v"

definition set_ttbr :: "nat \<Rightarrow> u64 \<Rightarrow> 'z dart_hw_scheme \<Rightarrow> 'z dart_hw_scheme" where
  "set_ttbr sid paddr = write32 (dart_ttbr_offset sid 0) (ucast (drop_bit 12 paddr) OR DART_TTBR_VALID)"

text \<open>The number of levels is an argument the code ignores, and so is a busy TLB.\<close>

definition enable_translation ::
  "dart_env \<Rightarrow> nat \<Rightarrow> u64 \<Rightarrow> nat \<Rightarrow> 'z dart_hw_scheme \<Rightarrow> 'z dart_hw_scheme" where
  "enable_translation E sid ttbr_paddr num_levels s =
     snd (invalidate_all_tlbs E
       (set_tcr sid DART_TCR_TRANSLATE_ENABLE (set_ttbr sid ttbr_paddr (enable_streams s))))"

definition sync_page_tables :: "dart_env \<Rightarrow> ('z dart_hw_scheme, iommu_error, unit) stepper" where
  "sync_page_tables E = invalidate_all_tlbs E"

definition ttbr_paddr :: "nat \<Rightarrow> regs \<Rightarrow> u64 option" where
  "ttbr_paddr sid r =
     (let ttbr = r (dart_ttbr_offset sid 0)
      in if ttbr AND DART_TTBR_VALID = 0 then None
         else Some (push_bit 12 (ucast (ttbr AND NOT DART_TTBR_VALID))))"

definition disable_translation :: "nat \<Rightarrow> 'z dart_hw_scheme \<Rightarrow> 'z dart_hw_scheme" where
  "disable_translation sid = set_tcr sid 0"

definition enable_bypass :: "dart_env \<Rightarrow> dart_params \<Rightarrow> nat \<Rightarrow> 'z dart_hw_scheme \<Rightarrow> 'z dart_hw_scheme" where
  "enable_bypass E D sid s =
     (let s1 = enable_streams s
      in if \<not> supports_bypass D then enable_translation E sid 0 3 s1
         else set_tcr sid (DART_TCR_BYPASS_DART OR DART_TCR_BYPASS_DAPF) s1)"

definition page_size_exceeds_cpu_page_size :: "dart_env \<Rightarrow> dart_params \<Rightarrow> bool" where
  "page_size_exceeds_cpu_page_size E D \<longleftrightarrow> cpu_page_size E < 2 ^ page_shift D"

section \<open>Page tables\<close>

definition DART_PAGE_SHIFT :: nat where "DART_PAGE_SHIFT = 14"
definition DART_IAS_BITS :: nat where "DART_IAS_BITS = 32"
definition DART_IAS_MASK :: u64 where "DART_IAS_MASK = push_bit DART_IAS_BITS 1 - 1"
definition DART_PTE_SIZE_SHIFT :: nat where "DART_PTE_SIZE_SHIFT = 3"
definition DART_PTE_SUBPAGE_ALLOW_ALL :: u64 where "DART_PTE_SUBPAGE_ALLOW_ALL = push_bit 40 0xfff"
definition DART_PTE_VALID :: u64 where "DART_PTE_VALID = 1"
definition DART_PTE_SP_DIS :: u64 where "DART_PTE_SP_DIS = push_bit 1 1"
definition DART_PTE_NO_WRITE :: u64 where "DART_PTE_NO_WRITE = push_bit 7 1"
definition DART_PTE_NO_READ :: u64 where "DART_PTE_NO_READ = push_bit 8 1"
definition DART_PADDR_MASK :: u64 where
  "DART_PADDR_MASK = (push_bit 36 1 - 1) AND NOT (push_bit 12 1 - 1)"

record firmware_table_mapping =
  fw_paddr :: u64
  fw_vaddr :: nat

record dart_page_table =
  root_vaddr :: nat
  root_paddr :: u64
  tables :: "contiguous_pages list"
  firmware_tables :: "firmware_table_mapping list"
  pt_page_shift :: nat
  bits_per_level :: nat
  table_levels :: nat
  pte_count :: nat
  table_size :: nat

text \<open>Physical memory, and how many requests the page allocator has answered.\<close>

record dart_memory = dart_hw +
  cells :: "nat \<Rightarrow> u64"
  allocs :: nat

record dart_space = dart_memory +
  ptable :: dart_page_table

definition div_ceil :: "nat \<Rightarrow> nat \<Rightarrow> nat" where
  "div_ceil a b = (a + b - 1) div b"

definition allocate_table ::
  "dart_env \<Rightarrow> nat \<Rightarrow> ('z dart_memory_scheme, string, contiguous_pages) stepper" where
  "allocate_table E sz s =
     (let s' = s\<lparr>allocs := allocs s + 1\<rparr>
      in case new_aligned E (allocs s) (div_ceil sz (cpu_page_size E)) sz of
           None \<Rightarrow> (Inl ''dart: failed to allocate page table'', s')
         | Some pages \<Rightarrow> (Inr pages, s'))"

definition read_pte :: "dart_env \<Rightarrow> nat \<Rightarrow> nat \<Rightarrow> 'z dart_memory_scheme \<Rightarrow> u64" where
  "read_pte E table_vaddr index s = cells s (vtop E (table_vaddr + index * 8))"

definition write_pte ::
  "dart_env \<Rightarrow> nat \<Rightarrow> nat \<Rightarrow> u64 \<Rightarrow> 'z dart_memory_scheme \<Rightarrow> 'z dart_memory_scheme" where
  "write_pte E table_vaddr index pte s =
     s\<lparr>cells := (cells s)(vtop E (table_vaddr + index * 8) := pte)\<rparr>"

definition paddr_to_pte :: "u64 \<Rightarrow> u64" where
  "paddr_to_pte paddr = paddr AND DART_PADDR_MASK"

definition pte_to_paddr :: "u64 \<Rightarrow> u64" where
  "pte_to_paddr pte = pte AND DART_PADDR_MASK"

text \<open>The checks on the page size that both constructors make, and the geometry they compute.\<close>

definition geometry :: "dart_env \<Rightarrow> nat \<Rightarrow> string + nat \<times> nat \<times> nat \<times> nat" where
  "geometry E shift =
     (if shift < DART_PTE_SIZE_SHIFT \<or> shift < length (takeWhile (\<lambda>i. \<not> bit (cpu_page_size E) i) [0..<64])
      then Inl ''dart: invalid page shift''
      else let bits = shift - DART_PTE_SIZE_SHIFT
           in if bits = 0 \<or> DART_IAS_BITS \<le> shift then Inl ''dart: invalid page table geometry''
              else let sz = 2 ^ shift;
                       count = sz div 8;
                       iova_index_bits = DART_IAS_BITS - shift
                   in Inr (bits, max 2 (div_ceil iova_index_bits bits), count, sz))"

definition new_for_page_shift ::
  "dart_env \<Rightarrow> nat \<Rightarrow> ('z dart_memory_scheme, string, dart_page_table) stepper" where
  "new_for_page_shift E shift =
     (case geometry E shift of
        Inl e \<Rightarrow> err e
      | Inr (bits, levels, count, sz) \<Rightarrow>
          try_bind (allocate_table E sz) (\<lambda>root.
          ok \<lparr>root_vaddr = cp_vaddr root, root_paddr = cp_paddr root, tables = [],
              firmware_tables = [], pt_page_shift = shift, bits_per_level = bits,
              table_levels = levels, pte_count = count, table_size = sz\<rparr>))"

definition mapped_table_vaddr :: "dart_page_table \<Rightarrow> u64 \<Rightarrow> nat option" where
  "mapped_table_vaddr t paddr =
     (if paddr = root_paddr t then Some (root_vaddr t)
      else case find (\<lambda>p. cp_paddr p = paddr) (tables t) of
             Some p \<Rightarrow> Some (cp_vaddr p)
           | None \<Rightarrow> map_option fw_vaddr (find (\<lambda>f. fw_paddr f = paddr) (firmware_tables t)))"

definition map_firmware_table ::
  "dart_env \<Rightarrow> u64 \<Rightarrow> ('z dart_space_scheme, string, nat \<times> bool) stepper" where
  "map_firmware_table E paddr s =
     (case mapped_table_vaddr (ptable s) paddr of
        Some vaddr \<Rightarrow> (Inr (vaddr, False), s)
      | None \<Rightarrow>
          (case memremap_normal E paddr (table_size (ptable s)) of
             Inl e \<Rightarrow> (Inl e, s)
           | Inr vaddr \<Rightarrow>
               (Inr (vaddr, True), s\<lparr>ptable := (ptable s)\<lparr>firmware_tables :=
                  firmware_tables (ptable s) @ [\<lparr>fw_paddr = paddr, fw_vaddr = vaddr\<rparr>]\<rparr>\<rparr>)))"

definition table_index :: "dart_page_table \<Rightarrow> u64 \<Rightarrow> nat \<Rightarrow> nat" where
  "table_index t iova level =
     unat (drop_bit (pt_page_shift t + level * bits_per_level t) iova AND of_nat (pte_count t - 1))"

definition leaf_index :: "dart_page_table \<Rightarrow> u64 \<Rightarrow> nat" where
  "leaf_index t iova = unat (drop_bit (pt_page_shift t) iova AND of_nat (pte_count t - 1))"

text \<open>One round of the loop of \<open>map_page\<close>: the table of the next level, allocated when missing.\<close>

definition map_level :: "dart_env \<Rightarrow> u64 \<Rightarrow> nat \<Rightarrow> nat \<Rightarrow> ('z dart_space_scheme, string, nat) stepper" where
  "map_level E iova level table_vaddr s =
     (let index = table_index (ptable s) iova level;
          pte = read_pte E table_vaddr index s
      in if pte AND DART_PTE_VALID = 0
         then try_bind (allocate_table E (table_size (ptable s))) (\<lambda>pages.
              try_bind (put_state (\<lambda>s. s\<lparr>ptable := (ptable s)\<lparr>tables := tables (ptable s) @ [pages]\<rparr>\<rparr>)) (\<lambda>_.
              try_bind (put_state (write_pte E table_vaddr index
                (paddr_to_pte (cp_paddr pages) OR DART_PTE_VALID))) (\<lambda>_.
              ok (cp_vaddr pages)))) s
         else try_bind (map_firmware_table E (pte_to_paddr pte)) (\<lambda>m. ok (fst m)) s)"

fun map_walk :: "dart_env \<Rightarrow> u64 \<Rightarrow> nat list \<Rightarrow> nat \<Rightarrow> ('z dart_space_scheme, string, nat) stepper" where
  "map_walk E iova [] table_vaddr = ok table_vaddr"
| "map_walk E iova (level # levels) table_vaddr =
     try_bind (map_level E iova level table_vaddr) (map_walk E iova levels)"

definition map_page :: "dart_env \<Rightarrow> u64 \<Rightarrow> u64 \<Rightarrow> u64 \<Rightarrow> ('z dart_space_scheme, string, unit) stepper" where
  "map_page E iova paddr flags s =
     try_bind (map_walk E iova (rev [1..<table_levels (ptable s)]) (root_vaddr (ptable s))) (\<lambda>table_vaddr.
       put_state (write_pte E table_vaddr (leaf_index (ptable s) iova)
         (paddr_to_pte paddr OR DART_PTE_SUBPAGE_ALLOW_ALL OR flags))) s"

text \<open>The loop of \<open>unmap_page\<close>: \<open>None\<close> is its early return, when a table is absent.\<close>

fun unmap_walk ::
  "dart_env \<Rightarrow> u64 \<Rightarrow> nat list \<Rightarrow> nat \<Rightarrow> ('z dart_space_scheme, string, nat option) stepper" where
  "unmap_walk E iova [] table_vaddr = ok (Some table_vaddr)"
| "unmap_walk E iova (level # levels) table_vaddr = (\<lambda>s.
     (let pte = read_pte E table_vaddr (table_index (ptable s) iova level) s
      in if pte AND DART_PTE_VALID = 0 then (Inr None, s)
         else try_bind (map_firmware_table E (pte_to_paddr pte)) (\<lambda>m. unmap_walk E iova levels (fst m)) s))"

definition unmap_page :: "dart_env \<Rightarrow> u64 \<Rightarrow> ('z dart_space_scheme, string, unit) stepper" where
  "unmap_page E iova s =
     try_bind (unmap_walk E iova (rev [1..<table_levels (ptable s)]) (root_vaddr (ptable s))) (\<lambda>found.
       case found of
         None \<Rightarrow> ok ()
       | Some table_vaddr \<Rightarrow> put_state (write_pte E table_vaddr (leaf_index (ptable s) iova) 0)) s"

fun translate_walk :: "dart_env \<Rightarrow> u64 \<Rightarrow> nat list \<Rightarrow> nat \<Rightarrow> 'z dart_space_scheme \<Rightarrow> nat option" where
  "translate_walk E iova [] table_vaddr s = Some table_vaddr"
| "translate_walk E iova (level # levels) table_vaddr s =
     (let pte = read_pte E table_vaddr (table_index (ptable s) iova level) s
      in if pte AND DART_PTE_VALID = 0 then None
         else case mapped_table_vaddr (ptable s) (pte_to_paddr pte) of
                None \<Rightarrow> None
              | Some next \<Rightarrow> translate_walk E iova levels next s)"

definition page_size :: "dart_page_table \<Rightarrow> u64" where
  "page_size t = push_bit (pt_page_shift t) 1"

definition translate_iova :: "dart_env \<Rightarrow> u64 \<Rightarrow> 'z dart_space_scheme \<Rightarrow> u64 option" where
  "translate_iova E iova s =
     (case translate_walk E iova (rev [1..<table_levels (ptable s)]) (root_vaddr (ptable s)) s of
        None \<Rightarrow> None
      | Some table_vaddr \<Rightarrow>
          (let pte = read_pte E table_vaddr (leaf_index (ptable s) iova) s
           in if pte AND DART_PTE_VALID = 0 then None
              else Some (pte_to_paddr pte OR (iova AND (page_size (ptable s) - 1)))))"

definition translation_levels :: "dart_page_table \<Rightarrow> nat" where
  "translation_levels t = table_levels t + 1"

definition map_contiguous ::
  "dart_env \<Rightarrow> u64 \<Rightarrow> u64 \<Rightarrow> u64 \<Rightarrow> u64 \<Rightarrow> ('z dart_space_scheme, string, unit) stepper" where
  "map_contiguous E iova paddr len flags s =
     (let psize = page_size (ptable s)
      in for_each (\<lambda>i. map_page E (iova + of_nat i * psize) (paddr + of_nat i * psize) flags)
           [0..<div_ceil (unat len) (unat psize)] s)"

text \<open>
  The hierarchy that firmware left: \<open>map_entries\<close> is the loop of
  \<open>map_existing_table_hierarchy\<close> over the entries of a table, \<open>below\<close> the level of the tables
  the entries name.
\<close>

function (sequential) map_entries ::
  "dart_env \<Rightarrow> nat \<Rightarrow> nat list \<Rightarrow> nat \<Rightarrow> ('z dart_space_scheme, string, unit) stepper"
and map_existing_table_hierarchy ::
  "dart_env \<Rightarrow> nat \<Rightarrow> nat \<Rightarrow> ('z dart_space_scheme, string, unit) stepper" where
  "map_entries E table_vaddr [] below = ok ()"
| "map_entries E table_vaddr (index # rest) below = (\<lambda>s.
     (let pte = read_pte E table_vaddr index s
      in if pte AND DART_PTE_VALID = 0 then map_entries E table_vaddr rest below s
         else try_bind (map_firmware_table E (pte_to_paddr pte)) (\<lambda>m.
                try_bind (if snd m then map_existing_table_hierarchy E (fst m) below else ok ()) (\<lambda>_.
                map_entries E table_vaddr rest below)) s))"
| "map_existing_table_hierarchy E table_vaddr level = (\<lambda>s.
     if level \<le> 1 then (Inr (), s)
     else map_entries E table_vaddr [0..<pte_count (ptable s)] (level - 1) s)"
  by pat_completeness auto
termination
  by (relation "measures [case_sum (\<lambda>(E, v, xs, l). 2 * l + 1) (\<lambda>(E, v, l). 2 * l),
      case_sum (\<lambda>(E, v, xs, l). length xs) (\<lambda>(E, v, l). 0)]") auto

text \<open>\<open>wrap_existing\<close> starts from the memory alone and leaves the page table beside it.\<close>

definition with_table :: "'z dart_memory_scheme \<Rightarrow> dart_page_table \<Rightarrow> dart_space" where
  "with_table s t = \<lparr>dregs = dregs s, polls = polls s, cells = cells s, allocs = allocs s, ptable = t\<rparr>"

definition wrap_existing :: "dart_env \<Rightarrow> u64 \<Rightarrow> nat \<Rightarrow> 'z dart_memory_scheme \<Rightarrow> string + dart_page_table" where
  "wrap_existing E root_pa shift s =
     (case geometry E shift of
        Inl e \<Rightarrow> Inl e
      | Inr (bits, levels, count, sz) \<Rightarrow>
          (case memremap_normal E root_pa sz of
             Inl e \<Rightarrow> Inl e
           | Inr vaddr \<Rightarrow>
               (let t = \<lparr>root_vaddr = vaddr, root_paddr = root_pa, tables = [],
                  firmware_tables = [\<lparr>fw_paddr = root_pa, fw_vaddr = vaddr\<rparr>],
                  pt_page_shift = shift, bits_per_level = bits, table_levels = levels,
                  pte_count = count, table_size = sz\<rparr>
                in case map_existing_table_hierarchy E vaddr levels (with_table s t) of
                     (Inl e, _) \<Rightarrow> Inl e
                   | (Inr _, s') \<Rightarrow> Inr (ptable s'))))"

text \<open>
  \<open>import_level\<close> recurses on the level; \<open>import_entries\<close> is its loop over the entries, which
  \<open>below\<close> (\<open>None\<close> at the leaves) tells how to treat. The count of imported leaves is returned.
\<close>

definition import_shift :: "dart_page_table \<Rightarrow> nat \<Rightarrow> nat" where
  "import_shift t level =
     (if level \<le> 1 then pt_page_shift t else pt_page_shift t + (level - 1) * bits_per_level t)"

function (sequential) import_entries ::
  "dart_env \<Rightarrow> nat \<Rightarrow> nat list \<Rightarrow> nat \<Rightarrow> u64 \<Rightarrow> nat \<Rightarrow> ('z dart_space_scheme, string, nat) stepper"
and import_level ::
  "dart_env \<Rightarrow> u64 \<Rightarrow> nat \<Rightarrow> u64 \<Rightarrow> nat \<Rightarrow> ('z dart_space_scheme, string, nat) stepper" where
  "import_entries E table_vaddr [] level iova_base imported = ok imported"
| "import_entries E table_vaddr (i # rest) level iova_base imported = (\<lambda>s.
     (let pte = read_pte E table_vaddr i s;
          iova = iova_base OR push_bit (import_shift (ptable s) level) (of_nat i)
      in if pte AND DART_PTE_VALID = 0 then import_entries E table_vaddr rest level iova_base imported s
         else if level \<le> 1
         then try_bind (map_page E iova (pte_to_paddr pte) (pte AND NOT DART_PADDR_MASK)) (\<lambda>_.
                import_entries E table_vaddr rest level iova_base (imported + 1)) s
         else try_bind (import_level E (pte_to_paddr pte) (level - 1) iova imported)
                (import_entries E table_vaddr rest level iova_base) s))"
| "import_level E table_paddr level iova_base imported =
     try_bind (map_firmware_table E table_paddr) (\<lambda>m s.
       import_entries E (fst m) [0..<pte_count (ptable s)] level iova_base imported s)"
  by pat_completeness auto
termination
  by (relation "measures [case_sum (\<lambda>(E, v, xs, l, b, n). 2 * l) (\<lambda>(E, p, l, b, n). 2 * l + 1),
      case_sum (\<lambda>(E, v, xs, l, b, n). length xs) (\<lambda>(E, p, l, b, n). 0)]") auto

definition import_from_existing :: "dart_env \<Rightarrow> u64 \<Rightarrow> ('z dart_space_scheme, string, nat) stepper" where
  "import_from_existing E root_pa s = import_level E root_pa (table_levels (ptable s)) 0 0 s"

text \<open>Dropping a table unmaps the firmware tables; the result is the virtual addresses unmapped.\<close>

definition drop_page_table :: "dart_page_table \<Rightarrow> nat list \<times> dart_page_table" where
  "drop_page_table t = (map fw_vaddr (firmware_tables t), t\<lparr>firmware_tables := []\<rparr>)"

section \<open>Domains\<close>

record iommu_stream_id =
  stream_id :: u32
  substream_id :: "u32 option"

record iommu_spec =
  controller_phandle :: u32
  spec_cells :: "u32 list"

record iommu_map_flags =
  flag_read :: bool
  flag_write :: bool

record dart_domain = dart_space +
  attached_streams :: "u32 list"
  firmware_stream :: "u32 option"

record dart_bypass_domain = dart_hw +
  bypass_streams :: "u32 list"

definition dart_pte_flags :: "iommu_map_flags \<Rightarrow> u64" where
  "dart_pte_flags flags =
     (let pte1 = DART_PTE_VALID OR DART_PTE_SP_DIS;
          pte2 = (if \<not> flag_read flags then pte1 OR DART_PTE_NO_READ else pte1)
      in if \<not> flag_write flags then pte2 OR DART_PTE_NO_WRITE else pte2)"

definition stream_ids_from_fdt :: "iommu_spec \<Rightarrow> iommu_error + iommu_stream_id list" where
  "stream_ids_from_fdt spec =
     (case spec_cells spec of
        [] \<Rightarrow> Inl InvalidSpec
      | c # _ \<Rightarrow> Inr [\<lparr>stream_id = c, substream_id = None\<rparr>])"

text \<open>The check that both kinds of domain make of a stream.\<close>

definition validate_stream :: "dart_params \<Rightarrow> iommu_stream_id \<Rightarrow> iommu_error + nat" where
  "validate_stream D stream =
     (if substream_id stream \<noteq> None then Inl NotSupported
      else if num_streams D \<le> stream_id stream then Inl AttachFailed
      else Inr (unat (stream_id stream)))"

definition remember_stream :: "u32 \<Rightarrow> u32 list \<Rightarrow> u32 list" where
  "remember_stream sid xs = (if sid \<in> set xs then xs else xs @ [sid])"

definition bypass_attach ::
  "dart_env \<Rightarrow> dart_params \<Rightarrow> iommu_stream_id \<Rightarrow> (dart_bypass_domain, iommu_error, unit) stepper" where
  "bypass_attach E D stream s =
     (case validate_stream D stream of
        Inl e \<Rightarrow> (Inl e, s)
      | Inr sid \<Rightarrow>
          (let s1 = enable_bypass E D sid s
           in (Inr (), s1\<lparr>bypass_streams := remember_stream (of_nat sid) (bypass_streams s1)\<rparr>)))"

definition bypass_detach ::
  "dart_params \<Rightarrow> iommu_stream_id \<Rightarrow> (dart_bypass_domain, iommu_error, unit) stepper" where
  "bypass_detach D stream s =
     (case validate_stream D stream of
        Inl e \<Rightarrow> (Inl e, s)
      | Inr sid \<Rightarrow>
          (let s1 = disable_translation sid s
           in (Inr (), s1\<lparr>bypass_streams := filter (\<lambda>a. a \<noteq> of_nat sid) (bypass_streams s1)\<rparr>)))"

definition dart_domain_new :: "dart_env \<Rightarrow> dart_params \<Rightarrow> 'z dart_memory_scheme \<Rightarrow> iommu_error + dart_domain" where
  "dart_domain_new E D s =
     (case new_for_page_shift E (page_shift D) s of
        (Inl _, _) \<Rightarrow> Inl DomainAllocationFailed
      | (Inr t, s') \<Rightarrow>
          Inr (dart_space.extend (with_table s' t) \<lparr>attached_streams = [], firmware_stream = None\<rparr>))"

text \<open>\<open>alloc_domain\<close>: \<open>Inl\<close> of the result is a bypass domain, \<open>Inr\<close> a translating one.\<close>

definition alloc_domain ::
  "dart_env \<Rightarrow> dart_params \<Rightarrow> bool \<Rightarrow> 'z dart_memory_scheme \<Rightarrow> iommu_error + dart_bypass_domain + dart_domain" where
  "alloc_domain E D identity s =
     (if supports_bypass D \<and> (identity \<or> page_size_exceeds_cpu_page_size E D)
      then Inr (Inl \<lparr>dregs = dregs s, polls = polls s, bypass_streams = []\<rparr>)
      else if identity then Inl NotSupported
      else case dart_domain_new E D s of Inl e \<Rightarrow> Inl e | Inr d \<Rightarrow> Inr (Inr d))"

definition dart_domain_wrap_existing ::
  "dart_env \<Rightarrow> dart_params \<Rightarrow> iommu_stream_id \<Rightarrow> 'z dart_memory_scheme \<Rightarrow> iommu_error + dart_domain" where
  "dart_domain_wrap_existing E D stream s =
     (if substream_id stream \<noteq> None then Inl NotSupported
      else if num_streams D \<le> stream_id stream then Inl AttachFailed
      else case ttbr_paddr (unat (stream_id stream)) (dregs s) of
        None \<Rightarrow> Inl DomainAllocationFailed
      | Some root_pa \<Rightarrow>
          (case wrap_existing E root_pa (page_shift D) s of
             Inl _ \<Rightarrow> Inl DomainAllocationFailed
           | Inr t \<Rightarrow> Inr (dart_space.extend (with_table s t)
               \<lparr>attached_streams = [stream_id stream], firmware_stream = Some (stream_id stream)\<rparr>)))"

definition attach_stream ::
  "dart_env \<Rightarrow> dart_params \<Rightarrow> iommu_stream_id \<Rightarrow> (dart_domain, iommu_error, unit) stepper" where
  "attach_stream E D stream s =
     (case validate_stream D stream of
        Inl e \<Rightarrow> (Inl e, s)
      | Inr sid \<Rightarrow>
          (case firmware_stream s of
             Some fw \<Rightarrow>
               if stream_id stream \<noteq> fw then (Inl AttachFailed, s)
               else (Inr (), s\<lparr>attached_streams := remember_stream (stream_id stream) (attached_streams s)\<rparr>)
           | None \<Rightarrow>
               (let s1 = enable_translation E sid (root_paddr (ptable s)) (translation_levels (ptable s)) s
                in (Inr (), s1\<lparr>attached_streams := remember_stream (of_nat sid) (attached_streams s1)\<rparr>))))"

definition detach_stream :: "dart_params \<Rightarrow> iommu_stream_id \<Rightarrow> (dart_domain, iommu_error, unit) stepper" where
  "detach_stream D stream s =
     (case validate_stream D stream of
        Inl e \<Rightarrow> (Inl e, s)
      | Inr sid \<Rightarrow>
          (let s1 = (if firmware_stream s = None then disable_translation sid s else s)
           in (Inr (), s1\<lparr>attached_streams := filter (\<lambda>a. a \<noteq> of_nat sid) (attached_streams s1)\<rparr>)))"

definition domain_map ::
  "dart_env \<Rightarrow> u64 \<Rightarrow> u64 \<Rightarrow> u64 \<Rightarrow> iommu_map_flags \<Rightarrow> (dart_domain, iommu_error, unit) stepper" where
  "domain_map E iova paddr len flags =
     try_bind (map_error (\<lambda>_. MapFailed)
       (map_contiguous E (iova AND DART_IAS_MASK) paddr len (dart_pte_flags flags))) (\<lambda>_.
     sync_page_tables E)"

definition domain_unmap :: "dart_env \<Rightarrow> u64 \<Rightarrow> u64 \<Rightarrow> (dart_domain, iommu_error, unit) stepper" where
  "domain_unmap E iova len s =
     (let psize = page_size (ptable s);
          pages = div_ceil (unat len) (unat psize);
          iova' = iova AND DART_IAS_MASK
      in try_bind (for_each (\<lambda>page. map_error (\<lambda>_. UnmapFailed) (unmap_page E (iova' + of_nat page * psize)))
            [0..<pages]) (\<lambda>_. sync_page_tables E) s)"

definition domain_iova_to_phys :: "dart_domain \<Rightarrow> u64 \<Rightarrow> u64 option" where
  "domain_iova_to_phys s iova = None"

definition bypass_iova_to_phys :: "dart_bypass_domain \<Rightarrow> u64 \<Rightarrow> u64 option" where
  "bypass_iova_to_phys s iova = Some iova"

section \<open>Probing and the registry\<close>

text \<open>The loop of \<open>probe_fn\<close> over the streams, and what follows it.\<close>

fun quiesce_streams :: "nat list \<Rightarrow> 'z dart_hw_scheme \<Rightarrow> 'z dart_hw_scheme" where
  "quiesce_streams [] s = s"
| "quiesce_streams (sid # sids) s =
     (let ttbr = dregs s (dart_ttbr_offset sid 0)
      in quiesce_streams sids (if ttbr AND DART_TTBR_VALID \<noteq> 0 then s else disable_translation sid s))"

definition probe_streams :: "dart_env \<Rightarrow> dart_params \<Rightarrow> ('z dart_hw_scheme, string, unit) stepper" where
  "probe_streams E D s =
     try_bind (map_error (\<lambda>_. ''apple-dart: timed out invalidating TLBs during probe'') (invalidate_all_tlbs E))
       (\<lambda>_. put_state (write32 DART_ERROR_STATUS 0xffffffff))
       (enable_streams (quiesce_streams [0..<unat (num_streams D)] s))"

text \<open>The registry: \<open>'i\<close> are the instances, kept with the phandle of their node.\<close>

type_synonym 'i dart_registry = "('i \<times> u32) list"

definition register_dart :: "'i \<Rightarrow> u32 \<Rightarrow> 'i dart_registry \<Rightarrow> u32 \<times> 'i dart_registry" where
  "register_dart i phandle reg = (of_nat (length reg), reg @ [(i, phandle)])"

definition get_dart :: "u32 \<Rightarrow> 'i dart_registry \<Rightarrow> 'i option" where
  "get_dart index reg = (if unat index < length reg then Some (fst (reg ! unat index)) else None)"

definition get_dart_by_phandle :: "u32 \<Rightarrow> 'i dart_registry \<Rightarrow> 'i option" where
  "get_dart_by_phandle phandle reg = map_option fst (find (\<lambda>e. snd e = phandle) reg)"

end
