(* ===== verification/DartTable.thy ===== *)
theory DartTable
  imports Dart
begin

text \<open>
  The page tables of a DART as the hardware walks them, in physical memory: the invariant that
  the tables form a tree of aligned, known and disjoint tables, that the operations of
  \<open>DartPageTable\<close> keep it, and that each of them changes the leaf entry of one page only.
  Interfaces: \<open>slot_writer\<close>, the contract under which a loop of page operations is a range
  operation; it is interpreted on \<open>map_page\<close> and on \<open>unmap_page\<close>.
\<close>

section \<open>What the hardware sees\<close>

definition pte_valid :: "u64 \<Rightarrow> bool" where
  "pte_valid pte \<longleftrightarrow> pte AND DART_PTE_VALID \<noteq> 0"

text \<open>The walk of the hardware, from a table in physical memory through a list of indices.\<close>

fun walk :: "(nat \<Rightarrow> u64) \<Rightarrow> nat \<Rightarrow> nat list \<Rightarrow> nat option" where
  "walk m p [] = Some p"
| "walk m p (i # is) =
     (if pte_valid (m (p + i * 8)) then walk m (unat (pte_to_paddr (m (p + i * 8)))) is else None)"

text \<open>
  The indices the walk of an address takes, and the leaf entry a full list of indices names
  (0, which is not valid, where a table is missing).
\<close>

definition path :: "dart_page_table \<Rightarrow> u64 \<Rightarrow> nat list" where
  "path t iova = map (table_index t iova) (rev [1..<table_levels t])"

definition slot :: "dart_page_table \<Rightarrow> u64 \<Rightarrow> nat list" where
  "slot t iova = path t iova @ [leaf_index t iova]"

definition below_count :: "dart_page_table \<Rightarrow> nat list \<Rightarrow> bool" where
  "below_count t is \<longleftrightarrow> (\<forall>i\<in>set is. i < pte_count t)"

definition good_path :: "dart_page_table \<Rightarrow> nat list \<Rightarrow> bool" where
  "good_path t is \<longleftrightarrow> length is < table_levels t \<and> below_count t is"

definition entry :: "'z dart_space_scheme \<Rightarrow> nat list \<Rightarrow> u64" where
  "entry s ks =
     (if length ks = table_levels (ptable s) \<and> below_count (ptable s) ks
      then case walk (cells s) (unat (root_paddr (ptable s))) (butlast ks) of
             None \<Rightarrow> 0 | Some p \<Rightarrow> cells s (p + last ks * 8)
      else 0)"

definition hw_translate :: "'z dart_space_scheme \<Rightarrow> u64 \<Rightarrow> u64 option" where
  "hw_translate s iova =
     (let pte = entry s (slot (ptable s) iova)
      in if pte_valid pte then Some (pte_to_paddr pte OR (iova AND (page_size (ptable s) - 1)))
         else None)"

text \<open>What a device may do at an address that translates.\<close>

definition hw_readable :: "'z dart_space_scheme \<Rightarrow> u64 \<Rightarrow> bool" where
  "hw_readable s iova \<longleftrightarrow> entry s (slot (ptable s) iova) AND DART_PTE_NO_READ = 0"

definition hw_writable :: "'z dart_space_scheme \<Rightarrow> u64 \<Rightarrow> bool" where
  "hw_writable s iova \<longleftrightarrow> entry s (slot (ptable s) iova) AND DART_PTE_NO_WRITE = 0"

text \<open>
  What the driver relies on of the kernel: the pages it gets for a table are aligned to their
  size, below the 36 bits of a physical address, mapped where the kernel says, and never
  handed out twice; what it remaps is mapped.
\<close>

definition at_table :: "dart_env \<Rightarrow> nat \<Rightarrow> nat \<Rightarrow> nat \<Rightarrow> bool" where
  "at_table E sz v p \<longleftrightarrow> (\<forall>x < sz. vtop E (v + x) = p + x)"

definition table_pages :: "dart_env \<Rightarrow> nat \<Rightarrow> nat \<Rightarrow> contiguous_pages option" where
  "table_pages E sz n = new_aligned E n (div_ceil sz (cpu_page_size E)) sz"

definition kernel_ok :: "dart_env \<Rightarrow> nat \<Rightarrow> bool" where
  "kernel_ok E sz \<longleftrightarrow>
     (\<forall>n pages. table_pages E sz n = Some pages \<longrightarrow>
        sz dvd unat (cp_paddr pages) \<and> unat (cp_paddr pages) < 2 ^ 36 \<and>
        at_table E sz (cp_vaddr pages) (unat (cp_paddr pages))) \<and>
     (\<forall>n n' pages pages'. table_pages E sz n = Some pages \<longrightarrow> table_pages E sz n' = Some pages' \<longrightarrow>
        n \<noteq> n' \<longrightarrow> cp_paddr pages \<noteq> cp_paddr pages') \<and>
     (\<forall>paddr v. memremap_normal E paddr sz = Inr v \<longrightarrow> at_table E sz v (unat paddr))"

section \<open>The invariant of a page table\<close>

definition geometry_ok :: "dart_page_table \<Rightarrow> bool" where
  "geometry_ok t \<longleftrightarrow>
     1 \<le> bits_per_level t \<and> pte_count t = 2 ^ bits_per_level t \<and>
     pt_page_shift t = bits_per_level t + 3 \<and> 12 \<le> pt_page_shift t \<and> table_size t = 8 * pte_count t \<and>
     2 \<le> table_levels t \<and> 32 \<le> pt_page_shift t + table_levels t * bits_per_level t \<and>
     pt_page_shift t + table_levels t * bits_per_level t < 64"

text \<open>The tables reachable from the root form a tree: no two lists of indices lead to one table.\<close>

definition tree_ok :: "(nat \<Rightarrow> u64) \<Rightarrow> dart_page_table \<Rightarrow> bool" where
  "tree_ok m t \<longleftrightarrow>
     (\<forall>is js p. good_path t is \<longrightarrow> good_path t js \<longrightarrow> walk m (unat (root_paddr t)) is = Some p \<longrightarrow>
        walk m (unat (root_paddr t)) js = Some p \<longrightarrow> is = js) \<and>
     (\<forall>is p. good_path t is \<longrightarrow> walk m (unat (root_paddr t)) is = Some p \<longrightarrow> table_size t dvd p)"

definition fresh_ok :: "dart_env \<Rightarrow> nat \<Rightarrow> (nat \<Rightarrow> u64) \<Rightarrow> dart_page_table \<Rightarrow> bool" where
  "fresh_ok E n0 m t \<longleftrightarrow>
     (\<forall>n pages. n0 \<le> n \<longrightarrow> table_pages E (table_size t) n = Some pages \<longrightarrow>
        (\<forall>i<pte_count t. m (unat (cp_paddr pages) + i * 8) = 0) \<and>
        (\<forall>is. good_path t is \<longrightarrow> walk m (unat (root_paddr t)) is \<noteq> Some (unat (cp_paddr pages))))"

definition views_ok :: "dart_env \<Rightarrow> dart_page_table \<Rightarrow> bool" where
  "views_ok E t \<longleftrightarrow>
     at_table E (table_size t) (root_vaddr t) (unat (root_paddr t)) \<and>
     (\<forall>p\<in>set (tables t). at_table E (table_size t) (cp_vaddr p) (unat (cp_paddr p))) \<and>
     (\<forall>f\<in>set (firmware_tables t). at_table E (table_size t) (fw_vaddr f) (unat (fw_paddr f)))"

definition space_ok :: "dart_env \<Rightarrow> 'z dart_space_scheme \<Rightarrow> bool" where
  "space_ok E s \<longleftrightarrow>
     kernel_ok E (table_size (ptable s)) \<and> geometry_ok (ptable s) \<and> tree_ok (cells s) (ptable s) \<and>
     fresh_ok E (allocs s) (cells s) (ptable s) \<and> views_ok E (ptable s)"

text \<open>What the bookkeeping lists leave alone.\<close>

definition shape :: "dart_page_table \<Rightarrow> dart_page_table" where
  "shape t = t\<lparr>tables := [], firmware_tables := []\<rparr>"

lemma shape_eqD:
  assumes "shape t' = shape t"
  shows "root_vaddr t' = root_vaddr t" "root_paddr t' = root_paddr t"
    "pt_page_shift t' = pt_page_shift t" "bits_per_level t' = bits_per_level t"
    "table_levels t' = table_levels t" "pte_count t' = pte_count t" "table_size t' = table_size t"
  using assms by (cases t; cases t'; simp add: shape_def)+

lemma shape_cong:
  assumes "shape t' = shape t"
  shows "table_index t' = table_index t" "leaf_index t' = leaf_index t" "page_size t' = page_size t"
    "path t' = path t" "slot t' = slot t" "good_path t' = good_path t" "below_count t' = below_count t"
    "geometry_ok t' = geometry_ok t"
  using shape_eqD [OF assms]
  by (simp_all add: fun_eq_iff table_index_def leaf_index_def page_size_def path_def slot_def
      good_path_def below_count_def geometry_ok_def)

lemma shape_update [simp]:
  "shape (t\<lparr>tables := xs\<rparr>) = shape t" "shape (t\<lparr>firmware_tables := ys\<rparr>) = shape t"
  by (simp_all add: shape_def)

lemma walk_append: "walk m p (xs @ ys) = (case walk m p xs of None \<Rightarrow> None | Some q \<Rightarrow> walk m q ys)"
  by (induction xs arbitrary: p) auto

lemma walk_cong:
  "(\<And>ks i rest q. is = ks @ i # rest \<Longrightarrow> walk m p ks = Some q \<Longrightarrow> m' (q + i * 8) = m (q + i * 8)) \<Longrightarrow>
   walk m' p is = walk m p is"
proof (induction "is" arbitrary: p)
  case (Cons i "is")
  have head: "m' (p + i * 8) = m (p + i * 8)"
    using Cons.prems [of "[]"] by simp
  show ?case
  proof (cases "pte_valid (m (p + i * 8))")
    case True
    have "walk m' (unat (pte_to_paddr (m (p + i * 8)))) is = walk m (unat (pte_to_paddr (m (p + i * 8)))) is"
    proof (rule Cons.IH)
      fix ks j rest q
      assume "is = ks @ j # rest" and "walk m (unat (pte_to_paddr (m (p + i * 8)))) ks = Some q"
      with True show "m' (q + j * 8) = m (q + j * 8)"
        using Cons.prems [of "i # ks" j rest q] by simp
    qed
    with head True show ?thesis by simp
  qed (simp add: head)
qed simp

lemma cell_inject:
  fixes p q i j sz :: nat
  assumes "sz dvd p" "sz dvd q" "i * 8 < sz" "j * 8 < sz" "p + i * 8 = q + j * 8"
  shows "p = q" "i = j"
proof -
  have "i * 8 = (p + i * 8) mod sz" "j * 8 = (q + j * 8) mod sz"
    using assms(1-4) by (auto elim!: dvdE)
  with assms(5) show "i = j" by simp
  with assms(5) show "p = q" by simp
qed

lemma good_path_append: "good_path t (xs @ ys) \<Longrightarrow> good_path t xs"
  by (auto simp: good_path_def below_count_def)

lemma good_pathD: "good_path t (xs @ i # ys) \<Longrightarrow> i < pte_count t"
  by (auto simp: good_path_def below_count_def)

text \<open>A write to an entry of a reached table changes only the walks that go through the entry.\<close>

lemma walk_write_other:
  assumes t: "tree_ok m t" "geometry_ok t" and K: "good_path t K" "walk m (unat (root_paddr t)) K = Some P"
    and j: "j < pte_count t" and "is": "good_path t is" and free: "\<And>rest. is \<noteq> K @ j # rest"
  shows "walk (m(P + j * 8 := v)) (unat (root_paddr t)) is = walk m (unat (root_paddr t)) is"
proof (rule walk_cong)
  fix ks i rest q
  assume split: "is = ks @ i # rest" and q: "walk m (unat (root_paddr t)) ks = Some q"
  have ks: "good_path t ks" and i: "i < pte_count t"
    using "is" by (auto simp: split dest: good_path_append good_pathD)
  have "q + i * 8 \<noteq> P + j * 8"
  proof
    assume eq: "q + i * 8 = P + j * 8"
    have dv: "table_size t dvd q" "table_size t dvd P"
      using t(1) ks q K by (auto simp: tree_ok_def)
    have "i * 8 < table_size t" "j * 8 < table_size t"
      using i j t(2) by (auto simp: geometry_ok_def)
    then have "q = P" "i = j"
      using cell_inject [OF dv _ _ eq] by auto
    with t(1) ks q K have "ks = K"
      by (auto simp: tree_ok_def)
    with split \<open>i = j\<close> free show False
      by auto
  qed
  then show "(m(P + j * 8 := v)) (q + i * 8) = m (q + i * 8)"
    by simp
qed

lemma entry_snoc:
  "length xs + 1 = table_levels (ptable s) \<Longrightarrow> below_count (ptable s) (xs @ [i]) \<Longrightarrow>
   entry s (xs @ [i]) = (case walk (cells s) (unat (root_paddr (ptable s))) xs of
      None \<Rightarrow> 0 | Some p \<Rightarrow> cells s (p + i * 8))"
  by (simp add: entry_def cong: option.case_cong)

text \<open>A leaf entry is written: the walks stay and one entry changes.\<close>

lemma leaf_write:
  assumes ok: "space_ok E s" and K: "good_path (ptable s) K" "length K + 1 = table_levels (ptable s)"
    and P: "walk (cells s) (unat (root_paddr (ptable s))) K = Some P" and j: "j < pte_count (ptable s)"
    and s': "s' = s\<lparr>cells := (cells s)(P + j * 8 := v)\<rparr>"
  shows "space_ok E s'" "entry s' = (entry s)(K @ [j] := v)"
    "good_path (ptable s) is \<Longrightarrow> walk (cells s') (unat (root_paddr (ptable s))) is =
       walk (cells s) (unat (root_paddr (ptable s))) is"
proof -
  let ?t = "ptable s" let ?m = "cells s" let ?root = "unat (root_paddr ?t)"
  have g: "geometry_ok ?t" and t: "tree_ok ?m ?t" and f: "fresh_ok E (allocs s) ?m ?t"
    using ok by (simp_all add: space_ok_def)
  have "is": "walk (?m(P + j * 8 := v)) ?root is = walk ?m ?root is" if "good_path ?t is" for "is"
    using K(2) that by (intro walk_write_other [OF t g K(1) P j]) (auto simp: good_path_def)
  have dvd: "table_size ?t dvd P"
    using t K(1) P by (auto simp: tree_ok_def)
  have small: "i * 8 < table_size ?t" if "i < pte_count ?t" for i
    using that g by (auto simp: geometry_ok_def)
  have zero: "(?m(P + j * 8 := v)) (unat (cp_paddr pages) + i * 8) = 0"
    if n: "allocs s \<le> n" "table_pages E (table_size ?t) n = Some pages" and i: "i < pte_count ?t" for n pages i
  proof -
    have "?m (unat (cp_paddr pages) + i * 8) = 0" and ne: "unat (cp_paddr pages) \<noteq> P"
      using f n i K(1) P by (auto simp: fresh_ok_def)
    moreover have "table_size ?t dvd unat (cp_paddr pages)"
      using ok n(2) by (auto simp: space_ok_def kernel_ok_def)
    then have "unat (cp_paddr pages) + i * 8 \<noteq> P + j * 8"
      using cell_inject(1) [OF _ dvd small [OF i] small [OF j]] ne by blast
    ultimately show ?thesis by simp
  qed
  have t': "ptable s' = ?t" "allocs s' = allocs s" "cells s' = ?m(P + j * 8 := v)"
    by (simp_all add: s')
  show "good_path ?t is \<Longrightarrow> walk (cells s') ?root is = walk ?m ?root is" for "is"
    using "is" by (simp add: t')
  show "space_ok E s'"
    unfolding space_ok_def t'
  proof (intro conjI)
    show "tree_ok (?m(P + j * 8 := v)) ?t"
      using t unfolding tree_ok_def by (metis "is")
    show "fresh_ok E (allocs s) (?m(P + j * 8 := v)) ?t"
      unfolding fresh_ok_def
    proof (intro allI impI conjI)
      fix n pages i
      assume "allocs s \<le> n" "table_pages E (table_size ?t) n = Some pages" "i < pte_count ?t"
      then show "(?m(P + j * 8 := v)) (unat (cp_paddr pages) + i * 8) = 0"
        by (rule zero)
    next
      fix n pages ks
      assume "allocs s \<le> n" "table_pages E (table_size ?t) n = Some pages" and ks: "good_path ?t ks"
      then show "walk (?m(P + j * 8 := v)) ?root ks \<noteq> Some (unat (cp_paddr pages))"
        using f by (simp add: "is" fresh_ok_def del: fun_upd_apply)
    qed
  qed (use ok in \<open>simp_all add: space_ok_def\<close>)
  show "entry s' = (entry s)(K @ [j] := v)"
  proof
    fix ks
    show "entry s' ks = ((entry s)(K @ [j] := v)) ks"
    proof (cases "length ks = table_levels ?t \<and> below_count ?t ks")
      case False
      moreover from this have "ks \<noteq> K @ [j]"
        using K j by (auto simp: good_path_def below_count_def)
      ultimately show ?thesis
        by (auto simp: entry_def t')
    next
      case True
      then obtain xs i where ks: "ks = xs @ [i]"
        using g by (cases ks rule: rev_cases) (auto simp: geometry_ok_def)
      have xs: "good_path ?t xs" and i: "i < pte_count ?t"
        using True by (auto simp: ks good_path_def below_count_def)
      show ?thesis
      proof (cases "walk ?m ?root xs")
        case None
        with P have "xs \<noteq> K" by auto
        with None True show ?thesis
          by (simp add: entry_def t' "is" [OF xs] ks del: fun_upd_apply) (simp add: entry_def)
      next
        case (Some q)
        have q: "table_size ?t dvd q"
          using t xs Some by (auto simp: tree_ok_def)
        have "q + i * 8 = P + j * 8 \<longleftrightarrow> xs = K \<and> i = j"
        proof
          assume "q + i * 8 = P + j * 8"
          then have "q = P" "i = j"
            using cell_inject [OF q dvd small [OF i] small [OF j]] by auto
          with t xs Some K(1) P show "xs = K \<and> i = j"
            by (auto simp: tree_ok_def)
        qed (use Some P in auto)
        with True Some show ?thesis
          by (simp add: entry_def t' "is" [OF xs] ks del: fun_upd_apply) (simp add: entry_def)
      qed
    qed
  qed
qed

text \<open>A missing table is linked: one walk appears, and no leaf entry changes.\<close>

lemma pte_of_pages:
  assumes "unat (cp_paddr pages) < 2 ^ 36" "4096 dvd unat (cp_paddr pages)"
  shows "pte_valid (paddr_to_pte (cp_paddr pages) OR DART_PTE_VALID)"
    "pte_to_paddr (paddr_to_pte (cp_paddr pages) OR DART_PTE_VALID) = cp_paddr pages"
proof -
  let ?p = "cp_paddr pages"
  have mask: "DART_PADDR_MASK = mask 36 AND NOT (mask 12)"
    by (simp add: DART_PADDR_MASK_def mask_eq_exp_minus_1)
  have hi: "i < 36" if "bit ?p i" for i
    using small_word_bits [OF _ that, of 36] assms(1) by (simp add: word_less_nat_alt)
  have lo: "\<not> bit ?p i" if "i < 12" for i
  proof -
    have "take_bit 12 (unat ?p) = 0"
      using assms(2) by (simp add: take_bit_eq_mod)
    then have "\<not> bit (take_bit 12 (unat ?p)) i" by simp
    with that show ?thesis by (simp add: bit_take_bit_iff bit_unsigned_iff)
  qed
  show "pte_valid (paddr_to_pte ?p OR DART_PTE_VALID)"
    by (simp add: pte_valid_def DART_PTE_VALID_def and_one_neq_zero bit_simps)
  show "pte_to_paddr (paddr_to_pte ?p OR DART_PTE_VALID) = ?p"
    unfolding pte_to_paddr_def paddr_to_pte_def DART_PTE_VALID_def mask
    by (rule bit_word_eqI) (use hi lo in \<open>auto simp: bit_simps not_less [symmetric]\<close>)
qed

lemma page_dvd_table: "geometry_ok t \<Longrightarrow> 4096 dvd table_size t"
proof -
  assume g: "geometry_ok t"
  then have "table_size t = 2 ^ pt_page_shift t"
    by (simp add: geometry_ok_def power_add)
  moreover have "(2 :: nat) ^ 12 dvd 2 ^ pt_page_shift t"
    using g by (intro le_imp_power_dvd) (simp add: geometry_ok_def)
  ultimately show ?thesis
    by simp
qed

lemma table_link:
  assumes ok: "space_ok E s" and K: "good_path (ptable s) (K @ [j])"
    and P: "walk (cells s) (unat (root_paddr (ptable s))) K = Some P"
    and absent: "\<not> pte_valid (cells s (P + j * 8))"
    and pages: "table_pages E (table_size (ptable s)) (allocs s) = Some pages"
    and s': "s' = s\<lparr>allocs := allocs s + 1, ptable := (ptable s)\<lparr>tables := tables (ptable s) @ [pages]\<rparr>,
      cells := (cells s)(P + j * 8 := paddr_to_pte (cp_paddr pages) OR DART_PTE_VALID)\<rparr>"
  shows "space_ok E s'" "entry s' = entry s"
    "good_path (ptable s) is \<Longrightarrow> walk (cells s') (unat (root_paddr (ptable s))) is =
       (if is = K @ [j] then Some (unat (cp_paddr pages))
        else walk (cells s) (unat (root_paddr (ptable s))) is)"
proof -
  let ?t = "ptable s" let ?m = "cells s" let ?root = "unat (root_paddr ?t)"
  let ?Q = "unat (cp_paddr pages)" let ?v = "paddr_to_pte (cp_paddr pages) OR DART_PTE_VALID"
  let ?m' = "?m(P + j * 8 := ?v)"
  have g: "geometry_ok ?t" and t: "tree_ok ?m ?t" and f: "fresh_ok E (allocs s) ?m ?t"
    and k: "kernel_ok E (table_size ?t)"
    using ok by (simp_all add: space_ok_def)
  have Kg: "good_path ?t K" and j: "j < pte_count ?t"
    using K by (auto dest: good_path_append good_pathD)
  have Q: "table_size ?t dvd ?Q" "?Q < 2 ^ 36"
    and Qz: "\<And>i. i < pte_count ?t \<Longrightarrow> ?m (?Q + i * 8) = 0"
    and Qf: "\<And>is. good_path ?t is \<Longrightarrow> walk ?m ?root is \<noteq> Some ?Q"
    using k f pages by (auto simp: kernel_ok_def fresh_ok_def)
  have v: "pte_valid ?v" "pte_to_paddr ?v = cp_paddr pages"
    using pte_of_pages [OF Q(2)] page_dvd_table [OF g] Q(1) by auto
  have dvd: "table_size ?t dvd P"
    using t Kg P by (auto simp: tree_ok_def)
  have small: "i * 8 < table_size ?t" if "i < pte_count ?t" for i
    using that g by (auto simp: geometry_ok_def)
  have QP: "?Q + i * 8 \<noteq> P + j * 8" if "i < pte_count ?t" for i
    using cell_inject(1) [OF Q(1) dvd small [OF that] small [OF j]] Qf [OF Kg] P by auto
  have P': "walk ?m' ?root K = Some P"
    using walk_write_other [OF t g Kg P j Kg] P by simp
  have "is": "walk ?m' ?root is = (if is = K @ [j] then Some ?Q else walk ?m ?root is)"
    if good: "good_path ?t is" for "is"
  proof (cases "\<exists>rest. is = K @ j # rest")
    case False
    then show ?thesis
      using walk_write_other [OF t g Kg P j good] by auto
  next
    case True
    then obtain rest where rest: "is = K @ j # rest" by auto
    show ?thesis
    proof (cases rest)
      case Nil
      then show ?thesis
        using P' v by (simp add: rest walk_append)
    next
      case (Cons r rs)
      have r: "r < pte_count ?t"
        using good by (auto simp: rest Cons good_path_def below_count_def)
      then have "?m' (?Q + r * 8) = 0"
        using QP [OF r] Qz [OF r] by simp
      then have "walk ?m' ?root is = None"
        using P' v by (simp add: rest Cons walk_append pte_valid_def)
      moreover have "walk ?m ?root is = None"
        using P absent by (simp add: rest Cons walk_append)
      ultimately show ?thesis
        by (simp add: rest Cons)
    qed
  qed
  show "good_path ?t is \<Longrightarrow> walk (cells s') ?root is =
       (if is = K @ [j] then Some ?Q else walk ?m ?root is)" for "is"
    using "is" by (simp add: s')
  have sh: "shape (ptable s') = shape ?t" and c': "cells s' = ?m'" "allocs s' = allocs s + 1"
    by (simp_all add: s')
  note sh' = shape_eqD [OF sh] shape_cong [OF sh]
  show "space_ok E s'"
    unfolding space_ok_def sh' c'
  proof (intro conjI)
    show "tree_ok ?m' (ptable s')"
      unfolding tree_ok_def sh'
    proof (intro conjI allI impI)
      fix xs ys p
      assume "good_path ?t xs" "good_path ?t ys" "walk ?m' ?root xs = Some p" "walk ?m' ?root ys = Some p"
      then show "xs = ys"
        using t Qf "is" by (auto simp: tree_ok_def split: if_splits simp del: fun_upd_apply)
    next
      fix xs p
      assume "good_path ?t xs" "walk ?m' ?root xs = Some p"
      then show "table_size ?t dvd p"
        using t Q(1) "is" by (auto simp: tree_ok_def split: if_splits simp del: fun_upd_apply)
    qed
    show "fresh_ok E (allocs s + 1) ?m' (ptable s')"
      unfolding fresh_ok_def sh'
    proof (intro allI impI)
      fix n pages'
      assume n: "allocs s + 1 \<le> n" and n': "table_pages E (table_size ?t) n = Some pages'"
      have n_ne: "n \<noteq> allocs s"
        using n by simp
      have "cp_paddr pages' \<noteq> cp_paddr pages"
        using k pages n' n_ne
        unfolding kernel_ok_def by blast
      then have ne: "unat (cp_paddr pages') \<noteq> ?Q"
        by (simp add: word_unat_eq_iff)
      have Q': "table_size ?t dvd unat (cp_paddr pages')"
        using k n' by (auto simp: kernel_ok_def)
      have old: "\<And>i. i < pte_count ?t \<Longrightarrow> ?m (unat (cp_paddr pages') + i * 8) = 0"
        "\<And>is. good_path ?t is \<Longrightarrow> walk ?m ?root is \<noteq> Some (unat (cp_paddr pages'))"
        using f n' Suc_leD [OF n [unfolded Suc_eq_plus1 [symmetric]]]
        unfolding fresh_ok_def by blast+
      have "unat (cp_paddr pages') + i * 8 \<noteq> P + j * 8" if "i < pte_count ?t" for i
        using cell_inject(1) [OF Q' dvd small [OF that] small [OF j]] old(2) [OF Kg] P by auto
      with old ne show "(\<forall>i<pte_count ?t. ?m' (unat (cp_paddr pages') + i * 8) = 0) \<and>
          (\<forall>is. good_path ?t is \<longrightarrow> walk ?m' ?root is \<noteq> Some (unat (cp_paddr pages')))"
        by (simp add: "is" del: fun_upd_apply) simp
    qed
    show "views_ok E (ptable s')"
      using ok k pages by (auto simp: s' space_ok_def views_ok_def kernel_ok_def)
  qed (use ok k in \<open>simp_all add: space_ok_def\<close>)
  show "entry s' = entry s"
  proof
    fix ks
    show "entry s' ks = entry s ks"
    proof (cases "length ks = table_levels ?t \<and> below_count ?t ks")
      case True
      then obtain xs i where ks: "ks = xs @ [i]"
        using g by (cases ks rule: rev_cases) (auto simp: geometry_ok_def)
      have xs: "good_path ?t xs" and i: "i < pte_count ?t"
        using True by (auto simp: ks good_path_def below_count_def)
      have e: "entry s ks = (case walk ?m ?root xs of None \<Rightarrow> 0 | Some p \<Rightarrow> ?m (p + i * 8))"
        "entry s' ks = (case walk ?m' ?root xs of None \<Rightarrow> 0 | Some p \<Rightarrow> ?m' (p + i * 8))"
        using True entry_snoc [of xs s i] entry_snoc [of xs s' i] by (auto simp: ks sh' c' simp del: fun_upd_apply cong: option.case_cong)
      show ?thesis
      proof (cases "xs = K @ [j]")
        case True
        moreover have "walk ?m ?root xs = None"
          using P absent True by (simp add: walk_append)
        moreover have "walk ?m' ?root xs = Some ?Q"
          using "is" [OF xs] True by simp
        ultimately show ?thesis
          using QP [OF i] Qz [OF i] by (simp add: e del: fun_upd_apply) simp
      next
        case False
        have "K \<noteq> xs"
          using \<open>length ks = table_levels ?t \<and> _\<close> K by (auto simp: ks good_path_def)
        then have "q + i * 8 \<noteq> P + j * 8" if "walk ?m ?root xs = Some q" for q
          using cell_inject(1) [OF _ dvd small [OF i] small [OF j], of q] t that Kg xs P
          unfolding tree_ok_def by metis
        with False show ?thesis
          using "is" [OF xs] by (auto simp: e split: option.splits)
      qed
    qed (auto simp: entry_def sh' c')
  qed
qed

section \<open>Indices\<close>

lemma mask_index:
  assumes "b < 64"
  shows "unat (drop_bit n (w :: u64) AND of_nat (2 ^ b - 1)) = (unat w div 2 ^ n) mod 2 ^ b"
proof -
  have "(of_nat (2 ^ b - 1) :: u64) = mask b"
    by (simp add: mask_eq_exp_minus_1 of_nat_diff)
  then have "drop_bit n w AND of_nat (2 ^ b - 1) = take_bit b (drop_bit n w)"
    by (simp add: take_bit_eq_mask)
  then show ?thesis
    by (simp only: unsigned_take_bit_eq unat_drop_bit_eq) (simp only: take_bit_eq_mod drop_bit_eq_div)
qed

lemma geometry_bits: "geometry_ok t \<Longrightarrow> bits_per_level t < 64"
  by (simp add: geometry_ok_def)

lemma table_index_eq:
  "geometry_ok t \<Longrightarrow> table_index t iova level =
     (unat iova div 2 ^ (pt_page_shift t + level * bits_per_level t)) mod 2 ^ bits_per_level t"
  using mask_index [OF geometry_bits] by (simp add: table_index_def geometry_ok_def)

lemma leaf_index_eq:
  "geometry_ok t \<Longrightarrow> leaf_index t iova = (unat iova div 2 ^ pt_page_shift t) mod 2 ^ bits_per_level t"
  using mask_index [OF geometry_bits] by (simp add: leaf_index_def geometry_ok_def)

lemma index_bounds:
  assumes "geometry_ok t"
  shows "table_index t iova level < pte_count t" "leaf_index t iova < pte_count t"
  using assms by (simp_all add: table_index_eq leaf_index_eq) (simp_all add: geometry_ok_def)

section \<open>The operations keep the invariant\<close>

lemma read_pte_at:
  "at_table E sz v p \<Longrightarrow> i * 8 < sz \<Longrightarrow> read_pte E v i s = cells s (p + i * 8)"
  by (simp add: read_pte_def at_table_def)

lemma write_pte_at:
  "at_table E sz v p \<Longrightarrow> i * 8 < sz \<Longrightarrow> write_pte E v i x s = s\<lparr>cells := (cells s)(p + i * 8 := x)\<rparr>"
  by (simp add: write_pte_def at_table_def)

lemma entry_small: "geometry_ok t \<Longrightarrow> i < pte_count t \<Longrightarrow> i * 8 < table_size t"
  by (simp add: geometry_ok_def)

lemma entry_cong:
  "cells s' = cells s \<Longrightarrow> shape (ptable s') = shape (ptable s) \<Longrightarrow> entry s' = entry s"
  by (rule ext) (simp add: entry_def shape_eqD [of "ptable s'" "ptable s"]
      shape_cong [of "ptable s'" "ptable s"] cong: option.case_cong)

lemma space_ok_cong:
  assumes "space_ok E s" and "cells s' = cells s" and "allocs s' = allocs s"
    and sh: "shape (ptable s') = shape (ptable s)" and "views_ok E (ptable s')"
  shows "space_ok E s'"
  using assms unfolding space_ok_def tree_ok_def fresh_ok_def shape_cong [OF sh] shape_eqD [OF sh] by simp

lemma fresh_ok_mono: "fresh_ok E n m t \<Longrightarrow> n \<le> n' \<Longrightarrow> fresh_ok E n' m t"
  unfolding fresh_ok_def by (meson le_trans)

lemma mapped_table_view:
  assumes "views_ok E t" and "mapped_table_vaddr t p = Some v"
  shows "at_table E (table_size t) v (unat p)"
  using assms
  by (auto simp: mapped_table_vaddr_def views_ok_def split: if_splits option.splits dest!: find_Some_mem)

text \<open>Every table the hardware can reach is one the driver has in its lists.\<close>

definition tables_known :: "'z dart_space_scheme \<Rightarrow> bool" where
  "tables_known s \<longleftrightarrow>
     (\<forall>is p. good_path (ptable s) is \<longrightarrow> walk (cells s) (unat (root_paddr (ptable s))) is = Some p \<longrightarrow>
        mapped_table_vaddr (ptable s) (of_nat p) \<noteq> None)"

lemma mapped_table_iff:
  "mapped_table_vaddr t p \<noteq> None \<longleftrightarrow>
     p = root_paddr t \<or> p \<in> cp_paddr ` set (tables t) \<or> p \<in> fw_paddr ` set (firmware_tables t)"
proof -
  have found: "find P xs \<noteq> None \<longleftrightarrow> (\<exists>x\<in>set xs. P x)" for P :: "'x \<Rightarrow> bool" and xs
    using find_None_iff [of P xs] by auto
  have "mapped_table_vaddr t p \<noteq> None \<longleftrightarrow> p = root_paddr t \<or>
      find (\<lambda>q. cp_paddr q = p) (tables t) \<noteq> None \<or> find (\<lambda>f. fw_paddr f = p) (firmware_tables t) \<noteq> None"
    by (auto simp: mapped_table_vaddr_def split: option.splits)
  then show ?thesis
    unfolding found by auto
qed

lemma mapped_table_grows:
  assumes "root_paddr t' = root_paddr t" and "set (tables t) \<subseteq> set (tables t')"
    and "set (firmware_tables t) \<subseteq> set (firmware_tables t')" and "mapped_table_vaddr t p \<noteq> None"
  shows "mapped_table_vaddr t' p \<noteq> None"
  using assms unfolding mapped_table_iff by auto

lemma tables_known_cong:
  assumes "tables_known s" and sh: "shape (ptable s') = shape (ptable s)"
    and "\<And>is. good_path (ptable s) is \<Longrightarrow> walk (cells s') (unat (root_paddr (ptable s))) is =
      walk (cells s) (unat (root_paddr (ptable s))) is"
    and "set (tables (ptable s)) \<subseteq> set (tables (ptable s'))"
    and "set (firmware_tables (ptable s)) \<subseteq> set (firmware_tables (ptable s'))"
  shows "tables_known s'"
  using assms(1,3) mapped_table_grows [OF shape_eqD(2) [OF sh] assms(4,5)]
  unfolding tables_known_def shape_eqD [OF sh] shape_cong [OF sh] by simp

definition keeps_pages :: "'z dart_space_scheme \<Rightarrow> 'z dart_space_scheme \<Rightarrow> bool" where
  "keeps_pages s s' \<longleftrightarrow>
     shape (ptable s') = shape (ptable s) \<and> entry s' = entry s \<and> (tables_known s \<longrightarrow> tables_known s')"

lemma keeps_pages_trans: "keeps_pages s t \<Longrightarrow> keeps_pages t u \<Longrightarrow> keeps_pages s u"
  by (simp add: keeps_pages_def)

lemma map_firmware_table_ok:
  assumes ok: "space_ok E s" and run: "map_firmware_table E p s = (r, s')"
  shows "space_ok E s'" "shape (ptable s') = shape (ptable s)" "cells s' = cells s"
    "r = Inr (v, b) \<Longrightarrow> at_table E (table_size (ptable s)) v (unat p)"
    "set (tables (ptable s)) \<subseteq> set (tables (ptable s'))"
    "set (firmware_tables (ptable s)) \<subseteq> set (firmware_tables (ptable s'))"
proof -
  have views: "views_ok E (ptable s)" and k: "kernel_ok E (table_size (ptable s))"
    using ok by (simp_all add: space_ok_def)
  have "space_ok E s' \<and> shape (ptable s') = shape (ptable s) \<and> cells s' = cells s \<and>
      (\<forall>v b. r = Inr (v, b) \<longrightarrow> at_table E (table_size (ptable s)) v (unat p)) \<and>
      set (tables (ptable s)) \<subseteq> set (tables (ptable s')) \<and>
      set (firmware_tables (ptable s)) \<subseteq> set (firmware_tables (ptable s'))"
  proof (cases "mapped_table_vaddr (ptable s) p")
    case (Some v)
    then show ?thesis
      using run ok mapped_table_view [OF views Some] by (auto simp: map_firmware_table_def)
  next
    case None
    show ?thesis
    proof (cases "memremap_normal E p (table_size (ptable s))")
      case (Inl e)
      with None run ok show ?thesis
        by (auto simp: map_firmware_table_def)
    next
      case (Inr v)
      let ?t' = "(ptable s)\<lparr>firmware_tables := firmware_tables (ptable s) @ [\<lparr>fw_paddr = p, fw_vaddr = v\<rparr>]\<rparr>"
      have s': "s' = s\<lparr>ptable := ?t'\<rparr>" and r: "r = Inr (v, True)"
        using None Inr run by (simp_all add: map_firmware_table_def)
      have at: "at_table E (table_size (ptable s)) v (unat p)"
        using k Inr by (simp add: kernel_ok_def)
      then have "views_ok E ?t'"
        using views by (auto simp: views_ok_def)
      then have "space_ok E s'"
        using space_ok_cong [OF ok, of s'] by (simp add: s')
      with at r show ?thesis
        by (auto simp: s')
    qed
  qed
  then show "space_ok E s'" "shape (ptable s') = shape (ptable s)" "cells s' = cells s"
    "r = Inr (v, b) \<Longrightarrow> at_table E (table_size (ptable s)) v (unat p)"
    "set (tables (ptable s)) \<subseteq> set (tables (ptable s'))"
    "set (firmware_tables (ptable s)) \<subseteq> set (firmware_tables (ptable s'))"
    by blast+
qed

lemma map_firmware_table_keeps:
  assumes "space_ok E s" and "map_firmware_table E p s = (r, s')"
  shows "keeps_pages s s'"
proof -
  note m = map_firmware_table_ok [OF assms]
  have "tables_known s \<Longrightarrow> tables_known s'"
    by (rule tables_known_cong [OF _ m(2) _ m(5,6)]) (simp_all add: m(3))
  then show ?thesis
    using entry_cong [OF m(3,2)] m(2) by (simp add: keeps_pages_def)
qed

text \<open>A step of a walk: the table reached so far, and the one below it.\<close>

definition reached :: "dart_env \<Rightarrow> 'z dart_space_scheme \<Rightarrow> nat list \<Rightarrow> nat \<Rightarrow> bool" where
  "reached E s K v \<longleftrightarrow>
     (\<exists>P. walk (cells s) (unat (root_paddr (ptable s))) K = Some P \<and> at_table E (table_size (ptable s)) v P)"

lemma map_level_ok:
  assumes ok: "space_ok E s" and K: "good_path (ptable s) (K @ [table_index (ptable s) iova level])"
    and v: "reached E s K v" and run: "map_level E iova level v s = (r, s')"
  shows "space_ok E s'" "keeps_pages s s'"
    "r = Inr v' \<Longrightarrow> reached E s' (K @ [table_index (ptable s) iova level]) v'"
proof -
  let ?t = "ptable s" let ?j = "table_index ?t iova level"
  have g: "geometry_ok ?t" and k: "kernel_ok E (table_size ?t)"
    using ok by (simp_all add: space_ok_def)
  obtain P where P: "walk (cells s) (unat (root_paddr ?t)) K = Some P" and at: "at_table E (table_size ?t) v P"
    using v by (auto simp: reached_def)
  have small: "?j * 8 < table_size ?t"
    using entry_small [OF g index_bounds(1) [OF g]] .
  have pte: "read_pte E v ?j s = cells s (P + ?j * 8)"
    by (rule read_pte_at [OF at small])
  have "space_ok E s' \<and> keeps_pages s s' \<and> (\<forall>v'. r = Inr v' \<longrightarrow> reached E s' (K @ [?j]) v')"
  proof (cases "pte_valid (cells s (P + ?j * 8))")
    case True
    obtain q u where m: "map_firmware_table E (pte_to_paddr (cells s (P + ?j * 8))) s = (q, u)"
      by fastforce
    note mok = map_firmware_table_ok [OF ok m]
    have "s' = u" and r: "r = map_sum (\<lambda>x. x) fst q"
      using run True m by (auto simp: map_level_def pte pte_valid_def try_bind_def split: sum.splits)
    have "walk (cells u) (unat (root_paddr (ptable u))) (K @ [?j]) =
        Some (unat (pte_to_paddr (cells s (P + ?j * 8))))"
      using P True by (simp add: mok(3) walk_append shape_eqD(2) [OF mok(2)])
    then have "reached E u (K @ [?j]) v'" if "q = Inr (v', b)" for v' b
      using mok(4) that by (auto simp: reached_def shape_eqD(7) [OF mok(2)])
    then show ?thesis
      using mok(1) map_firmware_table_keeps [OF ok m] by (cases q) (auto simp: \<open>s' = u\<close> r)
  next
    case False
    show ?thesis
    proof (cases "table_pages E (table_size ?t) (allocs s)")
      case None
      have s': "s' = s\<lparr>allocs := allocs s + 1\<rparr>" and r: "\<exists>e. r = Inl e"
        using run False None
        by (auto simp: map_level_def pte pte_valid_def try_bind_def allocate_table_def table_pages_def)
      have "space_ok E s'"
        using ok fresh_ok_mono [of E "allocs s" _ _ "allocs s + 1"] by (simp add: s' space_ok_def)
      then show ?thesis
        using r entry_cong [of s' s] by (auto simp: s' keeps_pages_def tables_known_def)
    next
      case (Some pages)
      have s': "s' = s\<lparr>allocs := allocs s + 1, ptable := ?t\<lparr>tables := tables ?t @ [pages]\<rparr>,
          cells := (cells s)(P + ?j * 8 := paddr_to_pte (cp_paddr pages) OR DART_PTE_VALID)\<rparr>"
        and r: "r = Inr (cp_vaddr pages)"
        using run False Some
        by (auto simp: write_pte_at [OF at small] map_level_def pte pte_valid_def try_bind_def allocate_table_def table_pages_def)
      note link = table_link [OF ok K P False Some s']
      have "reached E s' (K @ [?j]) (cp_vaddr pages)"
        using link(3) [OF K] k Some by (simp add: reached_def kernel_ok_def s')
      moreover have "tables_known s'" if "tables_known s"
      proof -
        have "mapped_table_vaddr (ptable s') (of_nat p) \<noteq> None"
          if "is": "good_path ?t is" "walk (cells s') (unat (root_paddr ?t)) is = Some p" for "is" p
        proof (cases "is = K @ [?j]")
          case True
          then have "of_nat p = cp_paddr pages"
            using "is" link(3) by auto
          then show ?thesis
            by (auto simp: s' mapped_table_vaddr_def find_None_iff split: option.splits)
        next
          case False
          then have "mapped_table_vaddr ?t (of_nat p) \<noteq> None"
            using \<open>tables_known s\<close> "is" link(3) by (auto simp: tables_known_def)
          then show ?thesis
            by (rule mapped_table_grows [rotated 3]) (auto simp: s')
        qed
        moreover have "shape (ptable s') = shape ?t"
          by (simp add: s')
        ultimately show ?thesis
          unfolding tables_known_def by (simp add: shape_cong(6) [of "ptable s'" ?t] shape_eqD(2) [of "ptable s'" ?t])
      qed
      ultimately show ?thesis
        using link(1,2) r by (auto simp: keeps_pages_def s')
    qed
  qed
  then show "space_ok E s'" "keeps_pages s s'" "r = Inr v' \<Longrightarrow> reached E s' (K @ [?j]) v'"
    by simp_all
qed

lemma map_walk_ok:
  assumes "space_ok E s" and "good_path (ptable s) (K @ map (table_index (ptable s) iova) ls)"
    and "reached E s K v" and "map_walk E iova ls v s = (r, s')"
  shows "space_ok E s' \<and> keeps_pages s s' \<and>
    (\<forall>v'. r = Inr v' \<longrightarrow> reached E s' (K @ map (table_index (ptable s) iova) ls) v')"
  using assms
proof (induction ls arbitrary: K v s)
  case (Cons level ls)
  let ?K = "K @ [table_index (ptable s) iova level]"
  obtain q u where step: "map_level E iova level v s = (q, u)"
    by fastforce
  have K: "good_path (ptable s) ?K"
    using Cons.prems(2) good_path_append [of _ ?K] by simp
  note u = map_level_ok [OF Cons.prems(1) K Cons.prems(3) step]
  have sh: "shape (ptable u) = shape (ptable s)"
    using u(2) by (simp add: keeps_pages_def)
  show ?case
  proof (cases q)
    case (Inl e)
    then show ?thesis
      using u(1,2) step Cons.prems(4) by (auto simp: try_bind_def)
  next
    case (Inr v')
    have "space_ok E s' \<and> keeps_pages u s' \<and>
        (\<forall>v'. r = Inr v' \<longrightarrow> reached E s' (?K @ map (table_index (ptable u) iova) ls) v')"
      using Cons.IH [of u ?K v'] u Inr step Cons.prems(2,4) by (simp add: try_bind_def shape_cong [OF sh])
    then show ?thesis
      using keeps_pages_trans [OF u(2)] by (simp add: shape_cong [OF sh])
  qed
qed (auto simp: keeps_pages_def)

lemma root_reached: "space_ok E s \<Longrightarrow> reached E s [] (root_vaddr (ptable s))"
  by (simp add: reached_def space_ok_def views_ok_def)

lemma path_good:
  assumes "geometry_ok t"
  shows "good_path t (path t iova)" "length (path t iova) + 1 = table_levels t"
  using assms index_bounds(1) [OF assms]
  by (auto simp: good_path_def path_def below_count_def) (auto simp: geometry_ok_def)

lemma leaf_write_reached:
  assumes ok: "space_ok E s" and v: "reached E s (path (ptable s) iova) v"
  shows "space_ok E (write_pte E v (leaf_index (ptable s) iova) x s)"
    "entry (write_pte E v (leaf_index (ptable s) iova) x s) = (entry s)(slot (ptable s) iova := x)"
    "tables_known s \<Longrightarrow> tables_known (write_pte E v (leaf_index (ptable s) iova) x s)"
proof -
  have g: "geometry_ok (ptable s)"
    using ok by (simp add: space_ok_def)
  note j = index_bounds(2) [OF g, of iova]
  obtain P where P: "walk (cells s) (unat (root_paddr (ptable s))) (path (ptable s) iova) = Some P"
    and at: "at_table E (table_size (ptable s)) v P"
    using v by (auto simp: reached_def)
  have w: "write_pte E v (leaf_index (ptable s) iova) x s =
      s\<lparr>cells := (cells s)(P + leaf_index (ptable s) iova * 8 := x)\<rparr>"
    by (rule write_pte_at [OF at entry_small [OF g j]])
  show "space_ok E (write_pte E v (leaf_index (ptable s) iova) x s)"
    "entry (write_pte E v (leaf_index (ptable s) iova) x s) = (entry s)(slot (ptable s) iova := x)"
    using leaf_write(1,2) [OF ok path_good(1,2) [OF g] P j w] by (simp_all add: slot_def)
  show "tables_known s \<Longrightarrow> tables_known (write_pte E v (leaf_index (ptable s) iova) x s)"
    by (erule tables_known_cong) (use leaf_write(3) [OF ok path_good(1,2) [OF g] P j w] in \<open>simp_all add: w\<close>)
qed

lemma shape_write [simp]: "ptable (write_pte E v j x s) = ptable s"
  by (simp add: write_pte_def)

definition leaf_pte :: "u64 \<Rightarrow> u64 \<Rightarrow> u64" where
  "leaf_pte paddr flags = paddr_to_pte paddr OR DART_PTE_SUBPAGE_ALLOW_ALL OR flags"

text \<open>\<open>map_page\<close> sets the one entry of its page, or on an error changes no entry.\<close>

lemma map_page_entries:
  assumes ok: "space_ok E s" and run: "map_page E iova paddr flags s = (r, s')"
  shows "space_ok E s' \<and> shape (ptable s') = shape (ptable s) \<and> (tables_known s \<longrightarrow> tables_known s') \<and>
    entry s' = (if r = Inr () then (entry s)(slot (ptable s) iova := leaf_pte paddr flags) else entry s)"
proof -
  obtain q u where w: "map_walk E iova (rev [1..<table_levels (ptable s)]) (root_vaddr (ptable s)) s = (q, u)"
    by fastforce
  have g: "geometry_ok (ptable s)"
    using ok by (simp add: space_ok_def)
  have u: "space_ok E u" "keeps_pages s u" "\<And>v. q = Inr v \<Longrightarrow> reached E u (path (ptable s) iova) v"
    using map_walk_ok [OF ok _ root_reached [OF ok] w] path_good(1) [OF g, of iova]
    by (simp_all add: path_def)
  have sh: "shape (ptable u) = shape (ptable s)"
    using u(2) by (simp add: keeps_pages_def)
  show ?thesis
  proof (cases q)
    case (Inl e)
    then show ?thesis
      using u(1,2) run w by (auto simp: map_page_def try_bind_def keeps_pages_def)
  next
    case (Inr v)
    have "s' = write_pte E v (leaf_index (ptable u) iova) (leaf_pte paddr flags) u" "r = Inr ()"
      using run w Inr by (auto simp: map_page_def try_bind_def leaf_pte_def shape_cong [OF sh])
    then show ?thesis
      using leaf_write_reached [OF u(1), of iova v] u(2,3) Inr
      by (simp add: shape_cong [OF sh] sh keeps_pages_def)
  qed
qed

text \<open>\<open>unmap_page\<close> clears the one entry of its page, which a missing table has clear already.\<close>

lemma unmap_walk_ok:
  assumes "space_ok E s" and "good_path (ptable s) (K @ map (table_index (ptable s) iova) ls)"
    and "reached E s K v" and "unmap_walk E iova ls v s = (r, s')"
  shows "space_ok E s' \<and> keeps_pages s s' \<and>
    (\<forall>v'. r = Inr (Some v') \<longrightarrow> reached E s' (K @ map (table_index (ptable s) iova) ls) v') \<and>
    (r = Inr None \<longrightarrow>
      walk (cells s') (unat (root_paddr (ptable s))) (K @ map (table_index (ptable s) iova) ls) = None)"
  using assms
proof (induction ls arbitrary: K v s)
  case (Cons level ls)
  let ?t = "ptable s" let ?j = "table_index ?t iova level" let ?K = "K @ [?j]"
  have g: "geometry_ok ?t"
    using Cons.prems(1) by (simp add: space_ok_def)
  obtain P where P: "walk (cells s) (unat (root_paddr ?t)) K = Some P" and at: "at_table E (table_size ?t) v P"
    using Cons.prems(3) by (auto simp: reached_def)
  have pte: "read_pte E v ?j s = cells s (P + ?j * 8)"
    by (rule read_pte_at [OF at entry_small [OF g index_bounds(1) [OF g]]])
  show ?case
  proof (cases "pte_valid (cells s (P + ?j * 8))")
    case False
    then show ?thesis
      using Cons.prems(1,4) P by (auto simp: pte pte_valid_def keeps_pages_def walk_append)
  next
    case True
    obtain q u where m: "map_firmware_table E (pte_to_paddr (cells s (P + ?j * 8))) s = (q, u)"
      by fastforce
    note u = map_firmware_table_ok [OF Cons.prems(1) m]
    note keep = map_firmware_table_keeps [OF Cons.prems(1) m]
    show ?thesis
    proof (cases q)
      case (Inl e)
      then show ?thesis
        using m u keep Cons.prems(4) True by (auto simp: pte pte_valid_def try_bind_def)
    next
      case (Inr vb)
      have "reached E u ?K (fst vb)"
        using u(4) [of "fst vb" "snd vb"] Inr P True
        by (simp add: reached_def u(3) shape_eqD [OF u(2)] walk_append)
      then have "space_ok E s' \<and> keeps_pages u s' \<and>
          (\<forall>v'. r = Inr (Some v') \<longrightarrow> reached E s' (?K @ map (table_index (ptable u) iova) ls) v') \<and>
          (r = Inr None \<longrightarrow>
            walk (cells s') (unat (root_paddr (ptable u))) (?K @ map (table_index (ptable u) iova) ls) = None)"
        using Cons.IH [of u ?K "fst vb"] u(1) Inr m True Cons.prems(2,4)
        by (simp add: pte pte_valid_def try_bind_def shape_cong [OF u(2)])
      then show ?thesis
        using keeps_pages_trans [OF keep] by (simp add: shape_cong [OF u(2)] shape_eqD [OF u(2)])
    qed
  qed
qed (auto simp: keeps_pages_def)

lemma entry_missing:
  "walk (cells s) (unat (root_paddr (ptable s))) (path (ptable s) iova) = None \<Longrightarrow>
   entry s (slot (ptable s) iova) = 0"
  by (simp add: entry_def slot_def butlast_append)

lemma unmap_page_entries:
  assumes ok: "space_ok E s" and run: "unmap_page E iova s = (r, s')"
  shows "space_ok E s' \<and> shape (ptable s') = shape (ptable s) \<and> (tables_known s \<longrightarrow> tables_known s') \<and>
    entry s' = (if r = Inr () then (entry s)(slot (ptable s) iova := 0) else entry s)"
proof -
  obtain q u where w: "unmap_walk E iova (rev [1..<table_levels (ptable s)]) (root_vaddr (ptable s)) s = (q, u)"
    by fastforce
  have g: "geometry_ok (ptable s)"
    using ok by (simp add: space_ok_def)
  have u: "space_ok E u" "keeps_pages s u"
    "\<And>v. q = Inr (Some v) \<Longrightarrow> reached E u (path (ptable s) iova) v"
    "q = Inr None \<Longrightarrow> walk (cells u) (unat (root_paddr (ptable s))) (path (ptable s) iova) = None"
    using unmap_walk_ok [OF ok _ root_reached [OF ok] w] path_good(1) [OF g, of iova]
    by (simp_all add: path_def)
  have sh: "shape (ptable u) = shape (ptable s)"
    using u(2) by (simp add: keeps_pages_def)
  consider (failed) e where "q = Inl e" | (absent) "q = Inr None" | (found) v where "q = Inr (Some v)"
    by (metis option.exhaust sum.exhaust)
  then show ?thesis
  proof cases
    case failed
    then show ?thesis
      using u(1,2) run w by (auto simp: unmap_page_def try_bind_def keeps_pages_def)
  next
    case absent
    then have "r = Inr ()" "s' = u"
      using run w by (auto simp: unmap_page_def try_bind_def)
    moreover have "entry s (slot (ptable s) iova) = 0"
      using entry_missing [of u iova] u(2,4) absent by (simp add: shape_cong [OF sh] shape_eqD [OF sh] keeps_pages_def)
    ultimately show ?thesis
      using u(1,2) by (simp add: keeps_pages_def fun_upd_idem)
  next
    case found
    have "s' = write_pte E v (leaf_index (ptable u) iova) 0 u" "r = Inr ()"
      using run w found by (auto simp: unmap_page_def try_bind_def shape_cong [OF sh])
    then show ?thesis
      using leaf_write_reached [OF u(1), of iova v 0] u(2,3) found
      by (simp add: shape_cong [OF sh] sh keeps_pages_def)
  qed
qed

section \<open>Slots and pages\<close>

text \<open>The slot of an address is the digits of its page number.\<close>

lemma slot_digits:
  assumes "geometry_ok t"
  shows "slot t iova = map (table_index t iova) (rev [0..<table_levels t])"
proof -
  have "[0..<table_levels t] = 0 # [1..<table_levels t]"
    using assms by (simp add: geometry_ok_def upt_conv_Cons)
  then show ?thesis
    using assms by (simp add: slot_def path_def table_index_eq leaf_index_eq)
qed

lemma digits_eq:
  fixes x y :: nat
  assumes "\<And>l. l < n \<Longrightarrow> x div B ^ l mod B = y div B ^ l mod B"
  shows "x mod B ^ n = y mod B ^ n"
  using assms
proof (induction n)
  case (Suc n)
  have "x mod B ^ n = y mod B ^ n" "x div B ^ n mod B = y div B ^ n mod B"
    using Suc by auto
  then show ?case
    using mod_mult2_eq [of x "B ^ n" B] mod_mult2_eq [of y "B ^ n" B] by (simp add: mult.commute)
qed simp

definition page_of :: "dart_page_table \<Rightarrow> u64 \<Rightarrow> nat" where
  "page_of t iova = unat iova div 2 ^ pt_page_shift t"

lemma slot_eq_iff:
  assumes g: "geometry_ok t"
  shows "slot t x = slot t y \<longleftrightarrow>
    page_of t x mod 2 ^ (table_levels t * bits_per_level t) =
    page_of t y mod 2 ^ (table_levels t * bits_per_level t)"
proof -
  let ?B = "2 ^ bits_per_level t :: nat" and ?n = "table_levels t"
  have digit: "table_index t z l = page_of t z div ?B ^ l mod ?B" for z l
    using g by (simp add: table_index_eq page_of_def power_add div_mult2_eq power_mult [symmetric] mult.commute)
  have pow: "2 ^ (?n * bits_per_level t) = ?B ^ ?n"
    by (simp add: power_mult [symmetric] mult.commute)
  have "slot t x = slot t y \<longleftrightarrow> (\<forall>l<?n. page_of t x div ?B ^ l mod ?B = page_of t y div ?B ^ l mod ?B)"
    using g by (auto simp: slot_digits digit)
  also have "\<dots> \<longleftrightarrow> page_of t x mod ?B ^ ?n = page_of t y mod ?B ^ ?n"
  proof
    assume eq: "page_of t x mod ?B ^ ?n = page_of t y mod ?B ^ ?n"
    have "z div ?B ^ l mod ?B = (z mod ?B ^ ?n) div ?B ^ l mod ?B" if "l < ?n" for l and z :: nat
    proof -
      have "bit z (l * bits_per_level t + i) = bit (take_bit (?n * bits_per_level t) z) (l * bits_per_level t + i)"
        if "i < bits_per_level t" for i
      proof -
        have "l * bits_per_level t + i < Suc l * bits_per_level t"
          using that by simp
        also have "\<dots> \<le> ?n * bits_per_level t"
          using \<open>l < ?n\<close> by (intro mult_right_mono) auto
        finally show ?thesis
          by (simp add: bit_take_bit_iff)
      qed
      then have "take_bit (bits_per_level t) (drop_bit (l * bits_per_level t) z) =
          take_bit (bits_per_level t) (drop_bit (l * bits_per_level t) (take_bit (?n * bits_per_level t) z))"
        by (intro bit_eqI) (auto simp: bit_take_bit_iff bit_drop_bit_eq)
      then show ?thesis
        by (simp add: take_bit_eq_mod drop_bit_eq_div power_mult [symmetric] mult.commute)
    qed
    then show "\<forall>l<?n. page_of t x div ?B ^ l mod ?B = page_of t y div ?B ^ l mod ?B"
      by (metis eq)
  qed (auto intro: digits_eq)
  finally show ?thesis
    by (simp add: pow)
qed

lemma page_below:
  assumes g: "geometry_ok t" and x: "unat x < 2 ^ 32"
  shows "page_of t x mod 2 ^ (table_levels t * bits_per_level t) = page_of t x"
proof -
  have "(2 :: nat) ^ 32 \<le> 2 ^ (pt_page_shift t + table_levels t * bits_per_level t)"
    by (rule power_increasing) (use g in \<open>simp_all add: geometry_ok_def\<close>)
  with x have "unat x < 2 ^ (pt_page_shift t + table_levels t * bits_per_level t)"
    by (rule less_le_trans)
  then show ?thesis
    by (simp add: page_of_def power_add less_mult_imp_div_less mult.commute)
qed

lemma slot_eq_page:
  "geometry_ok t \<Longrightarrow> unat x < 2 ^ 32 \<Longrightarrow> unat y < 2 ^ 32 \<Longrightarrow>
   slot t x = slot t y \<longleftrightarrow> page_of t x = page_of t y"
  by (simp add: slot_eq_iff page_below)

text \<open>The flags a leaf entry may carry, and what the entry translates to.\<close>

definition flags_ok :: "u64 \<Rightarrow> bool" where
  "flags_ok flags \<longleftrightarrow> bit flags 0 \<and> flags AND DART_PADDR_MASK = 0"

definition page_bytes :: "dart_page_table \<Rightarrow> nat" where
  "page_bytes t = 2 ^ pt_page_shift t"

lemma bit_paddr_mask: "bit DART_PADDR_MASK n \<longleftrightarrow> 12 \<le> n \<and> n < 36"
proof -
  have mask: "DART_PADDR_MASK = mask 36 AND NOT (mask 12)"
    by (simp add: DART_PADDR_MASK_def mask_eq_exp_minus_1)
  show ?thesis
    unfolding mask by (auto simp: bit_simps)
qed

lemma flags_bits:
  assumes "flags_ok flags" and "12 \<le> n" "n < 36"
  shows "\<not> bit flags n"
proof -
  have "bit (flags AND DART_PADDR_MASK) n = False"
    using assms(1) by (simp add: flags_ok_def)
  then show ?thesis
    using assms(2,3) by (simp add: bit_and_iff bit_paddr_mask)
qed

lemma subpage_bits: "bit DART_PTE_SUBPAGE_ALLOW_ALL n \<longleftrightarrow> 40 \<le> n \<and> n < 52"
proof -
  have "DART_PTE_SUBPAGE_ALLOW_ALL = push_bit 40 (mask 12)"
    by (simp add: DART_PTE_SUBPAGE_ALLOW_ALL_def mask_eq_exp_minus_1)
  then have "bit DART_PTE_SUBPAGE_ALLOW_ALL n \<longleftrightarrow> bit (push_bit 40 (mask 12) :: u64) n"
    by (rule arg_cong)
  then show ?thesis
    by (auto simp: bit_simps)
qed

lemma leaf_pte_valid: "flags_ok flags \<Longrightarrow> pte_valid (leaf_pte paddr flags)"
  by (simp add: pte_valid_def DART_PTE_VALID_def and_one_neq_zero leaf_pte_def flags_ok_def bit_or_iff)

lemma leaf_permissions:
  "leaf_pte paddr flags AND DART_PTE_NO_READ = 0 \<longleftrightarrow> \<not> bit flags 8"
  "leaf_pte paddr flags AND DART_PTE_NO_WRITE = 0 \<longleftrightarrow> \<not> bit flags 7"
  using and_flag_iff [where 'a = 64, of 8 "leaf_pte paddr flags"]
    and_flag_iff [where 'a = 64, of 7 "leaf_pte paddr flags"]
  by (simp_all only: DART_PTE_NO_READ_def DART_PTE_NO_WRITE_def)
    (auto simp: leaf_pte_def paddr_to_pte_def bit_or_iff bit_and_iff bit_paddr_mask subpage_bits)

lemma aligned_bits:
  fixes w :: u64
  assumes "2 ^ k dvd unat w" and "i < k"
  shows "\<not> bit w i"
proof -
  have "take_bit k (unat w) = 0"
    using assms(1) by (simp add: take_bit_eq_mod)
  then have "\<not> bit (take_bit k (unat w)) i" by simp
  with assms(2) show ?thesis
    by (simp add: bit_take_bit_iff bit_unsigned_iff)
qed

lemma leaf_paddr:
  assumes "flags_ok flags" and "4096 dvd unat paddr" and "unat paddr < 2 ^ 36"
  shows "pte_to_paddr (leaf_pte paddr flags) = paddr"
proof (rule bit_word_eqI)
  fix n
  have "bit paddr n \<Longrightarrow> n < 36"
    using small_word_bits [of paddr 36 n] assms(3) by (simp add: word_less_nat_alt)
  moreover have "bit paddr n \<Longrightarrow> 12 \<le> n"
    using aligned_bits [of 12 paddr n] assms(2) by (auto simp: not_less [symmetric])
  ultimately show "bit (pte_to_paddr (leaf_pte paddr flags)) n = bit paddr n"
    using flags_bits [OF assms(1), of n]
    by (auto simp: pte_to_paddr_def leaf_pte_def paddr_to_pte_def bit_and_iff bit_or_iff bit_paddr_mask subpage_bits)
qed

lemma page_offset:
  assumes "geometry_ok t" and "page_bytes t dvd unat paddr"
  shows "paddr OR (iova AND (page_size t - 1)) = paddr + of_nat (unat iova mod page_bytes t)"
proof -
  let ?k = "pt_page_shift t"
  have k: "?k < 64"
    using assms(1) by (simp add: geometry_ok_def)
  have "iova AND (page_size t - 1) = take_bit ?k iova"
    by (simp add: page_size_def take_bit_eq_mask mask_eq_exp_minus_1 push_bit_of_1)
  moreover have "take_bit ?k iova = of_nat (unat iova mod page_bytes t)"
    using k by (simp add: page_bytes_def flip: take_bit_eq_mod unsigned_take_bit_eq)
  moreover have "paddr AND take_bit ?k iova = 0"
    using aligned_bits [of ?k paddr] assms(2)
    by (intro bit_word_eqI) (auto simp: bit_simps page_bytes_def)
  ultimately show ?thesis
    using word_plus_and_or [of paddr "take_bit ?k iova"] by simp
qed

section \<open>Loops over slots\<close>

text \<open>
  A writer of slots: each call sets one slot of the contents or fails and sets none. A loop of
  such calls, as the range operations are, sets the slots of its arguments and no other.
\<close>

locale slot_writer =
  fixes valid :: "'s \<Rightarrow> bool"
    and content :: "'s \<Rightarrow> 'k \<Rightarrow> 'v"
    and assign :: "'a \<Rightarrow> ('s, 'e, unit) stepper"
    and key :: "'a \<Rightarrow> 'k"
    and val :: "'a \<Rightarrow> 'v"
  assumes assign_law: "valid s \<Longrightarrow> assign a s = (r, s') \<Longrightarrow>
    valid s' \<and> content s' = (if r = Inr () then (content s)(key a := val a) else content s)"
begin

lemma loop_valid:
  "valid s \<Longrightarrow> for_each assign as s = (r, s') \<Longrightarrow> valid s'"
proof (induction as arbitrary: s)
  case (Cons a as)
  obtain q u where a: "assign a s = (q, u)"
    by fastforce
  with Cons show ?case
    using assign_law [OF Cons.prems(1) a] by (cases q) auto
qed simp

lemma loop_other:
  "valid s \<Longrightarrow> for_each assign as s = (r, s') \<Longrightarrow> k \<notin> key ` set as \<Longrightarrow> content s' k = content s k"
proof (induction as arbitrary: s)
  case (Cons a as)
  obtain q u where a: "assign a s = (q, u)"
    by fastforce
  note law = assign_law [OF Cons.prems(1) a]
  show ?case
  proof (cases q)
    case (Inl e)
    with a law Cons.prems(2) show ?thesis by simp
  next
    case (Inr x)
    then have "content s' k = content u k"
      using Cons.IH [of u] Cons.prems(2,3) a law by simp
    with law Cons.prems(3) show ?thesis by simp
  qed
qed simp

lemma loop_sets:
  "valid s \<Longrightarrow> for_each assign as s = (Inr (), s') \<Longrightarrow> distinct (map key as) \<Longrightarrow> a \<in> set as \<Longrightarrow>
   content s' (key a) = val a"
proof (induction as arbitrary: s)
  case (Cons b as)
  obtain q u where b: "assign b s = (q, u)"
    by fastforce
  note law = assign_law [OF Cons.prems(1) b]
  have q: "q = Inr ()" and rest: "for_each assign as u = (Inr (), s')"
    using b Cons.prems(2) by (cases q; auto)+
  show ?case
  proof (cases "a \<in> set as")
    case True
    then show ?thesis
      using Cons.IH [of u] rest law Cons.prems(3) by simp
  next
    case False
    then have "a = b"
      using Cons.prems(4) by simp
    moreover have "key b \<notin> key ` set as"
      using Cons.prems(3) by simp
    ultimately show ?thesis
      using loop_other [OF _ rest] law q by simp
  qed
qed simp

end

definition table_state :: "dart_env \<Rightarrow> dart_page_table \<Rightarrow> 'z dart_space_scheme \<Rightarrow> bool" where
  "table_state E t s \<longleftrightarrow> space_ok E s \<and> shape (ptable s) = shape t"

text \<open>The i-th page from an address on.\<close>

definition nth_page :: "dart_page_table \<Rightarrow> u64 \<Rightarrow> nat \<Rightarrow> u64" where
  "nth_page t a i = a + of_nat i * page_size t"

lemma table_state_shape:
  "table_state E t s \<Longrightarrow> slot (ptable s) = slot t"
  "table_state E t s \<Longrightarrow> space_ok E s"
  using shape_cong(5) [of "ptable s" t] by (simp_all add: table_state_def)

lemma map_page_law:
  assumes "table_state E t s" and "map_page E iova paddr flags s = (r, s')"
  shows "table_state E t s' \<and>
    entry s' = (if r = Inr () then (entry s)(slot t iova := leaf_pte paddr flags) else entry s)"
proof -
  note m = map_page_entries [OF table_state_shape(2) [OF assms(1)] assms(2)]
  have "table_state E t s'"
    using m assms(1) unfolding table_state_def by (metis)
  then show ?thesis
    using m table_state_shape(1) [OF assms(1)] by metis
qed

lemma unmap_page_law:
  assumes "table_state E t s" and "unmap_page E iova s = (r, s')"
  shows "table_state E t s' \<and>
    entry s' = (if r = Inr () then (entry s)(slot t iova := 0) else entry s)"
proof -
  note m = unmap_page_entries [OF table_state_shape(2) [OF assms(1)] assms(2)]
  have "table_state E t s'"
    using m assms(1) unfolding table_state_def by metis
  then show ?thesis
    using m table_state_shape(1) [OF assms(1)] by metis
qed

interpretation page_mapper: slot_writer "table_state E t" entry
  "\<lambda>i. map_page E (nth_page t iova i) (nth_page t paddr i) flags"
  "\<lambda>i. slot t (nth_page t iova i)" "\<lambda>i. leaf_pte (nth_page t paddr i) flags" for E t iova paddr flags
  by (rule slot_writer.intro) (rule map_page_law)

interpretation page_unmapper: slot_writer "table_state E t" entry
  "\<lambda>i. unmap_page E (nth_page t iova i)" "\<lambda>i. slot t (nth_page t iova i)" "\<lambda>_. 0" for E t iova
  by (rule slot_writer.intro) (rule unmap_page_law)

end
