(* ===== verification/DartDomain.thy ===== *)
theory DartDomain
  imports DartTable
begin

text \<open>
  What a DART domain promises: mapping and unmapping of pages and ranges seen by the hardware,
  the agreement of the driver's own walk with the hardware's, the registers of the streams.
\<close>

section \<open>Properties of the page table\<close>

lemma hw_translate_entry:
  "hw_translate s iova =
     (if pte_valid (entry s (slot (ptable s) iova))
      then Some (pte_to_paddr (entry s (slot (ptable s) iova)) OR (iova AND (page_size (ptable s) - 1)))
      else None)"
  by (simp add: hw_translate_def)

lemma hw_translate_cong:
  assumes "shape (ptable s') = shape (ptable s)"
    and "entry s' (slot (ptable s) iova) = entry s (slot (ptable s) iova)"
  shows "hw_translate s' iova = hw_translate s iova"
  using assms(2) by (simp add: hw_translate_entry shape_cong [OF assms(1)])

lemma page_bytes_bound: "geometry_ok t \<Longrightarrow> 4096 dvd page_bytes t"
  using page_dvd_table by (simp add: page_bytes_def geometry_ok_def power_add)

lemma hw_translate_leaf:
  assumes g: "geometry_ok (ptable s)" and e: "entry s (slot (ptable s) iova) = leaf_pte paddr flags"
    and f: "flags_ok flags" and p: "page_bytes (ptable s) dvd unat paddr" "unat paddr < 2 ^ 36"
  shows "hw_translate s iova = Some (paddr + of_nat (unat iova mod page_bytes (ptable s)))"
  using leaf_pte_valid [OF f] page_offset [OF g p(1)]
    leaf_paddr [OF f dvd_trans [OF page_bytes_bound [OF g] p(1)] p(2)]
  by (simp add: hw_translate_entry e)

text \<open>C13. C27: a page that \<open>map_page\<close> maps is what the hardware then translates it to, offset
  included; every other page translates as before; and when it fails no translation changes.\<close>

theorem dart_map_page_translates:
  assumes "space_ok E s" and "unat iova < 2 ^ 32" and "unat x < 2 ^ 32"
    and "page_bytes (ptable s) dvd unat paddr" and "unat paddr < 2 ^ 36" and "flags_ok flags"
    and "map_page E iova paddr flags s = (r, s')"
  shows "space_ok E s' \<and>
    hw_translate s' x =
      (if r = Inr () \<and> page_of (ptable s) x = page_of (ptable s) iova
       then Some (paddr + of_nat (unat x mod page_bytes (ptable s))) else hw_translate s x)"
proof -
  have g: "geometry_ok (ptable s)"
    using assms(1) by (simp add: space_ok_def)
  note m = map_page_entries [OF assms(1,7)]
  then have sh: "shape (ptable s') = shape (ptable s)" by simp
  have same: "slot (ptable s) x = slot (ptable s) iova \<longleftrightarrow> page_of (ptable s) x = page_of (ptable s) iova"
    by (rule slot_eq_page [OF g assms(3,2)])
  have bytes: "page_bytes (ptable s') = page_bytes (ptable s)"
    by (simp add: page_bytes_def shape_eqD [OF sh])
  show ?thesis
  proof (cases "r = Inr () \<and> page_of (ptable s) x = page_of (ptable s) iova")
    case True
    then have "entry s' (slot (ptable s') x) = leaf_pte paddr flags"
      using m same by (simp add: shape_cong [OF sh])
    then show ?thesis
      using True m hw_translate_leaf [of s' x paddr flags] assms(4-6) g
      by (simp add: bytes shape_cong [OF sh])
  next
    case False
    then have "hw_translate s' x = hw_translate s x"
      using m same by (intro hw_translate_cong [OF sh]) auto
    with False m show ?thesis by auto
  qed
qed

text \<open>Ranges: the pages from an aligned address on.\<close>

lemma pages_cover:
  fixes len b :: nat
  assumes "0 < b"
  shows "i < div_ceil len b \<longleftrightarrow> i * b < len"
proof -
  have "i < div_ceil len b \<longleftrightarrow> Suc i * b \<le> len + b - 1"
    using assms by (simp add: div_ceil_def Suc_le_eq [symmetric] less_eq_div_iff_mult_less_eq)
  then show ?thesis
    using assms by auto
qed

lemma page_bytes_pos: "0 < page_bytes t"
  by (simp add: page_bytes_def)

lemma unat_page_size:
  assumes "geometry_ok t"
  shows "unat (page_size t) = page_bytes t"
proof -
  have "(2 :: nat) ^ pt_page_shift t < 2 ^ 64"
    using assms by (intro power_strict_increasing) (simp_all add: geometry_ok_def)
  then show ?thesis
    using unat_of_nat_small [where 'a = 64, of "2 ^ pt_page_shift t"]
    by (simp add: page_size_def page_bytes_def push_bit_of_1)
qed

lemma unat_nth_page:
  assumes "geometry_ok t" and "unat a + i * page_bytes t < 2 ^ 64"
  shows "unat (nth_page t a i) = unat a + i * page_bytes t"
proof -
  have "nth_page t a i = of_nat (unat a + i * page_bytes t)"
    by (simp add: nth_page_def flip: unat_page_size [OF assms(1)])
  then show ?thesis
    using assms(2) by (simp add: unat_of_nat_small del: of_nat_add of_nat_mult)
qed

text \<open>A range of addresses is \<open>good\<close> when it starts on a page and stays inside 32 bits.\<close>

definition good_range :: "dart_page_table \<Rightarrow> u64 \<Rightarrow> u64 \<Rightarrow> bool" where
  "good_range t iova len \<longleftrightarrow>
     page_bytes t dvd unat iova \<and> unat iova + unat len \<le> 2 ^ 32"

definition in_range :: "dart_page_table \<Rightarrow> u64 \<Rightarrow> u64 \<Rightarrow> u64 \<Rightarrow> bool" where
  "in_range t iova len x \<longleftrightarrow>
     unat iova \<le> unat x \<and> unat x < unat iova + div_ceil (unat len) (page_bytes t) * page_bytes t"

lemma range_page:
  assumes g: "geometry_ok t" and r: "good_range t iova len" and i: "i < div_ceil (unat len) (page_bytes t)"
  shows "unat (nth_page t iova i) = unat iova + i * page_bytes t" "unat (nth_page t iova i) < 2 ^ 32"
    "page_of t (nth_page t iova i) = page_of t iova + i"
proof -
  have "i * page_bytes t < unat len"
    using i pages_cover [OF page_bytes_pos] by blast
  then have b: "unat iova + i * page_bytes t < 2 ^ 32"
    using r by (simp add: good_range_def)
  then show u: "unat (nth_page t iova i) = unat iova + i * page_bytes t"
    by (intro unat_nth_page [OF g]) simp
  with b show "unat (nth_page t iova i) < 2 ^ 32" by simp
  show "page_of t (nth_page t iova i) = page_of t iova + i"
    using u by (simp add: page_of_def page_bytes_def)
qed

lemma range_slots_distinct:
  assumes "geometry_ok t" and "good_range t iova len"
  shows "distinct (map (\<lambda>i. slot t (nth_page t iova i)) [0..<div_ceil (unat len) (page_bytes t)])"
  using range_page [OF assms] slot_eq_page [OF assms(1)]
  by (auto simp: distinct_map inj_on_def)

lemma in_range_page:
  assumes g: "geometry_ok t" and r: "good_range t iova len" and x: "unat x < 2 ^ 32"
  shows "in_range t iova len x \<longleftrightarrow>
    (\<exists>i<div_ceil (unat len) (page_bytes t). slot t x = slot t (nth_page t iova i))"
proof -
  obtain q where q: "unat iova = q * page_bytes t"
    using r unfolding good_range_def by (metis dvdE mult.commute)
  let ?n = "div_ceil (unat len) (page_bytes t)"
  have "in_range t iova len x \<longleftrightarrow> q \<le> page_of t x \<and> page_of t x < q + ?n"
    using page_bytes_pos [of t]
    by (simp add: in_range_def q page_of_def page_bytes_def less_eq_div_iff_mult_less_eq
        div_less_iff_less_mult flip: add_mult_distrib)
  also have "\<dots> \<longleftrightarrow> (\<exists>i<?n. page_of t x = q + i)"
    by (metis add.commute add_less_cancel_left le_Suc_ex le_add1)
  also have "\<dots> \<longleftrightarrow> (\<exists>i<?n. slot t x = slot t (nth_page t iova i))"
  proof -
    have "slot t x = slot t (nth_page t iova i) \<longleftrightarrow> page_of t x = q + i" if "i < ?n" for i
      using range_page(2,3) [OF g r that] slot_eq_page [OF g x]
      by (simp add: page_of_def [of t iova] q page_bytes_def)
    then show ?thesis by auto
  qed
  finally show ?thesis .
qed

lemma map_contiguous_loop:
  assumes "geometry_ok (ptable s)"
  shows "map_contiguous E iova paddr len flags s =
    for_each (\<lambda>i. map_page E (nth_page (ptable s) iova i) (nth_page (ptable s) paddr i) flags)
      [0..<div_ceil (unat len) (page_bytes (ptable s))] s"
  by (simp add: map_contiguous_def unat_page_size [OF assms] flip: nth_page_def)

lemma map_contiguous_translates:
  assumes ok: "space_ok E s" and r: "good_range (ptable s) iova len" and f: "flags_ok flags"
    and p: "page_bytes (ptable s) dvd unat paddr" "unat paddr + unat len \<le> 2 ^ 36"
    and x: "unat x < 2 ^ 32" and run: "map_contiguous E iova paddr len flags s = (q, s')"
  shows "space_ok E s' \<and> shape (ptable s') = shape (ptable s) \<and>
    (\<not> in_range (ptable s) iova len x \<longrightarrow> hw_translate s' x = hw_translate s x) \<and>
    (in_range (ptable s) iova len x \<and> q = Inr () \<longrightarrow>
       hw_translate s' x = Some (paddr + (x - iova)) \<and>
       (hw_readable s' x \<longleftrightarrow> \<not> bit flags 8) \<and> (hw_writable s' x \<longleftrightarrow> \<not> bit flags 7))"
proof -
  let ?t = "ptable s" let ?n = "div_ceil (unat len) (page_bytes ?t)"
  have g: "geometry_ok ?t"
    using ok by (simp add: space_ok_def)
  have t: "table_state E ?t s"
    using ok by (simp add: table_state_def)
  note loop = run [unfolded map_contiguous_loop [OF g]]
  have t': "table_state E ?t s'"
    by (rule page_mapper.loop_valid [OF t loop])
  then have sh: "shape (ptable s') = shape ?t"
    by (simp add: table_state_def)
  have "hw_translate s' x = hw_translate s x" if "\<not> in_range ?t iova len x"
  proof (rule hw_translate_cong [OF sh])
    show "entry s' (slot ?t x) = entry s (slot ?t x)"
      by (rule page_mapper.loop_other [OF t loop]) (use that in_range_page [OF g r x] in auto)
  qed
  moreover have "hw_translate s' x = Some (paddr + (x - iova)) \<and>
      (hw_readable s' x \<longleftrightarrow> \<not> bit flags 8) \<and> (hw_writable s' x \<longleftrightarrow> \<not> bit flags 7)" if ins: "in_range ?t iova len x" "q = Inr ()"
  proof -
    obtain i where i: "i < ?n" "slot ?t x = slot ?t (nth_page ?t iova i)"
      using ins(1) in_range_page [OF g r x] by auto
    have e: "entry s' (slot ?t x) = leaf_pte (nth_page ?t paddr i) flags"
      using page_mapper.loop_sets [OF t loop [unfolded ins(2)] range_slots_distinct [OF g r], of i] i by simp
    have "i * page_bytes ?t < unat len"
      using i(1) pages_cover [OF page_bytes_pos] by blast
    then have b: "unat paddr + i * page_bytes ?t < 2 ^ 36"
      using p(2) by simp
    then have u: "unat (nth_page ?t paddr i) = unat paddr + i * page_bytes ?t"
      by (intro unat_nth_page [OF g]) simp
    have "page_of ?t x = page_of ?t iova + i"
      using i slot_eq_page [OF g x range_page(2) [OF g r i(1)]] range_page(3) [OF g r i(1)] by simp
    then have off: "unat x = unat iova + i * page_bytes ?t + unat x mod page_bytes ?t"
      using r div_mult_mod_eq [of "unat x" "page_bytes ?t"]
      by (auto simp: good_range_def page_of_def page_bytes_def add_mult_distrib elim!: dvdE)
    have "hw_translate s' x = Some (nth_page ?t paddr i + of_nat (unat x mod page_bytes ?t))"
      using hw_translate_leaf [of s' x "nth_page ?t paddr i" flags] e f u b p(1) g
      by (simp add: shape_cong [OF sh] page_bytes_def shape_eqD [OF sh] del: of_nat_mod)
    moreover have "x = iova + (of_nat i * page_size ?t + of_nat (unat x mod page_bytes ?t))"
    proof -
      have "x = of_nat (unat x)"
        by simp
      also note off
      finally have "x = of_nat (unat iova + i * page_bytes ?t + unat x mod page_bytes ?t)" .
      then show ?thesis
        by (simp add: add.assoc flip: unat_page_size [OF g])
    qed
    ultimately have "hw_translate s' x = Some (paddr + (x - iova))"
      by (metis (no_types, opaque_lifting) nth_page_def add.assoc add_diff_cancel_left')
    then show ?thesis
      using leaf_permissions [of "nth_page ?t paddr i" flags] e
      by (simp add: hw_readable_def hw_writable_def shape_cong [OF sh])
  qed
  ultimately show ?thesis
    using t' by (simp add: table_state_def)
qed

section \<open>Domains\<close>

lemma poll_idle_state:
  "poll_idle E n s = (r, s') \<Longrightarrow> \<exists>k. s' = s\<lparr>polls := k\<rparr> \<and> (r = Inr () \<or> r = Inl Busy)"
proof (induction n arbitrary: s)
  case 0
  then show ?case
    by (auto intro: exI [of _ "polls s"])
next
  case (Suc n)
  then show ?case
    by (fastforce simp: Let_def split: if_splits)
qed

lemma sync_state:
  assumes "sync_page_tables E s = (r, s')"
  obtains k g where "s' = s\<lparr>dregs := g, polls := k\<rparr>" and "r = Inr () \<or> r = Inl Busy"
  using assms poll_idle_state [of E _ _ r s']
  by (fastforce simp: sync_page_tables_def invalidate_all_tlbs_def write32_def)

lemma hw_registers [simp]:
  "space_ok E (s\<lparr>dregs := g, polls := k\<rparr>) = space_ok E s"
  "hw_translate (s\<lparr>dregs := g, polls := k\<rparr>) = hw_translate s"
  "hw_readable (s\<lparr>dregs := g, polls := k\<rparr>) = hw_readable s"
  "hw_writable (s\<lparr>dregs := g, polls := k\<rparr>) = hw_writable s"
proof -
  have e: "entry (s\<lparr>dregs := g, polls := k\<rparr>) = entry s"
    by (rule entry_cong) simp_all
  show "space_ok E (s\<lparr>dregs := g, polls := k\<rparr>) = space_ok E s"
    by (simp add: space_ok_def)
  show "hw_translate (s\<lparr>dregs := g, polls := k\<rparr>) = hw_translate s"
    by (rule ext) (simp add: hw_translate_entry e)
  show "hw_readable (s\<lparr>dregs := g, polls := k\<rparr>) = hw_readable s"
    "hw_writable (s\<lparr>dregs := g, polls := k\<rparr>) = hw_writable s"
    by (rule ext, simp add: hw_readable_def hw_writable_def e)+
qed

lemma dart_pte_flags_bits:
  "bit (dart_pte_flags f) n \<longleftrightarrow>
     n = 0 \<or> n = 1 \<or> n = 7 \<and> \<not> flag_write f \<or> n = 8 \<and> \<not> flag_read f"
proof -
  have one: "bit (push_bit k 1 :: u64) n \<longleftrightarrow> n = k" if "k < 64" for k
    using that by (auto simp: bit_simps)
  have flags: "bit DART_PTE_VALID n \<longleftrightarrow> n = 0" "bit DART_PTE_SP_DIS n \<longleftrightarrow> n = 1"
    "bit DART_PTE_NO_WRITE n \<longleftrightarrow> n = 7" "bit DART_PTE_NO_READ n \<longleftrightarrow> n = 8"
    unfolding DART_PTE_VALID_def DART_PTE_SP_DIS_def DART_PTE_NO_WRITE_def DART_PTE_NO_READ_def
    using one [of 0] one [of 1] one [of 7] one [of 8] by simp_all
  show ?thesis
    by (auto simp: dart_pte_flags_def Let_def bit_or_iff flags)
qed

lemma dart_pte_flags_ok: "flags_ok (dart_pte_flags f)"
  unfolding flags_ok_def
  by (auto simp: dart_pte_flags_bits bit_paddr_mask bit_and_iff intro!: bit_word_eqI)

definition window :: "u64 \<Rightarrow> u64" where
  "window iova = iova AND DART_IAS_MASK"

text \<open>C2. C28: a domain maps a range. Once the call succeeds (or only the TLB stayed busy) every
  address of the range, whole pages from its start, translates to the physical address at the same
  offset, with the permissions asked for; no other address translates differently, whatever the
  call returns.\<close>

theorem domain_map_translates:
  assumes "space_ok E s" and "good_range (ptable s) (window iova) len"
    and "page_bytes (ptable s) dvd unat paddr" and "unat paddr + unat len \<le> 2 ^ 36"
    and "unat x < 2 ^ 32" and "domain_map E iova paddr len flags s = (r, s')"
  shows "space_ok E s' \<and>
    (if \<not> in_range (ptable s) (window iova) len x then hw_translate s' x = hw_translate s x
     else r = Inr () \<or> r = Inl Busy \<longrightarrow>
       hw_translate s' x = Some (paddr + (x - window iova)) \<and>
       hw_readable s' x = flag_read flags \<and> hw_writable s' x = flag_write flags)"
proof -
  obtain q u where m: "map_contiguous E (window iova) paddr len (dart_pte_flags flags) s = (q, u)"
    by fastforce
  note c = map_contiguous_translates [OF assms(1,2) dart_pte_flags_ok assms(3,4,5) m]
  show ?thesis
  proof (cases q)
    case (Inl e)
    then have "r = Inl MapFailed" "s' = u"
      using assms(6) m by (simp_all add: domain_map_def try_bind_def map_error_def window_def)
    with c show ?thesis by simp
  next
    case (Inr unit)
    then have "sync_page_tables E u = (r, s')"
      using assms(6) m by (simp add: domain_map_def try_bind_def map_error_def window_def)
    then obtain k g where "s' = u\<lparr>dregs := g, polls := k\<rparr>"
      by (rule sync_state)
    with c Inr show ?thesis
      by (simp add: dart_pte_flags_bits)
  qed
qed

text \<open>Errors of the pages of a loop are renamed, and the loop is the one the interpretation covers.\<close>

lemma for_each_map_error:
  "for_each (\<lambda>x. map_error h (f x)) xs = map_error h (for_each f xs)"
  by (induction xs) (simp_all add: map_error_bind, simp add: fun_eq_iff map_error_apply)

lemma hw_translate_zero: "entry s (slot (ptable s) x) = 0 \<Longrightarrow> hw_translate s x = None"
  by (simp add: hw_translate_entry pte_valid_def)

text \<open>C6. C29: a domain unmaps a range: none of its addresses translates afterwards, and no other
  address translates differently, whatever the call returns.\<close>

theorem domain_unmap_clears:
  assumes "space_ok E s" and "good_range (ptable s) (window iova) len"
    and "unat x < 2 ^ 32" and "domain_unmap E iova len s = (r, s')"
  shows "space_ok E s' \<and>
    (if \<not> in_range (ptable s) (window iova) len x then hw_translate s' x = hw_translate s x
     else r = Inr () \<or> r = Inl Busy \<longrightarrow> hw_translate s' x = None)"
proof -
  let ?t = "ptable s" let ?v = "window iova"
  have g: "geometry_ok ?t" and t: "table_state E ?t s"
    using assms(1) by (simp_all add: space_ok_def table_state_def)
  obtain q u where loop: "for_each (\<lambda>i. unmap_page E (nth_page ?t ?v i)) [0..<div_ceil (unat len) (page_bytes ?t)] s = (q, u)"
    by fastforce
  have run: "domain_unmap E iova len s =
      (case q of Inl _ \<Rightarrow> (Inl UnmapFailed, u) | Inr _ \<Rightarrow> sync_page_tables E u)"
    using loop
    by (simp add: domain_unmap_def for_each_map_error unat_page_size [OF g] try_bind_apply map_error_apply
        Let_def window_def nth_page_def split: sum.splits)
  have t': "table_state E ?t u"
    by (rule page_unmapper.loop_valid [OF t loop])
  then have sh: "shape (ptable u) = shape ?t" and ok: "space_ok E u"
    by (simp_all add: table_state_def)
  have other: "hw_translate u x = hw_translate s x" if "\<not> in_range ?t ?v len x"
  proof (rule hw_translate_cong [OF sh])
    show "entry u (slot ?t x) = entry s (slot ?t x)"
      by (rule page_unmapper.loop_other [OF t loop])
        (use that in_range_page [OF g assms(2,3)] in auto)
  qed
  have gone: "hw_translate u x = None" if ins: "in_range ?t ?v len x" "q = Inr ()"
  proof -
    obtain i where i: "i < div_ceil (unat len) (page_bytes ?t)" "slot ?t x = slot ?t (nth_page ?t ?v i)"
      using ins(1) in_range_page [OF g assms(2,3)] by auto
    then have "entry u (slot ?t x) = 0"
      using page_unmapper.loop_sets [OF t loop [unfolded ins(2)] range_slots_distinct [OF g assms(2)], of i]
      by simp
    then show ?thesis
      by (simp add: hw_translate_zero shape_cong [OF sh])
  qed
  show ?thesis
  proof (cases q)
    case (Inl e)
    then show ?thesis
      using run assms(4) other ok by auto
  next
    case (Inr unit)
    then have "sync_page_tables E u = (r, s')"
      using run assms(4) by simp
    then obtain k g' where "s' = u\<lparr>dregs := g', polls := k\<rparr>"
      by (rule sync_state)
    with other gone ok Inr show ?thesis
      by simp
  qed
qed

section \<open>A table the driver owns\<close>

text \<open>The states of a table that was allocated by the driver and then mapped and unmapped.\<close>

inductive dart_owned :: "dart_env \<Rightarrow> dart_space \<Rightarrow> bool" for E where
  fresh: "new_for_page_shift E shift (m :: dart_memory) = (Inr t, m') \<Longrightarrow> shift < 16 \<Longrightarrow> 4096 dvd cpu_page_size E \<Longrightarrow>
    cpu_page_size E < 2 ^ 64 \<Longrightarrow> 0 < cpu_page_size E \<Longrightarrow> kernel_ok E (2 ^ shift) \<Longrightarrow>
    (\<forall>n pages x. allocs m \<le> n \<longrightarrow> table_pages E (2 ^ shift) n = Some pages \<longrightarrow> x < 2 ^ shift \<longrightarrow>
       cells m (unat (cp_paddr pages) + x) = 0) \<Longrightarrow>
    dart_owned E (with_table m' t)"
| mapped: "dart_owned E s \<Longrightarrow> map_page E iova paddr flags s = (r, s') \<Longrightarrow> dart_owned E s'"
| unmapped: "dart_owned E s \<Longrightarrow> unmap_page E iova s = (r, s') \<Longrightarrow> dart_owned E s'"

inductive_cases dart_ownedE: "dart_owned E s"

text \<open>A fresh table.\<close>

lemma page_shift_bound:
  assumes "4096 dvd p" "p < 2 ^ 64" "0 < p"
  shows "12 \<le> length (takeWhile (\<lambda>i. \<not> bit (p :: nat) i) [0..<64])"
proof -
  have "take_bit 12 p = 0"
    using assms(1) by (simp add: take_bit_eq_mod)
  then have "\<not> bit (take_bit 12 p) i" for i by simp
  then have lo: "\<not> bit p i" if "i < 12" for i
    using that by (simp add: bit_take_bit_iff)
  have "[0..<64] = [0..<12] @ [12..<64]"
    using upt_add_eq_append [of 0 12 52] by simp
  moreover have "\<forall>i\<in>set [0..<12]. \<not> bit p i"
    using lo by simp
  ultimately have "takeWhile (\<lambda>i. \<not> bit p i) [0..<64] = [0..<12] @ takeWhile (\<lambda>i. \<not> bit p i) [12..<64]"
    by (metis takeWhile_append2)
  then have "length (takeWhile (\<lambda>i. \<not> bit p i) [0..<64]) =
      12 + length (takeWhile (\<lambda>i. \<not> bit p i) [12..<64])"
    by (simp only: length_append length_upt)
  then show ?thesis by linarith
qed

lemma geometry_valid:
  assumes "geometry E shift = Inr (bits, levels, count, sz)" and "shift < 16"
    and "4096 dvd cpu_page_size E" "cpu_page_size E < 2 ^ 64" "0 < cpu_page_size E"
    and t: "bits_per_level t = bits" "table_levels t = levels" "pte_count t = count" "table_size t = sz"
      "pt_page_shift t = shift"
  shows "geometry_ok t" "sz = 2 ^ shift"
proof -
  have "12 \<le> shift"
    using assms(1) page_shift_bound [OF assms(3-5)] by (simp add: geometry_def split: if_splits)
  with assms(2) have "shift = 12 \<or> shift = 13 \<or> shift = 14 \<or> shift = 15"
    by auto
  moreover have "bits = shift - 3" "levels = max 2 (div_ceil (32 - shift) (shift - 3))"
      "count = 2 ^ shift div 8" "sz = 2 ^ shift"
    using assms(1) by (auto simp: geometry_def DART_PTE_SIZE_SHIFT_def DART_IAS_BITS_def Let_def split: if_splits)
  ultimately show "geometry_ok t" "sz = 2 ^ shift"
    unfolding geometry_ok_def t by (auto simp: div_ceil_def)
qed

lemma empty_root_walk:
  assumes "\<And>i. i < c \<Longrightarrow> m (root + i * 8) = 0" and "\<forall>i\<in>set is. i < c" and "is \<noteq> []"
  shows "walk m root is = None"
  using assms by (cases "is") (auto simp: pte_valid_def)

lemma fresh_table_ok:
  assumes new: "new_for_page_shift E shift m = (Inr t, m')" and "shift < 16"
    and "4096 dvd cpu_page_size E" "cpu_page_size E < 2 ^ 64" "0 < cpu_page_size E"
    and k: "kernel_ok E (2 ^ shift)"
    and zero: "\<And>n pages x. allocs m \<le> n \<Longrightarrow> table_pages E (2 ^ shift) n = Some pages \<Longrightarrow> x < 2 ^ shift \<Longrightarrow>
       cells m (unat (cp_paddr pages) + x) = 0"
  shows "space_ok E (with_table m' t)" "tables_known (with_table m' t)" "table_size t = 2 ^ shift"
    "entry (with_table m' t) = (\<lambda>_. 0)"
proof -
  obtain bits levels count sz where geo: "geometry E shift = Inr (bits, levels, count, sz)"
    using new by (auto simp: new_for_page_shift_def split: sum.splits)
  obtain root where root: "table_pages E sz (allocs m) = Some root"
    and t: "t = \<lparr>root_vaddr = cp_vaddr root, root_paddr = cp_paddr root, tables = [], firmware_tables = [],
        pt_page_shift = shift, bits_per_level = bits, table_levels = levels, pte_count = count, table_size = sz\<rparr>"
    and m': "m' = m\<lparr>allocs := allocs m + 1\<rparr>"
    using new geo
    by (auto simp: new_for_page_shift_def try_bind_def allocate_table_def table_pages_def Let_def split: option.splits)
  have g: "geometry_ok t" and sz: "sz = 2 ^ shift"
    using geometry_valid [OF geo assms(2-5), of t] by (simp_all add: t)
  let ?s = "with_table m' t" let ?r = "unat (cp_paddr root)"
  have small: "i * 8 < 2 ^ shift" if "i < count" for i
    using that g by (auto simp: geometry_ok_def t sz)
  have rz: "cells m (?r + i * 8) = 0" if "i < count" for i
    using zero [of "allocs m" root] root small [OF that] by (simp add: sz)
  have walks: "walk (cells m) ?r is = (if is = [] then Some ?r else None)" if "good_path t is" for "is"
    using empty_root_walk [of count "cells m" ?r "is"] rz that
    by (auto simp: good_path_def below_count_def t)
  have f: "ptable ?s = t" "cells ?s = cells m" "allocs ?s = allocs m + 1" "root_paddr t = cp_paddr root"
    "table_size t = sz" "pte_count t = count"
    by (simp_all add: with_table_def m' t)
  show "space_ok E ?s"
    unfolding space_ok_def f
  proof (intro conjI)
    show "tree_ok (cells m) t"
      using walks k root by (auto simp: tree_ok_def f kernel_ok_def sz split: if_splits)
    show "fresh_ok E (allocs m + 1) (cells m) t"
      unfolding fresh_ok_def f
    proof (intro allI impI conjI)
      fix n pages i
      assume "allocs m + 1 \<le> n" "table_pages E sz n = Some pages" "i < count"
      then show "cells m (unat (cp_paddr pages) + i * 8) = 0"
        using zero [of n pages] small by (simp add: sz)
    next
      fix n pages "is"
      assume n: "allocs m + 1 \<le> n" "table_pages E sz n = Some pages" and good: "good_path t is"
      have "n \<noteq> allocs m"
        using n by simp
      then have "cp_paddr pages \<noteq> cp_paddr root"
        using k root n(2) unfolding kernel_ok_def sz by blast
      then show "walk (cells m) ?r is \<noteq> Some (unat (cp_paddr pages))"
        by (simp add: walks [OF good] word_unat_eq_iff)
    qed
    show "views_ok E t"
      using k root by (simp add: views_ok_def t kernel_ok_def sz)
  qed (use k g sz in simp_all)
  show "tables_known ?s"
    using walks by (auto simp: tables_known_def f mapped_table_vaddr_def split: if_splits)
  show "table_size t = 2 ^ shift"
    by (simp add: f sz)
  show "entry ?s = (\<lambda>_. 0)"
  proof
    fix ks
    show "entry ?s ks = 0"
    proof (cases "length ks = table_levels t \<and> below_count t ks")
      case True
      then have "good_path t (butlast ks)" "butlast ks \<noteq> []"
        using g by (cases ks rule: rev_cases; auto simp: good_path_def below_count_def geometry_ok_def)+
      then show ?thesis
        by (simp add: entry_def f walks)
    qed (auto simp: entry_def f)
  qed
qed

text \<open>The walk of \<open>translate_iova\<close> finds the table the hardware finds.\<close>

lemma translate_walk_agrees:
  assumes "space_ok E s" and "tables_known s"
    and "good_path (ptable s) (K @ map (table_index (ptable s) iova) ls)" and "reached E s K v"
  shows "(translate_walk E iova ls v s = None \<longrightarrow>
      walk (cells s) (unat (root_paddr (ptable s))) (K @ map (table_index (ptable s) iova) ls) = None) \<and>
    (\<forall>v'. translate_walk E iova ls v s = Some v' \<longrightarrow> reached E s (K @ map (table_index (ptable s) iova) ls) v')"
  using assms
proof (induction ls arbitrary: K v)
  case (Cons level ls)
  let ?t = "ptable s" let ?j = "table_index ?t iova level" let ?K = "K @ [?j]"
  have g: "geometry_ok ?t" and views: "views_ok E ?t"
    using Cons.prems(1) by (simp_all add: space_ok_def)
  have K: "good_path ?t ?K"
    using Cons.prems(3) good_path_append [of ?t ?K] by simp
  obtain P where P: "walk (cells s) (unat (root_paddr ?t)) K = Some P" and at: "at_table E (table_size ?t) v P"
    using Cons.prems(4) by (auto simp: reached_def)
  have pte: "read_pte E v ?j s = cells s (P + ?j * 8)"
    by (rule read_pte_at [OF at entry_small [OF g index_bounds(1) [OF g]]])
  show ?case
  proof (cases "pte_valid (cells s (P + ?j * 8))")
    case False
    then show ?thesis
      using P by (simp add: pte pte_valid_def walk_append)
  next
    case True
    let ?q = "pte_to_paddr (cells s (P + ?j * 8))"
    have w: "walk (cells s) (unat (root_paddr ?t)) ?K = Some (unat ?q)"
      using P True by (simp add: walk_append)
    then have "mapped_table_vaddr ?t ?q \<noteq> None"
      using Cons.prems(2) K by (force simp: tables_known_def)
    then obtain v' where v': "mapped_table_vaddr ?t ?q = Some v'" by auto
    then have "reached E s ?K v'"
      using w mapped_table_view [OF views v'] by (simp add: reached_def)
    then show ?thesis
      using Cons.IH [of ?K v'] Cons.prems(1-3) True v' by (simp add: pte pte_valid_def)
  qed
qed simp

lemma dart_owned_ok: "dart_owned E s \<Longrightarrow> space_ok E s \<and> tables_known s"
proof (induction rule: dart_owned.induct)
  case (fresh shift m t m')
  then show ?case
    using fresh_table_ok(1,2) [OF fresh(1-6)] by blast
next
  case (mapped s iova paddr flags r s')
  then show ?case
    using map_page_entries by blast
next
  case (unmapped s iova r s')
  then show ?case
    using unmap_page_entries by blast
qed

text \<open>C5. C30: on a table the driver owns, its software walk \<open>translate_iova\<close> is the walk of the
  hardware through physical memory, for every address and after any sequence of maps and unmaps.\<close>

theorem dart_software_walk:
  assumes "dart_owned E s"
  shows "translate_iova E iova s = hw_translate s iova"
proof -
  let ?t = "ptable s"
  have ok: "space_ok E s" and known: "tables_known s"
    using dart_owned_ok [OF assms] by auto
  have g: "geometry_ok ?t"
    using ok by (simp add: space_ok_def)
  let ?v = "translate_walk E iova (rev [1..<table_levels ?t]) (root_vaddr ?t) s"
  have agree: "?v = None \<Longrightarrow> walk (cells s) (unat (root_paddr ?t)) (path ?t iova) = None"
    "?v = Some v' \<Longrightarrow> reached E s (path ?t iova) v'" for v'
    using translate_walk_agrees [OF ok known _ root_reached [OF ok], of iova "rev [1..<table_levels ?t]"]
      path_good(1) [OF g, of iova] by (simp_all add: path_def)
  show ?thesis
  proof (cases ?v)
    case None
    with agree show ?thesis
      by (simp add: translate_iova_def hw_translate_zero entry_missing)
  next
    case (Some v)
    then obtain P where P: "walk (cells s) (unat (root_paddr ?t)) (path ?t iova) = Some P"
      and at: "at_table E (table_size ?t) v P"
      using agree by (auto simp: reached_def)
    have "entry s (slot ?t iova) = cells s (P + leaf_index ?t iova * 8)"
      using entry_snoc [of "path ?t iova" s "leaf_index ?t iova"] path_good [OF g, of iova]
        index_bounds(2) [OF g, of iova] P
      by (simp add: slot_def good_path_def below_count_def)
    then show ?thesis
      using Some read_pte_at [OF at entry_small [OF g index_bounds(2) [OF g]], of iova s]
      by (simp add: translate_iova_def hw_translate_entry pte_valid_def Let_def)
  qed
qed

section \<open>Streams\<close>

text \<open>The registers that say what a stream may access.\<close>

definition stream_registers :: "nat \<Rightarrow> nat set" where
  "stream_registers sid = insert (DART_TCR + sid * 4) (dart_ttbr_offset sid ` {..<DART_TTBR_COUNT})"

lemma invalidate_registers:
  assumes "DART_TCR \<le> a"
  shows "dregs (snd (invalidate_all_tlbs E s)) a = dregs s a"
proof -
  obtain r s' where run: "invalidate_all_tlbs E s = (r, s')" by fastforce
  then show ?thesis
    using assms poll_idle_state [of E _ _ r s']
    by (fastforce simp: invalidate_all_tlbs_def write32_def DART_TCR_def DART_STREAM_COMMAND_def
        DART_STREAM_SELECT_def)
qed

lemma enable_translation_registers:
  assumes "DART_TCR \<le> a"
  shows "dregs (enable_translation E sid root n s) a =
    (if a = DART_TCR + sid * 4 then DART_TCR_TRANSLATE_ENABLE
     else if a = dart_ttbr_offset sid 0 then ucast (drop_bit 12 root) OR DART_TTBR_VALID
     else dregs s a)"
  using assms
  by (simp add: enable_translation_def invalidate_registers set_tcr_def set_ttbr_def write32_def
      enable_streams_def DART_ENABLE_STREAMS_def DART_TCR_def)

lemma ttbr_roundtrip:
  assumes "r (dart_ttbr_offset sid 0) = ucast (drop_bit 12 paddr) OR DART_TTBR_VALID"
    and "4096 dvd unat paddr" and "unat paddr < 2 ^ 43"
  shows "ttbr_paddr sid r = Some paddr"
proof -
  have hi: "bit paddr i \<Longrightarrow> i < 43" for i
    using small_word_bits [of paddr 43 i] assms(3) by (simp add: word_less_nat_alt)
  have lo: "bit paddr i \<Longrightarrow> 12 \<le> i" for i
    using aligned_bits [of 12 paddr i] assms(2) by (auto simp: not_less [symmetric])
  have valid: "bit DART_TTBR_VALID i \<longleftrightarrow> i = 31" for i
    unfolding DART_TTBR_VALID_def by (auto simp only: bit_push_bit_iff bit_1_iff) auto
  let ?v = "ucast (drop_bit 12 paddr) OR DART_TTBR_VALID :: u32"
  have "bit ?v 31"
    by (simp add: DART_TTBR_VALID_def bit_simps)
  then have "?v AND DART_TTBR_VALID \<noteq> 0"
    using and_flag_iff [where 'a = 32, of 31 ?v] by (simp add: DART_TTBR_VALID_def)
  moreover have "push_bit 12 (ucast (?v AND NOT DART_TTBR_VALID)) = paddr"
    by (rule bit_word_eqI)
      (use lo in \<open>auto simp: bit_simps valid dest: hi\<close>)
  ultimately show ?thesis
    by (simp add: ttbr_paddr_def assms(1) Let_def)
qed

lemma ttbr_offset_above: "DART_TCR \<le> dart_ttbr_offset sid i" "DART_TCR \<le> DART_TCR + n"
  by (simp_all add: dart_ttbr_offset_def DART_TCR_def DART_TTBR_def)


text \<open>C32: an instance whose parameters report an eight-bit stream identifier accepts stream 64,
  and detaching it invalidates the page table of stream 0: its control register is the first page
  table register.\<close>

theorem stream_64_overlaps:
  assumes "drop_bit 20 (regs0 DART_PARAMS1) AND 0xf = 8" and "firmware_stream s = None"
    and "detach_stream (dart_instance_new regs0) \<lparr>stream_id = 64, substream_id = None\<rparr> s = (r, s')"
  shows "r = Inr () \<and> ttbr_paddr 0 (dregs s') = None"
proof -
  have "num_streams (dart_instance_new regs0) = 256"
    using assms(1) by (simp add: dart_instance_new_def Let_def)
  then have "validate_stream (dart_instance_new regs0) \<lparr>stream_id = 64, substream_id = None\<rparr> = Inr 64"
    by (simp add: validate_stream_def)
  then show ?thesis
    using assms(2,3)
    by (auto simp: detach_stream_def disable_translation_def set_tcr_def write32_def ttbr_paddr_def
        dart_ttbr_offset_def DART_TCR_def DART_TTBR_def Let_def)
qed

section \<open>Mapping succeeds\<close>

text \<open>On a table whose tables are all known, mapping can only fail for want of pages.\<close>

definition pages_left :: "dart_env \<Rightarrow> 'z dart_space_scheme \<Rightarrow> nat \<Rightarrow> bool" where
  "pages_left E s k \<longleftrightarrow>
     (\<forall>n. allocs s \<le> n \<longrightarrow> n < allocs s + k \<longrightarrow> table_pages E (table_size (ptable s)) n \<noteq> None)"

lemma map_level_succeeds:
  assumes ok: "space_ok E s" and K: "good_path (ptable s) (K @ [table_index (ptable s) iova level])"
    and v: "reached E s K v" and known: "tables_known s" and left: "pages_left E s (Suc k)"
    and run: "map_level E iova level v s = (r, s')"
  shows "(\<exists>v'. r = Inr v') \<and> pages_left E s' k"
proof -
  let ?t = "ptable s" let ?j = "table_index ?t iova level"
  have g: "geometry_ok ?t"
    using ok by (simp add: space_ok_def)
  obtain P where P: "walk (cells s) (unat (root_paddr ?t)) K = Some P" and at: "at_table E (table_size ?t) v P"
    using v by (auto simp: reached_def)
  have small: "?j * 8 < table_size ?t"
    using entry_small [OF g index_bounds(1) [OF g]] .
  have pte: "read_pte E v ?j s = cells s (P + ?j * 8)"
    by (rule read_pte_at [OF at small])
  show ?thesis
  proof (cases "pte_valid (cells s (P + ?j * 8))")
    case True
    then have "walk (cells s) (unat (root_paddr ?t)) (K @ [?j]) = Some (unat (pte_to_paddr (cells s (P + ?j * 8))))"
      using P by (simp add: walk_append)
    then have "mapped_table_vaddr ?t (pte_to_paddr (cells s (P + ?j * 8))) \<noteq> None"
      using known K by (force simp: tables_known_def)
    then show ?thesis
      using run True left by (auto simp: map_level_def pte pte_valid_def try_bind_def map_firmware_table_def pages_left_def)
  next
    case False
    obtain pages where "table_pages E (table_size ?t) (allocs s) = Some pages"
      using left by (auto simp: pages_left_def)
    then have "r = Inr (cp_vaddr pages)" "allocs s' = allocs s + 1" "table_size (ptable s') = table_size ?t"
      using run False
      by (auto simp: map_level_def pte pte_valid_def try_bind_def allocate_table_def table_pages_def
          write_pte_def Let_def)
    then show ?thesis
      using left by (simp add: pages_left_def)
  qed
qed

lemma map_walk_succeeds:
  assumes "space_ok E s" and "good_path (ptable s) (K @ map (table_index (ptable s) iova) ls)"
    and "reached E s K v" and "tables_known s" and "pages_left E s (length ls)"
    and "map_walk E iova ls v s = (r, s')"
  shows "\<exists>v'. r = Inr v'"
  using assms
proof (induction ls arbitrary: K v s)
  case (Cons level ls)
  let ?K = "K @ [table_index (ptable s) iova level]"
  obtain q u where step: "map_level E iova level v s = (q, u)"
    by fastforce
  have K: "good_path (ptable s) ?K"
    using Cons.prems(2) good_path_append [of _ ?K] by simp
  note u = map_level_ok [OF Cons.prems(1) K Cons.prems(3) step]
  obtain v' where q: "q = Inr v'" and left: "pages_left E u (length ls)"
    using map_level_succeeds [OF Cons.prems(1) K Cons.prems(3,4) _ step] Cons.prems(5) by auto
  have sh: "shape (ptable u) = shape (ptable s)" and "tables_known u"
    using u(2) Cons.prems(4) by (simp_all add: keeps_pages_def)
  then show ?case
    using Cons.IH [of u ?K v'] u q left step Cons.prems(2,6) by (simp add: shape_cong [OF sh])
qed auto

lemma map_page_succeeds:
  assumes ok: "space_ok E s" and known: "tables_known s" and left: "pages_left E s (table_levels (ptable s) - 1)"
  shows "fst (map_page E iova paddr flags s) = Inr ()"
proof -
  obtain q u where w: "map_walk E iova (rev [1..<table_levels (ptable s)]) (root_vaddr (ptable s)) s = (q, u)"
    by fastforce
  have g: "geometry_ok (ptable s)"
    using ok by (simp add: space_ok_def)
  have "\<exists>v'. q = Inr v'"
    using map_walk_succeeds [OF ok _ root_reached [OF ok] known _ w] path_good(1) [OF g, of iova] left
    by (simp add: path_def)
  with w show ?thesis
    by (auto simp: map_page_def try_bind_def)
qed

section \<open>A concrete instance\<close>

text \<open>A kernel that hands out 4 KB pages one after the other, and maps them where they are.\<close>

definition example_env :: dart_env where
  "example_env = \<lparr>cpu_page_size = 4096,
     new_aligned = (\<lambda>n pages align. if pages = 1 \<and> align = 4096 \<and> n < 1000
       then Some \<lparr>cp_vaddr = (n + 1) * 4096, cp_paddr = of_nat ((n + 1) * 4096)\<rparr> else None),
     memremap_normal = (\<lambda>paddr n. Inl ''not mapped''), vtop = (\<lambda>v. v), stream_command = (\<lambda>_. 0)\<rparr>"

definition example_memory :: dart_memory where
  "example_memory = \<lparr>dregs = (\<lambda>_. 0), polls = 0, cells = (\<lambda>_. 0), allocs = 0\<rparr>"

definition example_table :: dart_page_table where
  "example_table = \<lparr>root_vaddr = 4096, root_paddr = 4096, tables = [], firmware_tables = [],
     pt_page_shift = 12, bits_per_level = 9, table_levels = 3, pte_count = 512, table_size = 4096\<rparr>"

definition example_space :: dart_space where
  "example_space = \<lparr>dregs = (\<lambda>_. 0), polls = 0, cells = (\<lambda>_. 0), allocs = 1, ptable = example_table\<rparr>"

definition example_domain :: dart_domain where
  "example_domain = dart_space.extend example_space \<lparr>attached_streams = [], firmware_stream = None\<rparr>"

lemma example_pages:
  "table_pages example_env 4096 n =
     (if n < 1000 then Some \<lparr>cp_vaddr = (n + 1) * 4096, cp_paddr = of_nat ((n + 1) * 4096)\<rparr> else None)"
  by (simp add: table_pages_def example_env_def div_ceil_def)

lemma example_view [simp]: "at_table example_env n v p \<longleftrightarrow> n = 0 \<or> v = p"
  by (auto simp: at_table_def example_env_def)

lemma example_kernel: "kernel_ok example_env (2 ^ 12)"
proof -
  have u: "unat (of_nat ((n + 1) * 4096) :: u64) = (n + 1) * 4096" if "n < 1000" for n
    using that by (intro unat_of_nat_small) simp
  have ne: "(of_nat ((n + 1) * 4096) :: u64) \<noteq> of_nat ((k + 1) * 4096)" if "n < 1000" "k < 1000" "n \<noteq> k" for n k
    using u [OF that(1)] u [OF that(2)] that(3) by (metis add_right_imp_eq mult_cancel2 zero_neq_numeral)
  have pages: "sz dvd unat (cp_paddr p) \<and> unat (cp_paddr p) < 2 ^ 36 \<and> cp_vaddr p = unat (cp_paddr p)"
    if "table_pages example_env 4096 n = Some p" "sz = 4096" for n p sz
    using that u [of n] by (auto simp: example_pages simp del: of_nat_add of_nat_mult split: if_splits)
  have remap: "memremap_normal example_env q 4096 \<noteq> Inr v" for q v
    by (simp add: example_env_def)
  show ?thesis
    unfolding kernel_ok_def
    using pages remap ne by (auto simp: example_pages simp del: of_nat_add of_nat_mult split: if_splits)
qed

lemma example_geometry: "geometry example_env 12 = Inr (9, 3, 512, 4096)"
proof -
  have b: "bit (4096 :: nat) i \<longleftrightarrow> i = 12" for i
    using bit_exp_iff [where 'a = nat, of 12 i] by simp
  have split: "[0..<64] = [0..<12] @ 12 # [13..<64]"
    using upt_add_eq_append [of 0 12 52] upt_conv_Cons [of 12 64] by simp
  have "takeWhile (\<lambda>i. \<not> bit (4096 :: nat) i) ([0..<12] @ 12 # [13..<64]) = [0..<12]"
    by (subst takeWhile_append2) (auto simp only: b takeWhile.simps append_Nil2 set_upt, simp_all)
  then have "length (takeWhile (\<lambda>i. \<not> bit (4096 :: nat) i) [0..<64]) = 12"
    unfolding split by simp
  then show ?thesis
    by (simp add: geometry_def example_env_def DART_PTE_SIZE_SHIFT_def DART_IAS_BITS_def div_ceil_def del: upt_rec_numeral)
qed

lemma example_new: "new_for_page_shift example_env 12 example_memory = (Inr example_table, example_memory\<lparr>allocs := 1\<rparr>)"
proof -
  have "allocate_table example_env 4096 example_memory =
      (Inr \<lparr>cp_vaddr = 4096, cp_paddr = 4096\<rparr>, example_memory\<lparr>allocs := 1\<rparr>)"
    using example_pages [of 0] by (simp add: allocate_table_def table_pages_def example_memory_def)
  then show ?thesis
    by (simp add: new_for_page_shift_def example_geometry example_table_def)
qed

lemma example_owned: "dart_owned example_env example_space"
proof -
  have "with_table (example_memory\<lparr>allocs := 1\<rparr>) example_table = example_space"
    by (simp add: with_table_def example_memory_def example_space_def)
  moreover have "dart_owned example_env (with_table (example_memory\<lparr>allocs := 1\<rparr>) example_table)"
    by (rule dart_owned.fresh [OF example_new _ _ _ _ example_kernel])
      (simp_all add: example_env_def example_memory_def)
  ultimately show ?thesis by simp
qed

lemma example_ok: "space_ok example_env example_space" "tables_known example_space"
  by (rule conjunct1 [OF dart_owned_ok [OF example_owned]], rule conjunct2 [OF dart_owned_ok [OF example_owned]])

lemma example_pages_left: "pages_left example_env example_space 2"
proof -
  have "table_pages example_env 4096 n \<noteq> None" if "n < 3" for n
    using that by (subst example_pages) simp
  then show ?thesis
    by (simp add: pages_left_def example_space_def example_table_def)
qed

theorem dart_map_page_translates_witness:
  "hw_translate (snd (map_page example_env 0x3000 0x8000 3 example_space)) 0x3123 = Some 0x8123"
proof -
  have ok: "fst (map_page example_env 0x3000 0x8000 3 example_space) = Inr ()"
    by (rule map_page_succeeds [OF example_ok])
      (use example_pages_left in \<open>simp_all add: example_space_def example_table_def\<close>)
  have f: "flags_ok 3" by code_simp
  show ?thesis
    using dart_map_page_translates [OF example_ok(1) _ _ _ _ f prod.collapse [symmetric], of "0x3000" "0x3123" "0x8000"] ok
    by (simp add: example_space_def example_table_def page_bytes_def page_of_def)
qed

lemma example_domain_fields:
  "cells example_domain = cells example_space" "allocs example_domain = allocs example_space"
  "ptable example_domain = example_table" "ptable example_space = example_table"
  by (simp_all add: example_domain_def example_space_def dart_space.defs)

lemma example_domain_ok: "space_ok example_env example_domain" "tables_known example_domain"
proof -
  have "views_ok example_env example_table"
    using example_ok(1) by (simp add: space_ok_def example_domain_fields)
  then show "space_ok example_env example_domain"
    using space_ok_cong [OF example_ok(1), of example_domain] by (simp add: example_domain_fields)
  show "tables_known example_domain"
    using example_ok(2) by (simp add: tables_known_def example_domain_fields)
qed

lemma example_range: "good_range example_table 0x5000 0x1000" "window 0x5000 = 0x5000"
  by (simp_all add: good_range_def page_bytes_def example_table_def window_def DART_IAS_MASK_def DART_IAS_BITS_def)

lemma poll_idle_at_once:
  "0 < n \<Longrightarrow> stream_command E (polls s) AND DART_STREAM_COMMAND_BUSY = 0 \<Longrightarrow> fst (poll_idle E n s) = Inr ()"
  by (cases n) (simp_all add: Let_def)

lemma example_ready: "fst (sync_page_tables example_env s) = Inr ()"
  unfolding sync_page_tables_def invalidate_all_tlbs_def
  by (rule poll_idle_at_once) (simp_all add: DART_STREAM_COMMAND_BUSY_TIMEOUT_US_def example_env_def)

theorem domain_map_translates_witness:
  "hw_translate (snd (domain_map example_env 0x5000 0x8000 0x1000 \<lparr>flag_read = True, flag_write = False\<rparr> example_domain))
     0x5123 = Some 0x8123"
proof -
  let ?f = "\<lparr>flag_read = True, flag_write = False\<rparr>"
  have "pages_left example_env example_domain 2"
    using example_pages_left by (simp add: pages_left_def example_domain_fields)
  then have page: "fst (map_page example_env iova paddr flags example_domain) = Inr ()" for iova paddr flags
    by (intro map_page_succeeds [OF example_domain_ok]) (simp add: example_domain_fields example_table_def)
  have "div_ceil 4096 (page_bytes example_table) = 1"
    by (simp add: div_ceil_def page_bytes_def example_table_def)
  then have m: "map_contiguous example_env iova paddr 0x1000 flags example_domain =
      map_page example_env (nth_page example_table iova 0) (nth_page example_table paddr 0) flags example_domain"
    for iova paddr flags
    using map_contiguous_loop [of example_domain] example_domain_ok(1) page
    by (simp add: space_ok_def example_domain_fields try_bind_apply split: prod.split sum.split)
  then have "fst (map_contiguous example_env iova paddr 0x1000 flags example_domain) = Inr ()" for iova paddr flags
    by (simp add: page)
  then obtain u where "map_contiguous example_env (0x5000 AND DART_IAS_MASK) 0x8000 0x1000 (dart_pte_flags ?f) example_domain = (Inr (), u)"
    by (metis prod.collapse)
  then have ok: "fst (domain_map example_env 0x5000 0x8000 0x1000 ?f example_domain) = Inr ()"
    by (simp add: domain_map_def try_bind_apply map_error_apply example_ready)
  have "in_range example_table 0x5000 0x1000 0x5123"
    by (simp add: in_range_def div_ceil_def page_bytes_def example_table_def)
  then show ?thesis
    using domain_map_translates [OF example_domain_ok(1) _ _ _ _ prod.collapse [symmetric],
      of "0x5000" "0x1000" "0x8000" "0x5123" ?f] ok
    by (simp add: example_domain_fields example_range) (simp add: page_bytes_def example_table_def)
qed

theorem domain_unmap_clears_witness:
  "hw_translate (snd (domain_unmap example_env 0x5000 0x1000 example_domain)) 0x5123 = None"
proof -
  have ps: "page_size example_table = 4096"
    by (simp add: page_size_def example_table_def)
  have zero: "read_pte example_env v i example_domain = 0" for v i
    by (simp add: read_pte_def example_domain_fields) (simp add: example_space_def)
  have "rev [1..<table_levels example_table] = [2, 1]"
    by (simp add: example_table_def upt_rec)
  then have "unmap_page example_env iova example_domain = (Inr (), example_domain)" for iova
    by (simp add: unmap_page_def try_bind_apply example_domain_fields zero Let_def)
  then have ok: "fst (domain_unmap example_env 0x5000 0x1000 example_domain) = Inr ()"
    using example_ready [of example_domain]
    by (simp add: domain_unmap_def Let_def example_domain_fields ps div_ceil_def try_bind_apply map_error_apply)
  have "in_range example_table 0x5000 0x1000 0x5123"
    by (simp add: in_range_def div_ceil_def page_bytes_def example_table_def)
  then show ?thesis
    using domain_unmap_clears [OF example_domain_ok(1) _ _ prod.collapse [symmetric],
      of "0x5000" "0x1000" "0x5123"] ok
    by (simp add: example_domain_fields example_range)
qed

theorem dart_software_walk_witness:
  "translate_iova example_env 0x3123 (snd (map_page example_env 0x3000 0x8000 3 example_space)) =
   hw_translate (snd (map_page example_env 0x3000 0x8000 3 example_space)) 0x3123"
  by (rule dart_software_walk [OF dart_owned.mapped [OF example_owned prod.collapse [symmetric]]])

definition example_params :: dart_params where
  "example_params = \<lparr>page_shift = 12, supports_bypass = False, num_streams = 16\<rparr>"


theorem stream_64_overlaps_witness:
  "ttbr_paddr 0 (dregs (snd (detach_stream (dart_instance_new ((\<lambda>_. 0)(0 := 0x800000)))
     \<lparr>stream_id = 64, substream_id = None\<rparr> example_domain))) = None"
proof -
  have "firmware_stream example_domain = None"
    by (simp add: example_domain_def example_space_def dart_space.defs)
  then show ?thesis
    using stream_64_overlaps [of "(\<lambda>_. 0)(0 := 0x800000)" example_domain, OF _ _ prod.collapse [symmetric]]
    by (simp add: DART_PARAMS1_def)
qed

end
