(* ===== verification/AvParser.thy ===== *)
theory AvParser
  imports LeBytes
begin

text \<open>
  The parser of the audio mode descriptions a display sink reports through the display
  coprocessor (\<open>drivers/display/dcpext/src/av_audio/parser.rs\<close>): serialized objects, each a
  32-bit tag aligned to four bytes with its payload, and the selection of the opaque cookie of a
  requested mode. The recursion of \<open>skip\<close> has a depth that the input chooses; it is bounded here
  by a fuel, and the fuel given is shown to be enough for every input.
\<close>

section \<open>The parser\<close>

definition OSSERIALIZE_MAGIC :: u32 where "OSSERIALIZE_MAGIC = 0xd3"
definition OS_TYPE_DICTIONARY :: nat where "OS_TYPE_DICTIONARY = 1"
definition OS_TYPE_ARRAY :: nat where "OS_TYPE_ARRAY = 2"
definition OS_TYPE_INT64 :: nat where "OS_TYPE_INT64 = 4"
definition OS_TYPE_STRING :: nat where "OS_TYPE_STRING = 9"
definition OS_TYPE_BLOB :: nat where "OS_TYPE_BLOB = 10"
definition OS_TYPE_BOOL :: nat where "OS_TYPE_BOOL = 11"

lemmas os_types = OS_TYPE_DICTIONARY_def OS_TYPE_ARRAY_def OS_TYPE_INT64_def OS_TYPE_STRING_def
  OS_TYPE_BLOB_def OS_TYPE_BOOL_def

record os_tag =
  tag_size :: nat
  tag_kind :: nat

record os_parser =
  input :: bytes
  pos :: nat

type_synonym 'a parse = "(os_parser, string, 'a) stepper"
type_synonym 'a may_parse = "(os_parser, string, 'a) may_step"

definition parser_new :: "bytes \<Rightarrow> string + os_parser" where
  "parser_new bs =
     (if length bs < 4 then Inl ''apple-dcpext: truncated audio elements header''
      else if from_le_bytes (take 4 bs) \<noteq> OSSERIALIZE_MAGIC
      then Inl ''apple-dcpext: invalid audio elements serialization''
      else Inr \<lparr>input = bs, pos = 4\<rparr>)"

definition os_align :: "unit parse" where
  "os_align s =
     (if 2 ^ 64 \<le> pos s + 3 then (Inl ''apple-dcpext: audio elements cursor overflow'', s)
      else let s' = s\<lparr>pos := (pos s + 3) AND (2 ^ 64 - 4)\<rparr>
           in if length (input s') < pos s'
              then (Inl ''apple-dcpext: truncated audio elements padding'', s') else (Inr (), s'))"

definition os_bytes :: "nat \<Rightarrow> bytes parse" where
  "os_bytes count s =
     (let e = pos s + count
      in if 2 ^ 64 \<le> e then (Inl ''apple-dcpext: audio elements cursor overflow'', s)
         else if length (input s) < e \<or> e < pos s
         then (Inl ''apple-dcpext: truncated audio elements object'', s)
         else (Inr (take count (drop (pos s) (input s))), s\<lparr>pos := e\<rparr>))"

definition decode_tag :: "u32 \<Rightarrow> string + os_tag" where
  "decode_tag raw =
     (if drop_bit 29 raw AND 0x3 \<noteq> 0 then Inl ''apple-dcpext: unsupported audio elements tag padding''
      else Inr \<lparr>tag_size = unat (raw AND 0x00ffffff), tag_kind = unat (drop_bit 24 raw AND 0x1f)\<rparr>)"

definition os_tag_read :: "os_tag parse" where
  "os_tag_read =
     try_bind os_align (\<lambda>_. try_bind (os_bytes 4) (\<lambda>bs.
       case decode_tag (from_le_bytes bs) of Inl e \<Rightarrow> err e | Inr t \<Rightarrow> ok t))"

definition expect_tag :: "nat \<Rightarrow> os_tag parse" where
  "expect_tag kind = try_bind os_tag_read (\<lambda>t.
     if tag_kind t \<noteq> kind then err ''apple-dcpext: unexpected audio elements object type'' else ok t)"

definition os_string :: "bytes parse" where
  "os_string = try_bind (expect_tag OS_TYPE_STRING) (\<lambda>t. os_bytes (tag_size t))"

definition os_int64 :: "int parse" where
  "os_int64 = try_bind (expect_tag OS_TYPE_INT64) (\<lambda>_. try_bind (os_bytes 8) (\<lambda>bs.
     ok (sint (from_le_bytes bs :: 64 word))))"

definition blob_cookie :: "bytes parse" where
  "blob_cookie = try_bind (expect_tag OS_TYPE_BLOB) (\<lambda>t. try_bind (os_bytes (tag_size t)) (\<lambda>blob.
     if length blob < 24 then err ''apple-dcpext: short DCP audio cookie'' else ok (take 24 blob)))"

text \<open>\<open>skip\<close>, with the depth its recursion may still take.\<close>

fun repeat_may :: "nat \<Rightarrow> ('s, 'e, unit) may_step \<Rightarrow> ('s, 'e, unit) may_step" where
  "repeat_may 0 m = total_step (ok ())"
| "repeat_may (Suc n) m = may_bind m (\<lambda>_. repeat_may n m)"

fun os_skip :: "nat \<Rightarrow> unit may_parse" where
  "os_skip 0 = (\<lambda>_. None)"
| "os_skip (Suc depth) = may_bind (total_step os_tag_read) (\<lambda>t.
     if tag_kind t = OS_TYPE_DICTIONARY then
       if 2 ^ 64 \<le> tag_size t * 2 then total_step (err ''apple-dcpext: audio dictionary size overflow'')
       else repeat_may (tag_size t * 2) (os_skip depth)
     else if tag_kind t = OS_TYPE_ARRAY then repeat_may (tag_size t) (os_skip depth)
     else if tag_kind t = OS_TYPE_INT64 then total_step (try_bind (os_bytes 8) (\<lambda>_. ok ()))
     else if tag_kind t = OS_TYPE_STRING \<or> tag_kind t = OS_TYPE_BLOB
     then total_step (try_bind (os_bytes (tag_size t)) (\<lambda>_. ok ()))
     else if tag_kind t = OS_TYPE_BOOL then total_step (ok ())
     else total_step (err ''apple-dcpext: unsupported audio elements object type''))"

text \<open>Every nested object takes a tag of four bytes, so the length of the input is depth enough.\<close>

definition skip_object :: "unit may_parse" where
  "skip_object s = os_skip (Suc (length (input s))) s"

definition to_u32 :: "int \<Rightarrow> u32 option" where
  "to_u32 i = (if 0 \<le> i \<and> i < 2 ^ 32 then Some (of_int i) else None)"

text \<open>\<open>parse_channel_layouts\<close>: \<open>layout_pairs\<close> is the loop over the pairs of one layout, with
  \<open>active_channels\<close>; \<open>layouts\<close> the loop over the layouts, with \<open>matches\<close>.\<close>

fun layout_pairs :: "nat \<Rightarrow> u32 option \<Rightarrow> u32 option may_parse" where
  "layout_pairs 0 active = total_step (ok active)"
| "layout_pairs (Suc n) active = may_bind (total_step os_string) (\<lambda>key.
     if key = ascii ''ActiveChannelCount''
     then may_bind (total_step os_int64) (\<lambda>i. layout_pairs n (to_u32 i))
     else may_bind skip_object (\<lambda>_. layout_pairs n active))"

fun layouts :: "u32 \<Rightarrow> nat \<Rightarrow> bool \<Rightarrow> bool may_parse" where
  "layouts wanted 0 found = total_step (ok found)"
| "layouts wanted (Suc n) found = may_bind (total_step (expect_tag OS_TYPE_DICTIONARY)) (\<lambda>t.
     may_bind (layout_pairs (tag_size t) None) (\<lambda>active.
       layouts wanted n (found \<or> active = Some wanted)))"

definition parse_channel_layouts :: "u32 \<Rightarrow> bool may_parse" where
  "parse_channel_layouts wanted =
     may_bind (total_step (expect_tag OS_TYPE_ARRAY)) (\<lambda>t. layouts wanted (tag_size t) False)"

text \<open>What the pairs of an element have said so far.\<close>

record audio_element =
  el_rate :: "u32 option"
  el_bits :: "u32 option"
  el_layout :: bool
  el_cookie :: "bytes option"

fun element_pairs :: "u32 \<Rightarrow> nat \<Rightarrow> audio_element \<Rightarrow> audio_element may_parse" where
  "element_pairs wanted 0 e = total_step (ok e)"
| "element_pairs wanted (Suc n) e = may_bind (total_step os_string) (\<lambda>key.
     if key = ascii ''StreamSampleRate''
     then may_bind (total_step os_int64) (\<lambda>i. element_pairs wanted n (e\<lparr>el_rate := to_u32 i\<rparr>))
     else if key = ascii ''SampleSize''
     then may_bind (total_step os_int64) (\<lambda>i. element_pairs wanted n (e\<lparr>el_bits := to_u32 i\<rparr>))
     else if key = ascii ''AudioChannelLayoutElements''
     then may_bind (parse_channel_layouts wanted) (\<lambda>b. element_pairs wanted n (e\<lparr>el_layout := b\<rparr>))
     else if key = ascii ''ElementData''
     then may_bind (total_step blob_cookie) (\<lambda>c. element_pairs wanted n (e\<lparr>el_cookie := Some c\<rparr>))
     else may_bind skip_object (\<lambda>_. element_pairs wanted n e))"

definition element_result :: "u32 \<Rightarrow> u32 \<Rightarrow> audio_element \<Rightarrow> bytes option" where
  "element_result rate bits e =
     (if el_rate e = Some rate \<and> el_bits e = Some bits \<and> el_layout e then el_cookie e else None)"

definition empty_element :: audio_element where
  "empty_element = \<lparr>el_rate = None, el_bits = None, el_layout = False, el_cookie = None\<rparr>"

definition parse_audio_element :: "u32 \<Rightarrow> u32 \<Rightarrow> u32 \<Rightarrow> bytes option may_parse" where
  "parse_audio_element rate bits channels =
     may_bind (total_step (expect_tag OS_TYPE_DICTIONARY)) (\<lambda>t.
     may_bind (element_pairs channels (tag_size t) empty_element) (\<lambda>e.
     total_step (ok (element_result rate bits e))))"

fun select_loop :: "u32 \<Rightarrow> u32 \<Rightarrow> u32 \<Rightarrow> nat \<Rightarrow> bytes may_parse" where
  "select_loop rate bits channels 0 =
     total_step (err ''apple-dcpext: requested DisplayPort audio mode is unsupported'')"
| "select_loop rate bits channels (Suc n) =
     may_bind (parse_audio_element rate bits channels) (\<lambda>found.
       case found of Some cookie \<Rightarrow> total_step (ok cookie) | None \<Rightarrow> select_loop rate bits channels n)"

definition select_cookie :: "bytes \<Rightarrow> u32 \<Rightarrow> u32 \<Rightarrow> u32 \<Rightarrow> (string + bytes) option" where
  "select_cookie elements rate bits channels =
     (if channels = 0 \<or> 16 < channels then Some (Inl ''apple-dcpext: invalid DisplayPort audio channel count'')
      else case parser_new elements of
        Inl e \<Rightarrow> Some (Inl e)
      | Inr parser \<Rightarrow>
          map_option fst (may_bind (total_step (expect_tag OS_TYPE_ARRAY))
            (\<lambda>t. select_loop rate bits channels (tag_size t)) parser))"

section \<open>Serialized objects\<close>

text \<open>The objects the sink serializes, and their encoding; a tag carries the size of its payload.\<close>

datatype os_object =
    OsDict "(bytes \<times> os_object) list"
  | OsArray "os_object list"
  | OsInt int
  | OsString bytes
  | OsBlob bytes
  | OsBool bool

definition tag_bytes :: "nat \<Rightarrow> nat \<Rightarrow> bytes" where
  "tag_bytes kind sz = le_bytes 4 (push_bit 24 (of_nat kind) OR of_nat sz :: u32)"

definition padded :: "bytes \<Rightarrow> bytes" where
  "padded bs = bs @ replicate ((length bs + 3) div 4 * 4 - length bs) 0"

fun encode :: "os_object \<Rightarrow> bytes" where
  "encode (OsDict ps) = tag_bytes OS_TYPE_DICTIONARY (length ps) @
     concat (map (\<lambda>(k, v). tag_bytes OS_TYPE_STRING (length k) @ padded k @ encode v) ps)"
| "encode (OsArray os) = tag_bytes OS_TYPE_ARRAY (length os) @ concat (map encode os)"
| "encode (OsInt i) = tag_bytes OS_TYPE_INT64 64 @ le_bytes 8 (of_int i :: 64 word)"
| "encode (OsString bs) = tag_bytes OS_TYPE_STRING (length bs) @ padded bs"
| "encode (OsBlob bs) = tag_bytes OS_TYPE_BLOB (length bs) @ padded bs"
| "encode (OsBool b) = tag_bytes OS_TYPE_BOOL (if b then 1 else 0)"

fun encodable :: "os_object \<Rightarrow> bool" where
  "encodable (OsDict ps) \<longleftrightarrow> length ps < 2 ^ 24 \<and> (\<forall>(k, v)\<in>set ps. length k < 2 ^ 24 \<and> encodable v)"
| "encodable (OsArray os) \<longleftrightarrow> length os < 2 ^ 24 \<and> (\<forall>v\<in>set os. encodable v)"
| "encodable (OsInt i) \<longleftrightarrow> - (2 ^ 63) \<le> i \<and> i < 2 ^ 63"
| "encodable (OsString bs) \<longleftrightarrow> length bs < 2 ^ 24"
| "encodable (OsBlob bs) \<longleftrightarrow> length bs < 2 ^ 24"
| "encodable (OsBool b) \<longleftrightarrow> True"

definition document :: "os_object \<Rightarrow> bytes" where
  "document root = le_bytes 4 OSSERIALIZE_MAGIC @ encode root"

section \<open>The cursor\<close>

text \<open>A parse keeps its input, moves its cursor forward only, and never beyond the input.\<close>

definition inside :: "os_parser \<Rightarrow> bool" where
  "inside s \<longleftrightarrow> pos s \<le> length (input s)"

definition forward :: "os_parser \<Rightarrow> os_parser \<Rightarrow> bool" where
  "forward s t \<longleftrightarrow> input t = input s \<and> pos s \<le> pos t"

lemma forward_refl [simp]: "forward s s"
  by (simp add: forward_def)

lemma forward_trans: "forward s t \<Longrightarrow> forward t u \<Longrightarrow> forward s u"
  by (simp add: forward_def)

lemma and_mask_four: "x < 2 ^ 64 \<Longrightarrow> x AND (2 ^ 64 - 4) = x div 4 * (4 :: nat)"
proof -
  assume x: "x < 2 ^ 64"
  have "x AND (2 ^ 64 - 4) = push_bit 2 (drop_bit 2 x)"
  proof (rule bit_eqI)
    fix n
    have m: "(2 ^ 64 - 4 :: nat) = push_bit 2 (mask 62)"
      by (simp add: push_bit_eq_mult mask_eq_exp_minus_1)
    have "bit x n \<Longrightarrow> n < 64"
      using x by (metis bit_take_bit_iff take_bit_nat_eq_self)
    then show "bit (x AND (2 ^ 64 - 4)) n = bit (push_bit 2 (drop_bit 2 x)) n"
      unfolding m
    proof (cases "n < 2")
      case False
      then obtain k where "n = 2 + k"
        by (metis le_Suc_ex not_less)
      then show "bit (x AND push_bit 2 (mask 62)) n = bit (push_bit 2 (drop_bit 2 x)) n"
        using \<open>bit x n \<Longrightarrow> n < 64\<close>
        by (auto simp: bit_and_iff bit_push_bit_iff bit_mask_iff bit_drop_bit_eq)
    qed (simp add: bit_and_iff bit_push_bit_iff)
  qed
  then show ?thesis
    by (simp add: push_bit_eq_mult drop_bit_eq_div)
qed

definition aligned_pos :: "os_parser \<Rightarrow> nat" where
  "aligned_pos s = (pos s + 3) div 4 * 4"

lemma aligned_pos_bounds: "pos s \<le> aligned_pos s" "aligned_pos s < pos s + 4"
  by (simp_all add: aligned_pos_def)

lemma os_align_cases:
  assumes "os_align s = (r, t)" and "inside s"
  shows "input t = input s \<and> (r = Inr () \<longrightarrow> inside t \<and> pos s \<le> pos t \<and> pos t = aligned_pos s)"
  using assms aligned_pos_bounds [of s]
  by (auto simp: os_align_def inside_def Let_def and_mask_four [simplified] aligned_pos_def split: if_splits)

lemma os_bytes_Ok:
  "os_bytes n s = (Inr bs, t) \<Longrightarrow>
   input t = input s \<and> pos t = pos s + n \<and> inside t \<and> length bs = n \<and> bs = take n (drop (pos s) (input s))"
  by (auto simp: os_bytes_def inside_def Let_def split: if_splits)

lemma os_tag_Ok:
  assumes "os_tag_read s = (Inr x, t)" and "inside s"
  shows "inside t" "forward s t" "pos s + 4 \<le> pos t"
proof -
  obtain u where a: "os_align s = (Inr (), u)" and rest: "try_bind (os_bytes 4) (\<lambda>bs.
      case decode_tag (from_le_bytes bs) of Inl e \<Rightarrow> err e | Inr t \<Rightarrow> ok t) u = (Inr x, t)"
    using assms(1) unfolding os_tag_read_def by (auto elim: try_bind_InrE)
  obtain bs where b: "os_bytes 4 u = (Inr bs, t)"
    using rest by (auto elim!: try_bind_InrE split: sum.splits)
  show "inside t" "forward s t" "pos s + 4 \<le> pos t"
    using os_align_cases [OF a assms(2)] os_bytes_Ok [OF b] by (auto simp: forward_def)
qed

text \<open>\<open>moves\<close> holds of the parses that, from inside the input, stay inside and move forward.\<close>

definition moves :: "'a may_parse \<Rightarrow> bool" where
  "moves m \<longleftrightarrow> (\<forall>s x t. inside s \<longrightarrow> m s = Some (Inr x, t) \<longrightarrow> inside t \<and> forward s t)"

named_theorems moves_intros \<open>compositional rules for parses that move forward\<close>

lemma movesD: "moves m \<Longrightarrow> inside s \<Longrightarrow> m s = Some (Inr x, t) \<Longrightarrow> inside t \<and> forward s t"
  unfolding moves_def by blast

lemma moves_bind [moves_intros]: "moves m \<Longrightarrow> (\<And>x. moves (f x)) \<Longrightarrow> moves (may_bind m f)"
  unfolding moves_def
proof (intro allI impI)
  fix s y u
  assume m: "\<forall>s x t. inside s \<longrightarrow> m s = Some (Inr x, t) \<longrightarrow> inside t \<and> forward s t"
    and f: "\<And>x. \<forall>s y t. inside s \<longrightarrow> f x s = Some (Inr y, t) \<longrightarrow> inside t \<and> forward s t"
    and s: "inside s" and run: "may_bind m f s = Some (Inr y, u)"
  obtain x t where "m s = Some (Inr x, t)" "f x t = Some (Inr y, u)"
    by (rule may_bind_OkE [OF run])
  then show "inside u \<and> forward s u"
    using m f [of x] s forward_trans by blast
qed

lemma moves_ok [moves_intros]: "moves (total_step (ok x))"
  by (simp add: moves_def)

lemma moves_err [moves_intros]: "moves (total_step (err e))"
  by (simp add: moves_def)

lemma moves_if [moves_intros]: "moves m \<Longrightarrow> moves n \<Longrightarrow> moves (if b then m else n)"
  by simp

lemma total_bind: "total_step (try_bind m f) = may_bind (total_step m) (\<lambda>x. total_step (f x))"
  by (rule ext) (auto simp: total_step_def try_bind_def may_bind_def split: prod.splits sum.splits)

lemma moves_bytes [moves_intros]: "moves (total_step (os_bytes n))"
  by (auto simp: moves_def forward_def dest!: os_bytes_Ok)

lemma moves_tag [moves_intros]: "moves (total_step os_tag_read)"
  using os_tag_Ok by (auto simp: moves_def)

lemma moves_expect [moves_intros]: "moves (total_step (expect_tag k))"
  unfolding expect_tag_def total_bind if_distrib [of total_step] by (intro moves_intros)

lemma moves_string [moves_intros]: "moves (total_step os_string)"
  unfolding os_string_def total_bind by (intro moves_intros)

lemma moves_int64 [moves_intros]: "moves (total_step os_int64)"
  unfolding os_int64_def total_bind by (intro moves_intros)

lemma moves_cookie [moves_intros]: "moves (total_step blob_cookie)"
  unfolding blob_cookie_def total_bind if_distrib [of total_step] by (intro moves_intros)

lemma moves_repeat [moves_intros]: "moves m \<Longrightarrow> moves (repeat_may n m)"
  by (induction n) (auto intro: moves_intros)

lemma moves_os_skip [moves_intros]: "moves (os_skip d)"
proof (induction d)
  case (Suc d)
  then show ?case
    unfolding os_skip.simps total_bind by (intro moves_intros)
qed (simp add: moves_def)

lemma moves_skip [moves_intros]: "moves skip_object"
  using moves_os_skip unfolding moves_def skip_object_def by blast

section \<open>Every parse returns\<close>

definition returns_inside :: "'a may_parse \<Rightarrow> bool" where
  "returns_inside m \<longleftrightarrow> (\<forall>s. inside s \<longrightarrow> (\<exists>q. m s = Some q))"

lemma returns_total [intro]: "returns_inside (total_step m)"
  by (simp add: returns_inside_def total_step_def)

lemma returns_bind:
  assumes "returns_inside m" and "moves m" and "\<And>x. returns_inside (f x)"
  shows "returns_inside (may_bind m f)"
  unfolding returns_inside_def
proof (intro allI impI)
  fix s
  assume s: "inside s"
  then obtain r t where m: "m s = Some (r, t)"
    using assms(1) unfolding returns_inside_def by (metis surj_pair)
  show "\<exists>q. may_bind m f s = Some q"
  proof (cases r)
    case (Inr x)
    then show ?thesis
      using m assms(3) [of x] movesD [OF assms(2) s] by (auto simp: may_bind_def returns_inside_def)
  qed (simp add: m may_bind_def)
qed

text \<open>The depth that is left is more than the bytes that are left: an object takes a byte.\<close>

lemma repeat_returns:
  assumes "\<And>s. inside s \<Longrightarrow> length (input s) - pos s < d \<Longrightarrow> \<exists>q. m s = Some q" and "moves m"
  shows "inside s \<Longrightarrow> length (input s) - pos s < d \<Longrightarrow> \<exists>q. repeat_may n m s = Some q"
proof (induction n arbitrary: s)
  case (Suc n)
  obtain r t where m: "m s = Some (r, t)"
    using assms(1) [OF Suc.prems] by (metis surj_pair)
  show ?case
  proof (cases r)
    case (Inr x)
    have "inside t" "length (input t) - pos t < d"
      using movesD [OF assms(2) Suc.prems(1)] m Inr Suc.prems(2) by (auto simp: forward_def)
    then show ?thesis
      using Suc.IH m Inr by (auto simp: may_bind_def)
  qed (simp add: m may_bind_def)
qed (simp add: total_step_def)

lemma os_skip_returns: "inside s \<Longrightarrow> length (input s) - pos s < d \<Longrightarrow> \<exists>q. os_skip d s = Some q"
proof (induction d arbitrary: s)
  case (Suc d)
  obtain r t where tag: "os_tag_read s = (r, t)"
    by fastforce
  show ?case
  proof (cases r)
    case (Inl e)
    then show ?thesis
      by (simp add: tag may_bind_def total_step_def)
  next
    case (Inr x)
    note ok = os_tag_Ok [OF tag [unfolded Inr] Suc.prems(1)]
    have "length (input t) - pos t < d"
      using ok Suc.prems by (auto simp: forward_def inside_def)
    then have "\<exists>q. repeat_may n (os_skip d) t = Some q" for n
      using repeat_returns [OF Suc.IH moves_os_skip] ok(1) by blast
    then show ?thesis
      by (auto simp: tag Inr may_bind_def total_step_def)
  qed
qed simp

lemma skip_returns: "returns_inside skip_object"
  unfolding returns_inside_def skip_object_def by (intro allI impI os_skip_returns) auto

lemma layout_pairs_moves [moves_intros]: "moves (layout_pairs n a)"
  by (induction n arbitrary: a) (simp_all only: layout_pairs.simps, (rule moves_intros | assumption)+)

lemma layouts_moves [moves_intros]: "moves (layouts w n b)"
  by (induction n arbitrary: b) (simp_all only: layouts.simps, (rule moves_intros | assumption)+)

lemma channel_layouts_moves [moves_intros]: "moves (parse_channel_layouts w)"
  unfolding parse_channel_layouts_def by (intro moves_intros)

lemma element_pairs_moves [moves_intros]: "moves (element_pairs w n e)"
  by (induction n arbitrary: e) (simp_all only: element_pairs.simps, (rule moves_intros | assumption)+)

lemma audio_element_moves [moves_intros]: "moves (parse_audio_element r b c)"
  unfolding parse_audio_element_def by (intro moves_intros)

lemma layout_pairs_returns: "returns_inside (layout_pairs n a)"
proof (induction n arbitrary: a)
  case (Suc n)
  have "returns_inside (may_bind (total_step os_int64) (\<lambda>i. layout_pairs n (to_u32 i)))"
    "returns_inside (may_bind skip_object (\<lambda>_. layout_pairs n a))"
    using Suc by (auto intro!: returns_bind moves_intros skip_returns)
  then show ?case
    unfolding layout_pairs.simps by (intro returns_bind moves_intros returns_total) simp
qed auto

lemma layouts_returns: "returns_inside (layouts w n b)"
  by (induction n arbitrary: b)
    (auto simp del: expect_tag_def intro!: returns_bind moves_intros layout_pairs_returns)

lemma channel_layouts_returns: "returns_inside (parse_channel_layouts w)"
  unfolding parse_channel_layouts_def by (intro returns_bind moves_intros returns_total layouts_returns)

lemma element_pairs_returns: "returns_inside (element_pairs w n e)"
proof (induction n arbitrary: e)
  case (Suc n)
  have "returns_inside (may_bind (total_step os_int64) (\<lambda>i. element_pairs w n (g i)))"
    "returns_inside (may_bind (parse_channel_layouts w) (\<lambda>b. element_pairs w n (h b)))"
    "returns_inside (may_bind (total_step blob_cookie) (\<lambda>c. element_pairs w n (k c)))"
    "returns_inside (may_bind skip_object (\<lambda>_. element_pairs w n e))" for e g h k
    using Suc by (auto intro!: returns_bind moves_intros skip_returns channel_layouts_returns)
  then show ?case
    unfolding element_pairs.simps by (intro returns_bind moves_intros returns_total) simp
qed auto

lemma audio_element_returns: "returns_inside (parse_audio_element r b c)"
  unfolding parse_audio_element_def
  by (intro returns_bind moves_intros returns_total element_pairs_returns)

lemma select_loop_returns: "returns_inside (select_loop r b c n)"
proof (induction n)
  case (Suc n)
  show ?case
    unfolding select_loop.simps
    by (intro returns_bind audio_element_moves audio_element_returns) (use Suc in \<open>auto split: option.split\<close>)
qed auto

text \<open>What a parse of the input yields.\<close>

definition gives :: "bytes \<Rightarrow> ('a \<Rightarrow> bool) \<Rightarrow> 'a may_parse \<Rightarrow> bool" where
  "gives bs Q m \<longleftrightarrow> (\<forall>s x t. inside s \<longrightarrow> input s = bs \<longrightarrow> m s = Some (Inr x, t) \<longrightarrow> Q x)"

lemma gives_bind:
  assumes "gives bs P m" and "moves m" and "\<And>x. P x \<Longrightarrow> gives bs Q (f x)"
  shows "gives bs Q (may_bind m f)"
  unfolding gives_def
proof (intro allI impI)
  fix s y u
  assume s: "inside s" "input s = bs" and run: "may_bind m f s = Some (Inr y, u)"
  obtain x t where m: "m s = Some (Inr x, t)" and f: "f x t = Some (Inr y, u)"
    by (rule may_bind_OkE [OF run])
  have "P x"
    using assms(1) s m unfolding gives_def by blast
  moreover have "inside t" "input t = bs"
    using movesD [OF assms(2) s(1) m] s(2) by (simp_all add: forward_def)
  ultimately show "Q y"
    using assms(3) f unfolding gives_def by blast
qed

lemma gives_any: "gives bs (\<lambda>_. True) m"
  by (simp add: gives_def)

lemma gives_ok: "Q x \<Longrightarrow> gives bs Q (total_step (ok x))"
  by (simp add: gives_def)

text \<open>A cookie that came out of the input.\<close>

definition cookie_in :: "bytes \<Rightarrow> bytes \<Rightarrow> bool" where
  "cookie_in bs c \<longleftrightarrow> length c = 24 \<and> (\<exists>a b. bs = a @ c @ b)"

lemma gives_cookie: "gives bs (cookie_in bs) (total_step blob_cookie)"
  unfolding gives_def
proof (intro allI impI)
  fix s c u
  assume s: "inside s" "input s = bs" and run: "total_step blob_cookie s = Some (Inr c, u)"
  obtain t v blob where e: "expect_tag OS_TYPE_BLOB s = (Inr t, v)" and b: "\<exists>w. os_bytes (tag_size t) v = (Inr blob, w)"
    and c: "24 \<le> length blob" "c = take 24 blob"
    using run unfolding blob_cookie_def by (auto elim!: try_bind_InrE split: if_splits)
  have "input v = bs"
    using movesD [OF moves_expect s(1)] e s(2) by (fastforce simp: forward_def)
  moreover obtain n where "blob = take n (drop (pos v) (input v))"
    using b os_bytes_Ok by blast
  ultimately have "bs = take (pos v) bs @ c @ drop 24 blob @ drop n (drop (pos v) bs)"
    by (metis c(2) append.assoc append_take_drop_id)
  then show "cookie_in bs c"
    unfolding cookie_in_def using c by auto
qed

definition element_from :: "bytes \<Rightarrow> audio_element \<Rightarrow> bool" where
  "element_from bs e \<longleftrightarrow> (\<forall>c. el_cookie e = Some c \<longrightarrow> cookie_in bs c)"

lemma gives_element_pairs: "element_from bs e \<Longrightarrow> gives bs (element_from bs) (element_pairs w n e)"
proof (induction n arbitrary: e)
  case (Suc n)
  have "gives bs (element_from bs) (may_bind m (\<lambda>i. element_pairs w n (e\<lparr>el_rate := g i\<rparr>)))"
    "gives bs (element_from bs) (may_bind m (\<lambda>i. element_pairs w n (e\<lparr>el_bits := g i\<rparr>)))"
    if "moves m" for m :: "int may_parse" and g
    by (rule gives_bind [OF gives_any that], rule Suc.IH, use Suc.prems in \<open>simp add: element_from_def\<close>)+
  moreover have "gives bs (element_from bs) (may_bind m (\<lambda>b. element_pairs w n (e\<lparr>el_layout := b\<rparr>)))"
    if "moves m" for m :: "bool may_parse"
    by (rule gives_bind [OF gives_any that], rule Suc.IH, use Suc.prems in \<open>simp add: element_from_def\<close>)
  moreover have "gives bs (element_from bs) (may_bind skip_object (\<lambda>_. element_pairs w n e))"
    by (rule gives_bind [OF gives_any moves_skip], rule Suc.IH, rule Suc.prems)
  moreover have "gives bs (element_from bs) (may_bind (total_step blob_cookie) (\<lambda>c. element_pairs w n (e\<lparr>el_cookie := Some c\<rparr>)))"
    by (rule gives_bind [OF gives_cookie moves_cookie], rule Suc.IH) (simp add: element_from_def)
  ultimately show ?case
    unfolding element_pairs.simps
    by (intro gives_bind [OF gives_any moves_string]) (simp add: moves_int64 channel_layouts_moves)
qed (auto intro: gives_ok)

lemma gives_select: "gives bs (cookie_in bs) (select_loop r b c n)"
proof (induction n)
  case (Suc n)
  have "gives bs (\<lambda>x. \<forall>k. x = Some k \<longrightarrow> cookie_in bs k) (parse_audio_element r b c)"
    unfolding parse_audio_element_def
    by (rule gives_bind [OF gives_any moves_expect], rule gives_bind [OF gives_element_pairs element_pairs_moves])
      (auto simp: element_from_def empty_element_def element_result_def intro: gives_ok)
  then show ?case
    unfolding select_loop.simps
    by (rule gives_bind) (use Suc in \<open>auto intro: audio_element_moves gives_ok split: option.split\<close>)
qed (simp add: gives_def)

lemma select_cookie_returns:
  "\<exists>r. select_cookie elements rate bits channels = Some r \<and>
    (\<forall>c. r = Inr c \<longrightarrow> length c = 24 \<and> (\<exists>a b. elements = a @ c @ b))"
proof (cases "channels = 0 \<or> 16 < channels \<or> (\<exists>e. parser_new elements = Inl e)")
  case True
  then show ?thesis
    by (auto simp: select_cookie_def)
next
  case False
  then obtain s where new: "parser_new elements = Inr s"
    by (metis Inr_Inl_False sum.exhaust)
  then have s: "inside s" "input s = elements"
    by (auto simp: parser_new_def inside_def split: if_splits)
  let ?m = "may_bind (total_step (expect_tag OS_TYPE_ARRAY)) (\<lambda>t. select_loop rate bits channels (tag_size t))"
  have "returns_inside ?m"
    by (intro returns_bind returns_total moves_expect select_loop_returns)
  then obtain r t where run: "?m s = Some (r, t)"
    using s(1) unfolding returns_inside_def by (metis surj_pair)
  have "gives elements (cookie_in elements) ?m"
    by (rule gives_bind [OF gives_any moves_expect gives_select])
  then have "cookie_in elements c" if "r = Inr c" for c
    using run s that unfolding gives_def by blast
  then show ?thesis
    using False new run by (auto simp: select_cookie_def cookie_in_def)
qed


section \<open>Reading what was serialized\<close>

lemma length_tag_bytes [simp]: "length (tag_bytes k n) = 4"
  by (simp add: tag_bytes_def)

lemma length_padded: "length (padded bs) = (length bs + 3) div 4 * 4"
  by (simp add: padded_def)

lemma decode_tag_bytes:
  assumes "k < 32" and "n < 2 ^ 24"
  shows "decode_tag (push_bit 24 (of_nat k) OR of_nat n) = Inr \<lparr>tag_size = n, tag_kind = k\<rparr>"
proof -
  have n: "unat (of_nat n :: u32) = n" and k: "unat (of_nat k :: u32) = k"
    using assms by (simp_all add: unat_of_nat_small)
  have nb: "bit n i \<Longrightarrow> i < 24" for i
    using assms(2) by (metis bit_take_bit_iff take_bit_nat_eq_self)
  have "take_bit 5 k = k"
    using assms(1) by (simp add: take_bit_nat_eq_self)
  then have kb: "bit k i \<Longrightarrow> i < 5" for i
    by (metis bit_take_bit_iff)
  let ?raw = "push_bit 24 (of_nat k) OR of_nat n :: u32"
  have "drop_bit 29 ?raw AND mask 2 = 0"
    by (rule bit_word_eqI) (auto simp: bit_simps dest: kb nb)
  moreover have "?raw AND mask 24 = of_nat n"
    by (rule bit_word_eqI) (auto simp: bit_simps dest: nb)
  moreover have "drop_bit 24 ?raw AND mask 5 = of_nat k"
    by (rule bit_word_eqI) (auto simp: bit_simps dest: kb nb)
  moreover have "(mask 2 :: u32) = 0x3" "(mask 24 :: u32) = 0x00ffffff" "(mask 5 :: u32) = 0x1f"
    by (simp_all add: mask_eq_exp_minus_1)
  ultimately show ?thesis
    using n k by (simp add: decode_tag_def del: push_bit_of_nat of_nat_push_bit)
qed

text \<open>The parser is before the given bytes, padding aside.\<close>

definition before :: "os_parser \<Rightarrow> bytes \<Rightarrow> bool" where
  "before s bs \<longleftrightarrow> inside s \<and> aligned_pos s \<le> length (input s) \<and> drop (aligned_pos s) (input s) = bs \<and>
     length (input s) + 8 < 2 ^ 64"

text \<open>A parse that, before an encoding, consumes it and returns a value.\<close>

definition parses :: "'a may_parse \<Rightarrow> 'a \<Rightarrow> bytes \<Rightarrow> bool" where
  "parses m x enc \<longleftrightarrow>
     (\<forall>s rest. before s (enc @ rest) \<longrightarrow> (\<exists>t. m s = Some (Inr x, t) \<and> before t rest \<and> input t = input s))"

lemma parses_ok: "parses (total_step (ok x)) x []"
  by (simp add: parses_def)

lemma parses_bind:
  assumes "parses m x enc" and "parses (f x) y enc'"
  shows "parses (may_bind m f) y (enc @ enc')"
  unfolding parses_def
proof (intro allI impI)
  fix s rest
  assume "before s ((enc @ enc') @ rest)"
  then obtain t where t: "m s = Some (Inr x, t)" "before t (enc' @ rest)" "input t = input s"
    using assms(1) unfolding parses_def by (metis append.assoc)
  then show "\<exists>u. may_bind m f s = Some (Inr y, u) \<and> before u rest \<and> input u = input s"
    using assms(2) unfolding parses_def by (fastforce simp: may_bind_def)
qed

lemma parses_bind_last: "parses m x enc \<Longrightarrow> f x = total_step (ok y) \<Longrightarrow> parses (may_bind m f) y enc"
  using parses_bind [of m x enc f y "[]"] parses_ok [of y] by simp

text \<open>A tag, and the bytes that follow it: the cursor stands on a multiple of four then.\<close>

lemma tag_at:
  assumes "k < 32" "n < 2 ^ 24" and b: "before s (tag_bytes k n @ rest)"
  obtains t where "os_tag_read s = (Inr \<lparr>tag_size = n, tag_kind = k\<rparr>, t)" "before t rest"
    "input t = input s" "4 dvd pos t"
proof -
  let ?q = "aligned_pos s"
  have q: "?q + 4 \<le> length (input s)" and d: "drop ?q (input s) = tag_bytes k n @ rest"
    using b by (auto simp: before_def dest: arg_cong [where f = length])
  have len: "length (input s) + 8 < 2 ^ 64" and "inside s"
    using b by (simp_all add: before_def)
  then have a: "os_align s = (Inr (), s\<lparr>pos := ?q\<rparr>)"
    using q by (auto simp: os_align_def inside_def Let_def and_mask_four [simplified] aligned_pos_def)
  have take: "take 4 (drop ?q (input s)) = tag_bytes k n"
    by (simp add: d)
  have bytes: "os_bytes 4 (s\<lparr>pos := ?q\<rparr>) = (Inr (tag_bytes k n), s\<lparr>pos := ?q + 4\<rparr>)"
    using q len take by (simp add: os_bytes_def Let_def)
  have "from_le_bytes (tag_bytes k n) = (push_bit 24 (of_nat k) OR of_nat n :: u32)"
    by (simp add: tag_bytes_def from_le_bytes_le_bytes)
  then have read: "os_tag_read s = (Inr \<lparr>tag_size = n, tag_kind = k\<rparr>, s\<lparr>pos := ?q + 4\<rparr>)"
    by (simp add: os_tag_read_def a bytes try_bind_def decode_tag_bytes [OF assms(1,2)] del: of_nat_push_bit)
  have four: "4 dvd ?q + 4"
    by (simp add: aligned_pos_def)
  then have "aligned_pos (s\<lparr>pos := ?q + 4\<rparr>) = ?q + 4"
    by (auto simp: aligned_pos_def elim!: dvdE)
  moreover have "drop (?q + 4) (input s) = rest"
    using d by (metis add.commute append_eq_conv_conj drop_drop length_tag_bytes)
  ultimately have "before (s\<lparr>pos := ?q + 4\<rparr>) rest"
    using q len by (simp add: before_def inside_def)
  with read four show ?thesis
    using that [of "s\<lparr>pos := ?q + 4\<rparr>"] by simp
qed

lemma bytes_at:
  assumes "4 dvd pos s" and b: "before s (padded bs @ rest)"
  obtains t where "os_bytes (length bs) s = (Inr bs, t)" "before t rest" "input t = input s"
proof -
  obtain k where k: "pos s = 4 * k"
    using assms(1) by (auto elim: dvdE)
  have q: "aligned_pos s = pos s"
    by (simp add: aligned_pos_def k)
  have d: "drop (pos s) (input s) = padded bs @ rest" and len: "length (input s) + 8 < 2 ^ 64"
    using b by (simp_all add: before_def q)
  have fits: "pos s + length (padded bs) \<le> length (input s)"
  proof -
    have "length (input s) - pos s = length (padded bs) + length rest" "pos s \<le> length (input s)"
      using arg_cong [OF d, of length] b by (simp_all add: before_def inside_def)
    then show ?thesis by linarith
  qed
  have pad: "length bs \<le> length (padded bs)"
    by (simp add: padded_def)
  have take: "take (length bs) (drop (pos s) (input s)) = bs"
    by (simp add: d padded_def)
  let ?t = "s\<lparr>pos := pos s + length bs\<rparr>"
  have read: "os_bytes (length bs) s = (Inr bs, ?t)"
    using take fits pad len by (simp add: os_bytes_def Let_def)
  have "(4 * k + (length bs + 3)) div 4 = k + (length bs + 3) div 4"
    by simp
  then have "aligned_pos ?t = pos s + length (padded bs)"
    by (simp add: aligned_pos_def k length_padded add.assoc)
  moreover have "drop (pos s + length (padded bs)) (input s) = rest"
    using d by (metis add.commute append_eq_conv_conj drop_drop)
  ultimately have "before ?t rest"
    using fits pad len by (simp add: before_def inside_def)
  with read show ?thesis
    using that by simp
qed

text \<open>A parse of a payload: it may rely on the cursor standing where a tag has ended.\<close>

definition payload :: "'a may_parse \<Rightarrow> 'a \<Rightarrow> bytes \<Rightarrow> bool" where
  "payload m x enc \<longleftrightarrow>
     (\<forall>s rest. 4 dvd pos s \<longrightarrow> before s (enc @ rest) \<longrightarrow>
        (\<exists>t. m s = Some (Inr x, t) \<and> before t rest \<and> input t = input s))"

lemma payload_parses: "parses m x enc \<Longrightarrow> payload m x enc"
  unfolding parses_def payload_def by blast

lemma payload_bytes: "payload (total_step (os_bytes (length bs))) bs (padded bs)"
  unfolding payload_def by (auto simp: total_step_def elim: bytes_at)

lemma payload_then_ok: "payload m x enc \<Longrightarrow> f x = total_step (ok y) \<Longrightarrow> payload (may_bind m f) y enc"
  unfolding payload_def by (fastforce simp: may_bind_def)

lemma parses_tag:
  assumes "k < 32" "n < 2 ^ 24" and "payload (f \<lparr>tag_size = n, tag_kind = k\<rparr>) x enc"
  shows "parses (may_bind (total_step os_tag_read) f) x (tag_bytes k n @ enc)"
  unfolding parses_def
proof (intro allI impI)
  fix s rest
  assume b: "before s ((tag_bytes k n @ enc) @ rest)"
  then obtain t where t: "os_tag_read s = (Inr \<lparr>tag_size = n, tag_kind = k\<rparr>, t)" "before t (enc @ rest)"
    "input t = input s" "4 dvd pos t"
    by (auto elim: tag_at [OF assms(1,2)])
  then show "\<exists>u. may_bind (total_step os_tag_read) f s = Some (Inr x, u) \<and> before u rest \<and> input u = input s"
    using assms(3) unfolding payload_def by (fastforce simp: may_bind_def total_step_def)
qed

lemma parses_expect:
  assumes "k < 32" "n < 2 ^ 24" and "payload (f \<lparr>tag_size = n, tag_kind = k\<rparr>) x enc"
  shows "parses (may_bind (total_step (expect_tag k)) f) x (tag_bytes k n @ enc)"
proof -
  have "may_bind (total_step (expect_tag k)) f =
      may_bind (total_step os_tag_read) (\<lambda>t. if tag_kind t \<noteq> k
        then total_step (err ''apple-dcpext: unexpected audio elements object type'') else f t)"
    by (rule ext) (auto simp: expect_tag_def may_bind_def total_step_def try_bind_def split: prod.split sum.split)
  moreover have "parses \<dots> x (tag_bytes k n @ enc)"
    by (rule parses_tag [OF assms(1,2)]) (simp add: assms(3))
  ultimately show ?thesis by simp
qed

lemma parses_string: "length k < 2 ^ 24 \<Longrightarrow> parses (total_step os_string) k (encode (OsString k))"
  using payload_bytes [of k]
  by (auto simp: os_string_def total_bind os_types intro!: parses_expect [of _ "length k", simplified os_types])

lemma padded_id: "4 dvd length bs \<Longrightarrow> padded bs = bs"
  by (auto simp: padded_def elim!: dvdE)

lemma payload_int: "payload (total_step (os_bytes 8)) (le_bytes 8 (w :: 64 word)) (le_bytes 8 w)"
  using payload_bytes [of "le_bytes 8 w"] by (simp add: padded_id)

lemma parses_int64:
  assumes "- (2 ^ 63) \<le> i" "i < 2 ^ 63"
  shows "parses (total_step os_int64) i (encode (OsInt i))"
proof -
  have "sint (of_int i :: 64 word) = i"
    using assms by (simp add: signed_of_int signed_take_bit_int_eq_self)
  then have "sint (from_le_bytes (le_bytes 8 (of_int i :: 64 word)) :: 64 word) = i"
    by (simp add: from_le_bytes_le_bytes)
  then have "payload (total_step (try_bind (os_bytes 8) (\<lambda>bs. ok (sint (from_le_bytes bs :: 64 word))))) i
      (le_bytes 8 (of_int i :: 64 word))"
    unfolding total_bind by (intro payload_then_ok [OF payload_int]) simp
  then show ?thesis
    by (auto simp: os_int64_def total_bind os_types intro!: parses_expect [simplified os_types])
qed

lemma parses_blob:
  assumes "length bs < 2 ^ 24" and "24 \<le> length bs"
  shows "parses (total_step blob_cookie) (take 24 bs) (encode (OsBlob bs))"
proof -
  have "payload (may_bind (total_step (os_bytes (length bs))) (\<lambda>blob. total_step
      (if length blob < 24 then err ''apple-dcpext: short DCP audio cookie'' else ok (take 24 blob))))
      (take 24 bs) (padded bs)"
    using assms(2) by (intro payload_then_ok [OF payload_bytes]) simp
  then show ?thesis
    using assms(1) by (auto simp: blob_cookie_def total_bind os_types intro!: parses_expect [simplified os_types])
qed

text \<open>\<open>skip\<close> passes over any encoding.\<close>

lemma parses_repeat:
  "(\<And>o'. o' \<in> set os \<Longrightarrow> parses m () (encode o')) \<Longrightarrow>
   parses (repeat_may (length os) m) () (concat (map encode os))"
  by (induction os) (auto intro: parses_ok parses_bind)

definition pair_objects :: "(bytes \<times> os_object) list \<Rightarrow> os_object list" where
  "pair_objects ps = concat (map (\<lambda>(k, v). [OsString k, v]) ps)"

lemma encode_dict:
  "encode (OsDict ps) = tag_bytes OS_TYPE_DICTIONARY (length ps) @ concat (map encode (pair_objects ps))"
  by (induction ps) (auto simp: pair_objects_def)

lemma length_pair_objects: "length (pair_objects ps) = length ps * 2"
  by (induction ps) (auto simp: pair_objects_def)

lemma concat_part: "x \<in> set xs \<Longrightarrow> length (f x) \<le> length (concat (map f xs))"
  by (induction xs) auto

lemma parses_os_skip:
  "encodable obj \<Longrightarrow> length (encode obj) \<le> 4 * d \<Longrightarrow> parses (os_skip d) () (encode obj)"
proof (induction d arbitrary: obj)
  case 0
  then show ?case
    by (cases obj) (auto simp: length_tag_bytes dest!: arg_cong [where f = length])
next
  case (Suc d)
  have many: "parses (repeat_may (length os) (os_skip d)) () (concat (map encode os))"
    if "\<forall>o'\<in>set os. encodable o'" "length (concat (map encode os)) \<le> 4 * d" for os
    using that concat_part [of _ os encode] by (intro parses_repeat Suc.IH) fastforce+
  show ?case
  proof (cases obj)
    case (OsDict ps)
    have "\<forall>o'\<in>set (pair_objects ps). encodable o'"
      using Suc.prems(1) OsDict by (auto simp: pair_objects_def)
    moreover have "length (concat (map encode (pair_objects ps))) \<le> 4 * d"
      using Suc.prems(2) by (simp only: OsDict encode_dict) simp
    ultimately have "payload (repeat_may (length ps * 2) (os_skip d)) () (concat (map encode (pair_objects ps)))"
      using many payload_parses by (metis length_pair_objects)
    then show ?thesis
      unfolding OsDict encode_dict os_skip.simps
      using Suc.prems(1) by (intro parses_tag) (simp_all add: OsDict os_types)
  next
    case (OsArray os)
    have "payload (repeat_may (length os) (os_skip d)) () (concat (map encode os))"
      using Suc.prems by (intro payload_parses many) (simp_all add: OsArray)
    then show ?thesis
      unfolding OsArray encode.simps os_skip.simps
      using Suc.prems(1) by (intro parses_tag) (simp_all add: OsArray os_types)
  next
    case (OsInt i)
    have "payload (total_step (try_bind (os_bytes 8) (\<lambda>_. ok ()))) () (le_bytes 8 (of_int i :: 64 word))"
      unfolding total_bind by (rule payload_then_ok [OF payload_int]) simp
    then show ?thesis
      unfolding OsInt encode.simps os_skip.simps by (intro parses_tag) (simp_all add: os_types)
  next
    case (OsString bs)
    have "payload (total_step (try_bind (os_bytes (length bs)) (\<lambda>_. ok ()))) () (padded bs)"
      unfolding total_bind by (rule payload_then_ok [OF payload_bytes]) simp
    then show ?thesis
      unfolding OsString encode.simps os_skip.simps
      using Suc.prems(1) by (intro parses_tag) (simp_all add: OsString os_types)
  next
    case (OsBlob bs)
    have "payload (total_step (try_bind (os_bytes (length bs)) (\<lambda>_. ok ()))) () (padded bs)"
      unfolding total_bind by (rule payload_then_ok [OF payload_bytes]) simp
    then show ?thesis
      unfolding OsBlob encode.simps os_skip.simps
      using Suc.prems(1) by (intro parses_tag) (simp_all add: OsBlob os_types)
  next
    case (OsBool b)
    have "parses (os_skip (Suc d)) () (tag_bytes OS_TYPE_BOOL (if b then 1 else 0) @ [])"
      unfolding os_skip.simps
      by (intro parses_tag payload_parses) (simp_all add: os_types parses_ok)
    then show ?thesis
      by (simp add: OsBool del: os_skip.simps)
  qed
qed

lemma parses_skip: "encodable obj \<Longrightarrow> parses skip_object () (encode obj)"
  unfolding parses_def
proof (intro allI impI)
  fix s rest
  assume o: "encodable obj" and b: "before s (encode obj @ rest)"
  have "length (encode obj) \<le> length (input s)"
    using arg_cong [of _ _ length, OF conjunct1 [OF conjunct2 [OF conjunct2 [OF b [unfolded before_def]]]]] by simp
  then have "parses (os_skip (Suc (length (input s)))) () (encode obj)"
    by (intro parses_os_skip [OF o]) simp
  then show "\<exists>t. skip_object s = Some (Inr (), t) \<and> before t rest \<and> input t = input s"
    using b unfolding parses_def skip_object_def by blast
qed

section \<open>What the sink offers\<close>

text \<open>
  The meaning of an element: the last value given for a key counts. \<open>from_field\<close> is the value an
  accumulator has after the pairs were read.
\<close>

abbreviation "key_rate \<equiv> ascii ''StreamSampleRate''"
abbreviation "key_bits \<equiv> ascii ''SampleSize''"
abbreviation "key_layouts \<equiv> ascii ''AudioChannelLayoutElements''"
abbreviation "key_data \<equiv> ascii ''ElementData''"
abbreviation "key_channels \<equiv> ascii ''ActiveChannelCount''"

lemma keys_distinct [simp]:
  "key_rate \<noteq> key_bits" "key_rate \<noteq> key_layouts" "key_rate \<noteq> key_data"
  "key_bits \<noteq> key_rate" "key_bits \<noteq> key_layouts" "key_bits \<noteq> key_data"
  "key_layouts \<noteq> key_rate" "key_layouts \<noteq> key_bits" "key_layouts \<noteq> key_data"
  "key_data \<noteq> key_rate" "key_data \<noteq> key_bits" "key_data \<noteq> key_layouts"
  by (simp_all add: ascii_def)

definition from_field :: "(os_object \<Rightarrow> 'a) \<Rightarrow> bytes \<Rightarrow> (bytes \<times> os_object) list \<Rightarrow> 'a \<Rightarrow> 'a" where
  "from_field f key ps x = (case map_of (rev ps) key of Some v \<Rightarrow> f v | None \<Rightarrow> x)"

lemma from_field_Nil [simp]: "from_field f key [] x = x"
  by (simp add: from_field_def)

lemma from_field_Cons [simp]:
  "from_field f key ((k, v) # ps) x = from_field f key ps (if k = key then f v else x)"
  by (auto simp: from_field_def map_add_def split: option.splits)

fun int_value :: "os_object \<Rightarrow> u32 option" where
  "int_value (OsInt i) = to_u32 i"
| "int_value _ = None"

fun layout_channels :: "os_object \<Rightarrow> u32 option" where
  "layout_channels (OsDict ps) = from_field int_value key_channels ps None"
| "layout_channels _ = None"

fun layouts_match :: "u32 \<Rightarrow> os_object \<Rightarrow> bool" where
  "layouts_match channels (OsArray ls) \<longleftrightarrow> (\<exists>l\<in>set ls. layout_channels l = Some channels)"
| "layouts_match channels _ \<longleftrightarrow> False"

fun blob_value :: "os_object \<Rightarrow> bytes option" where
  "blob_value (OsBlob bs) = Some (take 24 bs)"
| "blob_value _ = None"

text \<open>The cookie an element offers for a mode.\<close>

fun offers :: "u32 \<Rightarrow> u32 \<Rightarrow> u32 \<Rightarrow> os_object \<Rightarrow> bytes option" where
  "offers rate bits channels (OsDict ps) =
     (if from_field int_value key_rate ps None = Some rate \<and>
         from_field int_value key_bits ps None = Some bits \<and>
         from_field (layouts_match channels) key_layouts ps False
      then from_field blob_value key_data ps None else None)"
| "offers rate bits channels _ = None"

text \<open>The types the known keys must have.\<close>

fun is_int :: "os_object \<Rightarrow> bool" where
  "is_int (OsInt _) \<longleftrightarrow> True"
| "is_int _ \<longleftrightarrow> False"

fun typed_layout :: "os_object \<Rightarrow> bool" where
  "typed_layout (OsDict ps) \<longleftrightarrow> (\<forall>(k, v)\<in>set ps. k = key_channels \<longrightarrow> is_int v)"
| "typed_layout _ \<longleftrightarrow> False"

fun typed_layouts :: "os_object \<Rightarrow> bool" where
  "typed_layouts (OsArray ls) \<longleftrightarrow> (\<forall>l\<in>set ls. typed_layout l)"
| "typed_layouts _ \<longleftrightarrow> False"

fun long_blob :: "os_object \<Rightarrow> bool" where
  "long_blob (OsBlob bs) \<longleftrightarrow> 24 \<le> length bs"
| "long_blob _ \<longleftrightarrow> False"

fun typed_element :: "os_object \<Rightarrow> bool" where
  "typed_element (OsDict ps) \<longleftrightarrow> (\<forall>(k, v)\<in>set ps.
     (k = key_rate \<or> k = key_bits \<longrightarrow> is_int v) \<and> (k = key_layouts \<longrightarrow> typed_layouts v) \<and>
     (k = key_data \<longrightarrow> long_blob v))"
| "typed_element _ \<longleftrightarrow> False"

fun_cases is_intE: "is_int v"
fun_cases typed_layoutE: "typed_layout v"
fun_cases typed_layoutsE: "typed_layouts v"
fun_cases long_blobE: "long_blob v"
fun_cases typed_elementE: "typed_element v"

definition pair_bytes :: "(bytes \<times> os_object) list \<Rightarrow> bytes" where
  "pair_bytes ps = concat (map (\<lambda>(k, v). encode (OsString k) @ encode v) ps)"

lemma encode_pairs: "encode (OsDict ps) = tag_bytes OS_TYPE_DICTIONARY (length ps) @ pair_bytes ps"
  by (simp add: pair_bytes_def split_def)

lemma pair_bytes_simps [simp]:
  "pair_bytes [] = []" "pair_bytes ((k, v) # ps) = encode (OsString k) @ encode v @ pair_bytes ps"
  by (simp_all add: pair_bytes_def)

lemma parses_layout_pairs:
  "\<forall>(k, v)\<in>set ps. length k < 2 ^ 24 \<and> encodable v \<and> (k = key_channels \<longrightarrow> is_int v) \<Longrightarrow>
   parses (layout_pairs (length ps) a) (from_field int_value key_channels ps a) (pair_bytes ps)"
proof (induction ps arbitrary: a)
  case (Cons p ps)
  obtain k v where p: "p = (k, v)" by (cases p)
  have k: "length k < 2 ^ 24" and v: "encodable v"
    using Cons.prems by (auto simp: p)
  have rest: "parses (layout_pairs (length ps) b) (from_field int_value key_channels ps b) (pair_bytes ps)" for b
    using Cons by (auto simp: p)
  have "parses (if k = key_channels
      then may_bind (total_step os_int64) (\<lambda>i. layout_pairs (length ps) (to_u32 i))
      else may_bind skip_object (\<lambda>_. layout_pairs (length ps) a))
     (from_field int_value key_channels (p # ps) a) (encode v @ pair_bytes ps)"
  proof (cases "k = key_channels")
    case True
    then obtain i where "v = OsInt i"
      using Cons.prems by (auto simp: p elim: is_intE)
    then show ?thesis
      using parses_bind [OF parses_int64 rest, of i] v True by (auto simp: p simp del: encode.simps)
  next
    case False
    then show ?thesis
      by (auto simp: p intro: parses_bind [OF parses_skip [OF v] rest])
  qed
  then have "parses (layout_pairs (Suc (length ps)) a) (from_field int_value key_channels (p # ps) a)
      (encode (OsString k) @ encode v @ pair_bytes ps)"
    unfolding layout_pairs.simps by (rule parses_bind [OF parses_string [OF k]])
  then show ?case
    by (simp only: p length_Cons pair_bytes_simps)
qed (simp add: parses_ok)

lemma parses_dict:
  assumes "encodable (OsDict ps)" and "parses (f \<lparr>tag_size = length ps, tag_kind = OS_TYPE_DICTIONARY\<rparr>) x (pair_bytes ps)"
  shows "parses (may_bind (total_step (expect_tag OS_TYPE_DICTIONARY)) f) x (encode (OsDict ps))"
  unfolding encode_pairs
  by (rule parses_expect) (use assms in \<open>simp_all add: os_types payload_parses\<close>)

lemma parses_array:
  assumes "encodable (OsArray os)"
    and "parses (f \<lparr>tag_size = length os, tag_kind = OS_TYPE_ARRAY\<rparr>) x (concat (map encode os))"
  shows "parses (may_bind (total_step (expect_tag OS_TYPE_ARRAY)) f) x (encode (OsArray os))"
  unfolding encode.simps
  by (rule parses_expect) (use assms in \<open>simp_all add: os_types payload_parses\<close>)

lemma parses_layouts:
  "\<forall>l\<in>set ls. encodable l \<and> typed_layout l \<Longrightarrow>
   parses (layouts w (length ls) b) (b \<or> (\<exists>l\<in>set ls. layout_channels l = Some w)) (concat (map encode ls))"
proof (induction ls arbitrary: b)
  case (Cons l ls)
  obtain ps where l: "l = OsDict ps" and typed: "\<forall>(k, v)\<in>set ps. k = key_channels \<longrightarrow> is_int v"
    using Cons.prems by (auto elim: typed_layoutE)
  have e: "encodable (OsDict ps)"
    using Cons.prems l by auto
  have "parses (may_bind (layout_pairs (length ps) None) (\<lambda>a. layouts w (length ls) (b \<or> a = Some w)))
      ((b \<or> layout_channels l = Some w) \<or> (\<exists>l\<in>set ls. layout_channels l = Some w))
      (pair_bytes ps @ concat (map encode ls))"
    unfolding l layout_channels.simps
    by (rule parses_bind [OF parses_layout_pairs Cons.IH]) (use Cons.prems e typed in auto)
  then have "parses (may_bind (total_step (expect_tag OS_TYPE_DICTIONARY)) (\<lambda>t.
      may_bind (layout_pairs (tag_size t) None) (\<lambda>a. layouts w (length ls) (b \<or> a = Some w))))
      ((b \<or> layout_channels l = Some w) \<or> (\<exists>l\<in>set ls. layout_channels l = Some w))
      (tag_bytes OS_TYPE_DICTIONARY (length ps) @ pair_bytes ps @ concat (map encode ls))"
    by (intro parses_expect) (use e in \<open>simp_all add: os_types payload_parses\<close>)
  moreover have "concat (map encode (l # ls)) =
      tag_bytes OS_TYPE_DICTIONARY (length ps) @ pair_bytes ps @ concat (map encode ls)"
    by (simp only: list.map concat.simps l encode_pairs append_assoc)
  ultimately show ?case
    by (simp only: length_Cons layouts.simps) (simp add: disj_assoc)
qed (simp add: parses_ok)

lemma parses_channel_layouts:
  assumes "encodable v" and "typed_layouts v"
  shows "parses (parse_channel_layouts w) (layouts_match w v) (encode v)"
proof -
  obtain ls where v: "v = OsArray ls" and typed: "\<forall>l\<in>set ls. typed_layout l"
    using assms(2) by (auto elim: typed_layoutsE)
  then show ?thesis
    using parses_layouts [of ls w False] assms(1)
    unfolding v parse_channel_layouts_def by (intro parses_array) auto
qed

definition element_after :: "u32 \<Rightarrow> (bytes \<times> os_object) list \<Rightarrow> audio_element \<Rightarrow> audio_element" where
  "element_after w ps e =
     \<lparr>el_rate = from_field int_value key_rate ps (el_rate e),
      el_bits = from_field int_value key_bits ps (el_bits e),
      el_layout = from_field (layouts_match w) key_layouts ps (el_layout e),
      el_cookie = from_field blob_value key_data ps (el_cookie e)\<rparr>"

lemma element_after_Nil [simp]: "element_after w [] e = e"
  by (cases e) (simp add: element_after_def)

lemma parses_element_pairs:
  "\<forall>(k, v)\<in>set ps. length k < 2 ^ 24 \<and> encodable v \<Longrightarrow> typed_element (OsDict ps) \<Longrightarrow>
   parses (element_pairs w (length ps) e) (element_after w ps e) (pair_bytes ps)"
proof (induction ps arbitrary: e)
  case (Cons p ps)
  obtain k v where p: "p = (k, v)" by (cases p)
  have k: "length k < 2 ^ 24" and v: "encodable v"
    using Cons.prems by (auto simp: p)
  have rest: "parses (element_pairs w (length ps) e) (element_after w ps e) (pair_bytes ps)" for e
    using Cons by (auto simp: p)
  have typed: "k = key_rate \<or> k = key_bits \<longrightarrow> is_int v" "k = key_layouts \<longrightarrow> typed_layouts v"
    "k = key_data \<longrightarrow> long_blob v"
    using Cons.prems(2) by (auto simp: p)
  have "parses
     (if k = key_rate then may_bind (total_step os_int64) (\<lambda>i. element_pairs w (length ps) (e\<lparr>el_rate := to_u32 i\<rparr>))
      else if k = key_bits then may_bind (total_step os_int64) (\<lambda>i. element_pairs w (length ps) (e\<lparr>el_bits := to_u32 i\<rparr>))
      else if k = key_layouts then may_bind (parse_channel_layouts w) (\<lambda>b. element_pairs w (length ps) (e\<lparr>el_layout := b\<rparr>))
      else if k = key_data then may_bind (total_step blob_cookie) (\<lambda>c. element_pairs w (length ps) (e\<lparr>el_cookie := Some c\<rparr>))
      else may_bind skip_object (\<lambda>_. element_pairs w (length ps) e))
     (element_after w (p # ps) e) (encode v @ pair_bytes ps)"
  proof -
    consider "k = key_rate" | "k = key_bits" | "k = key_layouts" | "k = key_data"
      | "k \<notin> {key_rate, key_bits, key_layouts, key_data}" by auto
    then show ?thesis
    proof cases
      case 1
      then obtain i where "v = OsInt i" using typed(1) by (auto elim: is_intE)
      then show ?thesis
        using parses_bind [where f = "\<lambda>i. element_pairs w (length ps) (e\<lparr>el_rate := to_u32 i\<rparr>)", OF parses_int64 rest [of "e\<lparr>el_rate := to_u32 i\<rparr>"]] v 1
        by (auto simp: p element_after_def simp del: encode.simps)
    next
      case 2
      then obtain i where "v = OsInt i" using typed(1) by (auto elim: is_intE)
      then show ?thesis
        using parses_bind [where f = "\<lambda>i. element_pairs w (length ps) (e\<lparr>el_bits := to_u32 i\<rparr>)", OF parses_int64 rest [of "e\<lparr>el_bits := to_u32 i\<rparr>"]] v 2
        by (auto simp: p element_after_def simp del: encode.simps)
    next
      case 3
      then show ?thesis
        using parses_bind [where f = "\<lambda>b. element_pairs w (length ps) (e\<lparr>el_layout := b\<rparr>)", OF parses_channel_layouts [OF v] rest [of "e\<lparr>el_layout := layouts_match w v\<rparr>"]] typed(2)
        by (auto simp: p element_after_def simp del: encode.simps)
    next
      case 4
      then obtain bs where "v = OsBlob bs" "24 \<le> length bs" using typed(3) by (auto elim: long_blobE)
      then show ?thesis
        using parses_bind [where f = "\<lambda>c. element_pairs w (length ps) (e\<lparr>el_cookie := Some c\<rparr>)", OF parses_blob rest [of "e\<lparr>el_cookie := Some (take 24 bs)\<rparr>"]] v 4
        by (auto simp: p element_after_def simp del: encode.simps)
    next
      case 5
      then show ?thesis
        using parses_bind [OF parses_skip [OF v] rest] by (auto simp: p element_after_def simp del: encode.simps)
    qed
  qed
  then have "parses (element_pairs w (Suc (length ps)) e) (element_after w (p # ps) e)
      (encode (OsString k) @ encode v @ pair_bytes ps)"
    unfolding element_pairs.simps by (rule parses_bind [OF parses_string [OF k]])
  then show ?case
    by (simp only: p length_Cons pair_bytes_simps)
qed (simp add: parses_ok)

lemma parses_audio_element:
  assumes "encodable el" and "typed_element el"
  shows "parses (parse_audio_element rate bits channels) (offers rate bits channels el) (encode el)"
proof -
  obtain ps where el: "el = OsDict ps" and "typed_element (OsDict ps)"
    using assms(2) by (auto elim: typed_elementE)
  then have "parses (element_pairs channels (length ps) empty_element)
      (element_after channels ps empty_element) (pair_bytes ps)"
    using assms(1) by (intro parses_element_pairs) auto
  then have "parses (may_bind (element_pairs channels (length ps) empty_element)
      (\<lambda>e. total_step (ok (element_result rate bits e)))) (offers rate bits channels el) (pair_bytes ps)"
    by (rule parses_bind_last) (simp add: element_result_def element_after_def empty_element_def el)
  then show ?thesis
    using assms(1) unfolding el parse_audio_element_def by (intro parses_dict) simp_all
qed

lemma select_loop_offers:
  "\<forall>el\<in>set els. encodable el \<and> typed_element el \<Longrightarrow> before s (concat (map encode els) @ rest) \<Longrightarrow>
   \<exists>t. select_loop rate bits channels (length els) s =
     Some (case List.map_filter (offers rate bits channels) els of
             [] \<Rightarrow> Inl ''apple-dcpext: requested DisplayPort audio mode is unsupported''
           | cookie # _ \<Rightarrow> Inr cookie, t)"
proof (induction els arbitrary: s)
  case (Cons el els)
  have "parses (parse_audio_element rate bits channels) (offers rate bits channels el) (encode el)"
    using Cons.prems(1) by (intro parses_audio_element) auto
  moreover have "before s (encode el @ concat (map encode els) @ rest)"
    using Cons.prems(2) by simp
  ultimately obtain t where t: "parse_audio_element rate bits channels s = Some (Inr (offers rate bits channels el), t)"
    "before t (concat (map encode els) @ rest)"
    unfolding parses_def by blast
  show ?case
  proof (cases "offers rate bits channels el")
    case None
    then show ?thesis
      using Cons.IH [OF _ t(2)] Cons.prems(1) t(1) by (simp add: may_bind_def List.map_filter_simps)
  next
    case (Some k)
    then show ?thesis
      using t(1) by (simp add: may_bind_def List.map_filter_simps)
  qed
qed (simp add: List.map_filter_simps total_step_def)

text \<open>The whole document: the result of the first element that offers the mode.\<close>

lemma select_cookie_document:
  assumes "\<forall>el\<in>set els. typed_element el" and "encodable (OsArray els)"
    and "length (document (OsArray els)) + 8 < 2 ^ 64" and "0 < channels" and "channels \<le> 16"
  shows "select_cookie (document (OsArray els)) rate bits channels =
    Some (case List.map_filter (offers rate bits channels) els of
            [] \<Rightarrow> Inl ''apple-dcpext: requested DisplayPort audio mode is unsupported''
          | cookie # _ \<Rightarrow> Inr cookie)"
proof -
  let ?d = "document (OsArray els)" let ?s = "\<lparr>input = ?d, pos = 4\<rparr>"
  have new: "parser_new ?d = Inr ?s"
    by (simp add: parser_new_def document_def from_le_bytes_le_bytes)
  have "before ?s (encode (OsArray els))"
    using assms(3) by (simp add: before_def inside_def aligned_pos_def document_def)
  then have b: "before ?s (tag_bytes OS_TYPE_ARRAY (length els) @ concat (map encode els))"
    by simp
  obtain t where t: "os_tag_read ?s = (Inr \<lparr>tag_size = length els, tag_kind = OS_TYPE_ARRAY\<rparr>, t)"
    "before t (concat (map encode els))"
    using assms(2) tag_at [OF _ _ b] by (auto simp: os_types)
  then have "expect_tag OS_TYPE_ARRAY ?s = (Inr \<lparr>tag_size = length els, tag_kind = OS_TYPE_ARRAY\<rparr>, t)"
    by (simp add: expect_tag_def)
  moreover obtain u where "select_loop rate bits channels (length els) t =
      Some (case List.map_filter (offers rate bits channels) els of
             [] \<Rightarrow> Inl ''apple-dcpext: requested DisplayPort audio mode is unsupported''
           | cookie # _ \<Rightarrow> Inr cookie, u)"
    using select_loop_offers [of els t "[]" rate bits channels] assms(1,2) t(2) by auto
  moreover have "channels \<noteq> 0" "\<not> 16 < channels"
    using assms(4,5) by auto
  ultimately show ?thesis
    by (simp add: select_cookie_def new may_bind_def total_step_def)
qed

text \<open>
  C11. On what a sink serializes, the selection returns the cookie of the first element that offers
  exactly the requested rate, sample size and channel count, and an error when none does;
  unknown keys and objects nested in them do not disturb it.
\<close>

theorem select_cookie_first_match:
  assumes "\<forall>el\<in>set els. typed_element el" and "encodable (OsArray els)"
    and "length (document (OsArray els)) + 8 < 2 ^ 64" and "0 < channels" and "channels \<le> 16"
  shows "select_cookie (document (OsArray els)) rate bits channels =
    Some (case List.map_filter (offers rate bits channels) els of
            [] \<Rightarrow> Inl ''apple-dcpext: requested DisplayPort audio mode is unsupported''
          | cookie # _ \<Rightarrow> Inr cookie)"
  by (rule select_cookie_document [OF assms])

text \<open>A sink with one stereo mode, and an element before it that offers another rate.\<close>

definition example_element :: "int \<Rightarrow> os_object" where
  "example_element rate = OsDict
     [(key_rate, OsInt rate), (key_bits, OsInt 16),
      (key_layouts, OsArray [OsDict [(key_channels, OsInt 2), (ascii ''Layout'', OsArray [OsString (ascii ''L'')])]]),
      (key_data, OsBlob (replicate 24 7)), (ascii ''Ignored'', OsDict [(ascii ''Flag'', OsBool True)])]"

lemma example_elements:
  "encodable (OsArray [example_element 44100, example_element 48000])"
  "length (document (OsArray [example_element 44100, example_element 48000])) + 8 < 2 ^ 64"
  "typed_element (example_element i)"
  "offers 48000 16 2 (example_element 44100) = None"
  "offers 48000 16 2 (example_element 48000) = Some (replicate 24 7)"
proof -
  have other: "ascii ''Ignored'' \<notin> {key_rate, key_bits, key_layouts, key_data}" "ascii ''Layout'' \<noteq> key_channels"
    by (simp_all add: ascii_def)
  show "length (document (OsArray [example_element 44100, example_element 48000])) + 8 < 2 ^ 64"
    by (simp add: document_def example_element_def ascii_def length_padded)
  show "encodable (OsArray [example_element 44100, example_element 48000])"
    by (simp add: example_element_def ascii_def)
  show "typed_element (example_element i)"
    using other by (simp add: example_element_def)
  show "offers 48000 16 2 (example_element 44100) = None" "offers 48000 16 2 (example_element 48000) = Some (replicate 24 7)"
    using other by (auto simp: example_element_def to_u32_def)
qed

lemma example_document:
  "select_cookie (document (OsArray [example_element 44100, example_element 48000])) 48000 16 2 =
   Some (Inr (replicate 24 7))"
  using select_cookie_document [OF _ example_elements(1,2), of 2 48000 16]
  by (simp add: List.map_filter_simps example_elements)

theorem select_cookie_first_match_witness:
  "select_cookie (document (OsArray [example_element 44100, example_element 48000])) 48000 16 2 =
   Some (Inr (replicate 24 7))"
  using select_cookie_first_match [OF _ example_elements(1,2), of 2 48000 16]
  by (simp add: List.map_filter_simps example_elements)

end
