(* ===== verification/AvAudio.thy ===== *)
theory AvAudio
  imports Epic AvParser
begin

text \<open>
  The DisplayPort audio link of the external display (\<^verbatim>\<open>drivers/display/dcpext/src/av_audio.rs\<close>): the
  AV service is opened once, its sound elements are fetched and checked, and the link is prepared,
  started, stopped and unprepared by commands over EPIC. The command call of the endpoint is an
  argument \<open>call\<close> of the operations; \<open>call_by_channel_sized\<close> is what the driver uses.
\<close>

section \<open>Data\<close>

abbreviation (input) DCP_AV_EP :: u8 where "DCP_AV_EP \<equiv> 0x29"
abbreviation (input) DCP_AV_SERVICE_TIMEOUT_US :: nat where "DCP_AV_SERVICE_TIMEOUT_US \<equiv> 5000000"
abbreviation (input) AV_ELEMENTS_MAX_SIZE :: nat where "AV_ELEMENTS_MAX_SIZE \<equiv> 0x3f90"
abbreviation (input) AV_OSOBJECT_HEADER_SIZE :: nat where "AV_OSOBJECT_HEADER_SIZE \<equiv> 48"
abbreviation (input) AV_LINK_CALL_SIZE :: nat where "AV_LINK_CALL_SIZE \<equiv> 64"
definition DCP_AV_SERVICE :: bytes where "DCP_AV_SERVICE = ascii ''dcpav-audio-interface-epic''"

record av_commands =
  cmd_open :: u32
  cmd_close :: u32
  cmd_prepare :: u32
  cmd_start_link :: u32
  cmd_stop_link :: u32
  cmd_unprepare :: u32
  cmd_get_elements :: u32

definition AV_COMMANDS_V12_3 :: av_commands where
  "AV_COMMANDS_V12_3 = \<lparr>cmd_open = 6, cmd_close = 7, cmd_prepare = 8, cmd_start_link = 9, cmd_stop_link = 12,
     cmd_unprepare = 13, cmd_get_elements = 18\<rparr>"

definition AV_COMMANDS_V13_5 :: av_commands where
  "AV_COMMANDS_V13_5 = \<lparr>cmd_open = 4, cmd_close = 5, cmd_prepare = 6, cmd_start_link = 7, cmd_stop_link = 10,
     cmd_unprepare = 11, cmd_get_elements = 16\<rparr>"

record 'e av_audio =
  av_endpoint :: 'e
  av_channel :: u32
  av_commands :: av_commands
  av_elements :: bytes
  av_opened :: bool
  av_prepared :: bool
  av_started :: bool

text \<open>Channel, group, command, data, request size and response size.\<close>

type_synonym 'e av_call = "u32 \<Rightarrow> u16 \<Rightarrow> u32 \<Rightarrow> bytes \<Rightarrow> nat \<Rightarrow> nat \<Rightarrow> ('e, epic_error, bytes) may_step"
type_synonym ('e, 'a) av_may = "('e av_audio, epic_error, 'a) may_step"

section \<open>Finding and opening the service\<close>

definition av_audio_service :: "'s epic \<Rightarrow> epic_service option" where
  "av_audio_service e =
     (case find_service DCP_AV_SERVICE e of
        Some s \<Rightarrow> Some s
      | None \<Rightarrow>
          (case find_service_by_suffix DCP_AV_SERVICE e of
             Some s \<Rightarrow> Some s
           | None \<Rightarrow> find_service (ascii ''DCPAVAudioInterface'') e))"

definition av_service_step :: "'s remoteproc \<Rightarrow> nat \<Rightarrow> 's epic \<Rightarrow>
    ('s epic, (epic_error + u32) \<times> 's epic) loop_step option" where
  "av_service_step R start e =
     (case av_audio_service e of
        Some s \<Rightarrow> Some (Done (Inr (svc_channel s), e))
      | None \<Rightarrow>
          if DCP_AV_SERVICE_TIMEOUT_US \<le> epic_now R e - start
          then Some (Done (Inl (Epic ''apple-dcpext: DCP AV audio service not announced''), e))
          else case epic_poll R e of
                 None \<Rightarrow> None
               | Some (Inl x, e1) \<Rightarrow> Some (Done (Inl x, e1))
               | Some (Inr _, e1) \<Rightarrow> Some (Again (spin R e1)))"

definition wait_for_audio_service :: "'s remoteproc \<Rightarrow> ('s, u32) epic_may" where
  "wait_for_audio_service R e = loop (av_service_step R (epic_now R e)) e"

text \<open>The reply of a request for a serialized object, and the object in it.\<close>

definition osobject_of :: "nat \<Rightarrow> bytes \<Rightarrow> epic_error + bytes" where
  "osobject_of output_max_size reply =
     (if length reply < AV_OSOBJECT_HEADER_SIZE then Inl (Epic ''apple-dcpext: short AV OSObject reply'')
      else let used_size = unat (le_at reply 32 8 :: u64)
      in if used_size < 4 \<or> used_size > output_max_size
         then Inl (Epic ''apple-dcpext: invalid AV OSObject used size'')
         else if 2 ^ 64 \<le> AV_OSOBJECT_HEADER_SIZE + used_size
         then Inl (Epic ''apple-dcpext: AV OSObject reply overflow'')
         else if length reply < AV_OSOBJECT_HEADER_SIZE + used_size
         then Inl (Epic ''apple-dcpext: truncated AV OSObject reply'')
         else Inr (take used_size (drop AV_OSOBJECT_HEADER_SIZE reply)))"

definition get_osobject :: "'e av_call \<Rightarrow> u32 \<Rightarrow> u16 \<Rightarrow> u32 \<Rightarrow> nat \<Rightarrow> ('e, epic_error, bytes) may_step" where
  "get_osobject call channel grp command output_max_size =
     (if 2 ^ 64 \<le> AV_OSOBJECT_HEADER_SIZE + output_max_size
      then total_step (err (Epic ''apple-dcpext: AV OSObject request overflow''))
      else let transfer_size = AV_OSOBJECT_HEADER_SIZE + output_max_size;
               header = le_bytes 8 (of_nat output_max_size :: u64) @ replicate 40 0
      in may_bind (call channel grp command header transfer_size transfer_size) (\<lambda>reply.
           total_step (\<lambda>e. (osobject_of output_max_size reply, e))))"

text \<open>A call whose error is ignored; an arithmetic panic of the transport is not an error.\<close>

definition attempt :: "('e, epic_error, 'a) may_step \<Rightarrow> ('e, epic_error, unit) may_step" where
  "attempt m e = map_option (\<lambda>(r, e').
     (case r of Inl (Transport AfkPanic) \<Rightarrow> Inl (Transport AfkPanic) | _ \<Rightarrow> Inr (), e')) (m e)"

definition cookie_found :: "(string + bytes) option \<Rightarrow> bool" where
  "cookie_found r = (case r of Some (Inr _) \<Rightarrow> True | _ \<Rightarrow> False)"

definition av_commands_for :: "bool \<Rightarrow> av_commands" where
  "av_commands_for firmware_13_3_or_newer = (if firmware_13_3_or_newer then AV_COMMANDS_V13_5 else AV_COMMANDS_V12_3)"

text \<open>
  The part of \<open>start\<close> behind the discovery of the service. On an error the endpoint is dropped; the
  state that is returned with it is the endpoint at that moment.
\<close>

definition av_open :: "'e av_call \<Rightarrow> bool \<Rightarrow> u32 \<Rightarrow> ('e, epic_error, 'e av_audio) may_step" where
  "av_open call firmware_13_3_or_newer channel =
     (let commands = av_commands_for firmware_13_3_or_newer;
          close = (\<lambda>e. attempt (call channel 0 (cmd_close commands) [] 16 16) e)
      in may_bind (call channel 0 (cmd_open commands) [] 32 32) (\<lambda>_ e1.
           case get_osobject call channel 1 (cmd_get_elements commands) AV_ELEMENTS_MAX_SIZE e1 of
             None \<Rightarrow> None
           | Some (Inl x, e2) \<Rightarrow> may_bind close (\<lambda>_. total_step (err x)) e2
           | Some (Inr elements, e2) \<Rightarrow>
               if cookie_found (select_cookie elements 48000 16 2) \<or> cookie_found (select_cookie elements 48000 32 2)
               then Some (Inr \<lparr>av_endpoint = e2, av_channel = channel, av_commands = commands, av_elements = elements,
                      av_opened = True, av_prepared = False, av_started = False\<rparr>, e2)
               else may_bind close (\<lambda>_. total_step
                      (err (Epic ''apple-dcpext: sink has no 48 kHz stereo S16/S32 audio mode''))) e2))"

text \<open>\<open>start\<close> on an RTKit instance.\<close>

definition av_start :: "(mem \<times> 'k) platform \<Rightarrow> (nat \<Rightarrow> nat \<Rightarrow> mem \<times> 'k \<Rightarrow> mem \<times> 'k) \<Rightarrow> (nat \<Rightarrow> nat) \<Rightarrow> bool \<Rightarrow>
    (mem \<times> 'k) rtkit \<Rightarrow> (epic_error + (mem \<times> 'k) rtkit epic av_audio) option" where
  "av_start P free virt firmware_13_3_or_newer r =
     (let R = rtkit_remoteproc P DCP_AV_EP free virt
      in case start_ep DCP_AV_EP r of
           (Inl _, _) \<Rightarrow> Some (Inl (Epic ''apple-dcpext: failed to start AV RTKit endpoint''))
         | (Inr _, r1) \<Rightarrow>
        (case epic_new R r1 of
           None \<Rightarrow> None
         | Some (Inl x) \<Rightarrow> Some (Inl x)
         | Some (Inr e) \<Rightarrow>
             map_option fst (may_bind (wait_for_audio_service R)
               (\<lambda>channel. av_open (call_by_channel_sized R) firmware_13_3_or_newer channel) e)))"

section \<open>The link\<close>

definition av_cookie :: "u32 \<Rightarrow> u32 \<Rightarrow> u32 \<Rightarrow> 'e av_audio \<Rightarrow> (string + bytes) option" where
  "av_cookie rate_hz sample_bits channels v =
     (if \<not> av_opened v then Some (Inl ''apple-dcpext: DisplayPort audio service is closed'')
      else select_cookie (av_elements v) rate_hz sample_bits channels)"

definition av_supports :: "u32 \<Rightarrow> u32 \<Rightarrow> u32 \<Rightarrow> 'e av_audio \<Rightarrow> bool" where
  "av_supports rate_hz sample_bits channels v = cookie_found (av_cookie rate_hz sample_bits channels v)"

definition link_call :: "'e av_call \<Rightarrow> u32 \<Rightarrow> bytes \<Rightarrow> nat \<Rightarrow> ('e, bytes) av_may" where
  "link_call call command data n v =
     map_option (\<lambda>(r, e). (r, v\<lparr>av_endpoint := e\<rparr>)) (call (av_channel v) 0 command data n n (av_endpoint v))"

definition av_prepare :: "'e av_call \<Rightarrow> bytes \<Rightarrow> ('e, unit) av_may" where
  "av_prepare call cookie v =
     (if av_started v then Some (Inl (Epic ''apple-dcpext: cannot prepare a running audio link''), v)
      else may_bind (link_call call (cmd_prepare (av_commands v)) cookie AV_LINK_CALL_SIZE)
             (\<lambda>_. total_step (put_state (\<lambda>v. v\<lparr>av_prepared := True\<rparr>))) v)"

definition av_start_link :: "'e av_call \<Rightarrow> bytes \<Rightarrow> ('e, unit) av_may" where
  "av_start_link call cookie v =
     (if \<not> av_prepared v then Some (Inl (Epic ''apple-dcpext: audio link has not been prepared''), v)
      else if av_started v then Some (Inr (), v)
      else may_bind (link_call call (cmd_start_link (av_commands v)) cookie AV_LINK_CALL_SIZE)
             (\<lambda>_. total_step (put_state (\<lambda>v. v\<lparr>av_started := True\<rparr>))) v)"

definition av_stop_link :: "'e av_call \<Rightarrow> ('e, unit) av_may" where
  "av_stop_link call v =
     (if \<not> av_started v then Some (Inr (), v)
      else may_bind (link_call call (cmd_stop_link (av_commands v)) [] AV_LINK_CALL_SIZE)
             (\<lambda>_. total_step (put_state (\<lambda>v. v\<lparr>av_started := False\<rparr>))) v)"

definition av_unprepare :: "'e av_call \<Rightarrow> ('e, unit) av_may" where
  "av_unprepare call v =
     (if av_started v then Some (Inl (Epic ''apple-dcpext: stop audio before unpreparing it''), v)
      else if \<not> av_prepared v then Some (Inr (), v)
      else may_bind (link_call call (cmd_unprepare (av_commands v)) [] AV_LINK_CALL_SIZE)
             (\<lambda>_. total_step (put_state (\<lambda>v. v\<lparr>av_prepared := False\<rparr>))) v)"

text \<open>One stage of the shutdown: the command is sent when the flag is set, and the flag is cleared.\<close>

definition shutdown_stage :: "'e av_call \<Rightarrow> ('e av_audio \<Rightarrow> bool) \<Rightarrow> (av_commands \<Rightarrow> u32) \<Rightarrow> nat \<Rightarrow>
    ('e av_audio \<Rightarrow> 'e av_audio) \<Rightarrow> ('e, unit) av_may" where
  "shutdown_stage call flag command n clear v =
     (if flag v
      then may_bind (attempt (link_call call (command (av_commands v)) [] n)) (\<lambda>_. total_step (put_state clear)) v
      else Some (Inr (), v))"

definition av_shutdown :: "'e av_call \<Rightarrow> ('e, unit) av_may" where
  "av_shutdown call =
     may_bind (shutdown_stage call av_started cmd_stop_link AV_LINK_CALL_SIZE (\<lambda>v. v\<lparr>av_started := False\<rparr>)) (\<lambda>_.
     may_bind (shutdown_stage call av_prepared cmd_unprepare AV_LINK_CALL_SIZE (\<lambda>v. v\<lparr>av_prepared := False\<rparr>)) (\<lambda>_.
     shutdown_stage call av_opened cmd_close 16 (\<lambda>v. v\<lparr>av_opened := False\<rparr>)))"

end
