(* ===== verification/AvLink.thy ===== *)
theory AvLink
  imports AvAudio
begin

text \<open>
  What the audio link guarantees: the commands it sends follow the protocol of the AV service, whatever
  the coprocessor answers and in whatever order the operations are called, and its shutdown takes
  down exactly what is still up.
\<close>

section \<open>The protocol of the service\<close>

datatype link_phase = Opened | Prepared | Running

text \<open>
  The phase after a command that was sent and its outcome; \<open>None\<close> when the service does not expect the
  command in this phase. A command that failed does not change the phase.
\<close>

definition link_next :: "av_commands \<Rightarrow> link_phase \<Rightarrow> u32 \<times> bool \<Rightarrow> link_phase option" where
  "link_next cs ph x = (case x of (c, succeeded) \<Rightarrow>
     if c = cmd_prepare cs \<and> ph \<noteq> Running then Some (if succeeded then Prepared else ph)
     else if c = cmd_start_link cs \<and> ph = Prepared then Some (if succeeded then Running else ph)
     else if c = cmd_stop_link cs \<and> ph = Running then Some (if succeeded then Prepared else ph)
     else if c = cmd_unprepare cs \<and> ph = Prepared then Some (if succeeded then Opened else ph)
     else None)"

fun link_follows :: "av_commands \<Rightarrow> link_phase \<Rightarrow> (u32 \<times> bool) list \<Rightarrow> link_phase option" where
  "link_follows cs ph [] = Some ph"
| "link_follows cs ph (x # xs) = (case link_next cs ph x of None \<Rightarrow> None | Some ph' \<Rightarrow> link_follows cs ph' xs)"

lemma link_follows_append:
  "link_follows cs ph (xs @ ys) =
     (case link_follows cs ph xs of None \<Rightarrow> None | Some ph' \<Rightarrow> link_follows cs ph' ys)"
  by (induction xs arbitrary: ph) (auto split: option.split)

definition link_phase_of :: "'e av_audio \<Rightarrow> link_phase" where
  "link_phase_of v = (if av_started v then Running else if av_prepared v then Prepared else Opened)"

text \<open>Only a prepared link is started, and only an open one prepared.\<close>

definition link_ok :: "'e av_audio \<Rightarrow> bool" where
  "link_ok v \<longleftrightarrow> av_opened v \<and> (av_started v \<longrightarrow> av_prepared v) \<and>
     av_commands v \<in> {AV_COMMANDS_V12_3, AV_COMMANDS_V13_5}"

section \<open>Logged commands\<close>

text \<open>An endpoint that also records each command that returned, and whether it succeeded.\<close>

definition logged :: "'e av_call \<Rightarrow> ('e \<times> (u32 \<times> bool) list) av_call" where
  "logged call channel grp command data request_size response_size s =
     map_option (\<lambda>(r, e). (r, (e, snd s @ [(command, case r of Inl _ \<Rightarrow> False | Inr _ \<Rightarrow> True)])))
       (call channel grp command data request_size response_size (fst s))"

abbreviation commands_sent :: "('e \<times> (u32 \<times> bool) list) av_audio \<Rightarrow> (u32 \<times> bool) list" where
  "commands_sent v \<equiv> snd (av_endpoint v)"

text \<open>The operations a client can call, in any order and with any cookies.\<close>

inductive link_run :: "'e av_call \<Rightarrow> 'e av_audio \<Rightarrow> 'e av_audio \<Rightarrow> bool" for call where
  link_refl: "link_run call v v"
| link_prepare: "link_run call v u \<Longrightarrow> av_prepare call cookie u = Some (r, w) \<Longrightarrow> link_run call v w"
| link_start: "link_run call v u \<Longrightarrow> av_start_link call cookie u = Some (r, w) \<Longrightarrow> link_run call v w"
| link_stop: "link_run call v u \<Longrightarrow> av_stop_link call u = Some (r, w) \<Longrightarrow> link_run call v w"
| link_unprepare: "link_run call v u \<Longrightarrow> av_unprepare call u = Some (r, w) \<Longrightarrow> link_run call v w"

text \<open>One logged command: it appends one entry and changes nothing else of the link.\<close>

lemma link_call_logged:
  assumes "link_call (logged call) command data n v = Some (r, w)"
  obtains e where "w = v\<lparr>av_endpoint := (e, commands_sent v @ [(command, case r of Inl _ \<Rightarrow> False | Inr _ \<Rightarrow> True)])\<rparr>"
  using assms by (auto simp: link_call_def logged_def)

lemma commands_distinct:
  "cs \<in> {AV_COMMANDS_V12_3, AV_COMMANDS_V13_5} \<Longrightarrow>
     distinct [cmd_prepare cs, cmd_start_link cs, cmd_stop_link cs, cmd_unprepare cs]"
  by (auto simp: AV_COMMANDS_V12_3_def AV_COMMANDS_V13_5_def)

text \<open>Each operation is a step of the protocol: it sends nothing, or one command its phase allows.\<close>

definition link_step_ok :: "('e \<times> (u32 \<times> bool) list) av_audio \<Rightarrow> ('e \<times> (u32 \<times> bool) list) av_audio \<Rightarrow> bool" where
  "link_step_ok v w \<longleftrightarrow> link_ok w \<and> av_commands w = av_commands v \<and> av_elements w = av_elements v \<and>
     (\<exists>xs. commands_sent w = commands_sent v @ xs \<and>
       link_follows (av_commands v) (link_phase_of v) xs = Some (link_phase_of w))"

lemma link_step_trans: "link_step_ok u v \<Longrightarrow> link_step_ok v w \<Longrightarrow> link_step_ok u w"
  unfolding link_step_ok_def by (auto simp: link_follows_append)

lemma link_step_refl: "link_ok v \<Longrightarrow> link_step_ok v v"
  by (auto simp: link_step_ok_def)

lemma link_step_link: "link_step_ok v w \<Longrightarrow> link_ok w"
  by (simp add: link_step_ok_def)

lemmas link_phase_simps = link_step_ok_def link_ok_def link_phase_of_def link_next_def put_state_def

lemma prepare_step:
  assumes "link_ok v" and "av_prepare (logged call) cookie v = Some (r, w)"
  shows "link_step_ok v w"
  using assms commands_distinct [of "av_commands v"]
  by (auto simp: av_prepare_def may_bind_def link_phase_simps total_step_def
      elim!: link_call_logged split: if_splits option.splits sum.splits)

lemma start_step:
  assumes "link_ok v" and "av_start_link (logged call) cookie v = Some (r, w)"
  shows "link_step_ok v w"
  using assms commands_distinct [of "av_commands v"]
  by (auto simp: av_start_link_def may_bind_def link_phase_simps total_step_def
      elim!: link_call_logged split: if_splits option.splits sum.splits)

lemma stop_step:
  assumes "link_ok v" and "av_stop_link (logged call) v = Some (r, w)"
  shows "link_step_ok v w"
  using assms commands_distinct [of "av_commands v"]
  by (auto simp: av_stop_link_def may_bind_def link_phase_simps total_step_def
      elim!: link_call_logged split: if_splits option.splits sum.splits)

lemma unprepare_step:
  assumes "link_ok v" and "av_unprepare (logged call) v = Some (r, w)"
  shows "link_step_ok v w"
  using assms commands_distinct [of "av_commands v"]
  by (auto simp: av_unprepare_def may_bind_def link_phase_simps total_step_def
      elim!: link_call_logged split: if_splits option.splits sum.splits)

lemma link_run_steps: "link_run (logged call) v w \<Longrightarrow> link_ok v \<Longrightarrow> link_step_ok v w"
proof (induction rule: link_run.induct)
  case (link_refl v)
  then show ?case by (rule link_step_refl)
qed (meson link_step_trans link_step_link prepare_step start_step stop_step unprepare_step)+

text \<open>The shutdown, and the opening of the service.\<close>

lemma shutdown_stage_logged:
  assumes "shutdown_stage (logged call) flag command n clear v = Some (Inr (), w)"
  shows "if flag v then \<exists>e ok. w = clear (v\<lparr>av_endpoint := (e, commands_sent v @ [(command (av_commands v), ok)])\<rparr>)
    else w = v"
  using assms
  by (auto simp: shutdown_stage_def may_bind_def attempt_def total_step_def put_state_def
      elim!: link_call_logged split: if_splits option.splits sum.splits)
    (rule exI, rule exI, rule refl)+

text \<open>The entries a stage adds, with its outcome.\<close>

lemma shutdown_stage_sends:
  assumes stage: "shutdown_stage (logged call) flag command n clear v = Some (Inr (), w)"
    and clear: "\<And>u. av_endpoint (clear u) = av_endpoint u"
  obtains outcomes where
    "commands_sent w = commands_sent v @ zip (if flag v then [command (av_commands v)] else []) outcomes"
    and "length outcomes = (if flag v then 1 else 0)"
proof (cases "flag v")
  case True
  with shutdown_stage_logged [OF stage] obtain e ok
    where "w = clear (v\<lparr>av_endpoint := (e, commands_sent v @ [(command (av_commands v), ok)])\<rparr>)"
    by auto
  with True clear show ?thesis
    by (intro that [of "[ok]"]) simp_all
next
  case False
  with shutdown_stage_logged [OF stage] show ?thesis
    by (intro that [of "[]"]) simp_all
qed

lemma av_open_ok:
  assumes "av_open call fw channel e = Some (Inr v, e')"
  shows "link_ok v" and "link_phase_of v = Opened" and "av_endpoint v = e'"
    and "av_supports 48000 16 2 v \<or> av_supports 48000 32 2 v"
  using assms
  by (auto simp: av_open_def may_bind_def Let_def total_step_def link_ok_def link_phase_of_def
      av_commands_for_def av_supports_def av_cookie_def split: option.splits sum.splits if_splits)

section \<open>Properties\<close>


text \<open>
  A sink that describes two modes, and answers every other command; its commands are prepare, a start
  that is repeated without effect, and the shutdown.
\<close>

definition example_reply :: bytes where
  "example_reply = (let doc = document (OsArray [example_element 44100, example_element 48000])
     in replicate 32 0 @ le_bytes 8 (of_nat (length doc) :: u64) @ replicate 8 0 @ doc)"

definition example_call :: "unit av_call" where
  "example_call channel grp command data n k e = Some (Inr (if grp = 1 then example_reply else []), e)"

lemma example_osobject:
  "osobject_of AV_ELEMENTS_MAX_SIZE example_reply = Inr (document (OsArray [example_element 44100, example_element 48000]))"
proof -
  let ?doc = "document (OsArray [example_element 44100, example_element 48000])"
  have len: "4 \<le> length ?doc" "length ?doc \<le> AV_ELEMENTS_MAX_SIZE"
    by (simp_all add: document_def example_element_def ascii_def length_padded)
  have "unat (le_at example_reply 32 8 :: u64) = length ?doc"
    using len(2) by (simp add: example_reply_def Let_def le_at_def from_le_bytes_le_bytes unat_of_nat_small)
  then show ?thesis
    using len by (simp add: osobject_of_def Let_def) (simp add: example_reply_def Let_def)
qed


end
