(* ===== verification/Mmio.thy ===== *)
theory Mmio
  imports Prelude
begin

text \<open>
  Device registers behind \<open>mmio::read32\<close> and \<open>mmio::write32\<close>. The hardware is a parameter: a state of
  any type with what a read returns, what an access does to the state, and what a microsecond of
  waiting does to it; nothing is assumed about it, a read may return any value at any time. For
  properties about the accesses themselves the same driver code is run on the hardware with a
  trace of its accesses.
\<close>

section \<open>The bus\<close>

record 'd bus =
  bus_read :: "nat \<Rightarrow> 'd \<Rightarrow> u32 \<times> 'd"
  bus_write :: "nat \<Rightarrow> u32 \<Rightarrow> 'd \<Rightarrow> 'd"
  bus_udelay :: "nat \<Rightarrow> 'd \<Rightarrow> 'd"

definition read32 :: "'d bus \<Rightarrow> nat \<Rightarrow> ('d, 'e, u32) stepper" where
  "read32 B a d = (case bus_read B a d of (v, d') \<Rightarrow> (Inr v, d'))"

definition mmio_write32 :: "'d bus \<Rightarrow> nat \<Rightarrow> u32 \<Rightarrow> ('d, 'e, unit) stepper" where
  "mmio_write32 B a v d = (Inr (), bus_write B a v d)"

definition udelay_us :: "'d bus \<Rightarrow> nat \<Rightarrow> ('d, 'e, unit) stepper" where
  "udelay_us B n d = (Inr (), bus_udelay B n d)"

section \<open>Traces\<close>

datatype bus_access = BusRead nat u32 | BusWrite nat u32 | BusDelay nat

text \<open>The hardware with a trace of the accesses, the latest last.\<close>

definition traced :: "'d bus \<Rightarrow> ('d \<times> bus_access list) bus" where
  "traced B = \<lparr>
     bus_read = (\<lambda>a (d, tr). case bus_read B a d of (v, d') \<Rightarrow> (v, (d', tr @ [BusRead a v]))),
     bus_write = (\<lambda>a v (d, tr). (bus_write B a v d, tr @ [BusWrite a v])),
     bus_udelay = (\<lambda>n (d, tr). (bus_udelay B n d, tr @ [BusDelay n]))\<rparr>"

named_theorems bus_simps \<open>one access on the traced hardware\<close>

lemma read32_traced [bus_simps]:
  "read32 (traced B) a (d, tr) = (Inr (fst (bus_read B a d)), (snd (bus_read B a d), tr @ [BusRead a (fst (bus_read B a d))]))"
  by (simp add: read32_def traced_def split: prod.split)

lemma write32_traced [bus_simps]:
  "mmio_write32 (traced B) a v (d, tr) = (Inr (), (bus_write B a v d, tr @ [BusWrite a v]))"
  by (simp add: mmio_write32_def traced_def)

lemma udelay_traced [bus_simps]:
  "udelay_us (traced B) n (d, tr) = (Inr (), (bus_udelay B n d, tr @ [BusDelay n]))"
  by (simp add: udelay_us_def traced_def)

text \<open>
  \<open>traces m P\<close>: on every hardware the step adds accesses to the trace, and these, with its result,
  satisfy \<open>P\<close>. The rules compose it along the steps of a driver operation.
\<close>

definition traces :: "('d \<times> bus_access list, 'e, 'a) stepper \<Rightarrow> ('e + 'a \<Rightarrow> bus_access list \<Rightarrow> bool) \<Rightarrow> bool" where
  "traces m P \<longleftrightarrow> (\<forall>d tr. \<exists>r d' acc. m (d, tr) = (r, (d', tr @ acc)) \<and> P r acc)"

lemma tracesD:
  assumes "traces m P" and "m (d, tr) = (r, (d', tr'))"
  obtains acc where "tr' = tr @ acc" and "P r acc"
  using assms unfolding traces_def by (metis prod.inject)

lemma tracesI:
  assumes "\<And>d tr. \<exists>r d' acc. m (d, tr) = (r, (d', tr @ acc)) \<and> P r acc"
  shows "traces m P"
  using assms by (simp add: traces_def)

lemma traces_weaken: "traces m P \<Longrightarrow> (\<And>r acc. P r acc \<Longrightarrow> Q r acc) \<Longrightarrow> traces m Q"
  unfolding traces_def by metis

lemma traces_ok: "traces (ok x) (\<lambda>r acc. r = Inr x \<and> acc = [])"
  by (simp add: traces_def)

lemma traces_err: "traces (err e) (\<lambda>r acc. r = Inl e \<and> acc = [])"
  by (simp add: traces_def)

lemma traces_read: "traces (read32 (traced B) a) (\<lambda>r acc. \<exists>v. r = Inr v \<and> acc = [BusRead a v])"
  by (simp add: traces_def read32_traced)

lemma traces_write: "traces (mmio_write32 (traced B) a v) (\<lambda>r acc. r = Inr () \<and> acc = [BusWrite a v])"
  by (simp add: traces_def write32_traced)

lemma traces_delay: "traces (udelay_us (traced B) n) (\<lambda>r acc. r = Inr () \<and> acc = [BusDelay n])"
  by (simp add: traces_def udelay_traced)

lemma traces_bind:
  assumes m: "traces m P" and f: "\<And>x. traces (f x) (Q x)"
  shows "traces (try_bind m f)
    (\<lambda>r acc. (\<exists>e. r = Inl e \<and> P (Inl e) acc) \<or>
      (\<exists>x acc1 acc2. acc = acc1 @ acc2 \<and> P (Inr x) acc1 \<and> Q x r acc2))"
proof (rule tracesI)
  fix d tr
  obtain r d' acc where run: "m (d, tr) = (r, (d', tr @ acc))" "P r acc"
    using m unfolding traces_def by blast
  show "\<exists>r d' acc. try_bind m f (d, tr) = (r, d', tr @ acc) \<and>
    ((\<exists>e. r = Inl e \<and> P (Inl e) acc) \<or> (\<exists>x acc1 acc2. acc = acc1 @ acc2 \<and> P (Inr x) acc1 \<and> Q x r acc2))"
  proof (cases r)
    case (Inl e)
    with run show ?thesis by simp
  next
    case (Inr x)
    obtain r2 d2 acc2 where "f x (d', tr @ acc) = (r2, (d2, (tr @ acc) @ acc2))" "Q x r2 acc2"
      using f [of x] unfolding traces_def by blast
    with run Inr show ?thesis
      by (intro exI [of _ r2] exI [of _ d2] exI [of _ "acc @ acc2"]) auto
  qed
qed

end
