(* ===== verification/BTree.thy ===== *)
theory BTree
  imports Prelude "HOL-Library.Product_Lexorder"
begin

text \<open>
  Rust's \<open>BTreeMap\<close> as an association list that is kept in the order of its keys, so that iteration
  visits the entries the way \<open>values()\<close> and \<open>iter()\<close> do.
\<close>

type_synonym ('k, 'v) btree = "('k \<times> 'v) list"

definition bt_get :: "'k \<Rightarrow> ('k, 'v) btree \<Rightarrow> 'v option" where
  "bt_get k t = map_of t k"

fun bt_insert :: "'k::linorder \<Rightarrow> 'v \<Rightarrow> ('k, 'v) btree \<Rightarrow> ('k, 'v) btree" where
  "bt_insert k v [] = [(k, v)]"
| "bt_insert k v ((k', v') # t) =
     (if k < k' then (k, v) # (k', v') # t
      else if k = k' then (k, v) # t
      else (k', v') # bt_insert k v t)"

definition bt_values :: "('k, 'v) btree \<Rightarrow> 'v list" where
  "bt_values t = map snd t"

text \<open>The invariant: strictly increasing keys.\<close>

definition bt_ok :: "('k::linorder, 'v) btree \<Rightarrow> bool" where
  "bt_ok t \<longleftrightarrow> sorted_wrt (<) (map fst t)"

lemma bt_ok_Nil [simp]: "bt_ok []"
  by (simp add: bt_ok_def)

lemma fst_bt_insert: "fst ` set (bt_insert k v t) = insert k (fst ` set t)"
  by (induction k v t rule: bt_insert.induct) (simp_all add: insert_commute)

lemma bt_ok_insert [simp]: "bt_ok t \<Longrightarrow> bt_ok (bt_insert k v t)"
proof (induction t)
  case (Cons x t)
  obtain k' v' where x: "x = (k', v')" by (cases x)
  have rest: "\<forall>y\<in>fst ` set t. k' < y" and t: "bt_ok t"
    using Cons.prems by (auto simp: bt_ok_def x)
  show ?case
    using Cons.IH [OF t] rest t fst_bt_insert [of k v t]
    by (auto simp: bt_ok_def x)
qed (simp add: bt_ok_def)

lemma bt_get_insert [simp]: "bt_get j (bt_insert k v t) = (if j = k then Some v else bt_get j t)"
  by (induction t) (auto simp: bt_get_def)

lemma bt_get_values: "bt_get k t = Some v \<Longrightarrow> v \<in> set (bt_values t)"
  by (auto simp: bt_get_def bt_values_def dest: map_of_SomeD intro: rev_image_eqI)

end
