(* ===== verification/Pmgr.thy ===== *)
theory Pmgr
  imports Mmio BTree
begin

text \<open>
  The power manager (\<^verbatim>\<open>drivers/soc/apple-pmgr\<close>): the power state and reset sequences of one domain's
  register, the registry of controllers and domains, and the operations on a domain with its parents.
  The registry is only written while devices are probed, so the operations take it as an argument.
\<close>

section \<open>Registers\<close>

definition PMGR_PS_TARGET :: u32 where "PMGR_PS_TARGET = 0xf"
definition PMGR_PS_ACTUAL :: u32 where "PMGR_PS_ACTUAL = 0xf0"
definition PMGR_RESET :: u32 where "PMGR_RESET = push_bit 31 1"
definition PMGR_DEVICE_DISABLE :: u32 where "PMGR_DEVICE_DISABLE = push_bit 10 1"
definition PMGR_FLAGS :: u32 where "PMGR_FLAGS = push_bit 9 1 OR push_bit 8 1"
abbreviation (input) PMGR_PS_ACTIVE :: u32 where "PMGR_PS_ACTIVE \<equiv> 0xf"
abbreviation (input) PMGR_PS_PWRGATE :: u32 where "PMGR_PS_PWRGATE \<equiv> 0"

record pm_domain =
  dom_offset :: nat
  dom_pmgr_phandle :: u32
  dom_label :: string
  dom_always_on :: bool
  dom_externally_clocked :: bool
  dom_reset_cells :: "nat option"
  dom_index :: u32
  dom_parents :: "u32 list"

record pmgr_instance =
  pm_paddr :: nat
  pm_base :: nat
  pm_size :: nat

record pmgr_registry =
  pm_instances :: "(u32, pmgr_instance) btree"
  pm_domains :: "(u32 \<times> u32, pm_domain) btree"
  pm_pwrstates :: "(u32, u32 \<times> u32) btree"

record pmgr_handle =
  ph_instance :: pmgr_instance
  ph_domain :: pm_domain

definition pmgr_registry_new :: pmgr_registry where
  "pmgr_registry_new = \<lparr>pm_instances = [], pm_domains = [], pm_pwrstates = []\<rparr>"

definition domain_reg :: "pmgr_instance \<Rightarrow> pm_domain \<Rightarrow> nat" where
  "domain_reg i dm = pm_base i + dom_offset dm"

definition pm_actual :: "u32 \<Rightarrow> u32" where
  "pm_actual v = drop_bit 4 (v AND PMGR_PS_ACTUAL)"

section \<open>One domain\<close>

text \<open>The polling loop, with the number of reads it may still make.\<close>

fun poll_actual :: "'d bus \<Rightarrow> nat \<Rightarrow> u32 \<Rightarrow> string \<Rightarrow> nat \<Rightarrow> ('d, string, unit) stepper" where
  "poll_actual B reg wanted msg 0 = err msg"
| "poll_actual B reg wanted msg (Suc n) =
     try_bind (read32 B reg) (\<lambda>v. if pm_actual v = wanted then ok () else poll_actual B reg wanted msg n)"

definition enable_domain_local :: "'d bus \<Rightarrow> pmgr_instance \<Rightarrow> pm_domain \<Rightarrow> ('d, string, unit) stepper" where
  "enable_domain_local B i dm =
     (if dom_always_on dm then ok ()
      else try_bind (read32 B (domain_reg i dm)) (\<lambda>reg.
        if pm_actual reg = PMGR_PS_ACTIVE then ok ()
        else try_bind (mmio_write32 B (domain_reg i dm)
               (((reg AND NOT PMGR_PS_TARGET) OR PMGR_PS_ACTIVE) AND NOT PMGR_FLAGS)) (\<lambda>_.
             poll_actual B (domain_reg i dm) PMGR_PS_ACTIVE ''pmgr: power domain enable timeout'' 1000)))"

definition disable_domain_local :: "'d bus \<Rightarrow> pmgr_instance \<Rightarrow> pm_domain \<Rightarrow> ('d, string, unit) stepper" where
  "disable_domain_local B i dm =
     (if dom_always_on dm then ok ()
      else try_bind (read32 B (domain_reg i dm)) (\<lambda>reg.
        if pm_actual reg = PMGR_PS_PWRGATE then ok ()
        else try_bind (mmio_write32 B (domain_reg i dm) (reg AND NOT PMGR_PS_TARGET)) (\<lambda>_.
             poll_actual B (domain_reg i dm) PMGR_PS_PWRGATE ''pmgr: power domain disable timeout'' 1000)))"

definition reset_assert_domain_local :: "'d bus \<Rightarrow> pmgr_instance \<Rightarrow> pm_domain \<Rightarrow> ('d, string, unit) stepper" where
  "reset_assert_domain_local B i dm =
     try_bind (read32 B (domain_reg i dm)) (\<lambda>reg.
     try_bind (mmio_write32 B (domain_reg i dm)
       ((reg AND NOT (PMGR_FLAGS OR PMGR_DEVICE_DISABLE)) OR PMGR_DEVICE_DISABLE)) (\<lambda>_.
     try_bind (read32 B (domain_reg i dm)) (\<lambda>reg.
     mmio_write32 B (domain_reg i dm) ((reg AND NOT (PMGR_FLAGS OR PMGR_RESET)) OR PMGR_RESET))))"

definition reset_deassert_domain_local :: "'d bus \<Rightarrow> pmgr_instance \<Rightarrow> pm_domain \<Rightarrow> ('d, string, unit) stepper" where
  "reset_deassert_domain_local B i dm =
     try_bind (read32 B (domain_reg i dm)) (\<lambda>reg.
     try_bind (mmio_write32 B (domain_reg i dm) (reg AND NOT (PMGR_FLAGS OR PMGR_RESET))) (\<lambda>_.
     try_bind (read32 B (domain_reg i dm)) (\<lambda>reg.
     mmio_write32 B (domain_reg i dm) (reg AND NOT (PMGR_FLAGS OR PMGR_DEVICE_DISABLE)))))"

definition is_domain_on_local :: "'d bus \<Rightarrow> pmgr_instance \<Rightarrow> pm_domain \<Rightarrow> ('d, string, bool) stepper" where
  "is_domain_on_local B i dm =
     try_bind (read32 B (domain_reg i dm)) (\<lambda>reg. ok (pm_actual reg = PMGR_PS_ACTIVE))"

section \<open>The registry\<close>

definition pmgr_get_domain :: "pmgr_registry option \<Rightarrow> u32 \<Rightarrow> u32 \<Rightarrow> string + pmgr_handle" where
  "pmgr_get_domain G pmgr_phandle domain_index =
     (case G of
        None \<Rightarrow> Inl ''pmgr: registry not initialized''
      | Some g \<Rightarrow>
          (case bt_get (pmgr_phandle, domain_index) (pm_domains g) of
             None \<Rightarrow> Inl ''pmgr: domain not found''
           | Some dm \<Rightarrow>
               (case bt_get pmgr_phandle (pm_instances g) of
                  None \<Rightarrow> Inl ''pmgr: instance not found''
                | Some i \<Rightarrow> Inr \<lparr>ph_instance = i, ph_domain = dm\<rparr>)))"

definition pmgr_get_domain_by_label :: "pmgr_registry option \<Rightarrow> string \<Rightarrow> string + pmgr_handle" where
  "pmgr_get_domain_by_label G label =
     (case G of
        None \<Rightarrow> Inl ''pmgr: registry not initialized''
      | Some g \<Rightarrow>
          (case find (\<lambda>dm. dom_label dm = label) (bt_values (pm_domains g)) of
             None \<Rightarrow> Inl ''pmgr: domain label not found''
           | Some dm \<Rightarrow>
               (case bt_get (dom_pmgr_phandle dm) (pm_instances g) of
                  None \<Rightarrow> Inl ''pmgr: instance not found''
                | Some i \<Rightarrow> Inr \<lparr>ph_instance = i, ph_domain = dm\<rparr>)))"

definition pmgr_is_initialized :: "pmgr_registry option \<Rightarrow> bool" where
  "pmgr_is_initialized G \<longleftrightarrow> G \<noteq> None"

definition pmgr_get_domain_by_phandle :: "pmgr_registry option \<Rightarrow> u32 \<Rightarrow> string + pmgr_handle" where
  "pmgr_get_domain_by_phandle G pwrstate_phandle =
     (case G of
        None \<Rightarrow> Inl ''pmgr: registry not initialized''
      | Some g \<Rightarrow>
          (case bt_get pwrstate_phandle (pm_pwrstates g) of
             None \<Rightarrow> Inl ''pmgr: pwrstate phandle not found''
           | Some (pmgr_phandle, domain_index) \<Rightarrow> pmgr_get_domain G pmgr_phandle domain_index))"

definition pmgr_get_domain_by_register_paddr :: "pmgr_registry option \<Rightarrow> nat \<Rightarrow> string + pmgr_handle" where
  "pmgr_get_domain_by_register_paddr G register_paddr =
     (case G of
        None \<Rightarrow> Inl ''pmgr: registry not initialized''
      | Some g \<Rightarrow>
          (case find (\<lambda>dm. case bt_get (dom_pmgr_phandle dm) (pm_instances g) of
                        None \<Rightarrow> False | Some i \<Rightarrow> pm_paddr i + dom_offset dm = register_paddr)
                  (bt_values (pm_domains g)) of
             None \<Rightarrow> Inl ''pmgr: register paddr not found''
           | Some dm \<Rightarrow>
               (case bt_get (dom_pmgr_phandle dm) (pm_instances g) of
                  None \<Rightarrow> Inl ''pmgr: register paddr not found''
                | Some i \<Rightarrow> Inr \<lparr>ph_instance = i, ph_domain = dm\<rparr>)))"

text \<open>\<open>with_instance\<close>: the controller of a domain.\<close>

definition instance_of :: "pmgr_registry option \<Rightarrow> pm_domain \<Rightarrow> pmgr_instance option" where
  "instance_of G dm = (case G of None \<Rightarrow> None | Some g \<Rightarrow> bt_get (dom_pmgr_phandle dm) (pm_instances g))"

definition with_instance :: "pmgr_registry option \<Rightarrow> pm_domain \<Rightarrow>
    (pmgr_instance \<Rightarrow> ('d, string, 'a) stepper) \<Rightarrow> ('d, string, 'a) stepper" where
  "with_instance G dm f = (case instance_of G dm of None \<Rightarrow> err ''pmgr: instance not found'' | Some i \<Rightarrow> f i)"

section \<open>A domain with its parents\<close>

text \<open>
  \<open>enable_domain\<close> recurses into the parents; the recursion has a depth here, and \<open>None\<close> is a chain of
  parents that is longer. Parents whose phandle is not registered are skipped.
\<close>

fun enable_parents :: "pmgr_registry option \<Rightarrow> (pm_domain \<Rightarrow> ('d, string, unit) may_step) \<Rightarrow> u32 list \<Rightarrow>
    ('d, string, unit) may_step" where
  "enable_parents G enable [] = total_step (ok ())"
| "enable_parents G enable (ph # phs) =
     (case pmgr_get_domain_by_phandle G ph of
        Inl _ \<Rightarrow> enable_parents G enable phs
      | Inr parent \<Rightarrow> may_bind (enable (ph_domain parent)) (\<lambda>_. enable_parents G enable phs))"

fun enable_domain :: "'d bus \<Rightarrow> pmgr_registry option \<Rightarrow> nat \<Rightarrow> pm_domain \<Rightarrow> ('d, string, unit) may_step" where
  "enable_domain B G 0 dm = (\<lambda>_. None)"
| "enable_domain B G (Suc depth) dm =
     may_bind (enable_parents G (enable_domain B G depth) (dom_parents dm))
       (\<lambda>_. total_step (with_instance G dm (\<lambda>i. enable_domain_local B i dm)))"

definition disable_domain :: "'d bus \<Rightarrow> pmgr_registry option \<Rightarrow> pm_domain \<Rightarrow> ('d, string, unit) stepper" where
  "disable_domain B G dm = with_instance G dm (\<lambda>i. disable_domain_local B i dm)"

definition reset_assert_domain :: "'d bus \<Rightarrow> pmgr_registry option \<Rightarrow> pm_domain \<Rightarrow> ('d, string, unit) stepper" where
  "reset_assert_domain B G dm = with_instance G dm (\<lambda>i. reset_assert_domain_local B i dm)"

definition reset_deassert_domain :: "'d bus \<Rightarrow> pmgr_registry option \<Rightarrow> pm_domain \<Rightarrow> ('d, string, unit) stepper" where
  "reset_deassert_domain B G dm = with_instance G dm (\<lambda>i. reset_deassert_domain_local B i dm)"

definition is_domain_on :: "'d bus \<Rightarrow> pmgr_registry option \<Rightarrow> pm_domain \<Rightarrow> ('d, string, bool) stepper" where
  "is_domain_on B G dm = (case instance_of G dm of None \<Rightarrow> ok False | Some i \<Rightarrow> is_domain_on_local B i dm)"

text \<open>The reset controller interface.\<close>

definition pm_reset_cells :: "pm_domain \<Rightarrow> nat" where
  "pm_reset_cells dm = (case dom_reset_cells dm of None \<Rightarrow> 0 | Some n \<Rightarrow> n)"

definition checked_spec :: "pm_domain \<Rightarrow> u32 list \<Rightarrow> ('d, string, unit) stepper \<Rightarrow> ('d, string, unit) stepper" where
  "checked_spec dm spec m = (if length spec \<noteq> pm_reset_cells dm then err ''apple-pmgr: invalid reset specifier'' else m)"

definition assert_reset :: "'d bus \<Rightarrow> pmgr_registry option \<Rightarrow> pm_domain \<Rightarrow> u32 list \<Rightarrow> ('d, string, unit) stepper" where
  "assert_reset B G dm spec = checked_spec dm spec (reset_assert_domain B G dm)"

definition deassert_reset :: "'d bus \<Rightarrow> pmgr_registry option \<Rightarrow> pm_domain \<Rightarrow> u32 list \<Rightarrow> ('d, string, unit) stepper" where
  "deassert_reset B G dm spec = checked_spec dm spec (reset_deassert_domain B G dm)"

definition pm_reset :: "'d bus \<Rightarrow> pmgr_registry option \<Rightarrow> pm_domain \<Rightarrow> u32 list \<Rightarrow> ('d, string, unit) stepper" where
  "pm_reset B G dm spec = checked_spec dm spec
     (try_bind (reset_assert_domain B G dm) (\<lambda>_. try_bind (udelay_us B 1) (\<lambda>_. reset_deassert_domain B G dm)))"

text \<open>The handle a lookup returns goes to its instance directly, except for enabling.\<close>

definition handle_enable :: "'d bus \<Rightarrow> pmgr_registry option \<Rightarrow> nat \<Rightarrow> pmgr_handle \<Rightarrow> ('d, string, unit) may_step" where
  "handle_enable B G depth h = enable_domain B G depth (ph_domain h)"

definition handle_disable :: "'d bus \<Rightarrow> pmgr_handle \<Rightarrow> ('d, string, unit) stepper" where
  "handle_disable B h = disable_domain_local B (ph_instance h) (ph_domain h)"

section \<open>Probing\<close>

text \<open>What the probe of a power state node reads from the device tree.\<close>

record pwrstate_node =
  node_offset :: "nat option"
  node_id :: nat
  node_label :: "string option"
  node_always_on :: bool
  node_externally_clocked :: bool
  node_reset_cells :: "nat option"
  node_phandle :: "u32 option"
  node_power_domains :: "u8 list option"
  node_parent_phandle :: "u32 option"

fun parent_phandles :: "u8 list \<Rightarrow> u32 list" where
  "parent_phandles (a # b # c # d # bs) =
     (let ph = push_bit 24 (ucast a) OR push_bit 16 (ucast b) OR push_bit 8 (ucast c) OR ucast d :: u32
      in if ph \<noteq> 0 then ph # parent_phandles bs else parent_phandles bs)"
| "parent_phandles _ = []"

definition pwrstate_probe :: "pwrstate_node \<Rightarrow> pmgr_registry option \<Rightarrow> (string + unit) \<times> pmgr_registry option" where
  "pwrstate_probe node G =
     (case node_offset node of
        None \<Rightarrow> (Inl ''apple-pmgr-pwrstate: no memory resource found'', G)
      | Some offset \<Rightarrow>
     (case G of
        None \<Rightarrow> (Inl ''apple-pmgr-pwrstate: PMGR registry not initialized'', G)
      | Some g \<Rightarrow>
     (case node_parent_phandle node of
        None \<Rightarrow> (Inl ''apple-pmgr-pwrstate: no parent phandle'', G)
      | Some parent \<Rightarrow>
          (let idx = of_nat (node_id node) :: u32;
               dm = \<lparr>dom_offset = offset, dom_pmgr_phandle = parent,
                 dom_label = (case node_label node of None \<Rightarrow> ''unknown'' | Some l \<Rightarrow> l),
                 dom_always_on = node_always_on node, dom_externally_clocked = node_externally_clocked node,
                 dom_reset_cells = node_reset_cells node, dom_index = idx,
                 dom_parents = (case node_power_domains node of None \<Rightarrow> [] | Some bs \<Rightarrow> parent_phandles bs)\<rparr>;
               g1 = g\<lparr>pm_domains := bt_insert (parent, idx) dm (pm_domains g)\<rparr>
           in (Inr (), Some (case node_phandle node of
                 None \<Rightarrow> g1
               | Some ph \<Rightarrow> g1\<lparr>pm_pwrstates := bt_insert ph (parent, idx) (pm_pwrstates g1)\<rparr>))))))"

text \<open>The probe of a controller, after its registers are mapped at \<open>base\<close>.\<close>

definition pmgr_probe :: "nat \<Rightarrow> nat \<Rightarrow> nat \<Rightarrow> u32 \<Rightarrow> pmgr_registry option \<Rightarrow> pmgr_registry option" where
  "pmgr_probe paddr sz base phandle G =
     (let g = (case G of None \<Rightarrow> pmgr_registry_new | Some g \<Rightarrow> g)
      in Some (g\<lparr>pm_instances := bt_insert phandle \<lparr>pm_paddr = paddr, pm_base = base, pm_size = sz\<rparr> (pm_instances g)\<rparr>))"

end
