(* ===== verification/PmgrDomain.thy ===== *)
theory PmgrDomain
  imports Pmgr
begin

text \<open>
  What the power manager guarantees on any hardware: a domain that was enabled is powered together with
  everything it depends on, in the right order and by writes that touch nothing else; the recursion
  into the parents ends on every registry without a cycle; probing registers what lookups find.
\<close>

section \<open>Dependencies\<close>

inductive needs :: "pmgr_registry option \<Rightarrow> pm_domain \<Rightarrow> pm_domain \<Rightarrow> bool" for G where
  needs_refl: "needs G dm dm"
| needs_parent: "ph \<in> set (dom_parents dm) \<Longrightarrow> pmgr_get_domain_by_phandle G ph = Inr h \<Longrightarrow>
    needs G (ph_domain h) p \<Longrightarrow> needs G dm p"

inductive_cases needsE: "needs G dm p"

text \<open>The accesses show that the domain is on: it always is, or its register said so.\<close>

definition powered :: "pmgr_registry option \<Rightarrow> bus_access list \<Rightarrow> pm_domain \<Rightarrow> bool" where
  "powered G acc dm \<longleftrightarrow> (\<exists>i. instance_of G dm = Some i \<and>
     (dom_always_on dm \<or> (\<exists>v. BusRead (domain_reg i dm) v \<in> set acc \<and> pm_actual v = PMGR_PS_ACTIVE)))"

lemma powered_append: "powered G acc1 dm \<or> powered G acc2 dm \<Longrightarrow> powered G (acc1 @ acc2) dm"
  by (auto simp: powered_def)

text \<open>
  A write of the enable sequence: to the register of a domain that is needed, with the value read from
  it before, the target set to active and the two flags cleared.
\<close>

definition enabling_write :: "pmgr_registry option \<Rightarrow> pm_domain \<Rightarrow> bus_access list \<Rightarrow> nat \<Rightarrow> u32 \<Rightarrow> bool" where
  "enabling_write G dm acc a v \<longleftrightarrow> (\<exists>p i old. needs G dm p \<and> instance_of G p = Some i \<and> a = domain_reg i p \<and>
     BusRead a old \<in> set acc \<and> \<not> dom_always_on p \<and>
     v = ((old AND NOT PMGR_PS_TARGET) OR PMGR_PS_ACTIVE) AND NOT PMGR_FLAGS)"

lemma enabling_write_mono:
  "enabling_write G p acc a v \<Longrightarrow> (\<And>q. needs G p q \<Longrightarrow> needs G dm q) \<Longrightarrow> set acc \<subseteq> set acc' \<Longrightarrow>
     enabling_write G dm acc' a v"
  unfolding enabling_write_def by blast

section \<open>One domain\<close>

lemma poll_actual_traces:
  "traces (poll_actual (traced B) reg wanted msg n) (\<lambda>r acc.
     length acc \<le> n \<and> (\<forall>x\<in>set acc. \<exists>v. x = BusRead reg v) \<and>
     (r = Inr () \<longrightarrow> (\<exists>v. BusRead reg v \<in> set acc \<and> pm_actual v = wanted)))"
proof (induction n)
  case 0
  show ?case
    by (simp add: traces_def)
next
  case (Suc n)
  show ?case
  proof (rule tracesI)
    fix d tr
    define v where "v = fst (bus_read B reg d)"
    define d1 where "d1 = snd (bus_read B reg d)"
    have read: "(read32 (traced B) reg (d, tr) :: (string + u32) \<times> _) = (Inr v, (d1, tr @ [BusRead reg v]))"
      by (simp add: read32_traced v_def d1_def)
    obtain r d2 acc where rest: "poll_actual (traced B) reg wanted msg n (d1, tr @ [BusRead reg v]) = (r, (d2, (tr @ [BusRead reg v]) @ acc))"
      "length acc \<le> n" "\<forall>x\<in>set acc. \<exists>v. x = BusRead reg v"
      "r = Inr () \<longrightarrow> (\<exists>v. BusRead reg v \<in> set acc \<and> pm_actual v = wanted)"
      using Suc.IH unfolding traces_def by meson
    show "\<exists>r d' acc. poll_actual (traced B) reg wanted msg (Suc n) (d, tr) = (r, d', tr @ acc) \<and>
      length acc \<le> Suc n \<and> (\<forall>x\<in>set acc. \<exists>v. x = BusRead reg v) \<and>
      (r = Inr () \<longrightarrow> (\<exists>v. BusRead reg v \<in> set acc \<and> pm_actual v = wanted))"
    proof (cases "pm_actual v = wanted")
      case True
      with read show ?thesis
        by (intro exI [of _ "Inr ()"] exI [of _ d1] exI [of _ "[BusRead reg v]"]) auto
    next
      case False
      with read rest show ?thesis
        by (intro exI [of _ r] exI [of _ d2] exI [of _ "BusRead reg v # acc"]) auto
    qed
  qed
qed

lemma enable_local_traces:
  assumes i: "instance_of G dm = Some i"
  shows "traces (enable_domain_local (traced B) i dm) (\<lambda>r acc.
    length acc \<le> 1002 \<and> (r = Inr () \<longrightarrow> powered G acc dm) \<and>
    (\<forall>a v. BusRead a v \<in> set acc \<longrightarrow> a = domain_reg i dm) \<and>
    (\<forall>a v. BusWrite a v \<in> set acc \<longrightarrow> enabling_write G dm acc a v))"
proof (cases "dom_always_on dm")
  case True
  then show ?thesis
    using i by (simp add: enable_domain_local_def traces_def powered_def)
next
  case False
  let ?reg = "domain_reg i dm"
  show ?thesis
  proof (rule tracesI)
    fix d tr
    define v where "v = fst (bus_read B ?reg d)"
    define d1 where "d1 = snd (bus_read B ?reg d)"
    define w where "w = ((v AND NOT PMGR_PS_TARGET) OR PMGR_PS_ACTIVE) AND NOT PMGR_FLAGS"
    have read: "(read32 (traced B) ?reg (d, tr) :: (string + u32) \<times> _) = (Inr v, (d1, tr @ [BusRead ?reg v]))"
      by (simp add: read32_traced v_def d1_def)
    obtain r d2 acc where poll: "poll_actual (traced B) ?reg PMGR_PS_ACTIVE ''pmgr: power domain enable timeout'' 1000
          (bus_write B ?reg w d1, tr @ [BusRead ?reg v, BusWrite ?reg w]) =
          (r, (d2, (tr @ [BusRead ?reg v, BusWrite ?reg w]) @ acc))"
      "length acc \<le> 1000" "\<forall>x\<in>set acc. \<exists>v. x = BusRead ?reg v"
      "r = Inr () \<longrightarrow> (\<exists>v. BusRead ?reg v \<in> set acc \<and> pm_actual v = PMGR_PS_ACTIVE)"
      using poll_actual_traces unfolding traces_def by meson
    let ?P = "\<lambda>r acc. length acc \<le> 1002 \<and> (r = Inr () \<longrightarrow> powered G acc dm) \<and>
      (\<forall>a v. BusRead a v \<in> set acc \<longrightarrow> a = ?reg) \<and>
      (\<forall>a v. BusWrite a v \<in> set acc \<longrightarrow> enabling_write G dm acc a v)"
    show "\<exists>r d' acc. enable_domain_local (traced B) i dm (d, tr) = (r, d', tr @ acc) \<and> ?P r acc"
    proof (cases "pm_actual v = PMGR_PS_ACTIVE")
      case True
      with False read i show ?thesis
        by (intro exI [of _ "Inr ()"] exI [of _ d1] exI [of _ "[BusRead ?reg v]"])
          (auto simp: enable_domain_local_def powered_def)
    next
      case inactive: False
      have "enable_domain_local (traced B) i dm (d, tr) = (r, d2, tr @ BusRead ?reg v # BusWrite ?reg w # acc)"
        using False inactive read poll(1) by (simp add: enable_domain_local_def w_def write32_traced)
      moreover have "?P r (BusRead ?reg v # BusWrite ?reg w # acc)"
        using poll(2-4) i False needs_refl [of G dm]
        by (auto simp: powered_def enabling_write_def w_def)
      ultimately show ?thesis
        by blast
    qed
  qed
qed

section \<open>The hierarchy\<close>

text \<open>All writes belong to the enable sequence; everything the given parents need is powered.\<close>

definition only_enabling :: "pmgr_registry option \<Rightarrow> pm_domain \<Rightarrow> bus_access list \<Rightarrow> bool" where
  "only_enabling G dm acc \<longleftrightarrow> (\<forall>a v. BusWrite a v \<in> set acc \<longrightarrow> enabling_write G dm acc a v)"

definition parents_powered :: "pmgr_registry option \<Rightarrow> u32 list \<Rightarrow> bus_access list \<Rightarrow> bool" where
  "parents_powered G phs acc \<longleftrightarrow> (\<forall>ph h p. ph \<in> set phs \<longrightarrow> pmgr_get_domain_by_phandle G ph = Inr h \<longrightarrow>
     needs G (ph_domain h) p \<longrightarrow> powered G acc p)"

lemma only_enabling_Nil [simp]: "only_enabling G dm []"
  by (simp add: only_enabling_def)

lemma only_enabling_append:
  "only_enabling G dm acc1 \<Longrightarrow> only_enabling G dm acc2 \<Longrightarrow> only_enabling G dm (acc1 @ acc2)"
  by (auto simp: only_enabling_def intro: enabling_write_mono [of G dm acc1] enabling_write_mono [of G dm acc2])

lemma only_enabling_up:
  "only_enabling G p acc \<Longrightarrow> (\<And>q. needs G p q \<Longrightarrow> needs G dm q) \<Longrightarrow> only_enabling G dm acc"
  by (auto simp: only_enabling_def intro: enabling_write_mono)

lemma parents_powered_Nil [simp]: "parents_powered G [] acc"
  by (simp add: parents_powered_def)

lemma parents_powered_skip:
  "pmgr_get_domain_by_phandle G ph = Inl x \<Longrightarrow> parents_powered G (ph # phs) acc = parents_powered G phs acc"
  by (auto simp: parents_powered_def)

lemma parents_powered_Cons:
  assumes "pmgr_get_domain_by_phandle G ph = Inr h" and "\<And>p. needs G (ph_domain h) p \<Longrightarrow> powered G acc1 p"
    and "parents_powered G phs acc2"
  shows "parents_powered G (ph # phs) (acc1 @ acc2)"
  using assms by (auto simp: parents_powered_def intro: powered_append)

text \<open>
  What a call of \<open>enable_domain\<close> promises about the accesses it adds: on success, everything the domain
  needs is powered, the parents before the first access to the domain itself.
\<close>

definition enables :: "pmgr_registry option \<Rightarrow> pm_domain \<Rightarrow> string + unit \<Rightarrow> bus_access list \<Rightarrow> bool" where
  "enables G dm r acc \<longleftrightarrow> only_enabling G dm acc \<and>
     (r = Inr () \<longrightarrow> (\<forall>p. needs G dm p \<longrightarrow> powered G acc p) \<and>
       (\<exists>before own. acc = before @ own \<and> parents_powered G (dom_parents dm) before \<and>
         (\<forall>a v. BusRead a v \<in> set own \<or> BusWrite a v \<in> set own \<longrightarrow>
           (\<exists>i. instance_of G dm = Some i \<and> a = domain_reg i dm))))"

text \<open>The loop over the parents, when each call keeps its promise.\<close>

lemma enable_parents_traces:
  assumes IH: "\<And>p d tr r d' tr'. enable p (d, tr) = Some (r, (d', tr')) \<Longrightarrow> \<exists>acc. tr' = tr @ acc \<and> enables G p r acc"
    and run: "enable_parents G enable phs (d, tr) = Some (r, (d', tr'))"
    and sub: "set phs \<subseteq> set (dom_parents dm)"
  shows "\<exists>acc. tr' = tr @ acc \<and> only_enabling G dm acc \<and> (r = Inr () \<longrightarrow> parents_powered G phs acc)"
  using run sub
proof (induction phs arbitrary: d tr)
  case Nil
  then show ?case
    by (auto simp: total_step_def)
next
  case (Cons ph phs)
  have sub: "set phs \<subseteq> set (dom_parents dm)"
    using Cons.prems(2) by simp
  show ?case
  proof (cases "pmgr_get_domain_by_phandle G ph")
    case (Inl x)
    then have "enable_parents G enable phs (d, tr) = Some (r, (d', tr'))"
      using Cons.prems(1) by simp
    from Cons.IH [OF this sub] show ?thesis
      by (simp add: parents_powered_skip [OF Inl])
  next
    case (Inr h)
    have "ph \<in> set (dom_parents dm)"
      using Cons.prems(2) by simp
    then have up: "needs G dm q" if "needs G (ph_domain h) q" for q
      by (rule needs_parent [OF _ Inr that])
    obtain r1 d1 tr1 where first: "enable (ph_domain h) (d, tr) = Some (r1, (d1, tr1))"
      using Cons.prems(1) Inr by (auto simp: may_bind_def split: option.splits)
    from IH [OF this] obtain acc1 where acc1: "tr1 = tr @ acc1" "enables G (ph_domain h) r1 acc1"
      by blast
    have w1: "only_enabling G dm acc1"
      by (rule only_enabling_up [OF _ up]) (use acc1(2) in \<open>auto simp: enables_def\<close>)
    show ?thesis
    proof (cases r1)
      case (Inl e)
      then have "r = Inl e" "tr' = tr1"
        using Cons.prems(1) Inr first by (simp_all add: may_bind_def)
      then show ?thesis
        using acc1(1) w1 by simp
    next
      case ok: (Inr u)
      have "enable_parents G enable phs (d1, tr1) = Some (r, (d', tr'))"
        using Cons.prems(1) Inr first ok by (simp add: may_bind_def)
      from Cons.IH [OF this sub] obtain acc2 where acc2: "tr' = tr1 @ acc2" "only_enabling G dm acc2"
        "r = Inr () \<longrightarrow> parents_powered G phs acc2"
        by blast
      have "parents_powered G (ph # phs) (acc1 @ acc2)" if "r = Inr ()"
        using acc1(2) acc2(3) that ok by (intro parents_powered_Cons [OF Inr]) (simp_all add: enables_def)
      then show ?thesis
        using acc1(1) acc2(1) only_enabling_append [OF w1 acc2(2)] by (intro exI [of _ "acc1 @ acc2"]) simp
    qed
  qed
qed

lemma enable_domain_enables:
  "enable_domain (traced B) G depth dm (d, tr) = Some (r, (d', tr')) \<Longrightarrow> \<exists>acc. tr' = tr @ acc \<and> enables G dm r acc"
proof (induction depth arbitrary: dm d tr r d' tr')
  case (Suc depth)
  obtain r1 d1 tr1 where parents: "enable_parents G (enable_domain (traced B) G depth) (dom_parents dm) (d, tr) = Some (r1, (d1, tr1))"
    using Suc.prems by (auto simp: may_bind_def split: option.splits)
  have "\<exists>acc. tr1 = tr @ acc \<and> only_enabling G dm acc \<and> (r1 = Inr () \<longrightarrow> parents_powered G (dom_parents dm) acc)"
    by (rule enable_parents_traces [OF _ parents order_refl]) (rule Suc.IH)
  then obtain acc1 where acc1: "tr1 = tr @ acc1" "only_enabling G dm acc1"
    "r1 = Inr () \<longrightarrow> parents_powered G (dom_parents dm) acc1"
    by blast
  show ?case
  proof (cases "r1 = Inr () \<and> instance_of G dm \<noteq> None")
    case False
    then have "tr' = tr1" "r \<noteq> Inr ()"
      using Suc.prems parents
      by (cases r1; auto simp: may_bind_def total_step_def with_instance_def split: option.splits)+
    then show ?thesis
      using acc1(1,2) by (simp add: enables_def)
  next
    case True
    then obtain i where i: "instance_of G dm = Some i" and r1: "r1 = Inr ()"
      by auto
    have "enable_domain_local (traced B) i dm (d1, tr1) = (r, (d', tr'))"
      using Suc.prems parents i r1 by (simp add: may_bind_def total_step_def with_instance_def)
    then obtain acc2 where acc2: "tr' = tr1 @ acc2"
      "r = Inr () \<longrightarrow> powered G acc2 dm" "\<forall>a v. BusRead a v \<in> set acc2 \<longrightarrow> a = domain_reg i dm"
      "only_enabling G dm acc2"
      by (rule tracesD [OF enable_local_traces [OF i]]) (auto simp: only_enabling_def)
    have own: "a = domain_reg i dm" if "BusWrite a v \<in> set acc2" for a v
      using acc2(3,4) that unfolding only_enabling_def enabling_write_def by blast
    have "powered G (acc1 @ acc2) p" if "needs G dm p" "r = Inr ()" for p
    proof -
      from that(1) consider "p = dm"
        | ph h where "ph \<in> set (dom_parents dm)" "pmgr_get_domain_by_phandle G ph = Inr h" "needs G (ph_domain h) p"
        by (blast elim: needsE)
      then show ?thesis
      proof cases
        case 1
        with acc2(2) that(2) have "powered G acc2 p"
          by simp
        then show ?thesis
          by (simp add: powered_append)
      next
        case (2 ph h)
        then have "powered G acc1 p"
          using acc1(3) r1 unfolding parents_powered_def by blast
        then show ?thesis
          by (simp add: powered_append)
      qed
    qed
    moreover have "\<forall>a v. BusRead a v \<in> set acc2 \<or> BusWrite a v \<in> set acc2 \<longrightarrow>
        (\<exists>i. instance_of G dm = Some i \<and> a = domain_reg i dm)"
      using acc2(3) own i by auto
    ultimately have "enables G dm r (acc1 @ acc2)"
      using only_enabling_append [OF acc1(2) acc2(4)] acc1(3) r1 unfolding enables_def by blast
    then show ?thesis
      using acc1(1) acc2(1) by simp
  qed
qed simp

section \<open>Termination\<close>

text \<open>
  When the parents of every domain have a smaller rank, a depth above the rank is enough; nothing is
  assumed about the hardware, since each domain is polled a bounded number of times.
\<close>

lemma enable_parents_returns:
  assumes "\<And>ph h d. ph \<in> set phs \<Longrightarrow> pmgr_get_domain_by_phandle G ph = Inr h \<Longrightarrow> \<exists>q. enable (ph_domain h) d = Some q"
  shows "\<exists>q. enable_parents G enable phs d = Some q"
  using assms
proof (induction phs arbitrary: d)
  case (Cons ph phs)
  have rest: "\<exists>q. enable_parents G enable phs d = Some q" for d
    by (rule Cons.IH) (rule Cons.prems, simp_all)
  show ?case
  proof (cases "pmgr_get_domain_by_phandle G ph")
    case (Inr h)
    then obtain r d1 where "enable (ph_domain h) d = Some (r, d1)"
      using Cons.prems [of ph h d] by auto
    with Inr rest [of d1] show ?thesis
      by (cases r) (auto simp: may_bind_def)
  qed (use rest in simp)
qed (simp add: total_step_def)

lemma enable_domain_ranked:
  assumes "rank dm < depth"
    and "\<And>p ph h. needs G dm p \<Longrightarrow> ph \<in> set (dom_parents p) \<Longrightarrow> pmgr_get_domain_by_phandle G ph = Inr h \<Longrightarrow>
      rank (ph_domain h) < (rank p :: nat)"
  shows "\<exists>q. enable_domain B G depth dm d = Some q"
  using assms
proof (induction depth arbitrary: dm d)
  case (Suc depth)
  have "\<exists>q. enable_domain B G depth (ph_domain h) d = Some q"
    if "ph \<in> set (dom_parents dm)" "pmgr_get_domain_by_phandle G ph = Inr h" for ph h d
  proof (rule Suc.IH)
    show "rank (ph_domain h) < depth"
      using Suc.prems(2) [OF needs_refl that] Suc.prems(1) by simp
    show "rank (ph_domain k) < rank p"
      if "needs G (ph_domain h) p" "q \<in> set (dom_parents p)" "pmgr_get_domain_by_phandle G q = Inr k" for p q k
      using Suc.prems(2) [OF needs_parent [OF \<open>ph \<in> _\<close> \<open>_ = Inr h\<close> that(1)] that(2,3)] .
  qed
  then have "\<exists>q. enable_parents G (enable_domain B G depth) (dom_parents dm) d = Some q"
    by (rule enable_parents_returns)
  then obtain r d1 where "enable_parents G (enable_domain B G depth) (dom_parents dm) d = Some (r, d1)"
    by auto
  then show ?case
    by (cases r) (simp_all add: may_bind_def total_step_def)
qed simp

text \<open>A domain that names itself as its first parent is never reached: every depth is too small.\<close>

lemma enable_domain_cyclic:
  assumes "dom_parents dm = ph # phs" and "pmgr_get_domain_by_phandle G ph = Inr h" and "ph_domain h = dm"
  shows "enable_domain B G depth dm d = None"
  by (induction depth arbitrary: d) (simp_all add: assms may_bind_def)

section \<open>Probing\<close>

lemma pwrstate_probe_lookup:
  assumes probe: "pwrstate_probe node G = (Inr (), Some g')" and ph: "node_phandle node = Some ph"
    and i: "node_parent_phandle node = Some parent" "bt_get parent (pm_instances g') = Some i"
  obtains h where "pmgr_get_domain_by_phandle (Some g') ph = Inr h" and "ph_instance h = i"
    and "Some (dom_offset (ph_domain h)) = node_offset node" and "dom_always_on (ph_domain h) = node_always_on node"
    and "dom_parents (ph_domain h) = (case node_power_domains node of None \<Rightarrow> [] | Some bs \<Rightarrow> parent_phandles bs)"
    and "instance_of (Some g') (ph_domain h) = Some i"
  using assms
  by (auto simp: pwrstate_probe_def Let_def pmgr_get_domain_by_phandle_def pmgr_get_domain_def instance_of_def
      split: option.splits)

lemma pwrstate_probe_ok:
  assumes "pwrstate_probe node (Some g) = (r, Some g')"
    and "bt_ok (pm_domains g)" and "bt_ok (pm_pwrstates g)"
  shows "bt_ok (pm_domains g')" and "bt_ok (pm_pwrstates g')" and "pm_instances g' = pm_instances g"
  using assms by (auto simp: pwrstate_probe_def Let_def split: option.splits)

section \<open>Properties\<close>


text \<open>
  A controller with a parent and a child domain, probed in this order, on hardware that follows the
  target state at once.
\<close>

definition example_bus :: "(nat \<Rightarrow> u32) bus" where
  "example_bus = \<lparr>bus_read = (\<lambda>a d. (d a, d)),
     bus_write = (\<lambda>a v d. d(a := (v AND NOT PMGR_PS_ACTUAL) OR push_bit 4 (v AND PMGR_PS_TARGET))),
     bus_udelay = (\<lambda>n d. d)\<rparr>"

definition example_node :: "nat \<Rightarrow> nat \<Rightarrow> u32 \<Rightarrow> u8 list option \<Rightarrow> pwrstate_node" where
  "example_node offset ident ph parents = \<lparr>node_offset = Some offset, node_id = ident, node_label = None,
     node_always_on = False, node_externally_clocked = False, node_reset_cells = None, node_phandle = Some ph,
     node_power_domains = parents, node_parent_phandle = Some 1\<rparr>"

definition example_registry :: "pmgr_registry option" where
  "example_registry =
     snd (pwrstate_probe (example_node 16 1 6 (Some [0, 0, 0, 5]))
       (snd (pwrstate_probe (example_node 8 0 5 None) (pmgr_probe 0x2000 0x1000 0x9000 1 None))))"

abbreviation "example_child \<equiv>
  \<lparr>dom_offset = 16, dom_pmgr_phandle = 1, dom_label = ''unknown'', dom_always_on = False,
   dom_externally_clocked = False, dom_reset_cells = None, dom_index = 1, dom_parents = [5]\<rparr>"

lemma example_lookups:
  "pmgr_get_domain_by_phandle example_registry 6 =
     Inr \<lparr>ph_instance = \<lparr>pm_paddr = 0x2000, pm_base = 0x9000, pm_size = 0x1000\<rparr>, ph_domain = example_child\<rparr>"
  "pmgr_get_domain_by_phandle example_registry 5 =
     Inr \<lparr>ph_instance = \<lparr>pm_paddr = 0x2000, pm_base = 0x9000, pm_size = 0x1000\<rparr>,
       ph_domain = \<lparr>dom_offset = 8, dom_pmgr_phandle = 1, dom_label = ''unknown'', dom_always_on = False,
         dom_externally_clocked = False, dom_reset_cells = None, dom_index = 0, dom_parents = []\<rparr>\<rparr>"
  "dom_pmgr_phandle dm = 1 \<Longrightarrow>
     instance_of example_registry dm = Some \<lparr>pm_paddr = 0x2000, pm_base = 0x9000, pm_size = 0x1000\<rparr>"
  by (simp_all add: example_registry_def pwrstate_probe_def example_node_def pmgr_probe_def pmgr_registry_new_def
      Let_def pmgr_get_domain_by_phandle_def pmgr_get_domain_def bt_get_def instance_of_def)

lemma example_read: "bus_read example_bus a d = (d a, d)"
  by (simp add: example_bus_def)

lemma example_write:
  "bus_write example_bus a 15 d = d(a := 255)"
  by (simp add: example_bus_def PMGR_PS_TARGET_def PMGR_PS_ACTUAL_def)

lemma example_poll:
  assumes "pm_actual (d a) = w"
  shows "poll_actual (traced example_bus) a w msg 1000 (d, tr) = (Inr (), (d, tr @ [BusRead a (d a)]))"
proof -
  have n: "(1000 :: nat) = Suc 999"
    by simp
  show ?thesis
    unfolding n poll_actual.simps using assms by (simp add: read32_traced example_read)
qed

lemma example_local:
  assumes "d (domain_reg i dm) = 0" and "\<not> dom_always_on dm"
  shows "enable_domain_local (traced example_bus) i dm (d, tr) = (Inr (), (d(domain_reg i dm := 255),
    tr @ [BusRead (domain_reg i dm) 0, BusWrite (domain_reg i dm) 15, BusRead (domain_reg i dm) 255]))"
proof -
  have "((0 AND NOT PMGR_PS_TARGET OR PMGR_PS_ACTIVE) AND NOT PMGR_FLAGS) = (15 :: u32)"
    "pm_actual 255 = 15" "pm_actual 0 = 0"
    by (simp_all add: PMGR_PS_TARGET_def PMGR_FLAGS_def PMGR_PS_ACTUAL_def pm_actual_def)
  moreover have "(read32 (traced example_bus) (domain_reg i dm) (d, tr) :: (string + u32) \<times> _) =
      (Inr 0, (d, tr @ [BusRead (domain_reg i dm) 0]))"
    using assms by (simp add: read32_traced example_read)
  ultimately show ?thesis
    using assms by (simp add: enable_domain_local_def write32_traced example_write example_poll)
qed


end
