(* ===== verification/Smc.thy ===== *)
theory Smc
  imports RtkitBoot LeBytes
begin

text \<open>
  The client of the system management controller (\<^verbatim>\<open>drivers/soc/apple-smc\<close>): the key protocol over
  an RTKit endpoint, the validation of the shared memory the firmware announces, the conversion of
  the real-time clock into an epoch, and the look-ups in the device tree. The kernel's clocks, the
  mapped SRAM and the NVMEM cell of the clock offset are parameters.
\<close>

section \<open>Messages\<close>

abbreviation (input) SMC_ENDPOINT :: u8 where "SMC_ENDPOINT \<equiv> 0x20"
definition SMC_SHMEM_SIZE :: u64 where "SMC_SHMEM_SIZE = 0x1000"
abbreviation (input) SMC_MSG_READ_KEY :: u64 where "SMC_MSG_READ_KEY \<equiv> 0x10"
abbreviation (input) SMC_MSG_INITIALIZE :: u64 where "SMC_MSG_INITIALIZE \<equiv> 0x17"
abbreviation (input) SMC_MSG_NOTIFICATION :: u64 where "SMC_MSG_NOTIFICATION \<equiv> 0x18"
abbreviation (input) SMC_TIMEOUT_US :: nat where "SMC_TIMEOUT_US \<equiv> 500000"
abbreviation (input) SMC_POLL_DELAY_US :: nat where "SMC_POLL_DELAY_US \<equiv> 100"
abbreviation (input) RTC_BYTES :: nat where "RTC_BYTES \<equiv> 6"
abbreviation (input) RTC_BITS :: nat where "RTC_BITS \<equiv> 48"
abbreviation (input) RTC_SEC_SHIFT :: nat where "RTC_SEC_SHIFT \<equiv> 15"
abbreviation (input) NANOS_PER_SECOND :: u64 where "NANOS_PER_SECOND \<equiv> 1000000000"

definition smc_key :: "u8 \<Rightarrow> u8 \<Rightarrow> u8 \<Rightarrow> u8 \<Rightarrow> u32" where
  "smc_key a b c d = push_bit 24 (ucast a) OR push_bit 16 (ucast b) OR push_bit 8 (ucast c) OR ucast d"

definition SMC_KEY_CLKM :: u32 where
  "SMC_KEY_CLKM = smc_key 0x43 0x4c 0x4b 0x4d"

definition smc_msg_type :: "u64 \<Rightarrow> u64" where
  "smc_msg_type message = message AND 0xff"

definition smc_msg_id :: "u64 \<Rightarrow> u8" where
  "smc_msg_id message = ucast (drop_bit 12 message AND 0xf)"

definition smc_msg_size :: "u64 \<Rightarrow> nat" where
  "smc_msg_size message = unat (drop_bit 16 message AND 0xff)"

definition smc_msg_data :: "u64 \<Rightarrow> u32" where
  "smc_msg_data message = ucast (drop_bit 32 message)"

section \<open>The client\<close>

datatype smc_error =
    SmcRtkit rtkit_error
  | InvalidSram
  | InvalidShmem
  | ShmemOutsideSram
  | SmcTimeout
  | InvalidReadSize
  | SequenceMismatch
  | CommandFailed
  | ShortRead
  | ShmemMissing
  | NegativeEpoch
  | EpochOverflow
  | UnexpectedClkmSize
  | OffsetUnreadable
  | WallClockError string

text \<open>
  What the client uses of the kernel: a byte of the mapped SRAM, the bytes of the NVMEM cell of the clock offset,
  the monotonic clock and the wall clock.
\<close>

record 'd smc_kernel =
  volatile_read :: "nat \<Rightarrow> 'd \<Rightarrow> u8"
  read_rtc_offset :: "'d \<Rightarrow> (nat \<Rightarrow> u8) option"
  current_time_ns :: "'d rtkit \<Rightarrow> u64"
  initialize_wall_clock :: "u64 \<Rightarrow> u64 \<Rightarrow> u64 \<Rightarrow> 'd \<Rightarrow> (string + unit) \<times> 'd"

record 'd smc =
  smc_rtkit :: "'d rtkit"
  sram_paddr :: u64
  sram_vaddr :: nat
  sram_size :: u64
  shmem_vaddr :: "nat option"
  msg_id :: u8

type_synonym ('d, 'a) smc_op = "('d smc, smc_error, 'a) stepper"
type_synonym ('d, 'a) smc_may = "('d smc, smc_error, 'a) may_step"

definition smc_new :: "'d rtkit \<Rightarrow> u64 \<Rightarrow> nat \<Rightarrow> u64 \<Rightarrow> 'd smc" where
  "smc_new r paddr vaddr sz = \<lparr>smc_rtkit = r, sram_paddr = paddr, sram_vaddr = vaddr, sram_size = sz,
     shmem_vaddr = None, msg_id = 0\<rparr>"

text \<open>A call of the RTKit instance, its error passed on.\<close>

definition on_rtkit :: "('d, 'a) rtkit_op \<Rightarrow> ('d, 'a) smc_op" where
  "on_rtkit m s = (case m (smc_rtkit s) of
     (Inl e, r) \<Rightarrow> (Inl (SmcRtkit e), s\<lparr>smc_rtkit := r\<rparr>)
   | (Inr x, r) \<Rightarrow> (Inr x, s\<lparr>smc_rtkit := r\<rparr>))"

definition on_rtkit_may :: "('d rtkit, rtkit_error, 'a) may_step \<Rightarrow> ('d, 'a) smc_may" where
  "on_rtkit_may m s = (case m (smc_rtkit s) of
     None \<Rightarrow> None
   | Some (Inl e, r) \<Rightarrow> Some (Inl (SmcRtkit e), s\<lparr>smc_rtkit := r\<rparr>)
   | Some (Inr x, r) \<Rightarrow> Some (Inr x, s\<lparr>smc_rtkit := r\<rparr>))"

definition checked_sub :: "'a::len word \<Rightarrow> 'a word \<Rightarrow> 'a word option" where
  "checked_sub a b = (if b \<le> a then Some (a - b) else None)"

definition set_shmem :: "u64 \<Rightarrow> ('d, unit) smc_op" where
  "set_shmem iova s =
     (case Option.bind (checked_add (sram_paddr s) (sram_size s)) (\<lambda>v. checked_sub v 1) of
        None \<Rightarrow> (Inl InvalidSram, s)
      | Some sram_end \<Rightarrow>
     (case Option.bind (checked_add iova SMC_SHMEM_SIZE) (\<lambda>v. checked_sub v 1) of
        None \<Rightarrow> (Inl InvalidShmem, s)
      | Some shmem_end \<Rightarrow>
          if iova < sram_paddr s \<or> shmem_end > sram_end then (Inl ShmemOutsideSram, s)
          else (Inr (), s\<lparr>shmem_vaddr := Some (sram_vaddr s + unat (iova - sram_paddr s))\<rparr>)))"

text \<open>
  One round of \<open>wait_smc_message\<close>. Messages of other endpoints are taken and dropped.
\<close>

definition smc_wait_step :: "'d platform \<Rightarrow> nat \<Rightarrow> nat \<Rightarrow> 'd smc \<Rightarrow>
    ('d smc, (smc_error + u64) \<times> 'd smc) loop_step option" where
  "smc_wait_step P start timeout_us s =
     Some (case on_rtkit (rtkit_recv P) s of
        (Inl e, s') \<Rightarrow> Done (Inl e, s')
      | (Inr got, s') \<Rightarrow>
          (case got of
             Some m \<Rightarrow>
               if ep m = SMC_ENDPOINT then Done (Inr (msg m), s')
               else if now (rt_asc (smc_rtkit s')) - start \<ge> timeout_us then Done (Inl SmcTimeout, s')
               else Again (s'\<lparr>smc_rtkit := (smc_rtkit s')\<lparr>rt_asc := udelay SMC_POLL_DELAY_US (rt_asc (smc_rtkit s'))\<rparr>\<rparr>)
           | None \<Rightarrow>
               if now (rt_asc (smc_rtkit s')) - start \<ge> timeout_us then Done (Inl SmcTimeout, s')
               else Again (s'\<lparr>smc_rtkit := (smc_rtkit s')\<lparr>rt_asc := udelay SMC_POLL_DELAY_US (rt_asc (smc_rtkit s'))\<rparr>\<rparr>)))"

definition wait_smc_message :: "'d platform \<Rightarrow> nat \<Rightarrow> ('d, u64) smc_may" where
  "wait_smc_message P timeout_us s =
     loop (smc_wait_step P (now (rt_asc (smc_rtkit s))) timeout_us) s"

definition smc_boot :: "'d platform \<Rightarrow> waiter option \<Rightarrow> ('d, unit) smc_may" where
  "smc_boot P task =
     may_bind (on_rtkit_may (rtkit_wake P task)) (\<lambda>_.
     may_bind (total_step (on_rtkit (start_ep SMC_ENDPOINT))) (\<lambda>_.
     may_bind (total_step (on_rtkit (rtkit_send \<lparr>ep = SMC_ENDPOINT, msg = SMC_MSG_INITIALIZE\<rparr>))) (\<lambda>_.
     may_bind (wait_smc_message P SMC_TIMEOUT_US) (\<lambda>iova.
     total_step (set_shmem iova)))))"

section \<open>Reading a key\<close>

definition next_msg_id :: "('d, u8) smc_op" where
  "next_msg_id s = (let i = (msg_id s + 1) AND 0xf in (Inr i, s\<lparr>msg_id := i\<rparr>))"

definition read_key_message :: "u32 \<Rightarrow> nat \<Rightarrow> u8 \<Rightarrow> u64" where
  "read_key_message key len i =
     SMC_MSG_READ_KEY OR push_bit 16 (of_nat len) OR push_bit 12 (ucast i) OR push_bit 32 (ucast key)"

definition reply_round :: "'d platform \<Rightarrow> 'd smc \<Rightarrow>
    ('d smc, (smc_error + u64) \<times> 'd smc) loop_step option" where
  "reply_round P s =
     (case wait_smc_message P SMC_TIMEOUT_US s of
        None \<Rightarrow> None
      | Some (Inl e, s') \<Rightarrow> Some (Done (Inl e, s'))
      | Some (Inr reply, s') \<Rightarrow>
          Some (if smc_msg_type reply \<noteq> SMC_MSG_NOTIFICATION then Done (Inr reply, s') else Again s'))"

definition finish_read :: "'d smc_kernel \<Rightarrow> u64 \<Rightarrow> u8 \<Rightarrow> nat \<Rightarrow> ('d, nat \<times> bytes) smc_op" where
  "finish_read K reply i len s =
     (if smc_msg_id reply \<noteq> i then (Inl SequenceMismatch, s)
      else if smc_msg_type reply \<noteq> 0 then (Inl CommandFailed, s)
      else let returned = smc_msg_size reply in
        if returned < len then (Inl ShortRead, s)
        else if len \<le> 4 then (Inr (returned, take len (le_bytes 4 (smc_msg_data reply))), s)
        else (case shmem_vaddr s of
                None \<Rightarrow> (Inl ShmemMissing, s)
              | Some shmem \<Rightarrow>
                  (Inr (returned, map (\<lambda>index. volatile_read K (shmem + index) (kern (smc_rtkit s))) [0..<len]), s)))"

text \<open>The result is what the firmware reports to have returned and the bytes of the buffer.\<close>

definition read_key :: "'d smc_kernel \<Rightarrow> 'd platform \<Rightarrow> u32 \<Rightarrow> nat \<Rightarrow> ('d, nat \<times> bytes) smc_may" where
  "read_key K P key len =
     (if len = 0 \<or> len > 255 then total_step (err InvalidReadSize)
      else may_bind (total_step next_msg_id) (\<lambda>i.
           may_bind (total_step (on_rtkit (rtkit_send \<lparr>ep = SMC_ENDPOINT, msg = read_key_message key len i\<rparr>))) (\<lambda>_.
           may_bind (loop (reply_round P)) (\<lambda>reply.
           total_step (finish_read K reply i len)))))"

section \<open>The real-time clock\<close>

definition read_le48 :: "bytes \<Rightarrow> u64" where
  "read_le48 bs = from_le_bytes (take RTC_BYTES bs @ [0, 0])"

definition rtc_ticks_to_epoch_ns :: "bytes \<Rightarrow> bytes \<Rightarrow> smc_error + u64" where
  "rtc_ticks_to_epoch_ns counter offset =
     (let ticks = (read_le48 counter + read_le48 offset) AND (push_bit RTC_BITS 1 - 1);
          signed = signed_drop_bit (64 - RTC_BITS) (push_bit (64 - RTC_BITS) ticks);
          seconds = signed_drop_bit RTC_SEC_SHIFT signed
      in if sint seconds < 0 then Inl NegativeEpoch
         else (case checked_mul seconds NANOS_PER_SECOND of
                 None \<Rightarrow> Inl EpochOverflow
               | Some ns \<Rightarrow> Inr ns))"

text \<open>Reading the NVMEM cell and converting; handing the epoch to the kernel.\<close>

definition sample_epoch :: "'d smc_kernel \<Rightarrow> bytes \<Rightarrow> ('d, u64) smc_op" where
  "sample_epoch K counter s =
     (case read_rtc_offset K (kern (smc_rtkit s)) of
        None \<Rightarrow> (Inl OffsetUnreadable, s)
      | Some byte_at \<Rightarrow> (rtc_ticks_to_epoch_ns counter (map byte_at [0..<RTC_BYTES]), s))"

definition set_wall_clock :: "'d smc_kernel \<Rightarrow> u64 \<Rightarrow> u64 \<Rightarrow> ('d, unit) smc_op" where
  "set_wall_clock K mono_before epoch_ns s =
     (case initialize_wall_clock K epoch_ns mono_before (current_time_ns K (smc_rtkit s)) (kern (smc_rtkit s)) of
        (q, d) \<Rightarrow> (case q of
            Inr _ \<Rightarrow> Inr ()
          | Inl e \<Rightarrow> if e = ''wall clock already initialized'' then Inr () else Inl (WallClockError e),
          s\<lparr>smc_rtkit := (smc_rtkit s)\<lparr>kern := d\<rparr>\<rparr>))"

definition seed_wall_clock :: "'d smc_kernel \<Rightarrow> 'd platform \<Rightarrow> ('d, unit) smc_may" where
  "seed_wall_clock K P s0 =
     (let mono_before = current_time_ns K (smc_rtkit s0) in
      may_bind (read_key K P SMC_KEY_CLKM RTC_BYTES) (\<lambda>(read, counter).
        total_step (if read \<noteq> RTC_BYTES then err UnexpectedClkmSize
          else try_bind (sample_epoch K counter) (set_wall_clock K mono_before))) s0)"

section \<open>The device tree\<close>

definition read_be_u32 :: "bytes \<Rightarrow> u32 option" where
  "read_be_u32 bs = (if length bs < 4 then None else Some (from_le_bytes (rev (take 4 bs))))"

fun be_cells :: "bytes \<Rightarrow> u32 list" where
  "be_cells (a # b # c # d # bs) = from_le_bytes [d, c, b, a] # be_cells bs"
| "be_cells _ = []"

definition read_be_u32_cells :: "bytes \<Rightarrow> u32 list option" where
  "read_be_u32_cells bs = (if length bs mod 4 \<noteq> 0 then None else Some (be_cells bs))"

text \<open>\<open>split\<close> of the Rust core library, at the bytes that satisfy the condition.\<close>

fun split_at :: "('a \<Rightarrow> bool) \<Rightarrow> 'a list \<Rightarrow> 'a list list" where
  "split_at p [] = [[]]"
| "split_at p (x # xs) =
     (if p x then [] # split_at p xs
      else (case split_at p xs of [] \<Rightarrow> [[x]] | part # parts \<Rightarrow> (x # part) # parts))"

definition string_list_index :: "bytes \<Rightarrow> bytes \<Rightarrow> nat option" where
  "string_list_index bs needle =
     map_option fst (find (\<lambda>(i, part). utf8_valid part \<and> part = needle)
       (enumerate 0 [part \<leftarrow> split_at (\<lambda>b. b = 0) bs. part \<noteq> []]))"

text \<open>A node of the flattened device tree, with what the driver asks of it.\<close>

datatype fdt_node = FdtNode (fdt_name: string) (fdt_compatible: "string list option")
  (fdt_property: "(string \<times> bytes) list") (fdt_children: "fdt_node list")

definition node_property :: "fdt_node \<Rightarrow> string \<Rightarrow> bytes option" where
  "node_property node key = map_of (fdt_property node) key"

definition node_matches_platform_device :: "fdt_node \<Rightarrow> string \<Rightarrow> string list \<Rightarrow> bool" where
  "node_matches_platform_device node device_name device_compatible =
     (if fdt_name node \<noteq> device_name then False
      else (case fdt_compatible node of
              None \<Rightarrow> False
            | Some entries \<Rightarrow> \<exists>entry\<in>set entries. entry \<in> set device_compatible))"

fun fdt_size :: "fdt_node \<Rightarrow> nat" where
  "fdt_size (FdtNode _ _ _ cs) = Suc (sum_list (map fdt_size cs))"

lemma sum_rev_append: "sum_list (map fdt_size (rev cs @ st)) = sum_list (map fdt_size cs) + sum_list (map fdt_size st)"
  by (induction cs) simp_all

function find_on_stack :: "(fdt_node \<Rightarrow> bool) \<Rightarrow> fdt_node list \<Rightarrow> fdt_node option" where
  "find_on_stack p [] = None"
| "find_on_stack p (node # st) =
     (if p node then Some node else find_on_stack p (rev (fdt_children node) @ st))"
  by pat_completeness auto
termination
proof (relation "measure (\<lambda>(p, st). sum_list (map fdt_size st))")
  fix p :: "fdt_node \<Rightarrow> bool" and node st
  show "((p, rev (fdt_children node) @ st), p, node # st) \<in> measure (\<lambda>(p, st). sum_list (map fdt_size st))"
    by (cases node) (simp add: sum_rev_append rev_map [symmetric])
qed simp

definition find_platform_node :: "fdt_node option \<Rightarrow> string \<Rightarrow> string list \<Rightarrow> fdt_node option" where
  "find_platform_node root device_name device_compatible =
     (case root of None \<Rightarrow> None
      | Some r \<Rightarrow> find_on_stack (\<lambda>n. node_matches_platform_device n device_name device_compatible) [r])"

definition rtc_offset_cell :: "(u32 \<Rightarrow> string \<Rightarrow> string + 'c) \<Rightarrow> fdt_node \<Rightarrow> string + 'c" where
  "rtc_offset_cell resolve smc_node =
     (case find (\<lambda>child. fdt_name child = ''rtc'') (fdt_children smc_node) of
        None \<Rightarrow> Inl ''apple-smc: rtc child missing''
      | Some rtc_node \<Rightarrow>
     (case node_property rtc_node ''nvmem-cell-names'' of
        None \<Rightarrow> Inl ''apple-smc: rtc nvmem-cell-names missing''
      | Some names \<Rightarrow>
     (case string_list_index names (ascii ''rtc_offset'') of
        None \<Rightarrow> Inl ''apple-smc: rtc_offset missing''
      | Some index \<Rightarrow>
     (case node_property rtc_node ''nvmem-cells'' of
        None \<Rightarrow> Inl ''apple-smc: rtc nvmem-cells missing''
      | Some cells \<Rightarrow>
     (case read_be_u32_cells cells of
        None \<Rightarrow> Inl ''apple-smc: malformed nvmem-cells''
      | Some phandles \<Rightarrow>
          if index < length phandles then resolve (phandles ! index) ''rtc_offset''
          else Inl ''apple-smc: rtc_offset phandle missing'')))))"

text \<open>The part of the probe after its resources are found and mapped.\<close>

definition smc_probe :: "'d smc_kernel \<Rightarrow> 'd platform \<Rightarrow> waiter option \<Rightarrow> asc \<Rightarrow> 'd \<Rightarrow> u64 \<Rightarrow> nat \<Rightarrow> u64 \<Rightarrow>
    'd smc list \<Rightarrow> ((smc_error + unit) \<times> 'd smc list) option" where
  "smc_probe K P task a d paddr vaddr sz registry =
     (case may_bind (smc_boot P task) (\<lambda>_. seed_wall_clock K P) (smc_new (rtkit_new a d) paddr vaddr sz) of
        None \<Rightarrow> None
      | Some (Inl e, s) \<Rightarrow> Some (Inl e, registry)
      | Some (Inr _, s) \<Rightarrow> Some (Inr (), registry @ [s]))"

end
