(* ===== verification/SmcClock.thy ===== *)
theory SmcClock
  imports Smc
begin

text \<open>
  What the client of the system management controller guarantees: the probe always returns, and when
  it succeeds it has read the clock from inside the SRAM and set the wall clock to the exact epoch.
\<close>

section \<open>The epoch\<close>

text \<open>The number a little-endian byte string stands for, and the seconds the clock shows.\<close>

fun le_value :: "bytes \<Rightarrow> nat" where
  "le_value [] = 0"
| "le_value (b # bs) = unat b + 256 * le_value bs"

definition rtc_seconds :: "bytes \<Rightarrow> bytes \<Rightarrow> int" where
  "rtc_seconds counter offset =
     (let t = (int (le_value counter) + int (le_value offset)) mod 2 ^ 48
      in (if t < 2 ^ 47 then t else t - 2 ^ 48) div 2 ^ 15)"

lemma le_value_bound: "le_value bs < 256 ^ length bs"
proof (induction bs)
  case (Cons b bs)
  have "unat b < 256"
    using unat_bound [of b] by simp
  with Cons show ?case
    by simp
qed simp

lemma le_value_zeros [simp]: "le_value (bs @ [0, 0]) = le_value bs"
  by (induction bs) simp_all

lemma from_le_bytes_value: "from_le_bytes bs = (of_nat (le_value bs) :: 'a::len word)"
proof (induction bs)
  case (Cons b bs)
  have "(ucast b OR push_bit 8 x :: 'a word) = ucast b + push_bit 8 x" for x
    by (rule disjunctive_add [symmetric]) (auto simp: bit_simps dest: bit_imp_le_length)
  then show ?case
    using Cons by (simp add: from_le_bytes_def push_bit_eq_mult mult.commute unsigned_ucast_eq)
qed (simp add: from_le_bytes_def)

lemma uint_read_le48:
  assumes "length bs = 6"
  shows "uint (read_le48 bs) = int (le_value bs)" and "le_value bs < 2 ^ 48"
proof -
  show bound: "le_value bs < 2 ^ 48"
    using le_value_bound [of bs] assms by simp
  then have "unat (of_nat (le_value bs) :: u64) = le_value bs"
    by (intro unat_of_nat_small) simp
  then have "uint (of_nat (le_value bs) :: u64) = int (le_value bs)"
    by (metis uint_nat)
  then show "uint (read_le48 bs) = int (le_value bs)"
    using assms by (simp add: read_le48_def from_le_bytes_value)
qed

lemma signed_range:
  fixes k :: int
  assumes "0 \<le> k" and "k < 2 ^ 64"
  shows "signed_take_bit 63 k = (if k < 2 ^ 63 then k else k - 2 ^ 64)"
proof (cases "k < 2 ^ 63")
  case True
  then show ?thesis
    using assms by (simp add: signed_take_bit_eq_take_bit_shift take_bit_eq_mod)
next
  case False
  have "(k + 2 ^ 63) mod 2 ^ 64 = (k + 2 ^ 63 - 2 ^ 64) mod 2 ^ 64"
    by (rule minus_mod_self2 [symmetric])
  also have "\<dots> = k - 2 ^ 63"
    using False assms by simp
  finally show ?thesis
    using False by (simp add: signed_take_bit_eq_take_bit_shift take_bit_eq_mod)
qed

lemma sint_extend:
  fixes w :: u64
  assumes "uint w < 2 ^ 48"
  shows "sint (signed_drop_bit 16 (push_bit 16 w)) = (if uint w < 2 ^ 47 then uint w else uint w - 2 ^ 48)"
proof -
  have "uint (push_bit 16 w) = uint w * 2 ^ 16"
    using assms uint_ge_0 [of w]
    by (simp add: push_bit_eq_mult uint_word_ariths)
  then have "sint (push_bit 16 w) = (if uint w < 2 ^ 47 then uint w * 2 ^ 16 else uint w * 2 ^ 16 - 2 ^ 64)"
    using signed_range [of "uint w * 2 ^ 16"] assms uint_ge_0 [of w] by (simp add: sint_uint)
  moreover have "(uint w * 2 ^ 16 - 2 ^ 64) div 2 ^ 16 = uint w - 2 ^ 48"
    using div_mult_self1 [of "2 ^ 16 :: int" "uint w * 2 ^ 16" "- (2 ^ 48)"] by simp
  ultimately show ?thesis
    by (simp only: sint_signed_drop_bit_eq drop_bit_eq_div) simp
qed

text \<open>The conversion is exact, and the multiplication never overflows.\<close>

lemma rtc_epoch_exact:
  assumes "length counter = 6" and "length offset = 6"
  shows "rtc_ticks_to_epoch_ns counter offset =
    (if rtc_seconds counter offset < 0 then Inl NegativeEpoch
     else Inr (of_int (rtc_seconds counter offset * 10 ^ 9)))"
    and "rtc_seconds counter offset * 10 ^ 9 < 2 ^ 64"
proof -
  let ?t = "(read_le48 counter + read_le48 offset) AND (push_bit 48 1 - 1) :: u64"
  define t where "t = (int (le_value counter) + int (le_value offset)) mod 2 ^ 48"
  define seconds where "seconds = signed_drop_bit 15 (signed_drop_bit 16 (push_bit 16 ?t))"
  have bounds: "le_value counter < 2 ^ 48" "le_value offset < 2 ^ 48"
    using uint_read_le48 assms by blast+
  have mask: "(push_bit 48 1 - 1 :: u64) = mask 48"
    by (simp add: mask_eq_exp_minus_1 push_bit_eq_mult)
  have "uint (read_le48 counter + read_le48 offset) = int (le_value counter) + int (le_value offset)"
    using uint_read_le48(1) assms bounds by (simp add: uint_word_ariths)
  then have t: "uint ?t = t"
    unfolding mask take_bit_eq_mask [symmetric] by (simp only: unsigned_take_bit_eq) (simp add: take_bit_eq_mod t_def)
  have small: "0 \<le> t" "t < 2 ^ 48"
    by (simp_all add: t_def)
  have "sint seconds = sint (signed_drop_bit 16 (push_bit 16 ?t)) div 2 ^ 15"
    unfolding seconds_def by (simp only: sint_signed_drop_bit_eq drop_bit_eq_div)
  also have "\<dots> = rtc_seconds counter offset"
    using small t by (simp only: sint_extend) (simp add: rtc_seconds_def t_def Let_def)
  finally have seconds: "sint seconds = rtc_seconds counter offset" .
  have "rtc_seconds counter offset \<le> (2 ^ 47 - 1) div 2 ^ 15"
    unfolding rtc_seconds_def Let_def t_def [symmetric] using small
    by (intro zdiv_mono1) auto
  then show bound: "rtc_seconds counter offset * 10 ^ 9 < 2 ^ 64"
    by simp
  have "rtc_ticks_to_epoch_ns counter offset = (if sint seconds < 0 then Inl NegativeEpoch
      else case checked_mul seconds 1000000000 of None \<Rightarrow> Inl EpochOverflow | Some ns \<Rightarrow> Inr ns)"
    unfolding rtc_ticks_to_epoch_ns_def Let_def seconds_def by simp
  moreover have "checked_mul seconds 1000000000 = Some (of_int (rtc_seconds counter offset * 10 ^ 9))"
    if "0 \<le> sint seconds"
  proof -
    have eq: "seconds = of_int (rtc_seconds counter offset)"
      by (metis of_int_sint scast_id seconds)
    have "uint (of_int (rtc_seconds counter offset) :: u64) = rtc_seconds counter offset"
      using that bound unfolding seconds by (simp add: unsigned_of_int take_bit_eq_mod)
    then have "unat seconds = nat (rtc_seconds counter offset)"
      unfolding eq by (simp add: unat_eq_nat_uint)
    then show ?thesis
      using bound that unfolding checked_mul_def seconds by (simp add: eq nat_less_iff)
  qed
  ultimately show "rtc_ticks_to_epoch_ns counter offset =
    (if rtc_seconds counter offset < 0 then Inl NegativeEpoch
     else Inr (of_int (rtc_seconds counter offset * 10 ^ 9)))"
    using seconds by simp
qed

section \<open>Waiting\<close>

text \<open>
  What polling the firmware does to the client: only the RTKit instance changes, time passes and
  messages are consumed.
\<close>

definition polled :: "'d smc \<Rightarrow> 'd smc \<Rightarrow> bool" where
  "polled s s' \<longleftrightarrow> (\<exists>r. s' = s\<lparr>smc_rtkit := r\<rparr> \<and> now (rt_asc (smc_rtkit s)) \<le> now (rt_asc r) \<and>
     waiting r \<le> waiting (smc_rtkit s) \<and> (\<exists>w. sent r = sent (smc_rtkit s) @ w))"

interpretation keeps_sent: handler_invariant "\<lambda>r. \<exists>w. sent r = xs @ w" for xs
  by unfold_locales (simp add: sent_def)

lemma recv_sent: "rtkit_recv P r = (x, r') \<Longrightarrow> \<exists>w. sent r' = sent r @ w"
proof (cases "can_recv (rt_asc r)")
  case True
  assume recv: "rtkit_recv P r = (x, r')"
  from True obtain am a where am: "asc_recv (rt_asc r) = (Inr am, a)"
    using asc_recv_Inr_iff by blast
  obtain h r1 where h: "handle_internal_message P (rtkit_message_of am) (r\<lparr>rt_asc := a\<rparr>) = (h, r1)"
    by fastforce
  have "a2i_sent a = a2i_sent (rt_asc r)"
    using am by (auto simp: asc_recv_def recv_hardware_unlocked_def split: list.splits if_splits)
  then have "\<exists>w. sent r1 = sent r @ w"
    using preservesD [OF keeps_sent.inv_internal _ h, of "sent r"] by (simp add: sent_def)
  with recv True am h show ?thesis
    by (cases h) (auto simp: rtkit_recv_def try_bind_def Let_def)
qed (simp add: rtkit_recv_def)

lemma polled_refl [simp, intro]: "polled s s"
  unfolding polled_def by (rule exI [of _ "smc_rtkit s"]) simp

lemma polled_trans [trans]: "polled s t \<Longrightarrow> polled t u \<Longrightarrow> polled s u"
  unfolding polled_def by fastforce

lemma polledD:
  assumes "polled s s'"
  shows "shmem_vaddr s' = shmem_vaddr s" and "sram_paddr s' = sram_paddr s" and "sram_vaddr s' = sram_vaddr s"
    and "sram_size s' = sram_size s" and "msg_id s' = msg_id s"
    and "now (rt_asc (smc_rtkit s)) \<le> now (rt_asc (smc_rtkit s'))"
    and "waiting (smc_rtkit s') \<le> waiting (smc_rtkit s)"
    and "\<exists>w. sent (smc_rtkit s') = sent (smc_rtkit s) @ w"
  using assms by (auto simp: polled_def)

lemma recv_polled:
  assumes "rtkit_recv P (smc_rtkit s) = (x, r)"
  shows "polled s (s\<lparr>smc_rtkit := r\<rparr>)" and "x = Inr (Some m) \<Longrightarrow> waiting r < waiting (smc_rtkit s)"
proof -
  have "waiting r \<le> waiting (smc_rtkit s)"
    using rtkit_recv_incoming [OF assms] asc_recv_waiting [of "smc_rtkit s"] waiting_incoming
    by (metis le_SucI order_refl)
  then show "polled s (s\<lparr>smc_rtkit := r\<rparr>)"
    using rtkit_recv_time [OF assms] recv_sent [OF assms] by (auto simp: polled_def)
  show "waiting r < waiting (smc_rtkit s)" if "x = Inr (Some m)"
    using rtkit_recv_waiting [of P "smc_rtkit s" m r] assms that by simp
qed

text \<open>One round: a message for the client, an error, or a wait of a tenth of a millisecond.\<close>

lemma wait_step_cases:
  fixes s :: "'d smc"
  obtains (found) v s' where "smc_wait_step P start n s = Some (Done (Inr v, s'))" and "polled s s'"
    and "waiting (smc_rtkit s') < waiting (smc_rtkit s)"
  | (failed) e s' where "smc_wait_step P start n s = Some (Done (Inl e, s'))" and "polled s s'"
  | (again) s' where "smc_wait_step P start n s = Some (Again s')" and "polled s s'"
    and "now (rt_asc (smc_rtkit s)) - start < n"
    and "now (rt_asc (smc_rtkit s)) < now (rt_asc (smc_rtkit s'))"
proof -
  obtain x r where recv: "rtkit_recv P (smc_rtkit s) = (x, r)"
    by fastforce
  note r = recv_polled [OF recv]
  let ?s = "s\<lparr>smc_rtkit := r\<rparr>"
  let ?late = "?s\<lparr>smc_rtkit := r\<lparr>rt_asc := udelay 100 (rt_asc r)\<rparr>\<rparr>"
  have late: "polled s ?late" "now (rt_asc (smc_rtkit s)) < now (rt_asc (smc_rtkit ?late))"
    using polledD(6-8) [OF r(1)] by (auto simp: polled_def udelay_def waiting_def sent_def)
  consider e where "x = Inl e" | m where "x = Inr (Some m)" "ep m = SMC_ENDPOINT"
    | "\<exists>got. x = Inr got \<and> (\<forall>m. got = Some m \<longrightarrow> ep m \<noteq> SMC_ENDPOINT)"
    by (cases x) (metis option.exhaust)+
  then show thesis
  proof cases
    case 1
    with recv r show ?thesis
      by (intro failed [of "SmcRtkit e" ?s]) (simp_all add: smc_wait_step_def on_rtkit_def)
  next
    case (2 m)
    with recv r show ?thesis
      by (intro found [of "msg m" ?s]) (simp_all add: smc_wait_step_def on_rtkit_def)
  next
    case 3
    then have step: "smc_wait_step P start n s =
        (if now (rt_asc r) - start \<ge> n then Some (Done (Inl SmcTimeout, ?s)) else Some (Again ?late))"
      using recv by (auto simp: smc_wait_step_def on_rtkit_def split: option.splits)
    show ?thesis
    proof (cases "now (rt_asc r) - start \<ge> n")
      case True
      with step r(1) show ?thesis
        by (intro failed [of SmcTimeout ?s]) simp_all
    next
      case False
      with step late polledD(6) [OF r(1)] show ?thesis
        by (intro again [of ?late]) simp_all
    qed
  qed
qed

lemma wait_smc_returns:
  fixes s :: "'d smc"
  obtains x s' where "wait_smc_message P n s = Some (x, s')" and "polled s s'"
    and "\<And>v. x = Inr v \<Longrightarrow> waiting (smc_rtkit s') < waiting (smc_rtkit s)"
proof -
  let ?start = "now (rt_asc (smc_rtkit s))"
  let ?step = "smc_wait_step P ?start n :: 'd smc \<Rightarrow> _"
  have "\<exists>q. loop ?step s = Some q"
  proof (rule loop_returns [where I = "\<lambda>u. ?start \<le> now (rt_asc (smc_rtkit u))" and
        m = "\<lambda>u. n - (now (rt_asc (smc_rtkit u)) - ?start)"])
    fix u :: "'d smc"
    assume "?start \<le> now (rt_asc (smc_rtkit u))"
    then show "(\<exists>r. ?step u = Some (Done r)) \<or> (\<exists>u'. ?step u = Some (Again u') \<and>
        ?start \<le> now (rt_asc (smc_rtkit u')) \<and>
        n - (now (rt_asc (smc_rtkit u')) - ?start) < n - (now (rt_asc (smc_rtkit u)) - ?start))"
      by (cases rule: wait_step_cases [of P ?start n u]) auto
  qed simp
  then obtain q where q: "loop ?step s = Some q"
    by blast
  let ?Q = "\<lambda>(x, s'). polled s s' \<and> (\<forall>v. x = Inr v \<longrightarrow> waiting (smc_rtkit s') < waiting (smc_rtkit s))"
  have "?Q q"
    using q
  proof (rule loop_rule [where I = "polled s" and Q = ?Q])
    fix u u'
    assume "polled s u" and "?step u = Some (Again u')"
    then show "polled s u'"
      by (cases rule: wait_step_cases [of P ?start n u]) (auto intro: polled_trans)
  next
    fix u q
    assume u: "polled s u" and "?step u = Some (Done q)"
    then show "?Q q"
      using polledD(7) [OF u]
      by (cases rule: wait_step_cases [of P ?start n u]) (auto intro: polled_trans)
  qed simp
  with q that show thesis
    unfolding wait_smc_message_def by (cases q) auto
qed

lemma wait_smc_polled: "wait_smc_message P n s = Some (x, s') \<Longrightarrow> polled s s'"
  by (rule wait_smc_returns [of P n s]) simp

lemma reply_returns:
  obtains x s' where "loop (reply_round P) s = Some (x, s')" and "polled s s'"
    and "\<And>v. x = Inr v \<Longrightarrow> smc_msg_type v \<noteq> SMC_MSG_NOTIFICATION"
proof -
  have round: "(\<exists>x u'. reply_round P u = Some (Done (x, u')) \<and> polled u u' \<and>
        (\<forall>v. x = Inr v \<longrightarrow> smc_msg_type v \<noteq> SMC_MSG_NOTIFICATION)) \<or>
      (\<exists>u'. reply_round P u = Some (Again u') \<and> polled u u' \<and>
        waiting (smc_rtkit u') < waiting (smc_rtkit u))" for u :: "'a smc"
  proof (rule wait_smc_returns [of P SMC_TIMEOUT_US u])
    fix x u'
    assume "wait_smc_message P SMC_TIMEOUT_US u = Some (x, u')" and "polled u u'"
      and "\<And>v. x = Inr v \<Longrightarrow> waiting (smc_rtkit u') < waiting (smc_rtkit u)"
    then show ?thesis
      by (cases x) (auto simp: reply_round_def)
  qed
  have "\<exists>q. loop (reply_round P) s = Some q"
    by (rule loop_returns [where I = "\<lambda>_. True" and m = "\<lambda>u. waiting (smc_rtkit u)"])
      (use round in fastforce)+
  then obtain q where q: "loop (reply_round P) s = Some q"
    by blast
  let ?Q = "\<lambda>(x, s'). polled s s' \<and> (\<forall>v. x = Inr v \<longrightarrow> smc_msg_type v \<noteq> SMC_MSG_NOTIFICATION)"
  have "?Q q"
    using q
  proof (rule loop_rule [where I = "polled s" and Q = ?Q])
    fix u u'
    assume "polled s u" and "reply_round P u = Some (Again u')"
    then show "polled s u'"
      using round [of u] by (auto intro: polled_trans)
  next
    fix u q
    assume "polled s u" and "reply_round P u = Some (Done q)"
    then show "?Q q"
      using round [of u] by (auto intro: polled_trans)
  qed simp
  with q that show thesis
    by (cases q) auto
qed

lemma reply_polled: "loop (reply_round P) s = Some (x, s') \<Longrightarrow> polled s s'"
  by (rule reply_returns [of P s]) simp

section \<open>Starting the firmware\<close>

lemma on_rtkit_frame: "on_rtkit m s = (x, s') \<Longrightarrow> s' = s\<lparr>smc_rtkit := smc_rtkit s'\<rparr>"
  by (auto simp: on_rtkit_def split: prod.splits sum.splits)

lemma on_rtkit_may_frame: "on_rtkit_may m s = Some (x, s') \<Longrightarrow> s' = s\<lparr>smc_rtkit := smc_rtkit s'\<rparr>"
  by (auto simp: on_rtkit_may_def split: option.splits prod.splits sum.splits)

text \<open>The shared memory lies in the SRAM.\<close>

definition shmem_inside :: "'d smc \<Rightarrow> nat \<Rightarrow> bool" where
  "shmem_inside s v \<longleftrightarrow> sram_vaddr s \<le> v \<and> v + 0x1000 \<le> sram_vaddr s + unat (sram_size s)"

lemma checked_sub_Some: "checked_sub a b = Some c \<longleftrightarrow> b \<le> a \<and> c = a - b"
  by (auto simp: checked_sub_def)

lemma set_shmem_Ok:
  assumes "set_shmem iova s = (Inr (), s')"
  obtains v where "s' = s\<lparr>shmem_vaddr := Some v\<rparr>" and "shmem_inside s v"
proof -
  obtain e1 e2 b1 b2 where b: "checked_add (sram_paddr s) (sram_size s) = Some b1" "checked_sub b1 1 = Some e1"
      "checked_add iova SMC_SHMEM_SIZE = Some b2" "checked_sub b2 1 = Some e2"
    and range: "sram_paddr s \<le> iova" "e2 \<le> e1"
    and s': "s' = s\<lparr>shmem_vaddr := Some (sram_vaddr s + unat (iova - sram_paddr s))\<rparr>"
    using assms by (auto simp: set_shmem_def bind_eq_Some_conv split: option.splits if_splits)
  have "unat e1 = unat (sram_paddr s) + unat (sram_size s) - 1" "unat e2 = unat iova + 0x1000 - 1"
    using b checked_add_Some [OF b(1)] checked_add_Some [OF b(3)]
    by (auto simp: checked_sub_Some unat_sub SMC_SHMEM_SIZE_def word_le_nat_alt)
  moreover have "1 \<le> unat (sram_paddr s) + unat (sram_size s)"
    using b checked_add_Some [OF b(1)] by (simp add: checked_sub_Some word_le_nat_alt)
  ultimately have "unat iova + 0x1000 \<le> unat (sram_paddr s) + unat (sram_size s)"
    using range(2) by (simp add: word_le_nat_alt)
  moreover have "unat (iova - sram_paddr s) = unat iova - unat (sram_paddr s)"
    using range(1) by (simp add: unat_sub)
  ultimately have "shmem_inside s (sram_vaddr s + unat (iova - sram_paddr s))"
    using range(1) unfolding shmem_inside_def word_le_nat_alt by linarith
  with s' that show ?thesis
    by blast
qed

lemma smc_boot_Ok:
  assumes "smc_boot P task s = Some (Inr (), s')"
  obtains v r where "s' = s\<lparr>smc_rtkit := r, shmem_vaddr := Some v\<rparr>" and "shmem_inside s v"
proof -
  obtain s1 s2 s3 s4 iova where steps: "on_rtkit_may (rtkit_wake P task) s = Some (Inr (), s1)"
    "on_rtkit (start_ep SMC_ENDPOINT) s1 = (Inr (), s2)"
    "on_rtkit (rtkit_send \<lparr>ep = SMC_ENDPOINT, msg = SMC_MSG_INITIALIZE\<rparr>) s2 = (Inr (), s3)"
    "wait_smc_message P SMC_TIMEOUT_US s3 = Some (Inr iova, s4)" "set_shmem iova s4 = (Inr (), s')"
    using assms unfolding smc_boot_def by (auto elim!: may_bind_OkE)
  have "polled s3 s4"
    by (rule wait_smc_polled [OF steps(4)])
  then have s4: "s4 = s\<lparr>smc_rtkit := smc_rtkit s4\<rparr>"
    using on_rtkit_may_frame [OF steps(1)] on_rtkit_frame [OF steps(2)] on_rtkit_frame [OF steps(3)]
    unfolding polled_def by (metis smc.surjective smc.update_convs(1) smc.select_convs(1))
  obtain v where v: "s' = s4\<lparr>shmem_vaddr := Some v\<rparr>" "shmem_inside s4 v"
    by (rule set_shmem_Ok [OF steps(5)])
  have "s' = s\<lparr>smc_rtkit := smc_rtkit s4, shmem_vaddr := Some v\<rparr>"
    by (subst v(1), subst s4) simp
  moreover have "shmem_inside s v"
    using v(2) by (subst (asm) s4) (simp add: shmem_inside_def)
  ultimately show ?thesis
    by (rule that)
qed

section \<open>Reading a key\<close>

text \<open>
  A read that succeeds has sent one command with the next sequence number, and its result belongs
  to a reply that carries this number and reports success.
\<close>

lemma read_key_Ok:
  assumes "read_key K P key len s = Some (Inr (n, bs), s')"
  obtains reply w where "0 < len" and "len \<le> 255" and "length bs = len"
    and "msg_id s' = (msg_id s + 1) AND 0xf"
    and "sent (smc_rtkit s') = sent (smc_rtkit s) @
      [wire \<lparr>ep = SMC_ENDPOINT, msg = read_key_message key len (msg_id s')\<rparr>] @ w"
    and "smc_msg_id reply = msg_id s'" and "smc_msg_type reply = 0" and "n = smc_msg_size reply" and "len \<le> n"
    and "shmem_vaddr s' = shmem_vaddr s" and "sram_vaddr s' = sram_vaddr s" and "sram_size s' = sram_size s"
    and "if len \<le> 4 then bs = take len (le_bytes 4 (smc_msg_data reply))
      else \<exists>v. shmem_vaddr s = Some v \<and> bs = map (\<lambda>i. volatile_read K (v + i) (kern (smc_rtkit s'))) [0..<len]"
proof -
  let ?i = "(msg_id s + 1) AND 0xf"
  let ?s1 = "s\<lparr>msg_id := ?i\<rparr>"
  let ?m = "\<lparr>ep = SMC_ENDPOINT, msg = read_key_message key len ?i\<rparr>"
  have len: "0 < len" "len \<le> 255"
    using assms by (auto simp: read_key_def split: if_splits)
  obtain s2 s3 reply where send: "on_rtkit (rtkit_send ?m) ?s1 = (Inr (), s2)"
    and reply: "loop (reply_round P) s2 = Some (Inr reply, s3)"
    and finish: "finish_read K reply ?i len s3 = (Inr (n, bs), s')"
    using assms len unfolding read_key_def by (auto simp: next_msg_id_def Let_def elim!: may_bind_OkE)
  obtain r where r: "s2 = ?s1\<lparr>smc_rtkit := r\<rparr>" "rtkit_send ?m (smc_rtkit s) = (Inr (), r)"
    using send by (auto simp: on_rtkit_def split: prod.splits sum.splits)
  have "polled s2 s3"
    by (rule reply_polled [OF reply])
  note s3 = polledD [OF this]
  have result: "s' = s3" "smc_msg_id reply = ?i" "smc_msg_type reply = 0" "n = smc_msg_size reply" "len \<le> n"
    "if len \<le> 4 then bs = take len (le_bytes 4 (smc_msg_data reply))
      else \<exists>v. shmem_vaddr s3 = Some v \<and> bs = map (\<lambda>i. volatile_read K (v + i) (kern (smc_rtkit s3))) [0..<len]"
    using finish by (auto simp: finish_read_def Let_def split: if_splits option.splits)
  obtain w where w: "sent (smc_rtkit s3) = sent (smc_rtkit s) @ [wire ?m] @ w"
    using s3(8) send_Ok [OF r(2)] r(1) by auto
  have "length bs = len"
    using result(6) by (auto split: if_splits)
  moreover have "if len \<le> 4 then bs = take len (le_bytes 4 (smc_msg_data reply))
      else \<exists>v. shmem_vaddr s = Some v \<and> bs = map (\<lambda>i. volatile_read K (v + i) (kern (smc_rtkit s'))) [0..<len]"
    using result(1,6) s3(1) r(1) by (cases "len \<le> 4") simp_all
  ultimately show ?thesis
    using len w result(1-5) s3(1-5) r(1) by (intro that [of w reply]) simp_all
qed

lemma read_key_time:
  assumes "read_key K P key len s = Some (Inr x, s')"
  shows "now (rt_asc (smc_rtkit s)) \<le> now (rt_asc (smc_rtkit s'))"
proof -
  obtain i s1 s2 s3 reply m where steps: "next_msg_id s = (Inr i, s1)" "on_rtkit (rtkit_send m) s1 = (Inr (), s2)"
    "loop (reply_round P) s2 = Some (Inr reply, s3)" "finish_read K reply i len s3 = (Inr x, s')"
    using assms by (auto simp: read_key_def elim!: may_bind_OkE split: if_splits)
  have "now (rt_asc (smc_rtkit s1)) \<le> now (rt_asc (smc_rtkit s2))"
    using steps(2) by (auto simp: on_rtkit_def dest: send_now split: prod.splits sum.splits)
  moreover have "smc_rtkit s1 = smc_rtkit s" "s' = s3"
    using steps(1,4) by (auto simp: next_msg_id_def finish_read_def Let_def split: if_splits option.splits)
  ultimately show ?thesis
    using polledD(6) [OF reply_polled [OF steps(3)]] by simp
qed

lemma total_returns: "\<exists>q. total_step m s = Some q"
  by (simp add: total_step_def)

lemma read_key_returns: "\<exists>q. read_key K P key len s = Some q"
proof -
  have "\<exists>q. loop (reply_round P) u = Some q" for u :: "'a smc"
    by (rule reply_returns [of P u]) simp
  then show ?thesis
    unfolding read_key_def by (cases "len = 0 \<or> len > 255") (simp_all only: if_True if_False total_returns may_bind_returns)
qed

section \<open>The device tree\<close>

fun fdt_nodes :: "fdt_node \<Rightarrow> fdt_node list" where
  "fdt_nodes (FdtNode n c p cs) = FdtNode n c p cs # concat (map fdt_nodes cs)"

lemma fdt_nodes_unfold: "set (fdt_nodes node) = insert node (\<Union>c\<in>set (fdt_children node). set (fdt_nodes c))"
  by (cases node) simp

text \<open>The search over the explicit stack finds a node exactly when the tree has one that matches.\<close>

lemma find_on_stack_complete:
  "find_on_stack p st = None \<longleftrightarrow> (\<forall>root\<in>set st. \<forall>n\<in>set (fdt_nodes root). \<not> p n)"
proof (induction p st rule: find_on_stack.induct)
  case (2 p node st)
  then show ?case
    using fdt_nodes_unfold [of node] by (cases "p node") (simp_all add: ball_Un)
qed simp

lemma find_on_stack_sound: "find_on_stack p st = Some n \<Longrightarrow> p n"
  by (induction p st rule: find_on_stack.induct) (auto split: if_splits)

section \<open>Properties\<close>

lemma seed_wall_clock_Ok:
  assumes "seed_wall_clock K P s = Some (Inr (), s')"
  obtains counter s1 byte_at q d where "read_key K P SMC_KEY_CLKM 6 s = Some (Inr (6, counter), s1)"
    and "read_rtc_offset K (kern (smc_rtkit s1)) = Some byte_at"
    and "0 \<le> rtc_seconds counter (map byte_at [0..<6])"
    and "initialize_wall_clock K (of_int (rtc_seconds counter (map byte_at [0..<6]) * 10 ^ 9))
      (current_time_ns K (smc_rtkit s)) (current_time_ns K (smc_rtkit s1)) (kern (smc_rtkit s1)) = (q, d)"
    and "q = Inr () \<or> q = Inl ''wall clock already initialized''"
    and "s' = s1\<lparr>smc_rtkit := (smc_rtkit s1)\<lparr>kern := d\<rparr>\<rparr>"
proof -
  obtain counter s1 byte_at epoch where read: "read_key K P SMC_KEY_CLKM 6 s = Some (Inr (6, counter), s1)"
    and offset: "read_rtc_offset K (kern (smc_rtkit s1)) = Some byte_at"
    and epoch: "rtc_ticks_to_epoch_ns counter (map byte_at [0..<6]) = Inr epoch"
    and init: "set_wall_clock K (current_time_ns K (smc_rtkit s)) epoch s1 = (Inr (), s')"
    using assms unfolding seed_wall_clock_def Let_def
    by (auto simp: sample_epoch_def elim!: may_bind_OkE try_bind_InrE split: if_splits option.splits)
  have "length counter = 6"
    by (rule read_key_Ok [OF read])
  then have exact: "rtc_ticks_to_epoch_ns counter (map byte_at [0..<6]) =
      (if rtc_seconds counter (map byte_at [0..<6]) < 0 then Inl NegativeEpoch
       else Inr (of_int (rtc_seconds counter (map byte_at [0..<6]) * 10 ^ 9)))"
    by (rule rtc_epoch_exact) simp
  obtain q d where q: "initialize_wall_clock K epoch (current_time_ns K (smc_rtkit s))
      (current_time_ns K (smc_rtkit s1)) (kern (smc_rtkit s1)) = (q, d)"
    by fastforce
  show ?thesis
    using read offset epoch init exact q
    by (intro that [of counter s1 byte_at q d]) (auto simp: set_wall_clock_def split: if_splits sum.splits)
qed

text \<open>
  C35. A probe that succeeds has registered one client and set the clock from it: the shared memory
  the firmware announced lies in the SRAM, the counter was read from there, and the kernel was given
  exactly the seconds of counter plus offset, as a signed number of 48 bits in units of
  \<open>2 ^ -15\<close> seconds, times a billion; the samples of the monotonic clock were taken before and
  after the counter was read.
\<close>

theorem smc_probe_sets_clock:
  assumes "smc_probe K P task a d paddr vaddr sz registry = Some (Inr (), registry')"
  shows "\<exists>s v counter offset r1 r2 d' q.
    registry' = registry @ [s] \<and> shmem_vaddr s = Some v \<and>
    vaddr \<le> v \<and> v + 0x1000 \<le> vaddr + unat sz \<and>
    counter = map (\<lambda>i. volatile_read K (v + i) d') [0..<6] \<and>
    read_rtc_offset K d' = Some offset \<and>
    0 \<le> rtc_seconds counter (map offset [0..<6]) \<and>
    initialize_wall_clock K (of_int (rtc_seconds counter (map offset [0..<6]) * 10 ^ 9))
      (current_time_ns K r1) (current_time_ns K r2) d' = (q, kern (smc_rtkit s)) \<and>
    (q = Inr () \<or> q = Inl ''wall clock already initialized'') \<and>
    now (rt_asc r1) \<le> now (rt_asc r2)"
proof -
  let ?s0 = "smc_new (rtkit_new a d) paddr vaddr sz"
  obtain s1 s2 where boot: "smc_boot P task ?s0 = Some (Inr (), s1)"
    and seed: "seed_wall_clock K P s1 = Some (Inr (), s2)" and reg: "registry' = registry @ [s2]"
    using assms unfolding smc_probe_def
    by (auto elim!: may_bind_OkE split: option.splits sum.splits prod.splits)
  obtain v r where s1: "s1 = ?s0\<lparr>smc_rtkit := r, shmem_vaddr := Some v\<rparr>" and inside: "shmem_inside ?s0 v"
    by (rule smc_boot_Ok [OF boot])
  obtain counter s3 byte_at q d' where read: "read_key K P SMC_KEY_CLKM 6 s1 = Some (Inr (6, counter), s3)"
    and init: "read_rtc_offset K (kern (smc_rtkit s3)) = Some byte_at"
      "0 \<le> rtc_seconds counter (map byte_at [0..<6])"
      "initialize_wall_clock K (of_int (rtc_seconds counter (map byte_at [0..<6]) * 10 ^ 9))
        (current_time_ns K (smc_rtkit s1)) (current_time_ns K (smc_rtkit s3)) (kern (smc_rtkit s3)) = (q, d')"
      "q = Inr () \<or> q = Inl ''wall clock already initialized''"
    and s2: "s2 = s3\<lparr>smc_rtkit := (smc_rtkit s3)\<lparr>kern := d'\<rparr>\<rparr>"
    by (rule seed_wall_clock_Ok [OF seed])
  have "shmem_vaddr s3 = Some v" "counter = map (\<lambda>i. volatile_read K (v + i) (kern (smc_rtkit s3))) [0..<6]"
    by (rule read_key_Ok [OF read]; use s1 in simp)+
  moreover have "now (rt_asc (smc_rtkit s1)) \<le> now (rt_asc (smc_rtkit s3))"
    by (rule read_key_time [OF read])
  ultimately show ?thesis
    using reg s2 init inside
    by (intro exI [of _ s2] exI [of _ v] exI [of _ counter] exI [of _ byte_at] exI [of _ "smc_rtkit s1"]
        exI [of _ "smc_rtkit s3"] exI [of _ "kern (smc_rtkit s3)"] exI [of _ q])
      (simp add: shmem_inside_def smc_new_def)
qed

text \<open>
  A firmware that completes the handshake, announces shared memory in the second page of the SRAM and
  answers the read of the clock; the counter shows two seconds.
\<close>

definition example_kernel :: "unit smc_kernel" where
  "example_kernel = \<lparr>volatile_read = (\<lambda>a d. if a = 0x91002 then 1 else 0), read_rtc_offset = (\<lambda>d. Some (\<lambda>i. 0)),
     current_time_ns = (\<lambda>r. 0), initialize_wall_clock = (\<lambda>epoch before after d. (Inr (), d))\<rparr>"

definition example_asc :: asc where
  "example_asc = asc_new\<lparr>i2a_fifo := map (Pair 0) (handshake_messages @ [(0x11000, 0x20), (0x61000, 0x20)])\<rparr>"

lemma stage_recv:
  assumes "stage ((v, 0x20) # ms) b r"
  shows "\<exists>r'. rtkit_recv P r = (Inr (Some \<lparr>ep = 0x20, msg = v\<rparr>), r') \<and> stage ms b r'"
  using assms
  by (simp add: stage_def rtkit_recv_def can_recv_def hardware_can_recv_def asc_recv_def recv_hardware_unlocked_def
      rtkit_message_of_def handle_internal_message_def try_bind_def)

lemma stage_wait:
  assumes "stage ((v, 0x20) # ms) b (smc_rtkit s)"
  shows "\<exists>r. wait_smc_message P n s = Some (Inr v, s\<lparr>smc_rtkit := r\<rparr>) \<and> stage ms b r"
proof -
  obtain r where "rtkit_recv P (smc_rtkit s) = (Inr (Some \<lparr>ep = 0x20, msg = v\<rparr>), r)" "stage ms b r"
    using stage_recv [OF assms] by blast
  then show ?thesis
    unfolding wait_smc_message_def
    by (intro exI [of _ r], subst loop_Done) (simp_all add: smc_wait_step_def on_rtkit_def)
qed

lemma stage_request:
  assumes "stage ms b (smc_rtkit s)"
  shows "\<exists>r. on_rtkit (rtkit_send m) s = (Inr (), s\<lparr>smc_rtkit := r\<rparr>) \<and> stage ms b r"
  using stage_send [OF assms, of m] by (auto simp: on_rtkit_def)

lemma example_boot:
  "\<exists>r. smc_boot plain_platform None (smc_new (rtkit_new example_asc ()) 0x10000 0x90000 0x4000) =
     Some (Inr (), (smc_new r 0x10000 0x90000 0x4000)\<lparr>shmem_vaddr := Some 0x91000\<rparr>) \<and>
     stage [(0x61000, 0x20)] 0x100000000 r"
proof -
  let ?s = "\<lambda>r. smc_new r 0x10000 0x90000 0x4000"
  have new: "smc_rtkit (?s r) = r" "(?s r)\<lparr>smc_rtkit := r'\<rparr> = ?s r'" for r r' :: "unit rtkit"
    by (simp_all add: smc_new_def)
  have "stage (handshake_messages @ [(0x11000, 0x20), (0x61000, 0x20)]) 0 (rtkit_new example_asc ())"
    by (simp add: stage_def example_asc_def rtkit_new_def asc_new_def)
  then obtain r1 where r1: "rtkit_wake plain_platform None (rtkit_new example_asc ()) = Some (Inr (), r1)"
    "stage [(0x11000, 0x20), (0x61000, 0x20)] 0x100000000 r1"
    using stage_boot [of _ _ "[]"] unfolding rtkit_wake_def by fastforce
  obtain r2 where r2: "start_ep 0x20 r1 = (Inr (), r2)" "stage [(0x11000, 0x20), (0x61000, 0x20)] 0x100000000 r2"
    using stage_send [OF r1(2)] r1(2) by (auto simp: start_ep_def start_ep_raw_def stage_def boot_example_bitmap)
  obtain r3 where r3: "rtkit_send \<lparr>ep = 0x20, msg = SMC_MSG_INITIALIZE\<rparr> r2 = (Inr (), r3)"
    "stage [(0x11000, 0x20), (0x61000, 0x20)] 0x100000000 r3"
    using stage_send [OF r2(2)] by blast
  obtain r4 where r4: "wait_smc_message plain_platform SMC_TIMEOUT_US (?s r3) = Some (Inr 0x11000, ?s r4)"
    "stage [(0x61000, 0x20)] 0x100000000 r4"
    using stage_wait [where v = "0x11000" and ms = "[(0x61000, 0x20)]" and b = "0x100000000" and s = "?s r3"] r3(2) by (auto simp: new)
  have "set_shmem 0x11000 (?s r4) = (Inr (), (?s r4)\<lparr>shmem_vaddr := Some 0x91000\<rparr>)"
    by (simp add: set_shmem_def smc_new_def checked_add_def checked_sub_def SMC_SHMEM_SIZE_def)
  then show ?thesis
    using r1 r2 r3 r4
    by (intro exI [of _ r4]) (simp add: smc_boot_def may_bind_Some on_rtkit_may_def on_rtkit_def new)
qed

lemma smc_example_read:
  assumes "stage [(0x61000, 0x20)] 0x100000000 (smc_rtkit s)" and "shmem_vaddr s = Some 0x91000" and "msg_id s = 0"
  shows "\<exists>r. read_key example_kernel plain_platform SMC_KEY_CLKM 6 s =
    Some (Inr (6, [0, 0, 1, 0, 0, 0]), s\<lparr>smc_rtkit := r, msg_id := 1\<rparr>)"
proof -
  have fields: "smc_msg_id 0x61000 = 1" "smc_msg_type 0x61000 = 0" "smc_msg_size 0x61000 = 6"
    by (simp_all add: smc_msg_id_def smc_msg_type_def smc_msg_size_def)
  let ?s = "s\<lparr>msg_id := 1\<rparr>"
  obtain r1 where r1: "on_rtkit (rtkit_send \<lparr>ep = 0x20, msg = read_key_message SMC_KEY_CLKM 6 1\<rparr>) ?s =
      (Inr (), ?s\<lparr>smc_rtkit := r1\<rparr>)" "stage [(0x61000, 0x20)] 0x100000000 r1"
    using stage_request [of _ _ ?s] assms(1) by fastforce
  obtain r2 where "wait_smc_message plain_platform SMC_TIMEOUT_US (?s\<lparr>smc_rtkit := r1\<rparr>) =
      Some (Inr 0x61000, ?s\<lparr>smc_rtkit := r2\<rparr>)"
    using stage_wait [where v = "0x61000" and ms = "[]" and b = "0x100000000" and s = "?s\<lparr>smc_rtkit := r1\<rparr>"] r1(2) by auto
  then have "loop (reply_round plain_platform) (?s\<lparr>smc_rtkit := r1\<rparr>) = Some (Inr 0x61000, ?s\<lparr>smc_rtkit := r2\<rparr>)"
    by (intro loop_Done) (simp add: reply_round_def fields)
  moreover have "finish_read example_kernel 0x61000 1 6 (?s\<lparr>smc_rtkit := r2\<rparr>) =
      (Inr (6, [0, 0, 1, 0, 0, 0]), ?s\<lparr>smc_rtkit := r2\<rparr>)"
    using assms(2) by (simp add: finish_read_def fields example_kernel_def upt_conv_Cons)
  ultimately show ?thesis
    using r1(1) assms(3)
    by (intro exI [of _ r2]) (simp add: read_key_def may_bind_Some next_msg_id_def total_step_def)
qed

lemma example_probe:
  "\<exists>s. smc_probe example_kernel plain_platform None example_asc () 0x10000 0x90000 0x4000 [] = Some (Inr (), [s])"
proof -
  let ?s = "\<lambda>r. (smc_new r 0x10000 0x90000 0x4000)\<lparr>shmem_vaddr := Some 0x91000\<rparr>"
  obtain r where boot: "smc_boot plain_platform None (smc_new (rtkit_new example_asc ()) 0x10000 0x90000 0x4000) =
      Some (Inr (), ?s r)" "stage [(0x61000, 0x20)] 0x100000000 r"
    using example_boot by blast
  then obtain r1 where "read_key example_kernel plain_platform SMC_KEY_CLKM 6 (?s r) =
      Some (Inr (6, [0, 0, 1, 0, 0, 0]), (?s r)\<lparr>smc_rtkit := r1, msg_id := 1\<rparr>)"
    using smc_example_read [of "?s r"] by (auto simp: smc_new_def)
  moreover have "rtc_ticks_to_epoch_ns [0, 0, 1, 0, 0, 0] [0, 0, 0, 0, 0, 0] = Inr 2000000000"
    by (subst rtc_epoch_exact) (simp_all add: rtc_seconds_def)
  ultimately have "\<exists>s. seed_wall_clock example_kernel plain_platform (?s r) = Some (Inr (), s)"
    by (simp add: seed_wall_clock_def may_bind_Some total_step_def sample_epoch_def set_wall_clock_def
        example_kernel_def upt_conv_Cons try_bind_def)
  with boot(1) show ?thesis
    by (auto simp: smc_probe_def may_bind_Some)
qed

theorem smc_probe_sets_clock_witness:
  "\<exists>s v. smc_probe example_kernel plain_platform None example_asc () 0x10000 0x90000 0x4000 [] = Some (Inr (), [s]) \<and>
     shmem_vaddr s = Some v \<and> 0x90000 \<le> v \<and> v + 0x1000 \<le> 0x94000"
proof -
  obtain s where s: "smc_probe example_kernel plain_platform None example_asc () 0x10000 0x90000 0x4000 [] =
      Some (Inr (), [s])"
    using example_probe by blast
  from smc_probe_sets_clock [OF this] s show ?thesis
    by auto
qed

text \<open>
  In early boot the probe always returns, whatever the coprocessor sends and whenever: the
  handshake and every wait of the key protocol end by a time limit or by using up the messages.
\<close>

theorem smc_probe_returns: "\<exists>q. smc_probe K P None a d paddr vaddr sz registry = Some q"
proof -
  have wake: "\<exists>q. on_rtkit_may (rtkit_wake P None) s = Some q" for s :: "'a smc"
    using boot_inner_returns [of P "[]" False False "smc_rtkit s"]
    by (auto simp: on_rtkit_may_def rtkit_wake_def split: prod.splits sum.splits)
  have wait: "\<exists>q. wait_smc_message P n s = Some q" for n and s :: "'a smc"
    by (rule wait_smc_returns [of P n s]) simp
  have "\<exists>q. smc_boot P None s = Some q" for s :: "'a smc"
    unfolding smc_boot_def by (intro may_bind_returns wake wait total_returns)
  moreover have "\<exists>q. seed_wall_clock K P s = Some q" for s :: "'a smc"
    unfolding seed_wall_clock_def Let_def
    by (intro may_bind_returns read_key_returns) (simp only: split_beta total_returns)
  ultimately have "\<exists>q. may_bind (smc_boot P None) (\<lambda>_. seed_wall_clock K P) s = Some q" for s
    by (intro may_bind_returns)
  then obtain x s where "may_bind (smc_boot P None) (\<lambda>_. seed_wall_clock K P)
      (smc_new (rtkit_new a d) paddr vaddr sz) = Some (x, s)"
    by fastforce
  then show ?thesis
    by (cases x) (simp_all add: smc_probe_def)
qed

end
