(* ===== verification/Crc16.thy ===== *)
theory Crc16
  imports LeBytes
begin

text \<open>
  The checksum of the keyboard transport (\<open>crc16\<close> in \<^verbatim>\<open>drivers/spi/apple-spi-hid\<close>), and why it
  detects every corruption of up to two neighbouring bytes: one step of the shift register is linear and
  injective, and two bytes are exactly as long as the register.
\<close>

section \<open>Definition\<close>

definition crc_bit :: "u16 \<Rightarrow> u16" where
  "crc_bit crc = (if crc AND 1 \<noteq> 0 then drop_bit 1 crc XOR 0xa001 else drop_bit 1 crc)"

definition crc_byte :: "u16 \<Rightarrow> u8 \<Rightarrow> u16" where
  "crc_byte crc byte = (crc_bit ^^ 8) (crc XOR ucast byte)"

definition crc16 :: "bytes \<Rightarrow> u16" where
  "crc16 bs = foldl crc_byte 0 bs"

section \<open>One step of the register\<close>

lemma xor_cancel_right: "a XOR c = b XOR c \<longleftrightarrow> a = b" for a b c :: "'a::len word"
  by (metis xor.assoc xor.right_neutral xor_self_eq)

lemma xor_cancel_left: "c XOR a = c XOR b \<longleftrightarrow> a = b" for a b c :: "'a::len word"
  using xor_cancel_right [of a c b] by (simp add: xor.commute)

lemma xor_zero_iff: "a XOR b = 0 \<longleftrightarrow> a = b" for a b :: "'a::len word"
  using xor_cancel_right [of a b b] by simp

lemma bit_feedback: "bit (0xa001 :: u16) n \<longleftrightarrow> n = 0 \<or> n = 13 \<or> n = 15"
proof -
  have eq: "(0xa001 :: u16) = 1 OR (push_bit 13 1 OR push_bit 15 1)"
    by simp
  show ?thesis
    unfolding eq by (auto simp only: bit_or_iff bit_push_bit_iff bit_1_iff)
      (auto simp: bit_simps)
qed

lemma bit_crc_bit: "bit (crc_bit c) n \<longleftrightarrow> (bit c (n + 1) \<noteq> (bit c 0 \<and> bit (0xa001 :: u16) n))"
  by (simp add: crc_bit_def and_one_neq_zero bit_xor_iff bit_drop_bit_eq del: bit_feedback)

lemma crc_bit_zero [simp]: "crc_bit 0 = 0"
  by (simp add: crc_bit_def)

lemma crc_bit_linear: "crc_bit (a XOR b) = crc_bit a XOR crc_bit b"
  by (rule bit_word_eqI) (auto simp: bit_crc_bit bit_xor_iff)

lemma crc_bit_inject: "crc_bit a = crc_bit b \<longleftrightarrow> a = b"
proof
  assume eq: "crc_bit a = crc_bit b"
  have same: "bit (crc_bit a) n = bit (crc_bit b) n" for n
    by (simp add: eq)
  have zero: "bit a 0 = bit b 0"
    using same [of 15] bit_imp_le_length [of a 16] bit_imp_le_length [of b 16]
    by (auto simp: bit_crc_bit bit_feedback)
  have "bit a (n + 1) = bit b (n + 1)" for n
    using same [of n] zero by (auto simp: bit_crc_bit)
  with zero show "a = b"
    by (intro bit_word_eqI) (metis Suc_eq_plus1 not0_implies_Suc)
qed simp

lemma crc_bits_linear: "(crc_bit ^^ n) (a XOR b) = (crc_bit ^^ n) a XOR (crc_bit ^^ n) b"
  by (induction n) (simp_all add: crc_bit_linear)

lemma crc_bits_inject: "(crc_bit ^^ n) a = (crc_bit ^^ n) b \<longleftrightarrow> a = b"
  by (induction n) (simp_all add: crc_bit_inject)

lemma crc_bits_zero [simp]: "(crc_bit ^^ n) 0 = 0"
  by (induction n) simp_all

text \<open>Bits above the ones shifted out only move.\<close>

lemma crc_bits_shift: "(\<And>i. i < n \<Longrightarrow> \<not> bit c i) \<Longrightarrow> (crc_bit ^^ n) c = drop_bit n c"
proof (induction n arbitrary: c)
  case (Suc n)
  have "\<not> bit c 0"
    using Suc.prems by simp
  then have first: "crc_bit c = drop_bit 1 c"
    by (simp add: crc_bit_def and_one_neq_zero)
  have "(crc_bit ^^ n) (drop_bit 1 c) = drop_bit n (drop_bit 1 c)"
    using Suc.prems by (intro Suc.IH) (simp add: bit_drop_bit_eq)
  then show ?case
    by (simp add: funpow_Suc_right first del: funpow.simps)
qed simp

section \<open>Two bytes\<close>

definition crc_word :: "u8 \<Rightarrow> u8 \<Rightarrow> u16" where
  "crc_word x y = ucast x XOR push_bit 8 (ucast y)"

lemma crc_word_inject: "crc_word x y = crc_word x' y' \<longleftrightarrow> x = x' \<and> y = y'"
proof
  assume eq: "crc_word x y = crc_word x' y'"
  have bits: "bit (crc_word x y) n = bit (crc_word x' y') n" for n
    by (simp add: eq)
  have "bit x n = bit x' n" if "n < 8" for n
    using bits [of n] that by (simp add: crc_word_def bit_simps)
  moreover have "bit y n = bit y' n" if "n < 8" for n
    using bits [of "n + 8"] that bit_imp_le_length [of x "n + 8"] bit_imp_le_length [of x' "n + 8"]
    by (auto simp: crc_word_def bit_simps)
  ultimately show "x = x' \<and> y = y'"
    by (auto intro!: bit_word_eqI)
qed simp

lemma crc_two_bytes: "crc_byte (crc_byte c x) y = (crc_bit ^^ 16) (c XOR crc_word x y)"
proof -
  have "(crc_bit ^^ 8) (push_bit 8 (ucast y)) = (drop_bit 8 (push_bit 8 (ucast y)) :: u16)"
    by (rule crc_bits_shift) (simp add: bit_push_bit_iff)
  also have "\<dots> = ucast y"
    by (rule bit_word_eqI) (auto simp: bit_simps dest: bit_imp_le_length)
  finally have "crc_byte c x XOR ucast y = (crc_bit ^^ 8) (c XOR ucast x XOR push_bit 8 (ucast y))"
    by (simp add: crc_byte_def crc_bits_linear xor.assoc)
  then have "crc_byte (crc_byte c x) y = (crc_bit ^^ 8) ((crc_bit ^^ 8) (c XOR crc_word x y))"
    by (simp add: crc_byte_def crc_word_def xor.assoc)
  also have "\<dots> = (crc_bit ^^ (8 + 8)) (c XOR crc_word x y)"
    by (simp only: funpow_add comp_apply)
  finally show ?thesis
    by simp
qed

lemma crc_word_le: "crc_word x y = from_le_bytes [x, y]"
  by (rule bit_word_eqI) (auto simp: crc_word_def from_le_bytes_def bit_simps dest: bit_imp_le_length)

section \<open>Detection\<close>

lemma crc_byte_inject: "crc_byte a x = crc_byte b x \<longleftrightarrow> a = b"
  by (simp add: crc_byte_def crc_bits_inject xor_cancel_right)

lemma crc_fold_inject: "foldl crc_byte a bs = foldl crc_byte b bs \<longleftrightarrow> a = b"
  by (induction bs arbitrary: a b) (simp_all add: crc_byte_inject)

text \<open>A change in two neighbouring bytes changes the checksum.\<close>

lemma crc16_two_bytes:
  assumes "crc16 (p @ [x, y] @ s) = crc16 (p @ [x', y'] @ s)"
  shows "x = x' \<and> y = y'"
proof -
  define c where "c = foldl crc_byte 0 p"
  have "foldl crc_byte (crc_byte (crc_byte c x) y) s = foldl crc_byte (crc_byte (crc_byte c x') y') s"
    using assms by (simp add: crc16_def c_def)
  then have "crc_byte (crc_byte c x) y = crc_byte (crc_byte c x') y'"
    by (simp only: crc_fold_inject)
  then have "crc_word x y = crc_word x' y'"
    by (simp only: crc_two_bytes crc_bits_inject xor_cancel_left)
  then show ?thesis
    by (simp only: crc_word_inject)
qed

text \<open>A block followed by its own checksum, least significant byte first, has the checksum zero.\<close>

lemma crc16_residue: "crc16 (bs @ [lo, hi]) = 0 \<longleftrightarrow> crc16 bs = from_le_bytes [lo, hi]"
proof -
  have "crc16 (bs @ [lo, hi]) = (crc_bit ^^ 16) (crc16 bs XOR crc_word lo hi)"
    by (simp add: crc16_def crc_two_bytes)
  then have "crc16 (bs @ [lo, hi]) = 0 \<longleftrightarrow> crc16 bs XOR crc_word lo hi = 0"
    using crc_bits_inject [of 16 _ 0] by simp
  also have "\<dots> \<longleftrightarrow> crc16 bs = crc_word lo hi"
    by (rule xor_zero_iff)
  finally show ?thesis
    by (simp add: crc_word_le)
qed

text \<open>Two blocks that differ, but only in up to two neighbouring bytes.\<close>

definition corrupted :: "bytes \<Rightarrow> bytes \<Rightarrow> bool" where
  "corrupted bs bs' \<longleftrightarrow> bs \<noteq> bs' \<and> (\<exists>p x y x' y' s. bs = p @ [x, y] @ s \<and> bs' = p @ [x', y'] @ s)"

lemma corrupted_detected: "crc16 bs = 0 \<Longrightarrow> corrupted bs bs' \<Longrightarrow> crc16 bs' \<noteq> 0"
proof
  assume ok: "crc16 bs = 0" and bad: "corrupted bs bs'" and "crc16 bs' = 0"
  from bad obtain p x y x' y' s where bs: "bs = p @ [x, y] @ s" "bs' = p @ [x', y'] @ s" "bs \<noteq> bs'"
    unfolding corrupted_def by blast
  have "crc16 (p @ [x, y] @ s) = crc16 (p @ [x', y'] @ s)"
    using ok \<open>crc16 bs' = 0\<close> bs(1,2) by simp
  from crc16_two_bytes [OF this] bs show False
    by simp
qed

end
