(* ===== verification/SpiHid.thy ===== *)
theory SpiHid
  imports Crc16 "HOL-Library.Signed_Division"
begin

text \<open>
  The keyboard and trackpad behind SPI (\<^verbatim>\<open>drivers/spi/apple-spi-hid\<close>): packets and their checksums,
  reassembly of messages, requests and their replies, the translation of keyboard and trackpad reports
  into input events, key repeat, and the hand-over from the interrupt to its worker. The SPI bus, the two
  GPIO controllers and the clock are parameters.
\<close>

section \<open>Types\<close>

abbreviation (input) PACKET_SIZE :: nat where "PACKET_SIZE \<equiv> 256"
abbreviation (input) MAX_PAYLOAD :: nat where "MAX_PAYLOAD \<equiv> 246"
abbreviation (input) MSG_HEADER_SIZE :: nat where "MSG_HEADER_SIZE \<equiv> 8"
abbreviation (input) DEVICE_KEYBOARD :: u8 where "DEVICE_KEYBOARD \<equiv> 0x01"
abbreviation (input) DEVICE_TRACKPAD :: u8 where "DEVICE_TRACKPAD \<equiv> 0x02"
abbreviation (input) DEVICE_INFO :: u8 where "DEVICE_INFO \<equiv> 0xd0"
abbreviation (input) PACKET_READ :: u8 where "PACKET_READ \<equiv> 0x20"
abbreviation (input) PACKET_WRITE :: u8 where "PACKET_WRITE \<equiv> 0x40"
abbreviation (input) MSG_REPORT :: u8 where "MSG_REPORT \<equiv> 0x10"
abbreviation (input) FLAG_WRITE :: u8 where "FLAG_WRITE \<equiv> 0x40"
abbreviation (input) SPIHID_DESC_MAX :: u16 where "SPIHID_DESC_MAX \<equiv> 512"
abbreviation (input) STATUS_OK :: u32 where "STATUS_OK \<equiv> 0xd56827ac"
abbreviation (input) REP_DELAY_US :: nat where "REP_DELAY_US \<equiv> 250000"
abbreviation (input) REP_PERIOD_US :: nat where "REP_PERIOD_US \<equiv> 33000"

definition BOOT_PACKET :: bytes where
  "BOOT_PACKET = [0xa0, 0x80, 0x00, 0x00]"

datatype spi_error = SpiNoResponse | SpiBusError | SpiInvalidArg | SpiTimeout | SpiOther

datatype irq_trigger = RisingEdge | FallingEdge | HighLevel | LowLevel

datatype key_value = Release | Press | Autorepeat

datatype input_event = EvKey u16 key_value | EvBtnLeft key_value | EvRelX int | EvRelY int | EvSyn

record spi_segment =
  seg_write :: "bytes option"
  seg_len :: nat
  seg_cs :: u8
  seg_speed_hz :: u32
  seg_before_us :: nat
  seg_after_us :: nat

text \<open>
  The kernel: a transfer delivers byte \<open>i\<close> of segment \<open>k\<close>; reading a line may change the state of the
  controller.
\<close>

record 's hid_os =
  spi_transfer :: "spi_segment list \<Rightarrow> ('s, spi_error, nat \<Rightarrow> nat \<Rightarrow> u8) stepper"
  irq_gpio_value :: "u32 \<Rightarrow> 's \<Rightarrow> bool \<times> 's"
  irq_gpio_enable :: "u32 \<Rightarrow> irq_trigger \<Rightarrow> 's \<Rightarrow> 's"
  irq_gpio_disable :: "u32 \<Rightarrow> 's \<Rightarrow> 's"
  spien_gpio_output :: "u32 \<Rightarrow> bool \<Rightarrow> 's \<Rightarrow> 's"
  spien_gpio_set :: "u32 \<Rightarrow> bool \<Rightarrow> 's \<Rightarrow> 's"
  hid_udelay :: "nat \<Rightarrow> 's \<Rightarrow> 's"
  hid_now :: "'s \<Rightarrow> nat"

record 's hid =
  hid_cs :: u8
  hid_max_freq :: u32
  keyboard_events :: "input_event list"
  trackpad_events :: "input_event list"
  spien_pin :: "u32 option"
  irq_pin :: "u32 option"
  hid_trigger :: irq_trigger
  irq_work_pending :: bool
  irq_worker_wakes :: nat
  hid_msg_id :: u8
  hid_booted :: bool
  hid_ready :: bool
  last_modifiers :: u8
  last_keys :: "u8 list"
  last_buttons :: u8
  last_touch :: "(16 word \<times> 16 word) option"
  key_press_time :: nat
  last_repeat_time :: nat
  hid_dev :: 's

type_synonym ('s, 'a) hid_op = "('s hid, spi_error, 'a) stepper"
type_synonym ('s, 'a) hid_may = "('s hid, spi_error, 'a) may_step"

definition hid_new :: "u8 \<Rightarrow> u32 \<Rightarrow> u32 option \<Rightarrow> u32 option \<Rightarrow> irq_trigger \<Rightarrow> 's \<Rightarrow> 's hid" where
  "hid_new cs freq spien irq trigger d = \<lparr>hid_cs = cs, hid_max_freq = freq, keyboard_events = [],
     trackpad_events = [], spien_pin = spien, irq_pin = irq, hid_trigger = trigger, irq_work_pending = False,
     irq_worker_wakes = 0, hid_msg_id = 0, hid_booted = False, hid_ready = False, last_modifiers = 0,
     last_keys = replicate 6 0, last_buttons = 0, last_touch = None, key_press_time = 0,
     last_repeat_time = 0, hid_dev = d\<rparr>"

definition hid_usage_table :: "(u8 \<times> u16) list" where
  "hid_usage_table = [
     (0x04, 30), (0x05, 48), (0x06, 46), (0x07, 32), (0x08, 18), (0x09, 33), (0x0a, 34), (0x0b, 35),
     (0x0c, 23), (0x0d, 36), (0x0e, 37), (0x0f, 38), (0x10, 50), (0x11, 49), (0x12, 24), (0x13, 25),
     (0x14, 16), (0x15, 19), (0x16, 31), (0x17, 20), (0x18, 22), (0x19, 47), (0x1a, 17), (0x1b, 45),
     (0x1c, 21), (0x1d, 44), (0x1e, 2), (0x1f, 3), (0x20, 4), (0x21, 5), (0x22, 6), (0x23, 7),
     (0x24, 8), (0x25, 9), (0x26, 10), (0x27, 11), (0x28, 28), (0x29, 1), (0x2a, 14), (0x2b, 15),
     (0x2c, 57), (0x2d, 12), (0x2e, 13), (0x2f, 26), (0x30, 27), (0x31, 43), (0x33, 39), (0x34, 40),
     (0x35, 41), (0x36, 51), (0x37, 52), (0x38, 53), (0x39, 58), (0x3a, 59), (0x3b, 60), (0x3c, 61),
     (0x3d, 62), (0x3e, 63), (0x3f, 64), (0x40, 65), (0x41, 66), (0x42, 67), (0x43, 68), (0x44, 87),
     (0x45, 88), (0x4f, 106), (0x50, 105), (0x51, 108), (0x52, 103), (0xe0, 29), (0xe1, 42), (0xe2, 56),
     (0xe3, 125), (0xe4, 97), (0xe5, 54), (0xe6, 100), (0xe7, 126)]"

definition hid_usage_to_key :: "u8 \<Rightarrow> u16 option" where
  "hid_usage_to_key usage = map_of hid_usage_table usage"

definition irq_trigger_from_dt_flags :: "u32 \<Rightarrow> irq_trigger" where
  "irq_trigger_from_dt_flags flags =
     (if flags = 0x01 then RisingEdge else if flags = 0x02 then FallingEdge
      else if flags = 0x04 then HighLevel else if flags = 0x08 then LowLevel else FallingEdge)"

section \<open>Packets\<close>

text \<open>A little-endian field of two bytes.\<close>

definition le16 :: "bytes \<Rightarrow> nat \<Rightarrow> u16" where
  "le16 bs i = from_le_bytes [bs ! i, bs ! (i + 1)]"

definition build_packet :: "u8 \<Rightarrow> u8 \<Rightarrow> u16 \<Rightarrow> u16 \<Rightarrow> u16 \<Rightarrow> bytes \<Rightarrow> bytes" where
  "build_packet flags device_id offset remain len data =
     (let payload = take MAX_PAYLOAD data;
          body = [flags, device_id] @ le_bytes 2 offset @ le_bytes 2 remain @ le_bytes 2 len @ payload @
            replicate (MAX_PAYLOAD - length payload) 0
      in body @ le_bytes 2 (crc16 body))"

definition hid_delay :: "'s hid_os \<Rightarrow> nat \<Rightarrow> ('s, unit) hid_op" where
  "hid_delay K us = put_state (\<lambda>h. h\<lparr>hid_dev := hid_udelay K us (hid_dev h)\<rparr>)"

definition hid_transfer :: "'s hid_os \<Rightarrow> spi_segment list \<Rightarrow> ('s, nat \<Rightarrow> nat \<Rightarrow> u8) hid_op" where
  "hid_transfer K segments h = (case spi_transfer K segments (hid_dev h) of (r, d) \<Rightarrow> (r, h\<lparr>hid_dev := d\<rparr>))"

text \<open>The checksum of the packet is computed anew before it is sent.\<close>

definition send_command_packet :: "'s hid_os \<Rightarrow> bytes \<Rightarrow> ('s, unit) hid_op" where
  "send_command_packet K packet h =
     (let body = take 254 packet;
          sealed = body @ le_bytes 2 (crc16 body);
          write = \<lparr>seg_write = Some sealed, seg_len = length sealed, seg_cs = hid_cs h,
            seg_speed_hz = hid_max_freq h, seg_before_us = 0, seg_after_us = 200\<rparr>;
          read_status = \<lparr>seg_write = None, seg_len = 4, seg_cs = hid_cs h,
            seg_speed_hz = hid_max_freq h, seg_before_us = 0, seg_after_us = 0\<rparr>
      in try_bind (hid_transfer K [write, read_status]) (\<lambda>data.
         try_bind (hid_delay K 200) (\<lambda>_.
           if (from_le_bytes (map (data 1) [0..<4]) :: u32) \<noteq> STATUS_OK then err SpiNoResponse else ok ())) h)"

definition recv_packet :: "'s hid_os \<Rightarrow> ('s, bytes) hid_op" where
  "recv_packet K h =
     (let seg = \<lparr>seg_write = None, seg_len = PACKET_SIZE, seg_cs = hid_cs h,
            seg_speed_hz = hid_max_freq h, seg_before_us = 100, seg_after_us = 100\<rparr>
      in try_bind (hid_transfer K [seg]) (\<lambda>data.
         try_bind (hid_delay K 250) (\<lambda>_. ok (map (data 0) [0..<PACKET_SIZE]))) h)"

text \<open>One packet of a message: the bytes so far with the flags and the device they came with.\<close>

type_synonym fragment_state = "bytes \<times> u8 \<times> u8"

definition packet_step :: "'s hid_os \<Rightarrow> fragment_state \<times> 's hid \<Rightarrow>
    (fragment_state \<times> 's hid, (spi_error + (u8 \<times> u8 \<times> bytes) option) \<times> 's hid) loop_step option" where
  "packet_step K = (\<lambda>((message, flags, device), h).
     Some (case recv_packet K h of
        (Inl e, h') \<Rightarrow> Done (Inl e, h')
      | (Inr packet, h') \<Rightarrow>
          let len = unat (le16 packet 6); remain = le16 packet 4; offset = unat (le16 packet 2);
              flags' = (if message = [] then packet ! 0 else flags);
              device' = (if message = [] then packet ! 1 else device);
              message' = message @ take len (drop 8 packet)
          in if crc16 (take 254 packet) \<noteq> le16 packet 254 then Done (Inl SpiBusError, h')
             else if message \<noteq> [] \<and> (flags \<noteq> packet ! 0 \<or> device \<noteq> packet ! 1) then Done (Inl SpiBusError, h')
             else if len > MAX_PAYLOAD then Done (Inl SpiInvalidArg, h')
             else if offset \<noteq> length message then Done (Inl SpiBusError, h')
             else if remain = 0
               then Done (Inr (if message' = [] then None else Some (flags', device', message')), h')
             else Again ((message', flags', device'), h')))"

definition recv_packet_message :: "'s hid_os \<Rightarrow> ('s, (u8 \<times> u8 \<times> bytes) option) hid_may" where
  "recv_packet_message K h = loop (packet_step K) (([], 0, 0), h)"

definition verify_message_crc :: "bytes \<Rightarrow> bool" where
  "verify_message_crc message =
     (if length message < 2 then False
      else let data_len = length message - 2 in crc16 (take data_len message) = le16 message data_len)"

section \<open>Lines and state\<close>

definition next_hid_msg_id :: "('s, u8) hid_op" where
  "next_hid_msg_id h = (Inr (hid_msg_id h), h\<lparr>hid_msg_id := hid_msg_id h + 1\<rparr>)"

definition mark_booted :: "('s, unit) hid_op" where
  "mark_booted = put_state (\<lambda>h. h\<lparr>hid_booted := True\<rparr>)"

definition disable_device_irq :: "'s hid_os \<Rightarrow> ('s, unit) hid_op" where
  "disable_device_irq K = put_state (\<lambda>h. case irq_pin h of None \<Rightarrow> h
     | Some pin \<Rightarrow> h\<lparr>hid_dev := irq_gpio_disable K pin (hid_dev h)\<rparr>)"

definition enable_device_irq :: "'s hid_os \<Rightarrow> ('s, unit) hid_op" where
  "enable_device_irq K = put_state (\<lambda>h. case irq_pin h of None \<Rightarrow> h
     | Some pin \<Rightarrow> h\<lparr>hid_dev := irq_gpio_enable K pin (hid_trigger h) (hid_dev h)\<rparr>)"

definition irq_line_active :: "'s hid_os \<Rightarrow> ('s, bool) hid_op" where
  "irq_line_active K h =
     (case irq_pin h of
        None \<Rightarrow> (Inr False, h)
      | Some pin \<Rightarrow>
          (case irq_gpio_value K pin (hid_dev h) of (v, d) \<Rightarrow>
             (Inr (case hid_trigger h of HighLevel \<Rightarrow> v | LowLevel \<Rightarrow> \<not> v | RisingEdge \<Rightarrow> False | FallingEdge \<Rightarrow> False),
              h\<lparr>hid_dev := d\<rparr>)))"

fun wait_for_irq_line :: "'s hid_os \<Rightarrow> nat \<Rightarrow> nat \<Rightarrow> ('s, bool) hid_op" where
  "wait_for_irq_line K 0 step_us = ok False"
| "wait_for_irq_line K (Suc attempts) step_us =
     try_bind (irq_line_active K) (\<lambda>active.
       if active then ok True
       else try_bind (hid_delay K step_us) (\<lambda>_. wait_for_irq_line K attempts step_us))"

fun wait_for_boot_packet :: "'s hid_os \<Rightarrow> nat \<Rightarrow> ('s, unit) hid_may" where
  "wait_for_boot_packet K 0 = total_step (err SpiTimeout)"
| "wait_for_boot_packet K (Suc attempts) =
     may_bind (total_step (wait_for_irq_line K 1 10000)) (\<lambda>active.
       if \<not> active then wait_for_boot_packet K attempts
       else may_bind (recv_packet_message K) (\<lambda>got.
         case got of
           None \<Rightarrow> may_bind (total_step (hid_delay K 10000)) (\<lambda>_. wait_for_boot_packet K attempts)
         | Some (flags, device, message) \<Rightarrow>
             if message = BOOT_PACKET then total_step mark_booted
             else may_bind (total_step (hid_delay K 10000)) (\<lambda>_. wait_for_boot_packet K attempts)))"

section \<open>Requests\<close>

definition request_message :: "u8 \<Rightarrow> u8 \<Rightarrow> u8 \<Rightarrow> u8 \<Rightarrow> u16 \<Rightarrow> bytes \<Rightarrow> bytes" where
  "request_message unknown0 unknown1 unknown2 i response_len payload =
     (let body = [unknown0, unknown1, unknown2, i] @ le_bytes 2 response_len @
            le_bytes 2 (of_nat (length payload) :: u16) @ payload
      in body @ le_bytes 2 (crc16 body))"

text \<open>What a message of the device is for a request that waits: not its reply, a refusal, or the payload.\<close>

definition response_payload :: "u8 \<Rightarrow> u8 \<Rightarrow> u8 \<Rightarrow> bytes \<Rightarrow> spi_error + bytes option" where
  "response_payload unknown0 unknown1 unknown2 response =
     (if length response < MSG_HEADER_SIZE + 2 \<or> \<not> verify_message_crc response then Inl SpiBusError
      else let payload_len = unat (le16 response 6) in
        if payload_len + MSG_HEADER_SIZE + 2 > length response then Inl SpiInvalidArg
        else if response ! 0 = unknown0 \<and> response ! 1 = unknown1 \<and> response ! 2 = unknown2
          then Inr (Some (take payload_len (drop MSG_HEADER_SIZE response)))
        else Inr None)"

fun wait_response :: "'s hid_os \<Rightarrow> u8 \<Rightarrow> u8 \<Rightarrow> u8 \<Rightarrow> u8 \<Rightarrow> nat \<Rightarrow> ('s, bytes) hid_may" where
  "wait_response K target u0 u1 u2 0 = total_step (err SpiTimeout)"
| "wait_response K target u0 u1 u2 (Suc attempts) =
     may_bind (total_step (wait_for_irq_line K 1 10000)) (\<lambda>active.
       if \<not> active then wait_response K target u0 u1 u2 attempts
       else may_bind (recv_packet_message K) (\<lambda>got.
         let again = may_bind (total_step (hid_delay K 10000)) (\<lambda>_. wait_response K target u0 u1 u2 attempts)
         in case got of
           None \<Rightarrow> again
         | Some (flags, device, response) \<Rightarrow>
             if response = BOOT_PACKET
               then may_bind (total_step mark_booted) (\<lambda>_. wait_response K target u0 u1 u2 attempts)
             else if flags \<noteq> PACKET_WRITE \<or> device \<noteq> target then wait_response K target u0 u1 u2 attempts
             else (case response_payload u0 u1 u2 response of
                     Inl e \<Rightarrow> total_step (err e)
                   | Inr (Some payload) \<Rightarrow> total_step (ok payload)
                   | Inr None \<Rightarrow> again)))"

definition send_request :: "'s hid_os \<Rightarrow> u8 \<Rightarrow> u8 \<Rightarrow> u8 \<Rightarrow> u8 \<Rightarrow> u16 \<Rightarrow> bytes \<Rightarrow> ('s, bytes) hid_may" where
  "send_request K target u0 u1 u2 response_len payload =
     (if MSG_HEADER_SIZE + length payload + 2 > MAX_PAYLOAD then total_step (err SpiInvalidArg)
      else may_bind (total_step next_hid_msg_id) (\<lambda>i.
        let message = request_message u0 u1 u2 i response_len payload
        in may_bind (total_step (send_command_packet K
             (build_packet FLAG_WRITE target 0 0 (of_nat (length message)) message))) (\<lambda>_.
           wait_response K target u0 u1 u2 10)))"

text \<open>A call whose result is dropped.\<close>

definition ignored :: "('s, 'a) hid_may \<Rightarrow> ('s, unit) hid_may" where
  "ignored m h = (case m h of None \<Rightarrow> None | Some (_, h') \<Rightarrow> Some (Inr (), h'))"

fun ignored_requests :: "'s hid_os \<Rightarrow> u8 \<Rightarrow> nat list \<Rightarrow> ('s, unit) hid_may" where
  "ignored_requests K u1 [] = total_step (ok ())"
| "ignored_requests K u1 (i # is) =
     may_bind (ignored (send_request K DEVICE_INFO 0x20 u1 (of_nat i) SPIHID_DESC_MAX [])) (\<lambda>_. ignored_requests K u1 is)"

definition reported_devices :: "bytes \<Rightarrow> nat" where
  "reported_devices device_info =
     min (if length device_info \<ge> 6 then unat (le16 device_info 4) else 3) 3"

definition finish_initialization_requests :: "'s hid_os \<Rightarrow> ('s, unit) hid_may" where
  "finish_initialization_requests K =
     may_bind (send_request K DEVICE_INFO 0x20 0x01 DEVICE_INFO 0 []) (\<lambda>device_info.
       let n = reported_devices device_info
       in may_bind (ignored_requests K 0x02 [0..<n]) (\<lambda>_.
          may_bind (ignored_requests K 0x10 [1..<n]) (\<lambda>_.
          ignored (send_request K DEVICE_TRACKPAD 0x52 0x02 0x00 0 [0x02, 0x01]))))"

definition finish_initialization :: "'s hid_os \<Rightarrow> ('s, unit) hid_may" where
  "finish_initialization K h =
     (if hid_ready h then Some (Inr (), h)
      else if \<not> hid_booted h then Some (Inl SpiNoResponse, h)
      else may_bind (finish_initialization_requests K)
             (\<lambda>_. total_step (put_state (\<lambda>h. h\<lparr>hid_ready := True\<rparr>))) h)"

definition power_on :: "'s hid_os \<Rightarrow> 's hid \<Rightarrow> (string + unit) \<times> 's hid" where
  "power_on K h =
     (case spien_pin h of
        None \<Rightarrow> (Inl ''apple-spi-hid: no GPIO controller for SPIEN'', h)
      | Some pin \<Rightarrow> (Inr (), h\<lparr>hid_dev :=
          (hid_udelay K 50000 \<circ> spien_gpio_set K pin True \<circ> hid_udelay K 5000 \<circ> spien_gpio_set K pin False \<circ>
           hid_udelay K 5000 \<circ> spien_gpio_output K pin True) (hid_dev h)\<rparr>))"

section \<open>Reports\<close>

text \<open>A report is a device with its payload; other messages are taken and dropped.\<close>

definition recv_report :: "'s hid_os \<Rightarrow> ('s, (u8 \<times> bytes) option) hid_may" where
  "recv_report K = may_bind (recv_packet_message K) (\<lambda>got. total_step (
     case got of
       None \<Rightarrow> ok None
     | Some (flags, device_id, message) \<Rightarrow>
         if flags \<noteq> PACKET_READ then ok None
         else if message = BOOT_PACKET then try_bind mark_booted (\<lambda>_. ok None)
         else if length message < MSG_HEADER_SIZE then err SpiBusError
         else if \<not> verify_message_crc message then err SpiBusError
         else if message ! 0 \<noteq> MSG_REPORT then ok None
         else let payload_len = unat (le16 message 6) in
           if payload_len + MSG_HEADER_SIZE + 2 > length message then err SpiInvalidArg
           else ok (Some (device_id, take payload_len (drop MSG_HEADER_SIZE message)))))"

definition modifier_usages :: "(u8 \<times> u8) list" where
  "modifier_usages = [(0x01, 0xe0), (0x02, 0xe1), (0x04, 0xe2), (0x08, 0xe3),
     (0x10, 0xe4), (0x20, 0xe5), (0x40, 0xe6), (0x80, 0xe7)]"

text \<open>The event for a usage, when it has a key code.\<close>

definition key_event :: "key_value \<Rightarrow> u8 \<Rightarrow> input_event list" where
  "key_event v usage = (case hid_usage_to_key usage of None \<Rightarrow> [] | Some code \<Rightarrow> [EvKey code v])"

definition modifier_events :: "u8 \<Rightarrow> u8 \<Rightarrow> input_event list" where
  "modifier_events old_modifiers new_modifiers = concat (map (\<lambda>(m, usage).
     let was_pressed = old_modifiers AND m \<noteq> 0; is_pressed = new_modifiers AND m \<noteq> 0
     in if was_pressed \<noteq> is_pressed then key_event (if is_pressed then Press else Release) usage else [])
     modifier_usages)"

definition release_events :: "bytes \<Rightarrow> bytes \<Rightarrow> input_event list" where
  "release_events old_keys new_keys =
     concat (map (\<lambda>usage. if usage \<noteq> 0 \<and> usage \<notin> set new_keys then key_event Release usage else []) old_keys)"

definition press_events :: "bytes \<Rightarrow> bytes \<Rightarrow> input_event list" where
  "press_events old_keys new_keys =
     concat (map (\<lambda>usage. if usage \<noteq> 0 \<and> usage \<notin> set old_keys then key_event Press usage else []) new_keys)"

definition emit_key_changes :: "'s hid_os \<Rightarrow> u8 \<Rightarrow> bytes \<Rightarrow> 's hid \<Rightarrow> 's hid" where
  "emit_key_changes K new_modifiers new_keys h = h\<lparr>
     keyboard_events := keyboard_events h @ modifier_events (last_modifiers h) new_modifiers @
       release_events (last_keys h) new_keys @ press_events (last_keys h) new_keys,
     last_modifiers := new_modifiers, last_keys := new_keys,
     key_press_time := hid_now K (hid_dev h), last_repeat_time := 0\<rparr>"

definition repeat_events :: "u8 \<Rightarrow> bytes \<Rightarrow> input_event list" where
  "repeat_events modifiers keys =
     concat (map (\<lambda>(m, usage). if modifiers AND m \<noteq> 0 then key_event Autorepeat usage else []) modifier_usages) @
     concat (map (\<lambda>usage. if usage \<noteq> 0 then key_event Autorepeat usage else []) keys)"

definition maybe_repeat_keys :: "'s hid_os \<Rightarrow> 's hid \<Rightarrow> 's hid" where
  "maybe_repeat_keys K h =
     (let t = hid_now K (hid_dev h);
          next_repeat = (if last_repeat_time h = 0 then key_press_time h + REP_DELAY_US
            else last_repeat_time h + REP_PERIOD_US)
      in if \<not> (last_modifiers h \<noteq> 0 \<or> (\<exists>k\<in>set (last_keys h). k \<noteq> 0)) then h
         else if t < next_repeat then h
         else h\<lparr>keyboard_events := keyboard_events h @ repeat_events (last_modifiers h) (last_keys h) @ [EvSyn],
                last_repeat_time := t\<rparr>)"

definition handle_keyboard_report :: "'s hid_os \<Rightarrow> bytes \<Rightarrow> 's hid \<Rightarrow> 's hid" where
  "handle_keyboard_report K report h =
     (if length report < 10 then h
      else let h' = emit_key_changes K (report ! 1) (take 6 (drop 3 report)) h
        in h'\<lparr>keyboard_events := keyboard_events h' @ [EvSyn]\<rparr>)"

text \<open>The first finger of a trackpad report: its pressure and position, the vertical axis inverted.\<close>

definition finger_touch :: "bytes \<Rightarrow> bool \<times> 16 word \<times> 16 word" where
  "finger_touch finger = (0 <s le16 finger 18, le16 finger 4, - le16 finger 6)"

definition trackpad_motion :: "bytes \<Rightarrow> (16 word \<times> 16 word) option \<Rightarrow> int \<times> int \<times> (16 word \<times> 16 word) option" where
  "trackpad_motion report prev =
     (if report ! 30 \<noteq> 0 \<and> length report \<ge> 46 + 30 then
        (case finger_touch (take 30 (drop 46 report)) of (touched, x, y) \<Rightarrow>
           if touched then
             (case prev of
                None \<Rightarrow> (0, 0, Some (x, y))
              | Some (lx, ly) \<Rightarrow> ((sint x - sint lx) sdiv 12, (sint y - sint ly) sdiv 12, Some (x, y)))
           else (0, 0, None))
      else (0, 0, None))"

definition handle_trackpad_report :: "bytes \<Rightarrow> 's hid \<Rightarrow> 's hid" where
  "handle_trackpad_report report h =
     (if length report < 46 then h
      else let clicked = report ! 1 \<noteq> 0 \<or> report ! 31 \<noteq> 0;
             buttons = (if clicked then 1 else 0);
             was_pressed = last_buttons h AND 1 \<noteq> 0;
             is_pressed = buttons AND 1 \<noteq> 0
        in case trackpad_motion report (last_touch h) of (dx, dy, touch) \<Rightarrow>
          h\<lparr>last_touch := touch, last_buttons := buttons,
            trackpad_events := trackpad_events h @
              (if was_pressed \<noteq> is_pressed then [EvBtnLeft (if is_pressed then Press else Release)] else []) @
              (if dx \<noteq> 0 then [EvRelX dx] else []) @ (if dy \<noteq> 0 then [EvRelY dy] else []) @ [EvSyn]\<rparr>)"

definition handle_input_report :: "'s hid_os \<Rightarrow> u8 \<Rightarrow> bytes \<Rightarrow> 's hid \<Rightarrow> 's hid" where
  "handle_input_report K device_id report h =
     (if device_id = DEVICE_KEYBOARD then handle_keyboard_report K report h
      else if device_id = DEVICE_TRACKPAD then handle_trackpad_report report h
      else h)"

section \<open>Interrupts\<close>

definition edge_triggered :: "'s hid \<Rightarrow> bool" where
  "edge_triggered h \<longleftrightarrow> hid_trigger h = RisingEdge \<or> hid_trigger h = FallingEdge"

text \<open>The loop over at most eight messages; the first round of an edge does not look at the line.\<close>

fun drain_reports :: "'s hid_os \<Rightarrow> bool \<Rightarrow> nat \<Rightarrow> bool \<Rightarrow> ('s, unit) hid_may" where
  "drain_reports K edge 0 first = total_step (ok ())"
| "drain_reports K edge (Suc attempts) first =
     may_bind (total_step (if \<not> edge \<or> \<not> first then irq_line_active K else ok True)) (\<lambda>active.
       if \<not> active then total_step (ok ())
       else may_bind (recv_report K) (\<lambda>got.
         may_bind (total_step (put_state (case got of None \<Rightarrow> (\<lambda>h. h)
             | Some (device_id, report) \<Rightarrow> handle_input_report K device_id report))) (\<lambda>_.
           if edge then total_step (ok ()) else drain_reports K edge attempts False)))"

definition service_pending_reads :: "'s hid_os \<Rightarrow> ('s, unit) hid_may" where
  "service_pending_reads K h = drain_reports K (edge_triggered h) 8 True h"

definition queue_interrupt_work :: "'s hid_os \<Rightarrow> ('s, unit) hid_op" where
  "queue_interrupt_work K =
     try_bind (disable_device_irq K) (\<lambda>_. put_state (\<lambda>h.
       h\<lparr>irq_work_pending := True, irq_worker_wakes := Suc (irq_worker_wakes h)\<rparr>))"

definition process_deferred_interrupt_work :: "'s hid_os \<Rightarrow> ('s, bool) hid_may" where
  "process_deferred_interrupt_work K h =
     (if \<not> irq_work_pending h then Some (Inr False, h)
      else let h' = h\<lparr>irq_work_pending := False\<rparr> in
        if \<not> hid_ready h then Some (Inr True, h')
        else may_bind (ignored (service_pending_reads K))
               (\<lambda>_. may_bind (total_step (enable_device_irq K)) (\<lambda>_. total_step (ok True))) h')"

definition hid_handle_interrupt :: "'s hid_os \<Rightarrow> ('s, unit) hid_op" where
  "hid_handle_interrupt K h =
     (if \<not> hid_ready h then disable_device_irq K h else queue_interrupt_work K h)"

text \<open>
  The part of the probe after the lines are requested, with the interrupt masked: the device is
  powered on, announces itself and is configured, then its interrupt is enabled. On a failure the
  line is given back.
\<close>

definition hid_bring_up :: "'s hid_os \<Rightarrow> ('s \<Rightarrow> 's) \<Rightarrow> 's hid \<Rightarrow> ((string + unit) \<times> 's hid) option" where
  "hid_bring_up K free_irq h =
     (case power_on K h of
        (Inl e, h1) \<Rightarrow> Some (Inl e, h1\<lparr>hid_dev := free_irq (hid_dev h1)\<rparr>)
      | (Inr _, h1) \<Rightarrow>
     (case wait_for_boot_packet K 100 h1 of
        None \<Rightarrow> None
      | Some (Inl _, h2) \<Rightarrow> Some (Inl ''apple-spi-hid: boot packet not received'', h2\<lparr>hid_dev := free_irq (hid_dev h2)\<rparr>)
      | Some (Inr _, h2) \<Rightarrow>
     (case finish_initialization K h2 of
        None \<Rightarrow> None
      | Some (Inl _, h3) \<Rightarrow> Some (Inl ''apple-spi-hid: initialization failed'', h3\<lparr>hid_dev := free_irq (hid_dev h3)\<rparr>)
      | Some (Inr _, h3) \<Rightarrow>
          (case enable_device_irq K h3 of (_, h4) \<Rightarrow> Some (Inr (), h4)))))"

end
