(* ===== verification/SpiHidPackets.thy ===== *)
theory SpiHidPackets
  imports SpiHid
begin

text \<open>
  The transport of the keyboard: what a reassembled message is made of, that corrupted packets are refused,
  and that a message that is packed the way the driver packs it is received unchanged.
\<close>

section \<open>Packets\<close>

definition sealed :: "bytes \<Rightarrow> bool" where
  "sealed p \<longleftrightarrow> length p = 256 \<and> crc16 (take 254 p) = le16 p 254"

lemma sealed_residue: "length p = 256 \<Longrightarrow> sealed p \<longleftrightarrow> crc16 p = 0"
proof -
  assume len: "length p = 256"
  then have "drop 254 p = [p ! 254, p ! 255]"
    by (intro nth_equalityI) (auto simp: less_Suc_eq numeral_2_eq_2 nth_Cons split: nat.split)
  then have "p = take 254 p @ [p ! 254, p ! 255]"
    using append_take_drop_id [of 254 p] by simp
  then show ?thesis
    using crc16_residue [of "take 254 p" "p ! 254" "p ! 255"] len by (simp add: sealed_def le16_def)
qed

lemma sealed_not_corrupted: "sealed p \<Longrightarrow> sealed q \<Longrightarrow> \<not> corrupted p q"
  using corrupted_detected [of p q] sealed_residue [of p] sealed_residue [of q] by (auto simp: sealed_def)

definition packet_payload :: "bytes \<Rightarrow> bytes" where
  "packet_payload p = take (unat (le16 p 6)) (drop 8 p)"

text \<open>The packets a number of reads has delivered, in order.\<close>

inductive delivers :: "'s hid_os \<Rightarrow> 's hid \<Rightarrow> bytes list \<Rightarrow> 's hid \<Rightarrow> bool" for K where
  delivers_Nil: "delivers K h [] h"
| delivers_snoc: "delivers K h ps h' \<Longrightarrow> recv_packet K h' = (Inr p, h'') \<Longrightarrow> delivers K h (ps @ [p]) h''"

text \<open>
  The packets of a message: sealed, with payloads that follow each other, all that come after data
  from the same device with the same flags.
\<close>

fun fragments :: "bytes list \<Rightarrow> bytes \<Rightarrow> bool" where
  "fragments [] message \<longleftrightarrow> message = []"
| "fragments (p # before) message \<longleftrightarrow> sealed p \<and> unat (le16 p 6) \<le> MAX_PAYLOAD \<and>
     (\<exists>rest. fragments before rest \<and> message = rest @ packet_payload p \<and> unat (le16 p 2) = length rest \<and>
        (rest \<noteq> [] \<longrightarrow> before \<noteq> [] \<and> p ! 0 = hd before ! 0 \<and> p ! 1 = hd before ! 1))"

lemma recv_packet_length: "recv_packet K h = (Inr p, h') \<Longrightarrow> length p = 256"
  by (auto simp: recv_packet_def Let_def elim!: try_bind_InrE)

definition assembled :: "'s hid_os \<Rightarrow> 's hid \<Rightarrow> fragment_state \<times> 's hid \<Rightarrow> bool" where
  "assembled K h0 = (\<lambda>((message, flags, device), h). \<exists>ps. delivers K h0 ps h \<and> fragments (rev ps) message \<and>
     (\<forall>p\<in>set ps. le16 p 4 \<noteq> 0) \<and> (ps \<noteq> [] \<longrightarrow> flags = last ps ! 0 \<and> device = last ps ! 1))"

lemma hd_rev_last: "ps \<noteq> [] \<Longrightarrow> hd (rev ps) = last ps"
  by (simp add: hd_rev)

lemma fragments_step:
  assumes "fragments (rev ps) message" and "sealed p" and "unat (le16 p 6) \<le> 246" and "unat (le16 p 2) = length message"
    and "message \<noteq> [] \<Longrightarrow> p ! 0 = last ps ! 0 \<and> p ! 1 = last ps ! 1"
  shows "fragments (rev (ps @ [p])) (message @ packet_payload p)"
proof -
  have "ps \<noteq> []" if "message \<noteq> []"
    using assms(1) that by auto
  with assms show ?thesis
    by (auto simp: hd_rev_last intro!: exI [of _ message])
qed

lemma packet_step_assembled:
  assumes I: "assembled K h0 ((message, flags, device), h)"
    and step: "packet_step K ((message, flags, device), h) = Some q"
  obtains (failed) e h' where "q = Done (Inl e, h')"
  | (last) p h' ps where "q = Done (Inr (if message @ packet_payload p = [] then None
        else Some (p ! 0, p ! 1, message @ packet_payload p)), h')"
      and "delivers K h0 (ps @ [p]) h'" and "fragments (rev (ps @ [p])) (message @ packet_payload p)"
      and "\<forall>q\<in>set ps. le16 q 4 \<noteq> 0" and "le16 p 4 = 0"
  | (more) s where "q = Again s" and "assembled K h0 s"
proof -
  obtain ps where ps: "delivers K h0 ps h" "fragments (rev ps) message" "\<forall>q\<in>set ps. le16 q 4 \<noteq> 0"
    "ps \<noteq> [] \<longrightarrow> flags = last ps ! 0 \<and> device = last ps ! 1"
    using I unfolding assembled_def by blast
  obtain r h' where recv: "recv_packet K h = (r, h')"
    by fastforce
  show thesis
  proof (cases r)
    case (Inl e)
    with recv step show ?thesis
      by (intro failed [of e h']) (simp add: packet_step_def)
  next
    case (Inr p)
    have del: "delivers K h0 (ps @ [p]) h'"
      using ps(1) recv Inr by (auto intro: delivers_snoc)
    let ?bad = "crc16 (take 254 p) \<noteq> le16 p 254 \<or> message \<noteq> [] \<and> (flags \<noteq> p ! 0 \<or> device \<noteq> p ! 1) \<or>
      unat (le16 p 6) > 246 \<or> unat (le16 p 2) \<noteq> length message"
    show ?thesis
    proof (cases ?bad)
      case True
      then have "\<exists>e. q = Done (Inl e, h')"
        using recv Inr step by (auto simp: packet_step_def Let_def split: if_splits)
      then show ?thesis
        using failed by blast
    next
      case good: False
      have "ps \<noteq> []" if "message \<noteq> []"
        using ps(2) that by auto
      then have frags: "fragments (rev (ps @ [p])) (message @ packet_payload p)"
        using good ps recv_packet_length [of K h p h'] recv Inr
        by (intro fragments_step) (auto simp: sealed_def)
      have "packet_step K ((message, flags, device), h) = Some (if le16 p 4 = 0
          then Done (Inr (if message @ packet_payload p = [] then None
            else Some (p ! 0, p ! 1, message @ packet_payload p)), h')
          else Again ((message @ packet_payload p, p ! 0, p ! 1), h'))"
        using good recv Inr by (cases "message = []") (simp_all add: packet_step_def Let_def packet_payload_def)
      moreover have "assembled K h0 ((message @ packet_payload p, p ! 0, p ! 1), h')" if "le16 p 4 \<noteq> 0"
        using del frags ps(3) that unfolding assembled_def
        by (auto intro!: exI [of _ "ps @ [p]"])
      ultimately show ?thesis
        using del frags ps(3) step by (cases "le16 p 4 = 0") (auto intro: last more)
    qed
  qed
qed

section \<open>Built packets\<close>

lemma le_bytes_two: "le_bytes 2 w = [ucast w, ucast (drop_bit 8 w)]" for w :: u16
  by (simp add: le_bytes_def numeral_2_eq_2)

lemma le16_parts: "from_le_bytes [ucast w, ucast (drop_bit 8 w)] = w" for w :: u16
  using from_le_bytes_le_bytes [of 2 w] by (simp add: le_bytes_two)

lemma build_packet_fields:
  fixes flags device :: u8 and offset remain len :: u16
  assumes "length data \<le> 246"
  defines "p \<equiv> build_packet flags device offset remain len data"
  shows "sealed p" and "p ! 0 = flags" and "p ! 1 = device" and "le16 p 2 = offset" and "le16 p 4 = remain"
    and "le16 p 6 = len" and "take (length data) (drop 8 p) = data"
proof -
  define body where "body = [flags, device, ucast offset, ucast (drop_bit 8 offset), ucast remain,
    ucast (drop_bit 8 remain), ucast len, ucast (drop_bit 8 len)] @ data @ replicate (246 - length data) 0"
  have p: "p = body @ [ucast (crc16 body), ucast (drop_bit 8 (crc16 body))]"
    using assms(1) unfolding p_def body_def build_packet_def Let_def by (simp add: le_bytes_two)
  have body: "length body = 254"
    using assms(1) by (simp add: body_def)
  show "sealed p"
    using body by (simp add: sealed_def p le16_def nth_append le16_parts)
  have fields: "p ! i = body ! i" if "i < 254" for i
    using that body by (simp add: p nth_append)
  show "p ! 0 = flags" "p ! 1 = device" "le16 p 2 = offset" "le16 p 4 = remain" "le16 p 6 = len"
    by (simp_all add: le16_def fields) (simp_all add: body_def le16_parts)
  show "take (length data) (drop 8 p) = data"
    unfolding p body_def by simp
qed

lemma request_message_fields:
  fixes u0 u1 u2 i :: u8 and n :: u16
  assumes "length payload \<le> 236"
  defines "m \<equiv> request_message u0 u1 u2 i n payload"
  shows "length m = length payload + 10" and "verify_message_crc m" and "m ! 0 = u0" and "m ! 1 = u1" and "m ! 2 = u2"
    and "unat (le16 m 6) = length payload" and "take (length payload) (drop 8 m) = payload"
proof -
  let ?k = "of_nat (length payload) :: u16"
  define body where "body = [u0, u1, u2, i, ucast n, ucast (drop_bit 8 n), ucast ?k, ucast (drop_bit 8 ?k)] @ payload"
  have m: "m = body @ [ucast (crc16 body), ucast (drop_bit 8 (crc16 body))]"
    by (simp add: m_def request_message_def Let_def le_bytes_two body_def)
  show len: "length m = length payload + 10"
    by (simp add: m body_def)
  have fields: "m ! j = body ! j" if "j < 8" for j
    using that by (simp add: m nth_append) (simp add: body_def)
  show "verify_message_crc m"
    by (simp add: verify_message_crc_def m Let_def le16_def nth_append le16_parts)
  show "m ! 0 = u0" "m ! 1 = u1" "m ! 2 = u2"
    by (simp_all add: fields) (simp_all add: body_def)
  have "le16 m 6 = ?k"
    by (simp add: le16_def fields) (simp add: body_def le16_parts)
  moreover have "unat ?k = length payload"
    using assms(1) by (intro unat_of_nat_small) simp
  ultimately show "unat (le16 m 6) = length payload"
    by simp
  show "take (length payload) (drop 8 m) = payload"
    by (simp add: m body_def)
qed

lemma single_packet_received:
  assumes "recv_packet K h = (Inr (build_packet flags device 0 0 (of_nat (length data)) data), h')"
    and "0 < length data" and "length data \<le> 246"
  shows "recv_packet_message K h = Some (Inr (Some (flags, device, data)), h')"
proof -
  note fields = build_packet_fields [OF assms(3), of flags device 0 0 "of_nat (length data)"]
  have "unat (of_nat (length data) :: u16) = length data"
    using assms(3) by (intro unat_of_nat_small) simp
  then show ?thesis
    unfolding recv_packet_message_def using assms fields
    by (intro loop_Done) (auto simp: packet_step_def Let_def sealed_def)
qed

text \<open>A device that sends empty packets, each with a remainder, keeps the driver reading for ever.\<close>

lemma empty_fragments_never_end:
  fixes K :: "'s hid_os"
  assumes "\<And>h. I h \<Longrightarrow> \<exists>p h'. recv_packet K h = (Inr p, h') \<and> I h' \<and>
    sealed p \<and> le16 p 2 = 0 \<and> le16 p 4 \<noteq> 0 \<and> le16 p 6 = 0"
    and "I h"
  shows "recv_packet_message K h = None"
  unfolding recv_packet_message_def
proof (rule loop_never [where I = "\<lambda>s. fst (fst s) = [] \<and> I (snd s)"])
  fix s :: "fragment_state \<times> 's hid"
  assume s: "fst (fst s) = [] \<and> I (snd s)"
  obtain p h' where p: "recv_packet K (snd s) = (Inr p, h')" "I h'" "sealed p" "le16 p 2 = 0" "le16 p 4 \<noteq> 0" "le16 p 6 = 0"
    using assms(1) [of "snd s"] s by blast
  with s show "\<exists>s'. packet_step K s = Some (Again s') \<and> fst (fst s') = [] \<and> I (snd s')"
    by (intro exI [of _ "(([], p ! 0, p ! 1), h')"]) (auto simp: packet_step_def Let_def sealed_def split: prod.split)
qed (simp add: assms(2))

section \<open>Properties\<close>

text \<open>
  C20. A message is exactly the payloads of the packets that were read for it: all of them sealed by their
  checksum, each at the offset the ones before it end at, all that follow data from one device with
  the same flags, and only the last one without a remainder. None of them differs from a sealed
  packet in just two neighbouring bytes, so such a corruption always fails the call.
\<close>

theorem message_reassembled:
  assumes "recv_packet_message K h = Some (Inr got, h')"
  shows "\<exists>ps p message. delivers K h (ps @ [p]) h' \<and> fragments (rev (ps @ [p])) message \<and>
    message = concat (map packet_payload (ps @ [p])) \<and>
    (\<forall>q\<in>set ps. le16 q 4 \<noteq> 0) \<and> le16 p 4 = 0 \<and>
    got = (if message = [] then None else Some (p ! 0, p ! 1, message)) \<and>
    (\<forall>q\<in>set (ps @ [p]). \<forall>sent. sealed sent \<longrightarrow> \<not> corrupted sent q)"
proof -
  have whole: "message = concat (map packet_payload ps)" if "fragments (rev ps) message" for ps message
    using that by (induction ps arbitrary: message rule: rev_induct) auto
  have all_sealed: "\<forall>q\<in>set ps. sealed q" if "fragments (rev ps) message" for ps message
    using that by (induction ps arbitrary: message rule: rev_induct) auto
  let ?Q = "\<lambda>(r, h'). \<forall>got. r = Inr got \<longrightarrow> (\<exists>ps p message. delivers K h (ps @ [p]) h' \<and>
    fragments (rev (ps @ [p])) message \<and> (\<forall>q\<in>set ps. le16 q 4 \<noteq> 0) \<and> le16 p 4 = 0 \<and>
    got = (if message = [] then None else Some (p ! 0, p ! 1, message)))"
  have "?Q (Inr got :: spi_error + (u8 \<times> u8 \<times> bytes) option, h')"
    using assms [unfolded recv_packet_message_def]
  proof (rule loop_rule [where I = "assembled K h" and Q = ?Q])
    show "assembled K h (([], 0, 0), h)"
      by (auto simp: assembled_def intro: delivers_Nil exI [of _ "[]"])
  next
    fix s s'
    assume I: "assembled K h s" and step: "packet_step K s = Some (Again s')"
    obtain m f d g where s: "s = ((m, f, d), g)"
      by (cases s) auto
    from I step show "assembled K h s'"
      unfolding s by (rule packet_step_assembled) simp_all
  next
    fix s q
    assume I: "assembled K h s" and step: "packet_step K s = Some (Done q)"
    obtain m f d g where s: "s = ((m, f, d), g)"
      by (cases s) auto
    from I [unfolded s] step [unfolded s] show "?Q q"
    proof (cases rule: packet_step_assembled)
      case (last p h1 ps)
      then have "q = (Inr (if m @ packet_payload p = [] then None
          else Some (p ! 0, p ! 1, m @ packet_payload p)), h1)"
        by simp
      with last show ?thesis
        by (simp only: prod.case) (intro allI impI exI [of _ ps] exI [of _ p] exI [of _ "m @ packet_payload p"], simp_all)
    qed simp_all
  qed
  then obtain ps p message where run: "delivers K h (ps @ [p]) h'" "fragments (rev (ps @ [p])) message"
    "\<forall>q\<in>set ps. le16 q 4 \<noteq> 0" "le16 p 4 = 0" "got = (if message = [] then None else Some (p ! 0, p ! 1, message))"
    by auto
  have "\<forall>q\<in>set (ps @ [p]). \<forall>sent. sealed sent \<longrightarrow> \<not> corrupted sent q"
    using all_sealed [OF run(2)] sealed_not_corrupted by blast
  with run whole [OF run(2)] show ?thesis
    by blast
qed

text \<open>A bus on which every read delivers the same packet.\<close>

definition example_os :: "bytes \<Rightarrow> unit hid_os" where
  "example_os p = \<lparr>spi_transfer = (\<lambda>segments. ok (\<lambda>k i. p ! i)), irq_gpio_value = (\<lambda>pin d. (True, d)),
     irq_gpio_enable = (\<lambda>pin t d. d), irq_gpio_disable = (\<lambda>pin d. d), spien_gpio_output = (\<lambda>pin v d. d),
     spien_gpio_set = (\<lambda>pin v d. d), hid_udelay = (\<lambda>us d. d), hid_now = (\<lambda>d. 0)\<rparr>"

definition example_hid :: "unit hid" where
  "example_hid = hid_new 0 8000000 (Some 1) (Some 2) LowLevel ()"

lemma example_recv:
  assumes "length p = 256"
  shows "recv_packet (example_os p) h = (Inr p, h)"
proof -
  have "map ((!) p) [0..<256] = p"
    using assms map_nth [of p] by simp
  then show ?thesis
    by (simp add: recv_packet_def Let_def try_bind_def hid_transfer_def hid_delay_def example_os_def)
qed

lemma example_message:
  "recv_packet_message (example_os (build_packet 0x20 1 0 0 2 [7, 9])) example_hid =
     Some (Inr (Some (0x20, 1, [7, 9])), example_hid)"
proof -
  have "recv_packet (example_os (build_packet 0x20 1 0 0 2 [7, 9])) example_hid =
      (Inr (build_packet 0x20 1 0 0 2 [7, 9]), example_hid)"
    using build_packet_fields(1) [of "[7, 9]" "0x20" 1 0 0 2] by (intro example_recv) (simp add: sealed_def)
  then show ?thesis
    using single_packet_received [of _ _ _ _ "[7, 9]"] by simp
qed

theorem message_reassembled_witness:
  "\<exists>ps message. delivers (example_os (build_packet 0x20 1 0 0 2 [7, 9])) example_hid ps example_hid \<and>
     message = concat (map packet_payload ps) \<and> message = [7, 9]"
  using message_reassembled [OF example_message] by (auto split: if_splits)

text \<open>
  C34. What the driver packs, its receiving side unpacks: a request of up to 236 bytes that comes back as
  it was sent is received as one message, passes both checksums and yields its payload.
\<close>

theorem request_roundtrip:
  fixes u0 u1 u2 i :: u8 and n :: u16
  assumes "length payload \<le> 236"
  defines "m \<equiv> request_message u0 u1 u2 i n payload"
  assumes "recv_packet K h = (Inr (build_packet FLAG_WRITE target 0 0 (of_nat (length m)) m), h')"
  shows "recv_packet_message K h = Some (Inr (Some (PACKET_WRITE, target, m)), h') \<and>
    response_payload u0 u1 u2 m = Inr (Some payload)"
proof -
  note fields = request_message_fields [OF assms(1), of u0 u1 u2 i n, folded m_def]
  have "recv_packet_message K h = Some (Inr (Some (FLAG_WRITE, target, m)), h')"
    using fields(1) assms(1) by (intro single_packet_received [OF assms(3)]) simp_all
  moreover have "response_payload u0 u1 u2 m = Inr (Some payload)"
    using fields by (simp add: response_payload_def Let_def)
  ultimately show ?thesis
    by simp
qed

theorem request_roundtrip_witness:
  "recv_packet_message (example_os (build_packet 0x40 0xd0 0 0 12 (request_message 0x20 1 0xd0 5 0 [3, 4]))) example_hid =
     Some (Inr (Some (0x40, 0xd0, request_message 0x20 1 0xd0 5 0 [3, 4])), example_hid) \<and>
   response_payload 0x20 1 0xd0 (request_message 0x20 1 0xd0 5 0 [3, 4]) = Inr (Some [3, 4])"
proof -
  have len: "length (request_message 0x20 1 0xd0 5 0 [3, 4]) = 12"
    using request_message_fields(1) [of "[3, 4]" "0x20" 1 "0xd0" 5 0] by simp
  have "recv_packet (example_os (build_packet 0x40 0xd0 0 0 12 (request_message 0x20 1 0xd0 5 0 [3, 4]))) example_hid =
      (Inr (build_packet 0x40 0xd0 0 0 12 (request_message 0x20 1 0xd0 5 0 [3, 4])), example_hid)"
    using build_packet_fields(1) [of "request_message 0x20 1 0xd0 5 0 [3, 4]" "0x40" "0xd0" 0 0 12] len
    by (intro example_recv) (simp add: sealed_def)
  then show ?thesis
    using request_roundtrip [where payload = "[3, 4]" and target = "0xd0" and ?u0.0 = "0x20" and ?u1.0 = 1 and ?u2.0 = "0xd0" and i = 5 and n = 0] len by simp
qed

end
