(* ===== verification/SpiHidKeys.thy ===== *)
theory SpiHidKeys
  imports SpiHid
begin

text \<open>
  What a reader of the keyboard's input events sees: the keys it takes for pressed are always the keys of
  the last report, whatever reports came before and whenever keys were repeated in between.
\<close>

section \<open>The reader\<close>

fun key_step :: "input_event \<Rightarrow> u16 set \<Rightarrow> u16 set" where
  "key_step (EvKey c Press) D = insert c D"
| "key_step (EvKey c Release) D = D - {c}"
| "key_step _ D = D"

definition keys_down :: "input_event list \<Rightarrow> u16 set" where
  "keys_down events = fold key_step events {}"

text \<open>The usages a report holds down, and the key codes of a set of usages.\<close>

definition held_modifiers :: "u8 \<Rightarrow> u8 set" where
  "held_modifiers m = {u. \<exists>b. (b, u) \<in> set modifier_usages \<and> m AND b \<noteq> 0}"

definition held_usages :: "u8 \<Rightarrow> bytes \<Rightarrow> u8 set" where
  "held_usages m keys = held_modifiers m \<union> (set keys - {0})"

definition codes :: "u8 set \<Rightarrow> u16 set" where
  "codes U = {c. \<exists>u\<in>U. hid_usage_to_key u = Some c}"

section \<open>Usages and codes\<close>

lemma table_distinct: "distinct (map snd hid_usage_table)"
  by (simp add: hid_usage_table_def)

lemma usage_inject:
  assumes "hid_usage_to_key u = Some c" and "hid_usage_to_key v = Some c"
  shows "u = v"
proof -
  have "(u, c) \<in> set hid_usage_table" "(v, c) \<in> set hid_usage_table"
    using assms by (auto simp: hid_usage_to_key_def dest: map_of_SomeD)
  then have "(u, c) = (v, c)"
    using table_distinct by (intro inj_onD [of snd "set hid_usage_table"]) (simp_all add: distinct_map)
  then show ?thesis
    by simp
qed

lemma codes_Un: "codes (A \<union> B) = codes A \<union> codes B"
  by (auto simp: codes_def)

lemma code_iff: "hid_usage_to_key u = Some c \<Longrightarrow> c \<in> codes A \<longleftrightarrow> u \<in> A"
  using usage_inject by (auto simp: codes_def)

lemma code_cases:
  obtains "\<And>A. c \<notin> codes A" | u where "\<And>A. c \<in> codes A \<longleftrightarrow> u \<in> A"
proof (cases "\<exists>u. hid_usage_to_key u = Some c")
  case True
  then show ?thesis
    using code_iff that(2) by blast
next
  case False
  then have "c \<notin> codes A" for A
    by (auto simp: codes_def)
  then show ?thesis
    by (rule that(1))
qed

lemma codes_Diff: "codes (A - B) = codes A - codes B"
proof (rule set_eqI)
  fix c
  show "c \<in> codes (A - B) \<longleftrightarrow> c \<in> codes A - codes B"
    by (cases rule: code_cases [of c]) simp_all
qed

lemma codes_disjoint: "A \<inter> B = {} \<Longrightarrow> codes A \<inter> codes B = {}"
proof (rule set_eqI)
  fix c
  assume "A \<inter> B = {}"
  then show "c \<in> codes A \<inter> codes B \<longleftrightarrow> c \<in> {}"
    by (cases rule: code_cases [of c]) auto
qed

lemma codes_insert: "codes (insert u A) = set_option (hid_usage_to_key u) \<union> codes A"
  by (auto simp: codes_def)

lemma codes_empty [simp]: "codes {} = {}"
  by (simp add: codes_def)

section \<open>The events of a report\<close>

lemma fold_key_event:
  "fold key_step (key_event Press u) D = D \<union> codes {u}"
  "fold key_step (key_event Release u) D = D - codes {u}"
  "fold key_step (key_event Autorepeat u) D = D"
  by (auto simp: key_event_def codes_def split: option.split)

lemma fold_changes:
  assumes "{u x |x. x \<in> set xs \<and> P x} \<inter> {u x |x. x \<in> set xs \<and> Q x} = {}" and "\<And>x. \<not> (P x \<and> Q x)"
  shows "fold key_step (concat (map (\<lambda>x. if P x then key_event Press (u x)
      else if Q x then key_event Release (u x) else []) xs)) D =
    D \<union> codes {u x |x. x \<in> set xs \<and> P x} - codes {u x |x. x \<in> set xs \<and> Q x}"
  using assms(1)
proof (induction xs arbitrary: D)
  case (Cons y ys)
  have rest: "{u x |x. x \<in> set ys \<and> P x} \<inter> {u x |x. x \<in> set ys \<and> Q x} = {}"
    using Cons.prems by auto
  have split: "{u x |x. x \<in> set (y # ys) \<and> R x} = (if R y then {u y} else {}) \<union> {u x |x. x \<in> set ys \<and> R x}" for R
    by auto
  have "P y \<Longrightarrow> codes {u y} \<inter> codes {u x |x. x \<in> set ys \<and> Q x} = {}"
    "Q y \<Longrightarrow> codes {u y} \<inter> codes {u x |x. x \<in> set ys \<and> P x} = {}"
    using Cons.prems by (intro codes_disjoint; auto)+
  then show ?case
    using assms(2) [of y] unfolding split
    by (auto simp: fold_key_event Cons.IH [OF rest] codes_Un)
qed simp

lemma fold_release:
  "fold key_step (release_events old new) D = D - codes (set old - {0} - set new)"
proof -
  have "fold key_step (release_events old new) D = fold key_step (concat (map (\<lambda>u. if False then key_event Press u
      else if u \<noteq> 0 \<and> u \<notin> set new then key_event Release u else []) old)) D"
    by (simp add: release_events_def)
  also have "\<dots> = D - codes {u. u \<in> set old \<and> u \<noteq> 0 \<and> u \<notin> set new}"
    by (subst fold_changes [where u = "\<lambda>u. u" and P = "\<lambda>_. False"]) auto
  also have "{u. u \<in> set old \<and> u \<noteq> 0 \<and> u \<notin> set new} = set old - {0} - set new"
    by auto
  finally show ?thesis .
qed

lemma fold_press:
  "fold key_step (press_events old new) D = D \<union> codes (set new - {0} - set old)"
proof -
  have "fold key_step (press_events old new) D = fold key_step (concat (map (\<lambda>u. if u \<noteq> 0 \<and> u \<notin> set old then key_event Press u
      else if False then key_event Release u else []) new)) D"
    by (simp add: press_events_def cong: if_cong)
  also have "\<dots> = D \<union> codes {u. u \<in> set new \<and> u \<noteq> 0 \<and> u \<notin> set old}"
    by (subst fold_changes [where u = "\<lambda>u. u" and Q = "\<lambda>_. False"]) auto
  also have "{u. u \<in> set new \<and> u \<noteq> 0 \<and> u \<notin> set old} = set new - {0} - set old"
    by auto
  finally show ?thesis .
qed

lemma modifier_usage_unique: "(b, u) \<in> set modifier_usages \<Longrightarrow> (b', u) \<in> set modifier_usages \<Longrightarrow> b = b'"
  by (auto simp: modifier_usages_def)

lemma held_iff: "(b, u) \<in> set modifier_usages \<Longrightarrow> u \<in> held_modifiers m \<longleftrightarrow> m AND b \<noteq> 0"
  using modifier_usage_unique by (auto simp: held_modifiers_def)

lemma held_difference:
  "{snd x |x. x \<in> set modifier_usages \<and> m AND fst x \<noteq> 0 \<and> \<not> m' AND fst x \<noteq> 0} = held_modifiers m - held_modifiers m'"
proof (rule set_eqI)
  fix u
  show "u \<in> {snd x |x. x \<in> set modifier_usages \<and> m AND fst x \<noteq> 0 \<and> \<not> m' AND fst x \<noteq> 0} \<longleftrightarrow>
      u \<in> held_modifiers m - held_modifiers m'"
  proof (cases "\<exists>b. (b, u) \<in> set modifier_usages")
    case True
    then obtain b where b: "(b, u) \<in> set modifier_usages"
      by blast
    have "u \<in> {snd x |x. x \<in> set modifier_usages \<and> m AND fst x \<noteq> 0 \<and> \<not> m' AND fst x \<noteq> 0} \<longleftrightarrow>
        m AND b \<noteq> 0 \<and> \<not> m' AND b \<noteq> 0"
    proof
      assume "u \<in> {snd x |x. x \<in> set modifier_usages \<and> m AND fst x \<noteq> 0 \<and> \<not> m' AND fst x \<noteq> 0}"
      then obtain b' where b': "(b', u) \<in> set modifier_usages" "m AND b' \<noteq> 0" "\<not> m' AND b' \<noteq> 0"
        by (simp only: mem_Collect_eq) (metis prod.collapse)
      moreover have "b' = b"
        by (rule modifier_usage_unique [OF b'(1) b])
      ultimately show "m AND b \<noteq> 0 \<and> \<not> m' AND b \<noteq> 0"
        by simp
    next
      assume "m AND b \<noteq> 0 \<and> \<not> m' AND b \<noteq> 0"
      with b show "u \<in> {snd x |x. x \<in> set modifier_usages \<and> m AND fst x \<noteq> 0 \<and> \<not> m' AND fst x \<noteq> 0}"
        by (intro CollectI exI [of _ "(b, u)"]) simp
    qed
    then show ?thesis
      by (simp add: held_iff [OF b])
  next
    case False
    then show ?thesis
      by (auto simp: held_modifiers_def)
  qed
qed

lemma fold_modifiers:
  "fold key_step (modifier_events m m') D =
     D \<union> codes (held_modifiers m' - held_modifiers m) - codes (held_modifiers m - held_modifiers m')"
proof -
  let ?P = "\<lambda>x. m' AND fst x \<noteq> 0 \<and> \<not> m AND fst x \<noteq> 0"
  let ?Q = "\<lambda>x. m AND fst x \<noteq> 0 \<and> \<not> m' AND fst x \<noteq> 0"
  have eq: "modifier_events m m' = concat (map (\<lambda>x. if ?P x then key_event Press (snd x)
      else if ?Q x then key_event Release (snd x) else []) modifier_usages)"
    unfolding modifier_events_def by (intro arg_cong [where f = concat] map_cong) (auto simp: Let_def)
  have "{snd x |x. x \<in> set modifier_usages \<and> ?P x} = held_modifiers m' - held_modifiers m" (is "?A = _")
    "{snd x |x. x \<in> set modifier_usages \<and> ?Q x} = held_modifiers m - held_modifiers m'" (is "?B = _")
    using held_difference [of m' m] held_difference [of m m'] by simp_all
  moreover have "fold key_step (modifier_events m m') D = D \<union> codes ?A - codes ?B"
    unfolding eq by (rule fold_changes) (use calculation in auto)
  ultimately show ?thesis
    by simp
qed

lemma fold_repeats:
  "fold key_step (concat (map (\<lambda>x. if p x then key_event Autorepeat (u x) else []) xs)) D = D"
  by (induction xs arbitrary: D) (simp_all add: fold_key_event)

lemma fold_repeat: "fold key_step (repeat_events m keys) D = D"
  by (simp add: repeat_events_def case_prod_unfold fold_repeats)

section \<open>Runs\<close>

text \<open>Key slots that hold no modifier, as the boot protocol of keyboards has it.\<close>

definition plain_keys :: "bytes \<Rightarrow> bool" where
  "plain_keys keys \<longleftrightarrow> set keys \<inter> snd ` set modifier_usages = {}"

definition plain_report :: "u8 \<Rightarrow> bytes \<Rightarrow> bool" where
  "plain_report device report \<longleftrightarrow>
     (device = DEVICE_KEYBOARD \<and> 10 \<le> length report \<longrightarrow> plain_keys (take 6 (drop 3 report)))"

inductive keyboard_run :: "'s hid_os \<Rightarrow> 's hid \<Rightarrow> bool" for K where
  run_start: "keyboard_run K (hid_new cs freq spien irq trigger d)"
| run_report: "keyboard_run K h \<Longrightarrow> plain_report device report \<Longrightarrow> keyboard_run K (handle_input_report K device report h)"
| run_repeat: "keyboard_run K h \<Longrightarrow> keyboard_run K (maybe_repeat_keys K h)"
| run_device: "keyboard_run K h \<Longrightarrow> keyboard_run K (h\<lparr>hid_dev := d\<rparr>)"

definition in_step :: "'s hid \<Rightarrow> bool" where
  "in_step h \<longleftrightarrow> plain_keys (last_keys h) \<and>
     keys_down (keyboard_events h) = codes (held_usages (last_modifiers h) (last_keys h))"

lemma held_inside: "held_modifiers m \<subseteq> snd ` set modifier_usages"
  by (force simp: held_modifiers_def)

lemma keys_down_append: "keys_down (xs @ ys) = fold key_step ys (keys_down xs)"
  by (simp add: keys_down_def)

lemma updated_keys:
  assumes "M \<inter> N = {}" and "M' \<inter> N = {}"
  shows "M \<union> (N - Z) \<union> (M' - M) - (M - M') - (N - Z - N') \<union> (N' - Z - N) = M' \<union> (N' - Z)"
  using assms by blast

lemma emit_in_step:
  assumes "in_step h" and "plain_keys keys"
  shows "in_step (emit_key_changes K m keys h)"
proof -
  let ?M = "held_modifiers (last_modifiers h)" and ?M' = "held_modifiers m"
  let ?N = "set (last_keys h)" and ?N' = "set keys"
  have "?N \<inter> snd ` set modifier_usages = {}"
    using assms(1) by (simp add: in_step_def plain_keys_def)
  then have apart: "?M \<inter> ?N = {}" "?M' \<inter> ?N = {}"
    using held_inside by blast+
  have events: "keyboard_events (emit_key_changes K m keys h) = keyboard_events h @ modifier_events (last_modifiers h) m @
      release_events (last_keys h) keys @ press_events (last_keys h) keys"
    by (simp add: emit_key_changes_def)
  have "keys_down (keyboard_events h) = codes (?M \<union> (?N - {0}))"
    using assms(1) by (simp add: in_step_def held_usages_def)
  then have "keys_down (keyboard_events (emit_key_changes K m keys h)) =
      codes (?M \<union> (?N - {0}) \<union> (?M' - ?M) - (?M - ?M') - (?N - {0} - ?N') \<union> (?N' - {0} - ?N))"
    by (simp only: events keys_down_append fold_append comp_apply fold_modifiers fold_release fold_press
        codes_Un codes_Diff)
  also have "\<dots> = codes (?M' \<union> (?N' - {0}))"
    by (simp only: updated_keys [OF apart])
  finally show ?thesis
    using assms(2) by (simp add: in_step_def held_usages_def emit_key_changes_def)
qed

lemma in_step_cong:
  assumes "in_step h" and "last_keys h' = last_keys h" and "last_modifiers h' = last_modifiers h"
    and "keys_down (keyboard_events h') = keys_down (keyboard_events h)"
  shows "in_step h'"
  using assms by (simp add: in_step_def)

lemma sync_event: "keys_down (xs @ [EvSyn]) = keys_down xs"
  by (simp add: keys_down_append)

lemma report_in_step:
  assumes "in_step h" and "plain_report device report"
  shows "in_step (handle_input_report K device report h)"
proof -
  have "in_step (handle_keyboard_report K report h)" if "device = DEVICE_KEYBOARD"
    using emit_in_step [OF assms(1), of "take 6 (drop 3 report)" K "report ! 1"] assms that
    by (auto simp: handle_keyboard_report_def plain_report_def Let_def sync_event
        intro: in_step_cong [of "emit_key_changes K (report ! 1) (take 6 (drop 3 report)) h"])
  moreover have "in_step (handle_trackpad_report report h)"
    using assms(1) by (auto simp: handle_trackpad_report_def Let_def intro: in_step_cong split: prod.split)
  ultimately show ?thesis
    using assms(1) by (simp add: handle_input_report_def)
qed

lemma run_in_step: "keyboard_run K h \<Longrightarrow> in_step h"
proof (induction rule: keyboard_run.induct)
  case (run_start cs freq spien irq trigger d)
  have "(0 :: u8) \<notin> snd ` set modifier_usages"
    by (simp add: modifier_usages_def)
  then show ?case
    by (auto simp: in_step_def hid_new_def plain_keys_def keys_down_def held_usages_def held_modifiers_def codes_def)
next
  case (run_report h device report)
  then show ?case
    by (simp add: report_in_step)
next
  case (run_repeat h)
  then show ?case
    by (auto simp: maybe_repeat_keys_def Let_def keys_down_append fold_repeat intro: in_step_cong)
next
  case (run_device h d)
  show ?case
    by (rule in_step_cong [OF run_device.IH]) simp_all
qed

section \<open>Properties\<close>

text \<open>A keyboard on a bus that answers zeroes, at a standing clock.\<close>

definition keyboard_example_os :: "unit hid_os" where
  "keyboard_example_os = \<lparr>spi_transfer = \<lambda>_. Pair (Inr (\<lambda>_ _. 0)), irq_gpio_value = \<lambda>_ _. (False, ()),
    irq_gpio_enable = \<lambda>_ _ _. (), irq_gpio_disable = \<lambda>_ _. (), spien_gpio_output = \<lambda>_ _ _. (),
    spien_gpio_set = \<lambda>_ _ _. (), hid_udelay = \<lambda>_ _. (), hid_now = \<lambda>_. 0\<rparr>"

definition keyboard_example :: "bytes \<Rightarrow> unit hid \<Rightarrow> unit hid" where
  "keyboard_example = handle_input_report keyboard_example_os DEVICE_KEYBOARD"

text \<open>
  C9. After every keyboard report, the keys a reader of the input events takes for pressed are exactly
  the ones the report holds down, modifiers included: no press or release is lost or left over,
  whatever reports of the keyboard and the trackpad, key repeats and delays came before.
\<close>

theorem reader_in_step:
  assumes "keyboard_run K h" and "10 \<le> length report" and "plain_report DEVICE_KEYBOARD report"
  shows "keys_down (keyboard_events (handle_input_report K DEVICE_KEYBOARD report h)) =
    codes (held_usages (report ! 1) (take 6 (drop 3 report)))"
proof -
  have "in_step (handle_input_report K DEVICE_KEYBOARD report h)"
    using assms by (intro report_in_step run_in_step)
  moreover have "last_modifiers (handle_input_report K DEVICE_KEYBOARD report h) = report ! 1"
    "last_keys (handle_input_report K DEVICE_KEYBOARD report h) = take 6 (drop 3 report)"
    using assms(2) by (simp_all add: handle_input_report_def handle_keyboard_report_def Let_def emit_key_changes_def)
  ultimately show ?thesis
    by (simp add: in_step_def)
qed

text \<open>The left shift key and A are pressed, then A is let go and B is pressed.\<close>


theorem reader_in_step_witness:
  "keys_down (keyboard_events (keyboard_example [1, 2, 0, 5, 0, 0, 0, 0, 0, 0]
    (keyboard_example [1, 2, 0, 4, 0, 0, 0, 0, 0, 0] (hid_new 0 0 None None LowLevel ())))) = {42, 48}"
proof -
  define h where "h = keyboard_example [1, 2, 0, 4, 0, 0, 0, 0, 0, 0] (hid_new 0 0 None None LowLevel ())"
  have plain: "plain_report DEVICE_KEYBOARD [1, 2, 0, 4, 0, 0, 0, 0, 0, 0]"
    "plain_report DEVICE_KEYBOARD [1, 2, 0, 5, 0, 0, 0, 0, 0, 0]"
    by (simp_all add: plain_report_def plain_keys_def modifier_usages_def)
  have shift: "held_modifiers 2 = {0xe1}"
    by (simp add: held_modifiers_def modifier_usages_def conj_disj_distribR ex_disj_distrib)
  have keys: "hid_usage_to_key 0xe1 = Some 42" "hid_usage_to_key 5 = Some 48"
    by (simp_all add: hid_usage_to_key_def hid_usage_table_def)
  have "keyboard_run keyboard_example_os h"
    unfolding h_def keyboard_example_def by (intro run_report run_start plain)
  then have "keys_down (keyboard_events (keyboard_example [1, 2, 0, 5, 0, 0, 0, 0, 0, 0] h)) =
      codes (held_usages 2 [5, 0, 0, 0, 0, 0])"
    using reader_in_step [OF _ _ plain(2), of keyboard_example_os h]
    by (simp add: keyboard_example_def)
  also have "held_usages 2 [5, 0, 0, 0, 0, 0] = {0xe1, 5}"
    by (auto simp: held_usages_def shift)
  also have "codes {0xe1, 5} = {42, 48}"
    by (auto simp: codes_insert keys)
  finally show ?thesis
    by (simp add: h_def)
qed

end
