(* ===== verification/AicFiq.thy ===== *)
theory AicFiq
  imports Mmio
begin

text \<open>
  The processor-local sources of the FIQ line (\<^verbatim>\<open>drivers/pic/apple-aic/src/fiq.rs\<close> and its
  \<^verbatim>\<open>registers.rs\<close>): timers, fast inter-processor interrupts and the two performance monitors. The
  system registers that the inline assembly reads and writes are a parameter, like the device
  registers of \<^verbatim>\<open>Mmio\<close>: nothing is assumed about what they return.
\<close>

section \<open>System registers\<close>

text \<open>The names that the sources write as numbers: \<open>IPI_SR\<close> is \<^verbatim>\<open>S3_5_C15_C1_1\<close>, the request registers
  \<open>IPI_RR_LOCAL\<close> and \<open>IPI_RR_GLOBAL\<close> are \<^verbatim>\<open>S3_5_C15_C0_0\<close> and \<^verbatim>\<open>S3_5_C15_C0_1\<close>, \<open>PMCR0\<close>, \<open>UPMCR0\<close> and
  \<open>UPMSR\<close> are \<^verbatim>\<open>S3_1_C15_C0_0\<close>, \<^verbatim>\<open>S3_7_C15_C0_4\<close> and \<^verbatim>\<open>S3_7_C15_C6_4\<close>, the guest timers
  \<^verbatim>\<open>S3_5_C14_C2_1\<close> and \<^verbatim>\<open>S3_5_C14_C3_1\<close>, and \<open>VM_TIMER_ENABLE\<close> is \<^verbatim>\<open>S3_5_C15_C1_3\<close>.\<close>

datatype sysreg = CNTP_CTL | CNTV_CTL | IPI_SR | IPI_RR_LOCAL | IPI_RR_GLOBAL
  | PMCR0 | UPMCR0 | UPMSR | ISR_EL1 | DAIF | ELR_EL1 | SPSR_EL1 | MPIDR_EL1
  | GUEST_CNTP_CTL | GUEST_CNTV_CTL | VM_TIMER_ENABLE | HCR_EL2 | CNTHCTL_EL2 | ICH_HCR_EL2 | ICH_MISR_EL2

datatype barrier = DSB_SY | ISB

record 'd cpu_io =
  sys_read :: "sysreg \<Rightarrow> 'd \<Rightarrow> u64 \<times> 'd"
  sys_write :: "sysreg \<Rightarrow> u64 \<Rightarrow> 'd \<Rightarrow> 'd"
  sys_barrier :: "barrier \<Rightarrow> 'd \<Rightarrow> 'd"
  is_vhe_enabled :: bool

text \<open>The statics of the driver beside the hardware.\<close>

record 'd fiq =
  fq_hw :: 'd
  cpu_mpidrs :: "u64 list"
  cpu_mpidr_valid :: u64
  reported_cpus :: u64

definition fiq_statics :: "'d \<Rightarrow> 'd fiq" where
  "fiq_statics d = \<lparr>fq_hw = d, cpu_mpidrs = replicate 32 0, cpu_mpidr_valid = 0, reported_cpus = 0\<rparr>"

type_synonym ('d, 'e, 'a) fiq_op = "('d fiq, 'e, 'a) stepper"

definition mrs :: "('d, 'x) cpu_io_scheme \<Rightarrow> sysreg \<Rightarrow> ('d, 'e, u64) fiq_op" where
  "mrs io r s = (case sys_read io r (fq_hw s) of (v, d) \<Rightarrow> (Inr v, s\<lparr>fq_hw := d\<rparr>))"

definition msr :: "('d, 'x) cpu_io_scheme \<Rightarrow> sysreg \<Rightarrow> u64 \<Rightarrow> ('d, 'e, unit) fiq_op" where
  "msr io r v s = (Inr (), s\<lparr>fq_hw := sys_write io r v (fq_hw s)\<rparr>)"

definition barrier :: "('d, 'x) cpu_io_scheme \<Rightarrow> barrier \<Rightarrow> ('d, 'e, unit) fiq_op" where
  "barrier io b s = (Inr (), s\<lparr>fq_hw := sys_barrier io b (fq_hw s)\<rparr>)"

section \<open>Access to the sources\<close>

record local_state =
  cntp_ctl :: u64
  cntv_ctl :: u64
  fast_ipi_status :: u64
  pmcr0 :: u64
  upmcr0 :: u64
  upmsr :: u64
  isr :: u64
  daif :: u64
  elr :: u64
  spsr :: u64

record el2_state =
  guest_cntp_ctl :: u64
  guest_cntv_ctl :: u64
  vm_timer_enable :: u64
  hcr :: u64
  cnthctl :: u64
  vgic_hcr :: u64
  vgic_misr :: u64

datatype host_timer_bank = PhysicalBank | VirtualBank

definition host_timer_bank :: "bool \<Rightarrow> host_timer_bank" where
  "host_timer_bank vhe = (if vhe then PhysicalBank else VirtualBank)"

definition fast_ipi_request :: "u64 \<Rightarrow> u64 \<Rightarrow> bool \<times> u64" where
  "fast_ipi_request current_mpidr target_mpidr =
     (let current_cluster = drop_bit 8 current_mpidr AND 0xff;
          target_cluster = drop_bit 8 target_mpidr AND 0xff;
          target_cpu = target_mpidr AND 0xff
      in (current_cluster = target_cluster, target_cpu OR push_bit 16 target_cluster))"

definition read_timer_state :: "('d, 'x) cpu_io_scheme \<Rightarrow> bool \<Rightarrow> ('d, 'e, u64 \<times> u64) fiq_op" where
  "read_timer_state io vhe =
     (if host_timer_bank vhe = PhysicalBank
      then try_bind (mrs io CNTP_CTL) (\<lambda>cntp. ok (cntp, 0))
      else try_bind (mrs io CNTV_CTL) (\<lambda>cntv. ok (0, cntv)))"

definition read_pmu_state :: "('d, 'x) cpu_io_scheme \<Rightarrow> ('d, 'e, u64 \<times> u64 \<times> u64) fiq_op" where
  "read_pmu_state io =
     try_bind (mrs io PMCR0) (\<lambda>p. try_bind (mrs io UPMCR0) (\<lambda>u. try_bind (mrs io UPMSR) (\<lambda>m. ok (p, u, m))))"

definition read_exception_state :: "('d, 'x) cpu_io_scheme \<Rightarrow> ('d, 'e, u64 \<times> u64 \<times> u64 \<times> u64) fiq_op" where
  "read_exception_state io =
     try_bind (mrs io ISR_EL1) (\<lambda>i. try_bind (mrs io DAIF) (\<lambda>d.
     try_bind (mrs io ELR_EL1) (\<lambda>e. try_bind (mrs io SPSR_EL1) (\<lambda>p. ok (i, d, e, p)))))"

definition read_local :: "('d, 'x) cpu_io_scheme \<Rightarrow> bool \<Rightarrow> ('d, 'e, local_state) fiq_op" where
  "read_local io vhe =
     try_bind (read_timer_state io vhe) (\<lambda>(cntp, cntv).
     try_bind (mrs io IPI_SR) (\<lambda>ipi.
     try_bind (read_pmu_state io) (\<lambda>(p, u, m).
     try_bind (read_exception_state io) (\<lambda>(i, d, e, sp).
     ok \<lparr>cntp_ctl = cntp, cntv_ctl = cntv, fast_ipi_status = ipi, pmcr0 = p, upmcr0 = u, upmsr = m,
         isr = i, daif = d, elr = e, spsr = sp\<rparr>))))"

definition read_el2 :: "('d, 'x) cpu_io_scheme \<Rightarrow> ('d, 'e, el2_state) fiq_op" where
  "read_el2 io =
     try_bind (mrs io GUEST_CNTP_CTL) (\<lambda>p. try_bind (mrs io GUEST_CNTV_CTL) (\<lambda>v.
     try_bind (mrs io VM_TIMER_ENABLE) (\<lambda>en. try_bind (mrs io HCR_EL2) (\<lambda>h.
     try_bind (mrs io CNTHCTL_EL2) (\<lambda>c. try_bind (mrs io ICH_HCR_EL2) (\<lambda>g.
     try_bind (mrs io ICH_MISR_EL2) (\<lambda>m.
     ok \<lparr>guest_cntp_ctl = p, guest_cntv_ctl = v, vm_timer_enable = en, hcr = h, cnthctl = c,
         vgic_hcr = g, vgic_misr = m\<rparr>)))))))"

definition disable_vgic_maintenance :: "('d, 'x) cpu_io_scheme \<Rightarrow> u64 \<Rightarrow> ('d, 'e, unit) fiq_op" where
  "disable_vgic_maintenance io control =
     try_bind (msr io ICH_HCR_EL2 (control AND NOT 1)) (\<lambda>_. barrier io ISB)"

definition mask_guest_timers :: "('d, 'x) cpu_io_scheme \<Rightarrow> u64 \<Rightarrow> u64 \<Rightarrow> ('d, 'e, unit) fiq_op" where
  "mask_guest_timers io physical virt =
     try_bind (msr io GUEST_CNTP_CTL physical) (\<lambda>_.
     try_bind (msr io GUEST_CNTV_CTL virt) (\<lambda>_.
     try_bind (mrs io VM_TIMER_ENABLE) (\<lambda>scratch.
     msr io VM_TIMER_ENABLE (scratch AND NOT 3))))"

definition clear_fast_ipi :: "('d, 'x) cpu_io_scheme \<Rightarrow> ('d, 'e, unit) fiq_op" where
  "clear_fast_ipi io = msr io IPI_SR 1"

definition send_fast_ipi_registers :: "('d, 'x) cpu_io_scheme \<Rightarrow> u64 \<Rightarrow> u64 \<Rightarrow> ('d, 'e, unit) fiq_op" where
  "send_fast_ipi_registers io current_mpidr target_mpidr =
     (case fast_ipi_request current_mpidr target_mpidr of (is_local, request) \<Rightarrow>
        try_bind (barrier io DSB_SY) (\<lambda>_.
        try_bind (if is_local then msr io IPI_RR_LOCAL (request AND 0xff) else msr io IPI_RR_GLOBAL request) (\<lambda>_.
        barrier io ISB)))"

section \<open>The sources of the line\<close>

abbreviation (input) TIMER_IMASK :: u64 where "TIMER_IMASK \<equiv> 2"
definition PMCR0_IMODE_FIQ :: u64 where "PMCR0_IMODE_FIQ = push_bit 8 4"
definition PMCR0_IMODE_MASK :: u64 where "PMCR0_IMODE_MASK = push_bit 8 7"
definition PMCR0_IACT :: u64 where "PMCR0_IACT = push_bit 11 1"
definition UPMCR0_IMODE_FIQ :: u64 where "UPMCR0_IMODE_FIQ = push_bit 16 4"
definition UPMCR0_IMODE_MASK :: u64 where "UPMCR0_IMODE_MASK = push_bit 16 7"

definition SOURCE_PHYSICAL_TIMER :: u32 where "SOURCE_PHYSICAL_TIMER = push_bit 0 1"
definition SOURCE_VIRTUAL_TIMER :: u32 where "SOURCE_VIRTUAL_TIMER = push_bit 1 1"
definition SOURCE_GUEST_PHYSICAL_TIMER :: u32 where "SOURCE_GUEST_PHYSICAL_TIMER = push_bit 2 1"
definition SOURCE_GUEST_VIRTUAL_TIMER :: u32 where "SOURCE_GUEST_VIRTUAL_TIMER = push_bit 3 1"
definition SOURCE_FAST_IPI :: u32 where "SOURCE_FAST_IPI = push_bit 4 1"
definition SOURCE_CORE_PMU :: u32 where "SOURCE_CORE_PMU = push_bit 5 1"
definition SOURCE_UNCORE_PMU :: u32 where "SOURCE_UNCORE_PMU = push_bit 6 1"

record fiq_state =
  fs_local :: local_state
  fs_el2 :: "el2_state option"

definition capture :: "('d, 'x) cpu_io_scheme \<Rightarrow> ('d, 'e, fiq_state) fiq_op" where
  "capture io =
     try_bind (read_local io (is_vhe_enabled io)) (\<lambda>l.
     if is_vhe_enabled io
     then try_bind (read_el2 io) (\<lambda>e. ok \<lparr>fs_local = l, fs_el2 = Some e\<rparr>)
     else ok \<lparr>fs_local = l, fs_el2 = None\<rparr>)"

definition timer_is_firing :: "u64 \<Rightarrow> bool" where
  "timer_is_firing control = (control AND 7 = 5)"

definition host_timer_sources :: "bool \<Rightarrow> u64 \<Rightarrow> u64 \<Rightarrow> u32" where
  "host_timer_sources vhe physical virt =
     (if vhe \<and> timer_is_firing physical then SOURCE_PHYSICAL_TIMER
      else if \<not> vhe \<and> timer_is_firing virt then SOURCE_VIRTUAL_TIMER
      else 0)"



definition pending_sources :: "fiq_state \<Rightarrow> u32" where
  "pending_sources st =
     (let l = fs_local st;
          sources = host_timer_sources (fs_el2 st \<noteq> None) (cntp_ctl l) (cntv_ctl l);
          sources = (if \<exists>e. fs_el2 st = Some e \<and> timer_is_firing (guest_cntp_ctl e)
                     then sources OR SOURCE_GUEST_PHYSICAL_TIMER else sources);
          sources = (if \<exists>e. fs_el2 st = Some e \<and> timer_is_firing (guest_cntv_ctl e)
                     then sources OR SOURCE_GUEST_VIRTUAL_TIMER else sources);
          sources = (if fast_ipi_status l AND 1 \<noteq> 0 then sources OR SOURCE_FAST_IPI else sources);
          sources = (if pmcr0 l AND (PMCR0_IMODE_MASK OR PMCR0_IACT) = PMCR0_IMODE_FIQ OR PMCR0_IACT
                     then sources OR SOURCE_CORE_PMU else sources);
          sources = (if upmcr0 l AND UPMCR0_IMODE_MASK = UPMCR0_IMODE_FIQ \<and> upmsr l AND 1 \<noteq> 0
                     then sources OR SOURCE_UNCORE_PMU else sources)
      in sources)"

section \<open>Preparing a processor, requests and claims\<close>

definition store_mpidr :: "('d, 'x) cpu_io_scheme \<Rightarrow> u32 \<Rightarrow> ('d, 'e, unit) fiq_op" where
  "store_mpidr io cpu_id =
     (if unat cpu_id < 32
      then try_bind (mrs io MPIDR_EL1) (\<lambda>m. put_state (\<lambda>s. s\<lparr>
             cpu_mpidrs := (cpu_mpidrs s)[unat cpu_id := m],
             cpu_mpidr_valid := cpu_mpidr_valid s OR push_bit (unat cpu_id) 1\<rparr>))
      else ok ())"

definition prepare_cpu :: "('d, 'x) cpu_io_scheme \<Rightarrow> u32 \<Rightarrow> ('d, 'e, unit) fiq_op" where
  "prepare_cpu io cpu_id =
     try_bind (store_mpidr io cpu_id) (\<lambda>_.
     try_bind (capture io) (\<lambda>st.
     try_bind (case fs_el2 st of
         Some _ \<Rightarrow> msr io CNTP_CTL (cntp_ctl (fs_local st) OR TIMER_IMASK)
       | None \<Rightarrow> msr io CNTV_CTL (cntv_ctl (fs_local st) OR TIMER_IMASK)) (\<lambda>_.
     try_bind (clear_fast_ipi io) (\<lambda>_.
     try_bind (msr io PMCR0 (pmcr0 (fs_local st) AND NOT (PMCR0_IMODE_MASK OR PMCR0_IACT))) (\<lambda>_.
     try_bind (msr io UPMCR0 (upmcr0 (fs_local st) AND NOT UPMCR0_IMODE_MASK)) (\<lambda>_.
     try_bind (case fs_el2 st of
         Some e \<Rightarrow> try_bind (mask_guest_timers io (guest_cntp_ctl e OR TIMER_IMASK) (guest_cntv_ctl e OR TIMER_IMASK))
           (\<lambda>_. disable_vgic_maintenance io (vgic_hcr e))
       | None \<Rightarrow> ok ()) (\<lambda>_.
     barrier io ISB)))))))"

definition send_fast_ipi :: "('d, 'x) cpu_io_scheme \<Rightarrow> u32 \<Rightarrow> ('d, 'e, bool) fiq_op" where
  "send_fast_ipi io target_cpu =
     try_bind (get_state (\<lambda>s. \<not> (32 \<le> unat target_cpu \<or> cpu_mpidr_valid s AND push_bit (unat target_cpu) 1 = 0)))
       (\<lambda>known. if \<not> known then ok False
        else try_bind (mrs io MPIDR_EL1) (\<lambda>source_mpidr.
          try_bind (get_state (\<lambda>s. cpu_mpidrs s ! unat target_cpu)) (\<lambda>target_mpidr.
          try_bind (send_fast_ipi_registers io source_mpidr target_mpidr) (\<lambda>_. ok True))))"

datatype interrupt_claim = Reschedule | Handled | NotMine

definition report_once :: "u32 \<Rightarrow> ('d, 'e, unit) fiq_op" where
  "report_once cpu_id =
     (if 64 \<le> unat cpu_id then ok ()
      else put_state (\<lambda>s. s\<lparr>reported_cpus := reported_cpus s OR push_bit (unat cpu_id) 1\<rparr>))"

definition quiesce :: "('d, 'x) cpu_io_scheme \<Rightarrow> fiq_state \<Rightarrow> u32 \<Rightarrow> ('d, 'e, unit) fiq_op" where
  "quiesce io st sources =
     try_bind (if sources AND (SOURCE_GUEST_PHYSICAL_TIMER OR SOURCE_GUEST_VIRTUAL_TIMER) \<noteq> 0
       then (case fs_el2 st of
          Some e \<Rightarrow> mask_guest_timers io (guest_cntp_ctl e OR TIMER_IMASK) (guest_cntv_ctl e OR TIMER_IMASK)
        | None \<Rightarrow> ok ())
       else ok ()) (\<lambda>_.
     try_bind (if sources AND SOURCE_FAST_IPI \<noteq> 0 then clear_fast_ipi io else ok ()) (\<lambda>_.
     try_bind (if sources AND SOURCE_CORE_PMU \<noteq> 0
       then msr io PMCR0 (pmcr0 (fs_local st) AND NOT (PMCR0_IMODE_MASK OR PMCR0_IACT)) else ok ()) (\<lambda>_.
     try_bind (if sources AND SOURCE_UNCORE_PMU \<noteq> 0
       then msr io UPMCR0 (upmcr0 (fs_local st) AND NOT UPMCR0_IMODE_MASK) else ok ()) (\<lambda>_.
     if sources \<noteq> 0 then barrier io ISB else ok ()))))"

definition claim_pending :: "('d, 'x) cpu_io_scheme \<Rightarrow> u32 \<Rightarrow> ('d, 'e, interrupt_claim) fiq_op" where
  "claim_pending io cpu_id =
     try_bind (capture io) (\<lambda>st.
     try_bind (quiesce io st (pending_sources st)) (\<lambda>_.
     try_bind (report_once cpu_id) (\<lambda>_.
     ok (if pending_sources st AND SOURCE_FAST_IPI \<noteq> 0 then Reschedule
         else if pending_sources st \<noteq> 0 then Handled
         else NotMine))))"

end
