(* ===== verification/Aic.thy ===== *)
theory Aic
  imports AicFiq
begin

text \<open>
  The interrupt controller (\<^verbatim>\<open>drivers/pic/apple-aic/src/lib.rs\<close>): masks and routes of the device
  interrupts, the event register, and inter-processor interrupts over the controller's own registers
  or over the fast requests of \<^verbatim>\<open>AicFiq\<close>.
\<close>

section \<open>Registers\<close>

definition AIC_INFO :: nat where "AIC_INFO = 0x0004"
definition AIC_WHOAMI :: nat where "AIC_WHOAMI = 0x2000"
definition AIC_EVENT :: nat where "AIC_EVENT = 0x2004"
definition AIC_IPI_SEND :: nat where "AIC_IPI_SEND = 0x2008"
definition AIC_IPI_ACK :: nat where "AIC_IPI_ACK = 0x200c"
definition AIC_IPI_MASK_SET :: nat where "AIC_IPI_MASK_SET = 0x2024"
definition AIC_IPI_MASK_CLR :: nat where "AIC_IPI_MASK_CLR = 0x2028"
definition AIC_TARGET_CPU :: nat where "AIC_TARGET_CPU = 0x3000"
definition AIC_SW_CLR :: nat where "AIC_SW_CLR = 0x4080"
definition AIC_MASK_SET :: nat where "AIC_MASK_SET = 0x4100"
definition AIC_MASK_CLR :: nat where "AIC_MASK_CLR = 0x4180"

lemmas aic_registers = AIC_INFO_def AIC_WHOAMI_def AIC_EVENT_def AIC_IPI_SEND_def AIC_IPI_ACK_def
  AIC_IPI_MASK_SET_def AIC_IPI_MASK_CLR_def AIC_TARGET_CPU_def AIC_SW_CLR_def AIC_MASK_SET_def AIC_MASK_CLR_def

abbreviation (input) AIC_EVENT_TYPE_HW :: u32 where "AIC_EVENT_TYPE_HW \<equiv> 1"
abbreviation (input) AIC_EVENT_TYPE_IPI :: u32 where "AIC_EVENT_TYPE_IPI \<equiv> 4"
abbreviation (input) AIC_EVENT_IPI_OTHER :: u32 where "AIC_EVENT_IPI_OTHER \<equiv> 1"
abbreviation (input) AIC_EVENT_IPI_SELF :: u32 where "AIC_EVENT_IPI_SELF \<equiv> 2"
definition AIC_IPI_OTHER :: u32 where "AIC_IPI_OTHER = push_bit 0 1"
definition AIC_IPI_SELF :: u32 where "AIC_IPI_SELF = push_bit 31 1"

definition mask_reg :: "u32 \<Rightarrow> nat" where
  "mask_reg irq = 4 * drop_bit 5 (unat irq)"

definition mask_bit :: "u32 \<Rightarrow> u32" where
  "mask_bit irq = push_bit (unat (irq AND 0x1f)) 1"

section \<open>The controller\<close>

text \<open>The part of the kernel's interrupt interface that the driver uses. \<open>legacy\<close>, the virtual number of
  the rescheduling interrupt and the hardware number of a software interrupt are the kernel's.\<close>

datatype interrupt_error = InvalidInterruptId | InvalidCpuId | HardwareError | NotSupported

datatype irq_flow = LevelFlow | FastEoi

record irq_mapping =
  virq :: u32
  hwirq :: u32
  flow :: irq_flow

record pending_irq =
  pi_mapping :: irq_mapping
  pi_cpu_id :: u32

datatype local_interrupt_type = SoftwareInterrupt | OtherLocalInterrupt

record 'd aic_io = "'d cpu_io" +
  aic_bus :: "'d bus"
  legacy :: "u32 \<Rightarrow> irq_flow \<Rightarrow> irq_mapping"
  RESCHEDULE_IPI_VIRQ :: u32
  SOFTWARE_IPI_HWIRQ :: u32

record aic =
  base_addr :: nat
  num_irqs :: u32
  max_cpus :: u32
  fast_ipi :: bool

type_synonym ('d, 'a) aic_op = "('d fiq, interrupt_error, 'a) stepper"

definition aic_read :: "'d aic_io \<Rightarrow> nat \<Rightarrow> ('d, u32) aic_op" where
  "aic_read io a s = (case bus_read (aic_bus io) a (fq_hw s) of (v, d) \<Rightarrow> (Inr v, s\<lparr>fq_hw := d\<rparr>))"

definition aic_write :: "'d aic_io \<Rightarrow> nat \<Rightarrow> u32 \<Rightarrow> ('d, unit) aic_op" where
  "aic_write io a v s = (Inr (), s\<lparr>fq_hw := bus_write (aic_bus io) a v (fq_hw s)\<rparr>)"

definition aic_new :: "'d aic_io \<Rightarrow> nat \<Rightarrow> u32 \<Rightarrow> bool \<Rightarrow> ('d, aic) aic_op" where
  "aic_new io base cpus fast =
     try_bind (aic_read io (base + AIC_INFO)) (\<lambda>info.
     ok \<lparr>base_addr = base, num_irqs = info AND 0xffff, max_cpus = min cpus 31, fast_ipi = fast\<rparr>)"

definition reg_addr :: "aic \<Rightarrow> nat \<Rightarrow> nat" where
  "reg_addr A offset = base_addr A + offset"

definition validate_interrupt_id :: "aic \<Rightarrow> u32 \<Rightarrow> ('d, unit) aic_op" where
  "validate_interrupt_id A i = (if num_irqs A \<le> i then err InvalidInterruptId else ok ())"

definition validate_cpu_id :: "aic \<Rightarrow> u32 \<Rightarrow> ('d, unit) aic_op" where
  "validate_cpu_id A c = (if max_cpus A \<le> c then err InvalidCpuId else ok ())"

definition init_hw :: "'d aic_io \<Rightarrow> aic \<Rightarrow> ('d, unit) aic_op" where
  "init_hw io A =
     (let num_mask_regs = (unat (num_irqs A) + 31) div 32
      in try_bind (for_each (\<lambda>i. aic_write io (reg_addr A (AIC_MASK_SET + i * 4)) 0xffffffff) [0..<num_mask_regs]) (\<lambda>_.
         try_bind (for_each (\<lambda>i. aic_write io (reg_addr A (AIC_SW_CLR + i * 4)) 0xffffffff) [0..<num_mask_regs]) (\<lambda>_.
         try_bind (for_each (\<lambda>i. aic_write io (reg_addr A (AIC_TARGET_CPU + i * 4)) 1) [0..<unat (num_irqs A)]) (\<lambda>_.
         try_bind (aic_write io (reg_addr A AIC_IPI_MASK_SET) (AIC_IPI_SELF OR AIC_IPI_OTHER)) (\<lambda>_.
         aic_write io (reg_addr A AIC_IPI_ACK) (AIC_IPI_SELF OR AIC_IPI_OTHER))))))"

section \<open>Inter-processor interrupts\<close>

definition aic_ipi_send_cpu :: "u32 \<Rightarrow> u32" where
  "aic_ipi_send_cpu cpu = push_bit (unat cpu) 1"

definition send_ipi_to_cpu :: "'d aic_io \<Rightarrow> aic \<Rightarrow> u32 \<Rightarrow> ('d, unit) aic_op" where
  "send_ipi_to_cpu io A target_cpu =
     (if max_cpus A \<le> target_cpu then err InvalidCpuId
      else if fast_ipi A
      then try_bind (send_fast_ipi io target_cpu) (\<lambda>known. if known then ok () else err HardwareError)
      else aic_write io (reg_addr A AIC_IPI_SEND) (aic_ipi_send_cpu target_cpu))"

definition whoami :: "'d aic_io \<Rightarrow> aic \<Rightarrow> ('d, u32) aic_op" where
  "whoami io A = aic_read io (reg_addr A AIC_WHOAMI)"

definition send_ipi_self :: "'d aic_io \<Rightarrow> aic \<Rightarrow> ('d, unit) aic_op" where
  "send_ipi_self io A =
     (if fast_ipi A then try_bind (whoami io A) (send_ipi_to_cpu io A)
      else aic_write io (reg_addr A AIC_IPI_SEND) AIC_IPI_SELF)"

definition ack_ipi :: "'d aic_io \<Rightarrow> aic \<Rightarrow> ('d, u32) aic_op" where
  "ack_ipi io A =
     try_bind (aic_read io (reg_addr A AIC_IPI_ACK)) (\<lambda>pending.
     try_bind (aic_write io (reg_addr A AIC_IPI_ACK) pending) (\<lambda>_. ok pending))"

definition unmask_ipis :: "'d aic_io \<Rightarrow> aic \<Rightarrow> ('d, unit) aic_op" where
  "unmask_ipis io A = aic_write io (reg_addr A AIC_IPI_MASK_CLR) (AIC_IPI_SELF OR AIC_IPI_OTHER)"

definition mask_ipis :: "'d aic_io \<Rightarrow> aic \<Rightarrow> ('d, unit) aic_op" where
  "mask_ipis io A = aic_write io (reg_addr A AIC_IPI_MASK_SET) (AIC_IPI_SELF OR AIC_IPI_OTHER)"

section \<open>Events\<close>

definition event_die :: "u32 \<Rightarrow> u32" where "event_die event = drop_bit 24 event AND 0xff"
definition event_type :: "u32 \<Rightarrow> u32" where "event_type event = drop_bit 16 event AND 0xff"
definition event_num :: "u32 \<Rightarrow> u32" where "event_num event = event AND 0xffff"

definition claim_ipi :: "'d aic_io \<Rightarrow> aic \<Rightarrow> u32 \<Rightarrow> u32 \<Rightarrow> ('d, pending_irq option) aic_op" where
  "claim_ipi io A cpu_id num =
     (if num = AIC_EVENT_IPI_OTHER \<or> num = AIC_EVENT_IPI_SELF
      then let ack_bit = (if num = AIC_EVENT_IPI_OTHER then AIC_IPI_OTHER else AIC_IPI_SELF)
           in try_bind (aic_write io (reg_addr A AIC_IPI_ACK) ack_bit) (\<lambda>_.
              try_bind (aic_write io (reg_addr A AIC_IPI_MASK_CLR) ack_bit) (\<lambda>_.
              ok (Some \<lparr>pi_mapping = \<lparr>virq = RESCHEDULE_IPI_VIRQ io, hwirq = SOFTWARE_IPI_HWIRQ io, flow = FastEoi\<rparr>,
                    pi_cpu_id = cpu_id\<rparr>)))
      else ok None)"

definition claim_event :: "'d aic_io \<Rightarrow> aic \<Rightarrow> u32 \<Rightarrow> ('d, pending_irq option) aic_op" where
  "claim_event io A cpu_id =
     try_bind (validate_cpu_id A cpu_id) (\<lambda>_.
     try_bind (aic_read io (reg_addr A AIC_EVENT)) (\<lambda>event.
     if event_die event \<noteq> 0 then ok None
     else if event_type event = AIC_EVENT_TYPE_HW
     then ok (Some \<lparr>pi_mapping = legacy io (event_num event) LevelFlow, pi_cpu_id = cpu_id\<rparr>)
     else if event_type event = AIC_EVENT_TYPE_IPI then claim_ipi io A cpu_id (event_num event)
     else ok None))"

section \<open>The controller's interface to the kernel\<close>

definition aic_init :: "'d aic_io \<Rightarrow> aic \<Rightarrow> ('d, unit) aic_op" where
  "aic_init io A =
     try_bind (init_hw io A) (\<lambda>_.
     try_bind (whoami io A) (\<lambda>_.
     if fast_ipi A then mask_ipis io A else unmask_ipis io A))"

definition init_for_cpu :: "'d aic_io \<Rightarrow> aic \<Rightarrow> u32 \<Rightarrow> ('d, unit) aic_op" where
  "init_for_cpu io A cpu_id =
     try_bind (validate_cpu_id A cpu_id) (\<lambda>_.
     try_bind (prepare_cpu io cpu_id) (\<lambda>_.
     try_bind (ack_ipi io A) (\<lambda>_.
     if fast_ipi A then mask_ipis io A else unmask_ipis io A)))"

definition unmask_line :: "'d aic_io \<Rightarrow> aic \<Rightarrow> u32 \<Rightarrow> ('d, unit) aic_op" where
  "unmask_line io A i = aic_write io (reg_addr A (AIC_MASK_CLR + mask_reg i)) (mask_bit i)"

definition enable_interrupt :: "'d aic_io \<Rightarrow> aic \<Rightarrow> u32 \<Rightarrow> u32 \<Rightarrow> ('d, unit) aic_op" where
  "enable_interrupt io A i cpu_id =
     try_bind (validate_interrupt_id A i) (\<lambda>_.
     try_bind (validate_cpu_id A cpu_id) (\<lambda>_.
     try_bind (aic_write io (reg_addr A (AIC_TARGET_CPU + unat i * 4)) (push_bit (unat cpu_id) 1)) (\<lambda>_.
     unmask_line io A i)))"

definition disable_interrupt :: "'d aic_io \<Rightarrow> aic \<Rightarrow> u32 \<Rightarrow> u32 \<Rightarrow> ('d, unit) aic_op" where
  "disable_interrupt io A i cpu_id =
     try_bind (validate_interrupt_id A i) (\<lambda>_.
     aic_write io (reg_addr A (AIC_MASK_SET + mask_reg i)) (mask_bit i))"

definition mask_irq :: "'d aic_io \<Rightarrow> aic \<Rightarrow> pending_irq \<Rightarrow> ('d, unit) aic_op" where
  "mask_irq io A irq =
     (if hwirq (pi_mapping irq) = SOFTWARE_IPI_HWIRQ io then ok ()
      else disable_interrupt io A (hwirq (pi_mapping irq)) (pi_cpu_id irq))"

definition unmask_irq :: "'d aic_io \<Rightarrow> aic \<Rightarrow> pending_irq \<Rightarrow> ('d, unit) aic_op" where
  "unmask_irq io A irq =
     (if hwirq (pi_mapping irq) = SOFTWARE_IPI_HWIRQ io then ok ()
      else try_bind (validate_cpu_id A (pi_cpu_id irq)) (\<lambda>_.
           try_bind (validate_interrupt_id A (hwirq (pi_mapping irq))) (\<lambda>_.
           unmask_line io A (hwirq (pi_mapping irq)))))"

definition set_priority :: "aic \<Rightarrow> u32 \<Rightarrow> u32 \<Rightarrow> ('d, unit) aic_op" where
  "set_priority A i priority = try_bind (validate_interrupt_id A i) (\<lambda>_. ok ())"

definition get_priority :: "aic \<Rightarrow> u32 \<Rightarrow> ('d, u32) aic_op" where
  "get_priority A i = try_bind (validate_interrupt_id A i) (\<lambda>_. ok 0)"

definition set_threshold :: "aic \<Rightarrow> u32 \<Rightarrow> u32 \<Rightarrow> ('d, unit) aic_op" where
  "set_threshold A cpu_id threshold = try_bind (validate_cpu_id A cpu_id) (\<lambda>_. ok ())"

definition get_threshold :: "aic \<Rightarrow> u32 \<Rightarrow> ('d, u32) aic_op" where
  "get_threshold A cpu_id = try_bind (validate_cpu_id A cpu_id) (\<lambda>_. ok 0)"

definition aic_claim_interrupt :: "'d aic_io \<Rightarrow> aic \<Rightarrow> u32 \<Rightarrow> ('d, u32 option) aic_op" where
  "aic_claim_interrupt io A cpu_id =
     try_bind (claim_event io A cpu_id) (\<lambda>p. ok (map_option (\<lambda>q. virq (pi_mapping q)) p))"

definition claim_pending_irq :: "'d aic_io \<Rightarrow> aic \<Rightarrow> u32 \<Rightarrow> ('d, pending_irq option) aic_op" where
  "claim_pending_irq io A cpu_id = claim_event io A cpu_id"

definition claim_fast_interrupt :: "'d aic_io \<Rightarrow> aic \<Rightarrow> u32 \<Rightarrow> ('d, interrupt_claim) aic_op" where
  "claim_fast_interrupt io A cpu_id = try_bind (validate_cpu_id A cpu_id) (\<lambda>_. claim_pending io cpu_id)"

definition eoi_irq :: "'d aic_io \<Rightarrow> aic \<Rightarrow> pending_irq \<Rightarrow> ('d, unit) aic_op" where
  "eoi_irq io A irq =
     (if hwirq (pi_mapping irq) = SOFTWARE_IPI_HWIRQ io then ok ()
      else try_bind (validate_cpu_id A (pi_cpu_id irq)) (\<lambda>_. validate_interrupt_id A (hwirq (pi_mapping irq))))"

definition send_ipi :: "'d aic_io \<Rightarrow> aic \<Rightarrow> u32 \<Rightarrow> local_interrupt_type \<Rightarrow> ('d, unit) aic_op" where
  "send_ipi io A target_cpu_id ipi_type =
     (if ipi_type \<noteq> SoftwareInterrupt then err NotSupported
      else try_bind (validate_cpu_id A target_cpu_id) (\<lambda>_. send_ipi_to_cpu io A target_cpu_id))"

definition complete_interrupt :: "'d aic_io \<Rightarrow> aic \<Rightarrow> u32 \<Rightarrow> u32 \<Rightarrow> ('d, unit) aic_op" where
  "complete_interrupt io A cpu_id i =
     try_bind (validate_cpu_id A cpu_id) (\<lambda>_.
     try_bind (validate_interrupt_id A i) (\<lambda>_. unmask_line io A i))"

definition aic_is_pending :: "aic \<Rightarrow> u32 \<Rightarrow> bool" where
  "aic_is_pending A i = False"

end
