(* ===== verification/AicLines.thy ===== *)
theory AicLines
  imports Aic
begin

text \<open>
  What the accesses of the interrupt controller's driver do to the interrupt lines. Masks and routes
  are read off the trace of the accesses, the way the hardware keeps them: a write to the set and
  clear registers changes the bits that are one, and reading an event of the first die masks its line.
\<close>

section \<open>Accesses\<close>

datatype io_access = DevRead nat u32 | DevWrite nat u32 | SysRead sysreg u64 | SysWrite sysreg u64 | Barrier barrier

definition traced_io :: "'d aic_io \<Rightarrow> ('d \<times> io_access list) aic_io" where
  "traced_io io = \<lparr>
     sys_read = (\<lambda>r (d, tr). case sys_read io r d of (v, d') \<Rightarrow> (v, (d', tr @ [SysRead r v]))),
     sys_write = (\<lambda>r v (d, tr). (sys_write io r v d, tr @ [SysWrite r v])),
     sys_barrier = (\<lambda>b (d, tr). (sys_barrier io b d, tr @ [Barrier b])),
     is_vhe_enabled = is_vhe_enabled io,
     aic_bus = \<lparr>
       bus_read = (\<lambda>a (d, tr). case bus_read (aic_bus io) a d of (v, d') \<Rightarrow> (v, (d', tr @ [DevRead a v]))),
       bus_write = (\<lambda>a v (d, tr). (bus_write (aic_bus io) a v d, tr @ [DevWrite a v])),
       bus_udelay = (\<lambda>n (d, tr). (bus_udelay (aic_bus io) n d, tr))\<rparr>,
     legacy = legacy io,
     RESCHEDULE_IPI_VIRQ = RESCHEDULE_IPI_VIRQ io,
     SOFTWARE_IPI_HWIRQ = SOFTWARE_IPI_HWIRQ io\<rparr>"

abbreviation io_trace :: "('d \<times> io_access list) fiq \<Rightarrow> io_access list" where
  "io_trace s \<equiv> snd (fq_hw s)"

named_theorems io_simps \<open>one access on the traced hardware\<close>

lemma traced_parameters [io_simps]:
  "legacy (traced_io io) = legacy io"
  "RESCHEDULE_IPI_VIRQ (traced_io io) = RESCHEDULE_IPI_VIRQ io"
  "SOFTWARE_IPI_HWIRQ (traced_io io) = SOFTWARE_IPI_HWIRQ io"
  "is_vhe_enabled (traced_io io) = is_vhe_enabled io"
  by (simp_all add: traced_io_def)

lemma mrs_traced [io_simps]:
  "mrs (traced_io io) r s = (let q = sys_read io r (fst (fq_hw s))
     in (Inr (fst q), s\<lparr>fq_hw := (snd q, io_trace s @ [SysRead r (fst q)])\<rparr>))"
  by (simp add: mrs_def traced_io_def Let_def split: prod.splits)

lemma msr_traced [io_simps]:
  "msr (traced_io io) r v s = (Inr (), s\<lparr>fq_hw := (sys_write io r v (fst (fq_hw s)), io_trace s @ [SysWrite r v])\<rparr>)"
  by (simp add: msr_def traced_io_def split: prod.splits)

lemma barrier_traced [io_simps]:
  "barrier (traced_io io) b s = (Inr (), s\<lparr>fq_hw := (sys_barrier io b (fst (fq_hw s)), io_trace s @ [Barrier b])\<rparr>)"
  by (simp add: barrier_def traced_io_def split: prod.splits)

lemma aic_read_traced [io_simps]:
  "aic_read (traced_io io) a s = (let q = bus_read (aic_bus io) a (fst (fq_hw s))
     in (Inr (fst q), s\<lparr>fq_hw := (snd q, io_trace s @ [DevRead a (fst q)])\<rparr>))"
  by (simp add: aic_read_def traced_io_def Let_def split: prod.splits)

lemma aic_write_traced [io_simps]:
  "aic_write (traced_io io) a v s = (Inr (), s\<lparr>fq_hw := (bus_write (aic_bus io) a v (fst (fq_hw s)), io_trace s @ [DevWrite a v])\<rparr>)"
  by (simp add: aic_write_def traced_io_def split: prod.splits)

section \<open>Masks and routes\<close>

fun mask_step :: "nat \<Rightarrow> nat \<Rightarrow> bool \<Rightarrow> io_access \<Rightarrow> bool" where
  "mask_step base i m (DevWrite a v) =
     (if a = base + AIC_MASK_SET + 4 * (i div 32) \<and> bit v (i mod 32) then True
      else if a = base + AIC_MASK_CLR + 4 * (i div 32) \<and> bit v (i mod 32) then False
      else m)"
| "mask_step base i m (DevRead a v) =
     (if a = base + AIC_EVENT \<and> event_die v = 0 \<and> event_type v = AIC_EVENT_TYPE_HW \<and> unat (event_num v) = i
      then True else m)"
| "mask_step base i m _ = m"

fun route_step :: "nat \<Rightarrow> nat \<Rightarrow> u32 \<Rightarrow> io_access \<Rightarrow> u32" where
  "route_step base i t (DevWrite a v) = (if a = base + AIC_TARGET_CPU + 4 * i then v else t)"
| "route_step base i t _ = t"

text \<open>Whether line \<open>i\<close> is masked and which processors it goes to, after the accesses of a trace.\<close>

definition line_masked :: "nat \<Rightarrow> nat \<Rightarrow> io_access list \<Rightarrow> bool" where
  "line_masked base i = foldl (mask_step base i) False"

definition line_route :: "nat \<Rightarrow> nat \<Rightarrow> io_access list \<Rightarrow> u32" where
  "line_route base i = foldl (route_step base i) 0"

lemma line_append [simp]:
  "line_masked base i (tr @ [x]) = mask_step base i (line_masked base i tr) x"
  "line_route base i (tr @ [x]) = route_step base i (line_route base i tr) x"
  by (simp_all add: line_masked_def line_route_def)

lemma line_append2 [simp]:
  "line_masked base i (tr @ [x, y]) = mask_step base i (mask_step base i (line_masked base i tr) x) y"
  "line_route base i (tr @ [x, y]) = route_step base i (route_step base i (line_route base i tr) x) y"
  by (simp_all add: line_masked_def line_route_def)

definition line_state :: "nat \<Rightarrow> nat \<Rightarrow> ('d \<times> io_access list) fiq \<Rightarrow> bool \<times> u32" where
  "line_state base i s = (line_masked base i (io_trace s), line_route base i (io_trace s))"

section \<open>The calls of the kernel\<close>

datatype aic_call = CallInit | CallInitForCpu u32
  | CallEnable u32 u32 | CallDisable u32 u32 | CallComplete u32 u32
  | CallMask pending_irq | CallUnmask pending_irq | CallEoi pending_irq
  | CallClaim u32 | CallClaimFast u32 | CallSendIpi u32 local_interrupt_type | CallSendSelf

definition quiet_result :: "('d, 'a) aic_op \<Rightarrow> ('d, pending_irq option) aic_op" where
  "quiet_result m = try_bind m (\<lambda>_. ok None)"

fun aic_do :: "'d aic_io \<Rightarrow> aic \<Rightarrow> aic_call \<Rightarrow> ('d, pending_irq option) aic_op" where
  "aic_do io A CallInit = quiet_result (aic_init io A)"
| "aic_do io A (CallInitForCpu c) = quiet_result (init_for_cpu io A c)"
| "aic_do io A (CallEnable i c) = quiet_result (enable_interrupt io A i c)"
| "aic_do io A (CallDisable i c) = quiet_result (disable_interrupt io A i c)"
| "aic_do io A (CallComplete c i) = quiet_result (complete_interrupt io A c i)"
| "aic_do io A (CallMask p) = quiet_result (mask_irq io A p)"
| "aic_do io A (CallUnmask p) = quiet_result (unmask_irq io A p)"
| "aic_do io A (CallEoi p) = quiet_result (eoi_irq io A p)"
| "aic_do io A (CallClaim c) = claim_pending_irq io A c"
| "aic_do io A (CallClaimFast c) = quiet_result (claim_fast_interrupt io A c)"
| "aic_do io A (CallSendIpi c t) = quiet_result (send_ipi io A c t)"
| "aic_do io A CallSendSelf = quiet_result (send_ipi_self io A)"

text \<open>A sequence of calls with their results.\<close>

type_synonym aic_history = "(aic_call \<times> (interrupt_error + pending_irq option)) list"

fun aic_calls :: "'d aic_io \<Rightarrow> aic \<Rightarrow> aic_call list \<Rightarrow> 'd fiq \<Rightarrow> aic_history \<times> 'd fiq" where
  "aic_calls io A [] s = ([], s)"
| "aic_calls io A (c # cs) s =
     (case aic_do io A c s of (r, s') \<Rightarrow>
        (case aic_calls io A cs s' of (h, s'') \<Rightarrow> ((c, r) # h, s'')))"

section \<open>What the calls promise\<close>

text \<open>
  The contract, per line: initialisation masks every line and routes it to the first processor;
  enabling routes and unmasks it; a claimed line stays masked until it is unmasked, completed or
  enabled, whatever ends the interrupt; nothing else touches a line, and failed calls change nothing.
\<close>

fun line_promise :: "u32 \<Rightarrow> nat \<Rightarrow> aic_call \<times> (interrupt_error + pending_irq option) \<Rightarrow> bool \<times> u32 \<Rightarrow> bool \<times> u32" where
  "line_promise sw i (c, Inl e) (m, t) = (m, t)"
| "line_promise sw i (CallInit, Inr _) (m, t) = (True, 1)"
| "line_promise sw i (CallEnable j c, Inr _) (m, t) = (if unat j = i then (False, push_bit (unat c) 1) else (m, t))"
| "line_promise sw i (CallDisable j c, Inr _) (m, t) = (m \<or> unat j = i, t)"
| "line_promise sw i (CallComplete c j, Inr _) (m, t) = (m \<and> unat j \<noteq> i, t)"
| "line_promise sw i (CallMask p, Inr _) (m, t) =
     (m \<or> (hwirq (pi_mapping p) \<noteq> sw \<and> unat (hwirq (pi_mapping p)) = i), t)"
| "line_promise sw i (CallUnmask p, Inr _) (m, t) =
     (m \<and> \<not> (hwirq (pi_mapping p) \<noteq> sw \<and> unat (hwirq (pi_mapping p)) = i), t)"
| "line_promise sw i (CallClaim c, Inr (Some p)) (m, t) =
     (m \<or> (hwirq (pi_mapping p) \<noteq> sw \<and> unat (hwirq (pi_mapping p)) = i), t)"
| "line_promise sw i (_, Inr _) (m, t) = (m, t)"

text \<open>The kernel's numbering: a legacy mapping keeps the hardware number, and the number of a software
  interrupt is none that an event can carry.\<close>

definition kernel_numbers :: "'d aic_io \<Rightarrow> bool" where
  "kernel_numbers io \<longleftrightarrow> (\<forall>n f. hwirq (legacy io n f) = n) \<and> 0xffff < SOFTWARE_IPI_HWIRQ io"

section \<open>The registers of a line\<close>

lemma mask_reg_div: "mask_reg j = 4 * (unat j div 32)"
  by (simp add: mask_reg_def drop_bit_eq_div)

lemma bit_mask_bit: "k < 32 \<Longrightarrow> bit (mask_bit j) k \<longleftrightarrow> k = unat j mod 32"
proof -
  have "j AND 0x1f = take_bit 5 j"
    by (simp add: take_bit_eq_mask mask_eq_exp_minus_1)
  then have "unat (j AND 0x1f) = unat j mod 32"
    by (simp add: unsigned_take_bit_eq take_bit_eq_mod [of _ "unat j"])
  then show "k < 32 \<Longrightarrow> ?thesis"
    by (auto simp: mask_bit_def bit_simps)
qed

lemma mask_bit_line: "a + 4 * (unat j div 32) = a + 4 * (i div 32) \<and> bit (mask_bit j) (i mod 32) \<longleftrightarrow> unat j = i"
  by (simp add: bit_mask_bit) (metis div_mult_mod_eq)

text \<open>Up to 1024 lines the banks of registers do not overlap.\<close>

lemma mask_effects:
  assumes "i < 1024" and "unat j < 1024"
  shows "mask_step base i m (DevWrite (base + (AIC_MASK_SET + mask_reg j)) (mask_bit j)) = (m \<or> unat j = i)"
    and "mask_step base i m (DevWrite (base + (AIC_MASK_CLR + mask_reg j)) (mask_bit j)) = (m \<and> unat j \<noteq> i)"
    and "mask_step base i m (DevWrite (base + (AIC_TARGET_CPU + unat j * 4)) v) = m"
proof -
  have bounds: "i div 32 < 32" "unat j div 32 < 32"
    using assms by auto
  then show "mask_step base i m (DevWrite (base + (AIC_MASK_SET + mask_reg j)) (mask_bit j)) = (m \<or> unat j = i)"
    "mask_step base i m (DevWrite (base + (AIC_MASK_CLR + mask_reg j)) (mask_bit j)) = (m \<and> unat j \<noteq> i)"
    using mask_bit_line [of base j i] by (auto simp: mask_reg_div aic_registers)
  show "mask_step base i m (DevWrite (base + (AIC_TARGET_CPU + unat j * 4)) v) = m"
    using bounds assms by (auto simp: aic_registers)
qed

lemma route_effects:
  assumes "i < 1024" and "unat j < 1024"
  shows "route_step base i t (DevWrite (base + (AIC_MASK_SET + mask_reg j)) v) = t"
    and "route_step base i t (DevWrite (base + (AIC_MASK_CLR + mask_reg j)) v) = t"
    and "route_step base i t (DevWrite (base + (AIC_TARGET_CPU + unat j * 4)) v) = (if unat j = i then v else t)"
  using assms by (auto simp: mask_reg_div aic_registers)

lemma ipi_effects:
  assumes "i < 1024" and "a \<in> {AIC_IPI_ACK, AIC_IPI_SEND, AIC_IPI_MASK_SET, AIC_IPI_MASK_CLR}"
  shows "mask_step base i m (DevWrite (base + a) v) = m" and "route_step base i t (DevWrite (base + a) v) = t"
  using assms by (auto simp: aic_registers)

lemma read_effects:
  "mask_step base i m (DevRead (base + AIC_WHOAMI) v) = m"
  "mask_step base i m (DevRead (base + AIC_IPI_ACK) v) = m"
  "mask_step base i m (DevRead (base + AIC_EVENT) v) =
     (m \<or> event_die v = 0 \<and> event_type v = AIC_EVENT_TYPE_HW \<and> unat (event_num v) = i)"
  by (auto simp: aic_registers)

declare mask_step.simps(1,2) [simp del] route_step.simps(1) [simp del]

section \<open>Initialisation\<close>

lemma writes_traced:
  "\<exists>d. for_each (\<lambda>k. aic_write (traced_io io) (f k) v) ks s =
     (Inr (), s\<lparr>fq_hw := (d, io_trace s @ map (\<lambda>k. DevWrite (f k) v) ks)\<rparr>)"
proof (induction ks arbitrary: s)
  case Nil
  show ?case
    by (rule exI [of _ "fst (fq_hw s)"]) simp
next
  case (Cons k ks)
  let ?s = "s\<lparr>fq_hw := (bus_write (aic_bus io) (f k) v (fst (fq_hw s)), io_trace s @ [DevWrite (f k) v])\<rparr>"
  show ?case
    using Cons.IH [of ?s] by (simp add: io_simps)
qed

lemma foldl_keep: "(\<And>x m. x \<in> set xs \<Longrightarrow> f m x = m) \<Longrightarrow> foldl f m xs = m"
  by (induction xs arbitrary: m) auto

lemma all_ones: "k < 32 \<Longrightarrow> bit (0xffffffff :: u32) k"
proof -
  have "(0xffffffff :: u32) = mask 32"
    by (simp add: mask_eq_exp_minus_1)
  then show "k < 32 \<Longrightarrow> ?thesis"
    by (simp only: bit_mask_iff) simp
qed

lemma mask_all:
  assumes "i < 1024" and v: "bit v (i mod 32)" and "n \<le> 32"
  shows "foldl (mask_step base i) m (map (\<lambda>k. DevWrite (base + (AIC_MASK_SET + k * 4)) v) [0..<n]) =
    (m \<or> i div 32 < n)"
  using assms(3)
proof (induction n)
  case (Suc n)
  have n: "n < 32"
    using Suc.prems by simp
  have "mask_step base i q (DevWrite (base + (AIC_MASK_SET + n * 4)) v) = (q \<or> i div 32 = n)" for q
    using n v by (auto simp: mask_step.simps aic_registers)
  moreover have "i div 32 < Suc n \<longleftrightarrow> i div 32 < n \<or> i div 32 = n"
    by (rule less_Suc_eq)
  ultimately show ?case
    using Suc.IH n by simp
qed simp

lemma route_all:
  assumes "i < 1024" and "n \<le> 1024"
  shows "foldl (route_step base i) t (map (\<lambda>k. DevWrite (base + (AIC_TARGET_CPU + k * 4)) 1) [0..<n]) =
    (if i < n then 1 else t)"
  using assms(2)
proof (induction n)
  case (Suc n)
  have "route_step base i q (DevWrite (base + (AIC_TARGET_CPU + n * 4)) 1) = (if i = n then 1 else q)" for q
    by (auto simp: route_step.simps)
  with Suc show ?case
    by auto
qed simp

lemma init_hw_lines:
  assumes A: "unat (num_irqs A) \<le> 1024" and i: "i < unat (num_irqs A)"
  obtains s' where "init_hw (traced_io io) A s = (Inr (), s')" and "line_state (base_addr A) i s' = (True, 1)"
proof -
  let ?n = "(unat (num_irqs A) + 31) div 32" and ?b = "base_addr A"
  let ?w = "\<lambda>f v ks. map (\<lambda>k. DevWrite (reg_addr A (f + k * 4)) v) [0..<ks]"
  have n: "?n \<le> 32" "i div 32 < ?n" "i < 1024"
    using A i by auto
  define acc where "acc = ?w AIC_MASK_SET 0xffffffff ?n @ ?w AIC_SW_CLR 0xffffffff ?n @ ?w AIC_TARGET_CPU 1 (unat (num_irqs A)) @
    [DevWrite (reg_addr A AIC_IPI_MASK_SET) (AIC_IPI_SELF OR AIC_IPI_OTHER), DevWrite (reg_addr A AIC_IPI_ACK) (AIC_IPI_SELF OR AIC_IPI_OTHER)]"
  have "\<exists>d. init_hw (traced_io io) A s = (Inr (), s\<lparr>fq_hw := (d, io_trace s @ acc)\<rparr>)"
  proof -
    have run: "\<exists>d. for_each (\<lambda>k. aic_write (traced_io io) (reg_addr A (f + k * 4)) v) ks t =
        (Inr (), t\<lparr>fq_hw := (d, io_trace t @ map (\<lambda>k. DevWrite (reg_addr A (f + k * 4)) v) ks)\<rparr>)" for f v ks t
      by (rule writes_traced)
    obtain d1 where 1: "for_each (\<lambda>k. aic_write (traced_io io) (reg_addr A (AIC_MASK_SET + k * 4)) 0xffffffff) [0..<?n] s =
        (Inr (), s\<lparr>fq_hw := (d1, io_trace s @ ?w AIC_MASK_SET 0xffffffff ?n)\<rparr>)" (is "_ = (_, ?s1)")
      using run by blast
    obtain d2 where 2: "for_each (\<lambda>k. aic_write (traced_io io) (reg_addr A (AIC_SW_CLR + k * 4)) 0xffffffff) [0..<?n] ?s1 =
        (Inr (), ?s1\<lparr>fq_hw := (d2, io_trace ?s1 @ ?w AIC_SW_CLR 0xffffffff ?n)\<rparr>)" (is "_ = (_, ?s2)")
      using run by blast
    obtain d3 where 3: "for_each (\<lambda>k. aic_write (traced_io io) (reg_addr A (AIC_TARGET_CPU + k * 4)) 1) [0..<unat (num_irqs A)] ?s2 =
        (Inr (), ?s2\<lparr>fq_hw := (d3, io_trace ?s2 @ ?w AIC_TARGET_CPU 1 (unat (num_irqs A)))\<rparr>)" (is "_ = (_, ?s3)")
      using run by blast
    show ?thesis
      by (simp add: init_hw_def Let_def acc_def io_simps 1 2 [simplified] 3 [simplified]) (rule exI, rule refl)
  qed
  moreover have "foldl (mask_step ?b i) m acc = True" for m
  proof -
    have "foldl (mask_step ?b i) q (?w AIC_SW_CLR 0xffffffff ?n) = q"
      "foldl (mask_step ?b i) q (?w AIC_TARGET_CPU 1 (unat (num_irqs A))) = q" for q
      using n A by (intro foldl_keep; auto simp: mask_step.simps reg_addr_def aic_registers)+
    then show ?thesis
      using n mask_all [OF n(3) all_ones n(1)] by (simp add: acc_def reg_addr_def ipi_effects)
  qed
  moreover have "foldl (route_step ?b i) t acc = 1" for t
  proof -
    have "foldl (route_step ?b i) q (?w AIC_SW_CLR 0xffffffff ?n) = q"
      "foldl (route_step ?b i) q (?w AIC_MASK_SET 0xffffffff ?n) = q" for q
      using n A by (intro foldl_keep; auto simp: route_step.simps reg_addr_def aic_registers)+
    then show ?thesis
      using n i A route_all [OF n(3) A] by (simp add: acc_def reg_addr_def ipi_effects)
  qed
  ultimately show ?thesis
    by (auto intro!: that simp: line_state_def line_masked_def line_route_def)
qed

section \<open>Steps that touch no line\<close>

named_theorems line_keeps \<open>operations that leave the lines alone\<close>

lemma preserves_case_option [preserves_intros]:
  "(x = None \<Longrightarrow> preserves P m) \<Longrightarrow> (\<And>y. x = Some y \<Longrightarrow> preserves P (f y)) \<Longrightarrow>
    preserves P (case x of None \<Rightarrow> m | Some y \<Rightarrow> f y)"
  by (cases x) auto

lemma preserves_case_prod [preserves_intros]:
  "(\<And>a b. preserves P (f a b)) \<Longrightarrow> preserves P (case x of (a, b) \<Rightarrow> f a b)"
  by (cases x) auto

abbreviation (input) keeps_line where
  "keeps_line base i q m \<equiv> preserves (\<lambda>s. line_state base i s = q) m"

lemma keep_mrs [line_keeps]: "keeps_line base i q (mrs (traced_io io) r)"
  by (rule preservesI) (simp add: io_simps line_state_def Let_def)

lemma keep_msr [line_keeps]: "keeps_line base i q (msr (traced_io io) r v)"
  by (rule preservesI) (simp add: io_simps line_state_def)

lemma keep_barrier [line_keeps]: "keeps_line base i q (barrier (traced_io io) b)"
  by (rule preservesI) (simp add: io_simps line_state_def)

lemma keep_capture [line_keeps]: "keeps_line base i q (capture (traced_io io))"
  unfolding capture_def read_local_def read_timer_state_def read_pmu_state_def read_exception_state_def read_el2_def
  by (intro preserves_intros line_keeps)

lemma keep_prepare [line_keeps]: "keeps_line base i q (prepare_cpu (traced_io io) c)"
  unfolding prepare_cpu_def store_mpidr_def clear_fast_ipi_def mask_guest_timers_def disable_vgic_maintenance_def
  by (intro preserves_intros line_keeps) (simp_all add: line_state_def)

lemma keep_send_fast [line_keeps]: "keeps_line base i q (send_fast_ipi (traced_io io) c)"
  unfolding send_fast_ipi_def send_fast_ipi_registers_def
  by (intro preserves_intros line_keeps)

lemma keep_claim_fast [line_keeps]: "keeps_line base i q (claim_pending (traced_io io) c)"
  unfolding claim_pending_def quiesce_def report_once_def clear_fast_ipi_def mask_guest_timers_def
  by (intro preserves_intros line_keeps) (simp_all add: line_state_def)

lemma keep_validate [line_keeps]:
  "keeps_line base i q (validate_interrupt_id A j)" "keeps_line base i q (validate_cpu_id A c)"
  unfolding validate_interrupt_id_def validate_cpu_id_def by (intro preserves_intros)+

lemma keep_write [line_keeps]:
  assumes "i < 1024" and "a \<in> {AIC_IPI_ACK, AIC_IPI_SEND, AIC_IPI_MASK_SET, AIC_IPI_MASK_CLR}"
  shows "keeps_line (base_addr A) i q (aic_write (traced_io io) (reg_addr A a) v)"
  by (rule preservesI) (simp add: io_simps line_state_def reg_addr_def ipi_effects [OF assms])

lemma keep_read [line_keeps]:
  "keeps_line (base_addr A) i q (whoami (traced_io io) A)"
  "keeps_line (base_addr A) i q (aic_read (traced_io io) (reg_addr A AIC_IPI_ACK))"
  by (rule preservesI; simp add: whoami_def io_simps line_state_def reg_addr_def read_effects Let_def route_step.simps)+

lemma keep_ipis [line_keeps]:
  assumes "i < 1024"
  shows "keeps_line (base_addr A) i q (unmask_ipis (traced_io io) A)"
    and "keeps_line (base_addr A) i q (mask_ipis (traced_io io) A)"
    and "keeps_line (base_addr A) i q (ack_ipi (traced_io io) A)"
    and "keeps_line (base_addr A) i q (send_ipi_to_cpu (traced_io io) A c)"
    and "keeps_line (base_addr A) i q (claim_ipi (traced_io io) A c n)"
  unfolding unmask_ipis_def mask_ipis_def ack_ipi_def send_ipi_to_cpu_def claim_ipi_def Let_def
  using assms by (intro preserves_intros line_keeps; simp)+

section \<open>The lines follow the calls\<close>

lemma untouched:
  "keeps_line base i (line_state base i s) m \<Longrightarrow> m s = (r, s') \<Longrightarrow> line_state base i s' = line_state base i s"
  by (auto dest: preservesD)

lemma promise_quiet:
  assumes "quiet_result m s = (r, s')" and "keeps_line base i (line_state base i s) m"
    and "\<And>v m t. line_promise sw i (c, Inr v) (m, t) = (m, t)"
  shows "line_state base i s' = line_promise sw i (c, r) (line_state base i s)"
proof -
  have "keeps_line base i (line_state base i s) (quiet_result m)"
    unfolding quiet_result_def by (intro preserves_intros assms(2))
  then have "line_state base i s' = line_state base i s"
    using assms(1) by (rule untouched)
  then show ?thesis
    using assms(3) by (cases r; cases "line_state base i s") auto
qed

lemma event_num_small: "unat (event_num e) \<le> 0xffff"
proof -
  have "event_num e \<le> 0xffff"
    unfolding event_num_def by (rule word_and_le1)
  then show ?thesis
    by (simp add: word_le_nat_alt)
qed

lemma claim_line:
  assumes K: "kernel_numbers io" and i: "i < 1024" and run: "claim_event (traced_io io) A c s = (r, s')"
  shows "line_state (base_addr A) i s' = line_promise (SOFTWARE_IPI_HWIRQ io) i (CallClaim c, r) (line_state (base_addr A) i s)"
proof (cases "max_cpus A \<le> c")
  case True
  with run show ?thesis
    by (cases "line_state (base_addr A) i s") (auto simp: claim_event_def validate_cpu_id_def try_bind_apply)
next
  case False
  define e where "e = fst (bus_read (aic_bus io) (reg_addr A AIC_EVENT) (fst (fq_hw s)))"
  define t where "t = s\<lparr>fq_hw := (snd (bus_read (aic_bus io) (reg_addr A AIC_EVENT) (fst (fq_hw s))), io_trace s @ [DevRead (reg_addr A AIC_EVENT) e])\<rparr>"
  have sw: "event_num e \<noteq> SOFTWARE_IPI_HWIRQ io"
    using K event_num_small [of e] by (auto simp: kernel_numbers_def word_less_nat_alt)
  have hw: "hwirq (legacy io n f) = n" for n f
    using K by (simp add: kernel_numbers_def)
  have t: "line_state (base_addr A) i t = (let (m, q) = line_state (base_addr A) i s
      in (m \<or> event_die e = 0 \<and> event_type e = 1 \<and> unat (event_num e) = i, q))"
    by (simp add: t_def line_state_def reg_addr_def read_effects route_step.simps)
  have run': "(if event_die e \<noteq> 0 then ok None
     else if event_type e = AIC_EVENT_TYPE_HW
     then ok (Some \<lparr>pi_mapping = legacy io (event_num e) LevelFlow, pi_cpu_id = c\<rparr>)
     else if event_type e = AIC_EVENT_TYPE_IPI then claim_ipi (traced_io io) A c (event_num e)
     else ok None) t = (r, s')"
    using run False by (simp add: claim_event_def validate_cpu_id_def io_simps Let_def t_def e_def cong: if_cong)
  show ?thesis
  proof (cases "event_die e = 0 \<and> event_type e = 4")
    case True
    then have ipi: "claim_ipi (traced_io io) A c (event_num e) t = (r, s')"
      using run' by simp
    have "line_state (base_addr A) i s' = line_state (base_addr A) i t"
      by (rule untouched [OF keep_ipis(5) [OF i] ipi])
    moreover have "\<exists>p. r = Inr p \<and> (\<forall>q. p = Some q \<longrightarrow> hwirq (pi_mapping q) = SOFTWARE_IPI_HWIRQ io)"
      using ipi by (auto simp: claim_ipi_def io_simps Let_def split: if_splits)
    ultimately obtain p where "r = Inr p" "\<And>q. p = Some q \<Longrightarrow> hwirq (pi_mapping q) = SOFTWARE_IPI_HWIRQ io"
        "line_state (base_addr A) i s' = line_state (base_addr A) i t"
      by auto
    with t True show ?thesis
      by (cases "line_state (base_addr A) i s"; cases p) auto
  next
    case False
    then have "s' = t"
      using run' by (auto split: if_splits)
    with t run' False sw hw show ?thesis
      by (cases "line_state (base_addr A) i s") (auto split: if_splits)
  qed
qed

lemma word_le_line: "\<not> num_irqs A \<le> j \<Longrightarrow> unat (num_irqs A) \<le> 1024 \<Longrightarrow> unat j < 1024"
  by (simp add: word_le_nat_alt)

lemma step_line:
  assumes K: "kernel_numbers io" and A: "unat (num_irqs A) \<le> 1024" and i: "i < unat (num_irqs A)"
    and run: "aic_do (traced_io io) A c s = (r, s')"
  shows "line_state (base_addr A) i s' = line_promise (SOFTWARE_IPI_HWIRQ io) i (c, r) (line_state (base_addr A) i s)"
proof -
  have lt: "i < 1024"
    using A i by simp
  obtain m t where st: "line_state (base_addr A) i s = (m, t)"
    by (cases "line_state (base_addr A) i s")
  note one = line_state_def reg_addr_def io_simps quiet_result_def validate_interrupt_id_def validate_cpu_id_def
    unmask_line_def mask_effects route_effects lt word_le_line [OF _ A]
  show ?thesis
  proof (cases c)
    case CallInit
    obtain s1 where 1: "init_hw (traced_io io) A s = (Inr (), s1)" "line_state (base_addr A) i s1 = (True, 1)"
      using init_hw_lines [OF A i] by blast
    have "keeps_line (base_addr A) i (True, 1) (try_bind (whoami (traced_io io) A) (\<lambda>_.
        if fast_ipi A then mask_ipis (traced_io io) A else unmask_ipis (traced_io io) A))"
      using lt by (intro preserves_intros line_keeps)
    moreover obtain r' where "r = Inr r'"
      using run 1 CallInit by (auto simp: aic_init_def quiet_result_def whoami_def mask_ipis_def unmask_ipis_def io_simps Let_def split: if_splits)
    ultimately show ?thesis
      using run 1 CallInit st
      by (auto simp: aic_init_def quiet_result_def try_bind_apply split: prod.splits sum.splits dest: preservesD)
  next
    case (CallEnable j cpu)
    with run st show ?thesis
      by (auto simp: enable_interrupt_def one split: if_splits)
  next
    case (CallDisable j cpu)
    with run st show ?thesis
      by (auto simp: disable_interrupt_def one split: if_splits)
  next
    case (CallComplete cpu j)
    with run st show ?thesis
      by (auto simp: complete_interrupt_def one split: if_splits)
  next
    case (CallMask p)
    with run st show ?thesis
      by (auto simp: mask_irq_def disable_interrupt_def one split: if_splits)
  next
    case (CallUnmask p)
    with run st show ?thesis
      by (auto simp: unmask_irq_def one split: if_splits)
  next
    case (CallClaim cpu)
    with run show ?thesis
      by (simp add: claim_pending_irq_def claim_line [OF K lt])
  next
    case (CallInitForCpu cpu)
    have keep: "keeps_line (base_addr A) i (line_state (base_addr A) i s) (init_for_cpu (traced_io io) A cpu)"
      unfolding init_for_cpu_def using lt by (intro preserves_intros line_keeps)
    show ?thesis
      using promise_quiet [OF run [unfolded CallInitForCpu aic_do.simps] keep, of "SOFTWARE_IPI_HWIRQ io" c] by (simp add: CallInitForCpu)
  next
    case (CallEoi p)
    have keep: "keeps_line (base_addr A) i (line_state (base_addr A) i s) (eoi_irq (traced_io io) A p)"
      unfolding eoi_irq_def by (intro preserves_intros line_keeps)
    show ?thesis
      using promise_quiet [OF run [unfolded CallEoi aic_do.simps] keep, of "SOFTWARE_IPI_HWIRQ io" c] by (simp add: CallEoi)
  next
    case (CallClaimFast cpu)
    have keep: "keeps_line (base_addr A) i (line_state (base_addr A) i s) (claim_fast_interrupt (traced_io io) A cpu)"
      unfolding claim_fast_interrupt_def by (intro preserves_intros line_keeps)
    show ?thesis
      using promise_quiet [OF run [unfolded CallClaimFast aic_do.simps] keep, of "SOFTWARE_IPI_HWIRQ io" c] by (simp add: CallClaimFast)
  next
    case (CallSendIpi cpu ty)
    have keep: "keeps_line (base_addr A) i (line_state (base_addr A) i s) (send_ipi (traced_io io) A cpu ty)"
      unfolding send_ipi_def using lt by (intro preserves_intros line_keeps)
    show ?thesis
      using promise_quiet [OF run [unfolded CallSendIpi aic_do.simps] keep, of "SOFTWARE_IPI_HWIRQ io" c] by (simp add: CallSendIpi)
  next
    case CallSendSelf
    have keep: "keeps_line (base_addr A) i (line_state (base_addr A) i s) (send_ipi_self (traced_io io) A)"
      unfolding send_ipi_self_def using lt by (intro preserves_intros line_keeps) auto
    show ?thesis
      using promise_quiet [OF run [unfolded CallSendSelf aic_do.simps] keep, of "SOFTWARE_IPI_HWIRQ io" c] by (simp add: CallSendSelf)
  qed
qed

lemma calls_line:
  assumes K: "kernel_numbers io" and A: "unat (num_irqs A) \<le> 1024" and i: "i < unat (num_irqs A)"
    and run: "aic_calls (traced_io io) A cs s = (h, s')"
  shows "line_state (base_addr A) i s' =
    foldl (\<lambda>q e. line_promise (SOFTWARE_IPI_HWIRQ io) i e q) (line_state (base_addr A) i s) h"
  using run
proof (induction cs arbitrary: s h)
  case (Cons c cs)
  obtain r s1 h1 where 1: "aic_do (traced_io io) A c s = (r, s1)" "aic_calls (traced_io io) A cs s1 = (h1, s')" "h = (c, r) # h1"
    using Cons.prems by (auto split: prod.splits)
  show ?case
    using Cons.IH [OF 1(2)] step_line [OF K A i 1(1)] 1(3) by simp
qed simp

text \<open>
  C8. After any sequence of calls of the kernel on any hardware, the mask and the route of every
  device interrupt are the ones the results of the calls promise: a line is masked from the
  initialisation on until it is enabled, it is masked again by being claimed, disabled or masked, and
  from then on it stays masked, through the end of the interrupt and through all calls for other
  lines, inter-processor and fast interrupts, until it is unmasked, completed or enabled; and it goes
  to the processor it was last enabled for. The lines of the controller are at most 1024, as many as
  its register banks have room for.
\<close>

theorem lines_follow_calls:
  assumes "kernel_numbers io" and "unat (num_irqs A) \<le> 1024" and "i < unat (num_irqs A)"
    and "aic_calls (traced_io io) A cs s = (h, s')"
  shows "line_state (base_addr A) i s' =
    foldl (\<lambda>q e. line_promise (SOFTWARE_IPI_HWIRQ io) i e q) (line_state (base_addr A) i s) h"
  by (rule calls_line [OF assms])

text \<open>A controller whose event register always reports line 5: it is enabled for the second processor
  and claimed there, and is still masked after the end of the interrupt.\<close>

definition aic_example_io :: "unit aic_io" where
  "aic_example_io = \<lparr>sys_read = \<lambda>_. Pair 0, sys_write = \<lambda>_ _. id, sys_barrier = \<lambda>_. id, is_vhe_enabled = True,
     aic_bus = \<lparr>bus_read = \<lambda>a. Pair (if a = AIC_EVENT then 0x10005 else 0), bus_write = \<lambda>_ _. id, bus_udelay = \<lambda>_. id\<rparr>,
     legacy = \<lambda>n f. \<lparr>virq = n, hwirq = n, flow = f\<rparr>, RESCHEDULE_IPI_VIRQ = 0xfffe, SOFTWARE_IPI_HWIRQ = 0xffffffff\<rparr>"

definition aic_example :: aic where
  "aic_example = \<lparr>base_addr = 0, num_irqs = 64, max_cpus = 8, fast_ipi = False\<rparr>"

lemma aic_example_numbers: "kernel_numbers aic_example_io"
  by (simp add: kernel_numbers_def aic_example_io_def)

theorem lines_follow_calls_witness:
  "line_state 0 5 (snd (aic_calls (traced_io aic_example_io) aic_example
     [CallEnable 5 1, CallClaim 1, CallEoi \<lparr>pi_mapping = \<lparr>virq = 5, hwirq = 5, flow = LevelFlow\<rparr>, pi_cpu_id = 1\<rparr>]
     (fiq_statics ((), [])))) = (True, 2)"
proof -
  let ?p = "\<lparr>pi_mapping = \<lparr>virq = 5, hwirq = 5, flow = LevelFlow\<rparr>, pi_cpu_id = 1\<rparr>"
  obtain s' where run: "aic_calls (traced_io aic_example_io) aic_example [CallEnable 5 1, CallClaim 1, CallEoi ?p] (fiq_statics ((), [])) =
      ([(CallEnable 5 1, Inr None), (CallClaim 1, Inr (Some ?p)), (CallEoi ?p, Inr None)], s')"
    by (simp add: quiet_result_def enable_interrupt_def validate_interrupt_id_def validate_cpu_id_def unmask_line_def io_simps
        claim_pending_irq_def claim_event_def eoi_irq_def aic_example_def aic_example_io_def Let_def reg_addr_def
        event_die_def event_type_def event_num_def word_le_nat_alt)
  have "line_state (base_addr aic_example) 5 s' = (True, 2)"
    by (subst lines_follow_calls [OF aic_example_numbers _ _ run])
      (simp_all add: aic_example_io_def line_state_def line_masked_def line_route_def fiq_statics_def aic_example_def)
  then show ?thesis
    unfolding run snd_conv by (simp add: aic_example_def)
qed

end
