(* ===== verification/AicIpi.thy ===== *)
theory AicIpi
  imports AicLines
begin

text \<open>
  The processor-local interrupts: a claim quietens exactly the sources it reports, and a fast
  inter-processor interrupt is addressed to the processor it is meant for.
\<close>

section \<open>Pending sources\<close>

text \<open>What a write of the driver does to the captured registers; the status of the fast interrupts is
  cleared by writing ones.\<close>

fun fiq_effect :: "fiq_state \<Rightarrow> io_access \<Rightarrow> fiq_state" where
  "fiq_effect st (SysWrite r v) =
     (case r of
        CNTP_CTL \<Rightarrow> st\<lparr>fs_local := (fs_local st)\<lparr>cntp_ctl := v\<rparr>\<rparr>
      | CNTV_CTL \<Rightarrow> st\<lparr>fs_local := (fs_local st)\<lparr>cntv_ctl := v\<rparr>\<rparr>
      | IPI_SR \<Rightarrow> st\<lparr>fs_local := (fs_local st)\<lparr>fast_ipi_status := fast_ipi_status (fs_local st) AND NOT v\<rparr>\<rparr>
      | PMCR0 \<Rightarrow> st\<lparr>fs_local := (fs_local st)\<lparr>pmcr0 := v\<rparr>\<rparr>
      | UPMCR0 \<Rightarrow> st\<lparr>fs_local := (fs_local st)\<lparr>upmcr0 := v\<rparr>\<rparr>
      | GUEST_CNTP_CTL \<Rightarrow> st\<lparr>fs_el2 := map_option (\<lambda>e. e\<lparr>guest_cntp_ctl := v\<rparr>) (fs_el2 st)\<rparr>
      | GUEST_CNTV_CTL \<Rightarrow> st\<lparr>fs_el2 := map_option (\<lambda>e. e\<lparr>guest_cntv_ctl := v\<rparr>) (fs_el2 st)\<rparr>
      | _ \<Rightarrow> st)"
| "fiq_effect st _ = st"

lemmas source_defs = SOURCE_PHYSICAL_TIMER_def SOURCE_VIRTUAL_TIMER_def SOURCE_GUEST_PHYSICAL_TIMER_def
  SOURCE_GUEST_VIRTUAL_TIMER_def SOURCE_FAST_IPI_def SOURCE_CORE_PMU_def SOURCE_UNCORE_PMU_def

definition guest_firing :: "(el2_state \<Rightarrow> u64) \<Rightarrow> fiq_state \<Rightarrow> bool" where
  "guest_firing f st \<longleftrightarrow> (\<exists>e. fs_el2 st = Some e \<and> timer_is_firing (f e))"

definition core_pmu_firing :: "u64 \<Rightarrow> bool" where
  "core_pmu_firing p \<longleftrightarrow> p AND (PMCR0_IMODE_MASK OR PMCR0_IACT) = PMCR0_IMODE_FIQ OR PMCR0_IACT"

definition uncore_pmu_firing :: "u64 \<Rightarrow> u64 \<Rightarrow> bool" where
  "uncore_pmu_firing u m \<longleftrightarrow> u AND UPMCR0_IMODE_MASK = UPMCR0_IMODE_FIQ \<and> m AND 1 \<noteq> 0"

lemma bit_if_or: "bit (if c then a OR b else a) n \<longleftrightarrow> bit a n \<or> c \<and> bit b n" for a :: "'a::len word"
  by (simp add: bit_or_iff)

lemma bit_flag: "k < 32 \<Longrightarrow> bit (push_bit k 1 :: u32) n \<longleftrightarrow> n = k"
  by (auto simp: bit_simps)

lemma pending_bits:
  "bit (pending_sources st) n \<longleftrightarrow>
    n = 0 \<and> fs_el2 st \<noteq> None \<and> timer_is_firing (cntp_ctl (fs_local st)) \<or>
    n = 1 \<and> fs_el2 st = None \<and> timer_is_firing (cntv_ctl (fs_local st)) \<or>
    n = 2 \<and> guest_firing guest_cntp_ctl st \<or>
    n = 3 \<and> guest_firing guest_cntv_ctl st \<or>
    n = 4 \<and> fast_ipi_status (fs_local st) AND 1 \<noteq> 0 \<or>
    n = 5 \<and> core_pmu_firing (pmcr0 (fs_local st)) \<or>
    n = 6 \<and> uncore_pmu_firing (upmcr0 (fs_local st)) (upmsr (fs_local st))"
proof -
  have host: "bit (host_timer_sources vhe p v) n \<longleftrightarrow> n = 0 \<and> vhe \<and> timer_is_firing p \<or> n = 1 \<and> \<not> vhe \<and> timer_is_firing v" for vhe p v
    by (auto simp: host_timer_sources_def source_defs bit_simps)
  have flags: "bit (push_bit 2 1 :: u32) n \<longleftrightarrow> n = 2" "bit (push_bit 3 1 :: u32) n \<longleftrightarrow> n = 3"
    "bit (push_bit 4 1 :: u32) n \<longleftrightarrow> n = 4" "bit (push_bit 5 1 :: u32) n \<longleftrightarrow> n = 5" "bit (push_bit 6 1 :: u32) n \<longleftrightarrow> n = 6"
    by (rule bit_flag, simp)+
  show ?thesis
    unfolding pending_sources_def Let_def guest_firing_def [symmetric] core_pmu_firing_def [symmetric] uncore_pmu_firing_def [symmetric]
      bit_if_or host SOURCE_GUEST_PHYSICAL_TIMER_def SOURCE_GUEST_VIRTUAL_TIMER_def SOURCE_FAST_IPI_def SOURCE_CORE_PMU_def SOURCE_UNCORE_PMU_def
    unfolding flags by argo
qed

lemma masked_timer: "\<not> timer_is_firing (v OR 2)"
proof
  assume "timer_is_firing (v OR 2)"
  then have "bit ((v OR 2) AND 7) 1 = bit (5 :: u64) 1"
    by (simp add: timer_is_firing_def)
  then show False
    by (simp add: bit_simps)
qed

lemma quiet_pmus:
  "\<not> core_pmu_firing (p AND NOT (PMCR0_IMODE_MASK OR PMCR0_IACT))"
  "\<not> uncore_pmu_firing (u AND NOT UPMCR0_IMODE_MASK) m"
proof -
  have "bit (PMCR0_IMODE_FIQ OR PMCR0_IACT) 11"
    by (simp add: PMCR0_IMODE_FIQ_def PMCR0_IACT_def)
  moreover have "\<not> bit ((p AND NOT (PMCR0_IMODE_MASK OR PMCR0_IACT)) AND (PMCR0_IMODE_MASK OR PMCR0_IACT)) 11"
    by (auto simp: bit_and_iff bit_not_iff bit_or_iff)
  ultimately show "\<not> core_pmu_firing (p AND NOT (PMCR0_IMODE_MASK OR PMCR0_IACT))"
    unfolding core_pmu_firing_def by metis
  have "bit UPMCR0_IMODE_FIQ 18"
    by (simp add: UPMCR0_IMODE_FIQ_def)
  moreover have "\<not> bit ((u AND NOT UPMCR0_IMODE_MASK) AND UPMCR0_IMODE_MASK) 18"
    by (auto simp: bit_and_iff bit_not_iff bit_or_iff)
  ultimately show "\<not> uncore_pmu_firing (u AND NOT UPMCR0_IMODE_MASK) m"
    unfolding uncore_pmu_firing_def by metis
qed

section \<open>Claims\<close>

text \<open>The writes that quieten the given sources.\<close>

definition quiet_writes :: "('d \<times> io_access list) aic_io \<Rightarrow> fiq_state \<Rightarrow> u32 \<Rightarrow> ('d \<times> io_access list) fiq \<Rightarrow> io_access list" where
  "quiet_writes io st sources s = drop (length (io_trace s)) (io_trace (snd (quiesce io st sources s :: (interrupt_error + unit) \<times> _)))"

lemma capture_returns: "\<exists>st s1. capture (traced_io io) s = (Inr st, s1) \<and> (fs_el2 st \<noteq> None \<longleftrightarrow> is_vhe_enabled io)"
  by (simp add: capture_def read_local_def read_timer_state_def read_pmu_state_def read_exception_state_def read_el2_def
      io_simps Let_def try_bind_apply)

lemma source_bits:
  "sources AND SOURCE_FAST_IPI \<noteq> 0 \<longleftrightarrow> bit sources 4"
  "sources AND SOURCE_CORE_PMU \<noteq> 0 \<longleftrightarrow> bit sources 5"
  "sources AND SOURCE_UNCORE_PMU \<noteq> 0 \<longleftrightarrow> bit sources 6"
  "sources AND (SOURCE_GUEST_PHYSICAL_TIMER OR SOURCE_GUEST_VIRTUAL_TIMER) \<noteq> 0 \<longleftrightarrow> bit sources 2 \<or> bit sources 3"
proof -
  have flag: "n < 32 \<Longrightarrow> (sources AND push_bit n 1 \<noteq> 0) = bit sources n" for n
    by (rule and_flag_iff) simp
  show "sources AND SOURCE_FAST_IPI \<noteq> 0 \<longleftrightarrow> bit sources 4" "sources AND SOURCE_CORE_PMU \<noteq> 0 \<longleftrightarrow> bit sources 5"
    "sources AND SOURCE_UNCORE_PMU \<noteq> 0 \<longleftrightarrow> bit sources 6"
    unfolding source_defs by (rule flag, simp)+
  show "sources AND (SOURCE_GUEST_PHYSICAL_TIMER OR SOURCE_GUEST_VIRTUAL_TIMER) \<noteq> 0 \<longleftrightarrow> bit sources 2 \<or> bit sources 3"
    unfolding source_defs bit.conj_disj_distrib or_eq_0_iff using flag [of 2] flag [of 3] by simp
qed

definition quiet_state :: "fiq_state \<Rightarrow> fiq_state" where
  "quiet_state st =
     (let p = pending_sources st; l = fs_local st
      in st\<lparr>fs_local := l\<lparr>
             fast_ipi_status := (if bit p 4 then fast_ipi_status l AND NOT 1 else fast_ipi_status l),
             pmcr0 := (if bit p 5 then pmcr0 l AND NOT (PMCR0_IMODE_MASK OR PMCR0_IACT) else pmcr0 l),
             upmcr0 := (if bit p 6 then upmcr0 l AND NOT UPMCR0_IMODE_MASK else upmcr0 l)\<rparr>,
           fs_el2 := (if bit p 2 \<or> bit p 3
             then map_option (\<lambda>e. e\<lparr>guest_cntp_ctl := guest_cntp_ctl e OR 2, guest_cntv_ctl := guest_cntv_ctl e OR 2\<rparr>) (fs_el2 st)
             else fs_el2 st)\<rparr>)"

lemma clear_one: "(x AND -2) AND 1 = (0 :: u64)"
  by (simp add: and.assoc)

lemma quiet_state_pending:
  "pending_sources (quiet_state st) = pending_sources st AND (SOURCE_PHYSICAL_TIMER OR SOURCE_VIRTUAL_TIMER)"
proof (rule bit_word_eqI)
  fix n
  assume "n < LENGTH(32)"
  have three: "bit (SOURCE_PHYSICAL_TIMER OR SOURCE_VIRTUAL_TIMER) n \<longleftrightarrow> n = 0 \<or> n = 1"
    unfolding source_defs bit_or_iff using bit_flag [of 0 n] bit_flag [of 1 n] by simp
  have "cntp_ctl (fs_local (quiet_state st)) = cntp_ctl (fs_local st)" "cntv_ctl (fs_local (quiet_state st)) = cntv_ctl (fs_local st)"
    "fs_el2 (quiet_state st) = None \<longleftrightarrow> fs_el2 st = None" "upmsr (fs_local (quiet_state st)) = upmsr (fs_local st)"
    by (simp_all add: quiet_state_def Let_def)
  moreover have "\<not> guest_firing guest_cntp_ctl (quiet_state st)" "\<not> guest_firing guest_cntv_ctl (quiet_state st)"
    using pending_bits [of st 2] pending_bits [of st 3] masked_timer
    by (auto simp: quiet_state_def Let_def guest_firing_def)
  moreover have "fast_ipi_status (fs_local (quiet_state st)) AND 1 = 0"
    using pending_bits [of st 4] by (simp add: quiet_state_def Let_def clear_one)
  moreover have "\<not> core_pmu_firing (pmcr0 (fs_local (quiet_state st)))"
    using pending_bits [of st 5] quiet_pmus(1) by (simp add: quiet_state_def Let_def)
  moreover have "\<not> uncore_pmu_firing (upmcr0 (fs_local (quiet_state st))) (upmsr (fs_local (quiet_state st)))"
    using pending_bits [of st 6] quiet_pmus(2) by (simp add: quiet_state_def Let_def)
  ultimately show "bit (pending_sources (quiet_state st)) n \<longleftrightarrow>
      bit (pending_sources st AND (SOURCE_PHYSICAL_TIMER OR SOURCE_VIRTUAL_TIMER)) n"
    unfolding bit_and_iff three pending_bits [of "quiet_state st"] pending_bits [of st] by auto
qed

lemma quiesce_runs:
  assumes "fs_el2 st = None \<Longrightarrow> \<not> bit p 2 \<and> \<not> bit p 3" and "p = pending_sources st"
  shows "\<exists>s2 acc. quiesce (traced_io io) st p s = (Inr (), s2) \<and> io_trace s2 = io_trace s @ acc
    \<and> foldl fiq_effect st acc = quiet_state st
    \<and> (\<forall>v. SysWrite CNTP_CTL v \<notin> set acc \<and> SysWrite CNTV_CTL v \<notin> set acc) \<and> (acc = [] \<longleftrightarrow> p = 0)"
proof -
  have zero: "p = 0 \<Longrightarrow> \<not> bit p n" for n
    by simp
  show ?thesis
    using assms zero
    unfolding quiesce_def source_bits
    by (cases "fs_el2 st"; cases "bit p 2 \<or> bit p 3"; cases "bit p 4"; cases "bit p 5"; cases "bit p 6"; cases "p = 0")
      (simp_all add: io_simps Let_def mask_guest_timers_def clear_fast_ipi_def quiet_state_def)
qed

text \<open>
  C32. A claim of the fast interrupts of a processor reads its sources once and then quietens exactly
  what it found: with its writes done no source is pending any more but a host timer, which is left to
  the timer path (neither timer is written). It asks for rescheduling if a fast inter-processor
  interrupt was among the sources, reports other sources as handled, and writes nothing when there is
  none.
\<close>

theorem claim_quiesces:
  "\<exists>st s1 s2 acc.
     (capture (traced_io io) :: (_, fiq_state) aic_op) s = (Inr st, s1)
     \<and> (claim_pending (traced_io io) cpu :: (_, interrupt_claim) aic_op) s =
        (Inr (if bit (pending_sources st) 4 then Reschedule else if pending_sources st = 0 then NotMine else Handled), s2)
     \<and> io_trace s2 = io_trace s1 @ acc
     \<and> pending_sources (foldl fiq_effect st acc) = pending_sources st AND (SOURCE_PHYSICAL_TIMER OR SOURCE_VIRTUAL_TIMER)
     \<and> (\<forall>v. SysWrite CNTP_CTL v \<notin> set acc \<and> SysWrite CNTV_CTL v \<notin> set acc)
     \<and> (acc = [] \<longleftrightarrow> pending_sources st = 0)"
proof -
  obtain st s1 where c: "(capture (traced_io io) :: (_, fiq_state) aic_op) s = (Inr st, s1)"
    using capture_returns by blast
  let ?p = "pending_sources st"
  have none: "fs_el2 st = None \<Longrightarrow> \<not> bit ?p 2 \<and> \<not> bit ?p 3"
    by (simp add: pending_bits guest_firing_def)
  obtain s2 acc where q: "(quiesce (traced_io io) st ?p :: (_, unit) aic_op) s1 = (Inr (), s2)" "io_trace s2 = io_trace s1 @ acc"
      "foldl fiq_effect st acc = quiet_state st" "\<forall>v. SysWrite CNTP_CTL v \<notin> set acc \<and> SysWrite CNTV_CTL v \<notin> set acc"
      "acc = [] \<longleftrightarrow> ?p = 0"
    using quiesce_runs [OF none refl, of io s1] by blast
  obtain s3 where "(report_once cpu :: (_, unit) aic_op) s2 = (Inr (), s3)" "io_trace s3 = io_trace s2"
    by (cases "64 \<le> unat cpu") (simp_all add: report_once_def)
  then have "(claim_pending (traced_io io) cpu :: (_, interrupt_claim) aic_op) s =
      (Inr (if bit ?p 4 then Reschedule else if ?p = 0 then NotMine else Handled), s3)"
    using c q(1) by (simp add: claim_pending_def source_bits)
  with c q \<open>io_trace s3 = io_trace s2\<close> quiet_state_pending show ?thesis
    by (intro exI [of _ st] exI [of _ s1] exI [of _ s3] exI [of _ acc]) simp
qed

section \<open>Fast inter-processor interrupts\<close>

text \<open>The processor a write to a request register addresses: the local register takes a processor of
  the sender's cluster, the global one a processor and its cluster.\<close>

fun addressed :: "u64 \<Rightarrow> io_access \<Rightarrow> (u64 \<times> u64) option" where
  "addressed sender (SysWrite IPI_RR_LOCAL v) = Some (drop_bit 8 sender AND 0xff, v AND 0xff)"
| "addressed sender (SysWrite IPI_RR_GLOBAL v) = Some (drop_bit 16 v AND 0xff, v AND 0xff)"
| "addressed sender _ = None"

lemma request_fields:
  "(t AND 0xff OR push_bit 16 (c AND 0xff)) AND 0xff = t AND (0xff :: u64)"
  "drop_bit 16 (t AND 0xff OR push_bit 16 (c AND 0xff)) AND 0xff = c AND (0xff :: u64)"
proof -
  have ff: "x AND 0xff = take_bit 8 x" for x :: u64
    by (simp add: take_bit_eq_mask mask_eq_exp_minus_1)
  show "(t AND 0xff OR push_bit 16 (c AND 0xff)) AND 0xff = t AND (0xff :: u64)"
    "drop_bit 16 (t AND 0xff OR push_bit 16 (c AND 0xff)) AND 0xff = c AND (0xff :: u64)"
    unfolding ff by (auto intro!: bit_word_eqI simp: bit_simps)
qed

lemma request_addressed:
  "\<exists>s' w. send_fast_ipi_registers (traced_io io) sender target s = (Inr (), s')
    \<and> io_trace s' = io_trace s @ [Barrier DSB_SY, w, Barrier ISB]
    \<and> addressed sender w = Some (drop_bit 8 target AND 0xff, target AND 0xff)"
  by (simp add: send_fast_ipi_registers_def fast_ipi_request_def Let_def io_simps request_fields del: push_bit_and drop_bit_or)

text \<open>The identity a processor had when it was prepared stays recorded until it is prepared again.\<close>

definition recorded :: "u32 \<Rightarrow> u64 \<Rightarrow> 'd fiq \<Rightarrow> bool" where
  "recorded c m s \<longleftrightarrow> unat c < length (cpu_mpidrs s) \<and> cpu_mpidrs s ! unat c = m \<and> bit (cpu_mpidr_valid s) (unat c)"

lemma keeps_recordedI:
  "(\<And>s. cpu_mpidrs (snd (m s)) = cpu_mpidrs s \<and> cpu_mpidr_valid (snd (m s)) = cpu_mpidr_valid s) \<Longrightarrow>
    preserves (recorded c v) m"
  by (rule preservesI) (simp add: recorded_def)

named_theorems record_keeps \<open>operations that leave the recorded identities alone\<close>

lemma recorded_sys [record_keeps]:
  "preserves (recorded c v) (mrs io r)" "preserves (recorded c v) (msr io r x)" "preserves (recorded c v) (barrier io b)"
  by (rule keeps_recordedI; simp add: mrs_def msr_def barrier_def split: prod.split)+

lemma recorded_aic [record_keeps]:
  "preserves (recorded c v) (aic_read io a)" "preserves (recorded c v) (aic_write io a x)"
  by (rule keeps_recordedI; simp add: aic_read_def aic_write_def split: prod.split)+

lemma recorded_capture [record_keeps]: "preserves (recorded c v) (capture io)"
  unfolding capture_def read_local_def read_timer_state_def read_pmu_state_def read_exception_state_def read_el2_def
  by (intro preserves_intros record_keeps)

lemma recorded_rest [record_keeps]:
  "preserves (recorded c v) (send_fast_ipi io t)"
  "preserves (recorded c v) (claim_pending io cpu)"
  "preserves (recorded c v) (validate_cpu_id A cpu)"
  "preserves (recorded c v) (validate_interrupt_id A j)"
  unfolding send_fast_ipi_def send_fast_ipi_registers_def claim_pending_def quiesce_def report_once_def clear_fast_ipi_def
    mask_guest_timers_def validate_cpu_id_def validate_interrupt_id_def
  by (intro preserves_intros record_keeps; simp add: recorded_def)+

lemma recorded_prepare [record_keeps]:
  assumes "unat cpu \<noteq> unat c"
  shows "preserves (recorded c v) (prepare_cpu io cpu)"
proof -
  have "preserves (recorded c v) (store_mpidr io cpu)"
    unfolding store_mpidr_def
    by (intro preserves_intros record_keeps) (use assms in \<open>auto simp: recorded_def bit_simps\<close>)
  then show ?thesis
    unfolding prepare_cpu_def clear_fast_ipi_def mask_guest_timers_def disable_vgic_maintenance_def
    by (intro preserves_intros record_keeps)
qed

lemma recorded_call:
  assumes "call \<noteq> CallInitForCpu c"
  shows "preserves (recorded c v) (aic_do io A call)"
proof (cases call)
  case (CallInitForCpu cpu)
  with assms have "unat cpu \<noteq> unat c"
    by (auto simp: word_unat_eq_iff)
  then show ?thesis
    unfolding CallInitForCpu aic_do.simps quiet_result_def init_for_cpu_def mask_ipis_def unmask_ipis_def ack_ipi_def
    by (intro preserves_intros record_keeps)
next
  case CallInit
  show ?thesis
    unfolding CallInit aic_do.simps quiet_result_def aic_init_def init_hw_def Let_def whoami_def mask_ipis_def unmask_ipis_def
    by (intro preserves_intros record_keeps)
qed (simp only: aic_do.simps quiet_result_def enable_interrupt_def disable_interrupt_def complete_interrupt_def mask_irq_def
    unmask_irq_def eoi_irq_def claim_pending_irq_def claim_event_def claim_ipi_def claim_fast_interrupt_def send_ipi_def
    send_ipi_self_def send_ipi_to_cpu_def whoami_def unmask_line_def Let_def, intro preserves_intros record_keeps)+

lemma recorded_calls:
  assumes "recorded c v s" and "CallInitForCpu c \<notin> set cs" and "aic_calls io A cs s = (h, s')"
  shows "recorded c v s'"
  using assms
proof (induction cs arbitrary: s h)
  case (Cons call cs)
  obtain r s1 h1 where "aic_do io A call s = (r, s1)" "aic_calls io A cs s1 = (h1, s')"
    using Cons.prems(3) by (auto split: prod.splits)
  moreover have "call \<noteq> CallInitForCpu c"
    using Cons.prems(2) by auto
  ultimately have "recorded c v s1"
    using preservesD [OF recorded_call Cons.prems(1)] by blast
  with \<open>aic_calls io A cs s1 = (h1, s')\<close> show ?case
    using Cons.IH [of s1 h1] Cons.prems(2) by simp
qed simp

lemma prepared_recorded:
  assumes "c < max_cpus A" and "max_cpus A \<le> 31" and "length (cpu_mpidrs s) = 32"
    and "aic_do io A (CallInitForCpu c) s = (r, s')"
  shows "recorded c (fst (sys_read io MPIDR_EL1 (fq_hw s))) s'"
proof -
  let ?m = "fst (sys_read io MPIDR_EL1 (fq_hw s))"
  have c: "unat c < 32"
    using assms(1,2) by (simp add: word_less_nat_alt word_le_nat_alt)
  have "recorded c ?m (snd (store_mpidr io c s :: (interrupt_error + unit) \<times> _))"
    using c assms(3) by (cases "sys_read io MPIDR_EL1 (fq_hw s)")
      (simp add: store_mpidr_def mrs_def recorded_def bit_or_iff bit_exp_iff)
  then have "recorded c ?m (snd (prepare_cpu io c s :: (interrupt_error + unit) \<times> _))"
    unfolding prepare_cpu_def clear_fast_ipi_def mask_guest_timers_def disable_vgic_maintenance_def
    by (rule bind_keepsI [where P = "recorded c ?m"]) (intro preserves_intros record_keeps)
  then have "recorded c ?m (snd (try_bind (prepare_cpu io c) (\<lambda>_. try_bind (ack_ipi io A)
      (\<lambda>_. if fast_ipi A then mask_ipis io A else unmask_ipis io A)) s))"
    unfolding ack_ipi_def mask_ipis_def unmask_ipis_def
    by (rule bind_keepsI [where P = "recorded c ?m"]) (intro preserves_intros record_keeps)
  then have "recorded c ?m (snd (init_for_cpu io A c s))"
    using assms(1) by (simp add: init_for_cpu_def validate_cpu_id_def not_le)
  then have "recorded c ?m (snd (quiet_result (init_for_cpu io A c) s))"
    unfolding quiet_result_def
    by (rule bind_keepsI [where P = "recorded c ?m"]) (intro preserves_intros)
  then show ?thesis
    using assms(4) by simp
qed

text \<open>
  C33. A rescheduling request over fast interrupts reaches the processor it is meant for: after a
  processor has been prepared, and whatever calls follow that do not prepare it again, a request for
  it succeeds with exactly one write to a request register, between the barriers that order it, and
  that write addresses the processor and cluster that the processor itself had read as its identity,
  seen from whichever processor sends the request.
\<close>

theorem fast_ipi_reaches_target:
  assumes "fast_ipi A" and "c < max_cpus A" and "max_cpus A \<le> 31"
    and "length (cpu_mpidrs s) = 32" and "CallInitForCpu c \<notin> set cs"
    and "aic_calls (traced_io io) A (CallInitForCpu c # cs) s = (h, t)"
  shows "\<exists>t' sender w. send_ipi (traced_io io) A c SoftwareInterrupt t = (Inr (), t')
    \<and> io_trace t' = io_trace t @ [SysRead MPIDR_EL1 sender, Barrier DSB_SY, w, Barrier ISB]
    \<and> addressed sender w = (let m = fst (sys_read (traced_io io) MPIDR_EL1 (fq_hw s)) in Some (drop_bit 8 m AND 0xff, m AND 0xff))"
proof -
  let ?m = "fst (sys_read (traced_io io) MPIDR_EL1 (fq_hw s))"
  obtain r s1 h1 where "aic_do (traced_io io) A (CallInitForCpu c) s = (r, s1)" and rest: "aic_calls (traced_io io) A cs s1 = (h1, t)"
    using assms(6) by (auto split: prod.splits)
  then have "recorded c ?m s1"
    by (intro prepared_recorded [OF assms(2-4)])
  then have rec: "recorded c ?m t"
    using assms(5) rest by (rule recorded_calls)
  define q where "q = sys_read io MPIDR_EL1 (fst (fq_hw t))"
  define t1 where "t1 = t\<lparr>fq_hw := (snd q, io_trace t @ [SysRead MPIDR_EL1 (fst q)])\<rparr>"
  obtain t' w where sent: "send_fast_ipi_registers (traced_io io) (fst q) ?m t1 = (Inr () :: interrupt_error + unit, t')"
      "io_trace t' = io_trace t1 @ [Barrier DSB_SY, w, Barrier ISB]" "addressed (fst q) w = Some (drop_bit 8 ?m AND 0xff, ?m AND 0xff)"
    using request_addressed by blast
  have c: "unat c < 32"
    using assms(2,3) by (simp add: word_less_nat_alt word_le_nat_alt)
  have "cpu_mpidr_valid t AND push_bit (unat c) 1 \<noteq> 0"
    using rec c and_flag_iff [of "unat c" "cpu_mpidr_valid t"] by (simp add: recorded_def)
  then have "send_fast_ipi (traced_io io) c t = (Inr True :: interrupt_error + bool, t')"
    using c rec sent(1) by (simp add: send_fast_ipi_def io_simps Let_def q_def t1_def recorded_def)
  then have "send_ipi (traced_io io) A c SoftwareInterrupt t = (Inr (), t')"
    using assms(1,2) by (simp add: send_ipi_def validate_cpu_id_def send_ipi_to_cpu_def not_le)
  moreover have "io_trace t' = io_trace t @ [SysRead MPIDR_EL1 (fst q), Barrier DSB_SY, w, Barrier ISB]"
    using sent(2) by (simp add: t1_def)
  ultimately show ?thesis
    using sent(3) by (auto simp: Let_def)
qed

text \<open>Processor 3 is prepared, on a machine where every processor reads the identity of cluster 1, core 3.\<close>

theorem fast_ipi_reaches_target_witness:
  "\<exists>t' sender w. send_ipi (traced_io (aic_example_io\<lparr>sys_read := \<lambda>_. Pair 0x80000103\<rparr>)) (aic_example\<lparr>fast_ipi := True\<rparr>) 3 SoftwareInterrupt
      (snd (aic_calls (traced_io (aic_example_io\<lparr>sys_read := \<lambda>_. Pair 0x80000103\<rparr>)) (aic_example\<lparr>fast_ipi := True\<rparr>)
        [CallInitForCpu 3, CallEnable 5 1] (fiq_statics ((), [])))) = (Inr (), t')
    \<and> addressed sender w = Some (1, 3) \<and> w \<in> set (io_trace t')"
proof -
  let ?io = "aic_example_io\<lparr>sys_read := \<lambda>_. Pair 0x80000103\<rparr>" and ?A = "aic_example\<lparr>fast_ipi := True\<rparr>"
  obtain h t where run: "aic_calls (traced_io ?io) ?A [CallInitForCpu 3, CallEnable 5 1] (fiq_statics ((), [])) = (h, t)"
    by (cases "aic_calls (traced_io ?io) ?A [CallInitForCpu 3, CallEnable 5 1] (fiq_statics ((), []))")
  have "fst (sys_read (traced_io ?io) MPIDR_EL1 (fq_hw (fiq_statics ((), [])))) = 0x80000103"
    by (simp add: traced_io_def fiq_statics_def)
  then show ?thesis
    using fast_ipi_reaches_target [OF _ _ _ _ _ run] unfolding run snd_conv
    by (force simp: aic_example_def fiq_statics_def word_less_nat_alt word_le_nat_alt)
qed

end
