(* ===== verification/AvdStream.thy ===== *)
theory AvdStream
  imports LeBytes
begin

text \<open>
  What the two instruction stream builders of the video decoder share: a bounded buffer of command
  words, its little-endian copy into the instruction FIFO, the DMA range, and the size helpers
  (\<^verbatim>\<open>drivers/video/apple-avd/src\<close>, \<^verbatim>\<open>common.rs\<close>, \<^verbatim>\<open>h264.rs\<close> and \<^verbatim>\<open>vp9.rs\<close>).
\<close>

record dma_range =
  dr_dma_addr :: u64
  dr_len :: nat

record istream =
  is_words :: "u32 list"
  is_overflowed :: bool

definition push_word :: "nat \<Rightarrow> u32 \<Rightarrow> istream \<Rightarrow> istream" where
  "push_word cap v s =
     (if length (is_words s) < cap then s\<lparr>is_words := is_words s @ [v]\<rparr> else s\<lparr>is_overflowed := True\<rparr>)"

text \<open>A sequence of \<open>push\<close> calls.\<close>

definition push_words :: "nat \<Rightarrow> u32 list \<Rightarrow> istream \<Rightarrow> istream" where
  "push_words cap ws s = fold (push_word cap) ws s"

definition write_le_words :: "'e \<Rightarrow> istream \<Rightarrow> bytes \<Rightarrow> ('e + nat) \<times> bytes" where
  "write_le_words too_large s dst =
     (if is_overflowed s then (Inl too_large, dst)
      else if length dst < 4 * length (is_words s) then (Inl too_large, dst)
      else (Inr (4 * length (is_words s)),
            fold (\<lambda>i d. take (i * 4) d @ le_bytes 4 (is_words s ! i) @ drop (i * 4 + 4) d) [0..<length (is_words s)] dst))"

lemma push_words_fit:
  "length (is_words s) + length ws \<le> cap \<Longrightarrow> push_words cap ws s = s\<lparr>is_words := is_words s @ ws\<rparr>"
proof (induction ws arbitrary: s)
  case (Cons w ws)
  then show ?case
    by (simp add: push_words_def push_word_def)
qed (simp add: push_words_def)

lemma push_words_bounded:
  "length (is_words s) \<le> cap \<Longrightarrow> length (is_words (push_words cap ws s)) \<le> cap"
  by (induction ws arbitrary: s) (auto simp: push_words_def push_word_def)

text \<open>The copy puts every word where its index says, and leaves the rest of the destination.\<close>

lemma write_le_loop:
  fixes ws :: "u32 list"
  assumes "n \<le> length ws" and "4 * length ws \<le> length dst"
  shows "fold (\<lambda>i d. take (i * 4) d @ le_bytes 4 (ws ! i) @ drop (i * 4 + 4) d) [0..<n] dst =
    concat (map (le_bytes 4) (take n ws)) @ drop (4 * n) dst"
  using assms(1)
proof (induction n)
  case (Suc n)
  have len: "length (concat (map (le_bytes 4) (take n ws))) = 4 * n" if "n \<le> length ws" for n
  proof -
    have "length (concat (map (le_bytes 4) us)) = 4 * length us" for us :: "u32 list"
      by (induction us) auto
    from this [of "take n ws"] that show ?thesis
      by simp
  qed
  have "take (Suc n) ws = take n ws @ [ws ! n]"
    using Suc.prems by (simp add: take_Suc_conv_app_nth)
  then show ?case
    using Suc len [of n] by (simp add: mult.commute add.commute)
qed simp

lemma write_le_words_Ok:
  assumes "\<not> is_overflowed s" and "4 * length (is_words s) \<le> length dst"
  shows "write_le_words e s dst =
    (Inr (4 * length (is_words s)), concat (map (le_bytes 4) (is_words s)) @ drop (4 * length (is_words s)) dst)"
  using assms by (simp add: write_le_words_def write_le_loop)

text \<open>The word that the decoder fetches at an index of the FIFO.\<close>

lemma fifo_word:
  "i < length ws \<Longrightarrow> le_at (concat (map (le_bytes 4) ws) @ rest) (4 * i) 4 = (ws ! i :: u32)"
proof (induction ws arbitrary: i)
  case (Cons w ws)
  show ?case
  proof (cases i)
    case 0
    then show ?thesis
      using le_at_here [of 4 w] by simp
  next
    case (Suc j)
    then show ?thesis
      using Cons by (simp add: le_at_append_drop)
  qed
qed simp

end
