(* ===== verification/AvdH264.thy ===== *)
theory AvdH264
  imports AvdStream
begin

text \<open>
  The H.264 front end of the video decoder (\<^verbatim>\<open>drivers/video/apple-avd/src/h264.rs\<close>): stream and slice
  parameters, reference lists, and the instruction stream of a frame. The parameter structures that
  userspace fills are the kernel's; the records hold the fields the front end reads. Their flag bits
  are parameters. Arithmetic wraps, as it does in a release build.
\<close>

section \<open>Parameters from userspace\<close>

record h264_abi =
  SPS_FRAME_MBS_ONLY :: u32
  SPS_FRAME_CROPPING :: u32
  SPS_DIRECT_8X8_INFERENCE :: u32
  PPS_ENTROPY_CODING_MODE :: u32
  PPS_TRANSFORM_8X8_MODE :: u32
  PPS_CONSTRAINED_INTRA_PRED :: u32
  PPS_WEIGHTED_PRED :: u32
  DECODE_PARAM_IDR :: u32
  SLICE_DIRECT_SPATIAL_MV_PRED :: u32
  SLICE_REF_LISTS_PRESENT :: u32
  DPB_VALID :: u32
  DPB_LONG_TERM :: u32
  PIXEL_FORMAT_NV12 :: u32

record h264_sps =
  sps_chroma_format_idc :: u8
  sps_bit_depth_luma_minus8 :: u8
  sps_bit_depth_chroma_minus8 :: u8
  sps_flags :: u32
  sps_pic_width_in_mbs_minus1 :: u16
  sps_pic_height_in_map_units_minus1 :: u16
  sps_frame_crop_left :: u32
  sps_frame_crop_right :: u32
  sps_frame_crop_top :: u32
  sps_frame_crop_bottom :: u32
  sps_seq_parameter_set_id :: u8
  sps_profile_idc :: u8
  sps_level_idc :: u8
  sps_log2_max_frame_num_minus4 :: u8
  sps_pic_order_cnt_type :: u8
  sps_max_num_ref_frames :: u8

record h264_pps =
  pps_flags :: u32
  pps_weighted_bipred_idc :: u8
  pps_pic_init_qp_minus26 :: "8 word"
  pps_chroma_qp_index_offset :: "8 word"
  pps_second_chroma_qp_index_offset :: "8 word"

record dpb_entry =
  de_flags :: u32
  de_reference_ts :: u64
  de_frame_num :: u16
  de_pic_num :: "32 word"
  de_top_field_order_cnt :: "32 word"

record h264_slice_params =
  sl_nal_offset :: u32
  sl_nal_len :: u32
  sl_header_bit_size :: u32
  sl_slice_type :: u8
  sl_pic_parameter_set_id :: u8
  sl_first_mb_in_slice :: u32
  sl_cabac_init_idc :: u8
  sl_slice_qp_delta :: "8 word"
  sl_disable_deblocking_filter_idc :: u8
  sl_alpha_c0_offset_div2 :: "8 word"
  sl_beta_offset_div2 :: "8 word"
  sl_num_ref_idx_l0_active_minus1 :: u8
  sl_num_ref_idx_l1_active_minus1 :: u8
  sl_ref_pic_list0 :: "u8 list"
  sl_ref_pic_list1 :: "u8 list"
  sl_flags :: u32

record h264_decode_params =
  dp_nal_ref_idc :: u16
  dp_flags :: u32
  dp_top_field_order_cnt :: "32 word"
  dp_frame_num :: u16
  dp_dpb :: "dpb_entry list"

record weight_factors =
  wf_luma_weight :: "u16 list"
  wf_luma_offset :: "u16 list"
  wf_chroma_weight :: "(u16 \<times> u16) list"
  wf_chroma_offset :: "(u16 \<times> u16) list"

record pred_weights =
  pw_luma_log2_weight_denom :: u16
  pw_chroma_log2_weight_denom :: u16
  pw_weight_factors :: "weight_factors \<times> weight_factors"

record h264_params =
  hp_sps :: h264_sps
  hp_pps :: h264_pps
  hp_slice :: h264_slice_params
  hp_decode :: h264_decode_params
  hp_weights :: pred_weights

definition has_flag :: "u32 \<Rightarrow> u32 \<Rightarrow> bool" where
  "has_flag flags f \<longleftrightarrow> flags AND f \<noteq> 0"

datatype h264_error = InvalidDimensions | UnsupportedSps | MalformedSlice | InvalidSliceRange | InstructionStreamTooLarge

section \<open>Layout and stream parameters\<close>

definition h264_align_up :: "'a::len word \<Rightarrow> 'a word \<Rightarrow> 'a word" where
  "h264_align_up v align = (v + align - 1) AND NOT (align - 1)"

record frame_layout =
  fl_width :: u32
  fl_height :: u32
  fl_y_stride :: u32
  fl_uv_stride :: u32
  fl_pixel_format :: u32

definition output_len :: "frame_layout \<Rightarrow> nat" where
  "output_len l = unat (fl_y_stride l) * unat (fl_height l) + unat (fl_uv_stride l) * (unat (fl_height l) div 2)"

text \<open>\<open>u32::next_power_of_two\<close>; past the largest power it is zero in a release build.\<close>

definition next_power_of_two :: "u32 \<Rightarrow> u32" where
  "next_power_of_two v = (case find (\<lambda>n. unat v \<le> 2 ^ n) [0..<32] of Some n \<Rightarrow> 2 ^ n | None \<Rightarrow> 0)"

definition rvra_offsets :: "frame_layout \<Rightarrow> u32 list" where
  "rvra_offsets l =
     (let height = h264_align_up (fl_height l) 32;
          size0 = fl_width l * height + fl_width l * height div 4;
          size1 = max (next_power_of_two (fl_width l) * next_power_of_two (fl_height l) div 32) 0x100;
          size2 = size0 div 2
      in [size0, 0, size0 + size1 + size2, size0 + size1])"

definition rvra_len :: "frame_layout \<Rightarrow> u64" where
  "rvra_len l =
     h264_align_up (ucast (rvra_offsets l ! 2)) 0x4000 +
     (if fl_width l < 1000 then 0 else if fl_width l < 1800 then 2 * 0x4000
      else if fl_width l < 3800 then 3 * 0x4000 else 9 * 0x4000)"

definition sps_scratch_len :: "frame_layout \<Rightarrow> nat" where
  "sps_scratch_len l = (unat (fl_width l - 1) * unat (fl_height l - 1) div 0x10000 + 2) * 0x4000"

record h264_stream =
  hs_sps_id :: u32
  hs_profile_idc :: u8
  hs_level_idc :: u8
  hs_chroma_format_idc :: u32
  hs_bit_depth_luma_minus8 :: u32
  hs_bit_depth_chroma_minus8 :: u32
  hs_direct_8x8_inference :: bool
  hs_width :: u32
  hs_height :: u32
  hs_crop_left :: u32
  hs_crop_top :: u32
  hs_coded_width :: u32
  hs_coded_height :: u32
  hs_log2_max_frame_num_minus4 :: u32
  hs_pic_order_cnt_type :: u32
  hs_max_num_ref_frames :: u32

definition from_stateless_sps :: "h264_abi \<Rightarrow> h264_sps \<Rightarrow> h264_error + h264_stream" where
  "from_stateless_sps K sps =
     (if sps_chroma_format_idc sps \<noteq> 1 \<or> sps_bit_depth_luma_minus8 sps \<noteq> 0 \<or> sps_bit_depth_chroma_minus8 sps \<noteq> 0
      then Inl UnsupportedSps
      else if \<not> has_flag (sps_flags sps) (SPS_FRAME_MBS_ONLY K) then Inl UnsupportedSps
      else let coded_width = (ucast (sps_pic_width_in_mbs_minus1 sps) + 1) * 16;
               coded_height = (ucast (sps_pic_height_in_map_units_minus1 sps) + 1) * 16;
               cropped = has_flag (sps_flags sps) (SPS_FRAME_CROPPING K);
               crop_left_px = (if cropped then sps_frame_crop_left sps else 0) * 2;
               crop_top_px = (if cropped then sps_frame_crop_top sps else 0) * 2;
               crop_x = crop_left_px + (if cropped then sps_frame_crop_right sps else 0) * 2;
               crop_y = crop_top_px + (if cropped then sps_frame_crop_bottom sps else 0) * 2
           in if coded_width \<le> crop_x \<or> coded_height \<le> crop_y then Inl InvalidDimensions
              else let width = coded_width - crop_x; height = coded_height - crop_y
                   in if width = 0 \<or> height = 0 \<or> 4096 < width \<or> 4096 < height then Inl InvalidDimensions
                      else Inr \<lparr>hs_sps_id = ucast (sps_seq_parameter_set_id sps), hs_profile_idc = sps_profile_idc sps,
                        hs_level_idc = sps_level_idc sps, hs_chroma_format_idc = ucast (sps_chroma_format_idc sps),
                        hs_bit_depth_luma_minus8 = ucast (sps_bit_depth_luma_minus8 sps),
                        hs_bit_depth_chroma_minus8 = ucast (sps_bit_depth_chroma_minus8 sps),
                        hs_direct_8x8_inference = has_flag (sps_flags sps) (SPS_DIRECT_8X8_INFERENCE K),
                        hs_width = width, hs_height = height, hs_crop_left = crop_left_px, hs_crop_top = crop_top_px,
                        hs_coded_width = coded_width, hs_coded_height = coded_height,
                        hs_log2_max_frame_num_minus4 = ucast (sps_log2_max_frame_num_minus4 sps),
                        hs_pic_order_cnt_type = ucast (sps_pic_order_cnt_type sps),
                        hs_max_num_ref_frames = ucast (sps_max_num_ref_frames sps)\<rparr>)"

definition nv12_layout :: "h264_abi \<Rightarrow> h264_stream \<Rightarrow> frame_layout" where
  "nv12_layout K st =
     (let y_stride = h264_align_up (hs_coded_width st) 64
      in \<lparr>fl_width = hs_coded_width st, fl_height = hs_coded_height st, fl_y_stride = y_stride,
          fl_uv_stride = y_stride, fl_pixel_format = PIXEL_FORMAT_NV12 K\<rparr>)"

record h264_picture =
  pic_entropy_coding_mode :: bool
  pic_transform_8x8_mode :: bool
  pic_constrained_intra_pred :: bool
  pic_weighted_bipred_idc :: u8
  pic_weighted_pred :: bool
  pic_init_qp_minus26 :: "8 word"
  pic_chroma_qp_index_offset :: "8 word"
  pic_second_chroma_qp_index_offset :: "8 word"

definition from_stateless_pps :: "h264_abi \<Rightarrow> h264_pps \<Rightarrow> h264_picture" where
  "from_stateless_pps K pps = \<lparr>
     pic_entropy_coding_mode = has_flag (pps_flags pps) (PPS_ENTROPY_CODING_MODE K),
     pic_transform_8x8_mode = has_flag (pps_flags pps) (PPS_TRANSFORM_8X8_MODE K),
     pic_constrained_intra_pred = has_flag (pps_flags pps) (PPS_CONSTRAINED_INTRA_PRED K),
     pic_weighted_bipred_idc = pps_weighted_bipred_idc pps,
     pic_weighted_pred = has_flag (pps_flags pps) (PPS_WEIGHTED_PRED K),
     pic_init_qp_minus26 = pps_pic_init_qp_minus26 pps,
     pic_chroma_qp_index_offset = pps_chroma_qp_index_offset pps,
     pic_second_chroma_qp_index_offset = pps_second_chroma_qp_index_offset pps\<rparr>"

section \<open>Slices\<close>

text \<open>The bytes of a header are skipped one at a time; the 3 after two zeros, which the bitstream
  escapes a start code with, is not counted.\<close>

function skip_header :: "bytes \<Rightarrow> nat \<Rightarrow> nat \<Rightarrow> u8 \<Rightarrow> nat \<Rightarrow> h264_error + nat" where
  "skip_header input header offset zero_count rbsp_read =
     (if rbsp_read < header
      then if length input \<le> offset then Inl InvalidSliceRange
           else (let byte = input ! offset
                 in if 2 \<le> zero_count \<and> byte = 3 then skip_header input header (Suc offset) 0 rbsp_read
                    else skip_header input header (Suc offset)
                      (if byte = 0 then (if zero_count = 0xff then 0xff else zero_count + 1) else 0) (Suc rbsp_read))
      else Inr offset)"
  by pat_completeness auto
termination
  by (relation "measure (\<lambda>(input, header, offset, _, _). length input - offset)") auto

declare skip_header.simps [simp del]

definition rbsp_header_bytes :: "nat \<Rightarrow> bool \<Rightarrow> nat" where
  "rbsp_header_bytes bits entropy_coding_mode = (if entropy_coding_mode then (bits + 7) div 8 else bits div 8)"

definition locate_slice_data :: "bytes \<Rightarrow> h264_slice_params \<Rightarrow> bool \<Rightarrow> h264_error + nat \<times> nat" where
  "locate_slice_data input sl entropy_coding_mode =
     (let nal_start = unat (sl_nal_offset sl); nal_len = unat (sl_nal_len sl); nal_end = nal_start + nal_len
      in if nal_len = 0 \<or> length input < nal_end then Inl InvalidSliceRange
         else case skip_header input (rbsp_header_bytes (unat (sl_header_bit_size sl)) entropy_coding_mode) (nal_start + 1) 0 0 of
             Inl e \<Rightarrow> Inl e
           | Inr offset \<Rightarrow> if nal_end < offset then Inl InvalidSliceRange else Inr (offset, nal_end - offset))"

datatype slice_kind = SliceI | SliceP | SliceB

record h264_slice =
  hl_nal_ref_idc :: u8
  hl_idr :: bool
  hl_kind :: slice_kind
  hl_slice_data_offset :: nat
  hl_slice_data_len :: nat
  hl_parsed_header_bits :: nat
  hl_params :: h264_slice_params

text \<open>The fields that are copied unchanged are read from \<open>hl_params\<close>.\<close>

definition slice_kind_of :: "u8 \<Rightarrow> slice_kind" where
  "slice_kind_of t =
     (case unat t mod 5 of 0 \<Rightarrow> SliceP | Suc k \<Rightarrow>
       if k = 0 then SliceB else if k = 2 then SliceP else SliceI)"

definition slice_from_stateless ::
  "h264_abi \<Rightarrow> h264_slice_params \<Rightarrow> h264_decode_params \<Rightarrow> h264_pps \<Rightarrow> bytes \<Rightarrow> h264_error + h264_slice" where
  "slice_from_stateless K sl dp pps input =
     (if 3 < dp_nal_ref_idc dp \<or> sl_nal_len sl = 0 then Inl MalformedSlice
      else case locate_slice_data input sl (has_flag (pps_flags pps) (PPS_ENTROPY_CODING_MODE K)) of
          Inl e \<Rightarrow> Inl e
        | Inr (offset, len) \<Rightarrow> Inr \<lparr>hl_nal_ref_idc = ucast (dp_nal_ref_idc dp),
            hl_idr = has_flag (dp_flags dp) (DECODE_PARAM_IDR K), hl_kind = slice_kind_of (sl_slice_type sl),
            hl_slice_data_offset = offset, hl_slice_data_len = len,
            hl_parsed_header_bits = unat (sl_header_bit_size sl), hl_params = sl\<rparr>)"

definition is_reference :: "h264_slice \<Rightarrow> bool" where
  "is_reference sl \<longleftrightarrow> hl_nal_ref_idc sl \<noteq> 0"

section \<open>Where the slice data starts\<close>

text \<open>
  The specification: the payload of a NAL unit without its emulation prevention bytes, as the
  standard defines it, read after \<open>z\<close> zero bytes.
\<close>

fun rbsp :: "nat \<Rightarrow> bytes \<Rightarrow> bytes" where
  "rbsp z [] = []"
| "rbsp z (b # bs) =
     (if 2 \<le> z \<and> b = 3 then rbsp 0 bs else b # rbsp (if b = 0 then Suc z else 0) bs)"

fun rbsp_zeros :: "nat \<Rightarrow> bytes \<Rightarrow> nat" where
  "rbsp_zeros z [] = z"
| "rbsp_zeros z (b # bs) =
     rbsp_zeros (if 2 \<le> z \<and> b = 3 then 0 else if b = 0 then Suc z else 0) bs"

lemma rbsp_append: "rbsp z (xs @ ys) = rbsp z xs @ rbsp (rbsp_zeros z xs) ys"
  by (induction xs arbitrary: z) auto

lemma length_rbsp: "length (rbsp z xs) \<le> length xs"
proof (induction xs arbitrary: z)
  case (Cons b xs)
  show ?case
    using le_SucI [OF Cons.IH [of 0]] Cons.IH [of "Suc z"] Cons.IH [of 0] by auto
qed simp

text \<open>The code saturates its count of zeros at 255, which it only compares with two.\<close>

abbreviation (input) zeros :: "nat \<Rightarrow> u8" where
  "zeros z \<equiv> of_nat (min z 255)"

lemma unat_zeros: "unat (zeros z) = min z 255"
  by (simp add: unat_of_nat)

lemma two_le_zeros: "2 \<le> zeros z \<longleftrightarrow> 2 \<le> z"
  by (simp add: word_le_nat_alt unat_zeros del: of_nat_min)

lemma zeros_max: "zeros z = 0xff \<longleftrightarrow> 255 \<le> z"
proof -
  have "zeros z = 0xff \<longleftrightarrow> unat (zeros z) = unat (0xff :: u8)"
    by (rule word_unat_eq_iff)
  also have "\<dots> \<longleftrightarrow> min z 255 = 255"
    unfolding unat_zeros by simp
  finally show ?thesis
    by (simp add: min_def)
qed

lemma zeros_Suc: "(if zeros z = 0xff then 0xff else zeros z + 1) = zeros (Suc z)"
  unfolding zeros_max by (auto simp: min_def)

text \<open>The loop as a function of the bytes that are left: how many it consumes.\<close>

fun skips :: "nat \<Rightarrow> nat \<Rightarrow> bytes \<Rightarrow> nat option" where
  "skips 0 z xs = Some 0"
| "skips (Suc m) z [] = None"
| "skips (Suc m) z (b # bs) = map_option Suc
     (if 2 \<le> z \<and> b = 3 then skips (Suc m) 0 bs else skips m (if b = 0 then Suc z else 0) bs)"

lemma skip_header_eq:
  "drop offset input = xs \<Longrightarrow> skip_header input n offset (zeros z) k =
     (case skips (n - k) z xs of None \<Rightarrow> Inl InvalidSliceRange | Some c \<Rightarrow> Inr (offset + c))"
proof (induction xs arbitrary: offset z k)
  case Nil
  then show ?case
    by (subst skip_header.simps) (cases "n - k"; simp)
next
  case (Cons b bs)
  then have in_range: "\<not> length input \<le> offset"
    by (metis drop_eq_Nil2 list.distinct(1))
  have here: "input ! offset = b"
    using Cons.prems by (rule nth_via_drop)
  have rest: "drop (Suc offset) input = bs"
    using Cons.prems by (metis drop_Suc list.sel(3) tl_drop)
  note IH = Cons.IH [OF rest]
  show ?case
  proof (cases "k < n")
    case False
    then show ?thesis
      by (subst skip_header.simps) simp
  next
    case True
    then have left: "n - k = Suc (n - Suc k)"
      by simp
    have flag: "zeros 0 = 0"
      by simp
    show ?thesis
      using IH [of 0 k] IH [of "Suc z" "Suc k"] IH [of 0 "Suc k"] True
      by (subst skip_header.simps)
        (simp add: in_range here left two_le_zeros zeros_Suc Let_def split: option.split del: of_nat_min of_nat_Suc)
  qed
qed

lemma skips_Some: "skips m z xs = Some c \<Longrightarrow> c \<le> length xs \<and> length (rbsp z (take c xs)) = m"
  by (induction m z xs arbitrary: c rule: skips.induct) (auto split: if_splits)

lemma skips_None: "skips m z xs = None \<Longrightarrow> length (rbsp z xs) < m"
  by (induction m z xs rule: skips.induct) (auto split: if_splits)

lemma skips_first: "skips m z xs = Some c \<Longrightarrow> d < c \<Longrightarrow> length (rbsp z (take d xs)) < m"
proof (induction m z xs arbitrary: c d rule: skips.induct)
  case (3 m z b bs)
  then show ?case
    by (cases d) (auto split: if_splits)
qed auto

lemma skips_take:
  assumes "skips m z xs = Some c" and "m \<le> length (rbsp z (take p xs))"
  shows "c \<le> p"
  using skips_first [OF assms(1), of p] assms(2) by linarith

lemma skips_Least:
  assumes "skips m z xs = Some c"
  shows "c = (LEAST d. length (rbsp z (take d xs)) = m)"
proof (rule Least_equality [symmetric])
  show "length (rbsp z (take c xs)) = m"
    using skips_Some [OF assms] by simp
  show "c \<le> d" if "length (rbsp z (take d xs)) = m" for d
    using skips_take [OF assms] that by simp
qed

lemma rbsp_take_mono: "length (rbsp z (take p xs)) \<le> length (rbsp z xs)"
proof -
  have "length (rbsp z (take p xs @ drop p xs)) \<ge> length (rbsp z (take p xs))"
    unfolding rbsp_append by simp
  then show ?thesis
    by simp
qed

text \<open>The bytes of the NAL unit after its type byte.\<close>

definition nal_payload :: "bytes \<Rightarrow> h264_slice_params \<Rightarrow> bytes" where
  "nal_payload input sl = take (unat (sl_nal_len sl) - 1) (drop (unat (sl_nal_offset sl) + 1) input)"

lemma skips_payload:
  assumes "length xs \<ge> p" and "m \<le> length (rbsp z (take p xs))"
  obtains c where "skips m z xs = Some c" and "c \<le> p"
    and "c = (LEAST d. length (rbsp z (take d (take p xs))) = m)"
proof -
  obtain c where c: "skips m z xs = Some c"
    using skips_None [of m z xs] rbsp_take_mono [of z p xs] assms(2) by fastforce
  have "c \<le> p"
    using skips_take [OF c assms(2)] .
  moreover have "c = (LEAST d. length (rbsp z (take d (take p xs))) = m)"
  proof (rule Least_equality [symmetric])
    show "length (rbsp z (take c (take p xs))) = m"
      using skips_Some [OF c] \<open>c \<le> p\<close> by (simp add: min_absorb1)
    show "c \<le> d" if "length (rbsp z (take d (take p xs))) = m" for d
    proof (cases "d \<le> p")
      case True
      then show ?thesis
        using skips_take [OF c, of d] that by (simp add: min_absorb1)
    qed (use \<open>c \<le> p\<close> in simp)
  qed
  ultimately show thesis
    using that c by blast
qed

text \<open>
  C29. The slice data that the decoder is pointed at starts where the slice header ends: it is the
  rest of the NAL unit after the shortest run of bytes that unescapes to as many bytes as the parsed
  header has, and a NAL unit that is empty, not inside the input, or shorter than its header is
  refused.
\<close>

lemma locate_slice_data_skips_header:
  "locate_slice_data input sl cabac =
     (let start = unat (sl_nal_offset sl); len = unat (sl_nal_len sl); payload = nal_payload input sl;
          n = rbsp_header_bytes (unat (sl_header_bit_size sl)) cabac;
          c = (LEAST c. length (rbsp 0 (take c payload)) = n)
      in if len = 0 \<or> length input < start + len \<or> length (rbsp 0 payload) < n then Inl InvalidSliceRange
         else Inr (start + 1 + c, len - 1 - c))"
proof (cases "unat (sl_nal_len sl) = 0 \<or> length input < unat (sl_nal_offset sl) + unat (sl_nal_len sl)")
  case True
  then show ?thesis
    by (auto simp: locate_slice_data_def Let_def)
next
  case False
  define start where "start = unat (sl_nal_offset sl)"
  define len where "len = unat (sl_nal_len sl)"
  define n where "n = rbsp_header_bytes (unat (sl_header_bit_size sl)) cabac"
  define xs where "xs = drop (start + 1) input"
  note names = start_def [symmetric] len_def [symmetric] n_def [symmetric]
  have bounds: "0 < len" "start + len \<le> length input" and long: "len - 1 \<le> length xs"
    using False by (auto simp: names xs_def)
  have loop: "skip_header input n (start + 1) 0 0 =
      (case skips n 0 xs of None \<Rightarrow> Inl InvalidSliceRange | Some c \<Rightarrow> Inr (start + 1 + c))"
    using skip_header_eq [of "start + 1" input xs n 0 0] by (simp add: xs_def)
  have payload: "nal_payload input sl = take (len - 1) xs"
    by (simp add: nal_payload_def names xs_def)
  have code: "locate_slice_data input sl cabac =
      (case skips n 0 xs of None \<Rightarrow> Inl InvalidSliceRange
       | Some c \<Rightarrow> if len - 1 < c then Inl InvalidSliceRange else Inr (start + 1 + c, len - 1 - c))"
    using bounds unfolding locate_slice_data_def Let_def names loop by (auto split: option.splits)
  show ?thesis
  proof (cases "length (rbsp 0 (take (len - 1) xs)) < n")
    case True
    have "\<not> (c \<le> len - 1)" if "skips n 0 xs = Some c" for c
    proof
      assume "c \<le> len - 1"
      then have "length (rbsp 0 (take c (take (len - 1) xs))) = n"
        using skips_Some [OF that] by (simp add: min_absorb1)
      then show False
        using rbsp_take_mono [of 0 c "take (len - 1) xs"] True by linarith
    qed
    then show ?thesis
      using True bounds unfolding code Let_def names payload by (auto split: option.splits)
  next
    case enough: False
    then obtain c where "skips n 0 xs = Some c" and "c \<le> len - 1"
      and "c = (LEAST d. length (rbsp 0 (take d (take (len - 1) xs))) = n)"
      using skips_payload [OF long, of n 0] by auto
    then show ?thesis
      using enough bounds unfolding code Let_def names payload by auto
  qed
qed

end
