(* ===== verification/AvdH264Stream.thy ===== *)
theory AvdH264Stream
  imports AvdH264
begin

text \<open>
  Reference lists and the instruction stream of an H.264 frame
  (\<^verbatim>\<open>drivers/video/apple-avd/src/h264.rs\<close>). Indexing past the end of a table, which panics in the
  code, is \<open>None\<close>.
\<close>

section \<open>Requests\<close>

record h264_workspace =
  hw_instruction_fifo_dma_addr :: u64
  hw_pps_tile_dma_addr :: u64
  hw_sps_tile_dma_addr :: u64
  hw_reference_dma_addr :: u64
  hw_reference_offsets :: "u32 list"

record reference_picture =
  rp_timestamp :: u64
  rp_reference_dma_addr :: u64
  rp_sps_tile_dma_addr :: u64
  rp_frame_num :: u16
  rp_pic_num :: "32 word"
  rp_top_field_order_cnt :: "32 word"
  rp_long_term :: bool

record h264_request =
  hr_session_id :: u64
  hr_frame_number :: u32
  hr_input :: dma_range
  hr_output :: dma_range
  hr_layout :: frame_layout
  hr_current_poc :: "32 word"
  hr_frame_num :: u16
  hr_flags :: u32
  hr_pps :: h264_picture
  hr_dpb :: "dpb_entry list"
  hr_pred_weights :: pred_weights
  hr_slice :: h264_slice

definition request_from_stateless ::
  "h264_abi \<Rightarrow> u64 \<Rightarrow> u32 \<Rightarrow> h264_params \<Rightarrow> dma_range \<Rightarrow> bytes \<Rightarrow> dma_range \<Rightarrow> frame_layout \<Rightarrow> h264_error + h264_request" where
  "request_from_stateless K session_id frame_number params input input_bytes output layout =
     (if fl_width layout = 0 \<or> fl_height layout = 0 then Inl InvalidDimensions
      else case slice_from_stateless K (hp_slice params) (hp_decode params) (hp_pps params) input_bytes of
          Inl e \<Rightarrow> Inl e
        | Inr sl \<Rightarrow> Inr \<lparr>hr_session_id = session_id, hr_frame_number = frame_number, hr_input = input, hr_output = output,
            hr_layout = layout, hr_current_poc = dp_top_field_order_cnt (hp_decode params),
            hr_frame_num = dp_frame_num (hp_decode params),
            hr_flags = (if has_flag (dp_flags (hp_decode params)) (DECODE_PARAM_IDR K) then 2 OR 1 else 2),
            hr_pps = from_stateless_pps K (hp_pps params), hr_dpb = dp_dpb (hp_decode params),
            hr_pred_weights = hp_weights params, hr_slice = sl\<rparr>)"

section \<open>Reference lists\<close>

abbreviation (input) AVD_H264_MAX_REFERENCES :: nat where "AVD_H264_MAX_REFERENCES \<equiv> 16"
abbreviation (input) H264_MAX_REF_LIST_ENTRIES :: nat where "H264_MAX_REF_LIST_ENTRIES \<equiv> 32"

record reference_plan =
  plan_table :: "reference_picture list"
  plan_list0 :: "u8 list"
  plan_list1 :: "u8 list"

text \<open>\<open>push_usize\<close> and \<open>push_u8\<close>: an array of fixed size with the length of its used part.\<close>

definition push_capped :: "nat \<Rightarrow> 'a \<Rightarrow> 'a list \<Rightarrow> 'a list" where
  "push_capped cap x xs = (if length xs < cap then xs @ [x] else xs)"

definition explicit_reference_indices :: "h264_abi \<Rightarrow> u8 list \<Rightarrow> nat \<Rightarrow> dpb_entry list \<Rightarrow> nat list" where
  "explicit_reference_indices K refs count dpb =
     fold (\<lambda>entry out.
         if unat entry < length dpb
         then (if has_flag (de_flags (dpb ! unat entry)) (DPB_VALID K)
               then push_capped H264_MAX_REF_LIST_ENTRIES (unat entry) out else out)
         else out)
       (take (min count H264_MAX_REF_LIST_ENTRIES) refs) []"

definition swap :: "nat \<Rightarrow> nat \<Rightarrow> 'a list \<Rightarrow> 'a list" where
  "swap i j xs = xs[i := xs ! j, j := xs ! i]"

definition poc_of :: "reference_picture list \<Rightarrow> nat \<Rightarrow> int" where
  "poc_of refs i = sint (rp_top_field_order_cnt (refs ! i))"

definition sort_step :: "reference_picture list \<Rightarrow> bool \<Rightarrow> nat \<Rightarrow> nat \<Rightarrow> nat list \<Rightarrow> nat list" where
  "sort_step refs ascending index candidate indices =
     (let left_poc = poc_of refs (indices ! index); right_poc = poc_of refs (indices ! candidate)
      in if (if ascending then right_poc < left_poc else right_poc > left_poc) then swap index candidate indices else indices)"

definition sort_reference_indices_by_poc :: "reference_picture list \<Rightarrow> bool \<Rightarrow> nat list \<Rightarrow> nat list" where
  "sort_reference_indices_by_poc refs ascending indices =
     fold (\<lambda>index. fold (sort_step refs ascending index) [Suc index..<length indices]) [0..<length indices] indices"

definition usize_lists_equal :: "nat list \<Rightarrow> nat list \<Rightarrow> bool" where
  "usize_lists_equal l r \<longleftrightarrow> length l = length r \<and> list_all (\<lambda>(a, b). a = b) (zip l r)"

definition from_original_lists :: "nat list \<Rightarrow> nat list \<Rightarrow> reference_picture list \<Rightarrow> reference_plan" where
  "from_original_lists list0 list1 refs =
     (let pack = (\<lambda>l. fold (\<lambda>i out. if i < AVD_H264_MAX_REFERENCES then push_capped H264_MAX_REF_LIST_ENTRIES (of_nat i) out else out) l [])
      in \<lparr>plan_table = take AVD_H264_MAX_REFERENCES refs, plan_list0 = pack list0, plan_list1 = pack list1\<rparr>)"

text \<open>The lists of a B slice: the pictures before and after the current one by display order.\<close>

definition split_by_poc :: "reference_picture list \<Rightarrow> 32 word \<Rightarrow> nat list \<times> nat list" where
  "split_by_poc refs current_poc =
     fold (\<lambda>i (before, after).
         if poc_of refs i < sint current_poc
         then (push_capped AVD_H264_MAX_REFERENCES i before, after)
         else (before, push_capped AVD_H264_MAX_REFERENCES i after))
       [0..<min (length refs) AVD_H264_MAX_REFERENCES] ([], [])"

definition b_lists :: "reference_picture list \<Rightarrow> 32 word \<Rightarrow> nat list \<times> nat list" where
  "b_lists refs current_poc =
     (case split_by_poc refs current_poc of (before, after) \<Rightarrow>
        let before = sort_reference_indices_by_poc refs False before;
            after = sort_reference_indices_by_poc refs True after;
            put = (\<lambda>xs out. fold (push_capped H264_MAX_REF_LIST_ENTRIES) xs out);
            list0 = put after (put before []);
            list1 = put before (put after [])
        in (list0, if usize_lists_equal list0 list1 \<and> 1 < length list1 then swap 0 1 list1 else list1))"

definition reference_plan_build :: "h264_abi \<Rightarrow> h264_request \<Rightarrow> h264_slice \<Rightarrow> reference_picture list \<Rightarrow> reference_plan" where
  "reference_plan_build K rq sl refs =
     (let p = hl_params sl; n0 = unat (sl_num_ref_idx_l0_active_minus1 p) + 1; n1 = unat (sl_num_ref_idx_l1_active_minus1 p) + 1
      in if has_flag (sl_flags p) (SLICE_REF_LISTS_PRESENT K)
         then from_original_lists (explicit_reference_indices K (sl_ref_pic_list0 p) n0 (hr_dpb rq))
           (if hl_kind sl = SliceB then explicit_reference_indices K (sl_ref_pic_list1 p) n1 (hr_dpb rq) else []) refs
         else (case hl_kind sl of
             SliceI \<Rightarrow> from_original_lists [] [] refs
           | SliceP \<Rightarrow> from_original_lists
               (fold (push_capped H264_MAX_REF_LIST_ENTRIES) [0..<min (length refs) (min n0 AVD_H264_MAX_REFERENCES)] []) [] refs
           | SliceB \<Rightarrow> (case b_lists refs (hr_current_poc rq) of (list0, list1) \<Rightarrow>
               from_original_lists (take (min n0 AVD_H264_MAX_REFERENCES) list0) (take (min n1 AVD_H264_MAX_REFERENCES) list1) refs)))"

definition reference_picture_for_dpb_entry :: "h264_abi \<Rightarrow> dpb_entry \<Rightarrow> reference_picture list \<Rightarrow> reference_picture option" where
  "reference_picture_for_dpb_entry K entry refs =
     (if \<not> has_flag (de_flags entry) (DPB_VALID K) then None
      else find (\<lambda>r. (rp_timestamp r \<noteq> 0 \<and> rp_timestamp r = de_reference_ts entry)
        \<or> (rp_frame_num r = de_frame_num entry \<and> rp_top_field_order_cnt r = de_top_field_order_cnt entry
           \<and> rp_long_term r = has_flag (de_flags entry) (DPB_LONG_TERM K))
        \<or> (rp_top_field_order_cnt r = de_top_field_order_cnt entry \<and> rp_pic_num r = de_pic_num entry)) refs)"

section \<open>Command words\<close>

definition swrap_i8 :: "8 word \<Rightarrow> u32 \<Rightarrow> u32" where
  "swrap_i8 v width = (scast v :: u32) AND (width - 1)"

definition swrap_i32 :: "32 word \<Rightarrow> u32 \<Rightarrow> u32" where
  "swrap_i32 v width = v AND (width - 1)"

definition rvra_words :: "u64 \<Rightarrow> u32 list \<Rightarrow> u32 list" where
  "rvra_words base offsets = map (\<lambda>off. ucast (drop_bit 7 (base + ucast off))) offsets"

definition address_lsb8 :: "u64 \<Rightarrow> u32" where
  "address_lsb8 a = ucast (drop_bit 8 a)"

definition ref_words :: "h264_request \<Rightarrow> h264_workspace \<Rightarrow> reference_picture list \<Rightarrow> u32 list" where
  "ref_words rq ws refs =
     [0x04020002, address_lsb8 (hw_pps_tile_dma_addr ws + 0x20000), address_lsb8 (hw_sps_tile_dma_addr ws),
      0x00070007, 0x00070007, 0x00070007, 0x00070007] @
     (let count = min (length refs) 16
      in if count = 0 then []
         else concat (map (\<lambda>r.
           (push_bit 28 ((of_nat count - 1) AND 0xf) OR 0x01000000 OR push_bit 17 (if rp_long_term r then 1 else 0)
             OR swrap_i32 (hr_current_poc rq - rp_top_field_order_cnt r) 0x20000)
           # rvra_words (rp_reference_dma_addr r) (hw_reference_offsets ws)) (take count refs)))"

definition weight_word :: "u32 \<Rightarrow> u32 \<Rightarrow> u32 \<Rightarrow> u16 \<Rightarrow> u32" where
  "weight_word plane list_bit ref_bits w = 0x2de00000 OR push_bit 14 plane OR list_bit OR ref_bits OR (ucast w AND 0x1ff)"

definition offset_word :: "u16 \<Rightarrow> u32" where
  "offset_word off = 0x2df00000 OR swrap_i32 (scast off) 0x10000"

definition checked_shl_one :: "u16 \<Rightarrow> u16" where
  "checked_shl_one n = (if unat n < 16 then push_bit (unat n) 1 else 0)"

text \<open>The weights of one reference of one list.\<close>

definition factor_words :: "pred_weights \<Rightarrow> weight_factors \<Rightarrow> nat \<Rightarrow> nat \<Rightarrow> u32 list option" where
  "factor_words pw f list_index index =
     (let luma = checked_shl_one (pw_luma_log2_weight_denom pw); chroma = checked_shl_one (pw_chroma_log2_weight_denom pw);
          list_bit = push_bit 13 (of_nat list_index); ref_bits = push_bit 9 (of_nat index)
      in if length (wf_luma_weight f) \<le> index \<or> length (wf_luma_offset f) \<le> index
           \<or> length (wf_chroma_weight f) \<le> index \<or> length (wf_chroma_offset f) \<le> index then None
         else let lw = wf_luma_weight f ! index; lo = wf_luma_offset f ! index;
                  (cw0, cw1) = wf_chroma_weight f ! index; (co0, co1) = wf_chroma_offset f ! index
              in Some ((if lw \<noteq> luma \<or> lo \<noteq> 0
                   then [weight_word 1 list_bit ref_bits lw, offset_word lo] else []) @
                 (if cw0 \<noteq> chroma \<or> co0 \<noteq> 0 \<or> cw1 \<noteq> chroma \<or> co1 \<noteq> 0
                   then [weight_word 2 list_bit ref_bits cw0, offset_word co0,
                         weight_word 3 list_bit ref_bits cw1, offset_word co1] else [])))"

fun all_some :: "'a list option list \<Rightarrow> 'a list option" where
  "all_some [] = Some []"
| "all_some (None # os) = None"
| "all_some (Some xs # os) = map_option (\<lambda>ys. xs @ ys) (all_some os)"

definition weight_words :: "h264_request \<Rightarrow> h264_slice \<Rightarrow> u32 list option" where
  "weight_words rq sl =
     (let idc = pic_weighted_bipred_idc (hr_pps rq); pw = hr_pred_weights rq; p = hl_params sl;
          pred_weight = (pic_weighted_pred (hr_pps rq) \<and> hl_kind sl = SliceP) \<or> (idc = 1 \<and> hl_kind sl = SliceB);
          denom = (if idc = 2 then 0x5 OR push_bit 3 0x5
            else push_bit 3 (ucast (pw_luma_log2_weight_denom pw) AND 0x7) OR (ucast (pw_chroma_log2_weight_denom pw) AND 0x7));
          head = 0x2dd00000 OR push_bit 7 (if idc = 2 then 1 else 0) OR push_bit 6 (if pred_weight then 1 else 0) OR denom
      in if \<not> pred_weight then Some [head]
         else map_option (\<lambda>ws. head # ws) (all_some
           (map (factor_words pw (fst (pw_weight_factors pw)) 0) [0..<Suc (unat (sl_num_ref_idx_l0_active_minus1 p))] @
            (if hl_kind sl = SliceB
             then map (factor_words pw (snd (pw_weight_factors pw)) 1) [0..<Suc (unat (sl_num_ref_idx_l1_active_minus1 p))]
             else []))))"

section \<open>The instruction stream\<close>

definition pack_hw :: "u32 \<Rightarrow> u32 \<Rightarrow> u32" where
  "pack_hw height width = push_bit 16 ((height - 1) AND 0xffff) OR ((width - 1) AND 0xffff)"

definition header_words :: "h264_request \<Rightarrow> h264_stream \<Rightarrow> h264_slice \<Rightarrow> h264_workspace \<Rightarrow> u32 list" where
  "header_words rq st sl ws =
     (let w = max (hs_coded_width st) (fl_width (hr_layout rq)); h = max (hs_coded_height st) (fl_height (hr_layout rq));
          pps = hr_pps rq; pt = hw_pps_tile_dma_addr ws;
          y_addr = dr_dma_addr (hr_output rq);
          uv_addr = y_addr + ucast (fl_y_stride (hr_layout rq)) * ucast (fl_height (hr_layout rq))
      in [0x2b000000 OR 0x100,
          0x2db00000 OR (if hl_idr sl then 0x1000 OR 0x02e0 OR 0x2000 else 0x1000 OR 0x02e0),
          0x01000000, pack_hw h w, 0,
          push_bit 16 (drop_bit 3 (h - 1)) OR drop_bit 3 (w - 1),
          push_bit 24 (hs_chroma_format_idc st AND 3) OR push_bit 19 (hs_bit_depth_luma_minus8 st AND 15)
            OR push_bit 15 (hs_bit_depth_chroma_minus8 st AND 15) OR 0x2800
            OR (if hs_direct_8x8_inference st then 1 else 0) OR (if pic_transform_8x8_mode pps then push_bit 7 1 else 0),
          (if pic_entropy_coding_mode pps then push_bit 20 1 else 0) OR (if \<not> hl_idr sl then push_bit 21 1 else 0)
            OR (if pic_constrained_intra_pred pps then push_bit 19 1 else 0),
          push_bit 5 (swrap_i8 (pic_chroma_qp_index_offset pps) 32) OR swrap_i8 (pic_second_chroma_qp_index_offset pps) 32,
          0x0030000a, 0x04020002, 0x00020002, 0, address_lsb8 pt, 0x04020002, 0x04020002, 0,
          address_lsb8 (pt + 0x8000), address_lsb8 (pt + 0x10000), address_lsb8 (pt + 0x18000), 0x00070007] @
         rvra_words (hw_reference_dma_addr ws) (hw_reference_offsets ws) @
         [address_lsb8 y_addr, drop_bit 4 (fl_y_stride (hr_layout rq)), address_lsb8 uv_addr,
          drop_bit 4 (fl_uv_stride (hr_layout rq)), 0, pack_hw h w])"

definition slice_words :: "h264_request \<Rightarrow> h264_stream \<Rightarrow> h264_slice \<Rightarrow> u32 list" where
  "slice_words rq st sl =
     (let w = max (hs_coded_width st) (fl_width (hr_layout rq)); p = hl_params sl;
          header_remainder = (if pic_entropy_coding_mode (hr_pps rq) then 0
            else push_bit 15 (of_nat (hl_parsed_header_bits sl) mod 8));
          slice_addr = dr_dma_addr (hr_input rq) + of_nat (hl_slice_data_offset sl);
          mb_width = drop_bit 4 (w - 1) + 1;
          qp = 26 + scast (pic_init_qp_minus26 (hr_pps rq)) + scast (sl_slice_qp_delta p) :: u32
      in [0x2d800000 OR header_remainder OR ucast (drop_bit 32 slice_addr), ucast slice_addr,
          of_nat (hl_slice_data_len sl),
          0x2c000000 OR push_bit 12 (sl_first_mb_in_slice p div mb_width) OR (sl_first_mb_in_slice p mod mb_width),
          0x2d900000 OR ((qp * 0x400) AND 0x1fc00),
          (let idc = sl_disable_deblocking_filter_idc p
           in 0x2da00000 OR (if idc = 0 then push_bit 17 1 else 0) OR
              (if idc \<noteq> 1 then push_bit 16 1 OR push_bit 12 (swrap_i8 (sl_beta_offset_div2 p) 16)
                 OR push_bit 8 (swrap_i8 (sl_alpha_c0_offset_div2 p) 16) else 0))])"

definition list_words :: "u32 \<Rightarrow> u8 list \<Rightarrow> u32 list" where
  "list_words which l =
     map (\<lambda>(i, r). 0x2dc00000 OR push_bit 8 which OR push_bit 4 (of_nat i AND 0xf) OR (ucast r AND 0xf)) (enumerate 0 l)"

definition reference_words :: "h264_request \<Rightarrow> h264_slice \<Rightarrow> reference_plan \<Rightarrow> u32 list option" where
  "reference_words rq sl plan =
     (if hl_kind sl = SliceI then Some []
      else map_option (\<lambda>ws. list_words 0 (plan_list0 plan) @ (if hl_kind sl = SliceB then list_words 1 (plan_list1 plan) else []) @ ws)
        (weight_words rq sl))"

definition ref_type_word :: "h264_abi \<Rightarrow> h264_request \<Rightarrow> h264_slice \<Rightarrow> u32" where
  "ref_type_word K rq sl =
     (let p = hl_params sl
      in 0x2d000000 OR (case hl_kind sl of SliceI \<Rightarrow> 0x20000 | SliceP \<Rightarrow> 0x10000 | SliceB \<Rightarrow> 0x40000) OR
         (if hl_kind sl = SliceI then 0
          else (if pic_entropy_coding_mode (hr_pps rq) then push_bit 5 (ucast (sl_cabac_init_idc p)) else 0) OR
               (if hl_kind sl = SliceB
                then push_bit 7 (ucast (sl_num_ref_idx_l1_active_minus1 p)) OR
                     (if has_flag (sl_flags p) (SLICE_DIRECT_SPATIAL_MV_PRED K) then 0 else push_bit 15 1)
                else 0) OR
               push_bit 11 (ucast (sl_num_ref_idx_l0_active_minus1 p))))"

definition colocated_tile :: "h264_abi \<Rightarrow> h264_request \<Rightarrow> h264_workspace \<Rightarrow> reference_plan \<Rightarrow> reference_picture list \<Rightarrow> u64" where
  "colocated_tile K rq ws plan refs =
     (case plan_list1 plan of
        [] \<Rightarrow> hw_sps_tile_dma_addr ws
      | i # _ \<Rightarrow> if unat i < length (hr_dpb rq)
          then (case reference_picture_for_dpb_entry K (hr_dpb rq ! unat i) refs of
                  None \<Rightarrow> hw_sps_tile_dma_addr ws | Some r \<Rightarrow> rp_sps_tile_dma_addr r)
          else hw_sps_tile_dma_addr ws)"

definition tail_words :: "h264_abi \<Rightarrow> h264_request \<Rightarrow> h264_stream \<Rightarrow> h264_slice \<Rightarrow> h264_workspace \<Rightarrow> reference_plan \<Rightarrow> reference_picture list \<Rightarrow> u32 list" where
  "tail_words K rq st sl ws plan refs =
     (let w = max (hs_coded_width st) (fl_width (hr_layout rq)); h = max (hs_coded_height st) (fl_height (hr_layout rq))
      in (if sl_first_mb_in_slice (hl_params sl) = 0
          then [0x2a000000, push_bit 12 (drop_bit 4 (h - 1)) OR drop_bit 4 (w - 1)] else []) @
         [ref_type_word K rq sl] @
         (if hl_kind sl = SliceB then [address_lsb8 (colocated_tile K rq ws plan refs)] else []) @
         [0x2b000000 OR 0x400])"

definition h264_words :: "h264_abi \<Rightarrow> h264_request \<Rightarrow> h264_stream \<Rightarrow> h264_slice \<Rightarrow> h264_workspace \<Rightarrow> reference_picture list \<Rightarrow> u32 list option" where
  "h264_words K rq st sl ws refs =
     (let plan = reference_plan_build K rq sl refs
      in map_option (\<lambda>rws. header_words rq st sl ws @
           (if hl_idr sl then [] else ref_words rq ws (plan_table plan)) @ [0] @
           slice_words rq st sl @ rws @ tail_words K rq st sl ws plan refs)
         (reference_words rq sl plan))"

abbreviation (input) AVD_H264_MAX_INSTRUCTION_WORDS :: nat where "AVD_H264_MAX_INSTRUCTION_WORDS \<equiv> 1024"

definition h264_stream_build :: "h264_abi \<Rightarrow> h264_request \<Rightarrow> h264_stream \<Rightarrow> h264_slice \<Rightarrow> h264_workspace \<Rightarrow> reference_picture list \<Rightarrow> istream option" where
  "h264_stream_build K rq st sl ws refs =
     map_option (\<lambda>words. push_words AVD_H264_MAX_INSTRUCTION_WORDS words \<lparr>is_words = [], is_overflowed = False\<rparr>)
       (h264_words K rq st sl ws refs)"

definition h264_write_le_bytes :: "istream \<Rightarrow> bytes \<Rightarrow> (h264_error + nat) \<times> bytes" where
  "h264_write_le_bytes s dst = write_le_words InstructionStreamTooLarge s dst"

end
