(* ===== verification/AvdOutput.thy ===== *)
theory AvdOutput
  imports Mem LeBytes
begin

text \<open>
  Decoded pictures of the video decoder (\<^verbatim>\<open>drivers/video/apple-avd/src/lib.rs\<close>): the record of a
  decode in flight, the in-place compaction of its NV12 output to the displayed crop, and the header
  before it.
\<close>

section \<open>A decode in flight\<close>

record decoded_layout =
  dl_width :: u32
  dl_height :: u32
  dl_y_stride :: u32
  dl_uv_stride :: u32
  dl_pixel_format :: u32

datatype decode_kind = DecodeH264 | DecodeVp9
datatype completion_phase = WaitingVideo | WaitingPostprocess

record pending_decode =
  pd_kind :: decode_kind
  pd_stream_id :: u32
  pd_frame_number :: u32
  pd_timestamp :: u64
  pd_layout :: decoded_layout
  pd_display_x :: u32
  pd_display_y :: u32
  pd_display_width :: u32
  pd_display_height :: u32
  pd_payload_len :: nat
  pd_output_header_vaddr :: nat
  pd_output_payload_vaddr :: nat
  pd_output_payload_dma :: u64
  pd_output_payload_offset :: nat
  pd_output_payload_len :: nat
  pd_reference_slot :: nat
  pd_reference_slot_count :: nat
  pd_dpb_capacity :: nat
  pd_reference_dma_addr :: u64
  pd_sps_tile_dma_addr :: u64
  pd_vp9_rvra_dma_addrs :: "u64 list"
  pd_frame_num :: u16
  pd_pic_num :: "32 word"
  pd_top_field_order_cnt :: "32 word"
  pd_long_term :: bool
  pd_store_reference :: bool
  pd_is_idr :: bool
  pd_status_before :: u32
  pd_command_tag :: u32
  pd_completion_phase :: completion_phase

section \<open>Sizes\<close>

text \<open>Checked arithmetic of the 64-bit \<open>usize\<close>.\<close>

definition usize_add :: "nat \<Rightarrow> nat \<Rightarrow> nat option" where
  "usize_add a b = (if a + b < 2 ^ 64 then Some (a + b) else None)"

definition usize_mul :: "nat \<Rightarrow> nat \<Rightarrow> nat option" where
  "usize_mul a b = (if a * b < 2 ^ 64 then Some (a * b) else None)"

definition plane_copy_end :: "nat \<Rightarrow> nat \<Rightarrow> nat \<Rightarrow> nat \<Rightarrow> nat \<Rightarrow> nat option" where
  "plane_copy_end start_row rows stride x width =
     (if rows = 0 then usize_add x width
      else case usize_add start_row (rows - 1) of None \<Rightarrow> None
        | Some a \<Rightarrow> (case usize_mul a stride of None \<Rightarrow> None
        | Some b \<Rightarrow> (case usize_add b x of None \<Rightarrow> None
        | Some c \<Rightarrow> usize_add c width)))"

definition nv12_tight_payload_len :: "u32 \<Rightarrow> u32 \<Rightarrow> string + nat" where
  "nv12_tight_payload_len width height =
     (if width = 0 \<or> height = 0 \<or> width AND 1 \<noteq> 0 \<or> height AND 1 \<noteq> 0 then Inl ''apple-avd: invalid NV12 dimensions''
      else case usize_mul (unat width) (unat height) of
          None \<Rightarrow> Inl ''apple-avd: NV12 payload length overflow''
        | Some y_len \<Rightarrow> (case usize_add y_len (y_len div 2) of
            None \<Rightarrow> Inl ''apple-avd: NV12 payload length overflow''
          | Some n \<Rightarrow> Inr n))"

section \<open>Compaction\<close>

text \<open>The checks, with the start of the chroma plane as their result.\<close>

definition check_crop :: "u32 \<Rightarrow> pending_decode \<Rightarrow> string + unit" where
  "check_crop nv12 p =
     (let l = pd_layout p
      in if dl_pixel_format l \<noteq> nv12 then Inl ''apple-avd: unsupported decoded pixel format''
         else if pd_display_width p = 0 \<or> pd_display_height p = 0 then Inl ''apple-avd: invalid display dimensions''
         else if dl_width l < pd_display_x p \<or> dl_height l < pd_display_y p
           \<or> dl_width l - pd_display_x p < pd_display_width p \<or> dl_height l - pd_display_y p < pd_display_height p
         then Inl ''apple-avd: display crop exceeds coded frame''
         else if dl_y_stride l < pd_display_width p \<or> dl_uv_stride l < pd_display_width p
         then Inl ''apple-avd: display width exceeds decoded stride''
         else if pd_display_x p AND 1 \<noteq> 0 \<or> pd_display_y p AND 1 \<noteq> 0
         then Inl ''apple-avd: invalid NV12 crop alignment''
         else case nv12_tight_payload_len (pd_display_width p) (pd_display_height p) of
             Inl e \<Rightarrow> Inl e
           | Inr expected \<Rightarrow>
               if expected \<noteq> pd_payload_len p \<or> pd_output_payload_len p < expected
               then Inl ''apple-avd: invalid display payload length'' else Inr ())"

definition source_ends :: "pending_decode \<Rightarrow> string + nat \<times> nat \<times> nat" where
  "source_ends p =
     (let l = pd_layout p; y_stride = unat (dl_y_stride l); uv_stride = unat (dl_uv_stride l);
          x = unat (pd_display_x p); y = unat (pd_display_y p);
          w = unat (pd_display_width p); h = unat (pd_display_height p)
      in case plane_copy_end y h y_stride x w of
           None \<Rightarrow> Inl ''apple-avd: display y source overflow''
         | Some y_end \<Rightarrow> (case usize_mul y_stride (unat (dl_height l)) of
             None \<Rightarrow> Inl ''apple-avd: decoded UV offset overflow''
           | Some uv_base \<Rightarrow> (case plane_copy_end (y div 2) (h div 2) uv_stride x w of
               None \<Rightarrow> Inl ''apple-avd: display UV source overflow''
             | Some e \<Rightarrow> (case usize_add uv_base e of
                 None \<Rightarrow> Inl ''apple-avd: display UV source overflow''
               | Some uv_end \<Rightarrow> Inr (y_end, uv_base, uv_end)))))"

text \<open>\<open>core::ptr::copy\<close>, which may overlap, and a loop of it over the rows of a plane.\<close>

definition ptr_copy :: "nat \<Rightarrow> nat \<Rightarrow> nat \<Rightarrow> mem \<Rightarrow> mem" where
  "ptr_copy src dst n m = put_bytes m dst (get_bytes m src n)"

definition copy_rows :: "nat \<Rightarrow> nat \<Rightarrow> nat \<Rightarrow> nat \<Rightarrow> nat \<Rightarrow> mem \<Rightarrow> mem" where
  "copy_rows src stride dst width rows = fold (\<lambda>row. ptr_copy (src + row * stride) (dst + row * width) width) [0..<rows]"

definition crop_is_payload :: "pending_decode \<Rightarrow> bool" where
  "crop_is_payload p \<longleftrightarrow>
     pd_display_x p = 0 \<and> pd_display_y p = 0 \<and> pd_display_width p = dl_width (pd_layout p)
     \<and> pd_display_height p = dl_height (pd_layout p) \<and> dl_y_stride (pd_layout p) = pd_display_width p
     \<and> dl_uv_stride (pd_layout p) = pd_display_width p"

definition compact_nv12_output_payload :: "u32 \<Rightarrow> pending_decode \<Rightarrow> (mem, string, bool) stepper" where
  "compact_nv12_output_payload nv12 p m =
     (case check_crop nv12 p of
        Inl e \<Rightarrow> (Inl e, m)
      | Inr u \<Rightarrow> (case source_ends p of
          Inl e \<Rightarrow> (Inl e, m)
        | Inr (y_end, uv_base, uv_end) \<Rightarrow>
            if pd_output_payload_len p < y_end \<or> pd_output_payload_len p < uv_end
            then (Inl ''apple-avd: display crop exceeds output payload'', m)
            else if crop_is_payload p then (Inr False, m)
            else (let base = pd_output_payload_vaddr p;
                      x = unat (pd_display_x p); y = unat (pd_display_y p);
                      w = unat (pd_display_width p); h = unat (pd_display_height p);
                      y_stride = unat (dl_y_stride (pd_layout p)); uv_stride = unat (dl_uv_stride (pd_layout p));
                      m = copy_rows (base + y * y_stride + x) y_stride base w h m;
                      m = copy_rows (base + uv_base + y div 2 * uv_stride + x) uv_stride (base + w * h) w (h div 2) m
                  in (Inr True, m))))"

definition write_frame_header :: "u8 list \<Rightarrow> nat \<Rightarrow> u32 \<Rightarrow> u32 \<Rightarrow> u32 \<Rightarrow> u32 \<Rightarrow> mem \<Rightarrow> mem" where
  "write_frame_header magic vaddr width height pixel_format payload_len m =
     put_bytes (put_bytes (put_bytes (put_bytes (put_bytes m vaddr magic)
       (vaddr + 4) (le_bytes 4 width)) (vaddr + 8) (le_bytes 4 height))
       (vaddr + 12) (le_bytes 4 pixel_format)) (vaddr + 16) (le_bytes 4 payload_len)"

text \<open>Cache maintenance and the printed samples are left out; the magic number and the pixel format are
  the kernel's.\<close>

definition prepare_pending_decode_output :: "u32 \<Rightarrow> u8 list \<Rightarrow> pending_decode \<Rightarrow> (mem, string, unit) stepper" where
  "prepare_pending_decode_output nv12 magic p =
     try_bind (compact_nv12_output_payload nv12 p) (\<lambda>compacted.
     put_state (write_frame_header magic (pd_output_header_vaddr p) (pd_display_width p) (pd_display_height p)
       (dl_pixel_format (pd_layout p)) (of_nat (pd_payload_len p))))"

section \<open>Copies that move to lower addresses\<close>

lemma ptr_copy_apply: "ptr_copy src dst n m a = (if dst \<le> a \<and> a < dst + n then m (src + (a - dst)) else m a)"
  by (auto simp: ptr_copy_def put_bytes_def get_bytes_def)

lemma copy_rows_Suc:
  "copy_rows src stride dst w (Suc n) m = ptr_copy (src + n * stride) (dst + n * w) w (copy_rows src stride dst w n m)"
  by (simp add: copy_rows_def)

lemma copy_rows_outside: "a < dst \<or> dst + n * w \<le> a \<Longrightarrow> copy_rows src stride dst w n m a = m a"
proof (induction n)
  case (Suc n)
  then have "a < dst + n * w \<or> dst + n * w + w \<le> a" "a < dst \<or> dst + n * w \<le> a"
    by auto
  with Suc.IH show ?case
    by (auto simp: copy_rows_Suc ptr_copy_apply)
qed (simp add: copy_rows_def)

lemma copy_rows_inside:
  assumes "w \<le> stride" and "dst \<le> src" and "r < n" and "x < w"
  shows "copy_rows src stride dst w n m (dst + r * w + x) = m (src + r * stride + x)"
  using assms(3)
proof (induction n)
  case (Suc n)
  show ?case
  proof (cases "r = n")
    case True
    have "dst + n * w \<le> src + n * stride + x"
      using mult_le_mono2 [OF assms(1), of n] assms(2) by linarith
    then have "copy_rows src stride dst w n m (src + n * stride + x) = m (src + n * stride + x)"
      by (intro copy_rows_outside) simp
    with True assms(4) show ?thesis
      by (simp add: copy_rows_Suc ptr_copy_apply)
  next
    case False
    then have "r < n"
      using Suc.prems by simp
    then have "Suc r * w \<le> n * w"
      by (intro mult_le_mono1) simp
    then have "dst + r * w + x < dst + n * w"
      using assms(4) by simp
    with Suc.IH \<open>r < n\<close> show ?thesis
      by (simp add: copy_rows_Suc ptr_copy_apply)
  qed
qed simp

section \<open>The crop\<close>

lemma check_cropD:
  assumes "check_crop nv12 p = Inr u"
  shows "unat (pd_display_x p) + unat (pd_display_width p) \<le> unat (dl_width (pd_layout p))"
    and "unat (pd_display_y p) + unat (pd_display_height p) \<le> unat (dl_height (pd_layout p))"
    and "pd_display_width p \<le> dl_y_stride (pd_layout p)" and "pd_display_width p \<le> dl_uv_stride (pd_layout p)"
    and "0 < unat (pd_display_height p)"
    and "unat (pd_display_width p) * unat (pd_display_height p) + unat (pd_display_width p) * unat (pd_display_height p) div 2
      \<le> pd_output_payload_len p"
proof -
  have fits: "unat a + unat c \<le> unat b" if "\<not> b < a" "\<not> b - a < c" for a b c :: u32
    using that by (simp add: word_less_nat_alt unat_sub word_le_nat_alt)
  have "\<not> dl_width (pd_layout p) < pd_display_x p \<and> \<not> dl_width (pd_layout p) - pd_display_x p < pd_display_width p"
    "\<not> dl_height (pd_layout p) < pd_display_y p \<and> \<not> dl_height (pd_layout p) - pd_display_y p < pd_display_height p"
    using assms unfolding check_crop_def Let_def by (auto split: if_splits)
  then show "unat (pd_display_x p) + unat (pd_display_width p) \<le> unat (dl_width (pd_layout p))"
    "unat (pd_display_y p) + unat (pd_display_height p) \<le> unat (dl_height (pd_layout p))"
    using fits by blast+
  show "pd_display_width p \<le> dl_y_stride (pd_layout p)" "pd_display_width p \<le> dl_uv_stride (pd_layout p)"
    using assms unfolding check_crop_def Let_def by (auto split: if_splits)
  have "pd_display_height p \<noteq> 0"
    using assms unfolding check_crop_def Let_def by (auto split: if_splits)
  then show "0 < unat (pd_display_height p)"
    by (simp add: unat_gt_0)
  obtain n where "nv12_tight_payload_len (pd_display_width p) (pd_display_height p) = Inr n" "n \<le> pd_output_payload_len p"
    using assms unfolding check_crop_def Let_def by (auto split: if_splits sum.splits)
  then show "unat (pd_display_width p) * unat (pd_display_height p) + unat (pd_display_width p) * unat (pd_display_height p) div 2
      \<le> pd_output_payload_len p"
    by (auto simp: nv12_tight_payload_len_def usize_add_def usize_mul_def split: if_splits option.splits)
qed

lemma plane_copy_endD:
  assumes "plane_copy_end y rows stride x w = Some e" and "r < rows" and "i < w"
  shows "(y + r) * stride + x + i < e"
proof -
  have "e = (y + (rows - 1)) * stride + x + w"
    using assms(1,2) by (auto simp: plane_copy_end_def usize_add_def usize_mul_def split: if_splits option.splits)
  moreover have "(y + r) * stride \<le> (y + (rows - 1)) * stride"
    using assms(2) by (intro mult_le_mono1) simp
  ultimately show ?thesis
    using assms(3) by linarith
qed

lemma source_endsD:
  assumes "source_ends p = Inr (y_end, uv_base, uv_end)"
  shows "plane_copy_end (unat (pd_display_y p)) (unat (pd_display_height p)) (unat (dl_y_stride (pd_layout p)))
      (unat (pd_display_x p)) (unat (pd_display_width p)) = Some y_end"
    and "uv_base = unat (dl_y_stride (pd_layout p)) * unat (dl_height (pd_layout p))"
    and "\<exists>e. plane_copy_end (unat (pd_display_y p) div 2) (unat (pd_display_height p) div 2) (unat (dl_uv_stride (pd_layout p)))
      (unat (pd_display_x p)) (unat (pd_display_width p)) = Some e \<and> uv_end = uv_base + e"
  using assms by (auto simp: source_ends_def Let_def usize_mul_def usize_add_def split: option.splits if_splits)

definition crop_copied :: "pending_decode \<Rightarrow> mem \<Rightarrow> mem \<Rightarrow> bool" where
  "crop_copied p m m' \<longleftrightarrow>
     (let base = pd_output_payload_vaddr p; len = pd_output_payload_len p;
          x = unat (pd_display_x p); y = unat (pd_display_y p);
          w = unat (pd_display_width p); h = unat (pd_display_height p);
          y_stride = unat (dl_y_stride (pd_layout p)); uv_stride = unat (dl_uv_stride (pd_layout p));
          uv_base = y_stride * unat (dl_height (pd_layout p))
      in (\<forall>r < h. \<forall>i < w. (y + r) * y_stride + x + i < len
             \<and> m' (base + r * w + i) = m (base + (y + r) * y_stride + x + i))
       \<and> (\<forall>r < h div 2. \<forall>i < w. uv_base + (y div 2 + r) * uv_stride + x + i < len
             \<and> m' (base + w * h + r * w + i) = m (base + uv_base + (y div 2 + r) * uv_stride + x + i))
       \<and> (\<forall>a. a < base \<or> base + len \<le> a \<longrightarrow> m' a = m a))"

lemma compact_crop:
  assumes "compact_nv12_output_payload nv12 p m = (Inr b, m')"
  shows "crop_copied p m m'"
proof -
  let ?base = "pd_output_payload_vaddr p" and ?len = "pd_output_payload_len p"
  let ?x = "unat (pd_display_x p)" and ?y = "unat (pd_display_y p)"
  let ?w = "unat (pd_display_width p)" and ?h = "unat (pd_display_height p)"
  let ?ys = "unat (dl_y_stride (pd_layout p))" and ?us = "unat (dl_uv_stride (pd_layout p))"
  let ?uv = "?ys * unat (dl_height (pd_layout p))"
  obtain u y_end uv_base uv_end where checks: "check_crop nv12 p = Inr u" "source_ends p = Inr (y_end, uv_base, uv_end)"
      "y_end \<le> ?len" "uv_end \<le> ?len"
    using assms by (auto simp: compact_nv12_output_payload_def split: sum.splits prod.splits if_splits)
  note crop = check_cropD [OF checks(1)] and ends = source_endsD [OF checks(2)]
  have strides: "?w \<le> ?ys" "?w \<le> ?us"
    using crop(3,4) by (simp_all add: word_le_nat_alt)
  obtain e where e: "plane_copy_end (?y div 2) (?h div 2) ?us ?x ?w = Some e" "uv_end = ?uv + e"
    using ends(2,3) by auto
  have luma: "(?y + r) * ?ys + ?x + i < ?len" if "r < ?h" "i < ?w" for r i
    using plane_copy_endD [OF ends(1) that] checks(3) by linarith
  have chroma: "?uv + (?y div 2 + r) * ?us + ?x + i < ?len" if "r < ?h div 2" "i < ?w" for r i
    using plane_copy_endD [OF e(1) that] e(2) checks(4) by linarith
  have "?w * ?h \<le> ?ys * unat (dl_height (pd_layout p))"
    using strides(1) crop(2) by (intro mult_le_mono) simp_all
  then have below: "?base + ?w * ?h \<le> ?base + ?uv + ?y div 2 * ?us + ?x"
    by linarith
  have inside: "?w * ?h + ?h div 2 * ?w \<le> ?len"
  proof -
    have "?h div 2 * 2 * ?w \<le> ?h * ?w"
      by (rule mult_le_mono1) simp
    then have "?h div 2 * ?w \<le> ?w * ?h div 2"
      by (simp add: less_eq_div_iff_mult_less_eq algebra_simps)
    with crop(6) show ?thesis
      by linarith
  qed
  show ?thesis
  proof (cases "crop_is_payload p")
    case True
    then have "m' = m" "?x = 0" "?y = 0" "?ys = ?w" "?us = ?w" "unat (dl_height (pd_layout p)) = ?h"
      using assms checks by (auto simp: compact_nv12_output_payload_def crop_is_payload_def)
    with luma chroma show ?thesis
      unfolding crop_copied_def Let_def by (auto simp: algebra_simps)
  next
    case False
    define m1 where "m1 = copy_rows (?base + ?y * ?ys + ?x) ?ys ?base ?w ?h m"
    have m': "m' = copy_rows (?base + ?uv + ?y div 2 * ?us + ?x) ?us (?base + ?w * ?h) ?w (?h div 2) m1"
      using assms checks False ends(2) by (simp add: compact_nv12_output_payload_def Let_def m1_def)
    have m1: "m1 (?base + r * ?w + i) = m (?base + (?y + r) * ?ys + ?x + i)" if "r < ?h" "i < ?w" for r i
      using copy_rows_inside [OF strides(1), of ?base "?base + ?y * ?ys + ?x" r ?h i m] that
      by (simp add: m1_def algebra_simps)
    have m1_out: "a < ?base \<or> ?base + ?w * ?h \<le> a \<Longrightarrow> m1 a = m a" for a
      unfolding m1_def by (rule copy_rows_outside) (simp add: mult.commute)
    have "m' (?base + r * ?w + i) = m (?base + (?y + r) * ?ys + ?x + i)" if "r < ?h" "i < ?w" for r i
    proof -
      have "Suc r * ?w \<le> ?h * ?w"
        using that(1) by (intro mult_le_mono1) simp
      then have "?base + r * ?w + i < ?base + ?w * ?h"
        using that(2) by (simp add: mult.commute)
      then show ?thesis
        unfolding m' using m1 [OF that] by (subst copy_rows_outside) simp_all
    qed
    moreover have "m' (?base + ?w * ?h + r * ?w + i) = m (?base + ?uv + (?y div 2 + r) * ?us + ?x + i)"
      if "r < ?h div 2" "i < ?w" for r i
    proof -
      have "m' (?base + ?w * ?h + r * ?w + i) = m1 (?base + ?uv + ?y div 2 * ?us + ?x + r * ?us + i)"
        unfolding m' by (rule copy_rows_inside [OF strides(2) below that])
      also have "\<dots> = m (?base + ?uv + ?y div 2 * ?us + ?x + r * ?us + i)"
        using below by (intro m1_out) linarith
      finally show ?thesis
        by (simp add: algebra_simps)
    qed
    moreover have "m' a = m a" if "a < ?base \<or> ?base + ?len \<le> a" for a
    proof -
      have "m' a = m1 a"
        unfolding m' using that inside by (intro copy_rows_outside) linarith
      also have "\<dots> = m a"
        using that inside by (intro m1_out) linarith
      finally show ?thesis .
    qed
    ultimately show ?thesis
      unfolding crop_copied_def Let_def using luma chroma by (simp add: add.assoc)
  qed
qed

text \<open>
  C21. A decoded picture that is accepted holds, after its compaction in place, exactly the displayed
  crop: row by row the luma of the crop followed by its chroma, each byte the one the decoder had
  written at the crop's position in the padded picture, with nothing overwritten before it was copied.
  Everything that is read lies in the payload of the picture, and nothing outside it changes. The same
  holds when the crop is the whole payload and nothing is copied.
\<close>

theorem compact_copies_crop:
  assumes "compact_nv12_output_payload nv12 p m = (Inr b, m')"
  shows "crop_copied p m m'"
  by (rule compact_crop [OF assms])

text \<open>A picture of 4 by 4 pixels in rows of 4 bytes, of which the lower right 2 by 2 pixels are displayed.\<close>

definition crop_example :: pending_decode where
  "crop_example = \<lparr>pd_kind = DecodeH264, pd_stream_id = 1, pd_frame_number = 0, pd_timestamp = 0,
     pd_layout = \<lparr>dl_width = 4, dl_height = 4, dl_y_stride = 4, dl_uv_stride = 4, dl_pixel_format = 1\<rparr>,
     pd_display_x = 2, pd_display_y = 2, pd_display_width = 2, pd_display_height = 2, pd_payload_len = 6,
     pd_output_header_vaddr = 0, pd_output_payload_vaddr = 100, pd_output_payload_dma = 0, pd_output_payload_offset = 0,
     pd_output_payload_len = 24, pd_reference_slot = 0, pd_reference_slot_count = 1, pd_dpb_capacity = 1,
     pd_reference_dma_addr = 0, pd_sps_tile_dma_addr = 0, pd_vp9_rvra_dma_addrs = [], pd_frame_num = 0, pd_pic_num = 0,
     pd_top_field_order_cnt = 0, pd_long_term = False, pd_store_reference = False, pd_is_idr = False,
     pd_status_before = 0, pd_command_tag = 0, pd_completion_phase = WaitingPostprocess\<rparr>"

theorem compact_copies_crop_witness:
  "let m' = snd (compact_nv12_output_payload 1 crop_example (\<lambda>a. of_nat a))
   in m' 100 = 110 \<and> m' 103 = 115 \<and> m' 104 = 122 \<and> m' 124 = 124"
proof -
  let ?m = "\<lambda>a. of_nat a :: u8"
  obtain b m' where run: "compact_nv12_output_payload 1 crop_example ?m = (Inr b, m')"
    by (simp add: compact_nv12_output_payload_def check_crop_def source_ends_def plane_copy_end_def nv12_tight_payload_len_def
        usize_mul_def usize_add_def crop_example_def crop_is_payload_def Let_def)
  have copied: "crop_copied crop_example ?m m'"
    by (rule compact_copies_crop [OF run])
  have "\<And>r i. r < 2 \<Longrightarrow> i < 2 \<Longrightarrow> m' (100 + r * 2 + i) = ?m (100 + (2 + r) * 4 + 2 + i)"
    "\<And>i. i < 2 \<Longrightarrow> m' (104 + i) = ?m (122 + i)" "m' 124 = ?m 124"
    using copied unfolding crop_copied_def Let_def crop_example_def by simp_all
  from this(1) [of 0 0] this(1) [of 1 1] this(2) [of 0] this(3) show ?thesis
    by (simp add: run Let_def)
qed

end
