(* ===== verification/AvdQueue.thy ===== *)
theory AvdQueue
  imports LeBytes
begin

text \<open>
  The queue of decoded frames of the video decoder (\<^verbatim>\<open>AvdCompletedQueue\<close> in
  \<^verbatim>\<open>drivers/video/apple-avd/src/lib.rs\<close>): a fixed ring of optional frames with a head and a length,
  and its refinement to a list of frames.
\<close>

section \<open>The ring\<close>

definition AVD_MAX_SESSIONS :: nat where "AVD_MAX_SESSIONS = 4"
definition AVD_REFERENCE_FRAME_TABLE_LEN :: nat where "AVD_REFERENCE_FRAME_TABLE_LEN = 16"
definition AVD_H264_OUTPUT_SLOTS :: nat where "AVD_H264_OUTPUT_SLOTS = 17"
definition AVD_COMPLETED_FRAME_QUEUE_LEN :: nat where "AVD_COMPLETED_FRAME_QUEUE_LEN = 68"

record decoded_frame =
  df_stream_id :: u32
  df_width :: u32
  df_height :: u32
  df_pixel_format :: u32
  df_payload_offset :: u64
  df_payload_len :: u32
  df_flags :: u32
  df_timestamp :: u64

text \<open>The ring is over frames of any type; the driver uses it with \<open>decoded_frame\<close>.\<close>

record 'f completed_queue =
  cq_frames :: "'f option list"
  cq_head :: nat
  cq_len :: nat

definition cq_new :: "'f completed_queue" where
  "cq_new = \<lparr>cq_frames = replicate AVD_COMPLETED_FRAME_QUEUE_LEN None, cq_head = 0, cq_len = 0\<rparr>"

definition cq_index :: "'f completed_queue \<Rightarrow> nat \<Rightarrow> nat" where
  "cq_index q offset = (cq_head q + offset) mod AVD_COMPLETED_FRAME_QUEUE_LEN"

definition cq_set :: "nat \<Rightarrow> 'f option \<Rightarrow> 'f completed_queue \<Rightarrow> 'f completed_queue" where
  "cq_set i f q = q\<lparr>cq_frames := (cq_frames q)[i := f]\<rparr>"

definition cq_clear :: "'f completed_queue \<Rightarrow> 'f completed_queue" where
  "cq_clear q = (fold (\<lambda>offset q. cq_set (cq_index q offset) None q) [0..<cq_len q] q)\<lparr>cq_head := 0, cq_len := 0\<rparr>"

text \<open>One round of the loop of \<open>retain\<close>: the frame at a read position is taken and, when it is
  kept, stored at the write position.\<close>

definition retain_step :: "('f \<Rightarrow> bool) \<Rightarrow> nat \<Rightarrow> nat \<times> 'f completed_queue \<Rightarrow> nat \<times> 'f completed_queue" where
  "retain_step keep r p =
     (case p of (w, q) \<Rightarrow>
        (case cq_frames q ! cq_index q r of
           None \<Rightarrow> (w, q)
         | Some f \<Rightarrow>
             (let q = cq_set (cq_index q r) None q
              in if keep f then (Suc w, cq_set w (Some f) q) else (w, q))))"

definition cq_retain :: "('f \<Rightarrow> bool) \<Rightarrow> 'f completed_queue \<Rightarrow> 'f completed_queue" where
  "cq_retain keep q =
     (case fold (retain_step keep) [0..<cq_len q] (0, q) of (w, q') \<Rightarrow>
        (fold (\<lambda>i. cq_set i None) [w..<cq_len q] q')\<lparr>cq_head := 0, cq_len := w\<rparr>)"

definition cq_push_back :: "'f \<Rightarrow> 'f completed_queue \<Rightarrow> (string + unit) \<times> 'f completed_queue" where
  "cq_push_back f q =
     (if AVD_COMPLETED_FRAME_QUEUE_LEN \<le> cq_len q then (Inl ''apple-avd: decoded frame queue is full'', q)
      else (Inr (), (cq_set (cq_index q (cq_len q)) (Some f) q)\<lparr>cq_len := Suc (cq_len q)\<rparr>))"

definition cq_position :: "('f \<Rightarrow> bool) \<Rightarrow> 'f completed_queue \<Rightarrow> nat option" where
  "cq_position p q = find (\<lambda>offset. case cq_frames q ! cq_index q offset of None \<Rightarrow> False | Some f \<Rightarrow> p f) [0..<cq_len q]"

definition shift_step :: "nat \<Rightarrow> 'f completed_queue \<Rightarrow> 'f completed_queue" where
  "shift_step r q =
     (let f = cq_frames q ! cq_index q r
      in cq_set (cq_index q (r - 1)) f (cq_set (cq_index q r) None q))"

definition cq_remove :: "nat \<Rightarrow> 'f completed_queue \<Rightarrow> 'f option \<times> 'f completed_queue" where
  "cq_remove offset q =
     (if cq_len q \<le> offset then (None, q)
      else (let removed = cq_frames q ! cq_index q offset;
                q1 = cq_set (cq_index q offset) None q;
                q2 = fold shift_step [Suc offset..<cq_len q] q1;
                q3 = cq_set (cq_index q2 (cq_len q2 - 1)) None q2;
                q4 = q3\<lparr>cq_len := cq_len q3 - 1\<rparr>
            in (removed, if cq_len q4 = 0 then q4\<lparr>cq_head := 0\<rparr> else q4)))"

section \<open>The list of frames\<close>

text \<open>No operation moves the head, and the frames fill the first positions.\<close>

definition cq_holds :: "'f completed_queue \<Rightarrow> 'f list \<Rightarrow> bool" where
  "cq_holds q fs \<longleftrightarrow> cq_head q = 0 \<and> cq_len q = length fs \<and> length fs \<le> AVD_COMPLETED_FRAME_QUEUE_LEN
     \<and> cq_frames q = map Some fs @ replicate (AVD_COMPLETED_FRAME_QUEUE_LEN - length fs) None"

lemma cq_index_head: "cq_head q = 0 \<Longrightarrow> i < AVD_COMPLETED_FRAME_QUEUE_LEN \<Longrightarrow> cq_index q i = i"
  by (simp add: cq_index_def)

lemma cq_set_simps [simp]:
  "cq_head (cq_set i f q) = cq_head q" "cq_len (cq_set i f q) = cq_len q"
  "cq_frames (cq_set i f q) = (cq_frames q)[i := f]"
  by (simp_all add: cq_set_def)

lemma cq_holds_new: "cq_holds cq_new []"
  by (simp add: cq_holds_def cq_new_def)

lemma cq_push_holds:
  assumes "cq_holds q fs"
  shows "cq_push_back f q = (if length fs = AVD_COMPLETED_FRAME_QUEUE_LEN
      then (Inl ''apple-avd: decoded frame queue is full'', q) else (Inr (), snd (cq_push_back f q)))"
    and "length fs < AVD_COMPLETED_FRAME_QUEUE_LEN \<Longrightarrow> cq_holds (snd (cq_push_back f q)) (fs @ [f])"
proof -
  show "cq_push_back f q = (if length fs = AVD_COMPLETED_FRAME_QUEUE_LEN
      then (Inl ''apple-avd: decoded frame queue is full'', q) else (Inr (), snd (cq_push_back f q)))"
    using assms by (auto simp: cq_holds_def cq_push_back_def)
  assume lt: "length fs < AVD_COMPLETED_FRAME_QUEUE_LEN"
  then obtain n where n: "AVD_COMPLETED_FRAME_QUEUE_LEN - length fs = Suc n"
    by (metis Suc_diff_Suc)
  then have "AVD_COMPLETED_FRAME_QUEUE_LEN - Suc (length fs) = n"
    by simp
  with assms lt n show "cq_holds (snd (cq_push_back f q)) (fs @ [f])"
    by (simp add: cq_holds_def cq_push_back_def cq_index_head list_update_append)
qed

lemma cq_position_holds:
  assumes "cq_holds q fs"
  shows "cq_position p q = find (\<lambda>i. p (fs ! i)) [0..<length fs]"
  unfolding cq_position_def using assms
  by (intro find_cong) (auto simp: cq_holds_def cq_index_head nth_append)

text \<open>Taking frames from the front and storing the kept ones before them.\<close>

lemma retain_loop:
  assumes "cq_head q = 0" and "n + length fs \<le> AVD_COMPLETED_FRAME_QUEUE_LEN"
    and "cq_frames q = map Some gs @ replicate m None @ map Some fs @ rest"
    and "length gs + m = n" and "length (cq_frames q) = AVD_COMPLETED_FRAME_QUEUE_LEN"
  shows "\<exists>q'. fold (retain_step keep) [n..<n + length fs] (length gs, q) = (length gs + length (filter keep fs), q')
    \<and> cq_head q' = 0 \<and> cq_len q' = cq_len q
    \<and> cq_frames q' = map Some (gs @ filter keep fs) @ replicate (m + length fs - length (filter keep fs)) None @ rest"
  using assms
proof (induction fs arbitrary: n q gs m)
  case (Cons f fs)
  let ?n = "length gs + m"
  have n: "n = ?n" "n < AVD_COMPLETED_FRAME_QUEUE_LEN"
    using Cons.prems by auto
  have at: "cq_frames q ! n = Some f"
    using Cons.prems(3) n(1) by (simp add: nth_append)
  have upt: "[n..<n + length (f # fs)] = n # [Suc n..<Suc n + length fs]"
    by (subst upt_rec) simp
  have taken: "(cq_frames q)[n := None] = map Some gs @ replicate (Suc m) None @ map Some fs @ rest"
    using Cons.prems(3) n(1) by (simp add: list_update_append replicate_app_Cons_same)
  show ?case
  proof (cases "keep f")
    case True
    define q' where "q' = cq_set (length gs) (Some f) (cq_set n None q)"
    have "cq_frames q' = map Some (gs @ [f]) @ replicate m None @ map Some fs @ rest"
      using taken by (simp add: q'_def list_update_append)
    moreover have "cq_head q' = 0" "length (cq_frames q') = AVD_COMPLETED_FRAME_QUEUE_LEN" "cq_len q' = cq_len q"
      using Cons.prems by (simp_all add: q'_def)
    ultimately obtain q'' where "fold (retain_step keep) [Suc n..<Suc n + length fs] (length (gs @ [f]), q') =
        (length (gs @ [f]) + length (filter keep fs), q'')" "cq_head q'' = 0" "cq_len q'' = cq_len q"
        "cq_frames q'' = map Some ((gs @ [f]) @ filter keep fs) @ replicate (m + length fs - length (filter keep fs)) None @ rest"
      using Cons.IH [of q' "Suc n" "gs @ [f]" m] Cons.prems(2) n(1) by (simp only: length_append list.size) fastforce
    moreover have "retain_step keep n (length gs, q) = (length (gs @ [f]), q')"
      using True at n Cons.prems(1) by (simp add: retain_step_def q'_def cq_index_head)
    ultimately show ?thesis
      unfolding upt using True by (simp del: upt_Suc)
  next
    case False
    define q' where "q' = cq_set n None q"
    have "cq_head q' = 0" "length (cq_frames q') = AVD_COMPLETED_FRAME_QUEUE_LEN" "cq_len q' = cq_len q"
      "cq_frames q' = map Some gs @ replicate (Suc m) None @ map Some fs @ rest"
      using Cons.prems taken by (simp_all add: q'_def)
    then obtain q'' where "fold (retain_step keep) [Suc n..<Suc n + length fs] (length gs, q') =
        (length gs + length (filter keep fs), q'')" "cq_head q'' = 0" "cq_len q'' = cq_len q"
        "cq_frames q'' = map Some (gs @ filter keep fs) @ replicate (Suc m + length fs - length (filter keep fs)) None @ rest"
      using Cons.IH [of q' "Suc n" gs "Suc m"] Cons.prems(2) n(1) by (simp only: length_append list.size) fastforce
    moreover have "retain_step keep n (length gs, q) = (length gs, q')"
      using False at n Cons.prems(1) by (simp add: retain_step_def q'_def cq_index_head)
    ultimately show ?thesis
      unfolding upt using False by (simp del: upt_Suc)
  qed
qed auto

lemma fold_fixed: "(\<And>x. x \<in> set xs \<Longrightarrow> f x q = q) \<Longrightarrow> fold f xs q = q"
  by (induction xs) auto

lemma clear_tail:
  assumes "cq_frames q = map Some gs @ replicate m None @ rest" and "w = length gs" and "n \<le> w + m"
  shows "fold (\<lambda>i. cq_set i None) [w..<n] q = q"
proof -
  have "cq_set i None q = q" if "i \<in> set [w..<n]" for i
  proof -
    have "w \<le> i" "i - length gs < m"
      using assms(2,3) that by auto
    moreover have "(replicate m None)[k := None] = replicate m None" for k
      by (cases "k < m") (simp_all add: list_update_same_conv list_update_beyond not_less)
    ultimately have "(cq_frames q)[i := None] = cq_frames q"
      using assms(1,2) by (simp add: list_update_append)
    then show ?thesis
      by (simp add: cq_set_def)
  qed
  then show ?thesis
    by (rule fold_fixed)
qed

lemma cq_retain_holds:
  fixes q :: "'f completed_queue"
  assumes "cq_holds q fs"
  shows "cq_holds (cq_retain keep q) (filter keep fs)"
proof -
  let ?N = AVD_COMPLETED_FRAME_QUEUE_LEN
  obtain q' where q': "fold (retain_step keep) [0..<length fs] (0, q) = (length (filter keep fs), q')"
      "cq_len q' = cq_len q"
      "cq_frames q' = map Some (filter keep fs) @ replicate (length fs - length (filter keep fs)) None @ replicate (?N - length fs) None"
    using retain_loop [of q 0 fs "[]" 0 "replicate (?N - length fs) None" keep] assms by (auto simp: cq_holds_def)
  have le: "length (filter keep fs) \<le> length fs" "length fs \<le> ?N" "cq_len q = length fs"
    using assms by (auto simp: cq_holds_def)
  then have "fold (\<lambda>i. cq_set i None) [length (filter keep fs)..<length fs] q' = q'"
    by (intro clear_tail [OF q'(3)]) auto
  moreover have "replicate (length fs - length (filter keep fs)) (None :: 'f option) @ replicate (?N - length fs) None =
      replicate (?N - length (filter keep fs)) None"
    using le by (simp flip: replicate_add)
  moreover have "length (filter keep fs) \<le> ?N"
    by (rule le_trans [OF length_filter_le le(2)])
  ultimately show ?thesis
    using q' le by (simp add: cq_retain_def cq_holds_def le_trans [OF length_filter_le])
qed

lemma shift_loop:
  assumes "cq_head q = 0" and "Suc (length gs) + length fs \<le> AVD_COMPLETED_FRAME_QUEUE_LEN"
    and "cq_frames q = map Some gs @ None # map Some fs @ rest"
  shows "\<exists>q'. fold shift_step [Suc (length gs)..<Suc (length gs) + length fs] q = q' \<and> cq_head q' = 0 \<and> cq_len q' = cq_len q
    \<and> cq_frames q' = map Some (gs @ fs) @ None # rest"
  using assms
proof (induction fs arbitrary: q gs)
  case (Cons f fs)
  define q' where "q' = shift_step (Suc (length gs)) q"
  have "cq_index q (Suc (length gs)) = Suc (length gs)" "cq_index q (length gs) = length gs"
    using Cons.prems(1,2) by (simp_all add: cq_index_head)
  moreover have "cq_frames q ! Suc (length gs) = Some f"
    using Cons.prems(3) by (simp add: nth_append)
  ultimately have q': "cq_frames q' = map Some (gs @ [f]) @ None # map Some fs @ rest" "cq_head q' = 0" "cq_len q' = cq_len q"
    using Cons.prems by (simp_all add: q'_def shift_step_def Let_def cq_index_def list_update_append)
  have upt: "[Suc (length gs)..<Suc (length gs) + length (f # fs)] =
      Suc (length gs) # [Suc (length (gs @ [f]))..<Suc (length (gs @ [f])) + length fs]"
    by (subst upt_rec) simp
  show ?case
    unfolding upt using Cons.IH [of q' "gs @ [f]"] q' Cons.prems(2) by (simp add: q'_def)
qed auto

lemma cq_remove_holds:
  fixes q :: "'f completed_queue"
  assumes "cq_holds q fs" and "i < length fs"
  shows "fst (cq_remove i q) = Some (fs ! i)" and "cq_holds (snd (cq_remove i q)) (take i fs @ drop (Suc i) fs)"
proof -
  let ?N = AVD_COMPLETED_FRAME_QUEUE_LEN
  have q: "cq_head q = 0" "cq_len q = length fs" "length fs \<le> ?N"
    "cq_frames q = map Some fs @ replicate (?N - length fs) None"
    using assms(1) by (auto simp: cq_holds_def)
  have i: "cq_index q i = i"
    using q assms(2) by (simp add: cq_index_head)
  have at: "cq_frames q ! i = Some (fs ! i)"
    using q(4) assms(2) by (simp add: nth_append)
  have fs: "fs = take i fs @ fs ! i # drop (Suc i) fs"
    using assms(2) by (rule id_take_nth_drop)
  define q1 where "q1 = cq_set i None q"
  have q1: "cq_frames q1 = map Some (take i fs) @ None # map Some (drop (Suc i) fs) @ replicate (?N - length fs) None"
    using q(4) assms(2) by (subst (asm) fs) (simp add: q1_def list_update_append)
  have len: "Suc (length (take i fs)) = Suc i" "Suc i + length (drop (Suc i) fs) = length fs"
    using assms(2) by auto
  obtain q2 where q2: "fold shift_step [Suc i..<length fs] q1 = q2" "cq_head q2 = 0" "cq_len q2 = length fs"
      "cq_frames q2 = map Some (take i fs @ drop (Suc i) fs) @ None # replicate (?N - length fs) None"
    using shift_loop [OF _ _ q1, unfolded len] q assms(2) by (auto simp: q1_def)
  have last: "cq_index q2 (length fs - 1) = length fs - 1"
    using q2 q assms(2) by (intro cq_index_head) auto
  have "length (take i fs @ drop (Suc i) fs) = length fs - 1"
    using assms(2) by simp
  moreover from this have "(cq_frames q2)[length fs - 1 := None] = cq_frames q2"
    unfolding q2(4) by (metis length_map list_update_length)
  then have "cq_set (length fs - 1) None q2 = q2"
    by (simp add: cq_set_def)
  moreover have "(None :: 'f option) # replicate (?N - length fs) None = replicate (?N - (length fs - 1)) None"
    using q(3) assms(2) by (simp add: Suc_diff_le flip: replicate_Suc)
  ultimately have q4: "cq_set (length fs - 1) None q2 = q2" "length (take i fs @ drop (Suc i) fs) = length fs - 1"
      "cq_frames q2 = map Some (take i fs @ drop (Suc i) fs) @ replicate (?N - (length fs - 1)) None"
    using q2(4) by simp_all
  have "cq_len q1 = length fs"
    using q(2) by (simp add: q1_def)
  then have "cq_remove i q = (Some (fs ! i), if length fs - 1 = 0 then q2\<lparr>cq_len := length fs - 1, cq_head := 0\<rparr> else q2\<lparr>cq_len := length fs - 1\<rparr>)"
    unfolding cq_remove_def i q(2) Let_def at q1_def [symmetric] q2(1) q2(3) last q4(1)
    using assms(2) by simp
  then show "fst (cq_remove i q) = Some (fs ! i)" "cq_holds (snd (cq_remove i q)) (take i fs @ drop (Suc i) fs)"
    using q2(2) q4(2,3) le_trans [OF diff_le_self q(3), of 1] by (simp_all add: cq_holds_def)
qed

lemma cq_clear_holds:
  assumes "cq_holds q fs"
  shows "cq_holds (cq_clear q) []"
proof -
  let ?N = AVD_COMPLETED_FRAME_QUEUE_LEN
  have "n \<le> length fs \<Longrightarrow> \<exists>q'. fold (\<lambda>offset q. cq_set (cq_index q offset) None q) [0..<n] q = q' \<and> cq_head q' = 0
      \<and> cq_frames q' = replicate n None @ map Some (drop n fs) @ replicate (?N - length fs) None" for n
  proof (induction n)
    case (Suc n)
    then obtain q' where q': "fold (\<lambda>offset q. cq_set (cq_index q offset) None q) [0..<n] q = q'" "cq_head q' = 0"
        "cq_frames q' = replicate n None @ map Some (drop n fs) @ replicate (?N - length fs) None"
      by auto
    have "n < ?N" "drop n fs = fs ! n # drop (Suc n) fs"
      using Suc.prems assms by (auto simp: cq_holds_def Cons_nth_drop_Suc)
    with q' show ?case
      by (simp add: cq_index_head list_update_append replicate_app_Cons_same)
  qed (use assms in \<open>simp add: cq_holds_def\<close>)
  from this [of "length fs"] obtain q' where q': "fold (\<lambda>offset q. cq_set (cq_index q offset) None q) [0..<cq_len q] q = q'"
      "cq_frames q' = replicate (length fs) None @ replicate (?N - length fs) None"
    using assms by (auto simp: cq_holds_def)
  moreover have "length fs \<le> ?N"
    using assms by (simp add: cq_holds_def)
  ultimately show ?thesis
    by (simp add: cq_clear_def cq_holds_def flip: replicate_add)
qed

section \<open>The queue is a list\<close>

text \<open>The calls of the driver on the queue, and the same calls on a bounded list.\<close>

datatype 'f cq_call = CqPush 'f | CqRetain "'f \<Rightarrow> bool" | CqTakeFirst "'f \<Rightarrow> bool" | CqClear

datatype 'f cq_answer = Pushed | Full | Taken "'f option" | Done

fun cq_do :: "'f cq_call \<Rightarrow> 'f completed_queue \<Rightarrow> 'f cq_answer \<times> 'f completed_queue" where
  "cq_do (CqPush f) q = (case cq_push_back f q of (Inl e, q') \<Rightarrow> (Full, q') | (Inr u, q') \<Rightarrow> (Pushed, q'))"
| "cq_do (CqRetain keep) q = (Done, cq_retain keep q)"
| "cq_do (CqTakeFirst p) q =
     (case cq_position p q of None \<Rightarrow> (Taken None, q) | Some i \<Rightarrow> (case cq_remove i q of (f, q') \<Rightarrow> (Taken f, q')))"
| "cq_do CqClear q = (Done, cq_clear q)"

fun list_do :: "'f cq_call \<Rightarrow> 'f list \<Rightarrow> 'f cq_answer \<times> 'f list" where
  "list_do (CqPush f) fs = (if length fs < AVD_COMPLETED_FRAME_QUEUE_LEN then (Pushed, fs @ [f]) else (Full, fs))"
| "list_do (CqRetain keep) fs = (Done, filter keep fs)"
| "list_do (CqTakeFirst p) fs =
     (case dropWhile (\<lambda>f. \<not> p f) fs of [] \<Rightarrow> (Taken None, fs) | f # gs \<Rightarrow> (Taken (Some f), takeWhile (\<lambda>f. \<not> p f) fs @ gs))"
| "list_do CqClear fs = (Done, [])"

fun run_calls :: "('c \<Rightarrow> 's \<Rightarrow> 'r \<times> 's) \<Rightarrow> 'c list \<Rightarrow> 's \<Rightarrow> 'r list \<times> 's" where
  "run_calls f [] s = ([], s)"
| "run_calls f (c # cs) s = (case f c s of (r, s') \<Rightarrow> (case run_calls f cs s' of (rs, s'') \<Rightarrow> (r # rs, s'')))"

lemma find_index:
  "find (\<lambda>i. p (fs ! i)) [0..<length fs] =
    (if \<exists>f \<in> set fs. p f then Some (length (takeWhile (\<lambda>f. \<not> p f) fs)) else None)"
proof (induction fs)
  case (Cons f fs)
  have "find (\<lambda>i. p ((f # fs) ! i)) (map Suc xs) = map_option Suc (find (\<lambda>i. p (fs ! i)) xs)" for xs
    by (induction xs) auto
  moreover have "[0..<length (f # fs)] = 0 # map Suc [0..<length fs]"
    by (subst upt_rec) (simp add: map_Suc_upt)
  ultimately show ?case
    using Cons.IH by simp
qed simp

lemma push_refines:
  assumes "cq_holds q fs"
  shows "fst (cq_do (CqPush f) q) = fst (list_do (CqPush f) fs) \<and> cq_holds (snd (cq_do (CqPush f) q)) (snd (list_do (CqPush f) fs))"
proof (cases "length fs < AVD_COMPLETED_FRAME_QUEUE_LEN")
  case True
  then obtain q' where "cq_push_back f q = (Inr (), q')" "cq_holds q' (fs @ [f])"
    using cq_push_holds [OF assms, of f] by (metis less_irrefl)
  with True show ?thesis
    by simp
next
  case False
  then have "length fs = AVD_COMPLETED_FRAME_QUEUE_LEN"
    using assms by (simp add: cq_holds_def)
  then have "cq_push_back f q = (Inl ''apple-avd: decoded frame queue is full'', q)"
    using cq_push_holds(1) [OF assms, of f] by simp
  with False assms show ?thesis
    by simp
qed

lemma take_first_refines:
  assumes q: "cq_holds q fs"
  shows "fst (cq_do (CqTakeFirst p) q) = fst (list_do (CqTakeFirst p) fs) \<and>
    cq_holds (snd (cq_do (CqTakeFirst p) q)) (snd (list_do (CqTakeFirst p) fs))"
proof (cases "\<exists>f \<in> set fs. p f")
  case True
  define i where "i = length (takeWhile (\<lambda>f. \<not> p f) fs)"
  have "takeWhile (\<lambda>f. \<not> p f) fs \<noteq> fs"
    using True by (metis takeWhile_eq_all_conv)
  then have i: "i < length fs"
    unfolding i_def using length_takeWhile_le [of "\<lambda>f. \<not> p f" fs] takeWhile_eq_take [of "\<lambda>f. \<not> p f" fs]
    by (metis le_neq_implies_less take_all_iff)
  have "cq_position p q = Some i"
    using True by (simp add: cq_position_holds [OF q] find_index i_def)
  moreover have "dropWhile (\<lambda>f. \<not> p f) fs = fs ! i # drop (Suc i) fs" "takeWhile (\<lambda>f. \<not> p f) fs = take i fs"
    using i by (simp_all add: dropWhile_eq_drop i_def Cons_nth_drop_Suc flip: takeWhile_eq_take)
  moreover have "cq_remove i q = (Some (fs ! i), snd (cq_remove i q))" "cq_holds (snd (cq_remove i q)) (take i fs @ drop (Suc i) fs)"
    using cq_remove_holds [OF q i] by (metis prod.collapse, simp)
  ultimately show ?thesis
    by (cases "cq_remove i q") simp
next
  case False
  then have none: "dropWhile (\<lambda>f. \<not> p f) fs = []" "cq_position p q = None"
    by (auto simp: cq_position_holds [OF q] find_index dropWhile_eq_Nil_conv)
  show ?thesis
    using q by (simp add: none)
qed

lemma cq_do_refines:
  assumes "cq_holds q fs"
  shows "fst (cq_do c q) = fst (list_do c fs) \<and> cq_holds (snd (cq_do c q)) (snd (list_do c fs))"
proof (cases c)
  case (CqPush f)
  then show ?thesis
    using push_refines [OF assms] by simp
next
  case (CqTakeFirst p)
  then show ?thesis
    using take_first_refines [OF assms] by simp
qed (use assms in \<open>simp_all add: cq_retain_holds cq_clear_holds\<close>)

lemma calls_refine:
  "cq_holds q fs \<Longrightarrow> fst (run_calls cq_do cs q) = fst (run_calls list_do cs fs) \<and>
    cq_holds (snd (run_calls cq_do cs q)) (snd (run_calls list_do cs fs))"
proof (induction cs arbitrary: q fs)
  case (Cons c cs)
  obtain r q' where 1: "cq_do c q = (r, q')"
    by (cases "cq_do c q")
  then obtain fs' where 2: "list_do c fs = (r, fs')" "cq_holds q' fs'"
    using cq_do_refines [OF Cons.prems, of c] by (cases "list_do c fs") simp
  then show ?case
    using 1 Cons.IH [OF 2(2)] by (auto split: prod.splits)
qed simp

text \<open>
  C39. The queue of decoded frames is a bounded list: whatever frames are queued, taken for a stream,
  thrown away with their stream or cleared, every answer is the one a list of at most 68 frames gives,
  in order, with nothing lost or duplicated; a frame is refused only when 68 are waiting.
\<close>

theorem queue_is_list:
  "fst (run_calls cq_do cs (cq_new :: decoded_frame completed_queue)) = fst (run_calls list_do cs []) \<and>
    cq_holds (snd (run_calls cq_do cs cq_new)) (snd (run_calls list_do cs []))"
  by (rule calls_refine [OF cq_holds_new])

end
