(* ===== verification/AvdSession.thy ===== *)
theory AvdSession
  imports AvdH264Stream AvdOutput AvdQueue
begin

text \<open>
  A session of the video decoder (\<^verbatim>\<open>AvdBackendSession\<close>, \<^verbatim>\<open>AvdH264ResourcePlan\<close> and
  \<^verbatim>\<open>AvdSessionWorkspace\<close> in \<^verbatim>\<open>drivers/video/apple-avd/src/lib.rs\<close>): its table of reference frames, the
  slots of its output and of its workspace, and what they keep. Pages and DMA mappings are the
  kernel's; a mapping is the address it gave. The state that only the disabled VP9 path uses is left
  out.
\<close>

section \<open>Data\<close>

definition AVD_DMA_GRANULE :: nat where "AVD_DMA_GRANULE = 0x4000"
definition AVD_MAPPED_INPUT_BYTES :: nat where "AVD_MAPPED_INPUT_BYTES = 8 * 1024 * 1024"
definition AVD_WORKSPACE_INST_FIFO_OFFSET :: nat where "AVD_WORKSPACE_INST_FIFO_OFFSET = 0x4000"
definition AVD_WORKSPACE_INST_FIFO_BYTES :: nat where "AVD_WORKSPACE_INST_FIFO_BYTES = 0x100000"
definition AVD_WORKSPACE_PPS_TILE_OFFSET :: nat where "AVD_WORKSPACE_PPS_TILE_OFFSET = 0x140000"
definition AVD_WORKSPACE_REFERENCE_OFFSET :: nat where "AVD_WORKSPACE_REFERENCE_OFFSET = 0x400000"
definition AVD_H264_EXTRA_DECODE_SLOTS :: nat where "AVD_H264_EXTRA_DECODE_SLOTS = 1"
definition AVD_OUTPUT_SLOT_PAYLOAD_OFFSET :: nat where "AVD_OUTPUT_SLOT_PAYLOAD_OFFSET = AVD_DMA_GRANULE"

record reference_frame =
  rf_slot :: nat
  rf_frame_number :: u32
  rf_timestamp :: u64
  rf_layout :: decoded_layout
  rf_reference_dma_addr :: u64
  rf_sps_tile_dma_addr :: u64
  rf_frame_num :: u16
  rf_pic_num :: "32 word"
  rf_top_field_order_cnt :: "32 word"
  rf_long_term :: bool

record mapped_pool =
  mp_paddr :: nat
  mp_vaddr :: nat
  mp_len :: nat
  mp_dma_addr :: u64

definition pool_matches :: "nat \<Rightarrow> nat \<Rightarrow> nat \<Rightarrow> mapped_pool \<Rightarrow> bool" where
  "pool_matches paddr vaddr len p \<longleftrightarrow> mp_paddr p = paddr \<and> mp_vaddr p = vaddr \<and> mp_len p = len"

record session_workspace =
  wk_vaddr :: nat
  wk_dma_addr :: u64
  wk_byte_len :: nat
  wk_reference_slot_span :: nat
  wk_slot_count :: nat

record resource_plan =
  rs_layout :: frame_layout
  rs_input_map_len :: nat
  rs_output_map_len :: nat
  rs_payload_len :: nat
  rs_slot_span :: nat
  rs_slot_count :: nat
  rs_dpb_capacity :: nat
  rs_max_references :: nat

record reference_output =
  ro_slot :: nat
  ro_slot_count :: nat
  ro_dpb_capacity :: nat
  ro_dma_addr :: u64
  ro_vaddr :: nat
  ro_header_vaddr :: nat
  ro_payload_offset :: nat
  ro_len :: nat

record decode_request =
  vr_stream_id :: u32
  vr_coded_format :: u32
  vr_timestamp :: u64
  vr_input_paddr :: nat
  vr_input_vaddr :: nat
  vr_input_len :: u32
  vr_output_paddr :: nat
  vr_output_vaddr :: nat
  vr_output_len :: u32
  vr_output_offset :: u32

record backend_session =
  ss_stream_id :: u32
  ss_active :: bool
  ss_quarantined :: bool
  ss_coded_format :: u32
  ss_next_frame :: u32
  ss_stream_parameters :: "h264_stream option"
  ss_workspace :: "session_workspace option"
  ss_input_pool :: "mapped_pool option"
  ss_output_pool :: "mapped_pool option"
  ss_reference_frames :: "reference_frame option list"
  ss_reference_frame_count :: nat
  ss_next_reference_slot :: nat
  ss_reference_slot_len :: nat
  ss_active_slot_count :: nat
  ss_dpb_capacity :: nat

section \<open>Workspace\<close>

definition align_up_usize :: "nat \<Rightarrow> nat \<Rightarrow> nat" where
  "align_up_usize v align = unat (h264_align_up (of_nat v :: u64) (of_nat align))"

definition h264_reference_slot_span :: "frame_layout \<Rightarrow> string + nat" where
  "h264_reference_slot_span l =
     (case usize_add (align_up_usize (unat (rvra_len l)) AVD_DMA_GRANULE) (align_up_usize (sps_scratch_len l) AVD_DMA_GRANULE) of
        None \<Rightarrow> Inl ''apple-avd: reference workspace slot size overflow''
      | Some n \<Rightarrow> Inr (align_up_usize n AVD_DMA_GRANULE))"

text \<open>\<open>pages\<close> and \<open>mapping\<close> are what the kernel returns for the allocation and its mapping.\<close>

definition workspace_new_h264 ::
  "nat \<Rightarrow> nat option \<Rightarrow> u64 option \<Rightarrow> frame_layout \<Rightarrow> nat \<Rightarrow> string + session_workspace" where
  "workspace_new_h264 granule pages mapping l slot_count =
     (if slot_count = 0 \<or> AVD_H264_OUTPUT_SLOTS < slot_count then Inl ''apple-avd: invalid workspace slot count''
      else case h264_reference_slot_span l of
        Inl e \<Rightarrow> Inl e
      | Inr span \<Rightarrow> (case Option.bind (usize_mul span slot_count) (usize_add AVD_WORKSPACE_REFERENCE_OFFSET) of
          None \<Rightarrow> Inl ''apple-avd: workspace size overflow''
        | Some required \<Rightarrow> (case pages of
            None \<Rightarrow> Inl ''apple-avd: workspace allocation failed''
          | Some vaddr \<Rightarrow> (case mapping of
              None \<Rightarrow> Inl ''apple-avd: workspace DMA map failed''
            | Some dma_addr \<Rightarrow> Inr \<lparr>wk_vaddr = vaddr, wk_dma_addr = dma_addr,
                wk_byte_len = align_up_usize required (max granule AVD_DMA_GRANULE),
                wk_reference_slot_span = span, wk_slot_count = slot_count\<rparr>))))"

definition is_compatible_h264 :: "frame_layout \<Rightarrow> nat \<Rightarrow> session_workspace \<Rightarrow> bool" where
  "is_compatible_h264 l slot_count w \<longleftrightarrow>
     slot_count \<le> wk_slot_count w \<and> h264_reference_slot_span l = Inr (wk_reference_slot_span w)"

definition addresses_for_h264_slot :: "session_workspace \<Rightarrow> nat \<Rightarrow> frame_layout \<Rightarrow> string + h264_workspace" where
  "addresses_for_h264_slot w slot l =
     (if wk_slot_count w \<le> slot then Inl ''apple-avd: invalid reference slot''
      else case usize_mul slot (wk_reference_slot_span w) of
        None \<Rightarrow> Inl ''apple-avd: reference workspace offset overflow''
      | Some off \<Rightarrow>
          (let reference = wk_dma_addr w + of_nat (AVD_WORKSPACE_REFERENCE_OFFSET + off)
           in Inr \<lparr>hw_instruction_fifo_dma_addr = wk_dma_addr w + of_nat AVD_WORKSPACE_INST_FIFO_OFFSET,
                hw_pps_tile_dma_addr = wk_dma_addr w + of_nat AVD_WORKSPACE_PPS_TILE_OFFSET,
                hw_sps_tile_dma_addr = reference + of_nat (align_up_usize (unat (rvra_len l)) AVD_DMA_GRANULE),
                hw_reference_dma_addr = reference, hw_reference_offsets = rvra_offsets l\<rparr>))"

section \<open>The plan of a request\<close>

definition resource_plan_new :: "h264_abi \<Rightarrow> nat \<Rightarrow> decode_request \<Rightarrow> h264_stream \<Rightarrow> bool \<Rightarrow> string + resource_plan" where
  "resource_plan_new K granule rq st store_reference =
     (let l = nv12_layout K st; payload_len = output_len l
      in case usize_add AVD_OUTPUT_SLOT_PAYLOAD_OFFSET payload_len of
           None \<Rightarrow> Inl ''apple-avd: output slot size overflow''
         | Some n \<Rightarrow>
             (let slot_span = align_up_usize n AVD_DMA_GRANULE;
                  references = min (unat (hs_max_num_ref_frames st)) AVD_REFERENCE_FRAME_TABLE_LEN;
                  dpb_capacity = (if store_reference \<and> references = 0 then 1 else references);
                  minimum_slot_count = min (max (dpb_capacity + AVD_H264_EXTRA_DECODE_SLOTS) 1) AVD_H264_OUTPUT_SLOTS;
                  slot_count = min (max (unat (vr_output_len rq) div slot_span) 1) AVD_H264_OUTPUT_SLOTS;
                  mapping_granule = max granule AVD_DMA_GRANULE
              in if payload_len = 0 \<or> slot_count < minimum_slot_count
                 then Inl ''apple-avd: decoded frame exceeds mapped output slot pool''
                 else Inr \<lparr>rs_layout = l, rs_input_map_len = align_up_usize AVD_MAPPED_INPUT_BYTES mapping_granule,
                   rs_output_map_len = align_up_usize (unat (vr_output_len rq)) mapping_granule,
                   rs_payload_len = payload_len, rs_slot_span = slot_span, rs_slot_count = slot_count,
                   rs_dpb_capacity = dpb_capacity, rs_max_references = references\<rparr>))"

section \<open>Reference frames\<close>

definition session_new :: "nat \<Rightarrow> backend_session" where
  "session_new index = \<lparr>ss_stream_id = of_nat (Suc index), ss_active = False, ss_quarantined = False, ss_coded_format = 0,
     ss_next_frame = 0, ss_stream_parameters = None, ss_workspace = None, ss_input_pool = None, ss_output_pool = None,
     ss_reference_frames = replicate AVD_REFERENCE_FRAME_TABLE_LEN None, ss_reference_frame_count = 0,
     ss_next_reference_slot = 0, ss_reference_slot_len = 0, ss_active_slot_count = 0, ss_dpb_capacity = 0\<rparr>"

definition clear_reference_frames :: "backend_session \<Rightarrow> backend_session" where
  "clear_reference_frames s =
     s\<lparr>ss_reference_frames := map (\<lambda>_. None) (ss_reference_frames s), ss_reference_frame_count := 0\<rparr>"

definition session_reset :: "backend_session \<Rightarrow> backend_session" where
  "session_reset s = (clear_reference_frames (s\<lparr>ss_active := False, ss_quarantined := False, ss_coded_format := 0,
     ss_next_frame := 0, ss_stream_parameters := None, ss_workspace := None, ss_input_pool := None,
     ss_output_pool := None\<rparr>))\<lparr>ss_next_reference_slot := 0, ss_reference_slot_len := 0, ss_active_slot_count := 0,
     ss_dpb_capacity := 0\<rparr>"

definition reference_frames :: "backend_session \<Rightarrow> reference_frame list" where
  "reference_frames s = map the (filter (\<lambda>e. e \<noteq> None) (ss_reference_frames s))"

definition retain_reference_frames :: "(reference_frame \<Rightarrow> bool) \<Rightarrow> backend_session \<Rightarrow> backend_session" where
  "retain_reference_frames keep s =
     (let remove = (\<lambda>e. case e of None \<Rightarrow> False | Some f \<Rightarrow> \<not> keep f)
      in s\<lparr>ss_reference_frames := map (\<lambda>e. if remove e then None else e) (ss_reference_frames s),
           ss_reference_frame_count := ss_reference_frame_count s - length (filter remove (ss_reference_frames s))\<rparr>)"

definition remove_reference_slot :: "nat \<Rightarrow> backend_session \<Rightarrow> backend_session" where
  "remove_reference_slot slot s = retain_reference_frames (\<lambda>f. rf_slot f \<noteq> slot) s"

definition oldest_reference_frame :: "reference_frame option list \<Rightarrow> (nat \<times> u32) option" where
  "oldest_reference_frame frames =
     fold (\<lambda>(index, e) acc. case e of None \<Rightarrow> acc
         | Some f \<Rightarrow> (case acc of None \<Rightarrow> Some (index, rf_frame_number f)
             | Some (i, n) \<Rightarrow> if rf_frame_number f < n then Some (index, rf_frame_number f) else acc))
       (enumerate 0 frames) None"

definition remove_oldest_reference_frame :: "backend_session \<Rightarrow> backend_session" where
  "remove_oldest_reference_frame s =
     (case oldest_reference_frame (ss_reference_frames s) of
        None \<Rightarrow> s
      | Some (index, _) \<Rightarrow> s\<lparr>ss_reference_frames := (ss_reference_frames s)[index := None],
          ss_reference_frame_count := ss_reference_frame_count s - 1\<rparr>)"

text \<open>The loop of \<open>trim_reference_frames\<close>; a table with fewer frames than its count would keep it
  running.\<close>

partial_function (option) trim_reference_frames :: "nat \<Rightarrow> backend_session \<Rightarrow> backend_session option" where
  "trim_reference_frames target s =
     (if target < ss_reference_frame_count s then trim_reference_frames target (remove_oldest_reference_frame s) else Some s)"

definition insert_reference_frame :: "reference_frame \<Rightarrow> backend_session \<Rightarrow> (string + unit) \<times> backend_session" where
  "insert_reference_frame f s =
     (let s = remove_reference_slot (rf_slot f) s;
          s = (if AVD_REFERENCE_FRAME_TABLE_LEN \<le> ss_reference_frame_count s then remove_oldest_reference_frame s else s)
      in case find (\<lambda>i. ss_reference_frames s ! i = None) [0..<length (ss_reference_frames s)] of
           None \<Rightarrow> (Inl ''apple-avd: reference frame table is full'', s)
         | Some i \<Rightarrow> (Inr (), s\<lparr>ss_reference_frames := (ss_reference_frames s)[i := Some f],
             ss_reference_frame_count := Suc (ss_reference_frame_count s)\<rparr>))"

definition dpb_entry_matches_reference :: "h264_abi \<Rightarrow> dpb_entry \<Rightarrow> reference_frame \<Rightarrow> bool" where
  "dpb_entry_matches_reference K e f \<longleftrightarrow>
     has_flag (de_flags e) (DPB_VALID K) \<and>
     (rf_timestamp f \<noteq> 0 \<and> de_reference_ts e = rf_timestamp f
      \<or> rf_frame_num f = de_frame_num e \<and> rf_top_field_order_cnt f = de_top_field_order_cnt e
        \<and> rf_long_term f = has_flag (de_flags e) (DPB_LONG_TERM K)
      \<or> rf_top_field_order_cnt f = de_top_field_order_cnt e \<and> rf_pic_num f = de_pic_num e)"

definition prune_reference_frames_for_dpb ::
  "h264_abi \<Rightarrow> dpb_entry list \<Rightarrow> nat \<Rightarrow> backend_session \<Rightarrow> (nat \<times> backend_session) option" where
  "prune_reference_frames_for_dpb K dpb max_references s =
     (let valid_entries = length (filter (\<lambda>e. has_flag (de_flags e) (DPB_VALID K)) dpb);
          target = min (min valid_entries max_references) AVD_REFERENCE_FRAME_TABLE_LEN
      in if target = 0 then Some (valid_entries, clear_reference_frames s)
         else map_option (Pair valid_entries) (trim_reference_frames target
           (retain_reference_frames (\<lambda>f. list_ex (\<lambda>e. dpb_entry_matches_reference K e f) dpb) s)))"

definition h264_reference_pictures_from_dpb :: "h264_abi \<Rightarrow> dpb_entry list \<Rightarrow> reference_frame option list \<Rightarrow> reference_picture list" where
  "h264_reference_pictures_from_dpb K dpb frames =
     take AVD_REFERENCE_FRAME_TABLE_LEN (concat (map (\<lambda>e.
       case find (dpb_entry_matches_reference K e) (map the (filter (\<lambda>e. e \<noteq> None) frames)) of
         None \<Rightarrow> []
       | Some f \<Rightarrow> [\<lparr>rp_timestamp = rf_timestamp f, rp_reference_dma_addr = rf_reference_dma_addr f,
           rp_sps_tile_dma_addr = rf_sps_tile_dma_addr f, rp_frame_num = rf_frame_num f, rp_pic_num = rf_pic_num f,
           rp_top_field_order_cnt = rf_top_field_order_cnt f, rp_long_term = rf_long_term f\<rparr>])
       (filter (\<lambda>e. has_flag (de_flags e) (DPB_VALID K)) dpb)))"

section \<open>Output slots\<close>

definition mapped_input_dma :: "nat \<Rightarrow> nat \<Rightarrow> nat \<Rightarrow> backend_session \<Rightarrow> string + u64" where
  "mapped_input_dma paddr vaddr len s =
     (case ss_input_pool s of
        None \<Rightarrow> Inl ''apple-avd: input DMA resources were not prepared''
      | Some pool \<Rightarrow> if pool_matches paddr vaddr len pool then Inr (mp_dma_addr pool)
          else Inl ''apple-avd: input DMA resources were not prepared'')"

definition slots_reset :: "resource_plan \<Rightarrow> backend_session \<Rightarrow> bool" where
  "slots_reset plan s \<longleftrightarrow> ss_reference_slot_len s \<noteq> rs_slot_span plan \<or> ss_active_slot_count s \<noteq> rs_slot_count plan
     \<or> ss_dpb_capacity s \<noteq> rs_dpb_capacity plan"

definition preview_slot :: "resource_plan \<Rightarrow> bool \<Rightarrow> backend_session \<Rightarrow> nat option" where
  "preview_slot plan is_idr s =
     (if is_idr \<or> slots_reset plan s then Some 0
      else find (\<lambda>c. list_all (\<lambda>f. rf_slot f \<noteq> c) (reference_frames s))
        (map (\<lambda>offset. (ss_next_reference_slot s + offset) mod rs_slot_count plan) [0..<rs_slot_count plan]))"

definition preview_mapped_output ::
  "decode_request \<Rightarrow> resource_plan \<Rightarrow> bool \<Rightarrow> u32 \<Rightarrow> backend_session \<Rightarrow> string + reference_output" where
  "preview_mapped_output rq plan is_idr header_len s =
     (case ss_output_pool s of
        None \<Rightarrow> Inl ''apple-avd: output DMA resources were not prepared''
      | Some pool \<Rightarrow>
          if \<not> pool_matches (vr_output_paddr rq) (vr_output_vaddr rq) (rs_output_map_len plan) pool
          then Inl ''apple-avd: output DMA resources were not prepared''
          else if \<not> (case ss_workspace s of None \<Rightarrow> False | Some w \<Rightarrow> is_compatible_h264 (rs_layout plan) (rs_slot_count plan) w)
          then Inl ''apple-avd: H.264 workspace was not prepared''
          else (case preview_slot plan is_idr s of
              None \<Rightarrow> Inl ''apple-avd: no free output reference slot''
            | Some slot \<Rightarrow> (case usize_mul slot (rs_slot_span plan) of
                None \<Rightarrow> Inl ''apple-avd: output slot offset overflow''
              | Some slot_offset \<Rightarrow> (case usize_add slot_offset AVD_OUTPUT_SLOT_PAYLOAD_OFFSET of
                  None \<Rightarrow> Inl ''apple-avd: output payload offset overflow''
                | Some payload_offset \<Rightarrow> (case usize_add payload_offset (rs_payload_len plan) of
                    None \<Rightarrow> Inl ''apple-avd: output payload end overflow''
                  | Some payload_end \<Rightarrow>
                      if unat (vr_output_len rq) < payload_end
                      then Inl ''apple-avd: output payload exceeds mapped output slot pool''
                      else if payload_offset < unat header_len then Inl ''apple-avd: output header offset underflow''
                      else Inr \<lparr>ro_slot = slot, ro_slot_count = rs_slot_count plan, ro_dpb_capacity = rs_dpb_capacity plan,
                        ro_dma_addr = mp_dma_addr pool + of_nat payload_offset,
                        ro_vaddr = mp_vaddr pool + payload_offset,
                        ro_header_vaddr = mp_vaddr pool + (payload_offset - unat header_len),
                        ro_payload_offset = unat (vr_output_offset rq) + payload_offset,
                        ro_len = rs_payload_len plan\<rparr>)))))"

definition prepare_mapped_output ::
  "decode_request \<Rightarrow> resource_plan \<Rightarrow> bool \<Rightarrow> u32 \<Rightarrow> backend_session \<Rightarrow> (string + reference_output) \<times> backend_session" where
  "prepare_mapped_output rq plan is_idr header_len s =
     (case preview_mapped_output rq plan is_idr header_len s of
        Inl e \<Rightarrow> (Inl e, s)
      | Inr out \<Rightarrow>
          (let s = (if is_idr then (clear_reference_frames s)\<lparr>ss_next_reference_slot := 0\<rparr> else s);
               s = (if slots_reset plan s
                 then (clear_reference_frames s)\<lparr>ss_next_reference_slot := 0, ss_reference_slot_len := rs_slot_span plan,
                   ss_active_slot_count := rs_slot_count plan, ss_dpb_capacity := rs_dpb_capacity plan\<rparr>
                 else s)
           in (Inr out, s\<lparr>ss_next_reference_slot := (ro_slot out + 1) mod rs_slot_count plan\<rparr>)))"

section \<open>The table of reference frames\<close>

definition frames_of :: "'a option list \<Rightarrow> 'a list" where
  "frames_of xs = map the (filter (\<lambda>e. e \<noteq> None) xs)"

lemma frames_of_simps [simp]:
  "frames_of [] = []" "frames_of (None # xs) = frames_of xs" "frames_of (Some f # xs) = f # frames_of xs"
  "frames_of (xs @ ys) = frames_of xs @ frames_of ys"
  by (simp_all add: frames_of_def)

lemma reference_frames_eq: "reference_frames s = frames_of (ss_reference_frames s)"
  by (simp add: reference_frames_def frames_of_def)

lemma frames_of_none [simp]: "frames_of (map (\<lambda>_. None) xs) = []" "frames_of (replicate n None) = []"
  by (simp_all add: frames_of_def filter_replicate)

lemma set_frames_of: "set (frames_of xs) = {f. Some f \<in> set xs}"
  by (induction xs) (auto simp: frames_of_def)

lemma length_frames_of: "length (frames_of xs) \<le> length xs"
  by (simp add: frames_of_def le_trans [OF length_filter_le])

lemma frames_of_update:
  assumes "i < length xs"
  obtains us vs where "frames_of xs = us @ frames_of [xs ! i] @ vs" and "\<And>e. frames_of (xs[i := e]) = us @ frames_of [e] @ vs"
proof
  have "xs = take i xs @ [xs ! i] @ drop (Suc i) xs"
    using id_take_nth_drop [OF assms] by simp
  then have "frames_of xs = frames_of (take i xs @ [xs ! i] @ drop (Suc i) xs)"
    by simp
  then show "frames_of xs = frames_of (take i xs) @ frames_of [xs ! i] @ frames_of (drop (Suc i) xs)"
    by (simp only: frames_of_simps)
  show "frames_of (xs[i := e]) = frames_of (take i xs) @ frames_of [e] @ frames_of (drop (Suc i) xs)" for e
    unfolding upd_conv_take_nth_drop [OF assms] frames_of_simps(4) [symmetric] by simp
qed

text \<open>The table has its fixed size, counts its frames, and no two of them are in one slot.\<close>

definition session_ok :: "backend_session \<Rightarrow> bool" where
  "session_ok s \<longleftrightarrow> length (ss_reference_frames s) = AVD_REFERENCE_FRAME_TABLE_LEN \<and>
     ss_reference_frame_count s = length (reference_frames s) \<and> distinct (map rf_slot (reference_frames s))"

lemma session_ok_new: "session_ok (session_new i)"
  by (simp add: session_ok_def session_new_def reference_frames_eq)

lemma clear_frames [simp]: "reference_frames (clear_reference_frames s) = []"
  by (simp add: clear_reference_frames_def reference_frames_eq)

lemma session_ok_clear: "session_ok s \<Longrightarrow> session_ok (clear_reference_frames s)"
  by (simp add: session_ok_def reference_frames_eq clear_reference_frames_def)

lemma session_ok_cong:
  "ss_reference_frames s' = ss_reference_frames s \<Longrightarrow> ss_reference_frame_count s' = ss_reference_frame_count s \<Longrightarrow>
    session_ok s' = session_ok s"
  by (simp add: session_ok_def reference_frames_eq)

lemma session_ok_reset: "session_ok s \<Longrightarrow> session_ok (session_reset s)"
  by (simp add: session_ok_def reference_frames_eq session_reset_def clear_reference_frames_def)

lemma retain_frames: "reference_frames (retain_reference_frames keep s) = filter keep (reference_frames s)"
proof -
  have "frames_of (map (\<lambda>e. if (case e of None \<Rightarrow> False | Some f \<Rightarrow> \<not> keep f) then None else e) xs) = filter keep (frames_of xs)"
    for xs
  proof (induction xs)
    case (Cons e xs)
    then show ?case
      by (cases e) auto
  qed simp
  then show ?thesis
    by (simp add: retain_reference_frames_def Let_def reference_frames_eq)
qed

lemma retain_count: "length (filter (\<lambda>e. case e of None \<Rightarrow> False | Some f \<Rightarrow> \<not> keep f) xs) + length (filter keep (frames_of xs)) = length (frames_of xs)"
proof (induction xs)
  case (Cons e xs)
  then show ?case
    by (cases e) auto
qed simp

lemma session_ok_retain:
  assumes "session_ok s"
  shows "session_ok (retain_reference_frames keep s)"
proof -
  have "distinct (map rf_slot (filter keep (reference_frames s)))"
    using assms by (simp add: session_ok_def distinct_map_filter)
  moreover have "ss_reference_frame_count s - length (filter (\<lambda>e. case e of None \<Rightarrow> False | Some f \<Rightarrow> \<not> keep f) (ss_reference_frames s))
      = length (filter keep (reference_frames s))"
    using assms retain_count [of keep "ss_reference_frames s"] by (simp add: session_ok_def reference_frames_eq)
  ultimately show ?thesis
    using assms unfolding session_ok_def retain_frames by (simp add: retain_reference_frames_def Let_def)
qed

lemma oldest:
  "(oldest_reference_frame xs = None \<longleftrightarrow> frames_of xs = []) \<and>
   (\<forall>i n. oldest_reference_frame xs = Some (i, n) \<longrightarrow>
     i < length xs \<and> (\<exists>f. xs ! i = Some f \<and> rf_frame_number f = n) \<and> (\<forall>g\<in>set (frames_of xs). n \<le> rf_frame_number g))"
proof (induction xs rule: rev_induct)
  case (snoc e xs)
  have step: "oldest_reference_frame (xs @ [e]) = (case e of None \<Rightarrow> oldest_reference_frame xs
      | Some f \<Rightarrow> (case oldest_reference_frame xs of None \<Rightarrow> Some (length xs, rf_frame_number f)
          | Some (i, n) \<Rightarrow> if rf_frame_number f < n then Some (length xs, rf_frame_number f) else Some (i, n)))"
    by (simp add: oldest_reference_frame_def enumerate_append_eq split: option.split)
  show ?case
  proof (cases e)
    case None
    have "oldest_reference_frame (xs @ [e]) = oldest_reference_frame xs"
      unfolding step by (simp add: None)
    with snoc None show ?thesis
      by (auto simp: nth_append)
  next
    case (Some f)
    show ?thesis
    proof (cases "oldest_reference_frame xs")
      case None
      have "oldest_reference_frame (xs @ [e]) = Some (length xs, rf_frame_number f)"
        unfolding step by (simp add: Some None)
      with snoc Some None show ?thesis
        by auto
    next
      case (Some p)
      obtain i n where p: "p = (i, n)"
        by (cases p)
      have "oldest_reference_frame (xs @ [e]) = (if rf_frame_number f < n then Some (length xs, rf_frame_number f) else Some (i, n))"
        unfolding step by (simp add: Some p \<open>e = Some f\<close>)
      with snoc Some \<open>e = Some f\<close> show ?thesis
        by (auto simp: nth_append p split: if_splits)
    qed
  qed
qed (simp add: oldest_reference_frame_def)

lemma remove_oldest:
  assumes "session_ok s" and "0 < ss_reference_frame_count s"
  obtains f us vs where "reference_frames s = us @ f # vs"
    and "reference_frames (remove_oldest_reference_frame s) = us @ vs"
    and "\<forall>g\<in>set (us @ vs). rf_frame_number f \<le> rf_frame_number g"
    and "session_ok (remove_oldest_reference_frame s)"
    and "ss_reference_frame_count (remove_oldest_reference_frame s) = ss_reference_frame_count s - 1"
proof -
  have "frames_of (ss_reference_frames s) \<noteq> []"
    using assms by (auto simp: session_ok_def reference_frames_eq)
  then obtain i n where old: "oldest_reference_frame (ss_reference_frames s) = Some (i, n)"
    using oldest [of "ss_reference_frames s"] by (cases "oldest_reference_frame (ss_reference_frames s)") auto
  then obtain f where f: "i < length (ss_reference_frames s)" "ss_reference_frames s ! i = Some f"
    and least: "\<forall>g\<in>set (frames_of (ss_reference_frames s)). rf_frame_number f \<le> rf_frame_number g"
    using oldest [of "ss_reference_frames s"] by auto
  obtain us vs where split: "frames_of (ss_reference_frames s) = us @ frames_of [Some f] @ vs"
    "\<And>e. frames_of ((ss_reference_frames s)[i := e]) = us @ frames_of [e] @ vs"
    using frames_of_update [OF f(1)] f(2) by metis
  have removed: "remove_oldest_reference_frame s = s\<lparr>ss_reference_frames := (ss_reference_frames s)[i := None],
      ss_reference_frame_count := ss_reference_frame_count s - 1\<rparr>"
    by (simp add: remove_oldest_reference_frame_def old)
  show thesis
    using split least assms
    by (intro that [of us f vs]) (auto simp: removed reference_frames_eq session_ok_def)
qed

text \<open>What trimming keeps: the newest frames.\<close>

lemma trim_Some:
  "session_ok s \<Longrightarrow> \<exists>s'. trim_reference_frames target s = Some s' \<and> session_ok s' \<and>
     ss_reference_frame_count s' = min target (ss_reference_frame_count s) \<and>
     set (reference_frames s') \<subseteq> set (reference_frames s) \<and>
     (\<forall>f\<in>set (reference_frames s) - set (reference_frames s'). \<forall>g\<in>set (reference_frames s'). rf_frame_number f \<le> rf_frame_number g)"
proof (induction "ss_reference_frame_count s" arbitrary: s)
  case 0
  then show ?case
    by (subst trim_reference_frames.simps) simp
next
  case (Suc n)
  show ?case
  proof (cases "target < ss_reference_frame_count s")
    case False
    then show ?thesis
      using Suc.prems by (subst trim_reference_frames.simps) simp
  next
    case True
    obtain f us vs where split: "reference_frames s = us @ f # vs"
      "reference_frames (remove_oldest_reference_frame s) = us @ vs"
      "\<forall>g\<in>set (us @ vs). rf_frame_number f \<le> rf_frame_number g"
      "session_ok (remove_oldest_reference_frame s)"
      "ss_reference_frame_count (remove_oldest_reference_frame s) = ss_reference_frame_count s - 1"
      using remove_oldest [OF Suc.prems] True by (metis gr_implies_not0 not_gr_zero)
    have "n = ss_reference_frame_count (remove_oldest_reference_frame s)"
      using split(5) Suc.hyps(2) by simp
    from Suc.hyps(1) [OF this split(4)] obtain s' where s':
      "trim_reference_frames target (remove_oldest_reference_frame s) = Some s'" "session_ok s'"
      "ss_reference_frame_count s' = min target n" "set (reference_frames s') \<subseteq> set (us @ vs)"
      "\<forall>f\<in>set (us @ vs) - set (reference_frames s'). \<forall>g\<in>set (reference_frames s'). rf_frame_number f \<le> rf_frame_number g"
      unfolding split(2) using \<open>n = _\<close> by metis
    have "trim_reference_frames target s = Some s'"
      using True s'(1) by (subst trim_reference_frames.simps) simp
    moreover have "min target n = min target (ss_reference_frame_count s)"
      using True Suc.hyps(2) by simp
    ultimately show ?thesis
      using s' split(1,3) by (intro exI [of _ s']) auto
  qed
qed

lemma insert_Inr:
  assumes "session_ok s"
  shows "\<exists>s'. insert_reference_frame f s = (Inr (), s') \<and> session_ok s' \<and> f \<in> set (reference_frames s') \<and>
     set (reference_frames s') \<subseteq> insert f {g \<in> set (reference_frames s). rf_slot g \<noteq> rf_slot f}"
proof -
  define s1 where "s1 = remove_reference_slot (rf_slot f) s"
  define s2 where "s2 = (if AVD_REFERENCE_FRAME_TABLE_LEN \<le> ss_reference_frame_count s1 then remove_oldest_reference_frame s1 else s1)"
  have s1: "session_ok s1" "reference_frames s1 = filter (\<lambda>g. rf_slot g \<noteq> rf_slot f) (reference_frames s)"
    using assms by (simp_all add: s1_def remove_reference_slot_def session_ok_retain retain_frames)
  have s2: "session_ok s2" "set (reference_frames s2) \<subseteq> set (reference_frames s1)"
    "ss_reference_frame_count s2 < AVD_REFERENCE_FRAME_TABLE_LEN"
  proof -
    have "session_ok s2 \<and> set (reference_frames s2) \<subseteq> set (reference_frames s1) \<and>
      ss_reference_frame_count s2 < AVD_REFERENCE_FRAME_TABLE_LEN"
    proof (cases "AVD_REFERENCE_FRAME_TABLE_LEN \<le> ss_reference_frame_count s1")
      case True
      then have "0 < ss_reference_frame_count s1"
        by (simp add: AVD_REFERENCE_FRAME_TABLE_LEN_def)
      from remove_oldest [OF s1(1) this] obtain us g vs where
        "reference_frames s1 = us @ g # vs" "reference_frames (remove_oldest_reference_frame s1) = us @ vs"
        "session_ok (remove_oldest_reference_frame s1)"
        "ss_reference_frame_count (remove_oldest_reference_frame s1) = ss_reference_frame_count s1 - 1"
        by metis
      moreover have "ss_reference_frame_count s1 \<le> AVD_REFERENCE_FRAME_TABLE_LEN"
        using s1(1) length_frames_of [of "ss_reference_frames s1"] by (simp add: session_ok_def reference_frames_eq)
      ultimately show ?thesis
        using True \<open>0 < _\<close> by (auto simp: s2_def)
    next
      case False
      then show ?thesis
        using s1(1) by (simp add: s2_def)
    qed
    then show "session_ok s2" "set (reference_frames s2) \<subseteq> set (reference_frames s1)"
      "ss_reference_frame_count s2 < AVD_REFERENCE_FRAME_TABLE_LEN"
      by auto
  qed
  have "\<not> (\<forall>i<length (ss_reference_frames s2). ss_reference_frames s2 ! i \<noteq> None)"
  proof
    assume "\<forall>i<length (ss_reference_frames s2). ss_reference_frames s2 ! i \<noteq> None"
    then have "filter (\<lambda>e. e \<noteq> None) (ss_reference_frames s2) = ss_reference_frames s2"
      by (auto simp: filter_id_conv in_set_conv_nth)
    then show False
      using s2(1,3) by (simp add: session_ok_def reference_frames_eq frames_of_def)
  qed
  then obtain i where find: "find (\<lambda>i. ss_reference_frames s2 ! i = None) [0..<length (ss_reference_frames s2)] = Some i"
    by (cases "find (\<lambda>i. ss_reference_frames s2 ! i = None) [0..<length (ss_reference_frames s2)]")
      (auto simp: find_None_iff)
  then have i: "i < length (ss_reference_frames s2)" "ss_reference_frames s2 ! i = None"
    by (auto simp: find_Some_iff)
  obtain us vs where split: "frames_of (ss_reference_frames s2) = us @ vs"
    "frames_of ((ss_reference_frames s2)[i := Some f]) = us @ f # vs"
    using frames_of_update [OF i(1)] i(2) by (metis frames_of_simps(1-3) append_Cons append_Nil)
  have fresh: "rf_slot f \<notin> rf_slot ` set (us @ vs)"
    using s2(2) s1(2) split(1) by (auto simp: reference_frames_eq)
  have run: "insert_reference_frame f s = (Inr (), s2\<lparr>ss_reference_frames := (ss_reference_frames s2)[i := Some f],
      ss_reference_frame_count := Suc (ss_reference_frame_count s2)\<rparr>)"
    using find unfolding insert_reference_frame_def Let_def s1_def [symmetric] s2_def [symmetric] by simp
  have "set (us @ vs) \<subseteq> {g \<in> set (reference_frames s). rf_slot g \<noteq> rf_slot f}"
    using s2(2) s1(2) split(1) by (auto simp: reference_frames_eq)
  with run s2(1) split fresh show ?thesis
    by (auto simp: session_ok_def reference_frames_eq)
qed

section \<open>Where a picture is decoded to\<close>

lemma unat_and_not_mask: "unat (x AND NOT (mask n)) = unat x div 2 ^ n * 2 ^ n" for x :: "'a::len word"
proof -
  have "x AND NOT (mask n) = push_bit n (drop_bit n x)"
    by (rule bit_word_eqI) (auto simp: bit_simps dest: bit_imp_le_length)
  then have "unat (x AND NOT (mask n)) = take_bit LENGTH('a) (push_bit n (unat (drop_bit n x)))"
    by (simp only: unsigned_push_bit_eq)
  also have "push_bit n (unat (drop_bit n x)) = unat x div 2 ^ n * 2 ^ n"
    by (simp only: unat_drop_bit_eq) (simp only: drop_bit_eq_div push_bit_eq_mult)
  also have "take_bit LENGTH('a) (unat x div 2 ^ n * 2 ^ n) = unat x div 2 ^ n * 2 ^ n"
    by (rule take_bit_nat_eq_self, rule le_less_trans [OF div_times_less_eq_dividend unsigned_less])
  finally show ?thesis .
qed

lemma align_up_granule:
  assumes "v + 0x3fff < 2 ^ 64"
  shows "align_up_usize v AVD_DMA_GRANULE = (v + 0x3fff) div 0x4000 * 0x4000"
proof -
  have m: "(0x3fff :: u64) = mask 14"
    by (simp add: mask_eq_exp_minus_1)
  have "h264_align_up (of_nat v :: u64) 0x4000 = of_nat (v + 0x3fff) AND NOT (mask 14)"
    unfolding h264_align_up_def m [symmetric] by (simp add: add.commute)
  moreover have "unat (of_nat (v + 0x3fff) :: u64) = v + 0x3fff"
    using assms by (simp only: unat_of_nat) simp
  ultimately show ?thesis
    unfolding align_up_usize_def AVD_DMA_GRANULE_def by (simp only: of_nat_numeral unat_and_not_mask) simp
qed

lemma align_up_ge:
  assumes "v + 0x3fff < 2 ^ 64"
  shows "v \<le> align_up_usize v AVD_DMA_GRANULE"
proof -
  have "(v + 0x3fff) mod 0x4000 < 0x4000"
    by simp
  then show ?thesis
    unfolding align_up_granule [OF assms] using div_mult_mod_eq [of "v + 0x3fff" "0x4000"] by linarith
qed

lemma from_stateless_sps_coded:
  assumes "from_stateless_sps K sps = Inr st"
  shows "hs_coded_width st \<le> 0x100000" and "hs_coded_height st \<le> 0x100000"
proof -
  have le: "(ucast w + 1) * 16 \<le> (0x100000 :: u32)" for w :: u16
  proof -
    have "unat w < 2 ^ 16"
      using unsigned_less [of w] by simp
    moreover from this have "unat (ucast w :: u32) = unat w"
      by (simp add: unsigned_ucast_eq take_bit_nat_eq_self)
    ultimately have "unat ((ucast w + 1) * 16 :: u32) = (unat w + 1) * 16"
      by (simp add: unat_word_ariths)
    then show ?thesis
      using \<open>unat w < 2 ^ 16\<close> by (simp add: word_le_nat_alt)
  qed
  show "hs_coded_width st \<le> 0x100000" "hs_coded_height st \<le> 0x100000"
    using assms le by (auto simp: from_stateless_sps_def Let_def split: if_splits)
qed

lemma output_len_bound:
  assumes "hs_coded_width st \<le> 0x100000" and "hs_coded_height st \<le> 0x100000"
  shows "output_len (nv12_layout K st) \<le> 2 ^ 42"
proof -
  define ys where "ys = unat (h264_align_up (hs_coded_width st) 64)"
  have "h264_align_up (hs_coded_width st) 64 = (hs_coded_width st + 63) AND NOT (mask 6)"
    by (simp add: h264_align_up_def mask_eq_exp_minus_1 add.commute)
  then have "ys \<le> unat (hs_coded_width st + 63)"
    by (simp only: ys_def unat_and_not_mask div_times_less_eq_dividend)
  also have "\<dots> \<le> 0x100000 + 63"
    using assms(1) by (simp add: word_le_nat_alt unat_word_ariths)
  finally have ys: "ys \<le> 2 ^ 21"
    by simp
  have h: "unat (hs_coded_height st) \<le> 2 ^ 20"
    using assms(2) by (simp add: word_le_nat_alt)
  have "ys * unat (hs_coded_height st) \<le> 2 ^ 21 * 2 ^ 20" "ys * (unat (hs_coded_height st) div 2) \<le> 2 ^ 21 * 2 ^ 20"
    using h by (intro mult_le_mono ys; simp)+
  then show ?thesis
    by (simp add: output_len_def nv12_layout_def Let_def ys_def)
qed

lemma resource_plan:
  assumes "resource_plan_new K granule rq st store = Inr plan"
    and "hs_coded_width st \<le> 0x100000" and "hs_coded_height st \<le> 0x100000"
  shows "0 < rs_slot_count plan" and "rs_slot_count plan \<le> AVD_H264_OUTPUT_SLOTS"
    and "rs_dpb_capacity plan < rs_slot_count plan"
    and "AVD_DMA_GRANULE + rs_payload_len plan \<le> rs_slot_span plan"
proof -
  define n where "n = AVD_DMA_GRANULE + output_len (nv12_layout K st)"
  have "n + 0x3fff < 2 ^ 64"
    using output_len_bound [OF assms(2,3), of K] by (simp add: n_def AVD_DMA_GRANULE_def)
  then have span: "n \<le> align_up_usize n AVD_DMA_GRANULE"
    by (rule align_up_ge)
  note plan = assms(1) [unfolded resource_plan_new_def Let_def usize_add_def AVD_OUTPUT_SLOT_PAYLOAD_OFFSET_def n_def [symmetric]]
  show "0 < rs_slot_count plan" "rs_slot_count plan \<le> AVD_H264_OUTPUT_SLOTS"
    using plan by (auto simp: AVD_H264_OUTPUT_SLOTS_def split: if_splits)
  show "AVD_DMA_GRANULE + rs_payload_len plan \<le> rs_slot_span plan"
    using plan span by (auto simp: n_def split: if_splits)
  show "rs_dpb_capacity plan < rs_slot_count plan"
    using plan by (auto simp: AVD_H264_OUTPUT_SLOTS_def AVD_H264_EXTRA_DECODE_SLOTS_def AVD_REFERENCE_FRAME_TABLE_LEN_def
        split: if_splits)
qed

lemma preview:
  assumes "preview_mapped_output rq plan is_idr header_len s = Inr out"
  shows "preview_slot plan is_idr s = Some (ro_slot out)"
    and "ro_vaddr out = vr_output_vaddr rq + ro_slot out * rs_slot_span plan + AVD_DMA_GRANULE"
    and "ro_slot out * rs_slot_span plan + AVD_DMA_GRANULE + rs_payload_len plan \<le> unat (vr_output_len rq)"
    and "ro_header_vaddr out + unat header_len = ro_vaddr out"
    and "ro_len out = rs_payload_len plan"
proof -
  note run = assms [unfolded preview_mapped_output_def usize_add_def usize_mul_def AVD_OUTPUT_SLOT_PAYLOAD_OFFSET_def]
  show "preview_slot plan is_idr s = Some (ro_slot out)"
    using run by (auto split: option.splits if_splits)
  show "ro_vaddr out = vr_output_vaddr rq + ro_slot out * rs_slot_span plan + AVD_DMA_GRANULE"
    using run by (auto simp: pool_matches_def split: option.splits if_splits)
  show "ro_slot out * rs_slot_span plan + AVD_DMA_GRANULE + rs_payload_len plan \<le> unat (vr_output_len rq)"
    using run by (auto split: option.splits if_splits)
  show "ro_header_vaddr out + unat header_len = ro_vaddr out"
    using run by (auto split: option.splits if_splits)
  show "ro_len out = rs_payload_len plan"
    using run by (auto split: option.splits if_splits)
qed

lemma preview_slot_free:
  assumes "preview_slot plan is_idr s = Some slot" and "0 < rs_slot_count plan"
  shows "slot < rs_slot_count plan"
    and "\<not> is_idr \<Longrightarrow> \<not> slots_reset plan s \<Longrightarrow> slot \<notin> rf_slot ` set (reference_frames s)"
  using assms by (auto simp: preview_slot_def find_Some_iff list_all_iff split: if_splits)

lemma prepare:
  assumes "session_ok s" and "0 < rs_slot_count plan"
    and "prepare_mapped_output rq plan is_idr header_len s = (Inr out, s')"
  shows "preview_mapped_output rq plan is_idr header_len s = Inr out" and "session_ok s'"
    and "ro_slot out \<notin> rf_slot ` set (reference_frames s')" and "set (reference_frames s') \<subseteq> set (reference_frames s)"
    and "\<not> slots_reset plan s'"
proof -
  show prev: "preview_mapped_output rq plan is_idr header_len s = Inr out"
    using assms(3) by (auto simp: prepare_mapped_output_def Let_def split: sum.splits)
  define s1 where "s1 = (if is_idr then (clear_reference_frames s)\<lparr>ss_next_reference_slot := 0\<rparr> else s)"
  define s2 where "s2 = (if slots_reset plan s1
    then (clear_reference_frames s1)\<lparr>ss_next_reference_slot := 0, ss_reference_slot_len := rs_slot_span plan,
      ss_active_slot_count := rs_slot_count plan, ss_dpb_capacity := rs_dpb_capacity plan\<rparr> else s1)"
  have s': "s' = s2\<lparr>ss_next_reference_slot := (ro_slot out + 1) mod rs_slot_count plan\<rparr>"
    using assms(3) prev unfolding prepare_mapped_output_def Let_def s2_def s1_def by simp
  have frames: "reference_frames s' = (if is_idr \<or> slots_reset plan s then [] else reference_frames s)"
    unfolding s' s2_def s1_def by (auto simp: reference_frames_eq clear_reference_frames_def slots_reset_def)
  show "session_ok s'"
    using assms(1) unfolding s' s2_def s1_def
    by (auto simp: session_ok_def reference_frames_eq clear_reference_frames_def)
  show "ro_slot out \<notin> rf_slot ` set (reference_frames s')"
    using preview_slot_free [OF preview(1) [OF prev] assms(2)] by (auto simp: frames)
  show "set (reference_frames s') \<subseteq> set (reference_frames s)"
    by (simp add: frames)
  show "\<not> slots_reset plan s'"
    unfolding s' s2_def by (auto simp: slots_reset_def)
qed

text \<open>The bytes of a slot's payload in the output buffer.\<close>

definition slot_payload :: "resource_plan \<Rightarrow> nat \<Rightarrow> nat set" where
  "slot_payload plan slot =
     {slot * rs_slot_span plan + AVD_DMA_GRANULE ..< slot * rs_slot_span plan + AVD_DMA_GRANULE + rs_payload_len plan}"

lemma slots_disjoint:
  assumes "AVD_DMA_GRANULE + rs_payload_len plan \<le> rs_slot_span plan" and "i \<noteq> j"
  shows "slot_payload plan i \<inter> slot_payload plan j = {}"
proof -
  have apart: "slot_payload plan i \<inter> slot_payload plan j = {}" if "i < j" for i j
  proof -
    have "Suc i * rs_slot_span plan \<le> j * rs_slot_span plan"
      using that by (intro mult_le_mono1) simp
    then show ?thesis
      using assms(1) by (auto simp: slot_payload_def)
  qed
  show ?thesis
    using apart [of i j] apart [of j i] assms(2) by (cases "i < j") auto
qed

text \<open>
  C12. The picture that a submit gives the decoder to write lies in the mapped output buffer, with room
  for the frame header right before it, in a slot of the plan that no reference frame the session
  keeps is in: the decoder never writes into a picture that later frames are predicted from. The
  plan's slots are disjoint, and they are more than the frames the session keeps.
\<close>

theorem output_slot_is_free:
  assumes "session_ok s" and "from_stateless_sps K sps = Inr st"
    and "resource_plan_new K granule rq st store = Inr plan"
    and "prepare_mapped_output rq plan is_idr header_len s = (Inr out, s')"
  shows "session_ok s' \<and> ro_slot out < rs_slot_count plan \<and> rs_dpb_capacity plan < rs_slot_count plan \<and>
    (\<lambda>a. a - vr_output_vaddr rq) ` {ro_vaddr out ..< ro_vaddr out + ro_len out} = slot_payload plan (ro_slot out) \<and>
    slot_payload plan (ro_slot out) \<subseteq> {..< unat (vr_output_len rq)} \<and>
    ro_header_vaddr out + unat header_len = ro_vaddr out \<and>
    (\<forall>f\<in>set (reference_frames s'). slot_payload plan (rf_slot f) \<inter> slot_payload plan (ro_slot out) = {})"
proof -
  note coded = from_stateless_sps_coded [OF assms(2)]
  note plan = resource_plan [OF assms(3) coded]
  note prep = prepare [OF assms(1) plan(1) assms(4)]
  note prev = preview [OF prep(1)]
  have "(\<lambda>a. a - v) ` {v + n ..< v + n + k} = {n ..< n + k}" for v n k :: nat
    by (force simp: image_iff intro: bexI [of _ "v + _"])
  from this [of "vr_output_vaddr rq" "ro_slot out * rs_slot_span plan + AVD_DMA_GRANULE" "rs_payload_len plan"]
  have "(\<lambda>a. a - vr_output_vaddr rq) ` {ro_vaddr out ..< ro_vaddr out + ro_len out} = slot_payload plan (ro_slot out)"
    by (simp add: prev(2,5) slot_payload_def add.assoc)
  moreover have "slot_payload plan (ro_slot out) \<subseteq> {..< unat (vr_output_len rq)}"
    using prev(3) by (auto simp: slot_payload_def)
  moreover have "slot_payload plan (rf_slot f) \<inter> slot_payload plan (ro_slot out) = {}" if "f \<in> set (reference_frames s')" for f
    using prep(3) that by (intro slots_disjoint [OF plan(4)]) (metis imageI)
  ultimately show ?thesis
    using prep(2) plan(3) prev(4) preview_slot_free(1) [OF prev(1) plan(1)] by blast
qed

text \<open>A session of 64 by 48 pixels whose one reference frame is in slot 0.\<close>

definition slot_abi :: h264_abi where
  "slot_abi = \<lparr>SPS_FRAME_MBS_ONLY = 1, SPS_FRAME_CROPPING = 2, SPS_DIRECT_8X8_INFERENCE = 4,
     PPS_ENTROPY_CODING_MODE = 1, PPS_TRANSFORM_8X8_MODE = 2, PPS_CONSTRAINED_INTRA_PRED = 4, PPS_WEIGHTED_PRED = 8,
     DECODE_PARAM_IDR = 1, SLICE_DIRECT_SPATIAL_MV_PRED = 1, SLICE_REF_LISTS_PRESENT = 2, DPB_VALID = 1, DPB_LONG_TERM = 2,
     PIXEL_FORMAT_NV12 = 1\<rparr>"

definition slot_sps :: h264_sps where
  "slot_sps = \<lparr>sps_chroma_format_idc = 1, sps_bit_depth_luma_minus8 = 0, sps_bit_depth_chroma_minus8 = 0, sps_flags = 1,
     sps_pic_width_in_mbs_minus1 = 3, sps_pic_height_in_map_units_minus1 = 2, sps_frame_crop_left = 0, sps_frame_crop_right = 0,
     sps_frame_crop_top = 0, sps_frame_crop_bottom = 0, sps_seq_parameter_set_id = 0, sps_profile_idc = 100, sps_level_idc = 30,
     sps_log2_max_frame_num_minus4 = 0, sps_pic_order_cnt_type = 0, sps_max_num_ref_frames = 2\<rparr>"

definition slot_stream :: h264_stream where
  "slot_stream = \<lparr>hs_sps_id = 0, hs_profile_idc = 100, hs_level_idc = 30, hs_chroma_format_idc = 1, hs_bit_depth_luma_minus8 = 0,
     hs_bit_depth_chroma_minus8 = 0, hs_direct_8x8_inference = False, hs_width = 64, hs_height = 48, hs_crop_left = 0,
     hs_crop_top = 0, hs_coded_width = 64, hs_coded_height = 48, hs_log2_max_frame_num_minus4 = 0, hs_pic_order_cnt_type = 0,
     hs_max_num_ref_frames = 2\<rparr>"

definition slot_request :: decode_request where
  "slot_request = \<lparr>vr_stream_id = 1, vr_coded_format = 7, vr_timestamp = 9, vr_input_paddr = 0x1000, vr_input_vaddr = 0x2000,
     vr_input_len = 100, vr_output_paddr = 0x10000, vr_output_vaddr = 0x90000, vr_output_len = 0x20000, vr_output_offset = 0\<rparr>"

definition slot_plan :: resource_plan where
  "slot_plan = \<lparr>rs_layout = \<lparr>fl_width = 64, fl_height = 48, fl_y_stride = 64, fl_uv_stride = 64, fl_pixel_format = 1\<rparr>,
     rs_input_map_len = 0x800000, rs_output_map_len = 0x20000, rs_payload_len = 4608, rs_slot_span = 0x8000, rs_slot_count = 4,
     rs_dpb_capacity = 2, rs_max_references = 2\<rparr>"

definition slot_session :: backend_session where
  "slot_session = (session_new 0)\<lparr>ss_active := True,
     ss_workspace := Some \<lparr>wk_vaddr = 0x200000, wk_dma_addr = 0, wk_byte_len = 0x420000, wk_reference_slot_span = 0xc000, wk_slot_count = 4\<rparr>,
     ss_output_pool := Some \<lparr>mp_paddr = 0x10000, mp_vaddr = 0x90000, mp_len = 0x20000, mp_dma_addr = 0x400000\<rparr>,
     ss_reference_frames := Some \<lparr>rf_slot = 0, rf_frame_number = 0, rf_timestamp = 8,
       rf_layout = \<lparr>dl_width = 64, dl_height = 48, dl_y_stride = 64, dl_uv_stride = 64, dl_pixel_format = 1\<rparr>,
       rf_reference_dma_addr = 0, rf_sps_tile_dma_addr = 0, rf_frame_num = 0, rf_pic_num = 0, rf_top_field_order_cnt = 0,
       rf_long_term = False\<rparr> # replicate 15 None,
     ss_reference_frame_count := 1, ss_reference_slot_len := 0x8000, ss_active_slot_count := 4, ss_dpb_capacity := 2\<rparr>"

lemma slot_example:
  "from_stateless_sps slot_abi slot_sps = Inr slot_stream"
  "resource_plan_new slot_abi 0x4000 slot_request slot_stream True = Inr slot_plan"
  "session_ok slot_session"
proof -
  show "from_stateless_sps slot_abi slot_sps = Inr slot_stream"
    by (simp add: from_stateless_sps_def slot_abi_def slot_sps_def slot_stream_def has_flag_def Let_def)
  show "resource_plan_new slot_abi 0x4000 slot_request slot_stream True = Inr slot_plan"
    by (simp add: resource_plan_new_def slot_abi_def slot_request_def slot_stream_def slot_plan_def nv12_layout_def output_len_def
        h264_align_up_def align_up_usize_def usize_add_def AVD_DMA_GRANULE_def AVD_MAPPED_INPUT_BYTES_def AVD_OUTPUT_SLOT_PAYLOAD_OFFSET_def
        AVD_REFERENCE_FRAME_TABLE_LEN_def AVD_H264_OUTPUT_SLOTS_def AVD_H264_EXTRA_DECODE_SLOTS_def Let_def)
  show "session_ok slot_session"
    by (simp add: session_ok_def slot_session_def reference_frames_eq session_new_def AVD_REFERENCE_FRAME_TABLE_LEN_def)
qed

lemma slot_example_span: "h264_reference_slot_span (rs_layout slot_plan) = Inr 0xc000"
  by (simp add: h264_reference_slot_span_def slot_plan_def sps_scratch_len_def rvra_len_def rvra_offsets_def next_power_of_two_def
      h264_align_up_def align_up_usize_def usize_add_def AVD_DMA_GRANULE_def Let_def upt_rec)

lemma output_slot_is_free_witness:
  "\<exists>out s'. prepare_mapped_output slot_request slot_plan False 20 slot_session = (Inr out, s') \<and> ro_slot out = 1 \<and>
     map rf_slot (reference_frames s') = [0] \<and>
     slot_payload slot_plan 0 \<inter> slot_payload slot_plan (ro_slot out) = {} \<and> slot_payload slot_plan (ro_slot out) \<subseteq> {..<0x20000}"
proof -
  have reset: "\<not> slots_reset slot_plan slot_session"
    by (simp add: slots_reset_def slot_plan_def slot_session_def)
  have slot: "preview_slot slot_plan False slot_session = Some 1"
    using reset
    by (simp add: preview_slot_def reference_frames_eq slot_plan_def slot_session_def session_new_def upt_rec)
  have pool: "pool_matches (vr_output_paddr slot_request) (vr_output_vaddr slot_request) (rs_output_map_len slot_plan)
      (the (ss_output_pool slot_session))" "ss_output_pool slot_session \<noteq> None"
    by (simp_all add: pool_matches_def slot_request_def slot_plan_def slot_session_def)
  have ws: "is_compatible_h264 (rs_layout slot_plan) (rs_slot_count slot_plan) (the (ss_workspace slot_session))"
    "ss_workspace slot_session \<noteq> None"
    using slot_example_span by (simp_all add: is_compatible_h264_def) (simp_all add: slot_plan_def slot_session_def)
  have run: "\<exists>out s'. prepare_mapped_output slot_request slot_plan False 20 slot_session = (Inr out, s') \<and> ro_slot out = 1 \<and>
      map rf_slot (reference_frames s') = [0]"
    using pool ws reset
    by (auto simp: prepare_mapped_output_def preview_mapped_output_def slot usize_add_def usize_mul_def AVD_OUTPUT_SLOT_PAYLOAD_OFFSET_def
        AVD_DMA_GRANULE_def reference_frames_eq Let_def)
      (simp_all add: slot_plan_def slot_request_def slot_session_def)
  then obtain out s' where out: "prepare_mapped_output slot_request slot_plan False 20 slot_session = (Inr out, s')" "ro_slot out = 1"
      "map rf_slot (reference_frames s') = [0]"
    by (elim exE conjE)
  then obtain f where "f \<in> set (reference_frames s')" "rf_slot f = 0"
    by auto
  moreover have "unat (vr_output_len slot_request) = 0x20000"
    by (simp add: slot_request_def)
  ultimately show ?thesis
    using output_slot_is_free [OF slot_example(3,1,2) out(1)] out by (intro exI [of _ out] exI [of _ s']) auto
qed

end
