(* ===== verification/AvdBackend.thy ===== *)
theory AvdBackend
  imports AvdSession
begin

text \<open>
  The decode backend of the video decoder (\<^verbatim>\<open>AvdBackendState\<close> and \<^verbatim>\<open>AppleAvdVideoBackend\<close> in
  \<^verbatim>\<open>drivers/video/apple-avd/src/lib.rs\<close>): sessions, the decode in flight, its completion by firmware
  messages, the watchdog, and recovery. An operation of the kernel's decode interface holds the
  process lock; interrupts and the timer run between operations. What the hardware and the kernel
  answer is an argument of the operation that asks.
\<close>

section \<open>State\<close>

record avd_abi =
  va_h264 :: h264_abi
  VIDEO_FORMAT_H264 :: u32
  FRAME_HEADER_LEN :: u32
  FRAME_MAGIC :: "u8 list"
  MSG_UNKNOWN_IRQ :: u32
  MSG_PP_DONE :: u32
  MSG_VP_ERROR :: u32
  MSG_VP_DONE :: u32

record completion_info =
  ci_status_before :: u32
  ci_status :: u32
  ci_message_raw :: u32
  ci_by_mailbox :: bool
  ci_by_status :: bool

text \<open>What the driver does to the hardware, the latest last.\<close>

datatype avd_op = MailboxAck | MailboxMask | StatusClear u32 | FirmwareReset | HardwareReset
  | FirmwareShutdown | ConfigureStream u64 | StartDecode "u32 list"

record avd_backend =
  vb_sessions :: "backend_session list"
  vb_pending :: "pending_decode option"
  vb_irq_completion :: "completion_info option"
  vb_completed :: "decoded_frame completed_queue"
  vb_recovery_reason :: "u64 option"
  vb_generation :: u64
  vb_timer :: "u64 option"
  vb_mem :: mem
  vb_log :: "avd_op list"

definition backend_new :: "mem \<Rightarrow> avd_backend" where
  "backend_new m = \<lparr>vb_sessions = map session_new [0..<AVD_MAX_SESSIONS], vb_pending = None, vb_irq_completion = None,
     vb_completed = cq_new, vb_recovery_reason = None, vb_generation = 0, vb_timer = None, vb_mem = m, vb_log = []\<rparr>"

definition log_op :: "avd_op \<Rightarrow> avd_backend \<Rightarrow> avd_backend" where
  "log_op a b = b\<lparr>vb_log := vb_log b @ [a]\<rparr>"

section \<open>Sessions\<close>

definition find_session :: "(backend_session \<Rightarrow> bool) \<Rightarrow> avd_backend \<Rightarrow> nat option" where
  "find_session P b = find (\<lambda>i. P (vb_sessions b ! i)) [0..<length (vb_sessions b)]"

definition session_index :: "u32 \<Rightarrow> avd_backend \<Rightarrow> string + nat" where
  "session_index stream_id b =
     (case find_session (\<lambda>s. ss_stream_id s = stream_id) b of
        None \<Rightarrow> Inl ''apple-avd: invalid stream id'' | Some i \<Rightarrow> Inr i)"

definition set_session :: "nat \<Rightarrow> backend_session \<Rightarrow> avd_backend \<Rightarrow> avd_backend" where
  "set_session i s b = b\<lparr>vb_sessions := (vb_sessions b)[i := s]\<rparr>"

definition drop_completed :: "u32 \<Rightarrow> avd_backend \<Rightarrow> avd_backend" where
  "drop_completed stream_id b = b\<lparr>vb_completed := cq_retain (\<lambda>f. df_stream_id f \<noteq> stream_id) (vb_completed b)\<rparr>"

definition reset_session_state :: "nat \<Rightarrow> avd_backend \<Rightarrow> avd_backend" where
  "reset_session_state i b =
     drop_completed (ss_stream_id (vb_sessions b ! i)) (set_session i (session_reset (vb_sessions b ! i)) b)"

definition allocate_session :: "u32 \<Rightarrow> (avd_backend, string, u32) stepper" where
  "allocate_session coded_format b =
     (case find_session (\<lambda>s. \<not> ss_active s \<and> \<not> ss_quarantined s) b of
        None \<Rightarrow> (Inl ''apple-avd: no free video sessions'', b)
      | Some i \<Rightarrow>
          (let b = reset_session_state i b;
               s = (vb_sessions b ! i)\<lparr>ss_active := True, ss_coded_format := coded_format, ss_next_frame := 0,
                 ss_stream_parameters := None\<rparr>
           in (Inr (ss_stream_id s), set_session i s b)))"

definition quarantine_sessions_after_recovery :: "avd_backend \<Rightarrow> avd_backend" where
  "quarantine_sessions_after_recovery b =
     b\<lparr>vb_sessions := map (\<lambda>i. let s = vb_sessions b ! i
           in if ss_active s
              then (session_new i)\<lparr>ss_active := True, ss_quarantined := True, ss_coded_format := ss_coded_format s\<rparr>
              else session_new i) [0..<AVD_MAX_SESSIONS],
       vb_pending := None, vb_irq_completion := None, vb_completed := cq_clear (vb_completed b)\<rparr>"

definition defer_recovery :: "u64 \<Rightarrow> avd_backend \<Rightarrow> avd_backend" where
  "defer_recovery reason b = b\<lparr>vb_pending := None, vb_irq_completion := None, vb_recovery_reason := Some reason\<rparr>"

definition active_session :: "u32 \<Rightarrow> avd_backend \<Rightarrow> string + nat" where
  "active_session stream_id b =
     (case session_index stream_id b of
        Inl e \<Rightarrow> Inl e
      | Inr i \<Rightarrow>
          if \<not> ss_active (vb_sessions b ! i) then Inl ''apple-avd: inactive stream id''
          else if ss_quarantined (vb_sessions b ! i)
          then Inl ''apple-avd: stream requires recreation after firmware recovery'' else Inr i)"

definition session_for_submit :: "u32 \<Rightarrow> u32 \<Rightarrow> avd_backend \<Rightarrow> string + nat" where
  "session_for_submit stream_id coded_format b =
     (case active_session stream_id b of
        Inl e \<Rightarrow> Inl e
      | Inr i \<Rightarrow> if ss_coded_format (vb_sessions b ! i) \<noteq> coded_format then Inl ''apple-avd: stream format mismatch'' else Inr i)"

definition pending_for :: "u32 \<Rightarrow> avd_backend \<Rightarrow> bool" where
  "pending_for stream_id b \<longleftrightarrow> (case vb_pending b of None \<Rightarrow> False | Some p \<Rightarrow> pd_stream_id p = stream_id)"

definition has_pending_for_stream :: "u32 \<Rightarrow> avd_backend \<Rightarrow> string + bool" where
  "has_pending_for_stream stream_id b =
     (case session_index stream_id b of
        Inl e \<Rightarrow> Inl e
      | Inr i \<Rightarrow> Inr (ss_active (vb_sessions b ! i) \<and> pending_for stream_id b))"

definition has_active_sessions :: "avd_backend \<Rightarrow> bool" where
  "has_active_sessions b \<longleftrightarrow> list_ex ss_active (vb_sessions b)"

text \<open>The result: was it active, had it a pending decode, is recovery needed, is no session active.\<close>

definition relinquish_session :: "u32 \<Rightarrow> u64 \<Rightarrow> (avd_backend, string, bool \<times> bool \<times> bool \<times> bool) stepper" where
  "relinquish_session stream_id reason b =
     (case session_index stream_id b of
        Inl e \<Rightarrow> (Inl e, b)
      | Inr i \<Rightarrow>
          if \<not> ss_active (vb_sessions b ! i)
          then (Inr (False, False, vb_recovery_reason b \<noteq> None, \<not> has_active_sessions b), b)
          else (let had_pending = pending_for stream_id b;
                    b = (if had_pending then defer_recovery reason b else b);
                    b = set_session i ((vb_sessions b ! i)\<lparr>ss_active := False, ss_quarantined := True, ss_coded_format := 0\<rparr>) b;
                    b = drop_completed stream_id b
                in (Inr (True, had_pending, vb_recovery_reason b \<noteq> None, \<not> has_active_sessions b), b)))"

definition take_relinquished_session_resources :: "u32 \<Rightarrow> (avd_backend, string, backend_session option) stepper" where
  "take_relinquished_session_resources stream_id b =
     (case session_index stream_id b of
        Inl e \<Rightarrow> (Inl e, b)
      | Inr i \<Rightarrow>
          if ss_active (vb_sessions b ! i) then (Inr None, b)
          else (Inr (Some (vb_sessions b ! i)), drop_completed stream_id (set_session i (session_new i) b)))"

definition take_relinquished_frontend_mappings ::
  "u32 \<Rightarrow> (avd_backend, string, mapped_pool option \<times> mapped_pool option) stepper" where
  "take_relinquished_frontend_mappings stream_id b =
     (case session_index stream_id b of
        Inl e \<Rightarrow> (Inl e, b)
      | Inr i \<Rightarrow>
          if ss_active (vb_sessions b ! i) then (Inl ''apple-avd: cannot retire mappings from an active stream'', b)
          else (let s = clear_reference_frames (vb_sessions b ! i)
                in (Inr (ss_input_pool s, ss_output_pool s),
                    set_session i (s\<lparr>ss_input_pool := None, ss_output_pool := None\<rparr>) b)))"

section \<open>Watchdog\<close>

definition arm_watchdog :: "avd_backend \<Rightarrow> avd_backend" where
  "arm_watchdog b = b\<lparr>vb_generation := vb_generation b + 1, vb_timer := Some (vb_generation b + 1)\<rparr>"

definition invalidate_watchdog_from_irq :: "avd_backend \<Rightarrow> avd_backend" where
  "invalidate_watchdog_from_irq b = b\<lparr>vb_generation := vb_generation b + 1\<rparr>"

definition cancel_watchdog :: "avd_backend \<Rightarrow> avd_backend" where
  "cancel_watchdog b = b\<lparr>vb_generation := vb_generation b + 1, vb_timer := None\<rparr>"

text \<open>The result is whether the client is notified.\<close>

definition on_timer_expired :: "u64 \<Rightarrow> u32 \<Rightarrow> avd_backend \<Rightarrow> bool \<times> avd_backend" where
  "on_timer_expired generation status b =
     (if vb_generation b \<noteq> generation \<or> vb_pending b = None \<or> vb_irq_completion b \<noteq> None then (False, b)
      else (True, defer_recovery (ucast status) (log_op MailboxMask b)))"

section \<open>Firmware messages\<close>

datatype firmware_message = VideoProcessorDone | VideoProcessorError u32 | PostProcessorDone | UnknownIrq u32
  | RawMessage u32

definition firmware_decode :: "avd_abi \<Rightarrow> u32 \<Rightarrow> firmware_message" where
  "firmware_decode V raw =
     (if raw AND MSG_UNKNOWN_IRQ V \<noteq> 0 then UnknownIrq (raw AND NOT (MSG_UNKNOWN_IRQ V))
      else if raw AND MSG_PP_DONE V \<noteq> 0 then PostProcessorDone
      else if raw AND MSG_VP_ERROR V \<noteq> 0 then VideoProcessorError (raw AND NOT (MSG_VP_ERROR V))
      else if raw AND MSG_VP_DONE V \<noteq> 0 then VideoProcessorDone
      else VideoProcessorError raw)"

definition fault_recovery :: "u32 \<Rightarrow> avd_backend \<Rightarrow> avd_backend" where
  "fault_recovery status b = defer_recovery (ucast status) (log_op MailboxMask b)"

text \<open>\<open>raw\<close> and \<open>status\<close> are what the mailbox and the status register hold.\<close>

definition service_completion_message :: "avd_abi \<Rightarrow> u32 \<Rightarrow> u32 \<Rightarrow> (avd_backend, string, bool) stepper" where
  "service_completion_message V raw status b =
     (case vb_pending b of
        None \<Rightarrow> (Inr False, b)
      | Some front \<Rightarrow>
          (let b = log_op MailboxAck b; message = firmware_decode V raw
           in if (case message of VideoProcessorError _ \<Rightarrow> True | UnknownIrq _ \<Rightarrow> True | _ \<Rightarrow> False)
              then (Inl ''apple-avd: decode firmware error'', fault_recovery status (invalidate_watchdog_from_irq b))
              else if pd_completion_phase front = WaitingVideo \<and> message = VideoProcessorDone
              then (Inr False, (log_op (StatusClear 0x1000) b)\<lparr>vb_pending := Some (front\<lparr>pd_completion_phase := WaitingPostprocess\<rparr>)\<rparr>)
              else if pd_completion_phase front = WaitingPostprocess \<and> message = PostProcessorDone
              then (let b' = log_op (StatusClear 0x400000) (invalidate_watchdog_from_irq b);
                        b'' = b'\<lparr>vb_irq_completion := Some \<lparr>ci_status_before = pd_status_before front, ci_status = status,
                          ci_message_raw = raw, ci_by_mailbox = True, ci_by_status = False\<rparr>\<rparr>
                    in if vb_irq_completion b' \<noteq> None
                       then (Inl ''apple-avd: duplicate post-process completion'', fault_recovery status b'')
                       else (Inr True, b''))
              else (Inl ''apple-avd: unexpected firmware mailbox transition'', fault_recovery status (invalidate_watchdog_from_irq b))))"

text \<open>The result is whether the client is notified.\<close>

definition avd_claim_interrupt :: "avd_abi \<Rightarrow> u32 \<Rightarrow> u32 \<Rightarrow> avd_backend \<Rightarrow> bool \<times> avd_backend" where
  "avd_claim_interrupt V raw status b =
     (if vb_pending b = None then (False, log_op MailboxAck b)
      else (case service_completion_message V raw status b of
          (Inr notify, b') \<Rightarrow> (notify, b') | (Inl _, b') \<Rightarrow> (True, b')))"

section \<open>Recovery and completion\<close>

text \<open>\<open>reset\<close> is the outcome of looking up the decoder and of restarting its firmware.\<close>

definition recover_deferred_firmware :: "(string + unit) \<Rightarrow> (avd_backend, string, unit) stepper" where
  "recover_deferred_firmware reset b =
     (case vb_recovery_reason b of
        None \<Rightarrow> (Inr (), b)
      | Some reason \<Rightarrow>
          (let b = log_op FirmwareReset (cancel_watchdog (b\<lparr>vb_recovery_reason := None\<rparr>))
           in case reset of
                Inl e \<Rightarrow> (Inl e, b\<lparr>vb_recovery_reason := Some reason\<rparr>)
              | Inr u \<Rightarrow> (Inr (), quarantine_sessions_after_recovery b)))"

definition reference_of :: "pending_decode \<Rightarrow> reference_frame" where
  "reference_of p = \<lparr>rf_slot = pd_reference_slot p, rf_frame_number = pd_frame_number p, rf_timestamp = pd_timestamp p,
     rf_layout = pd_layout p, rf_reference_dma_addr = pd_reference_dma_addr p, rf_sps_tile_dma_addr = pd_sps_tile_dma_addr p,
     rf_frame_num = pd_frame_num p, rf_pic_num = pd_pic_num p, rf_top_field_order_cnt = pd_top_field_order_cnt p,
     rf_long_term = pd_long_term p\<rparr>"

definition frame_of :: "pending_decode \<Rightarrow> decoded_frame" where
  "frame_of p = \<lparr>df_stream_id = pd_stream_id p, df_width = pd_display_width p, df_height = pd_display_height p,
     df_pixel_format = dl_pixel_format (pd_layout p), df_payload_offset = of_nat (pd_output_payload_offset p),
     df_payload_len = of_nat (pd_payload_len p), df_flags = pd_command_tag p, df_timestamp = pd_timestamp p\<rparr>"

definition store_reference :: "pending_decode \<Rightarrow> (backend_session, string, unit) may_step" where
  "store_reference p s =
     (let s = (if pd_is_idr p then clear_reference_frames s else s)
      in if \<not> pd_store_reference p then Some (Inr (), s)
         else case insert_reference_frame (reference_of p) s of
             (Inl e, s) \<Rightarrow> Some (Inl e, s)
           | (Inr u, s) \<Rightarrow> map_option (Pair (Inr ())) (trim_reference_frames (max (pd_dpb_capacity p) 1) s))"

definition commit_pending_decode :: "pending_decode \<Rightarrow> (avd_backend, string, unit) may_step" where
  "commit_pending_decode p b =
     (case session_index (pd_stream_id p) b of
        Inl e \<Rightarrow> Some (Inl e, b)
      | Inr i \<Rightarrow> (case store_reference p (vb_sessions b ! i) of
          None \<Rightarrow> None
        | Some (Inl e, s) \<Rightarrow> Some (Inl e, set_session i s b)
        | Some (Inr u, s) \<Rightarrow>
            (let b = set_session i s b
             in case cq_push_back (frame_of p) (vb_completed b) of (r, q) \<Rightarrow> Some (r, b\<lparr>vb_completed := q\<rparr>))))"

definition drain_irq_completion :: "avd_abi \<Rightarrow> (avd_backend, string, unit) may_step" where
  "drain_irq_completion V b =
     (case vb_irq_completion b of
        None \<Rightarrow> Some (Inr (), b)
      | Some c \<Rightarrow> (case vb_pending b of
          None \<Rightarrow> Some (Inl ''apple-avd: IRQ completion has no pending decode'', b\<lparr>vb_irq_completion := None\<rparr>)
        | Some p \<Rightarrow>
            (let b = cancel_watchdog (b\<lparr>vb_irq_completion := None, vb_pending := None\<rparr>)
             in case prepare_pending_decode_output (PIXEL_FORMAT_NV12 (va_h264 V)) (FRAME_MAGIC V) p (vb_mem b) of
                  (Inl e, m) \<Rightarrow> Some (Inl e, b\<lparr>vb_mem := m\<rparr>)
                | (Inr u, m) \<Rightarrow> commit_pending_decode p (b\<lparr>vb_mem := m\<rparr>))))"

section \<open>The decode interface\<close>

definition create_session :: "avd_abi \<Rightarrow> (string + unit) \<Rightarrow> u32 \<Rightarrow> (avd_backend, string, u32) may_step" where
  "create_session V reset coded_format =
     (if coded_format \<noteq> VIDEO_FORMAT_H264 V
      then total_step (err ''apple-avd: only stateless H.264 sessions are supported'')
      else may_bind (total_step (recover_deferred_firmware reset)) (\<lambda>_.
        may_bind (drain_irq_completion V) (\<lambda>_. total_step (allocate_session coded_format))))"

definition dequeue_frame :: "avd_abi \<Rightarrow> (string + unit) \<Rightarrow> u32 \<Rightarrow> (avd_backend, string, decoded_frame option) may_step" where
  "dequeue_frame V reset stream_id =
     may_bind (total_step (recover_deferred_firmware reset)) (\<lambda>_.
     may_bind (drain_irq_completion V) (\<lambda>_. total_step (\<lambda>b.
       case active_session stream_id b of
         Inl e \<Rightarrow> (Inl e, b)
       | Inr i \<Rightarrow> (case cq_position (\<lambda>f. df_stream_id f = stream_id) (vb_completed b) of
           None \<Rightarrow> (Inr None, b)
         | Some n \<Rightarrow> (case cq_remove n (vb_completed b) of (f, q) \<Rightarrow> (Inr f, b\<lparr>vb_completed := q\<rparr>))))))"

text \<open>The operation continues after a failed recovery, which is its result.\<close>

definition destroy_session :: "(string + unit) \<Rightarrow> u32 \<Rightarrow> u32 \<Rightarrow> (avd_backend, string, unit) stepper" where
  "destroy_session reset stream_id status b =
     (case has_pending_for_stream stream_id b of
        Inl e \<Rightarrow> (Inl e, b)
      | Inr had \<Rightarrow> (case relinquish_session stream_id (ucast status) (if had then log_op MailboxMask b else b) of
          (Inl e, b) \<Rightarrow> (Inl e, b)
        | (Inr (was_active, had_pending, needs_recovery, no_active_sessions), b) \<Rightarrow>
            if \<not> was_active \<and> \<not> needs_recovery then (Inr (), b)
            else (case recover_deferred_firmware reset b of
                (Inr u, b) \<Rightarrow> (case take_relinquished_session_resources stream_id b of
                    (Inl e, b) \<Rightarrow> (Inl e, b)
                  | (Inr r, b) \<Rightarrow> (Inr (), if no_active_sessions then log_op FirmwareShutdown b else b))
              | (Inl e, b) \<Rightarrow> (case take_relinquished_frontend_mappings stream_id b of
                    (Inl e', b) \<Rightarrow> (Inl e', b)
                  | (Inr r, b) \<Rightarrow> (Inl e, b)))))"

section \<open>Submitting a frame\<close>

definition h264_error_to_str :: "h264_error \<Rightarrow> string" where
  "h264_error_to_str e =
     (case e of InvalidDimensions \<Rightarrow> ''apple-avd: H.264 dimensions are invalid''
      | UnsupportedSps \<Rightarrow> ''apple-avd: H.264 SPS uses unsupported features''
      | MalformedSlice \<Rightarrow> ''apple-avd: H.264 slice header is malformed''
      | InvalidSliceRange \<Rightarrow> ''apple-avd: H.264 slice range is invalid''
      | InstructionStreamTooLarge \<Rightarrow> ''apple-avd: generated H.264 instruction stream is too large'')"

text \<open>What the kernel and the hardware answer to one submit.\<close>

record submit_answers =
  sa_reset :: "string + unit"
  sa_hardware :: "string + unit"
  sa_granule :: nat
  sa_input_map :: "u64 option"
  sa_output_map :: "u64 option"
  sa_pages :: "nat option"
  sa_workspace_map :: "u64 option"
  sa_status :: u32
  sa_watchdog :: "string + unit"

definition validate_h264_request :: "avd_abi \<Rightarrow> decode_request \<Rightarrow> string + unit" where
  "validate_h264_request V rq =
     (if vr_coded_format rq \<noteq> VIDEO_FORMAT_H264 V then Inl ''apple-avd: unsupported coded format''
      else if vr_input_len rq = 0 then Inl ''apple-avd: empty input access unit''
      else if vr_output_len rq \<le> FRAME_HEADER_LEN V then Inl ''apple-avd: output buffer is too small''
      else if AVD_MAPPED_INPUT_BYTES < unat (vr_input_len rq) then Inl ''apple-avd: input exceeds mapped input buffer''
      else Inr ())"

definition new_pool :: "string \<Rightarrow> nat \<Rightarrow> nat \<Rightarrow> nat \<Rightarrow> u64 option \<Rightarrow> string + mapped_pool" where
  "new_pool e paddr vaddr len mapping =
     (case mapping of None \<Rightarrow> Inl e
      | Some dma_addr \<Rightarrow> Inr \<lparr>mp_paddr = paddr, mp_vaddr = vaddr, mp_len = len, mp_dma_addr = dma_addr\<rparr>)"

definition needed :: "bool \<Rightarrow> (string + 'a) \<Rightarrow> string + 'a option" where
  "needed need r = (if need then map_sum id Some r else Inr None)"

text \<open>Resources are made before they are installed, so that a failure leaves the session unchanged.\<close>

definition make_resources ::
  "submit_answers \<Rightarrow> decode_request \<Rightarrow> resource_plan \<Rightarrow> backend_session \<Rightarrow>
   string + mapped_pool option \<times> mapped_pool option \<times> session_workspace option" where
  "make_resources A rq plan s =
     (case needed (case ss_input_pool s of None \<Rightarrow> True
          | Some pool \<Rightarrow> \<not> pool_matches (vr_input_paddr rq) (vr_input_vaddr rq) (rs_input_map_len plan) pool)
          (new_pool ''apple-avd: input DMA map failed'' (vr_input_paddr rq) (vr_input_vaddr rq) (rs_input_map_len plan) (sa_input_map A)) of
        Inl e \<Rightarrow> Inl e
      | Inr input \<Rightarrow> (case needed (case ss_output_pool s of None \<Rightarrow> True
          | Some pool \<Rightarrow> \<not> pool_matches (vr_output_paddr rq) (vr_output_vaddr rq) (rs_output_map_len plan) pool)
          (new_pool ''apple-avd: output DMA map failed'' (vr_output_paddr rq) (vr_output_vaddr rq) (rs_output_map_len plan) (sa_output_map A)) of
        Inl e \<Rightarrow> Inl e
      | Inr output \<Rightarrow> (case needed (case ss_workspace s of None \<Rightarrow> True
          | Some w \<Rightarrow> \<not> is_compatible_h264 (rs_layout plan) (rs_slot_count plan) w)
          (workspace_new_h264 (sa_granule A) (sa_pages A) (sa_workspace_map A) (rs_layout plan) (rs_slot_count plan)) of
        Inl e \<Rightarrow> Inl e
      | Inr ws \<Rightarrow> Inr (input, output, ws))))"

definition install_resources ::
  "mapped_pool option \<times> mapped_pool option \<times> session_workspace option \<Rightarrow> backend_session \<Rightarrow> backend_session" where
  "install_resources made s =
     (case made of (input, output, ws) \<Rightarrow>
        let s = (case input of None \<Rightarrow> s | Some p \<Rightarrow> s\<lparr>ss_input_pool := Some p\<rparr>);
            s = (case output of None \<Rightarrow> s
              | Some p \<Rightarrow> (clear_reference_frames (s\<lparr>ss_output_pool := Some p\<rparr>))\<lparr>ss_next_reference_slot := 0,
                  ss_reference_slot_len := 0, ss_active_slot_count := 0, ss_dpb_capacity := 0\<rparr>)
        in (case ws of None \<Rightarrow> s
            | Some w \<Rightarrow> (clear_reference_frames (s\<lparr>ss_workspace := Some w\<rparr>))\<lparr>ss_next_reference_slot := 0\<rparr>))"

definition prepare_h264_session_resources ::
  "avd_abi \<Rightarrow> submit_answers \<Rightarrow> decode_request \<Rightarrow> resource_plan \<Rightarrow> bool \<Rightarrow> h264_params \<Rightarrow> (avd_backend, string, nat) may_step" where
  "prepare_h264_session_resources V A rq plan is_idr params b =
     (if vb_pending b \<noteq> None then Some (Inl ''apple-avd: decode already pending'', b)
      else case session_for_submit (vr_stream_id rq) (vr_coded_format rq) b of
        Inl e \<Rightarrow> Some (Inl e, b)
      | Inr i \<Rightarrow> (case make_resources A rq plan (vb_sessions b ! i) of
          Inl e \<Rightarrow> Some (Inl e, b)
        | Inr made \<Rightarrow>
            (let s = install_resources made (vb_sessions b ! i)
             in case mapped_input_dma (vr_input_paddr rq) (vr_input_vaddr rq) (rs_input_map_len plan) s of
                  Inl e \<Rightarrow> Some (Inl e, set_session i s b)
                | Inr a \<Rightarrow> (case prune_reference_frames_for_dpb (va_h264 V) (dp_dpb (hp_decode params)) (rs_max_references plan) s of
                    None \<Rightarrow> None
                  | Some (valid_entries, s) \<Rightarrow> Some
                      (case preview_mapped_output rq plan is_idr (FRAME_HEADER_LEN V) s of Inl e \<Rightarrow> Inl e | Inr out \<Rightarrow> Inr valid_entries,
                       set_session i s b)))))"

definition pending_of ::
  "decode_request \<Rightarrow> h264_stream \<Rightarrow> resource_plan \<Rightarrow> h264_request \<Rightarrow> reference_output \<Rightarrow> h264_workspace \<Rightarrow> nat \<Rightarrow> u32 \<Rightarrow> pending_decode" where
  "pending_of rq st plan dr out ws payload_len status_before =
     (let l = rs_layout plan
      in \<lparr>pd_kind = DecodeH264, pd_stream_id = vr_stream_id rq, pd_frame_number = hr_frame_number dr,
          pd_timestamp = vr_timestamp rq,
          pd_layout = \<lparr>dl_width = fl_width l, dl_height = fl_height l, dl_y_stride = fl_y_stride l, dl_uv_stride = fl_uv_stride l,
            dl_pixel_format = fl_pixel_format l\<rparr>,
          pd_display_x = hs_crop_left st, pd_display_y = hs_crop_top st, pd_display_width = hs_width st,
          pd_display_height = hs_height st, pd_payload_len = payload_len, pd_output_header_vaddr = ro_header_vaddr out,
          pd_output_payload_vaddr = ro_vaddr out, pd_output_payload_dma = ro_dma_addr out,
          pd_output_payload_offset = ro_payload_offset out, pd_output_payload_len = ro_len out, pd_reference_slot = ro_slot out,
          pd_reference_slot_count = ro_slot_count out, pd_dpb_capacity = ro_dpb_capacity out,
          pd_reference_dma_addr = hw_reference_dma_addr ws, pd_sps_tile_dma_addr = hw_sps_tile_dma_addr ws,
          pd_vp9_rvra_dma_addrs = replicate 4 0, pd_frame_num = hr_frame_num dr, pd_pic_num = ucast (hr_frame_num dr),
          pd_top_field_order_cnt = hr_current_poc dr, pd_long_term = False, pd_store_reference = is_reference (hr_slice dr),
          pd_is_idr = hl_idr (hr_slice dr), pd_status_before = status_before, pd_command_tag = hr_frame_number dr,
          pd_completion_phase = WaitingVideo\<rparr>)"

text \<open>The instruction stream of a frame in the FIFO of its workspace.\<close>

definition stage_instructions ::
  "avd_abi \<Rightarrow> h264_request \<Rightarrow> h264_stream \<Rightarrow> h264_workspace \<Rightarrow> reference_picture list \<Rightarrow> nat \<Rightarrow> (mem, string, u32 list) may_step" where
  "stage_instructions V dr st ws refs vaddr m =
     (case h264_stream_build (va_h264 V) dr st (hr_slice dr) ws refs of
        None \<Rightarrow> None
      | Some instructions \<Rightarrow>
          (case h264_write_le_bytes instructions (get_bytes m (vaddr + AVD_WORKSPACE_INST_FIFO_OFFSET) AVD_WORKSPACE_INST_FIFO_BYTES) of
             (Inl e, fifo) \<Rightarrow> Some (Inl (h264_error_to_str e), m)
           | (Inr n, fifo) \<Rightarrow> Some (Inr (is_words instructions), put_bytes m (vaddr + AVD_WORKSPACE_INST_FIFO_OFFSET) fifo)))"

text \<open>The second half of \<open>submit_h264_prepared_locked\<close>, once the output slot of session \<open>i\<close> is chosen.\<close>

definition start_prepared ::
  "avd_abi \<Rightarrow> submit_answers \<Rightarrow> decode_request \<Rightarrow> h264_stream \<Rightarrow> resource_plan \<Rightarrow> h264_params \<Rightarrow> nat \<Rightarrow> u64 \<Rightarrow> reference_output \<Rightarrow> u32 \<Rightarrow> nat
   \<Rightarrow> (avd_backend, string, unit) may_step" where
  "start_prepared V A rq st plan params payload_len input_dma out frame_number i b =
     (let s = vb_sessions b ! i
      in case request_from_stateless (va_h264 V) (ucast (ss_stream_id s)) frame_number params
             \<lparr>dr_dma_addr = input_dma, dr_len = unat (vr_input_len rq)\<rparr>
             (get_bytes (vb_mem b) (vr_input_vaddr rq) (unat (vr_input_len rq)))
             \<lparr>dr_dma_addr = ro_dma_addr out, dr_len = output_len (rs_layout plan)\<rparr> (rs_layout plan) of
           Inl e \<Rightarrow> Some (Inl (h264_error_to_str e), b)
         | Inr dr \<Rightarrow> (case ss_workspace s of
             None \<Rightarrow> Some (Inl ''apple-avd: workspace unavailable'', b)
           | Some w \<Rightarrow> (case addresses_for_h264_slot w (ro_slot out) (rs_layout plan) of
               Inl e \<Rightarrow> Some (Inl e, b)
             | Inr ws \<Rightarrow> (case stage_instructions V dr st ws
                   (h264_reference_pictures_from_dpb (va_h264 V) (hr_dpb dr) (ss_reference_frames s)) (wk_vaddr w) (vb_mem b) of
                 None \<Rightarrow> None
               | Some (Inl e, m) \<Rightarrow> Some (Inl e, b)
               | Some (Inr words, m) \<Rightarrow>
                   (if words = [] then Some (Inl ''apple-avd: empty H.264 instruction stream'', b\<lparr>vb_mem := m\<rparr>)
                    else (let b = log_op (ConfigureStream (hw_instruction_fifo_dma_addr ws)) (b\<lparr>vb_mem := m\<rparr>)
                          in case sa_watchdog A of
                               Inl e \<Rightarrow> Some (Inl e, cancel_watchdog b)
                             | Inr u \<Rightarrow> Some (Inr (), log_op (StartDecode words)
                                 ((arm_watchdog b)\<lparr>vb_pending :=
                                   Some (pending_of rq st plan dr out ws payload_len (sa_status A))\<rparr>))))))))"

definition submit_h264_prepared_locked ::
  "avd_abi \<Rightarrow> submit_answers \<Rightarrow> decode_request \<Rightarrow> h264_stream \<Rightarrow> resource_plan \<Rightarrow> h264_params \<Rightarrow> (avd_backend, string, unit) may_step" where
  "submit_h264_prepared_locked V A rq st plan params b =
     (case session_for_submit (vr_stream_id rq) (vr_coded_format rq) b of
        Inl e \<Rightarrow> Some (Inl e, b)
      | Inr i \<Rightarrow> (case nv12_tight_payload_len (hs_width st) (hs_height st) of
          Inl e \<Rightarrow> Some (Inl e, b)
        | Inr payload_len \<Rightarrow>
            (let s = vb_sessions b ! i; frame_number = ss_next_frame s; s = s\<lparr>ss_next_frame := frame_number + 1\<rparr>;
                 is_idr = has_flag (dp_flags (hp_decode params)) (DECODE_PARAM_IDR (va_h264 V))
             in case mapped_input_dma (vr_input_paddr rq) (vr_input_vaddr rq) (rs_input_map_len plan) s of
                  Inl e \<Rightarrow> Some (Inl e, set_session i s b)
                | Inr input_dma \<Rightarrow> (case prepare_mapped_output rq plan is_idr (FRAME_HEADER_LEN V) s of
                    (Inl e, s) \<Rightarrow> Some (Inl e, set_session i s b)
                  | (Inr out, s) \<Rightarrow>
                      start_prepared V A rq st plan params payload_len input_dma out frame_number i (set_session i s b)))))"

text \<open>\<open>submit_h264_stateless\<close> after the recovery and completion that every operation begins with.\<close>

definition submit_when_drained ::
  "avd_abi \<Rightarrow> submit_answers \<Rightarrow> decode_request \<Rightarrow> h264_params \<Rightarrow> (avd_backend, string, unit) may_step" where
  "submit_when_drained V A rq params b =
     (case validate_h264_request V rq of
        Inl e \<Rightarrow> Some (Inl e, b)
      | Inr u \<Rightarrow> (case from_stateless_sps (va_h264 V) (hp_sps params) of
          Inl e \<Rightarrow> Some (Inl (h264_error_to_str e), b)
        | Inr st \<Rightarrow>
            (let b = log_op HardwareReset b
             in case sa_hardware A of
                  Inl e \<Rightarrow> Some (Inl e, b)
                | Inr u \<Rightarrow> (case resource_plan_new (va_h264 V) (sa_granule A) rq st (dp_nal_ref_idc (hp_decode params) \<noteq> 0) of
                    Inl e \<Rightarrow> Some (Inl e, b)
                  | Inr plan \<Rightarrow> may_bind (prepare_h264_session_resources V A rq plan
                        (has_flag (dp_flags (hp_decode params)) (DECODE_PARAM_IDR (va_h264 V))) params) (\<lambda>_ b.
                      if vb_pending b \<noteq> None then Some (Inl ''apple-avd: decode already pending'', b)
                      else case session_for_submit (vr_stream_id rq) (vr_coded_format rq) b of
                        Inl e \<Rightarrow> Some (Inl e, b)
                      | Inr i \<Rightarrow> submit_h264_prepared_locked V A rq st plan params
                          (set_session i ((vb_sessions b ! i)\<lparr>ss_stream_parameters := Some st\<rparr>) b)) b))))"

definition submit_h264_stateless ::
  "avd_abi \<Rightarrow> submit_answers \<Rightarrow> decode_request \<Rightarrow> h264_params \<Rightarrow> (avd_backend, string, unit) may_step" where
  "submit_h264_stateless V A rq params =
     may_bind (total_step (recover_deferred_firmware (sa_reset A))) (\<lambda>_.
     may_bind (drain_irq_completion V) (\<lambda>_. submit_when_drained V A rq params))"

end
