(* ===== verification/AvdInvariant.thy ===== *)
theory AvdInvariant
  imports AvdBackend
begin

text \<open>
  The invariant of the decode backend over every interleaving of its operations with the interrupts
  of the decoder, its watchdog, and writes of the device and of userspace to memory.
\<close>

section \<open>The invariant\<close>

definition serves :: "backend_session \<Rightarrow> u32 \<Rightarrow> bool" where
  "serves s stream_id \<longleftrightarrow> ss_stream_id s = stream_id \<and> ss_active s \<and> \<not> ss_quarantined s"

definition sessions_ok :: "avd_backend \<Rightarrow> bool" where
  "sessions_ok b \<longleftrightarrow> length (vb_sessions b) = AVD_MAX_SESSIONS \<and>
     (\<forall>i<AVD_MAX_SESSIONS. ss_stream_id (vb_sessions b ! i) = of_nat (Suc i) \<and> session_ok (vb_sessions b ! i))"

definition pending_ok :: "avd_backend \<Rightarrow> bool" where
  "pending_ok b \<longleftrightarrow> (\<forall>p. vb_pending b = Some p \<longrightarrow>
     (\<exists>i<AVD_MAX_SESSIONS. serves (vb_sessions b ! i) (pd_stream_id p) \<and>
        pd_reference_slot p \<notin> rf_slot ` set (reference_frames (vb_sessions b ! i))))"

definition completed_ok :: "avd_backend \<Rightarrow> bool" where
  "completed_ok b \<longleftrightarrow> (\<exists>fs. cq_holds (vb_completed b) fs \<and>
     (\<forall>f\<in>set fs. \<exists>i<AVD_MAX_SESSIONS. serves (vb_sessions b ! i) (df_stream_id f)))"

definition stages_ok :: "avd_backend \<Rightarrow> bool" where
  "stages_ok b \<longleftrightarrow>
     (vb_irq_completion b \<noteq> None \<longrightarrow> (\<exists>p. vb_pending b = Some p \<and> pd_completion_phase p = WaitingPostprocess)) \<and>
     (vb_recovery_reason b \<noteq> None \<longrightarrow> vb_pending b = None)"

definition backend_ok :: "avd_backend \<Rightarrow> bool" where
  "backend_ok b \<longleftrightarrow> sessions_ok b \<and> pending_ok b \<and> completed_ok b \<and> stages_ok b"

lemmas backend_ok_defs = backend_ok_def sessions_ok_def pending_ok_def completed_ok_def stages_ok_def

lemma backend_ok_new: "backend_ok (backend_new m)"
proof -
  have "ss_stream_id (session_new i) = of_nat (Suc i)" for i
    by (simp add: session_new_def)
  then show ?thesis
    unfolding backend_ok_defs using cq_holds_new
    by (auto simp: backend_new_def session_ok_new simp del: of_nat_Suc intro!: exI [of _ "[]"])
qed

text \<open>Only these fields matter.\<close>

lemma backend_ok_cong:
  assumes "vb_sessions b' = vb_sessions b" and "vb_pending b' = vb_pending b" and "vb_completed b' = vb_completed b"
    and "vb_irq_completion b' = vb_irq_completion b" and "vb_recovery_reason b' = vb_recovery_reason b"
  shows "backend_ok b' = backend_ok b"
  using assms by (simp add: backend_ok_defs)

lemma backend_ok_log [simp]: "backend_ok (log_op a b) = backend_ok b"
  by (rule backend_ok_cong) (simp_all add: log_op_def)

lemma log_op_simps [simp]:
  "vb_sessions (log_op a b) = vb_sessions b" "vb_pending (log_op a b) = vb_pending b"
  "vb_irq_completion (log_op a b) = vb_irq_completion b" "vb_completed (log_op a b) = vb_completed b"
  "vb_recovery_reason (log_op a b) = vb_recovery_reason b" "vb_generation (log_op a b) = vb_generation b"
  "vb_mem (log_op a b) = vb_mem b"
  by (simp_all add: log_op_def)

lemma backend_ok_timer [simp]:
  "backend_ok (invalidate_watchdog_from_irq b) = backend_ok b" "backend_ok (cancel_watchdog b) = backend_ok b"
  by (rule backend_ok_cong; simp add: invalidate_watchdog_from_irq_def cancel_watchdog_def)+

lemma timer_simps [simp]:
  "vb_sessions (invalidate_watchdog_from_irq b) = vb_sessions b" "vb_pending (invalidate_watchdog_from_irq b) = vb_pending b"
  "vb_irq_completion (invalidate_watchdog_from_irq b) = vb_irq_completion b"
  "vb_completed (invalidate_watchdog_from_irq b) = vb_completed b"
  "vb_recovery_reason (invalidate_watchdog_from_irq b) = vb_recovery_reason b"
  "vb_sessions (cancel_watchdog b) = vb_sessions b" "vb_pending (cancel_watchdog b) = vb_pending b"
  "vb_irq_completion (cancel_watchdog b) = vb_irq_completion b" "vb_completed (cancel_watchdog b) = vb_completed b"
  "vb_recovery_reason (cancel_watchdog b) = vb_recovery_reason b"
  "vb_mem (cancel_watchdog b) = vb_mem b"
  by (simp_all add: invalidate_watchdog_from_irq_def cancel_watchdog_def)

section \<open>Updates that keep it\<close>

lemma nth_set_session:
  "i < length (vb_sessions b) \<Longrightarrow> vb_sessions (set_session i s b) ! j = (if j = i then s else vb_sessions b ! j)"
  by (auto simp: set_session_def nth_list_update)

lemma set_session_simps [simp]:
  "length (vb_sessions (set_session i s b)) = length (vb_sessions b)"
  "vb_pending (set_session i s b) = vb_pending b" "vb_irq_completion (set_session i s b) = vb_irq_completion b"
  "vb_completed (set_session i s b) = vb_completed b" "vb_recovery_reason (set_session i s b) = vb_recovery_reason b"
  "vb_mem (set_session i s b) = vb_mem b"
  by (simp_all add: set_session_def)

lemma ok_set_session:
  assumes "backend_ok b" and "i < AVD_MAX_SESSIONS"
    and "ss_stream_id s = ss_stream_id (vb_sessions b ! i)" and "session_ok s"
    and "ss_active (vb_sessions b ! i) \<and> \<not> ss_quarantined (vb_sessions b ! i) \<Longrightarrow> ss_active s \<and> \<not> ss_quarantined s"
    and "vb_pending b = None \<or> \<not> ss_active (vb_sessions b ! i)
      \<or> set (reference_frames s) \<subseteq> set (reference_frames (vb_sessions b ! i))"
  shows "backend_ok (set_session i s b)"
proof -
  have len: "length (vb_sessions b) = AVD_MAX_SESSIONS"
    using assms(1) by (simp add: backend_ok_defs)
  note nth = nth_set_session [of i b s, unfolded len, OF assms(2)]
  have serves: "serves (vb_sessions b ! j) n \<Longrightarrow> serves (vb_sessions (set_session i s b) ! j) n" for j n
    using assms(3,5) by (auto simp: serves_def nth)
  have "sessions_ok (set_session i s b)"
    using assms(1,3,4) by (auto simp: backend_ok_def sessions_ok_def nth)
  moreover have "pending_ok (set_session i s b)"
    unfolding pending_ok_def
  proof (intro allI impI)
    fix p
    assume "vb_pending (set_session i s b) = Some p"
    then have p: "vb_pending b = Some p"
      by simp
    then obtain j where j: "j < AVD_MAX_SESSIONS" "serves (vb_sessions b ! j) (pd_stream_id p)"
      "pd_reference_slot p \<notin> rf_slot ` set (reference_frames (vb_sessions b ! j))"
      using assms(1) by (auto simp: backend_ok_def pending_ok_def)
    have "pd_reference_slot p \<notin> rf_slot ` set (reference_frames (vb_sessions (set_session i s b) ! j))"
      using j assms(6) p by (cases "j = i") (auto simp: nth serves_def)
    with j serves show "\<exists>i'<AVD_MAX_SESSIONS. serves (vb_sessions (set_session i s b) ! i') (pd_stream_id p) \<and>
        pd_reference_slot p \<notin> rf_slot ` set (reference_frames (vb_sessions (set_session i s b) ! i'))"
      by blast
  qed
  moreover have "completed_ok (set_session i s b)"
    using assms(1) serves unfolding backend_ok_def completed_ok_def by (metis set_session_simps(4))
  ultimately show ?thesis
    using assms(1) by (simp add: backend_ok_def stages_ok_def)
qed

lemma ok_drop_completed:
  assumes "backend_ok b"
  shows "backend_ok (drop_completed n b)"
proof -
  obtain fs where "cq_holds (vb_completed b) fs" "\<forall>f\<in>set fs. \<exists>i<AVD_MAX_SESSIONS. serves (vb_sessions b ! i) (df_stream_id f)"
    using assms by (auto simp: backend_ok_def completed_ok_def)
  then have "completed_ok (drop_completed n b)"
    using cq_retain_holds [of "vb_completed b" fs "\<lambda>f. df_stream_id f \<noteq> n"]
    by (auto simp: completed_ok_def drop_completed_def)
  then show ?thesis
    using assms by (auto simp: backend_ok_def sessions_ok_def pending_ok_def stages_ok_def drop_completed_def)
qed

text \<open>A session that stops serving has no decode in flight and takes its frames with it.\<close>

lemma ok_stop_session:
  assumes "backend_ok b" and "i < AVD_MAX_SESSIONS" and "ss_stream_id (vb_sessions b ! i) = n"
    and "ss_stream_id s = n" and "session_ok s" and "\<not> pending_for n b"
  shows "backend_ok (drop_completed n (set_session i s b))"
proof -
  have len: "length (vb_sessions b) = AVD_MAX_SESSIONS"
    using assms(1) by (simp add: backend_ok_defs)
  note nth = nth_set_session [of i b s, unfolded len, OF assms(2)]
  let ?b = "drop_completed n (set_session i s b)"
  have sessions: "vb_sessions ?b = vb_sessions (set_session i s b)"
    by (simp add: drop_completed_def)
  have other: "serves (vb_sessions b ! j) k \<Longrightarrow> k \<noteq> n \<Longrightarrow> j \<noteq> i" for j k
    using assms(3) by (auto simp: serves_def)
  obtain fs where fs: "cq_holds (vb_completed b) fs"
    "\<forall>f\<in>set fs. \<exists>j<AVD_MAX_SESSIONS. serves (vb_sessions b ! j) (df_stream_id f)"
    using assms(1) by (auto simp: backend_ok_def completed_ok_def)
  have "cq_holds (vb_completed ?b) (filter (\<lambda>f. df_stream_id f \<noteq> n) fs)"
    using cq_retain_holds [OF fs(1), of "\<lambda>f. df_stream_id f \<noteq> n"] by (simp add: drop_completed_def)
  moreover have "\<exists>j<AVD_MAX_SESSIONS. serves (vb_sessions ?b ! j) (df_stream_id f)" if "f \<in> set (filter (\<lambda>f. df_stream_id f \<noteq> n) fs)" for f
    using that fs(2) other by (fastforce simp: sessions nth)
  ultimately have "completed_ok ?b"
    unfolding completed_ok_def by blast
  moreover have "pending_ok ?b"
    using assms(1,6) other unfolding backend_ok_def pending_ok_def pending_for_def
    by (fastforce simp: sessions nth drop_completed_def)
  moreover have "sessions_ok ?b"
    using assms by (auto simp: backend_ok_def sessions_ok_def sessions nth)
  ultimately show ?thesis
    using assms(1) by (simp add: backend_ok_def stages_ok_def drop_completed_def)
qed

lemma ok_defer:
  assumes "backend_ok b"
  shows "backend_ok (defer_recovery r b)"
  using assms by (auto simp: backend_ok_defs defer_recovery_def)

lemma ok_quarantine:
  assumes "backend_ok b" and "vb_recovery_reason b = None"
  shows "backend_ok (quarantine_sessions_after_recovery b)"
proof -
  obtain fs where "cq_holds (vb_completed b) fs"
    using assms by (auto simp: backend_ok_def completed_ok_def)
  then have "completed_ok (quarantine_sessions_after_recovery b)"
    using cq_clear_holds by (fastforce simp: completed_ok_def quarantine_sessions_after_recovery_def intro!: exI [of _ "[]"])
  moreover have "session_ok ((session_new i)\<lparr>ss_active := x, ss_quarantined := y, ss_coded_format := z\<rparr>)" for i x y z
    by (subst session_ok_cong [of _ "session_new i"]) (simp_all add: session_ok_new)
  moreover have "ss_stream_id (session_new i) = of_nat (Suc i)" for i
    by (simp add: session_new_def)
  ultimately show ?thesis
    using assms
    by (auto simp: backend_ok_def sessions_ok_def pending_ok_def stages_ok_def quarantine_sessions_after_recovery_def
        session_ok_new Let_def simp del: of_nat_Suc)
qed

section \<open>Finding sessions\<close>

lemma find_session_Some:
  assumes "sessions_ok b" and "find_session P b = Some i"
  shows "i < AVD_MAX_SESSIONS" and "P (vb_sessions b ! i)"
  using assms by (auto simp: find_session_def find_Some_iff sessions_ok_def)

lemma session_index_Inr:
  assumes "backend_ok b" and "session_index n b = Inr i"
  shows "i < AVD_MAX_SESSIONS" and "ss_stream_id (vb_sessions b ! i) = n" and "session_ok (vb_sessions b ! i)"
proof -
  have "find_session (\<lambda>s. ss_stream_id s = n) b = Some i"
    using assms(2) by (auto simp: session_index_def split: option.splits)
  from find_session_Some [OF _ this] show "i < AVD_MAX_SESSIONS" "ss_stream_id (vb_sessions b ! i) = n"
    using assms(1) by (auto simp: backend_ok_def)
  then show "session_ok (vb_sessions b ! i)"
    using assms(1) by (auto simp: backend_ok_def sessions_ok_def)
qed

lemma session_for_submit_Inr:
  assumes "backend_ok b" and "session_for_submit n fmt b = Inr i"
  shows "i < AVD_MAX_SESSIONS" and "serves (vb_sessions b ! i) n" and "session_ok (vb_sessions b ! i)"
  using assms session_index_Inr [OF assms(1)]
  by (auto simp: session_for_submit_def active_session_def serves_def split: sum.splits if_splits)

text \<open>Stream ids tell sessions apart.\<close>

lemma session_index_serves:
  assumes "backend_ok b" and "i < AVD_MAX_SESSIONS" and "ss_stream_id (vb_sessions b ! i) = n"
  shows "session_index n b = Inr i"
proof -
  have "unat (of_nat (Suc k) :: u32) = Suc k" if "k < AVD_MAX_SESSIONS" for k
    using that by (simp only: unat_of_nat) (simp add: AVD_MAX_SESSIONS_def)
  then have inj: "of_nat (Suc j) = (of_nat (Suc i) :: u32) \<Longrightarrow> j < AVD_MAX_SESSIONS \<Longrightarrow> j = i" for j
    using assms(2) by (metis nat.inject)
  have ids: "ss_stream_id (vb_sessions b ! j) = of_nat (Suc j)" if "j < AVD_MAX_SESSIONS" for j
    using assms(1) that by (simp add: backend_ok_def sessions_ok_def del: of_nat_Suc)
  have "ss_stream_id (vb_sessions b ! j) = n \<longleftrightarrow> j = i" if "j < AVD_MAX_SESSIONS" for j
    using ids [OF that] assms(3) inj [OF _ that] ids [OF assms(2)] by metis
  then have "find (\<lambda>j. ss_stream_id (vb_sessions b ! j) = n) [0..<AVD_MAX_SESSIONS] = Some i"
    unfolding find_Some_iff using assms(2) by (intro exI [of _ i]) simp
  then show ?thesis
    using assms(1) by (simp add: session_index_def find_session_def backend_ok_def sessions_ok_def)
qed

section \<open>Operations\<close>

lemma session_ok_fields [simp]:
  "session_ok (s\<lparr>ss_active := a\<rparr>) = session_ok s" "session_ok (s\<lparr>ss_quarantined := a\<rparr>) = session_ok s"
  "session_ok (s\<lparr>ss_coded_format := c\<rparr>) = session_ok s" "session_ok (s\<lparr>ss_next_frame := n\<rparr>) = session_ok s"
  "session_ok (s\<lparr>ss_stream_parameters := q\<rparr>) = session_ok s" "session_ok (s\<lparr>ss_input_pool := p\<rparr>) = session_ok s"
  "session_ok (s\<lparr>ss_output_pool := p\<rparr>) = session_ok s" "session_ok (s\<lparr>ss_workspace := w\<rparr>) = session_ok s"
  "session_ok (s\<lparr>ss_next_reference_slot := k\<rparr>) = session_ok s" "session_ok (s\<lparr>ss_reference_slot_len := k\<rparr>) = session_ok s"
  "session_ok (s\<lparr>ss_active_slot_count := k\<rparr>) = session_ok s" "session_ok (s\<lparr>ss_dpb_capacity := k\<rparr>) = session_ok s"
  by (rule session_ok_cong; simp)+

lemma session_reset_simps [simp]:
  "ss_stream_id (session_reset s) = ss_stream_id s" "reference_frames (session_reset s) = []"
  "ss_active (session_reset s) = False"
  by (simp_all add: session_reset_def clear_reference_frames_def reference_frames_eq)

lemma allocate_keeps: "preserves backend_ok (allocate_session fmt)"
proof
  fix b
  assume ok: "backend_ok b"
  show "backend_ok (snd (allocate_session fmt b))"
  proof (cases "find_session (\<lambda>s. \<not> ss_active s \<and> \<not> ss_quarantined s) b")
    case None
    then show ?thesis
      using ok by (simp add: allocate_session_def)
  next
    case (Some i)
    have i: "i < AVD_MAX_SESSIONS" "\<not> ss_active (vb_sessions b ! i)"
      using find_session_Some [OF _ Some] ok by (auto simp: backend_ok_def)
    then have s: "session_ok (vb_sessions b ! i)" "i < length (vb_sessions b)"
      using ok by (auto simp: backend_ok_def sessions_ok_def)
    define b1 where "b1 = reset_session_state i b"
    have b1: "backend_ok b1"
      unfolding b1_def reset_session_state_def
      using ok i s by (intro ok_drop_completed ok_set_session) (auto simp: session_ok_reset)
    have new: "vb_sessions b1 ! i = session_reset (vb_sessions b ! i)"
      using s(2) by (simp add: b1_def reset_session_state_def drop_completed_def nth_set_session)
    have "backend_ok (set_session i ((vb_sessions b1 ! i)\<lparr>ss_active := True, ss_coded_format := fmt, ss_next_frame := 0,
        ss_stream_parameters := None\<rparr>) b1)"
      using b1 i s by (intro ok_set_session) (auto simp: new session_ok_reset)
    then show ?thesis
      by (simp add: allocate_session_def Some Let_def b1_def)
  qed
qed

lemma recover_keeps: "preserves backend_ok (recover_deferred_firmware reset)"
proof
  fix b
  assume ok: "backend_ok b"
  show "backend_ok (snd (recover_deferred_firmware reset b))"
  proof (cases "vb_recovery_reason b")
    case None
    then show ?thesis
      using ok by (simp add: recover_deferred_firmware_def)
  next
    case (Some r)
    define b1 where "b1 = log_op FirmwareReset (cancel_watchdog (b\<lparr>vb_recovery_reason := None\<rparr>))"
    have pending: "vb_pending b = None"
      using ok Some by (simp add: backend_ok_def stages_ok_def)
    have "backend_ok (b\<lparr>vb_recovery_reason := None\<rparr>)"
      using ok by (auto simp: backend_ok_defs)
    then have b1: "backend_ok b1" "vb_recovery_reason b1 = None" "vb_pending b1 = None"
      using pending by (simp_all add: b1_def)
    then have "backend_ok (b1\<lparr>vb_recovery_reason := Some r\<rparr>)"
      by (auto simp: backend_ok_defs)
    then show ?thesis
      using ok_quarantine [OF b1(1,2)] by (simp add: recover_deferred_firmware_def Some Let_def b1_def split: sum.split)
  qed
qed

text \<open>The table operations leave the identity of their session.\<close>

definition same_session :: "backend_session \<Rightarrow> backend_session \<Rightarrow> bool" where
  "same_session s s' \<longleftrightarrow> ss_stream_id s' = ss_stream_id s \<and> ss_active s' = ss_active s \<and> ss_quarantined s' = ss_quarantined s"

lemma same_session_refl [simp]: "same_session s s"
  by (simp add: same_session_def)

lemma same_session_trans: "same_session s t \<Longrightarrow> same_session t u \<Longrightarrow> same_session s u"
  by (simp add: same_session_def)

lemma same_session_table [simp]:
  "same_session s (clear_reference_frames s)" "same_session s (retain_reference_frames keep s)"
  "same_session s (remove_oldest_reference_frame s)"
  by (simp_all add: same_session_def clear_reference_frames_def retain_reference_frames_def Let_def
      remove_oldest_reference_frame_def split: option.split)

lemma same_session_trim: "trim_reference_frames n s = Some t \<Longrightarrow> same_session s t"
proof (rule trim_reference_frames.raw_induct [where P = "\<lambda>n s t. same_session s t"])
  fix f n s t
  assume "\<And>n s t. f n s = Some t \<Longrightarrow> same_session s t"
    and "(if n < ss_reference_frame_count s then f n (remove_oldest_reference_frame s) else Some s) = Some t"
  then show "same_session s t"
    by (auto split: if_splits intro: same_session_trans [OF same_session_table(3)])
qed

lemma same_session_insert:
  assumes "insert_reference_frame f s = (r, t)"
  shows "same_session s t"
proof -
  define s1 where "s1 = remove_reference_slot (rf_slot f) s"
  define s2 where "s2 = (if AVD_REFERENCE_FRAME_TABLE_LEN \<le> ss_reference_frame_count s1 then remove_oldest_reference_frame s1 else s1)"
  have "same_session s s2"
    unfolding s2_def s1_def remove_reference_slot_def by (auto intro: same_session_trans [OF same_session_table(2) same_session_table(3)])
  moreover have "same_session s2 t"
    using assms unfolding insert_reference_frame_def Let_def s1_def [symmetric] s2_def [symmetric]
    by (auto simp: same_session_def split: option.splits)
  ultimately show ?thesis
    by (rule same_session_trans)
qed

text \<open>Storing a frame in the session it belongs to.\<close>

lemma store_reference_Some:
  assumes "session_ok s"
  shows "\<exists>s'. store_reference p s = Some (Inr (), s') \<and> session_ok s' \<and> same_session s s'"
proof -
  define s1 where "s1 = (if pd_is_idr p then clear_reference_frames s else s)"
  have s1: "session_ok s1" "same_session s s1"
    using assms by (simp_all add: s1_def session_ok_clear)
  have store: "store_reference p s = (if \<not> pd_store_reference p then Some (Inr (), s1)
      else case insert_reference_frame (reference_of p) s1 of (Inl e, t) \<Rightarrow> Some (Inl e, t)
        | (Inr u, t) \<Rightarrow> map_option (Pair (Inr ())) (trim_reference_frames (max (pd_dpb_capacity p) 1) t))"
    by (simp only: store_reference_def Let_def s1_def)
  show ?thesis
  proof (cases "pd_store_reference p")
    case False
    with s1 show ?thesis
      by (simp add: store)
  next
    case True
    obtain s2 where s2: "insert_reference_frame (reference_of p) s1 = (Inr (), s2)" "session_ok s2"
      using insert_Inr [OF s1(1), of "reference_of p"] by (elim exE conjE)
    obtain s3 where s3: "trim_reference_frames (max (pd_dpb_capacity p) 1) s2 = Some s3" "session_ok s3"
      using trim_Some [OF s2(2), of "max (pd_dpb_capacity p) 1"] by (elim exE conjE)
    have "store_reference p s = Some (Inr (), s3)"
      unfolding store using True s2(1) s3(1) by simp
    moreover have "same_session s s3"
      by (rule same_session_trans [OF s1(2) same_session_trans [OF same_session_insert [OF s2(1)] same_session_trim [OF s3(1)]]])
    ultimately show ?thesis
      using s3(2) by blast
  qed
qed

lemma commit_Some:
  assumes "backend_ok b" and "vb_pending b = None" and "i < AVD_MAX_SESSIONS" and "serves (vb_sessions b ! i) (pd_stream_id p)"
  shows "\<exists>r b'. commit_pending_decode p b = Some (r, b') \<and> backend_ok b' \<and> vb_pending b' = None"
proof -
  have s: "session_ok (vb_sessions b ! i)" "session_index (pd_stream_id p) b = Inr i"
    using assms session_index_serves [OF assms(1,3)] by (auto simp: backend_ok_def sessions_ok_def serves_def)
  obtain s' where s': "store_reference p (vb_sessions b ! i) = Some (Inr (), s')" "session_ok s'"
    "same_session (vb_sessions b ! i) s'"
    using store_reference_Some [OF s(1), of p] by (elim exE conjE)
  note same = s'(3) [unfolded same_session_def]
  define b1 where "b1 = set_session i s' b"
  have b1: "backend_ok b1"
    unfolding b1_def using assms s' same by (intro ok_set_session) auto
  have serves: "serves (vb_sessions b1 ! i) (pd_stream_id p)"
    using assms same by (auto simp: b1_def nth_set_session backend_ok_def sessions_ok_def serves_def)
  obtain r q where push: "cq_push_back (frame_of p) (vb_completed b1) = (r, q)"
    by (cases "cq_push_back (frame_of p) (vb_completed b1)")
  obtain fs where fs: "cq_holds (vb_completed b1) fs" "\<forall>f\<in>set fs. \<exists>j<AVD_MAX_SESSIONS. serves (vb_sessions b1 ! j) (df_stream_id f)"
    using b1 by (auto simp: backend_ok_def completed_ok_def)
  have "\<exists>fs. cq_holds q fs \<and> (\<forall>f\<in>set fs. \<exists>j<AVD_MAX_SESSIONS. serves (vb_sessions b1 ! j) (df_stream_id f))"
  proof (cases "length fs = AVD_COMPLETED_FRAME_QUEUE_LEN")
    case True
    then have "q = vb_completed b1"
      using cq_push_holds(1) [OF fs(1), of "frame_of p"] push by simp
    with fs show ?thesis
      by blast
  next
    case False
    then have "length fs < AVD_COMPLETED_FRAME_QUEUE_LEN"
      using fs(1) by (simp add: cq_holds_def)
    then have "cq_holds q (fs @ [frame_of p])"
      using cq_push_holds(2) [OF fs(1)] push by (metis snd_conv)
    moreover have "df_stream_id (frame_of p) = pd_stream_id p"
      by (simp add: frame_of_def)
    ultimately show ?thesis
      using fs(2) serves assms(3) by (intro exI [of _ "fs @ [frame_of p]"]) auto
  qed
  then have "backend_ok (b1\<lparr>vb_completed := q\<rparr>)"
    using b1 by (auto simp: backend_ok_def sessions_ok_def pending_ok_def completed_ok_def stages_ok_def)
  then show ?thesis
    using s(2) s'(1) push assms(2) by (simp add: commit_pending_decode_def Let_def flip: b1_def) (simp add: b1_def)
qed

lemma drain_Some:
  assumes "backend_ok b"
  shows "\<exists>r b'. drain_irq_completion V b = Some (r, b') \<and> backend_ok b' \<and> (vb_pending b = None \<longrightarrow> vb_pending b' = None)"
proof (cases "vb_irq_completion b")
  case None
  then show ?thesis
    using assms by (simp add: drain_irq_completion_def)
next
  case (Some c)
  then obtain p where p: "vb_pending b = Some p"
    using assms by (auto simp: backend_ok_def stages_ok_def)
  then obtain i where i: "i < AVD_MAX_SESSIONS" "serves (vb_sessions b ! i) (pd_stream_id p)"
    using assms by (auto simp: backend_ok_def pending_ok_def)
  define b1 where "b1 = cancel_watchdog (b\<lparr>vb_irq_completion := None, vb_pending := None\<rparr>)"
  have b1: "backend_ok (b1\<lparr>vb_mem := m\<rparr>)" "vb_pending b1 = None" "vb_sessions b1 = vb_sessions b" for m
  proof -
    have "backend_ok (b\<lparr>vb_irq_completion := None, vb_pending := None\<rparr>)"
      using assms by (auto simp: backend_ok_defs)
    then show "backend_ok (b1\<lparr>vb_mem := m\<rparr>)"
      by (subst backend_ok_cong [of _ b1]) (simp_all add: b1_def)
  qed (simp_all add: b1_def)
  have commit: "\<exists>r b'. commit_pending_decode p (b1\<lparr>vb_mem := m\<rparr>) = Some (r, b') \<and> backend_ok b'" for m
    using commit_Some [OF b1(1), of m i p] b1(2,3) i by auto
  obtain q m where prepare: "prepare_pending_decode_output (PIXEL_FORMAT_NV12 (va_h264 V)) (FRAME_MAGIC V) p (vb_mem b1) = (q, m)"
    by (cases "prepare_pending_decode_output (PIXEL_FORMAT_NV12 (va_h264 V)) (FRAME_MAGIC V) p (vb_mem b1)")
  show ?thesis
    using commit [of m] b1(1) [of m]
    by (cases q) (simp_all add: drain_irq_completion_def Some p Let_def prepare flip: b1_def)
qed

lemma drain_keeps: "may_keep backend_ok (drain_irq_completion V)"
  by (rule may_keepI) (metis drain_Some option.inject prod.inject)

section \<open>Interrupts and the watchdog\<close>

lemma service_keeps: "preserves backend_ok (service_completion_message V raw status)"
proof
  fix b
  assume ok: "backend_ok b"
  show "backend_ok (snd (service_completion_message V raw status b))"
  proof (cases "vb_pending b")
    case None
    then show ?thesis
      using ok by (simp add: service_completion_message_def)
  next
    case (Some p)
    have fault: "backend_ok (fault_recovery status u)" if "backend_ok u" for u
      using that by (simp add: fault_recovery_def ok_defer)
    have video: "backend_ok (u\<lparr>vb_pending := Some (p\<lparr>pd_completion_phase := WaitingPostprocess\<rparr>)\<rparr>)"
      if "backend_ok u" "vb_pending u = Some p" for u
      using that by (auto simp: backend_ok_def sessions_ok_def pending_ok_def completed_ok_def stages_ok_def)
    have post: "backend_ok (u\<lparr>vb_irq_completion := Some c\<rparr>)"
      if "backend_ok u" "vb_pending u = Some p" "pd_completion_phase p = WaitingPostprocess" for u c
      using that by (auto simp: backend_ok_def sessions_ok_def pending_ok_def completed_ok_def stages_ok_def)
    show ?thesis
      using ok Some by (simp add: service_completion_message_def Let_def fault video post)
  qed
qed

lemma claim_keeps: "backend_ok b \<Longrightarrow> backend_ok (snd (avd_claim_interrupt V raw status b))"
  using service_keeps [of V raw status]
  by (auto simp: avd_claim_interrupt_def preserves_def split: prod.splits sum.splits)

lemma timer_keeps: "backend_ok b \<Longrightarrow> backend_ok (snd (on_timer_expired g status b))"
  by (simp add: on_timer_expired_def ok_defer)

section \<open>Destroying a session\<close>

lemma relinquish_keeps: "preserves backend_ok (relinquish_session n reason)"
proof
  fix b
  assume ok: "backend_ok b"
  show "backend_ok (snd (relinquish_session n reason b))"
  proof (cases "session_index n b")
    case (Inl e)
    then show ?thesis
      using ok by (simp add: relinquish_session_def)
  next
    case (Inr i)
    note i = session_index_Inr [OF ok Inr]
    define b1 where "b1 = (if pending_for n b then defer_recovery reason b else b)"
    have b1: "backend_ok b1" "\<not> pending_for n b1" "vb_sessions b1 = vb_sessions b"
      by (simp_all add: b1_def ok ok_defer) (simp_all add: pending_for_def defer_recovery_def)
    have "backend_ok (drop_completed n (set_session i
        ((vb_sessions b1 ! i)\<lparr>ss_active := False, ss_quarantined := True, ss_coded_format := 0\<rparr>) b1))"
      using b1 i by (intro ok_stop_session) auto
    then show ?thesis
      using ok by (simp add: relinquish_session_def Inr Let_def flip: b1_def)
  qed
qed

lemma take_resources_keeps: "preserves backend_ok (take_relinquished_session_resources n)"
proof
  fix b
  assume ok: "backend_ok b"
  show "backend_ok (snd (take_relinquished_session_resources n b))"
  proof (cases "session_index n b")
    case (Inr i)
    have "ss_stream_id (session_new i) = ss_stream_id (vb_sessions b ! i)"
      using ok session_index_Inr [OF ok Inr] by (auto simp: backend_ok_def sessions_ok_def session_new_def)
    then show ?thesis
      using ok session_index_Inr [OF ok Inr]
      by (auto simp: take_relinquished_session_resources_def Inr session_ok_new intro!: ok_drop_completed ok_set_session)
  qed (simp add: take_relinquished_session_resources_def ok)
qed

lemma take_mappings_keeps: "preserves backend_ok (take_relinquished_frontend_mappings n)"
proof
  fix b
  assume ok: "backend_ok b"
  show "backend_ok (snd (take_relinquished_frontend_mappings n b))"
  proof (cases "session_index n b")
    case (Inr i)
    have "ss_stream_id (clear_reference_frames s) = ss_stream_id s" for s
      by (simp add: clear_reference_frames_def)
    then show ?thesis
      using ok session_index_Inr [OF ok Inr]
      by (auto simp: take_relinquished_frontend_mappings_def Inr Let_def session_ok_clear intro!: ok_set_session)
  qed (simp add: take_relinquished_frontend_mappings_def ok)
qed

lemma destroy_keeps: "preserves backend_ok (destroy_session reset n status)"
proof
  fix b
  assume ok: "backend_ok b"
  show "backend_ok (snd (destroy_session reset n status b))"
  proof (cases "has_pending_for_stream n b")
    case (Inr had)
    define b1 where "b1 = (if had then log_op MailboxMask b else b)"
    obtain q b2 where q: "relinquish_session n (ucast status) b1 = (q, b2)"
      by (cases "relinquish_session n (ucast status) b1")
    obtain u b3 where u: "recover_deferred_firmware reset b2 = (u, b3)"
      by (cases "recover_deferred_firmware reset b2")
    obtain v b4 where v: "take_relinquished_session_resources n b3 = (v, b4)"
      by (cases "take_relinquished_session_resources n b3")
    obtain w b5 where w: "take_relinquished_frontend_mappings n b3 = (w, b5)"
      by (cases "take_relinquished_frontend_mappings n b3")
    have "backend_ok b1"
      using ok by (simp add: b1_def)
    then have b2: "backend_ok b2"
      by (rule preservesD [OF relinquish_keeps]) (rule q)
    then have "backend_ok b3"
      by (rule preservesD [OF recover_keeps]) (rule u)
    then have "backend_ok b3" "backend_ok b4" "backend_ok b5"
      using preservesD [OF take_resources_keeps _ v] preservesD [OF take_mappings_keeps _ w] by auto
    then show ?thesis
      using b2 unfolding destroy_session_def Inr sum.case b1_def [symmetric] q prod.case
      by (simp add: u v w split: sum.split)
  qed (simp add: destroy_session_def ok)
qed

section \<open>Creating and dequeuing\<close>

lemma create_keeps: "may_keep backend_ok (create_session V reset fmt)"
  unfolding create_session_def
  by (auto intro!: preserves_intros drain_keeps recover_keeps allocate_keeps)

lemma dequeue_step_keeps:
  "preserves backend_ok (\<lambda>b. case active_session n b of Inl e \<Rightarrow> (Inl e, b)
     | Inr i \<Rightarrow> (case cq_position (\<lambda>f. df_stream_id f = n) (vb_completed b) of
         None \<Rightarrow> (Inr None, b)
       | Some k \<Rightarrow> (case cq_remove k (vb_completed b) of (f, q) \<Rightarrow> (Inr f, b\<lparr>vb_completed := q\<rparr>))))"
proof
  fix b
  assume ok: "backend_ok b"
  obtain fs where fs: "cq_holds (vb_completed b) fs" "\<forall>f\<in>set fs. \<exists>i<AVD_MAX_SESSIONS. serves (vb_sessions b ! i) (df_stream_id f)"
    using ok by (auto simp: backend_ok_def completed_ok_def)
  have "backend_ok (b\<lparr>vb_completed := snd (cq_remove k (vb_completed b))\<rparr>)"
    if "cq_position (\<lambda>f. df_stream_id f = n) (vb_completed b) = Some k" for k
  proof -
    have "k < length fs"
      using that by (auto simp: cq_position_holds [OF fs(1)] find_Some_iff)
    then have "cq_holds (snd (cq_remove k (vb_completed b))) (take k fs @ drop (Suc k) fs)"
      by (rule cq_remove_holds(2) [OF fs(1)])
    then show ?thesis
      using ok fs(2) by (fastforce simp: backend_ok_def sessions_ok_def pending_ok_def completed_ok_def stages_ok_def
          dest: in_set_takeD in_set_dropD)
  qed
  then show "backend_ok (snd (case active_session n b of Inl e \<Rightarrow> (Inl e, b)
     | Inr i \<Rightarrow> (case cq_position (\<lambda>f. df_stream_id f = n) (vb_completed b) of
         None \<Rightarrow> (Inr None, b)
       | Some k \<Rightarrow> (case cq_remove k (vb_completed b) of (f, q) \<Rightarrow> (Inr f, b\<lparr>vb_completed := q\<rparr>)))))"
    using ok by (auto split: sum.split option.split prod.split)
qed

lemma dequeue_keeps: "may_keep backend_ok (dequeue_frame V reset n)"
  unfolding dequeue_frame_def
  by (intro preserves_intros drain_keeps recover_keeps dequeue_step_keeps)

section \<open>Submitting\<close>

lemma same_session_fields [simp]:
  "same_session s (t\<lparr>ss_next_frame := n\<rparr>) = same_session s t" "same_session s (t\<lparr>ss_stream_parameters := q\<rparr>) = same_session s t"
  "same_session s (t\<lparr>ss_input_pool := p\<rparr>) = same_session s t" "same_session s (t\<lparr>ss_output_pool := p\<rparr>) = same_session s t"
  "same_session s (t\<lparr>ss_workspace := w\<rparr>) = same_session s t" "same_session s (t\<lparr>ss_next_reference_slot := k\<rparr>) = same_session s t"
  "same_session s (t\<lparr>ss_reference_slot_len := k\<rparr>) = same_session s t" "same_session s (t\<lparr>ss_active_slot_count := k\<rparr>) = same_session s t"
  "same_session s (t\<lparr>ss_dpb_capacity := k\<rparr>) = same_session s t"
  by (simp_all add: same_session_def)

lemma same_session_clear: "same_session s t \<Longrightarrow> same_session s (clear_reference_frames t)"
  by (rule same_session_trans [OF _ same_session_table(1)])

lemma install_ok:
  "session_ok s \<Longrightarrow> session_ok (install_resources made s)" "same_session s (install_resources made s)"
  by (cases made; simp add: install_resources_def Let_def session_ok_clear same_session_clear split: option.split)+

lemma prune_ok:
  assumes "session_ok s"
  shows "\<exists>n s'. prune_reference_frames_for_dpb K dpb m s = Some (n, s') \<and> session_ok s' \<and> same_session s s'"
proof -
  define t where "t = retain_reference_frames (\<lambda>f. list_ex (\<lambda>e. dpb_entry_matches_reference K e f) dpb) s"
  have t: "session_ok t" "same_session s t"
    using assms by (simp_all add: t_def session_ok_retain)
  have "\<exists>u. trim_reference_frames k t = Some u \<and> session_ok u \<and> same_session s u" for k
    using trim_Some [OF t(1), of k] same_session_trans [OF t(2) same_session_trim] by blast
  then show ?thesis
    using assms by (auto simp: prune_reference_frames_for_dpb_def Let_def session_ok_clear same_session_clear simp flip: t_def)
qed

lemma prepare_same: "prepare_mapped_output rq plan is_idr h s = (r, s') \<Longrightarrow> same_session s s'"
  by (auto simp: prepare_mapped_output_def Let_def same_session_clear split: sum.splits if_splits)

lemma prepare_ok:
  assumes "session_ok s" and "0 < rs_slot_count plan" and "prepare_mapped_output rq plan is_idr h s = (r, s')"
  shows "session_ok s'" and "\<And>out. r = Inr out \<Longrightarrow> ro_slot out \<notin> rf_slot ` set (reference_frames s')"
proof -
  have "session_ok s' \<and> (\<forall>out. r = Inr out \<longrightarrow> ro_slot out \<notin> rf_slot ` set (reference_frames s'))"
  proof (cases r)
    case (Inl e)
    then have "s' = s"
      using assms(3) by (auto simp: prepare_mapped_output_def Let_def split: sum.splits)
    with assms(1) Inl show ?thesis
      by simp
  next
    case (Inr out)
    then show ?thesis
      using prepare(2,3) [OF assms(1,2), of rq is_idr h out s'] assms(3) by simp
  qed
  then show "session_ok s'" "\<And>out. r = Inr out \<Longrightarrow> ro_slot out \<notin> rf_slot ` set (reference_frames s')"
    by auto
qed

text \<open>No decode in flight, none to recover from: what holds when a submit touches a session.\<close>

definition backend_idle :: "avd_backend \<Rightarrow> bool" where
  "backend_idle b \<longleftrightarrow> backend_ok b \<and> vb_pending b = None \<and> vb_recovery_reason b = None"

lemma backend_idle_set_session:
  assumes "backend_idle b" and "i < AVD_MAX_SESSIONS" and "same_session (vb_sessions b ! i) s" and "session_ok s"
  shows "backend_idle (set_session i s b)"
  using assms by (auto simp: backend_idle_def same_session_def intro!: ok_set_session)

lemma start_keeps:
  assumes "backend_idle b" and "i < AVD_MAX_SESSIONS" and "serves (vb_sessions b ! i) (vr_stream_id rq)"
    and "ro_slot out \<notin> rf_slot ` set (reference_frames (vb_sessions b ! i))"
    and "start_prepared V A rq st plan params n a out k i b = Some (r, b')"
  shows "backend_ok b'"
proof -
  have mem: "backend_ok (b\<lparr>vb_mem := m\<rparr>)" for m
    using assms(1) backend_ok_cong [of "b\<lparr>vb_mem := m\<rparr>" b] by (simp add: backend_idle_def)
  have arm: "backend_ok ((arm_watchdog (log_op v (b\<lparr>vb_mem := m\<rparr>)))\<lparr>vb_pending := Some (pending_of rq st plan dr out ws n t)\<rparr>)"
    for v m dr ws t
  proof -
    have "pd_stream_id (pending_of rq st plan dr out ws n t) = vr_stream_id rq"
      "pd_reference_slot (pending_of rq st plan dr out ws n t) = ro_slot out"
      by (simp_all add: pending_of_def Let_def)
    then show ?thesis
      using assms(1-4) unfolding arm_watchdog_def backend_idle_def log_op_def
      by (auto simp: backend_ok_def sessions_ok_def pending_ok_def completed_ok_def stages_ok_def)
  qed
  show ?thesis
    using assms(1,5) unfolding start_prepared_def Let_def backend_idle_def
    by (auto simp: mem arm split: sum.splits option.splits prod.splits if_splits)
qed

lemma submit_prepared_keeps:
  assumes "backend_idle b" and "0 < rs_slot_count plan"
    and "submit_h264_prepared_locked V A rq st plan params b = Some (r, b')"
  shows "backend_ok b'"
proof (cases "session_for_submit (vr_stream_id rq) (vr_coded_format rq) b")
  case (Inl e)
  then show ?thesis
    using assms(1,3) by (simp add: submit_h264_prepared_locked_def backend_idle_def)
next
  case (Inr i)
  have ok: "backend_ok b"
    using assms(1) by (simp add: backend_idle_def)
  note i = session_for_submit_Inr [OF ok Inr]
  define s where "s = (vb_sessions b ! i)\<lparr>ss_next_frame := ss_next_frame (vb_sessions b ! i) + 1\<rparr>"
  define idr where "idr = has_flag (dp_flags (hp_decode params)) (DECODE_PARAM_IDR (va_h264 V))"
  have s: "session_ok s" "same_session (vb_sessions b ! i) s"
    using i(3) by (simp_all add: s_def)
  obtain q s' where q: "prepare_mapped_output rq plan idr (FRAME_HEADER_LEN V) s = (q, s')"
    by (cases "prepare_mapped_output rq plan idr (FRAME_HEADER_LEN V) s")
  note s' = prepare_ok [OF s(1) assms(2) q] same_session_trans [OF s(2) prepare_same [OF q]]
  have backend_idles: "backend_idle (set_session i s b)" "backend_idle (set_session i s' b)"
    using backend_idle_set_session [OF assms(1) i(1)] s s' by blast+
  have nth: "vb_sessions (set_session i s' b) ! i = s'"
    using ok i(1) by (simp add: nth_set_session backend_ok_def sessions_ok_def)
  have "serves s' (vr_stream_id rq)"
    using i(2) s'(3) by (simp add: serves_def same_session_def)
  then have start: "backend_ok b'" if "q = Inr out" "start_prepared V A rq st plan params n a out k i (set_session i s' b) = Some (r, b')" for out n a k
    using start_keeps [OF backend_idles(2) i(1) _ _ that(2)] s'(2) that(1) by (simp add: nth)
  show ?thesis
    using assms(3) backend_idles ok unfolding submit_h264_prepared_locked_def Inr sum.case Let_def s_def [symmetric] idr_def [symmetric] q prod.case
    by (auto simp: backend_idle_def split: sum.splits intro: start)
qed

lemma resources_keep:
  assumes "backend_idle b" and "prepare_h264_session_resources V A rq plan idr params b = Some (r, b')"
  shows "backend_idle b'"
proof (cases "session_for_submit (vr_stream_id rq) (vr_coded_format rq) b")
  case (Inl e)
  then show ?thesis
    using assms by (simp add: prepare_h264_session_resources_def backend_idle_def)
next
  case (Inr i)
  have ok: "backend_ok b" "vb_pending b = None"
    using assms(1) by (simp_all add: backend_idle_def)
  note i = session_for_submit_Inr [OF ok(1) Inr]
  have set: "backend_idle (set_session i s b)" if "same_session (vb_sessions b ! i) s" "session_ok s" for s
    using backend_idle_set_session [OF assms(1) i(1) that] .
  show ?thesis
  proof (cases "make_resources A rq plan (vb_sessions b ! i)")
    case (Inl e)
    then show ?thesis
      using assms ok(2) by (simp add: prepare_h264_session_resources_def Inr)
  next
    case made: (Inr made)
    define s where "s = install_resources made (vb_sessions b ! i)"
    have s: "session_ok s" "same_session (vb_sessions b ! i) s"
      using install_ok(1) [OF i(3)] install_ok(2) by (simp_all add: s_def)
    obtain n t where t: "prune_reference_frames_for_dpb (va_h264 V) (dp_dpb (hp_decode params)) (rs_max_references plan) s = Some (n, t)"
      "session_ok t" "same_session s t"
      using prune_ok [OF s(1), of "va_h264 V" "dp_dpb (hp_decode params)" "rs_max_references plan"] by (elim exE conjE)
    have "b' = set_session i s b \<or> b' = set_session i t b"
      using assms(2) unfolding prepare_h264_session_resources_def Inr made sum.case Let_def s_def [symmetric] t(1)
      by (simp add: ok split: sum.splits)
    then show ?thesis
      using set [OF s(2,1)] set [OF same_session_trans [OF s(2) t(3)] t(2)] by auto
  qed
qed

lemma submit_drained_keeps:
  assumes "backend_ok b" and "vb_recovery_reason b = None" and "submit_when_drained V A rq params b = Some (r, b')"
  shows "backend_ok b'"
proof (cases "vb_pending b")
  case (Some p)
  then show ?thesis
    using assms
    by (auto simp: submit_when_drained_def prepare_h264_session_resources_def may_bind_def Let_def split: sum.splits)
next
  case None
  have backend_idle: "backend_idle (log_op HardwareReset b)"
    using None assms by (simp add: backend_idle_def)
  have rest: "backend_ok b'"
    if sps: "from_stateless_sps (va_h264 V) sps = Inr st"
      and plan: "resource_plan_new (va_h264 V) g rq st store = Inr plan"
      and run: "may_bind (prepare_h264_session_resources V A rq plan idr params) (\<lambda>_ b.
         if vb_pending b \<noteq> None then Some (Inl e, b)
         else case session_for_submit (vr_stream_id rq) (vr_coded_format rq) b of
           Inl e \<Rightarrow> Some (Inl e, b)
         | Inr i \<Rightarrow> submit_h264_prepared_locked V A rq st plan params
             (set_session i ((vb_sessions b ! i)\<lparr>ss_stream_parameters := Some st\<rparr>) b)) (log_op HardwareReset b) = Some (r, b')"
    for sps st g store plan idr e
  proof -
    have count: "0 < rs_slot_count plan"
      using resource_plan(1) [OF plan from_stateless_sps_coded [OF sps]] .
    obtain q c where q: "prepare_h264_session_resources V A rq plan idr params (log_op HardwareReset b) = Some (q, c)"
      using run by (auto simp: may_bind_def split: option.splits)
    have c: "backend_idle c" "vb_pending c = None" "backend_ok c"
      using resources_keep [OF backend_idle q] by (simp_all add: backend_idle_def)
    show ?thesis
    proof (cases "session_for_submit (vr_stream_id rq) (vr_coded_format rq) c")
      case (Inl e')
      then show ?thesis
        using run c by (cases q) (simp_all add: may_bind_def q)
    next
      case (Inr i)
      note i = session_for_submit_Inr [OF c(3) Inr]
      have "backend_idle (set_session i ((vb_sessions c ! i)\<lparr>ss_stream_parameters := Some st\<rparr>) c)"
        using i by (intro backend_idle_set_session [OF c(1) i(1)]) simp_all
      from submit_prepared_keeps [OF this count] show ?thesis
        using run c Inr by (cases q) (simp_all add: may_bind_def q)
    qed
  qed
  show ?thesis
    using assms(1,3) unfolding submit_when_drained_def Let_def
    by (auto split: sum.splits intro: rest)
qed

lemma submit_keeps: "may_keep backend_ok (submit_h264_stateless V A rq params)"
proof (rule may_keepI)
  fix b r b'
  assume ok: "backend_ok b" and run: "submit_h264_stateless V A rq params b = Some (r, b')"
  obtain q b1 where q: "recover_deferred_firmware (sa_reset A) b = (q, b1)"
    by (cases "recover_deferred_firmware (sa_reset A) b")
  have b1: "backend_ok b1"
    using ok q by (rule preservesD [OF recover_keeps])
  show "backend_ok b'"
  proof (cases q)
    case (Inl e)
    then show ?thesis
      using run b1 by (simp add: submit_h264_stateless_def may_bind_def total_step_def q)
  next
    case (Inr u)
    then have none: "vb_recovery_reason b1 = None"
      using q by (auto simp: recover_deferred_firmware_def Let_def quarantine_sessions_after_recovery_def log_op_def cancel_watchdog_def
          split: option.splits sum.splits)
    obtain v b2 where v: "drain_irq_completion V b1 = Some (v, b2)" "backend_ok b2"
      using drain_Some [OF b1, of V] by (elim exE conjE)
    have "vb_recovery_reason b2 = None"
      using v(1) none
      by (auto simp: drain_irq_completion_def commit_pending_decode_def Let_def split: option.splits sum.splits prod.splits)
    with v(2) run show ?thesis
      by (cases v) (auto simp: submit_h264_stateless_def may_bind_def total_step_def q Inr v(1) intro: submit_drained_keeps)
  qed
qed

section \<open>Every interleaving\<close>

text \<open>
  One operation of the decode interface, one interrupt with the message and the status that the
  hardware shows then, one expiry of a timer armed for some generation, or a write to memory by the
  device or by userspace.
\<close>

inductive backend_step :: "avd_abi \<Rightarrow> avd_backend \<Rightarrow> avd_backend \<Rightarrow> bool" for V where
  create: "create_session V reset fmt b = Some (r, b') \<Longrightarrow> backend_step V b b'"
| destroy: "destroy_session reset n status b = (u, b') \<Longrightarrow> backend_step V b b'"
| submit: "submit_h264_stateless V A rq params b = Some (u, b') \<Longrightarrow> backend_step V b b'"
| dequeue: "dequeue_frame V reset n b = Some (f, b') \<Longrightarrow> backend_step V b b'"
| interrupt: "avd_claim_interrupt V raw status b = (notify, b') \<Longrightarrow> backend_step V b b'"
| timer: "on_timer_expired g status b = (notify, b') \<Longrightarrow> backend_step V b b'"
| memory: "backend_step V b (b\<lparr>vb_mem := m\<rparr>)"

lemma backend_step_keeps: "backend_step V b b' \<Longrightarrow> backend_ok b \<Longrightarrow> backend_ok b'"
proof (induction rule: backend_step.induct)
  case (destroy reset n status b u b')
  then show ?case
    using preservesD [OF destroy_keeps] by blast
next
  case (interrupt raw status b notify b')
  then show ?case
    using claim_keeps by (metis snd_conv)
next
  case (timer g status b notify b')
  then show ?case
    using timer_keeps by (metis snd_conv)
next
  case (memory b m)
  then show ?case
    using backend_ok_cong [of "b\<lparr>vb_mem := m\<rparr>" b] by simp
qed (blast intro: may_keepD [OF create_keeps] may_keepD [OF submit_keeps] may_keepD [OF dequeue_keeps])+

definition backend_reachable :: "avd_abi \<Rightarrow> avd_backend \<Rightarrow> bool" where
  "backend_reachable V b \<longleftrightarrow> (\<exists>m. (backend_step V)\<^sup>*\<^sup>* (backend_new m) b)"

lemma reachable_ok: "backend_reachable V b \<Longrightarrow> backend_ok b"
proof -
  have "(backend_step V)\<^sup>*\<^sup>* a b \<Longrightarrow> backend_ok a \<Longrightarrow> backend_ok b" for a
    by (induction rule: rtranclp_induct) (auto dest: backend_step_keeps)
  then show "backend_reachable V b \<Longrightarrow> backend_ok b"
    using backend_ok_new by (auto simp: backend_reachable_def)
qed

end
