(* ===== verification/AvdH264Lists.thy ===== *)
theory AvdH264Lists
  imports AvdH264Stream "HOL-Library.Multiset"
begin

text \<open>
  The reference lists of the H.264 front end: the exchange sort by display order, the lists it
  makes for P and B slices, and the bounds on the indices that reach the hardware.
\<close>

section \<open>The exchange sort\<close>

definition key :: "reference_picture list \<Rightarrow> bool \<Rightarrow> nat \<Rightarrow> int" where
  "key refs ascending i = (if ascending then poc_of refs i else - poc_of refs i)"

lemma sort_step_key:
  "sort_step refs ascending i c xs = (if key refs ascending (xs ! c) < key refs ascending (xs ! i) then swap i c xs else xs)"
  by (simp add: sort_step_def key_def Let_def)

lemma length_swap [simp]: "length (swap i j xs) = length xs"
  by (simp add: swap_def)

lemma nth_swap:
  "i < length xs \<Longrightarrow> j < length xs \<Longrightarrow>
    swap i j xs ! k = (if k = j then xs ! i else if k = i then xs ! j else xs ! k)"
  by (auto simp: swap_def nth_list_update)

lemma mset_swap_lists: "i < length xs \<Longrightarrow> j < length xs \<Longrightarrow> mset (swap i j xs) = mset xs"
  by (simp add: swap_def mset_swap)

text \<open>Every position before \<open>i\<close> holds a least element of those from it on.\<close>

definition sorted_upto :: "('a \<Rightarrow> int) \<Rightarrow> nat \<Rightarrow> 'a list \<Rightarrow> bool" where
  "sorted_upto f i xs \<longleftrightarrow> (\<forall>a b. a < i \<and> a < b \<and> b < length xs \<longrightarrow> f (xs ! a) \<le> f (xs ! b))"

definition least_upto :: "('a \<Rightarrow> int) \<Rightarrow> nat \<Rightarrow> nat \<Rightarrow> 'a list \<Rightarrow> bool" where
  "least_upto f i c xs \<longleftrightarrow> (\<forall>b. i < b \<and> b < c \<longrightarrow> f (xs ! i) \<le> f (xs ! b))"

lemma inner_sort:
  assumes "i < length xs" and "sorted_upto f i xs" and "c \<le> length xs" and "Suc i \<le> c"
    and step: "\<And>c xs. step c xs = (if f (xs ! c) < f (xs ! i) then swap i c xs else xs)"
  shows "mset (fold step [Suc i..<c] xs) = mset xs \<and> length (fold step [Suc i..<c] xs) = length xs \<and>
    sorted_upto f i (fold step [Suc i..<c] xs) \<and> least_upto f i c (fold step [Suc i..<c] xs)"
  using assms(4,3)
proof (induction c rule: dec_induct)
  case base
  then show ?case
    using assms(2) by (auto simp: least_upto_def)
next
  case (step c)
  define ys where "ys = fold step [Suc i..<c] xs"
  have ys: "mset ys = mset xs" "length ys = length xs" "sorted_upto f i ys" "least_upto f i c ys"
    using step unfolding ys_def by auto
  have "sorted_upto f i (swap i c ys)" "least_upto f i (Suc c) (swap i c ys)" if "f (ys ! c) < f (ys ! i)"
    using that ys step.hyps step.prems
    by (auto simp: sorted_upto_def least_upto_def nth_swap less_Suc_eq)
  moreover have "least_upto f i (Suc c) ys" if "\<not> f (ys ! c) < f (ys ! i)"
    using that ys by (auto simp: least_upto_def less_Suc_eq)
  moreover have "mset (swap i c ys) = mset ys"
    using ys step by (intro mset_swap_lists) auto
  moreover have "fold step [Suc i..<Suc c] xs = step c ys"
    using step.hyps by (simp add: ys_def)
  ultimately show ?case
    using ys by (simp add: assms(5) [of c ys])
qed

lemma sorted_upto_Suc: "sorted_upto f i xs \<Longrightarrow> least_upto f i (length xs) xs \<Longrightarrow> sorted_upto f (Suc i) xs"
  by (auto simp: sorted_upto_def least_upto_def less_Suc_eq)

lemma sort_invariant:
  assumes "n \<le> length xs"
  shows "mset (fold (\<lambda>i. fold (sort_step refs asc i) [Suc i..<length xs]) [0..<n] xs) = mset xs \<and>
    length (fold (\<lambda>i. fold (sort_step refs asc i) [Suc i..<length xs]) [0..<n] xs) = length xs \<and>
    sorted_upto (key refs asc) n (fold (\<lambda>i. fold (sort_step refs asc i) [Suc i..<length xs]) [0..<n] xs)"
  using assms
proof (induction n)
  case (Suc n)
  define ys where "ys = fold (\<lambda>i. fold (sort_step refs asc i) [Suc i..<length xs]) [0..<n] xs"
  have ys: "mset ys = mset xs" "length ys = length xs" "sorted_upto (key refs asc) n ys"
    using Suc unfolding ys_def by auto
  have "mset (fold (sort_step refs asc n) [Suc n..<length xs] ys) = mset ys \<and>
      length (fold (sort_step refs asc n) [Suc n..<length xs] ys) = length ys \<and>
      sorted_upto (key refs asc) n (fold (sort_step refs asc n) [Suc n..<length xs] ys) \<and>
      least_upto (key refs asc) n (length xs) (fold (sort_step refs asc n) [Suc n..<length xs] ys)"
    using ys Suc.prems by (intro inner_sort) (auto simp: sort_step_key)
  then show ?case
    using ys sorted_upto_Suc by (fastforce simp flip: ys_def)
qed (simp add: sorted_upto_def)

lemma sort_sorts:
  "mset (sort_reference_indices_by_poc refs asc xs) = mset xs"
  "sorted (map (key refs asc) (sort_reference_indices_by_poc refs asc xs))"
  using sort_invariant [of "length xs" xs refs asc]
  by (auto simp: sort_reference_indices_by_poc_def sorted_upto_def sorted_iff_nth_mono_less)

lemma sort_set [simp]:
  "set (sort_reference_indices_by_poc refs asc xs) = set xs"
  "length (sort_reference_indices_by_poc refs asc xs) = length xs"
  "distinct (sort_reference_indices_by_poc refs asc xs) = distinct xs"
  using sort_sorts(1) [of refs asc xs]
  by (auto dest: mset_eq_setD mset_eq_length mset_eq_imp_distinct_iff)

section \<open>The lists of P and B slices\<close>

lemma fold_push_capped: "length out + length xs \<le> cap \<Longrightarrow> fold (push_capped cap) xs out = out @ xs"
  by (induction xs arbitrary: out) (auto simp: push_capped_def)

lemma usize_lists_equal_iff: "usize_lists_equal l r \<longleftrightarrow> l = r"
proof -
  have "list_all (\<lambda>(a, b). a = b) (zip l r) \<longleftrightarrow> l = r" if "length l = length r"
    using that by (induction l r rule: list_induct2) auto
  then show ?thesis
    by (auto simp: usize_lists_equal_def)
qed

lemma split_fold:
  "length b + length xs \<le> cap \<Longrightarrow> length a + length xs \<le> cap \<Longrightarrow>
   fold (\<lambda>i (b, a). if P i then (push_capped cap i b, a) else (b, push_capped cap i a)) xs (b, a) =
     (b @ filter P xs, a @ filter (\<lambda>i. \<not> P i) xs)"
  by (induction xs arbitrary: b a) (auto simp: push_capped_def)

abbreviation references_used :: "reference_picture list \<Rightarrow> nat" where
  "references_used refs \<equiv> min (length refs) 16"

lemma split_by_poc_eq:
  "split_by_poc refs cur =
     (filter (\<lambda>i. poc_of refs i < sint cur) [0..<references_used refs],
      filter (\<lambda>i. \<not> poc_of refs i < sint cur) [0..<references_used refs])"
  unfolding split_by_poc_def by (subst split_fold) auto

lemma append_comm_disjoint:
  assumes "set xs \<inter> set ys = {}"
  shows "xs @ ys = ys @ xs \<longleftrightarrow> xs = [] \<or> ys = []"
  using assms by (cases xs; cases ys) auto

definition past_refs :: "reference_picture list \<Rightarrow> 32 word \<Rightarrow> nat list" where
  "past_refs refs cur = sort_reference_indices_by_poc refs False (fst (split_by_poc refs cur))"

definition future_refs :: "reference_picture list \<Rightarrow> 32 word \<Rightarrow> nat list" where
  "future_refs refs cur = sort_reference_indices_by_poc refs True (snd (split_by_poc refs cur))"

lemma set_past_future:
  "set (past_refs refs cur) = {i. i < references_used refs \<and> poc_of refs i < sint cur}"
  "set (future_refs refs cur) = {i. i < references_used refs \<and> sint cur \<le> poc_of refs i}"
  "distinct (past_refs refs cur)" "distinct (future_refs refs cur)"
  by (auto simp: past_refs_def future_refs_def split_by_poc_eq)

lemma length_past_future: "length (past_refs refs cur) + length (future_refs refs cur) = references_used refs"
  using sum_length_filter_compl [of "\<lambda>i. poc_of refs i < sint cur" "[0..<references_used refs]"]
  by (simp add: past_refs_def future_refs_def split_by_poc_eq)

lemma sorted_past_future:
  "sorted (map (\<lambda>i. - poc_of refs i) (past_refs refs cur))" "sorted (map (poc_of refs) (future_refs refs cur))"
  using sort_sorts(2) [of refs False "fst (split_by_poc refs cur)"] sort_sorts(2) [of refs True "snd (split_by_poc refs cur)"]
  by (simp_all add: past_refs_def future_refs_def key_def [abs_def])

lemma b_lists_eq:
  "b_lists refs cur =
     (let before = past_refs refs cur; after = future_refs refs cur
      in (before @ after,
          if (before = [] \<or> after = []) \<and> 1 < length (before @ after) then swap 0 1 (after @ before) else after @ before))"
proof -
  have bound: "length (past_refs refs cur) + length (future_refs refs cur) \<le> 32"
    unfolding length_past_future by simp
  have "set (past_refs refs cur) \<inter> set (future_refs refs cur) = {}"
    by (auto simp: set_past_future)
  note comm = append_comm_disjoint [OF this]
  have "b_lists refs cur =
     (let before = past_refs refs cur; after = future_refs refs cur;
          list0 = before @ after; list1 = after @ before
      in (list0, if usize_lists_equal list0 list1 \<and> 1 < length list1 then swap 0 1 list1 else list1))"
    using bound by (simp add: b_lists_def past_refs_def future_refs_def split_beta Let_def fold_push_capped)
  then show ?thesis
    by (auto simp: Let_def usize_lists_equal_iff comm)
qed

text \<open>
  C30. A B slice without lists of its own predicts first from the pictures before it in display
  order, the nearest first, and then from those after it, the nearest first; its second list has
  the two groups in the opposite order, with the first two entries exchanged when that would make
  the lists the same. Each reference the hardware is told of is in each list once.
\<close>

lemma b_slice_lists:
  "\<exists>before after. b_lists refs cur =
     (before @ after,
      if (before = [] \<or> after = []) \<and> 1 < length (before @ after) then swap 0 1 (after @ before) else after @ before) \<and>
   set before = {i. i < min (length refs) 16 \<and> poc_of refs i < sint cur} \<and>
   set after = {i. i < min (length refs) 16 \<and> sint cur \<le> poc_of refs i} \<and>
   distinct (before @ after) \<and>
   sorted (map (\<lambda>i. - poc_of refs i) before) \<and> sorted (map (poc_of refs) after)"
proof (intro exI conjI)
  show "b_lists refs cur = (past_refs refs cur @ future_refs refs cur,
      if (past_refs refs cur = [] \<or> future_refs refs cur = []) \<and> 1 < length (past_refs refs cur @ future_refs refs cur)
      then swap 0 1 (future_refs refs cur @ past_refs refs cur) else future_refs refs cur @ past_refs refs cur)"
    by (simp add: b_lists_eq Let_def)
qed (auto simp: set_past_future sorted_past_future)

section \<open>Indices that reach the hardware\<close>

definition pack_list :: "nat list \<Rightarrow> u8 list" where
  "pack_list l = fold (\<lambda>i out. if i < 16 then push_capped 32 (of_nat i) out else out) l []"

lemma from_original_lists_eq:
  "from_original_lists l0 l1 refs = \<lparr>plan_table = take 16 refs, plan_list0 = pack_list l0, plan_list1 = pack_list l1\<rparr>"
  by (simp add: from_original_lists_def pack_list_def Let_def)

lemma pack_fold:
  "length out \<le> 32 \<Longrightarrow>
   length (fold (\<lambda>i out. if i < 16 then push_capped 32 (of_nat i :: u8) out else out) l out) \<le> 32 \<and>
   set (fold (\<lambda>i out. if i < 16 then push_capped 32 (of_nat i) out else out) l out) \<subseteq>
     set out \<union> of_nat ` {i \<in> set l. i < 16}"
proof (induction l arbitrary: out)
  case (Cons i l)
  define out' :: "u8 list" where "out' = (if i < 16 then push_capped 32 (of_nat i) out else out)"
  have "length out' \<le> 32" "set out' \<subseteq> set out \<union> of_nat ` {j. j = i \<and> j < 16}"
    using Cons.prems by (auto simp: out'_def push_capped_def)
  with Cons.IH [of out'] show ?case
    by (auto simp flip: out'_def)
qed simp

lemma pack_list:
  "length (pack_list l) \<le> 32" "unat ` set (pack_list l) \<subseteq> {i \<in> set l. i < 16}"
proof -
  show "length (pack_list l) \<le> 32"
    using pack_fold [of "[]" l] by (simp add: pack_list_def)
  have "set (pack_list l) \<subseteq> of_nat ` {i \<in> set l. i < 16}"
    using pack_fold [of "[]" l] by (simp add: pack_list_def)
  then have "unat ` set (pack_list l) \<subseteq> (\<lambda>i. unat (of_nat i :: u8)) ` {i \<in> set l. i < 16}"
    by (fastforce simp: image_image)
  also have "\<dots> = id ` {i \<in> set l. i < 16}"
    by (rule image_cong) (auto simp: unat_of_nat)
  finally show "unat ` set (pack_list l) \<subseteq> {i \<in> set l. i < 16}"
    by simp
qed

lemma explicit_set:
  "set (explicit_reference_indices K l n dpb) \<subseteq> {i. i < length dpb \<and> has_flag (de_flags (dpb ! i)) (DPB_VALID K)}"
proof -
  have "set (fold (\<lambda>e out. if unat e < length dpb
         then (if has_flag (de_flags (dpb ! unat e)) (DPB_VALID K) then push_capped 32 (unat e) out else out)
         else out) es out) \<subseteq>
      set out \<union> {i. i < length dpb \<and> has_flag (de_flags (dpb ! i)) (DPB_VALID K)}" for es :: "u8 list" and out
  proof (induction es arbitrary: out)
    case (Cons e es)
    define out' where "out' = (if unat e < length dpb
         then (if has_flag (de_flags (dpb ! unat e)) (DPB_VALID K) then push_capped 32 (unat e) out else out)
         else out)"
    have "set out' \<subseteq> set out \<union> {i. i < length dpb \<and> has_flag (de_flags (dpb ! i)) (DPB_VALID K)}"
      by (auto simp: out'_def push_capped_def)
    with Cons.IH [of out'] show ?case
      by (simp flip: out'_def) blast
  qed simp
  from this [of "take (min n 32) l" "[]"] show ?thesis
    by (simp add: explicit_reference_indices_def)
qed

lemma b_lists_set:
  "set (fst (b_lists refs cur)) \<subseteq> {..<references_used refs}"
  "set (snd (b_lists refs cur)) \<subseteq> {..<references_used refs}"
proof -
  have sw: "set (swap 0 1 xs) = set xs" if "1 < length xs" for xs :: "nat list"
    using mset_swap_lists [of 0 xs 1] that by (metis less_trans mset_eq_setD zero_less_one)
  show "set (fst (b_lists refs cur)) \<subseteq> {..<references_used refs}"
    by (auto simp: b_lists_eq Let_def set_past_future)
  show "set (snd (b_lists refs cur)) \<subseteq> {..<references_used refs}"
    by (auto simp: b_lists_eq Let_def set_past_future sw sw [simplified])
qed

lemma reference_plan_build_indices:
  "\<exists>l0 l1. reference_plan_build K rq sl refs = \<lparr>plan_table = take 16 refs, plan_list0 = pack_list l0, plan_list1 = pack_list l1\<rparr> \<and>
     set l0 \<union> set l1 \<subseteq>
       (if has_flag (sl_flags (hl_params sl)) (SLICE_REF_LISTS_PRESENT K)
        then {i. i < length (hr_dpb rq) \<and> has_flag (de_flags (hr_dpb rq ! i)) (DPB_VALID K)}
        else {..<references_used refs}) \<and>
     (hl_kind sl \<noteq> SliceB \<longrightarrow> l1 = [])"
proof (cases "has_flag (sl_flags (hl_params sl)) (SLICE_REF_LISTS_PRESENT K)")
  case True
  show ?thesis
    unfolding reference_plan_build_def Let_def from_original_lists_eq if_P [OF True]
    by (intro exI conjI, rule refl) (auto dest!: explicit_set [THEN subsetD])
next
  case False
  show ?thesis
  proof (cases "hl_kind sl")
    case SliceB
    show ?thesis
      unfolding reference_plan_build_def Let_def from_original_lists_eq if_not_P [OF False] SliceB slice_kind.case split_beta
      by (intro exI conjI, rule refl)
        (use b_lists_set [of refs "hr_current_poc rq"] in \<open>auto dest!: in_set_takeD\<close>)
  next
    case SliceP
    show ?thesis
      unfolding reference_plan_build_def Let_def from_original_lists_eq if_not_P [OF False] SliceP slice_kind.case
      by (intro exI conjI, rule refl) (auto simp: fold_push_capped)
  next
    case SliceI
    show ?thesis
      unfolding reference_plan_build_def Let_def from_original_lists_eq if_not_P [OF False] SliceI slice_kind.case
      by (intro exI conjI, rule refl) simp_all
  qed
qed

text \<open>
  C31. The reference plan of a slice is well formed: at most 16 pictures and two lists of at most 32
  entries of four bits. The entries of lists the driver makes itself name pictures of the plan; the
  entries of lists given by userspace name valid entries of its decoded picture buffer.
\<close>

lemma reference_plan_well_formed:
  "length (plan_table (reference_plan_build K rq sl refs)) \<le> 16 \<and>
   length (plan_list0 (reference_plan_build K rq sl refs)) \<le> 32 \<and>
   length (plan_list1 (reference_plan_build K rq sl refs)) \<le> 32 \<and>
   unat ` (set (plan_list0 (reference_plan_build K rq sl refs)) \<union> set (plan_list1 (reference_plan_build K rq sl refs))) \<subseteq>
     {i. i < 16 \<and>
       (if has_flag (sl_flags (hl_params sl)) (SLICE_REF_LISTS_PRESENT K)
        then i < length (hr_dpb rq) \<and> has_flag (de_flags (hr_dpb rq ! i)) (DPB_VALID K)
        else i < length (plan_table (reference_plan_build K rq sl refs)))}"
proof -
  obtain l0 l1 where plan: "reference_plan_build K rq sl refs =
      \<lparr>plan_table = take 16 refs, plan_list0 = pack_list l0, plan_list1 = pack_list l1\<rparr>"
    and sets: "set l0 \<union> set l1 \<subseteq>
       (if has_flag (sl_flags (hl_params sl)) (SLICE_REF_LISTS_PRESENT K)
        then {i. i < length (hr_dpb rq) \<and> has_flag (de_flags (hr_dpb rq ! i)) (DPB_VALID K)}
        else {..<references_used refs})"
    using reference_plan_build_indices [of K rq sl refs] by (elim exE conjE) (rule that)
  have "unat ` (set (pack_list l0) \<union> set (pack_list l1)) \<subseteq> {i \<in> set l0 \<union> set l1. i < 16}"
    using pack_list(2) [of l0] pack_list(2) [of l1] by blast
  also have "\<dots> \<subseteq> {i. i < 16 \<and>
      (if has_flag (sl_flags (hl_params sl)) (SLICE_REF_LISTS_PRESENT K)
       then i < length (hr_dpb rq) \<and> has_flag (de_flags (hr_dpb rq ! i)) (DPB_VALID K) else i < length (take 16 refs))}"
    using sets by (cases "has_flag (sl_flags (hl_params sl)) (SLICE_REF_LISTS_PRESENT K)") auto
  finally have entries: "unat ` (set (pack_list l0) \<union> set (pack_list l1)) \<subseteq> {i. i < 16 \<and>
      (if has_flag (sl_flags (hl_params sl)) (SLICE_REF_LISTS_PRESENT K)
       then i < length (hr_dpb rq) \<and> has_flag (de_flags (hr_dpb rq ! i)) (DPB_VALID K) else i < length (take 16 refs))}" .
  show ?thesis
    unfolding plan reference_plan.simps by (intro conjI pack_list(1) entries) simp
qed

section \<open>The stream fits\<close>

lemma length_concat_le: "list_all (\<lambda>x. length x \<le> k) xs \<Longrightarrow> length (concat xs) \<le> k * length xs"
  by (induction xs) auto

lemma length_ref_words:
  assumes "length (hw_reference_offsets ws) = 4"
  shows "length (ref_words rq ws refs) \<le> 87"
proof -
  have "length (concat (map (\<lambda>r. h r # rvra_words (rp_reference_dma_addr r) (hw_reference_offsets ws)) rs)) \<le> 5 * length rs"
    for h and rs :: "reference_picture list"
    using length_concat_le [of 5 "map (\<lambda>r. h r # rvra_words (rp_reference_dma_addr r) (hw_reference_offsets ws)) rs"] assms
    by (simp add: list_all_iff rvra_words_def)
  from le_trans [OF this, of "take (min (length refs) 16) refs" 80] show ?thesis
    by (auto simp: ref_words_def Let_def)
qed

lemma length_header_words:
  "length (hw_reference_offsets ws) = 4 \<Longrightarrow> length (header_words rq st sl ws) = 31"
  by (simp add: header_words_def Let_def rvra_words_def)

lemma length_slice_words: "length (slice_words rq st sl) = 6"
  by (simp add: slice_words_def Let_def)

lemma length_tail_words: "length (tail_words K rq st sl ws plan refs) \<le> 5"
  by (simp add: tail_words_def Let_def)

lemma all_some_Some:
  "list_all (\<lambda>x. \<exists>ys. x = Some ys \<and> length ys \<le> k) xs \<Longrightarrow> \<exists>ys. all_some xs = Some ys \<and> length ys \<le> k * length xs"
  by (induction xs rule: all_some.induct) auto

definition weights_wf :: "weight_factors \<Rightarrow> bool" where
  "weights_wf f \<longleftrightarrow> length (wf_luma_weight f) = 32 \<and> length (wf_luma_offset f) = 32 \<and>
     length (wf_chroma_weight f) = 32 \<and> length (wf_chroma_offset f) = 32"

lemma factor_words_Some:
  "weights_wf f \<Longrightarrow> i < 32 \<Longrightarrow> \<exists>ys. factor_words pw f l i = Some ys \<and> length ys \<le> 6"
  by (simp add: factor_words_def weights_wf_def Let_def split_beta)

text \<open>The shapes of the arrays in a request, and active counts that index its weight tables.\<close>

definition request_wf :: "h264_request \<Rightarrow> h264_slice \<Rightarrow> h264_workspace \<Rightarrow> bool" where
  "request_wf rq sl ws \<longleftrightarrow> length (hw_reference_offsets ws) = 4 \<and>
     weights_wf (fst (pw_weight_factors (hr_pred_weights rq))) \<and> weights_wf (snd (pw_weight_factors (hr_pred_weights rq))) \<and>
     sl_num_ref_idx_l0_active_minus1 (hl_params sl) < 32 \<and> sl_num_ref_idx_l1_active_minus1 (hl_params sl) < 32"

lemma weight_words_Some:
  assumes "request_wf rq sl ws"
  shows "\<exists>ys. weight_words rq sl = Some ys \<and> length ys \<le> 385"
proof -
  have n: "unat (sl_num_ref_idx_l0_active_minus1 (hl_params sl)) < 32" "unat (sl_num_ref_idx_l1_active_minus1 (hl_params sl)) < 32"
    and f: "weights_wf (fst (pw_weight_factors (hr_pred_weights rq)))" "weights_wf (snd (pw_weight_factors (hr_pred_weights rq)))"
    using assms by (auto simp: request_wf_def word_less_nat_alt)
  let ?fs = "map (factor_words (hr_pred_weights rq) (fst (pw_weight_factors (hr_pred_weights rq))) 0)
       [0..<Suc (unat (sl_num_ref_idx_l0_active_minus1 (hl_params sl)))] @
     (if hl_kind sl = SliceB
      then map (factor_words (hr_pred_weights rq) (snd (pw_weight_factors (hr_pred_weights rq))) 1)
        [0..<Suc (unat (sl_num_ref_idx_l1_active_minus1 (hl_params sl)))] else [])"
  have "list_all (\<lambda>x. \<exists>ys. x = Some ys \<and> length ys \<le> 6) ?fs"
    using n f by (auto simp: list_all_iff intro!: factor_words_Some)
  then obtain ys where "all_some ?fs = Some ys" "length ys \<le> 6 * length ?fs"
    using all_some_Some by blast
  moreover have "length ?fs \<le> 64"
    using n by simp
  ultimately show ?thesis
    by (auto simp: weight_words_def Let_def)
qed

lemma reference_words_Some:
  assumes "request_wf rq sl ws" and "length (plan_list0 plan) \<le> 32" and "length (plan_list1 plan) \<le> 32"
  shows "\<exists>ys. reference_words rq sl plan = Some ys \<and> length ys \<le> 449"
  using weight_words_Some [OF assms(1)] assms(2,3)
  by (auto simp: reference_words_def list_words_def)

lemma h264_words_Some:
  assumes "request_wf rq sl ws"
  shows "\<exists>words. h264_words K rq st sl ws refs = Some words \<and> length words \<le> 579"
proof -
  define plan where "plan = reference_plan_build K rq sl refs"
  have "length (plan_list0 plan) \<le> 32" "length (plan_list1 plan) \<le> 32"
    using reference_plan_build_indices [of K rq sl refs] pack_list(1) by (auto simp: plan_def)
  then obtain ys where ys: "reference_words rq sl plan = Some ys" "length ys \<le> 449"
    using reference_words_Some [OF assms] by blast
  have "length (hw_reference_offsets ws) = 4"
    using assms by (simp add: request_wf_def)
  note lengths = length_header_words [OF this, of rq st sl] length_ref_words [OF this, of rq "plan_table plan"]
    length_slice_words [of rq st sl] length_tail_words [of K rq st sl ws plan refs] ys(2)
  have "h264_words K rq st sl ws refs = Some (header_words rq st sl ws @
      (if hl_idr sl then [] else ref_words rq ws (plan_table plan)) @ [0] @
      slice_words rq st sl @ ys @ tail_words K rq st sl ws plan refs)"
    by (simp add: h264_words_def Let_def ys(1) flip: plan_def)
  then show ?thesis
    using lengths by (simp add: if_distrib [of length])
qed

text \<open>
  C22. For a request whose counts index its weight tables the instruction stream never runs out of
  its 1024 words: it is built without an overflow or a panic, at most 579 words, and any FIFO of the
  stream's size takes it whole; the decoder then fetches at every index the word that was pushed.
\<close>

lemma h264_stream_reaches_fifo:
  assumes "request_wf rq sl ws" and "2316 \<le> length fifo"
  shows "\<exists>words. h264_words K rq st sl ws refs = Some words \<and>
     h264_stream_build K rq st sl ws refs = Some \<lparr>is_words = words, is_overflowed = False\<rparr> \<and>
     fst (h264_write_le_bytes \<lparr>is_words = words, is_overflowed = False\<rparr> fifo) = Inr (4 * length words) \<and>
     map (\<lambda>i. le_at (snd (h264_write_le_bytes \<lparr>is_words = words, is_overflowed = False\<rparr> fifo)) (4 * i) 4)
       [0..<length words] = words"
proof -
  obtain words where words: "h264_words K rq st sl ws refs = Some words" "length words \<le> 579"
    using h264_words_Some [OF assms(1)] by blast
  then have "h264_stream_build K rq st sl ws refs = Some \<lparr>is_words = words, is_overflowed = False\<rparr>"
    by (simp add: h264_stream_build_def push_words_fit)
  moreover have "h264_write_le_bytes \<lparr>is_words = words, is_overflowed = False\<rparr> fifo =
      (Inr (4 * length words), concat (map (le_bytes 4) words) @ drop (4 * length words) fifo)"
    using words(2) assms(2) by (simp add: h264_write_le_bytes_def write_le_words_Ok)
  moreover have "map (\<lambda>i. le_at (concat (map (le_bytes 4) words) @ rest) (4 * i) 4) [0..<length words] = words" for rest
    by (rule nth_equalityI) (simp_all add: fifo_word)
  ultimately show ?thesis
    using words(1) by simp
qed

text \<open>A B frame of 64 by 48 pixels with weighted prediction from two references.\<close>

definition example_abi :: h264_abi where
  "example_abi = \<lparr>SPS_FRAME_MBS_ONLY = 1, SPS_FRAME_CROPPING = 2, SPS_DIRECT_8X8_INFERENCE = 4,
     PPS_ENTROPY_CODING_MODE = 1, PPS_TRANSFORM_8X8_MODE = 2, PPS_CONSTRAINED_INTRA_PRED = 4, PPS_WEIGHTED_PRED = 8,
     DECODE_PARAM_IDR = 1, SLICE_DIRECT_SPATIAL_MV_PRED = 1, SLICE_REF_LISTS_PRESENT = 2, DPB_VALID = 1, DPB_LONG_TERM = 2,
     PIXEL_FORMAT_NV12 = 0x3231564e\<rparr>"

definition example_slice :: h264_slice where
  "example_slice = \<lparr>hl_nal_ref_idc = 1, hl_idr = False, hl_kind = SliceB, hl_slice_data_offset = 8, hl_slice_data_len = 24,
     hl_parsed_header_bits = 40,
     hl_params = \<lparr>sl_nal_offset = 0, sl_nal_len = 32, sl_header_bit_size = 40, sl_slice_type = 1, sl_pic_parameter_set_id = 0,
       sl_first_mb_in_slice = 0, sl_cabac_init_idc = 0, sl_slice_qp_delta = 2, sl_disable_deblocking_filter_idc = 0,
       sl_alpha_c0_offset_div2 = 0, sl_beta_offset_div2 = 0, sl_num_ref_idx_l0_active_minus1 = 1,
       sl_num_ref_idx_l1_active_minus1 = 1, sl_ref_pic_list0 = [], sl_ref_pic_list1 = [], sl_flags = 0\<rparr>\<rparr>"

definition example_weights :: weight_factors where
  "example_weights = \<lparr>wf_luma_weight = replicate 32 3, wf_luma_offset = replicate 32 1,
     wf_chroma_weight = replicate 32 (1, 2), wf_chroma_offset = replicate 32 (0, 0)\<rparr>"

definition example_layout :: frame_layout where
  "example_layout = \<lparr>fl_width = 64, fl_height = 48, fl_y_stride = 64, fl_uv_stride = 64, fl_pixel_format = 0x3231564e\<rparr>"

definition example_stream :: h264_stream where
  "example_stream = \<lparr>hs_sps_id = 0, hs_profile_idc = 100, hs_level_idc = 30, hs_chroma_format_idc = 1,
     hs_bit_depth_luma_minus8 = 0, hs_bit_depth_chroma_minus8 = 0, hs_direct_8x8_inference = True, hs_width = 64, hs_height = 48,
     hs_crop_left = 0, hs_crop_top = 0, hs_coded_width = 64, hs_coded_height = 48, hs_log2_max_frame_num_minus4 = 0,
     hs_pic_order_cnt_type = 0, hs_max_num_ref_frames = 2\<rparr>"

definition example_reference :: "32 word \<Rightarrow> reference_picture" where
  "example_reference poc = \<lparr>rp_timestamp = 7, rp_reference_dma_addr = 0x40000000, rp_sps_tile_dma_addr = 0x50000000,
     rp_frame_num = 1, rp_pic_num = 1, rp_top_field_order_cnt = poc, rp_long_term = False\<rparr>"

definition example_workspace :: h264_workspace where
  "example_workspace = \<lparr>hw_instruction_fifo_dma_addr = 0x10000000, hw_pps_tile_dma_addr = 0x20000000,
     hw_sps_tile_dma_addr = 0x30000000, hw_reference_dma_addr = 0x60000000, hw_reference_offsets = rvra_offsets example_layout\<rparr>"

definition example_request :: h264_request where
  "example_request = \<lparr>hr_session_id = 1, hr_frame_number = 3, hr_input = \<lparr>dr_dma_addr = 0x70000000, dr_len = 32\<rparr>,
     hr_output = \<lparr>dr_dma_addr = 0x71000000, dr_len = 4608\<rparr>, hr_layout = example_layout, hr_current_poc = 4, hr_frame_num = 2,
     hr_flags = 2,
     hr_pps = \<lparr>pic_entropy_coding_mode = True, pic_transform_8x8_mode = True, pic_constrained_intra_pred = False,
       pic_weighted_bipred_idc = 1, pic_weighted_pred = False, pic_init_qp_minus26 = 0, pic_chroma_qp_index_offset = - 2,
       pic_second_chroma_qp_index_offset = - 2\<rparr>,
     hr_dpb = [],
     hr_pred_weights = \<lparr>pw_luma_log2_weight_denom = 2, pw_chroma_log2_weight_denom = 2,
       pw_weight_factors = (example_weights, example_weights)\<rparr>,
     hr_slice = example_slice\<rparr>"

lemmas example_defs = example_slice_def example_weights_def example_layout_def example_workspace_def example_request_def

lemma h264_stream_reaches_fifo_witness:
  "\<exists>words. h264_words example_abi example_request example_stream example_slice example_workspace
       [example_reference 2, example_reference 8] = Some words \<and>
     fst (h264_write_le_bytes \<lparr>is_words = words, is_overflowed = False\<rparr> (replicate 4096 0)) = Inr (4 * length words)"
proof -
  have "request_wf example_request example_slice example_workspace"
    by (simp add: request_wf_def weights_wf_def example_defs rvra_offsets_def Let_def)
  from h264_stream_reaches_fifo [OF this, of "replicate 4096 0" example_abi example_stream
      "[example_reference 2, example_reference 8]"]
  show ?thesis
    by auto
qed

end
