(* ===== verification/AvdDecode.thy ===== *)
theory AvdDecode
  imports AvdInvariant AvdH264Lists
begin

text \<open>
  What the client of the video decoder sees: the invariant of the backend, a decode from its submit
  to the dequeued frame, and what follows a fault.
\<close>

section \<open>The reachable states\<close>

lemma serves_in_set:
  assumes "sessions_ok b" and "\<exists>i<AVD_MAX_SESSIONS. P (vb_sessions b ! i)"
  shows "\<exists>s\<in>set (vb_sessions b). P s"
proof -
  obtain i where "i < AVD_MAX_SESSIONS" "P (vb_sessions b ! i)"
    using assms(2) by blast
  with assms(1) show ?thesis
    by (intro bexI [of _ "vb_sessions b ! i"]) (simp_all add: sessions_ok_def)
qed

lemma stream_ids: "backend_ok b \<Longrightarrow> map ss_stream_id (vb_sessions b) = [1, 2, 3, 4]"
proof -
  assume "backend_ok b"
  then have "map ss_stream_id (vb_sessions b) = map (\<lambda>i. of_nat (Suc i)) [0..<4]"
    by (intro nth_equalityI) (simp_all add: backend_ok_def sessions_ok_def AVD_MAX_SESSIONS_def)
  then show ?thesis
    by (simp add: upt_rec)
qed


definition decode_abi :: avd_abi where
  "decode_abi = \<lparr>va_h264 = slot_abi, VIDEO_FORMAT_H264 = 7, FRAME_HEADER_LEN = 20, FRAME_MAGIC = [1, 2, 3, 4],
     MSG_UNKNOWN_IRQ = 8, MSG_PP_DONE = 4, MSG_VP_ERROR = 2, MSG_VP_DONE = 1\<rparr>"


section \<open>From the submit to the frame\<close>

lemma claim_video:
  assumes "vb_pending b = Some p" and "pd_completion_phase p = WaitingVideo" and "firmware_decode V raw = VideoProcessorDone"
  shows "avd_claim_interrupt V raw status b = (False, (log_op (StatusClear 0x1000) (log_op MailboxAck b))
    \<lparr>vb_pending := Some (p\<lparr>pd_completion_phase := WaitingPostprocess\<rparr>)\<rparr>)"
  using assms by (simp add: avd_claim_interrupt_def service_completion_message_def Let_def)

lemma claim_postprocess:
  assumes "vb_pending b = Some p" and "pd_completion_phase p = WaitingPostprocess" and "firmware_decode V raw = PostProcessorDone"
    and "vb_irq_completion b = None"
  shows "\<exists>c l. avd_claim_interrupt V raw status b = (True, b\<lparr>vb_generation := vb_generation b + 1, vb_log := l, vb_irq_completion := Some c\<rparr>)"
  using assms
  by (simp add: avd_claim_interrupt_def service_completion_message_def Let_def invalidate_watchdog_from_irq_def log_op_def) blast

text \<open>The phase of a decode does not matter to its output.\<close>

lemma phase_crop:
  "check_crop n (p\<lparr>pd_completion_phase := c\<rparr>) = check_crop n p"
  "source_ends (p\<lparr>pd_completion_phase := c\<rparr>) = source_ends p"
  by (simp_all add: check_crop_def source_ends_def Let_def cong: if_cong sum.case_cong)

lemma phase_irrelevant [simp]:
  "compact_nv12_output_payload n (p\<lparr>pd_completion_phase := c\<rparr>) m = compact_nv12_output_payload n p m"
  "frame_of (p\<lparr>pd_completion_phase := c\<rparr>) = frame_of p"
  by (simp_all add: compact_nv12_output_payload_def phase_crop crop_is_payload_def frame_of_def Let_def
      cong: if_cong sum.case_cong)

lemma commit_appends:
  assumes "backend_ok b" and "i < AVD_MAX_SESSIONS" and "serves (vb_sessions b ! i) (pd_stream_id p)"
    and "cq_holds (vb_completed b) fs" and "length fs < AVD_COMPLETED_FRAME_QUEUE_LEN"
  shows "\<exists>s q. commit_pending_decode p b = Some (Inr (), (set_session i s b)\<lparr>vb_completed := q\<rparr>) \<and>
    cq_holds q (fs @ [frame_of p]) \<and> same_session (vb_sessions b ! i) s"
proof -
  have s: "session_ok (vb_sessions b ! i)" "session_index (pd_stream_id p) b = Inr i"
    using assms(1-3) session_index_serves [OF assms(1,2)] by (auto simp: backend_ok_def sessions_ok_def serves_def)
  obtain s' where s': "store_reference p (vb_sessions b ! i) = Some (Inr (), s')" "same_session (vb_sessions b ! i) s'"
    using store_reference_Some [OF s(1), of p] by (elim exE conjE)
  obtain q where q: "cq_push_back (frame_of p) (vb_completed b) = (Inr (), q)" "cq_holds q (fs @ [frame_of p])"
    using cq_push_holds [OF assms(4), of "frame_of p"] assms(5) by (metis less_irrefl)
  show ?thesis
    using s(2) s' q by (simp add: commit_pending_decode_def Let_def) blast
qed

definition filled_header :: "avd_abi \<Rightarrow> pending_decode \<Rightarrow> mem \<Rightarrow> mem" where
  "filled_header V p m = write_frame_header (FRAME_MAGIC V) (pd_output_header_vaddr p) (pd_display_width p) (pd_display_height p)
     (dl_pixel_format (pd_layout p)) (of_nat (pd_payload_len p)) m"

lemma prepare_Inr:
  "compact_nv12_output_payload (PIXEL_FORMAT_NV12 (va_h264 V)) p m = (Inr c, m') \<Longrightarrow>
   prepare_pending_decode_output (PIXEL_FORMAT_NV12 (va_h264 V)) (FRAME_MAGIC V) p m = (Inr (), filled_header V p m')"
  by (simp add: prepare_pending_decode_output_def try_bind_def filled_header_def)

lemma dequeue_finds:
  assumes "backend_ok b" and "i < AVD_MAX_SESSIONS" and "serves (vb_sessions b ! i) (df_stream_id f)"
    and "cq_holds (vb_completed b) (fs @ [f])" and "\<forall>g\<in>set fs. df_stream_id g \<noteq> df_stream_id f"
  shows "\<exists>q. (case active_session (df_stream_id f) b of Inl e \<Rightarrow> (Inl e, b)
     | Inr i \<Rightarrow> (case cq_position (\<lambda>g. df_stream_id g = df_stream_id f) (vb_completed b) of
         None \<Rightarrow> (Inr None, b)
       | Some n \<Rightarrow> (case cq_remove n (vb_completed b) of (f, q) \<Rightarrow> (Inr f, b\<lparr>vb_completed := q\<rparr>)))) = (Inr (Some f), b\<lparr>vb_completed := q\<rparr>)
     \<and> cq_holds q fs"
proof -
  have "active_session (df_stream_id f) b = Inr i"
    using session_index_serves [OF assms(1,2)] assms(3) by (simp add: active_session_def serves_def)
  moreover have "cq_position (\<lambda>g. df_stream_id g = df_stream_id f) (vb_completed b) = Some (length fs)"
    using assms(5) unfolding cq_position_holds [OF assms(4)] find_Some_iff
    by (intro exI [of _ "length fs"]) (auto simp: nth_append)
  moreover obtain q where "cq_remove (length fs) (vb_completed b) = (Some f, q)" "cq_holds q fs"
    using cq_remove_holds [OF assms(4), of "length fs"] by (metis append.right_neutral append_take_drop_id append_eq_conv_conj
        diff_self_eq_0 drop_all length_append_singleton lessI nth_append_length order_refl prod.collapse)
  ultimately show ?thesis
    by (intro exI [of _ q]) simp
qed

text \<open>
  C10. A decode that is in flight reaches its client: after the message that the video stage is done and
  the one that the post-processor is done, of which the second notifies the client, dequeuing returns
  exactly the frame of the decode, with its stream, size, timestamp and place in the output buffer.
  The memory then holds the displayed crop of what the decoder wrote, with its header; no decode is
  in flight, the watchdog is cancelled, and the frames of other streams are still queued.
\<close>

theorem decode_reaches_client:
  assumes "backend_ok b" and "vb_pending b = Some p" and "pd_completion_phase p = WaitingVideo"
    and "cq_holds (vb_completed b) fs" and "length fs < AVD_COMPLETED_FRAME_QUEUE_LEN"
    and "\<forall>f\<in>set fs. df_stream_id f \<noteq> pd_stream_id p"
    and "compact_nv12_output_payload (PIXEL_FORMAT_NV12 (va_h264 V)) p (vb_mem b) = (Inr c, m')"
    and "firmware_decode V video = VideoProcessorDone" and "firmware_decode V post = PostProcessorDone"
    and "b1 = snd (avd_claim_interrupt V video s1 b)" and "avd_claim_interrupt V post s2 b1 = (notify, b2)"
  shows "notify \<and> crop_copied p (vb_mem b) m' \<and>
    (\<exists>b3. dequeue_frame V reset (pd_stream_id p) b2 = Some (Inr (Some (frame_of p)), b3) \<and> backend_ok b3 \<and>
       vb_pending b3 = None \<and> vb_timer b3 = None \<and> vb_mem b3 = filled_header V p m' \<and> cq_holds (vb_completed b3) fs)"
proof -
  obtain i where i: "i < AVD_MAX_SESSIONS" "serves (vb_sessions b ! i) (pd_stream_id p)"
    using assms(1,2) by (auto simp: backend_ok_def pending_ok_def)
  have stages: "vb_irq_completion b = None" "vb_recovery_reason b = None"
    using assms(1-3) by (auto simp: backend_ok_def stages_ok_def)
  define p' where "p' = p\<lparr>pd_completion_phase := WaitingPostprocess\<rparr>"
  have b1: "b1 = (log_op (StatusClear 0x1000) (log_op MailboxAck b))\<lparr>vb_pending := Some p'\<rparr>"
    using claim_video [OF assms(2,3,8)] assms(10) by (simp add: p'_def)
  have b1p: "vb_pending b1 = Some p'" "pd_completion_phase p' = WaitingPostprocess" "vb_irq_completion b1 = None"
    using stages by (simp_all add: b1 p'_def)
  obtain ci l where b2: "notify" "b2 = b1\<lparr>vb_generation := vb_generation b1 + 1, vb_log := l, vb_irq_completion := Some ci\<rparr>"
    using claim_postprocess [OF b1p(1,2) assms(9) b1p(3), of s2] assms(11) by auto
  have "backend_ok b1"
    using claim_keeps [OF assms(1)] by (simp add: assms(10))
  then have ok2: "backend_ok b2"
    using claim_keeps [of b1 V post s2] assms(11) by simp
  define b0 where "b0 = (cancel_watchdog (b2\<lparr>vb_irq_completion := None, vb_pending := None\<rparr>))\<lparr>vb_mem := filled_header V p m'\<rparr>"
  have "backend_ok (b2\<lparr>vb_irq_completion := None, vb_pending := None\<rparr>)"
    using ok2 by (auto simp: backend_ok_defs)
  then have "backend_ok b0"
    using backend_ok_cong [of b0 "b2\<lparr>vb_irq_completion := None, vb_pending := None\<rparr>"] by (simp add: b0_def)
  moreover have b0: "vb_sessions b0 = vb_sessions b" "vb_completed b0 = vb_completed b" "vb_mem b0 = filled_header V p m'"
    "vb_pending b0 = None" "vb_timer b0 = None" "vb_recovery_reason b0 = None"
    using stages by (simp_all add: b0_def b2(2) b1 cancel_watchdog_def log_op_def)
  ultimately obtain s q where commit: "commit_pending_decode p' b0 = Some (Inr (), (set_session i s b0)\<lparr>vb_completed := q\<rparr>)"
    "cq_holds q (fs @ [frame_of p'])" "same_session (vb_sessions b0 ! i) s"
    using commit_appends [of b0 i p' fs] i assms(4,5) by (auto simp: p'_def)
  define b4 where "b4 = (set_session i s b0)\<lparr>vb_completed := q\<rparr>"
  have same_mem: "vb_mem b2 = vb_mem b"
    by (simp add: b2(2) b1)
  have drain: "drain_irq_completion V b2 = Some (Inr (), b4)"
    using prepare_Inr [of V p' "vb_mem b" c m'] assms(7) commit(1)
    by (simp add: drain_irq_completion_def b2(2) b1p(1) Let_def p'_def b4_def b0_def same_mem [unfolded b2(2), simplified] filled_header_def)
  have ok4: "backend_ok b4"
    using may_keepD [OF drain_keeps ok2 drain] .
  have "length (vb_sessions b0) = AVD_MAX_SESSIONS"
    using assms(1) by (simp add: b0(1) backend_ok_def sessions_ok_def)
  then have "serves (vb_sessions b4 ! i) (df_stream_id (frame_of p))"
    using i commit(3) by (auto simp: b4_def nth_set_session b0(1) serves_def same_session_def frame_of_def)
  moreover have "cq_holds (vb_completed b4) (fs @ [frame_of p])" "df_stream_id (frame_of p) = pd_stream_id p"
    using commit(2) by (simp_all add: b4_def p'_def) (simp add: frame_of_def)
  ultimately obtain q' where q': "(case active_session (pd_stream_id p) b4 of Inl e \<Rightarrow> (Inl e, b4)
     | Inr i \<Rightarrow> (case cq_position (\<lambda>g. df_stream_id g = pd_stream_id p) (vb_completed b4) of
         None \<Rightarrow> (Inr None, b4)
       | Some n \<Rightarrow> (case cq_remove n (vb_completed b4) of (f, q) \<Rightarrow> (Inr f, b4\<lparr>vb_completed := q\<rparr>)))) =
       (Inr (Some (frame_of p)), b4\<lparr>vb_completed := q'\<rparr>)" "cq_holds q' fs"
    using dequeue_finds [OF ok4 i(1), of "frame_of p" fs] assms(6) by metis
  have "dequeue_frame V reset (pd_stream_id p) b2 = Some (Inr (Some (frame_of p)), b4\<lparr>vb_completed := q'\<rparr>)"
    using q'(1) stages(2) drain
    by (simp add: dequeue_frame_def may_bind_def total_step_def recover_deferred_firmware_def b2(2) b1)
  moreover from this have "backend_ok (b4\<lparr>vb_completed := q'\<rparr>)"
    by (rule may_keepD [OF dequeue_keeps ok2])
  ultimately show ?thesis
    using b2(1) compact_crop [OF assms(7)] q'(2) b0(3-5) by (auto simp: b4_def set_session_def)
qed

text \<open>The 2 by 2 pixels of a picture of 4 by 4, decoded for stream 1.\<close>

definition decode_example :: avd_backend where
  "decode_example = (set_session 0 ((session_new 0)\<lparr>ss_active := True\<rparr>) (backend_new of_nat))
     \<lparr>vb_pending := Some (crop_example\<lparr>pd_completion_phase := WaitingVideo\<rparr>), vb_generation := 1, vb_timer := Some 1\<rparr>"

lemma decode_example_ok: "backend_ok decode_example"
proof -
  define b0 where "b0 = set_session 0 ((session_new 0)\<lparr>ss_active := True\<rparr>) (backend_new of_nat)"
  have new: "vb_sessions (backend_new of_nat) ! 0 = session_new 0" "0 < length (vb_sessions (backend_new of_nat))"
    by (simp_all add: backend_new_def AVD_MAX_SESSIONS_def)
  have "backend_ok b0"
    unfolding b0_def by (rule ok_set_session [OF backend_ok_new])
      (simp_all add: new session_ok_new AVD_MAX_SESSIONS_def, simp add: backend_new_def)
  moreover have "vb_sessions b0 ! 0 = (session_new 0)\<lparr>ss_active := True\<rparr>"
    using new(2) by (simp add: b0_def nth_set_session)
  then have "serves (vb_sessions b0 ! 0) 1" "reference_frames (vb_sessions b0 ! 0) = []"
    by (simp_all add: serves_def session_new_def reference_frames_eq)
  then have "\<exists>i<AVD_MAX_SESSIONS. serves (vb_sessions b0 ! i) 1 \<and> 0 \<notin> rf_slot ` set (reference_frames (vb_sessions b0 ! i))"
    by (intro exI [of _ "0::nat"]) (simp add: AVD_MAX_SESSIONS_def)
  moreover have "vb_irq_completion b0 = None" "vb_recovery_reason b0 = None"
    by (simp_all add: b0_def) (simp_all add: backend_new_def)
  moreover have "pd_stream_id crop_example = 1" "pd_reference_slot crop_example = 0"
    by (simp_all add: crop_example_def)
  ultimately show ?thesis
    unfolding decode_example_def b0_def [symmetric]
    by (simp add: backend_ok_def sessions_ok_def pending_ok_def completed_ok_def stages_ok_def)
qed

lemma decode_reaches_client_witness:
  "\<exists>b2 b3. avd_claim_interrupt decode_abi 4 0 (snd (avd_claim_interrupt decode_abi 1 0 decode_example)) = (True, b2) \<and>
     dequeue_frame decode_abi (Inr ()) 1 b2 = Some (Inr (Some (frame_of crop_example)), b3) \<and> backend_ok b3"
proof -
  let ?p = "crop_example\<lparr>pd_completion_phase := WaitingVideo\<rparr>"
  obtain c m' where compact: "compact_nv12_output_payload 1 crop_example of_nat = (Inr c, m')"
    by (simp add: compact_nv12_output_payload_def check_crop_def source_ends_def plane_copy_end_def nv12_tight_payload_len_def
        usize_mul_def usize_add_def crop_example_def crop_is_payload_def Let_def)
  have p: "vb_pending decode_example = Some ?p" "pd_completion_phase ?p = WaitingVideo" "pd_stream_id ?p = 1"
    by (simp_all add: decode_example_def crop_example_def)
  have empty: "cq_holds (vb_completed decode_example) []" "length ([] :: decoded_frame list) < AVD_COMPLETED_FRAME_QUEUE_LEN"
    by (simp_all add: decode_example_def backend_new_def cq_holds_new AVD_COMPLETED_FRAME_QUEUE_LEN_def)
  have run: "compact_nv12_output_payload (PIXEL_FORMAT_NV12 (va_h264 decode_abi)) ?p (vb_mem decode_example) = (Inr c, m')"
    using compact by (simp add: decode_example_def backend_new_def decode_abi_def slot_abi_def)
  have messages: "firmware_decode decode_abi 1 = VideoProcessorDone" "firmware_decode decode_abi 4 = PostProcessorDone"
    by (simp_all add: firmware_decode_def decode_abi_def)
  obtain n b2 where b2: "avd_claim_interrupt decode_abi 4 0 (snd (avd_claim_interrupt decode_abi 1 0 decode_example)) = (n, b2)"
    by (cases "avd_claim_interrupt decode_abi 4 0 (snd (avd_claim_interrupt decode_abi 1 0 decode_example))")
  show ?thesis
    using decode_reaches_client [OF decode_example_ok p(1,2) empty _ run messages refl b2, of "Inr ()"] b2 p(3) by auto
qed

section \<open>Faults\<close>

lemma fault_step:
  assumes "vb_pending b = Some p" and "avd_claim_interrupt V raw status b = (notify, b1)"
    and "pd_completion_phase p = WaitingVideo \<Longrightarrow> firmware_decode V raw \<noteq> VideoProcessorDone"
    and "pd_completion_phase p = WaitingPostprocess \<Longrightarrow> vb_irq_completion b = None \<Longrightarrow> firmware_decode V raw \<noteq> PostProcessorDone"
  shows "notify \<and> vb_pending b1 = None \<and> vb_irq_completion b1 = None \<and> vb_recovery_reason b1 = Some (ucast status) \<and>
    last (vb_log b1) = MailboxMask \<and> vb_sessions b1 = vb_sessions b \<and> vb_completed b1 = vb_completed b"
proof -
  have fault: "vb_pending (fault_recovery status u) = None \<and> vb_irq_completion (fault_recovery status u) = None \<and>
      vb_recovery_reason (fault_recovery status u) = Some (ucast status) \<and> last (vb_log (fault_recovery status u)) = MailboxMask \<and>
      vb_sessions (fault_recovery status u) = vb_sessions u \<and> vb_completed (fault_recovery status u) = vb_completed u" for u
    by (simp add: fault_recovery_def defer_recovery_def log_op_def)
  have aux: "\<exists>u. fault_recovery status v = fault_recovery status u \<and> vb_sessions u = vb_sessions b \<and> vb_completed u = vb_completed b"
    if "vb_sessions v = vb_sessions b" "vb_completed v = vb_completed b" for v
    using that by blast
  have "\<exists>e u. service_completion_message V raw status b = (Inl e, fault_recovery status u) \<and>
      vb_sessions u = vb_sessions b \<and> vb_completed u = vb_completed b"
    using assms(1,3,4)
    by (cases "firmware_decode V raw"; cases "pd_completion_phase p"; cases "vb_irq_completion b";
        auto simp: service_completion_message_def Let_def intro: aux)
  then obtain e u where u: "service_completion_message V raw status b = (Inl e, fault_recovery status u)"
      "vb_sessions u = vb_sessions b" "vb_completed u = vb_completed b"
    by blast
  then have "notify" "b1 = fault_recovery status u"
    using assms(1,2) by (auto simp: avd_claim_interrupt_def)
  then show ?thesis
    using fault [of u] u(2,3) by simp
qed

text \<open>
  C23. Any message that is not the next one of the decode in flight is a fault: the client is notified,
  the mailbox interrupt is masked as the last access, and the decode is given up. As long as the
  firmware cannot be restarted every dequeue returns that error and the recovery stays due. Once it is
  restarted no frame is left in the queue, and the client of each session that was active is told to
  recreate its session.
\<close>

theorem fault_quarantines:
  assumes "backend_ok b" and "vb_pending b = Some p" and "avd_claim_interrupt V raw status b = (notify, b1)"
    and "pd_completion_phase p = WaitingVideo \<Longrightarrow> firmware_decode V raw \<noteq> VideoProcessorDone"
    and "pd_completion_phase p = WaitingPostprocess \<Longrightarrow> vb_irq_completion b = None \<Longrightarrow> firmware_decode V raw \<noteq> PostProcessorDone"
    and "i < AVD_MAX_SESSIONS" and "ss_active (vb_sessions b ! i)" and "n = ss_stream_id (vb_sessions b ! i)"
  shows "notify \<and> last (vb_log b1) = MailboxMask \<and> vb_pending b1 = None \<and>
    (\<exists>b2. dequeue_frame V (Inl e) n b1 = Some (Inl e, b2) \<and> vb_recovery_reason b2 = Some (ucast status)) \<and>
    (\<exists>b2. dequeue_frame V (Inr ()) n b1 = Some (Inl ''apple-avd: stream requires recreation after firmware recovery'', b2) \<and>
       vb_recovery_reason b2 = None \<and> cq_holds (vb_completed b2) [] \<and> FirmwareReset \<in> set (vb_log b2))"
proof -
  have "notify \<and> vb_pending b1 = None \<and> vb_irq_completion b1 = None \<and> vb_recovery_reason b1 = Some (ucast status) \<and>
      last (vb_log b1) = MailboxMask \<and> vb_sessions b1 = vb_sessions b \<and> vb_completed b1 = vb_completed b"
    by (rule fault_step [OF assms(2,3)]) (rule assms(4,5); assumption)+
  then have f: notify "last (vb_log b1) = MailboxMask" "vb_pending b1 = None" "vb_irq_completion b1 = None"
    "vb_recovery_reason b1 = Some (ucast status)" "vb_sessions b1 = vb_sessions b"
    by simp_all
  have ok1: "backend_ok b1"
    using claim_keeps [OF assms(1), of V raw status] by (simp add: assms(3))
  have failed: "\<exists>b2. dequeue_frame V (Inl e) n b1 = Some (Inl e, b2) \<and> vb_recovery_reason b2 = Some (ucast status)"
    by (simp add: dequeue_frame_def may_bind_def total_step_def recover_deferred_firmware_def Let_def f(5))
  define b2 where "b2 = quarantine_sessions_after_recovery (log_op FirmwareReset (cancel_watchdog (b1\<lparr>vb_recovery_reason := None\<rparr>)))"
  have recover: "recover_deferred_firmware (Inr ()) b1 = (Inr (), b2)"
    by (simp add: recover_deferred_firmware_def Let_def b2_def f(5))
  have ok2: "backend_ok b2"
    using preservesD [OF recover_keeps ok1 recover] .
  have "vb_sessions b2 ! i = (session_new i)\<lparr>ss_active := True, ss_quarantined := True,
      ss_coded_format := ss_coded_format (vb_sessions b ! i)\<rparr>"
    using assms(6,7) f(6) by (simp add: b2_def quarantine_sessions_after_recovery_def Let_def)
  moreover have "n = of_nat (Suc i)"
    using assms(1,6,8) by (simp add: backend_ok_def sessions_ok_def)
  ultimately have "ss_stream_id (vb_sessions b2 ! i) = n" "ss_active (vb_sessions b2 ! i)" "ss_quarantined (vb_sessions b2 ! i)"
    by (simp_all add: session_new_def)
  with session_index_serves [OF ok2 assms(6)] have active:
    "active_session n b2 = Inl ''apple-avd: stream requires recreation after firmware recovery''"
    by (simp add: active_session_def)
  have after: "vb_irq_completion b2 = None" "vb_recovery_reason b2 = None" "FirmwareReset \<in> set (vb_log b2)"
    by (simp_all add: b2_def quarantine_sessions_after_recovery_def) (simp_all add: log_op_def cancel_watchdog_def)
  have empty: "cq_holds (vb_completed b2) []"
    using ok1 by (auto simp: b2_def quarantine_sessions_after_recovery_def backend_ok_def completed_ok_def intro: cq_clear_holds)
  have "dequeue_frame V (Inr ()) n b1 = Some (Inl ''apple-avd: stream requires recreation after firmware recovery'', b2)"
    by (simp add: dequeue_frame_def may_bind_def total_step_def recover drain_irq_completion_def after(1) active)
  with after empty have "\<exists>b2. dequeue_frame V (Inr ()) n b1 = Some (Inl ''apple-avd: stream requires recreation after firmware recovery'', b2) \<and>
       vb_recovery_reason b2 = None \<and> cq_holds (vb_completed b2) [] \<and> FirmwareReset \<in> set (vb_log b2)"
    by (intro exI [of _ b2] conjI)
  with f(1-3) failed show ?thesis
    by (intro conjI)
qed

text \<open>The video stage reports an error.\<close>

lemma fault_quarantines_witness:
  "\<exists>b1 b2. avd_claim_interrupt decode_abi 2 5 decode_example = (True, b1) \<and>
     dequeue_frame decode_abi (Inr ()) 1 b1 = Some (Inl ''apple-avd: stream requires recreation after firmware recovery'', b2)"
proof -
  have p: "vb_pending decode_example = Some (crop_example\<lparr>pd_completion_phase := WaitingVideo\<rparr>)"
    by (simp add: decode_example_def)
  have message: "firmware_decode decode_abi 2 \<noteq> VideoProcessorDone" "firmware_decode decode_abi 2 \<noteq> PostProcessorDone"
    by (simp_all add: firmware_decode_def decode_abi_def)
  have session: "vb_sessions decode_example ! 0 = (session_new 0)\<lparr>ss_active := True\<rparr>"
    by (simp add: decode_example_def set_session_def backend_new_def AVD_MAX_SESSIONS_def)
  then have active: "ss_active (vb_sessions decode_example ! 0)" "1 = ss_stream_id (vb_sessions decode_example ! 0)"
    by (simp_all add: session_new_def)
  obtain n b1 where b1: "avd_claim_interrupt decode_abi 2 5 decode_example = (n, b1)"
    by (cases "avd_claim_interrupt decode_abi 2 5 decode_example")
  have "0 < AVD_MAX_SESSIONS"
    by (simp add: AVD_MAX_SESSIONS_def)
  from fault_quarantines [OF decode_example_ok p b1 message(1) message(2) this active, of "''x''"] b1
  show ?thesis
    by auto
qed

section \<open>A submit while a decode is in flight\<close>

text \<open>
  C40. A submit while another decode is in flight is refused and changes nothing in the backend, so
  that the decode in flight stays recorded, but the hardware has been reset under it by then: the check
  for a decode in flight comes after the reset.
\<close>

theorem submit_resets_running_decode:
  assumes "backend_ok b" and "vb_pending b = Some p" and "vb_irq_completion b = None"
    and "validate_h264_request V rq = Inr ()" and "from_stateless_sps (va_h264 V) (hp_sps params) = Inr st"
    and "sa_hardware A = Inr ()"
    and "resource_plan_new (va_h264 V) (sa_granule A) rq st (dp_nal_ref_idc (hp_decode params) \<noteq> 0) = Inr plan"
  shows "submit_h264_stateless V A rq params b = Some (Inl ''apple-avd: decode already pending'', log_op HardwareReset b)"
proof -
  have "vb_recovery_reason b = None"
    using assms(1,2) by (auto simp: backend_ok_def stages_ok_def)
  then show ?thesis
    using assms(2-) by (simp add: submit_h264_stateless_def submit_when_drained_def may_bind_def total_step_def
        recover_deferred_firmware_def drain_irq_completion_def prepare_h264_session_resources_def Let_def)
qed

definition refused_params :: h264_params where
  "refused_params = \<lparr>hp_sps = slot_sps,
     hp_pps = \<lparr>pps_flags = 1, pps_weighted_bipred_idc = 0, pps_pic_init_qp_minus26 = 0, pps_chroma_qp_index_offset = 0,
       pps_second_chroma_qp_index_offset = 0\<rparr>,
     hp_slice = hl_params example_slice,
     hp_decode = \<lparr>dp_nal_ref_idc = 1, dp_flags = 0, dp_top_field_order_cnt = 0, dp_frame_num = 0, dp_dpb = []\<rparr>,
     hp_weights = hr_pred_weights example_request\<rparr>"

definition refused_answers :: submit_answers where
  "refused_answers = \<lparr>sa_reset = Inr (), sa_hardware = Inr (), sa_granule = 0x4000, sa_input_map = Some 0, sa_output_map = Some 0,
     sa_pages = Some 0, sa_workspace_map = Some 0, sa_status = 0, sa_watchdog = Inr ()\<rparr>"

lemma submit_resets_running_decode_witness:
  "\<exists>b. submit_h264_stateless decode_abi refused_answers slot_request refused_params decode_example =
     Some (Inl ''apple-avd: decode already pending'', b) \<and> vb_pending b \<noteq> None \<and> vb_log b = [HardwareReset]"
proof -
  have pending: "vb_pending decode_example = Some (crop_example\<lparr>pd_completion_phase := WaitingVideo\<rparr>)"
    "vb_irq_completion decode_example = None" "vb_log decode_example = []"
    by (simp_all add: decode_example_def) (simp_all add: backend_new_def set_session_def)
  have request: "validate_h264_request decode_abi slot_request = Inr ()"
    by (simp add: validate_h264_request_def decode_abi_def slot_request_def AVD_MAPPED_INPUT_BYTES_def)
  have sps: "from_stateless_sps (va_h264 decode_abi) (hp_sps refused_params) = Inr slot_stream"
    using slot_example(1) by (simp add: decode_abi_def refused_params_def)
  have plan: "resource_plan_new (va_h264 decode_abi) (sa_granule refused_answers) slot_request slot_stream
      (dp_nal_ref_idc (hp_decode refused_params) \<noteq> 0) = Inr slot_plan"
    using slot_example(2) by (simp add: decode_abi_def refused_answers_def refused_params_def)
  have "sa_hardware refused_answers = Inr ()"
    by (simp add: refused_answers_def)
  from submit_resets_running_decode [OF decode_example_ok pending(1,2) request sps this plan] pending
  show ?thesis
    by (simp add: log_op_def)
qed

end
