(* ===== verification/Spec2Isabelle.thy ===== *)
theory Spec2Isabelle
  imports Nco Msi EpicCalls DartDomain AvLink PmgrDomain SmcClock SpiHidPackets SpiHidKeys AicIpi AvdDecode
begin

text \<open>
  Verification of the Apple-silicon drivers of the Scarlet project.
\<close>

end
